(* ===== verification/Ts_Prelude.thy ===== *)
theory Ts_Prelude
  imports Main "HOL-Library.Word"
begin

text \<open>
  Shared vocabulary of the development: the names of the machine types that
  \<open>tsPlatform.h\<close> and \<open>tsMPEG.h\<close> use, the byte-buffer primitive
  (\<open>memcpy_at\<close>) that stands for \<open>memcpy\<close> and for pointer writes, the
  big-endian readers and writers of \<open>tsPlatform.h\<close>, and the generic facts on
  lists and words that the component theories use.

  A buffer (\<open>uint8_t*\<close> with a size) is a \<open>byte list\<close>; a pointer into it is an
  offset of type \<^typ>\<open>nat\<close>.
\<close>

unbundle bit_operations_syntax

type_synonym byte = "8 word"
type_synonym u16 = "16 word"
type_synonym u32 = "32 word"
type_synonym u64 = "64 word"

named_theorems ts_buf \<open>facts on buffers and on writes into them\<close>
named_theorems ts_field \<open>field getters after field setters\<close>

section \<open>Buffers\<close>

definition memcpy_at :: "'a list \<Rightarrow> nat \<Rightarrow> 'a list \<Rightarrow> 'a list" where
  "memcpy_at dst off src = take off dst @ src @ drop (off + length src) dst"

lemma length_memcpy_at [simp, ts_buf]:
  "off + length src \<le> length dst \<Longrightarrow> length (memcpy_at dst off src) = length dst"
  by (simp add: memcpy_at_def)

lemma nth_memcpy_at [ts_buf]:
  assumes "off + length src \<le> length dst"
  shows "memcpy_at dst off src ! i =
    (if off \<le> i \<and> i < off + length src then src ! (i - off) else dst ! i)"
proof -
  consider "i < off" | "off \<le> i" "i < off + length src" | "off + length src \<le> i"
    by linarith
  then show ?thesis
  proof cases
    case 1
    then show ?thesis using assms by (simp add: memcpy_at_def nth_append)
  next
    case 2
    then show ?thesis using assms
      by (simp add: memcpy_at_def nth_append min_absorb2) linarith
  next
    case 3
    then have "\<not> i - off < length src" by linarith
    with 3 show ?thesis using assms
      by (simp add: memcpy_at_def nth_append min_absorb2)
  qed
qed

lemma memcpy_at_Nil [simp, ts_buf]: "memcpy_at dst off [] = dst"
  by (simp add: memcpy_at_def)

lemma take_memcpy_at [ts_buf]:
  "off + length src \<le> length dst \<Longrightarrow> take off (memcpy_at dst off src) = take off dst"
  by (simp add: memcpy_at_def)

lemma drop_memcpy_at [ts_buf]:
  assumes "off + length src \<le> length dst"
  shows "drop off (memcpy_at dst off src) = src @ drop (off + length src) dst"
  using assms by (simp add: memcpy_at_def)

lemma memcpy_at_full: "length src = length dst \<Longrightarrow> memcpy_at dst 0 src = src"
  by (simp add: memcpy_at_def)

section \<open>Big-endian integers in a buffer\<close>

definition GetUInt8 :: "byte list \<Rightarrow> nat \<Rightarrow> byte" where
  "GetUInt8 b off = b ! off"

definition GetUInt16 :: "byte list \<Rightarrow> nat \<Rightarrow> u16" where
  "GetUInt16 b off = push_bit 8 (ucast (b ! off)) OR ucast (b ! (off + 1))"

definition GetUInt32 :: "byte list \<Rightarrow> nat \<Rightarrow> u32" where
  "GetUInt32 b off =
     push_bit 24 (ucast (b ! off)) OR push_bit 16 (ucast (b ! (off + 1))) OR
     push_bit 8 (ucast (b ! (off + 2))) OR ucast (b ! (off + 3))"

definition PutUInt8 :: "byte list \<Rightarrow> nat \<Rightarrow> byte \<Rightarrow> byte list" where
  "PutUInt8 b off v = memcpy_at b off [v]"

definition PutUInt16 :: "byte list \<Rightarrow> nat \<Rightarrow> u16 \<Rightarrow> byte list" where
  "PutUInt16 b off v = memcpy_at b off [ucast (drop_bit 8 v), ucast v]"

definition PutUInt32 :: "byte list \<Rightarrow> nat \<Rightarrow> u32 \<Rightarrow> byte list" where
  "PutUInt32 b off v = memcpy_at b off
     [ucast (drop_bit 24 v), ucast (drop_bit 16 v), ucast (drop_bit 8 v), ucast v]"

lemma length_PutUInt8 [simp, ts_buf]: "off < length b \<Longrightarrow> length (PutUInt8 b off v) = length b"
  by (simp add: PutUInt8_def)

lemma length_PutUInt16 [simp, ts_buf]: "off + 1 < length b \<Longrightarrow> length (PutUInt16 b off v) = length b"
  by (simp add: PutUInt16_def)

lemma length_PutUInt32 [simp, ts_buf]: "off + 3 < length b \<Longrightarrow> length (PutUInt32 b off v) = length b"
  by (simp add: PutUInt32_def)

lemma word16_of_bytes: "push_bit 8 (ucast (ucast (drop_bit 8 (v::u16)) :: byte)) OR ucast (ucast v :: byte) = v"
  by (rule bit_word_eqI) (auto simp: bit_simps)

lemma word32_of_bytes:
  "push_bit 24 (ucast (ucast (drop_bit 24 (v::u32)) :: byte)) OR
   push_bit 16 (ucast (ucast (drop_bit 16 v) :: byte)) OR
   push_bit 8 (ucast (ucast (drop_bit 8 v) :: byte)) OR ucast (ucast v :: byte) = v"
proof (rule bit_word_eqI)
  fix n
  assume "n < LENGTH(32)"
  consider "n < 8" | "8 \<le> n" "n < 16" | "16 \<le> n" "n < 24" | "24 \<le> n" by linarith
  then show "bit ((push_bit 24 (ucast (ucast (drop_bit 24 v) :: byte)) :: u32) OR
     push_bit 16 (ucast (ucast (drop_bit 16 v) :: byte)) OR
     push_bit 8 (ucast (ucast (drop_bit 8 v) :: byte)) OR ucast (ucast v :: byte)) n = bit v n"
    using \<open>n < LENGTH(32)\<close> by cases (auto simp: bit_simps)
qed

lemma Get_PutUInt16 [ts_field]: "off + 1 < length b \<Longrightarrow> GetUInt16 (PutUInt16 b off v) off = v"
  by (simp add: GetUInt16_def PutUInt16_def nth_memcpy_at word16_of_bytes)

lemma Get_PutUInt32 [ts_field]: "off + 3 < length b \<Longrightarrow> GetUInt32 (PutUInt32 b off v) off = v"
  by (simp add: GetUInt32_def PutUInt32_def nth_memcpy_at numeral_2_eq_2 numeral_3_eq_3 word32_of_bytes)

lemma Get_PutUInt16_other [ts_field]:
  "off + 1 < length b \<Longrightarrow> off' + 1 < off \<or> off + 1 < off' \<Longrightarrow>
   GetUInt16 (PutUInt16 b off v) off' = GetUInt16 b off'"
  by (auto simp: GetUInt16_def PutUInt16_def nth_memcpy_at)

lemma GetUInt16_update_other [ts_field]:
  "i < off \<or> off + 1 < i \<Longrightarrow> GetUInt16 (b[i := v]) off = GetUInt16 b off"
  by (auto simp: GetUInt16_def)

lemma GetUInt16_append [simp]: "off + 1 < length a \<Longrightarrow> GetUInt16 (a @ b) off = GetUInt16 a off"
  by (simp add: GetUInt16_def nth_append)

lemma GetUInt16_take [simp]: "off + 1 < n \<Longrightarrow> GetUInt16 (take n a) off = GetUInt16 a off"
  by (simp add: GetUInt16_def)

lemma GetUInt16_drop: "n + off + 1 < length a \<Longrightarrow> GetUInt16 (drop n a) off = GetUInt16 a (n + off)"
  by (simp add: GetUInt16_def add.assoc)

lemma ucast_high_low_bytes:
  fixes a b :: byte
  shows "(ucast (drop_bit 8 ((push_bit 8 (ucast a) :: u16) OR ucast b)) :: byte) = a"
    and "(ucast ((push_bit 8 (ucast a) :: u16) OR ucast b) :: byte) = b"
  by (rule bit_word_eqI; auto simp: bit_simps dest: bit_imp_le_length)+

section \<open>Words and numbers\<close>

lemma unat_and_mask: "unat (w AND mask n) = unat w mod 2 ^ n" for w :: "'a::len word"
  by (metis take_bit_eq_mask unsigned_take_bit_eq take_bit_eq_mod)

lemma unat_take_bit: "unat (take_bit n w) = unat w mod 2 ^ n" for w :: "'a::len word"
  by (metis unsigned_take_bit_eq take_bit_eq_mod)

lemma take_bit_word_id: "unat w < 2 ^ n \<Longrightarrow> take_bit n w = w" for w :: "'a::len word"
  by (metis take_bit_nat_eq_self unsigned_take_bit_eq word_unat_eq_iff)

lemma not_bit_take_bit_id: "take_bit n w = w \<Longrightarrow> n \<le> i \<Longrightarrow> \<not> bit w i" for w :: "'a::len word"
  by (metis bit_take_bit_iff leD)


section \<open>Bits of masked fields\<close>

text \<open>Masks as ranges of bits, and the rules that read one bit of a combination of
  fields: unfolding both turns an equation on masks into linear arithmetic on bit
  positions.\<close>

lemma byte_masks:
  "(0x01 :: byte) = mask 1" "(0x0E :: byte) = push_bit 1 (mask 3)" "(0x0F :: byte) = mask 4"
  "(0x10 :: byte) = push_bit 4 (mask 1)" "(0x1F :: byte) = mask 5"
  "(0x20 :: byte) = push_bit 5 (mask 1)" "(0x3F :: byte) = mask 6"
  "(0x40 :: byte) = push_bit 6 (mask 1)" "(0x80 :: byte) = push_bit 7 (mask 1)"
  "(0xC0 :: byte) = push_bit 6 (mask 2)" "(0xE0 :: byte) = push_bit 5 (mask 3)"
  "(0xF0 :: byte) = push_bit 4 (mask 4)" "(0xF1 :: byte) = mask 1 OR push_bit 4 (mask 4)"
  "(0xC1 :: byte) = mask 1 OR push_bit 6 (mask 2)" "(0xFE :: byte) = push_bit 1 (mask 7)"
  by (simp_all add: mask_eq_exp_minus_1)

lemma u16_masks:
  "(0x0001 :: u16) = mask 1" "(0x00FF :: u16) = mask 8" "(0x01FF :: u16) = mask 9"
  "(0x0FFF :: u16) = mask 12" "(0x1FFF :: u16) = mask 13" "(0xFFFE :: u16) = push_bit 1 (mask 15)"
  "(0x3000 :: u16) = push_bit 12 (mask 2)" "(0x4000 :: u16) = push_bit 14 (mask 1)"
  "(0x8000 :: u16) = push_bit 15 (mask 1)"
  by (simp_all add: mask_eq_exp_minus_1)

lemmas ts_bits = bit_or_iff bit_and_iff bit_xor_iff bit_not_iff bit_push_bit_iff bit_unsigned_iff
  bit_drop_bit_eq bit_take_bit_iff comp_def bit_mask_iff

lemma mask_1_bit_0: "w AND 1 = (if bit w 0 then 1 else 0)" for w :: "'a::len word"
  by (simp add: and_one_eq mod_2_eq_odd bit_0)

text \<open>A test against a one-bit mask reads that bit.\<close>

lemma byte_flags:
  fixes x :: byte
  shows "(x AND 0x80 = 0) = (\<not> bit x 7)" "(x AND 0x40 = 0) = (\<not> bit x 6)"
    "(x AND 0x20 = 0) = (\<not> bit x 5)" "(x AND 0x10 = 0) = (\<not> bit x 4)"
    "(x AND 0x08 = 0) = (\<not> bit x 3)" "(x AND 0x04 = 0) = (\<not> bit x 2)"
    "(x AND 0x02 = 0) = (\<not> bit x 1)" "(x AND 0x01 = 0) = (\<not> bit x 0)"
    "(x AND 0x01 = 1) = bit x 0"
  using and_exp_eq_0_iff_not_bit [of x 7] and_exp_eq_0_iff_not_bit [of x 6]
    and_exp_eq_0_iff_not_bit [of x 5] and_exp_eq_0_iff_not_bit [of x 4]
    and_exp_eq_0_iff_not_bit [of x 3] and_exp_eq_0_iff_not_bit [of x 2]
    and_exp_eq_0_iff_not_bit [of x 1] and_exp_eq_0_iff_not_bit [of x 0]
  by (simp_all add: and_one_eq mod_2_eq_odd bit_0)

end
