(* ===== verification/Ts_Mpeg.thy ===== *)
theory Ts_Mpeg
  imports Ts_Prelude
begin

text \<open>
  The MPEG level definitions of \<open>tsMPEG.h\<close> and \<open>tsMPEG.cpp\<close>: constants, packet and
  bitrate arithmetic (on 64-bit words, as the code), clock wrap-up tests and stream-id
  classification; and the PCR codec of \<open>tsPCR.cpp\<close>.
\<close>

section \<open>Constants\<close>

abbreviation (input) PKT_SIZE :: nat where "PKT_SIZE \<equiv> 188"
abbreviation (input) SYNC_BYTE :: byte where "SYNC_BYTE \<equiv> 0x47"
abbreviation (input) PID_NULL :: u16 where "PID_NULL \<equiv> 0x1FFF"
abbreviation (input) CC_MASK :: byte where "CC_MASK \<equiv> 0x0F"
abbreviation (input) SHORT_SECTION_HEADER_SIZE :: nat where "SHORT_SECTION_HEADER_SIZE \<equiv> 3"
abbreviation (input) LONG_SECTION_HEADER_SIZE :: nat where "LONG_SECTION_HEADER_SIZE \<equiv> 8"
abbreviation (input) SECTION_CRC32_SIZE :: nat where "SECTION_CRC32_SIZE \<equiv> 4"
abbreviation (input) MAX_PRIVATE_SECTION_SIZE :: nat where "MAX_PRIVATE_SECTION_SIZE \<equiv> 4096"
abbreviation (input) MIN_SHORT_SECTION_SIZE :: nat where "MIN_SHORT_SECTION_SIZE \<equiv> 3"
abbreviation (input) MIN_LONG_SECTION_SIZE :: nat where "MIN_LONG_SECTION_SIZE \<equiv> 12"
abbreviation (input) PCR_MASK :: u64 where "PCR_MASK \<equiv> 0x000003FFFFFFFFFF"
abbreviation (input) INVALID_PCR :: u64 where "INVALID_PCR \<equiv> 0xFFFFFFFFFFFFFFFF"
abbreviation (input) INVALID_PACKET_COUNTER :: u64 where "INVALID_PACKET_COUNTER \<equiv> 0xFFFFFFFFFFFFFFFF"
abbreviation (input) SYSTEM_CLOCK_FREQ :: u64 where "SYSTEM_CLOCK_FREQ \<equiv> 27000000"

section \<open>Packet arithmetic\<close>

type_synonym BitRate = u32
type_synonym PacketCounter = u64
type_synonym MilliSecond = u64 \<comment> \<open>a signed 64-bit integer, two's complement\<close>

definition PacketInterval :: "BitRate \<Rightarrow> PacketCounter \<Rightarrow> MilliSecond" where
  "PacketInterval bitrate distance =
     (if bitrate = 0 then 0 else (distance * 8 * 188 * 1000) div ucast bitrate)"

definition PacketDistance :: "BitRate \<Rightarrow> MilliSecond \<Rightarrow> PacketCounter" where
  "PacketDistance bitrate duration =
     (ucast bitrate * (if 0 <=s duration then duration else - duration)) div (1000 * 8 * 188)"

definition PacketBitRate :: "PacketCounter \<Rightarrow> MilliSecond \<Rightarrow> BitRate" where
  "PacketBitRate packets duration =
     (if duration = 0 then 0 else ucast ((packets * 8 * 188 * 1000) div duration))"

definition SectionPacketCount :: "nat \<Rightarrow> nat" where
  "SectionPacketCount section_size = (section_size + 184) div 184"

lemma SectionPacketCount_bounds:
  "section_size + 1 \<le> 184 * SectionPacketCount section_size"
  "184 * SectionPacketCount section_size \<le> section_size + 184"
  unfolding SectionPacketCount_def by linarith+

section \<open>Clock wrap-up\<close>

definition WrapUpPCR :: "u64 \<Rightarrow> u64 \<Rightarrow> bool" where
  "WrapUpPCR pcr1 pcr2 = (pcr2 < pcr1 \<and> pcr1 - pcr2 > 0x000003F000000000)"

definition WrapUpPTS :: "u64 \<Rightarrow> u64 \<Rightarrow> bool" where
  "WrapUpPTS pts1 pts2 = (pts2 < pts1 \<and> pts1 - pts2 > 0x00000001F0000000)"

definition SequencedPTS :: "u64 \<Rightarrow> u64 \<Rightarrow> bool" where
  "SequencedPTS pts1 pts2 = (pts1 \<le> pts2 \<or> WrapUpPTS pts1 pts2)"

section \<open>Stream identifiers\<close>

definition IsVideoSID :: "byte \<Rightarrow> bool" where
  "IsVideoSID sid = (sid AND NOT 0x0F = 0xE0)"

definition IsAudioSID :: "byte \<Rightarrow> bool" where
  "IsAudioSID sid = (sid AND NOT 0x1F = 0xC0)"

definition IsLongHeaderSID :: "byte \<Rightarrow> bool" where
  "IsLongHeaderSID sid =
     (sid \<noteq> 0xBC \<and> sid \<noteq> 0xBE \<and> sid \<noteq> 0xBF \<and> sid \<noteq> 0xF0 \<and> sid \<noteq> 0xF1 \<and>
      sid \<noteq> 0xFF \<and> sid \<noteq> 0xF2 \<and> sid \<noteq> 0xF8)"

section \<open>Program clock references\<close>

definition GetPCR :: "byte list \<Rightarrow> nat \<Rightarrow> u64" where
  "GetPCR b off =
     (let v32 = GetUInt32 b off; v16 = GetUInt16 b (off + 4);
          pcr_base = push_bit 1 (ucast v32) OR ucast (drop_bit 15 v16);
          pcr_ext = ucast (v16 AND 0x01FF)
      in pcr_base * 300 + pcr_ext)"

definition PutPCR :: "byte list \<Rightarrow> nat \<Rightarrow> u64 \<Rightarrow> byte list" where
  "PutPCR b off pcr =
     (let pcr_base = pcr div 300; pcr_ext = pcr mod 300;
          b1 = PutUInt32 b off (ucast (drop_bit 1 pcr_base))
      in PutUInt16 b1 (off + 4) (ucast (push_bit 15 pcr_base OR 0x7E00 OR pcr_ext)))"

text \<open>A PCR value is a 33-bit base in units of 300, so valid values are below
  \<open>2 ^ 33 * 300\<close>.\<close>

definition PCR_LIMIT :: nat where
  "PCR_LIMIT = 2 ^ 33 * 300"

lemma length_PutPCR [simp, ts_buf]: "off + 5 < length b \<Longrightarrow> length (PutPCR b off pcr) = length b"
  by (simp add: PutPCR_def Let_def)

lemma nth_PutPCR_other [ts_buf]:
  "off + 5 < length b \<Longrightarrow> i < off \<or> off + 6 \<le> i \<Longrightarrow> PutPCR b off pcr ! i = b ! i"
  by (auto simp: PutPCR_def Let_def PutUInt16_def PutUInt32_def nth_memcpy_at)

lemma pcr_base_bits:
  fixes base ext :: u64
  assumes "unat ext < 512"
  shows "(push_bit 1 (ucast (ucast (drop_bit 1 base) :: u32)) :: u64) OR
         ucast (drop_bit 15 (ucast (push_bit 15 base OR 0x7E00 OR ext) :: u16)) = take_bit 33 base"
proof (rule bit_word_eqI)
  fix n
  assume "n < LENGTH(64)"
  have ext: "take_bit 9 ext = ext"
    using assms by (intro take_bit_word_id) simp
  have e15: "\<not> bit ext 15"
    using not_bit_take_bit_id [OF ext] by simp
  have c15: "\<not> bit (0x7E00 :: u64) 15" by simp
  show "bit ((push_bit 1 (ucast (ucast (drop_bit 1 base) :: u32)) :: u64) OR
         ucast (drop_bit 15 (ucast (push_bit 15 base OR 0x7E00 OR ext) :: u16))) n
      = bit (take_bit 33 base) n"
    using \<open>n < LENGTH(64)\<close> e15 c15
    unfolding bit_or_iff bit_push_bit_iff bit_unsigned_iff bit_drop_bit_eq bit_take_bit_iff comp_def
    by (cases "n = 0") (auto simp: bit_simps simp del: bit_numeral_iff)
qed

lemma pcr_ext_bits:
  fixes base ext :: u64
  assumes "unat ext < 512"
  shows "ucast ((ucast (push_bit 15 base OR 0x7E00 OR ext) :: u16) AND 0x01FF) = ext"
proof -
  have ext: "take_bit 9 ext = ext"
    using assms by (intro take_bit_word_id) simp
  have m: "(0x01FF :: u16) = mask 9" by (simp add: mask_eq_exp_minus_1)
  have c: "take_bit 9 (0x7E00 :: u64) = 0" by simp
  have c': "\<not> bit (0x7E00 :: u64) n" if "n < 9" for n
    using c that by (metis bit_take_bit_iff bit_0_eq bot_apply bot_bool_def)
  have "ucast ((ucast (push_bit 15 base OR 0x7E00 OR ext) :: u16) AND 0x01FF) = take_bit 9 ext"
    unfolding m by (rule bit_word_eqI) (use c' in \<open>auto simp: bit_simps simp del: bit_numeral_iff\<close>)
  with ext show ?thesis by simp
qed


lemma GetPCR_PutPCR:
  assumes "off + 5 < length b"
  shows "GetPCR (PutPCR b off pcr) off = take_bit 33 (pcr div 300) * 300 + pcr mod 300"
proof -
  have e: "unat (pcr mod 300) < 512"
    by (simp add: unat_mod order_less_trans [OF mod_less_divisor])
  have h: "GetUInt32 (PutPCR b off pcr) off = ucast (drop_bit 1 (pcr div 300))"
    using assms by (simp add: PutPCR_def Let_def PutUInt16_def PutUInt32_def GetUInt32_def
        nth_memcpy_at numeral_2_eq_2 numeral_3_eq_3 word32_of_bytes)
  have l: "GetUInt16 (PutPCR b off pcr) (off + 4) =
      ucast (push_bit 15 (pcr div 300) OR 0x7E00 OR pcr mod 300)"
    using assms by (simp add: PutPCR_def Let_def Get_PutUInt16)
  show ?thesis
    unfolding GetPCR_def Let_def h l
    by (simp only: pcr_base_bits [OF e] pcr_ext_bits [OF e])
qed

lemma unat_PCR_parts:
  fixes pcr :: u64
  shows "unat (take_bit 33 (pcr div 300) * 300 + pcr mod 300) =
         (unat pcr div 300) mod 2 ^ 33 * 300 + unat pcr mod 300"
proof -
  have b: "unat (take_bit 33 (pcr div 300)) = (unat pcr div 300) mod 2 ^ 33"
    by (simp only: unat_take_bit) (simp add: unat_div)
  have "(unat pcr div 300) mod 2 ^ 33 * 300 + unat pcr mod 300 < 2 ^ 64"
  proof -
    have "(unat pcr div 300) mod 8589934592 < 8589934592" and "unat pcr mod 300 < 300" by simp_all
    then have "(unat pcr div 300) mod 8589934592 * 300 + unat pcr mod 300 < 18446744073709551616" by linarith
    then show ?thesis by simp
  qed
  then show ?thesis
    by (simp add: unat_word_ariths b unat_mod)
qed

lemma GetPCR_PutPCR_valid [ts_field]:
  assumes "off + 5 < length b" and "unat pcr < PCR_LIMIT"
  shows "GetPCR (PutPCR b off pcr) off = pcr"
proof -
  have "unat pcr div 300 < 2 ^ 33"
    using assms(2) by (simp add: PCR_LIMIT_def less_mult_imp_div_less)
  then have "unat (GetPCR (PutPCR b off pcr) off) = unat pcr"
    using assms(1) by (simp add: GetPCR_PutPCR unat_PCR_parts)
  then show ?thesis by (simp add: word_unat_eq_iff)
qed

text \<open>
  The wrap-up test on PCR's never holds: no two valid PCR values (below \<open>2 ^ 33 * 300\<close>) are
  further apart than its threshold, which was computed for a 42-bit counter.
\<close>
theorem WrapUpPCR_never:
  assumes "unat pcr1 < PCR_LIMIT"
  shows "\<not> WrapUpPCR pcr1 pcr2"
proof
  assume w: "WrapUpPCR pcr1 pcr2"
  then have "unat (pcr1 - pcr2) \<le> unat pcr1"
    by (simp add: WrapUpPCR_def unat_sub order_less_imp_le)
  moreover have "4329327034368 < unat (pcr1 - pcr2)"
    using w by (simp add: WrapUpPCR_def word_less_nat_alt)
  ultimately show False using assms by (simp add: PCR_LIMIT_def)
qed

theorem WrapUpPCR_never_witness: "\<not> WrapUpPCR 2576980377599 0"
  using WrapUpPCR_never [of 2576980377599 0] by (simp add: PCR_LIMIT_def)

end
