(* ===== verification/Ts_Packet.thy ===== *)
theory Ts_Packet
  imports Ts_Mpeg
begin

text \<open>
  The transport packet of \<open>tsTSPacket.h\<close> and \<open>tsTSPacket.cpp\<close>: the 188-byte array
  \<open>b\<close> with its header accessors, the adaptation field and the PCR, OPCR, PTS and DTS
  codecs. A packet is the byte list \<open>b\<close>; \<open>valid_packet\<close> is the size of the C++
  array, which no operation changes. \<open>getPayload\<close> returns an offset in the packet
  where the code returns a pointer.
\<close>

section \<open>Packets and constant packets\<close>

type_synonym TSPacket = "byte list"

definition valid_packet :: "TSPacket \<Rightarrow> bool" where
  "valid_packet p = (length p = PKT_SIZE)"

definition NullPacket :: TSPacket where
  "NullPacket = [0x47, 0x1F, 0xFF, 0x10] @ replicate 184 0xFF"

definition EmptyPacket :: TSPacket where
  "EmptyPacket = [0x47, 0x1F, 0xFF, 0x20, 183, 0x00] @ replicate 182 0xFF"

section \<open>Header accessors\<close>

definition hasValidSync :: "TSPacket \<Rightarrow> bool" where
  "hasValidSync b = (b ! 0 = SYNC_BYTE)"

definition getPID :: "TSPacket \<Rightarrow> u16" where
  "getPID b = GetUInt16 b 1 AND 0x1FFF"

definition setPID :: "TSPacket \<Rightarrow> u16 \<Rightarrow> TSPacket" where
  "setPID b pid =
     (let b1 = b[1 := (b ! 1 AND 0xE0) OR (ucast (drop_bit 8 pid) AND 0x1F)]
      in b1[2 := ucast (pid AND 0x00FF)])"

definition getPUSI :: "TSPacket \<Rightarrow> bool" where
  "getPUSI b = (b ! 1 AND 0x40 \<noteq> 0)"

definition clearPUSI :: "TSPacket \<Rightarrow> TSPacket" where
  "clearPUSI b = b[1 := b ! 1 AND NOT 0x40]"

definition setPUSI :: "TSPacket \<Rightarrow> TSPacket" where
  "setPUSI b = b[1 := b ! 1 OR 0x40]"

definition getTEI :: "TSPacket \<Rightarrow> bool" where
  "getTEI b = (b ! 1 AND 0x80 \<noteq> 0)"

definition clearTEI :: "TSPacket \<Rightarrow> TSPacket" where
  "clearTEI b = b[1 := b ! 1 AND NOT 0x80]"

definition setTEI :: "TSPacket \<Rightarrow> TSPacket" where
  "setTEI b = b[1 := b ! 1 OR 0x80]"

definition getPriority :: "TSPacket \<Rightarrow> bool" where
  "getPriority b = (b ! 1 AND 0x20 \<noteq> 0)"

definition clearPriority :: "TSPacket \<Rightarrow> TSPacket" where
  "clearPriority b = b[1 := b ! 1 AND NOT 0x20]"

definition setPriority :: "TSPacket \<Rightarrow> TSPacket" where
  "setPriority b = b[1 := b ! 1 OR 0x20]"

definition getScrambling :: "TSPacket \<Rightarrow> byte" where
  "getScrambling b = drop_bit 6 (b ! 3)"

definition isClear :: "TSPacket \<Rightarrow> bool" where
  "isClear b = (drop_bit 6 (b ! 3) = 0)"

definition isScrambled :: "TSPacket \<Rightarrow> bool" where
  "isScrambled b = (drop_bit 6 (b ! 3) \<noteq> 0)"

definition setScrambling :: "TSPacket \<Rightarrow> byte \<Rightarrow> TSPacket" where
  "setScrambling b sc = b[3 := (b ! 3 AND 0x3F) OR push_bit 6 sc]"

definition getCC :: "TSPacket \<Rightarrow> byte" where
  "getCC b = b ! 3 AND 0x0F"

definition setCC :: "TSPacket \<Rightarrow> byte \<Rightarrow> TSPacket" where
  "setCC b cc = b[3 := (b ! 3 AND 0xF0) OR (cc AND 0x0F)]"

definition hasAF :: "TSPacket \<Rightarrow> bool" where
  "hasAF b = (b ! 3 AND 0x20 \<noteq> 0)"

definition getAFSize :: "TSPacket \<Rightarrow> nat" where
  "getAFSize b = (if hasAF b then unat (b ! 4) else 0)"

definition getHeaderSize :: "TSPacket \<Rightarrow> nat" where
  "getHeaderSize b = min (4 + (if hasAF b then unat (b ! 4) + 1 else 0)) PKT_SIZE"

definition hasPayload :: "TSPacket \<Rightarrow> bool" where
  "hasPayload b = (b ! 3 AND 0x10 \<noteq> 0)"

definition getPayload :: "TSPacket \<Rightarrow> nat" where
  "getPayload b = getHeaderSize b"

definition getPayloadSize :: "TSPacket \<Rightarrow> nat" where
  "getPayloadSize b = (if hasPayload b then PKT_SIZE - getHeaderSize b else 0)"

section \<open>Adaptation field\<close>

definition getDiscontinuityIndicator :: "TSPacket \<Rightarrow> bool" where
  "getDiscontinuityIndicator b = (if getAFSize b > 0 then b ! 5 AND 0x80 \<noteq> 0 else False)"

definition getRandomAccessIndicator :: "TSPacket \<Rightarrow> bool" where
  "getRandomAccessIndicator b = (if getAFSize b > 0 then b ! 5 AND 0x40 \<noteq> 0 else False)"

definition getESPI :: "TSPacket \<Rightarrow> bool" where
  "getESPI b = (if getAFSize b > 0 then b ! 5 AND 0x20 \<noteq> 0 else False)"

definition hasPCR :: "TSPacket \<Rightarrow> bool" where
  "hasPCR b = (getAFSize b > 0 \<and> b ! 5 AND 0x10 \<noteq> 0)"

definition hasOPCR :: "TSPacket \<Rightarrow> bool" where
  "hasOPCR b = (getAFSize b > 0 \<and> b ! 5 AND 0x08 \<noteq> 0)"

definition hasSpliceCountdown :: "TSPacket \<Rightarrow> bool" where
  "hasSpliceCountdown b = (getAFSize b > 0 \<and> b ! 5 AND 0x04 \<noteq> 0)"

definition PCROffset :: "TSPacket \<Rightarrow> nat" where
  "PCROffset b = (if hasPCR b \<and> b ! 4 \<ge> 7 then 6 else 0)"

definition OPCROffset :: "TSPacket \<Rightarrow> nat" where
  "OPCROffset b =
     (if \<not> hasOPCR b then 0
      else if hasPCR b then (if b ! 4 \<ge> 13 then 12 else 0)
      else (if b ! 4 \<ge> 7 then 6 else 0))"

definition spliceCountdownOffset :: "TSPacket \<Rightarrow> nat" where
  "spliceCountdownOffset b =
     (if \<not> hasSpliceCountdown b then 0
      else if hasPCR b \<and> hasOPCR b then (if b ! 4 \<ge> 14 then 18 else 0)
      else if hasPCR b \<or> hasOPCR b then (if b ! 4 \<ge> 8 then 12 else 0)
      else (if b ! 4 \<ge> 2 then 6 else 0))"

definition getPCR :: "TSPacket \<Rightarrow> u64" where
  "getPCR b = (let offset = PCROffset b in if offset = 0 then 0 else GetPCR b offset)"

definition getOPCR :: "TSPacket \<Rightarrow> u64" where
  "getOPCR b = (let offset = OPCROffset b in if offset = 0 then 0 else GetPCR b offset)"

definition getSpliceCountdown :: "TSPacket \<Rightarrow> byte" where
  "getSpliceCountdown b = (let offset = spliceCountdownOffset b in if offset = 0 then 0 else b ! offset)"

text \<open>The exception of the class, raised when there is no clock to replace.\<close>

datatype packet_error = AdaptationFieldError string

definition setPCR :: "TSPacket \<Rightarrow> u64 \<Rightarrow> packet_error + TSPacket" where
  "setPCR b pcr =
     (let offset = PCROffset b in
      if offset = 0 then Inl (AdaptationFieldError ''No PCR in packet, cannot replace'')
      else Inr (PutPCR b offset pcr))"

definition setOPCR :: "TSPacket \<Rightarrow> u64 \<Rightarrow> packet_error + TSPacket" where
  "setOPCR b opcr =
     (let offset = OPCROffset b in
      if offset = 0 then Inl (AdaptationFieldError ''No OPCR in packet, cannot replace'')
      else Inr (PutPCR b offset opcr))"

section \<open>PES header and time stamps\<close>

definition startPES :: "TSPacket \<Rightarrow> bool" where
  "startPES b =
     (let pl = getPayload b in
      hasValidSync b \<and> getPUSI b \<and> isClear b \<and> hasPayload b \<and> getPayloadSize b \<ge> 3 \<and>
      b ! pl = 0x00 \<and> b ! (pl + 1) = 0x00 \<and> b ! (pl + 2) = 0x01)"

definition PTSOffset :: "TSPacket \<Rightarrow> nat" where
  "PTSOffset b =
     (if \<not> startPES b then 0
      else
        let pl_size = getPayloadSize b; pl = getPayload b in
        if pl_size < 14 \<or> \<not> IsLongHeaderSID (b ! (pl + 3)) then 0
        else
          let pts_dts_flags = drop_bit 6 (b ! (pl + 7)) in
          if pts_dts_flags AND 0x02 = 0 \<or>
             (pts_dts_flags = 0x02 \<and> b ! (pl + 9) AND 0xF1 \<noteq> 0x21) \<or>
             (pts_dts_flags = 0x03 \<and> b ! (pl + 9) AND 0xF1 \<noteq> 0x31) \<or>
             b ! (pl + 11) AND 0x01 \<noteq> 0x01 \<or>
             b ! (pl + 13) AND 0x01 \<noteq> 0x01
          then 0
          else pl + 9)"

definition DTSOffset :: "TSPacket \<Rightarrow> nat" where
  "DTSOffset b =
     (if \<not> startPES b then 0
      else
        let pl_size = getPayloadSize b; pl = getPayload b in
        if pl_size < 19 \<or>
           b ! (pl + 7) AND 0xC0 \<noteq> 0xC0 \<or>
           b ! (pl + 9) AND 0xF1 \<noteq> 0x31 \<or>
           b ! (pl + 11) AND 0x01 \<noteq> 0x01 \<or>
           b ! (pl + 13) AND 0x01 \<noteq> 0x01 \<or>
           b ! (pl + 14) AND 0xF1 \<noteq> 0x11 \<or>
           b ! (pl + 16) AND 0x01 \<noteq> 0x01 \<or>
           b ! (pl + 18) AND 0x01 \<noteq> 0x01
        then 0
        else pl + 14)"

definition getPDTS :: "TSPacket \<Rightarrow> nat \<Rightarrow> u64" where
  "getPDTS b offset =
     (if offset = 0 then 0
      else push_bit 29 (ucast (b ! offset AND 0x0E)) OR
           push_bit 14 (ucast (GetUInt16 b (offset + 1) AND 0xFFFE)) OR
           drop_bit 1 (ucast (GetUInt16 b (offset + 3))))"

definition setPDTS :: "TSPacket \<Rightarrow> u64 \<Rightarrow> nat \<Rightarrow> TSPacket" where
  "setPDTS b pdts offset =
     (if offset \<noteq> 0 then
        let b1 = b[offset := (b ! offset AND 0xF1) OR (ucast (drop_bit 29 pdts) AND 0x0E)];
            b2 = PutUInt16 b1 (offset + 1)
                   ((GetUInt16 b1 (offset + 1) AND 0x0001) OR (ucast (drop_bit 14 pdts) AND 0xFFFE))
        in PutUInt16 b2 (offset + 3)
             ((GetUInt16 b2 (offset + 3) AND 0x0001) OR (ucast (push_bit 1 pdts) AND 0xFFFE))
      else b)"

definition hasPTS :: "TSPacket \<Rightarrow> bool" where "hasPTS b = (PTSOffset b > 0)"
definition hasDTS :: "TSPacket \<Rightarrow> bool" where "hasDTS b = (DTSOffset b > 0)"
definition getPTS :: "TSPacket \<Rightarrow> u64" where "getPTS b = getPDTS b (PTSOffset b)"
definition getDTS :: "TSPacket \<Rightarrow> u64" where "getDTS b = getPDTS b (DTSOffset b)"
definition setPTS :: "TSPacket \<Rightarrow> u64 \<Rightarrow> TSPacket" where "setPTS b pts = setPDTS b pts (PTSOffset b)"
definition setDTS :: "TSPacket \<Rightarrow> u64 \<Rightarrow> TSPacket" where "setDTS b dts = setPDTS b dts (DTSOffset b)"

section \<open>Header fields\<close>

lemma valid_packet_setters [simp]:
  "valid_packet (setPID b pid) = valid_packet b" "valid_packet (setCC b cc) = valid_packet b"
  "valid_packet (setPUSI b) = valid_packet b" "valid_packet (clearPUSI b) = valid_packet b"
  "valid_packet (setScrambling b sc) = valid_packet b"
  by (simp_all add: valid_packet_def setPID_def setCC_def setPUSI_def clearPUSI_def setScrambling_def Let_def)

lemma valid_NullPacket [simp]: "valid_packet NullPacket"
  by (simp add: valid_packet_def NullPacket_def)

lemma getPUSI_bit: "getPUSI b = bit (b ! 1) 6"
  and getTEI_bit: "getTEI b = bit (b ! 1) 7"
  and getPriority_bit: "getPriority b = bit (b ! 1) 5"
  and hasAF_bit: "hasAF b = bit (b ! 3) 5"
  and hasPayload_bit: "hasPayload b = bit (b ! 3) 4"
  by (simp_all add: getPUSI_def getTEI_def getPriority_def hasAF_def hasPayload_def byte_flags)

lemmas packet_flags = getPUSI_bit getTEI_bit getPriority_bit hasAF_bit hasPayload_bit

lemma setPID_bits:
  fixes x :: byte and pid :: u16
  shows "(push_bit 8 (ucast ((x AND 0xE0) OR (ucast (drop_bit 8 pid) AND 0x1F) :: byte)) OR
          ucast (ucast (pid AND 0x00FF) :: byte)) AND 0x1FFF = pid AND 0x1FFF"
  unfolding byte_masks u16_masks
  by (rule bit_word_eqI, unfold ts_bits) auto

lemma pid_in_range: "pid AND 0x1FFF = pid" if "pid \<le> 0x1FFF" for pid :: u16
proof -
  have "unat pid < 2 ^ 13" using that by (simp add: word_le_nat_alt)
  then have "take_bit 13 pid = pid" by (rule take_bit_word_id)
  then show ?thesis by (simp add: take_bit_eq_mask mask_eq_exp_minus_1)
qed

lemma getPID_setPID [ts_field]: "valid_packet b \<Longrightarrow> getPID (setPID b pid) = pid AND 0x1FFF"
  by (simp add: valid_packet_def getPID_def setPID_def Let_def GetUInt16_def setPID_bits numeral_2_eq_2)

lemma setPID_flags [ts_field]:
  "valid_packet b \<Longrightarrow> getPUSI (setPID b pid) = getPUSI b"
  "valid_packet b \<Longrightarrow> getTEI (setPID b pid) = getTEI b"
  "valid_packet b \<Longrightarrow> getPriority (setPID b pid) = getPriority b"
  by (simp_all add: valid_packet_def packet_flags setPID_def Let_def ts_bits)

lemma setPID_other [ts_field]: "i \<noteq> 1 \<Longrightarrow> i \<noteq> 2 \<Longrightarrow> setPID b pid ! i = b ! i"
  by (simp add: setPID_def Let_def)

lemma setCC_fields [ts_field]:
  "valid_packet b \<Longrightarrow> getCC (setCC b cc) = cc AND 0x0F"
  "valid_packet b \<Longrightarrow> getScrambling (setCC b cc) = getScrambling b"
  "valid_packet b \<Longrightarrow> hasAF (setCC b cc) = hasAF b"
  "valid_packet b \<Longrightarrow> hasPayload (setCC b cc) = hasPayload b"
  "i \<noteq> 3 \<Longrightarrow> setCC b cc ! i = b ! i"
proof -
  assume v: "valid_packet b"
  show "getCC (setCC b cc) = cc AND 0x0F" using v
    unfolding getCC_def setCC_def valid_packet_def byte_masks
    by simp (rule bit_word_eqI, unfold ts_bits, auto)
  show "getScrambling (setCC b cc) = getScrambling b" using v
    unfolding getScrambling_def setCC_def valid_packet_def byte_masks
    by simp (rule bit_word_eqI, unfold ts_bits, auto dest: bit_imp_le_length)
  show "hasAF (setCC b cc) = hasAF b" "hasPayload (setCC b cc) = hasPayload b" using v
    by (simp_all add: packet_flags setCC_def valid_packet_def ts_bits)
qed (simp add: setCC_def)

lemma getHeaderSize_bounds: "4 \<le> getHeaderSize b" "getHeaderSize b \<le> 188"
  by (simp_all add: getHeaderSize_def)

lemma header_payload_partition:
  assumes "valid_packet b"
  shows "getHeaderSize b + (if hasPayload b then getPayloadSize b else PKT_SIZE - getHeaderSize b) = length b"
  using assms getHeaderSize_bounds [of b] by (simp add: valid_packet_def getPayloadSize_def)

section \<open>Clock references\<close>

lemma PCROffset_cases: "PCROffset b = 0 \<or> PCROffset b = 6"
  by (simp add: PCROffset_def)

lemma PCROffset_cong:
  "(\<And>i. i < 6 \<Longrightarrow> b' ! i = b ! i) \<Longrightarrow> PCROffset b' = PCROffset b"
  by (simp add: PCROffset_def hasPCR_def getAFSize_def hasAF_def)


section \<open>Presentation and decoding time stamps\<close>

lemma PDTS_bits:
  fixes v :: u64 and x :: byte and y z :: u16
  shows "push_bit 29 (ucast (((x AND 0xF1) OR (ucast (drop_bit 29 v) AND 0x0E)) AND 0x0E)) OR
         push_bit 14 (ucast (((y AND 0x0001) OR (ucast (drop_bit 14 v) AND 0xFFFE)) AND 0xFFFE)) OR
         drop_bit 1 (ucast ((z AND 0x0001) OR (ucast (push_bit 1 v) AND 0xFFFE))) = take_bit 33 v"
proof (rule bit_word_eqI)
  fix n
  assume n: "n < LENGTH(64)"
  consider "n < 15" | "15 \<le> n" "n < 30" | "30 \<le> n" "n < 33" | "33 \<le> n" by linarith
  then show "bit ((push_bit 29 (ucast (((x AND 0xF1) OR (ucast (drop_bit 29 v) AND 0x0E)) AND 0x0E)) OR
         push_bit 14 (ucast (((y AND 0x0001) OR (ucast (drop_bit 14 v) AND 0xFFFE)) AND 0xFFFE)) OR
         drop_bit 1 (ucast ((z AND 0x0001) OR (ucast (push_bit 1 v) AND 0xFFFE)))) :: u64) n =
      bit (take_bit 33 v) n"
    unfolding byte_masks u16_masks ts_bits using n by cases auto
qed

lemma length_setPDTS [simp]: "offset + 4 < length b \<Longrightarrow> length (setPDTS b v offset) = length b"
  by (simp add: setPDTS_def Let_def)

lemma setPDTS_other:
  "offset + 4 < length b \<Longrightarrow> i < offset \<or> offset + 5 \<le> i \<Longrightarrow> setPDTS b v offset ! i = b ! i"
  by (auto simp: setPDTS_def Let_def PutUInt16_def nth_memcpy_at)

lemma getPDTS_setPDTS:
  assumes "offset \<noteq> 0" and "offset + 4 < length b"
  shows "getPDTS (setPDTS b v offset) offset = take_bit 33 v"
proof -
  have h: "GetUInt16 (setPDTS b v offset) (offset + 1) =
      (GetUInt16 b (offset + 1) AND 0x0001) OR (ucast (drop_bit 14 v) AND 0xFFFE)"
    using assms by (simp add: setPDTS_def Let_def ts_field)
  have l: "GetUInt16 (setPDTS b v offset) (offset + 3) =
      (GetUInt16 b (offset + 3) AND 0x0001) OR (ucast (push_bit 1 v) AND 0xFFFE)"
    using assms by (simp add: setPDTS_def Let_def ts_field)
  have t: "setPDTS b v offset ! offset = (b ! offset AND 0xF1) OR (ucast (drop_bit 29 v) AND 0x0E)"
    using assms by (simp add: setPDTS_def Let_def PutUInt16_def nth_memcpy_at)
  show ?thesis
    using assms(1) unfolding getPDTS_def h l t by (simp only: if_False) (rule PDTS_bits)
qed


lemma setPDTS_markers:
  assumes "offset \<noteq> 0" and "offset + 4 < length b"
  shows "setPDTS b v offset ! offset AND 0xF1 = b ! offset AND 0xF1"
    and "setPDTS b v offset ! (offset + 2) AND 0x01 = b ! (offset + 2) AND 0x01"
    and "setPDTS b v offset ! (offset + 4) AND 0x01 = b ! (offset + 4) AND 0x01"
proof -
  have e: "ucast ((y AND 0x0001) OR (x AND 0xFFFE) :: u16) AND (0x01 :: byte) = ucast y AND 0x01" for x y :: u16
    unfolding byte_masks u16_masks by (rule bit_word_eqI, unfold ts_bits) auto
  have l: "ucast (GetUInt16 b' i) AND (0x01 :: byte) = b' ! (i + 1) AND 0x01" for b' i
    unfolding byte_masks GetUInt16_def by (rule bit_word_eqI, unfold ts_bits) auto
  have m: "((x AND 0xF1) OR (y AND 0x0E)) AND 0xF1 = x AND 0xF1" for x y :: byte
    unfolding byte_masks by (rule bit_word_eqI, unfold ts_bits) auto
  show "setPDTS b v offset ! offset AND 0xF1 = b ! offset AND 0xF1"
    using assms m by (simp add: setPDTS_def Let_def PutUInt16_def nth_memcpy_at)
  show "setPDTS b v offset ! (offset + 2) AND 0x01 = b ! (offset + 2) AND 0x01"
    using assms e l [of b "offset + 1"]
    by (simp add: setPDTS_def Let_def PutUInt16_def nth_memcpy_at ts_field)
  show "setPDTS b v offset ! (offset + 4) AND 0x01 = b ! (offset + 4) AND 0x01"
    using assms e l [of b "offset + 3"]
    by (simp add: setPDTS_def Let_def PutUInt16_def [of _ "offset + 3"] nth_memcpy_at ts_field
        add.commute [of 4 offset])
qed


lemma startPES_cong:
  assumes "\<And>i. i < getHeaderSize b + 3 \<Longrightarrow> b' ! i = b ! i"
  shows "startPES b' = startPES b \<and> getHeaderSize b' = getHeaderSize b \<and> getPayloadSize b' = getPayloadSize b"
proof -
  have "b' ! i = b ! i" if "i < 5" for i
    using assms that getHeaderSize_bounds(1) [of b] by simp
  then have "getHeaderSize b' = getHeaderSize b" "getPayloadSize b' = getPayloadSize b"
    by (simp_all add: getHeaderSize_def getPayloadSize_def hasAF_def hasPayload_def)
  moreover have "b' ! 0 = b ! 0" "b' ! 1 = b ! 1" "b' ! 3 = b ! 3"
    using \<open>\<And>i. i < 5 \<Longrightarrow> b' ! i = b ! i\<close> by simp_all
  ultimately show ?thesis
    using assms by (simp add: startPES_def Let_def getPayload_def hasValidSync_def getPUSI_def
        isClear_def hasPayload_def)
qed

lemma PTSOffset_bounds:
  assumes "PTSOffset b \<noteq> 0"
  shows "PTSOffset b = getHeaderSize b + 9" and "PTSOffset b + 4 < 188" and "startPES b"
  using assms getHeaderSize_bounds [of b]
  by (auto simp: PTSOffset_def Let_def getPayload_def getPayloadSize_def split: if_splits)

lemma PTSOffset_setPTS:
  assumes "valid_packet b" and "hasPTS b"
  shows "PTSOffset (setPTS b v) = PTSOffset b"
proof -
  let ?o = "PTSOffset b" and ?b' = "setPTS b v"
  have o: "?o \<noteq> 0" using assms(2) by (simp add: hasPTS_def)
  note bnd = PTSOffset_bounds [OF o]
  have lt: "?o + 4 < length b" using assms(1) bnd(2) by (simp add: valid_packet_def)
  have same: "?b' ! i = b ! i" if "i < ?o" for i
    using setPDTS_other [OF lt, of i] that by (simp add: setPTS_def)
  have s: "startPES ?b' = startPES b" "getHeaderSize ?b' = getHeaderSize b"
      "getPayloadSize ?b' = getPayloadSize b"
    using startPES_cong [of b ?b'] same bnd(1) by simp_all
  have mk: "?b' ! ?o AND 0xF1 = b ! ?o AND 0xF1"
      "?b' ! (?o + 2) AND 0x01 = b ! (?o + 2) AND 0x01"
      "?b' ! (?o + 4) AND 0x01 = b ! (?o + 4) AND 0x01"
    using setPDTS_markers [OF o lt] by (simp_all add: setPTS_def)
  have h: "?b' ! (getHeaderSize b + 3) = b ! (getHeaderSize b + 3)"
      "?b' ! (getHeaderSize b + 7) = b ! (getHeaderSize b + 7)"
    using same bnd(1) by simp_all
  show ?thesis
    using mk h unfolding bnd(1)
    by (simp add: PTSOffset_def [of ?b'] PTSOffset_def [of b] Let_def getPayload_def s add.assoc
        add.commute [of 11 "getHeaderSize b"] add.commute [of 13 "getHeaderSize b"])
      (use bnd(1) in \<open>simp add: PTSOffset_def [of b] Let_def getPayload_def split: if_splits\<close>)
qed

text \<open>
  C35. Writing a PTS: in a packet that has one, the packet still has one at the same place
  (the marker bits survive), it reads back as the value modulo \<open>2 ^ 33\<close>, and no byte
  outside the five of the field changes.
\<close>
theorem setPTS_getPTS:
  assumes "valid_packet b" and "hasPTS b"
  shows "hasPTS (setPTS b v) \<and> getPTS (setPTS b v) = take_bit 33 v \<and> valid_packet (setPTS b v) \<and>
    (\<forall>i. i < PTSOffset b \<or> PTSOffset b + 5 \<le> i \<longrightarrow> setPTS b v ! i = b ! i)"
proof -
  have o: "PTSOffset b \<noteq> 0" using assms(2) by (simp add: hasPTS_def)
  have lt: "PTSOffset b + 4 < length b"
    using assms(1) PTSOffset_bounds(2) [OF o] by (simp add: valid_packet_def)
  note off = PTSOffset_setPTS [OF assms, of v]
  have "hasPTS (setPTS b v)" using off o by (simp add: hasPTS_def)
  moreover have "getPTS (setPTS b v) = take_bit 33 v"
    using off getPDTS_setPDTS [OF o lt] by (simp add: getPTS_def) (simp add: setPTS_def)
  moreover have "valid_packet (setPTS b v)" using assms(1) lt by (simp add: valid_packet_def setPTS_def)
  ultimately show ?thesis using setPDTS_other [OF lt] by (simp add: setPTS_def)
qed

text \<open>Concrete packets for the witnesses: one with a PCR, one that starts a PES packet with
  a PTS.\<close>

definition sample_pcr_packet :: TSPacket where
  "sample_pcr_packet = [0x47, 0x01, 0x00, 0x30, 7, 0x10, 0, 0, 0, 0, 0x7E, 0] @ replicate 176 0xFF"

definition sample_pts_packet :: TSPacket where
  "sample_pts_packet = [0x47, 0x41, 0x00, 0x10, 0, 0, 1, 0xE0, 0, 0, 0x80, 0x80, 5, 0x21, 0, 1, 0, 1] @ replicate 170 0xFF"


theorem setPTS_getPTS_witness:
  "hasPTS (setPTS sample_pts_packet 900000) \<and> getPTS (setPTS sample_pts_packet 900000) = 900000"
proof -
  have "hasPTS sample_pts_packet" "valid_packet sample_pts_packet"
    by (simp_all add: sample_pts_packet_def hasPTS_def PTSOffset_def startPES_def Let_def getPayload_def
        getHeaderSize_def hasAF_def hasValidSync_def getPUSI_def isClear_def hasPayload_def getPayloadSize_def
        IsLongHeaderSID_def valid_packet_def)
  from setPTS_getPTS [OF this(2,1), of 900000] show ?thesis by simp
qed

end
