(* ===== verification/Ts_CRC32.thy ===== *)
theory Ts_CRC32
  imports Ts_Prelude
begin

text \<open>
  The MPEG-2 cyclic redundancy check of \<open>tsCRC32.cpp\<close> and \<open>tsCRC32.h\<close>: the
  look-up table, the byte-wise update and the value of a buffer; a bit-serial reference
  (division by the generator polynomial \<open>0x04C11DB7\<close>) and the equivalence of the two.
\<close>

section \<open>The table-driven code\<close>

definition fcstab_32 :: "u32 list" where
  "fcstab_32 = [
    0x00000000, 0x04C11DB7, 0x09823B6E, 0x0D4326D9,
    0x130476DC, 0x17C56B6B, 0x1A864DB2, 0x1E475005,
    0x2608EDB8, 0x22C9F00F, 0x2F8AD6D6, 0x2B4BCB61,
    0x350C9B64, 0x31CD86D3, 0x3C8EA00A, 0x384FBDBD,
    0x4C11DB70, 0x48D0C6C7, 0x4593E01E, 0x4152FDA9,
    0x5F15ADAC, 0x5BD4B01B, 0x569796C2, 0x52568B75,
    0x6A1936C8, 0x6ED82B7F, 0x639B0DA6, 0x675A1011,
    0x791D4014, 0x7DDC5DA3, 0x709F7B7A, 0x745E66CD,
    0x9823B6E0, 0x9CE2AB57, 0x91A18D8E, 0x95609039,
    0x8B27C03C, 0x8FE6DD8B, 0x82A5FB52, 0x8664E6E5,
    0xBE2B5B58, 0xBAEA46EF, 0xB7A96036, 0xB3687D81,
    0xAD2F2D84, 0xA9EE3033, 0xA4AD16EA, 0xA06C0B5D,
    0xD4326D90, 0xD0F37027, 0xDDB056FE, 0xD9714B49,
    0xC7361B4C, 0xC3F706FB, 0xCEB42022, 0xCA753D95,
    0xF23A8028, 0xF6FB9D9F, 0xFBB8BB46, 0xFF79A6F1,
    0xE13EF6F4, 0xE5FFEB43, 0xE8BCCD9A, 0xEC7DD02D,
    0x34867077, 0x30476DC0, 0x3D044B19, 0x39C556AE,
    0x278206AB, 0x23431B1C, 0x2E003DC5, 0x2AC12072,
    0x128E9DCF, 0x164F8078, 0x1B0CA6A1, 0x1FCDBB16,
    0x018AEB13, 0x054BF6A4, 0x0808D07D, 0x0CC9CDCA,
    0x7897AB07, 0x7C56B6B0, 0x71159069, 0x75D48DDE,
    0x6B93DDDB, 0x6F52C06C, 0x6211E6B5, 0x66D0FB02,
    0x5E9F46BF, 0x5A5E5B08, 0x571D7DD1, 0x53DC6066,
    0x4D9B3063, 0x495A2DD4, 0x44190B0D, 0x40D816BA,
    0xACA5C697, 0xA864DB20, 0xA527FDF9, 0xA1E6E04E,
    0xBFA1B04B, 0xBB60ADFC, 0xB6238B25, 0xB2E29692,
    0x8AAD2B2F, 0x8E6C3698, 0x832F1041, 0x87EE0DF6,
    0x99A95DF3, 0x9D684044, 0x902B669D, 0x94EA7B2A,
    0xE0B41DE7, 0xE4750050, 0xE9362689, 0xEDF73B3E,
    0xF3B06B3B, 0xF771768C, 0xFA325055, 0xFEF34DE2,
    0xC6BCF05F, 0xC27DEDE8, 0xCF3ECB31, 0xCBFFD686,
    0xD5B88683, 0xD1799B34, 0xDC3ABDED, 0xD8FBA05A,
    0x690CE0EE, 0x6DCDFD59, 0x608EDB80, 0x644FC637,
    0x7A089632, 0x7EC98B85, 0x738AAD5C, 0x774BB0EB,
    0x4F040D56, 0x4BC510E1, 0x46863638, 0x42472B8F,
    0x5C007B8A, 0x58C1663D, 0x558240E4, 0x51435D53,
    0x251D3B9E, 0x21DC2629, 0x2C9F00F0, 0x285E1D47,
    0x36194D42, 0x32D850F5, 0x3F9B762C, 0x3B5A6B9B,
    0x0315D626, 0x07D4CB91, 0x0A97ED48, 0x0E56F0FF,
    0x1011A0FA, 0x14D0BD4D, 0x19939B94, 0x1D528623,
    0xF12F560E, 0xF5EE4BB9, 0xF8AD6D60, 0xFC6C70D7,
    0xE22B20D2, 0xE6EA3D65, 0xEBA91BBC, 0xEF68060B,
    0xD727BBB6, 0xD3E6A601, 0xDEA580D8, 0xDA649D6F,
    0xC423CD6A, 0xC0E2D0DD, 0xCDA1F604, 0xC960EBB3,
    0xBD3E8D7E, 0xB9FF90C9, 0xB4BCB610, 0xB07DABA7,
    0xAE3AFBA2, 0xAAFBE615, 0xA7B8C0CC, 0xA379DD7B,
    0x9B3660C6, 0x9FF77D71, 0x92B45BA8, 0x9675461F,
    0x8832161A, 0x8CF30BAD, 0x81B02D74, 0x857130C3,
    0x5D8A9099, 0x594B8D2E, 0x5408ABF7, 0x50C9B640,
    0x4E8EE645, 0x4A4FFBF2, 0x470CDD2B, 0x43CDC09C,
    0x7B827D21, 0x7F436096, 0x7200464F, 0x76C15BF8,
    0x68860BFD, 0x6C47164A, 0x61043093, 0x65C52D24,
    0x119B4BE9, 0x155A565E, 0x18197087, 0x1CD86D30,
    0x029F3D35, 0x065E2082, 0x0B1D065B, 0x0FDC1BEC,
    0x3793A651, 0x3352BBE6, 0x3E119D3F, 0x3AD08088,
    0x2497D08D, 0x2056CD3A, 0x2D15EBE3, 0x29D4F654,
    0xC5A92679, 0xC1683BCE, 0xCC2B1D17, 0xC8EA00A0,
    0xD6AD50A5, 0xD26C4D12, 0xDF2F6BCB, 0xDBEE767C,
    0xE3A1CBC1, 0xE760D676, 0xEA23F0AF, 0xEEE2ED18,
    0xF0A5BD1D, 0xF464A0AA, 0xF9278673, 0xFDE69BC4,
    0x89B8FD09, 0x8D79E0BE, 0x803AC667, 0x84FBDBD0,
    0x9ABC8BD5, 0x9E7D9662, 0x933EB0BB, 0x97FFAD0C,
    0xAFB010B1, 0xAB710D06, 0xA6322BDF, 0xA2F33668,
    0xBCB4666D, 0xB8757BDA, 0xB5365D03, 0xB1F740B4]"

definition crc32_step :: "u32 \<Rightarrow> byte \<Rightarrow> u32" where
  "crc32_step fcs c =
     push_bit 8 fcs XOR fcstab_32 ! unat ((drop_bit 24 fcs XOR ucast c) AND 0xFF)"

definition crc32_add :: "u32 \<Rightarrow> byte list \<Rightarrow> u32" where
  "crc32_add fcs data = foldl crc32_step fcs data"

definition CRC32 :: "byte list \<Rightarrow> u32" where
  "CRC32 data = crc32_add 0xFFFFFFFF data"

section \<open>The bit-serial reference\<close>

definition crc_shift :: "u32 \<Rightarrow> u32" where
  "crc_shift x = (if bit x 31 then push_bit 1 x XOR 0x04C11DB7 else push_bit 1 x)"

definition crc_ref_step :: "u32 \<Rightarrow> byte \<Rightarrow> u32" where
  "crc_ref_step fcs c = (crc_shift ^^ 8) (fcs XOR push_bit 24 (ucast c))"

definition crc_ref :: "byte list \<Rightarrow> u32" where
  "crc_ref data = foldl crc_ref_step 0xFFFFFFFF data"

section \<open>Equivalence and error detection\<close>

fun crc_tab :: "nat \<Rightarrow> u32 \<Rightarrow> u32 list" where
  "crc_tab 0 i = []"
| "crc_tab (Suc n) i = (crc_shift ^^ 8) (push_bit 24 i) # crc_tab n (i + 1)"

lemma nth_crc_tab: "k < n \<Longrightarrow> crc_tab n i ! k = (crc_shift ^^ 8) (push_bit 24 (i + of_nat k))"
  by (induction n arbitrary: i k) (auto simp: nth_Cons add.assoc split: nat.split)

lemma crc_tab_append: "crc_tab (m + n) i = crc_tab m i @ crc_tab n (i + of_nat m)"
  by (induction m arbitrary: i) (auto simp: add.assoc)

lemma crc_shift8:
  "(crc_shift ^^ 8) x =
     crc_shift (crc_shift (crc_shift (crc_shift (crc_shift (crc_shift (crc_shift (crc_shift x)))))))"
  by (simp add: eval_nat_numeral)

lemma crc_tab_num:
  "crc_tab (numeral k) i = (crc_shift ^^ 8) (push_bit 24 i) # crc_tab (pred_numeral k) (i + 1)"
  by (simp add: numeral_eq_Suc)

lemma fcstab_quarters:
  "take 64 fcstab_32 = crc_tab 64 0"
  "take 64 (drop 64 fcstab_32) = crc_tab 64 64"
  "take 64 (drop 128 fcstab_32) = crc_tab 64 128"
  "drop 192 fcstab_32 = crc_tab 64 192"
  subgoal by (simp add: fcstab_32_def crc_tab_num) (simp add: crc_shift_def crc_shift8)
  subgoal by (simp add: fcstab_32_def crc_tab_num) (simp add: crc_shift_def crc_shift8)
  subgoal by (simp add: fcstab_32_def crc_tab_num) (simp add: crc_shift_def crc_shift8)
  subgoal by (simp add: fcstab_32_def crc_tab_num) (simp add: crc_shift_def crc_shift8)
  done

lemma fcstab_32_eq: "fcstab_32 = crc_tab 256 0"
proof -
  have "fcstab_32 = take 64 fcstab_32 @ take 64 (drop 64 fcstab_32) @ take 64 (drop 128 fcstab_32) @ drop 192 fcstab_32"
    by (simp flip: append_assoc take_add)
  also have "\<dots> = crc_tab (64 + (64 + (64 + 64))) 0"
    unfolding fcstab_quarters crc_tab_append by simp
  finally show ?thesis by simp
qed

lemma crc_shift_xor: "crc_shift (x XOR y) = crc_shift x XOR crc_shift y"
  by (simp add: crc_shift_def bit_xor_iff push_bit_xor ac_simps)

lemma crc_shift_funpow_xor: "(crc_shift ^^ n) (x XOR y) = (crc_shift ^^ n) x XOR (crc_shift ^^ n) y"
  by (induction n) (simp_all add: crc_shift_xor)

lemma crc_shift_low: "j \<le> 8 \<Longrightarrow> (crc_shift ^^ j) (take_bit 24 x) = push_bit j (take_bit 24 x)"
proof (induction j)
  case 0
  show ?case by simp
next
  case (Suc j)
  then have "\<not> bit (push_bit j (take_bit 24 x)) 31" unfolding ts_bits by linarith
  with Suc show ?case by (simp add: crc_shift_def push_bit_push_bit)
qed

lemma crc32_step_ref: "crc32_step fcs c = crc_ref_step fcs c"
proof -
  let ?i = "(drop_bit 24 fcs XOR ucast c) AND 0xFF :: u32"
  have m: "(0xFF :: u32) = mask 8" by (simp add: mask_eq_exp_minus_1)
  have "unat ?i < 256" unfolding m unat_and_mask by simp
  then have t: "fcstab_32 ! unat ?i = (crc_shift ^^ 8) (push_bit 24 ?i)"
    by (simp add: fcstab_32_eq nth_crc_tab)
  have "fcs XOR push_bit 24 (ucast c) = take_bit 24 fcs XOR push_bit 24 ?i"
    unfolding m by (rule bit_word_eqI, unfold ts_bits) (auto dest: bit_imp_le_length)
  moreover have "push_bit 8 (take_bit 24 fcs) = push_bit 8 fcs"
    by (rule bit_word_eqI, unfold ts_bits) auto
  ultimately show ?thesis
    by (simp add: crc32_step_def crc_ref_step_def t crc_shift_funpow_xor crc_shift_low)
qed

text \<open>
  C25. The table-driven CRC-32 of the code is the MPEG-2 cyclic redundancy check: for every
  buffer it equals the bit-serial division by the generator polynomial 0x04C11DB7, which
  is the comment above the table in the code (the table was checked entry by entry).
\<close>
theorem CRC32_eq_ref: "CRC32 data = crc_ref data"
proof -
  have "crc32_step = crc_ref_step" by (intro ext crc32_step_ref)
  then show ?thesis by (simp add: CRC32_def crc32_add_def crc_ref_def)
qed

lemma crc_shift_inj: "crc_shift x = crc_shift y \<Longrightarrow> x = y"
proof -
  assume e: "crc_shift x = crc_shift y"
  have b0: "bit (crc_shift z) 0 = bit z 31" for z
    unfolding crc_shift_def by (cases "bit z 31") (simp_all only: if_True if_False ts_bits, simp_all)
  have bs: "bit (crc_shift z) (Suc n) = (bit z n \<noteq> (bit z 31 \<and> bit (0x04C11DB7 :: u32) (Suc n)))" if "n < 31" for z n
    unfolding crc_shift_def using that
    by (cases "bit z 31") (simp_all only: if_True if_False ts_bits, simp_all del: bit_numeral_iff)
  have t: "bit x 31 = bit y 31" using b0 e by metis
  show ?thesis
  proof (rule bit_word_eqI)
    fix n assume "n < LENGTH(32)"
    then consider "n = 31" | "n < 31" by force
    then show "bit x n = bit y n"
    proof cases
      case 2
      then show ?thesis using bs [of n x] bs [of n y] t e by auto
    qed (use t in simp)
  qed
qed

lemma crc_shift_funpow_inj: "(crc_shift ^^ n) x = (crc_shift ^^ n) y \<Longrightarrow> x = y"
  by (induction n) (auto dest: crc_shift_inj)

lemma crc32_step_inj_fcs: "crc32_step f c = crc32_step g c \<Longrightarrow> f = g"
proof -
  assume "crc32_step f c = crc32_step g c"
  then have "f XOR push_bit 24 (ucast c) = g XOR push_bit 24 (ucast c)"
    unfolding crc32_step_ref crc_ref_step_def by (rule crc_shift_funpow_inj)
  then have "(f XOR push_bit 24 (ucast c)) XOR push_bit 24 (ucast c) = (g XOR push_bit 24 (ucast c)) XOR push_bit 24 (ucast c)"
    by simp
  then show ?thesis by (simp add: xor.assoc)
qed

lemma crc32_step_inj_byte: "crc32_step f c = crc32_step f d \<Longrightarrow> c = d"
proof -
  assume "crc32_step f c = crc32_step f d"
  then have "f XOR push_bit 24 (ucast c) = f XOR push_bit 24 (ucast d)"
    unfolding crc32_step_ref crc_ref_step_def by (rule crc_shift_funpow_inj)
  then have "f XOR (f XOR push_bit 24 (ucast c)) = f XOR (f XOR push_bit 24 (ucast d))" by simp
  then have e: "push_bit 24 (ucast c) = (push_bit 24 (ucast d) :: u32)" by (simp flip: xor.assoc)
  show ?thesis
  proof (rule bit_word_eqI)
    fix n assume "n < LENGTH(8)"
    then show "bit c n = bit d n"
      using arg_cong [OF e, of "\<lambda>w. bit w (24 + n)"] by (simp add: bit_simps)
  qed
qed

lemma crc32_add_inj: "crc32_add f xs = crc32_add g xs \<Longrightarrow> f = g"
  by (induction xs arbitrary: f g) (auto simp: crc32_add_def dest: crc32_step_inj_fcs)

lemma crc32_add_append: "crc32_add f (xs @ ys) = crc32_add (crc32_add f xs) ys"
  by (simp add: crc32_add_def)

lemma CRC32_detects_byte_error:
  assumes "c \<noteq> d"
  shows "CRC32 (xs @ [c] @ ys) \<noteq> CRC32 (xs @ [d] @ ys)"
proof
  assume "CRC32 (xs @ [c] @ ys) = CRC32 (xs @ [d] @ ys)"
  then have "crc32_step (crc32_add 0xFFFFFFFF xs) c = crc32_step (crc32_add 0xFFFFFFFF xs) d"
    by (simp add: CRC32_def crc32_add_append crc32_add_def) (metis crc32_add_def crc32_add_inj)
  with assms show False by (auto dest: crc32_step_inj_byte)
qed

text \<open>
  The check value is self-verifying: the CRC-32 of a buffer followed by its own CRC-32,
  most significant byte first, is 0.
\<close>
theorem CRC32_residue:
  "CRC32 (data @ [ucast (drop_bit 24 (CRC32 data)), ucast (drop_bit 16 (CRC32 data)),
                  ucast (drop_bit 8 (CRC32 data)), ucast (CRC32 data)]) = 0"
proof -
  have m: "(0xFF :: u32) = mask 8" by (simp add: mask_eq_exp_minus_1)
  have t0: "fcstab_32 ! 0 = 0" by (simp add: fcstab_32_def)
  have s: "crc32_step (push_bit k f) (ucast (drop_bit (24 - k) f)) = push_bit (k + 8) f"
    if "k \<le> 24" for k f
  proof -
    have "(drop_bit 24 (push_bit k f) XOR ucast (ucast (drop_bit (24 - k) f) :: byte)) AND 0xFF = (0 :: u32)"
      unfolding m by (rule bit_word_eqI, unfold ts_bits) (use that in \<open>auto dest: bit_imp_le_length\<close>)
    then show ?thesis by (simp add: crc32_step_def t0 push_bit_push_bit add.commute)
  qed
  show ?thesis
    using s [of 0 "CRC32 data"] s [of 8 "CRC32 data"] s [of 16 "CRC32 data"] s [of 24 "CRC32 data"]
    unfolding CRC32_def crc32_add_append by (simp add: crc32_add_def)
qed

end
