(* ===== verification/Ts_Section.thy ===== *)
theory Ts_Section
  imports Ts_Packet Ts_CRC32
begin

text \<open>
  A PSI/SI section: \<open>tsSection.h\<close>, \<open>tsSection.cpp\<close> and \<open>tsSectionTemplate.h\<close>,
  with the extended table id of \<open>tsETID.h\<close>. The record has the fields of the class; the
  shared buffer \<open>_data\<close> is its content, and a null pointer is the empty list (no
  operation reads the data of an invalid section). Two section objects that share one
  buffer in the code are two records with equal content here; the operations that patch
  a shared section in place (\<open>BinaryTable\<close>) return the patched sections.
\<close>

section \<open>Extended table id\<close>

type_synonym ETID = u32

definition ETID_short :: "byte \<Rightarrow> ETID" where
  "ETID_short tid = push_bit 16 (ucast tid AND 0xFF)"

definition ETID_long :: "byte \<Rightarrow> u16 \<Rightarrow> ETID" where
  "ETID_long tid tid_ext =
     0x01000000 OR push_bit 16 (ucast tid AND 0xFF) OR (ucast tid_ext AND 0xFFFF)"

definition ETID_isLongSection :: "ETID \<Rightarrow> bool" where
  "ETID_isLongSection e = (e AND 0x01000000 \<noteq> 0)"

definition ETID_tid :: "ETID \<Rightarrow> byte" where
  "ETID_tid e = ucast (drop_bit 16 e AND 0xFF)"

definition ETID_tidExt :: "ETID \<Rightarrow> u16" where
  "ETID_tidExt e = ucast (e AND 0xFFFF)"

section \<open>The section object\<close>

datatype CRC_Validation = CRC_IGNORE | CRC_CHECK | CRC_COMPUTE

record Section =
  sc_valid :: bool
  sc_pid :: u16
  sc_first :: PacketCounter
  sc_last :: PacketCounter
  sc_data :: "byte list"

definition Section_default :: Section where
  "Section_default = \<lparr>sc_valid = False, sc_pid = PID_NULL, sc_first = 0, sc_last = 0, sc_data = []\<rparr>"

definition Section_initialize_pid :: "u16 \<Rightarrow> Section" where
  "Section_initialize_pid pid = \<lparr>sc_valid = False, sc_pid = pid, sc_first = 0, sc_last = 0, sc_data = []\<rparr>"

definition tableId :: "Section \<Rightarrow> byte" where
  "tableId s = (if sc_valid s then sc_data s ! 0 else 0xFF)"

definition isLongSection :: "Section \<Rightarrow> bool" where
  "isLongSection s = (if sc_valid s then sc_data s ! 1 AND 0x80 \<noteq> 0 else False)"

definition isShortSection :: "Section \<Rightarrow> bool" where
  "isShortSection s = (if sc_valid s then sc_data s ! 1 AND 0x80 = 0 else False)"

definition isPrivateSection :: "Section \<Rightarrow> bool" where
  "isPrivateSection s = (if sc_valid s then sc_data s ! 1 AND 0x40 \<noteq> 0 else False)"

definition tableIdExtension :: "Section \<Rightarrow> u16" where
  "tableIdExtension s = (if isLongSection s then GetUInt16 (sc_data s) 3 else 0)"

definition version_of :: "Section \<Rightarrow> byte" where
  "version_of s = (if isLongSection s then drop_bit 1 (sc_data s ! 5) AND 0x1F else 0)"

definition isCurrent :: "Section \<Rightarrow> bool" where
  "isCurrent s = (if isLongSection s then sc_data s ! 5 AND 0x01 \<noteq> 0 else False)"

definition isNext :: "Section \<Rightarrow> bool" where
  "isNext s = (if isLongSection s then sc_data s ! 5 AND 0x01 = 0 else False)"

definition sectionNumber :: "Section \<Rightarrow> byte" where
  "sectionNumber s = (if isLongSection s then sc_data s ! 6 else 0)"

definition lastSectionNumber :: "Section \<Rightarrow> byte" where
  "lastSectionNumber s = (if isLongSection s then sc_data s ! 7 else 0)"

definition section_etid :: "Section \<Rightarrow> ETID" where
  "section_etid s = (if isLongSection s then ETID_long (tableId s) (tableIdExtension s) else ETID_short (tableId s))"

definition section_size :: "Section \<Rightarrow> nat" where
  "section_size s = length (sc_data s)"

definition headerSize :: "Section \<Rightarrow> nat" where
  "headerSize s =
     (if sc_valid s then (if isLongSection s then LONG_SECTION_HEADER_SIZE else SHORT_SECTION_HEADER_SIZE) else 0)"

definition payloadSize :: "Section \<Rightarrow> nat" where
  "payloadSize s =
     (if sc_valid s then length (sc_data s) -
        (if isLongSection s then LONG_SECTION_HEADER_SIZE + SECTION_CRC32_SIZE else SHORT_SECTION_HEADER_SIZE)
      else 0)"

definition section_payload :: "Section \<Rightarrow> byte list" where
  "section_payload s = take (payloadSize s) (drop (headerSize s) (sc_data s))"

definition section_packetCount :: "Section \<Rightarrow> nat" where
  "section_packetCount s = SectionPacketCount (section_size s)"

section \<open>Construction from binary content\<close>

definition SectionSize :: "byte list \<Rightarrow> nat" where
  "SectionSize content =
     (if length content < MIN_SHORT_SECTION_SIZE \<or> length content > MAX_PRIVATE_SECTION_SIZE then 0
      else let len = 3 + unat (GetUInt16 content 1 AND 0x0FFF)
           in if len < length content then 0 else len)"

definition recompute_crc_data :: "byte list \<Rightarrow> byte list" where
  "recompute_crc_data d = PutUInt32 d (length d - 4) (CRC32 (take (length d - 4) d))"

definition Section_initialize :: "byte list \<Rightarrow> u16 \<Rightarrow> CRC_Validation \<Rightarrow> Section" where
  "Section_initialize bbp pid crc_op =
     (let s0 = (Section_initialize_pid pid)\<lparr>sc_data := bbp\<rparr>;
          total_size = SectionSize bbp;
          s1 = s0\<lparr>sc_valid := total_size > 0 \<and> total_size = length bbp\<rparr>;
          s2 = (if isLongSection s1
                then s1\<lparr>sc_valid := length (sc_data s1) \<ge> MIN_LONG_SECTION_SIZE \<and>
                                   sectionNumber s1 \<le> lastSectionNumber s1\<rparr>
                else s1);
          s3 = (if isLongSection s2
                then let size = length (sc_data s2) - 4 in
                  (case crc_op of
                     CRC_CHECK \<Rightarrow> s2\<lparr>sc_valid := CRC32 (take size (sc_data s2)) = GetUInt32 (sc_data s2) size\<rparr>
                   | CRC_COMPUTE \<Rightarrow> s2\<lparr>sc_data := recompute_crc_data (sc_data s2)\<rparr>
                   | CRC_IGNORE \<Rightarrow> s2)
                else s2)
      in if \<not> sc_valid s3 then s3\<lparr>sc_data := []\<rparr> else s3)"

section \<open>Construction from a payload\<close>

definition recomputeCRC :: "Section \<Rightarrow> Section" where
  "recomputeCRC s = (if isLongSection s then s\<lparr>sc_data := recompute_crc_data (sc_data s)\<rparr> else s)"

definition reload_short :: "byte \<Rightarrow> bool \<Rightarrow> byte list \<Rightarrow> u16 \<Rightarrow> Section" where
  "reload_short tid is_private payload source_pid =
     (let s = (Section_initialize_pid source_pid)
                \<lparr>sc_valid := SHORT_SECTION_HEADER_SIZE + length payload \<le> MAX_PRIVATE_SECTION_SIZE\<rparr>;
          d0 = replicate (SHORT_SECTION_HEADER_SIZE + length payload) 0;
          d1 = PutUInt8 d0 0 tid;
          d2 = PutUInt16 d1 1 ((if is_private then 0x4000 else 0) OR 0x3000 OR (of_nat (length payload) AND 0x0FFF));
          d3 = memcpy_at d2 3 payload
      in s\<lparr>sc_data := d3\<rparr>)"

definition reload_long ::
  "byte \<Rightarrow> bool \<Rightarrow> u16 \<Rightarrow> byte \<Rightarrow> bool \<Rightarrow> byte \<Rightarrow> byte \<Rightarrow> byte list \<Rightarrow> u16 \<Rightarrow> Section" where
  "reload_long tid is_private tid_ext version is_current section_number last_section_number payload source_pid =
     (let s = (Section_initialize_pid source_pid)
                \<lparr>sc_valid := section_number \<le> last_section_number \<and> version \<le> 31 \<and>
                   LONG_SECTION_HEADER_SIZE + length payload + SECTION_CRC32_SIZE \<le> MAX_PRIVATE_SECTION_SIZE\<rparr>;
          d0 = replicate (LONG_SECTION_HEADER_SIZE + length payload + SECTION_CRC32_SIZE) 0;
          d1 = PutUInt8 d0 0 tid;
          d2 = PutUInt16 d1 1 (0x8000 OR (if is_private then 0x4000 else 0) OR 0x3000 OR
                 (of_nat (LONG_SECTION_HEADER_SIZE - 3 + length payload + SECTION_CRC32_SIZE) AND 0x0FFF));
          d3 = PutUInt16 d2 3 tid_ext;
          d4 = PutUInt8 d3 5 (0xC0 OR push_bit 1 (version AND 0x1F) OR (if is_current then 0x01 else 0x00));
          d5 = PutUInt8 d4 6 section_number;
          d6 = PutUInt8 d5 7 last_section_number;
          d7 = memcpy_at d6 8 payload
      in recomputeCRC (s\<lparr>sc_data := d7\<rparr>))"

section \<open>Modifiable properties\<close>

definition if_crc :: "bool \<Rightarrow> Section \<Rightarrow> Section" where
  "if_crc recompute_crc s = (if recompute_crc then recomputeCRC s else s)"

definition setTableIdExtension :: "Section \<Rightarrow> u16 \<Rightarrow> bool \<Rightarrow> Section" where
  "setTableIdExtension s tid_ext recompute_crc =
     (if isLongSection s then if_crc recompute_crc (s\<lparr>sc_data := PutUInt16 (sc_data s) 3 tid_ext\<rparr>) else s)"

definition setVersion :: "Section \<Rightarrow> byte \<Rightarrow> bool \<Rightarrow> Section" where
  "setVersion s version recompute_crc =
     (if isLongSection s
      then if_crc recompute_crc
        (s\<lparr>sc_data := (sc_data s)[5 := (sc_data s ! 5 AND 0xC1) OR push_bit 1 (version AND 0x1F)]\<rparr>)
      else s)"

definition setIsCurrent :: "Section \<Rightarrow> bool \<Rightarrow> bool \<Rightarrow> Section" where
  "setIsCurrent s is_current recompute_crc =
     (if isLongSection s
      then if_crc recompute_crc
        (s\<lparr>sc_data := (sc_data s)[5 := (sc_data s ! 5 AND 0xFE) OR (if is_current then 0x01 else 0x00)]\<rparr>)
      else s)"

definition setSectionNumber :: "Section \<Rightarrow> byte \<Rightarrow> bool \<Rightarrow> Section" where
  "setSectionNumber s num recompute_crc =
     (if isLongSection s then if_crc recompute_crc (s\<lparr>sc_data := (sc_data s)[6 := num]\<rparr>) else s)"

definition setLastSectionNumber :: "Section \<Rightarrow> byte \<Rightarrow> bool \<Rightarrow> Section" where
  "setLastSectionNumber s num recompute_crc =
     (if isLongSection s then if_crc recompute_crc (s\<lparr>sc_data := (sc_data s)[7 := num]\<rparr>) else s)"

definition setUInt8 :: "Section \<Rightarrow> nat \<Rightarrow> byte \<Rightarrow> bool \<Rightarrow> Section" where
  "setUInt8 s offset value recompute_crc =
     (if sc_valid s \<and> offset < payloadSize s
      then if_crc recompute_crc (s\<lparr>sc_data := PutUInt8 (sc_data s) (headerSize s + offset) value\<rparr>)
      else s)"

definition setUInt16 :: "Section \<Rightarrow> nat \<Rightarrow> u16 \<Rightarrow> bool \<Rightarrow> Section" where
  "setUInt16 s offset value recompute_crc =
     (if sc_valid s \<and> offset + 1 < payloadSize s
      then if_crc recompute_crc (s\<lparr>sc_data := PutUInt16 (sc_data s) (headerSize s + offset) value\<rparr>)
      else s)"

definition setSourcePID :: "Section \<Rightarrow> u16 \<Rightarrow> Section" where
  "setSourcePID s pid = s\<lparr>sc_pid := pid\<rparr>"

definition Section_equal :: "Section \<Rightarrow> Section \<Rightarrow> bool" where
  "Section_equal a b = (sc_valid a \<and> sc_valid b \<and> sc_data a = sc_data b)"

definition IdenticalBytes :: "byte list \<Rightarrow> bool" where
  "IdenticalBytes d =
     (if length d < 2 then False else list_all (\<lambda>i. d ! i = d ! (i + 1)) [0..<length d - 1])"

definition hasDiversifiedPayload :: "Section \<Rightarrow> bool" where
  "hasDiversifiedPayload s = (sc_valid s \<and> \<not> IdenticalBytes (section_payload s))"

section \<open>Number of packets of a set of sections\<close>

text \<open>One turn of the packing loop, on (packet count, bytes left in the packet, pointer
  field present); then the loop over the container, whose null entries are \<^const>\<open>None\<close>.\<close>

definition pack_step :: "Section \<Rightarrow> nat \<times> nat \<times> bool \<Rightarrow> nat \<times> nat \<times> bool" where
  "pack_step sec = (\<lambda>(pkt_count, remain_in_pkt, has_pf).
     let size = section_size sec;
         pf_size = (if has_pf then 0 else 1);
         (remain_in_pkt, has_pf, pf_size) =
           (if remain_in_pkt < pf_size + headerSize sec then (184, False, 1) else (remain_in_pkt, has_pf, pf_size));
         pkt_count = (if remain_in_pkt = 184 then pkt_count + 1 else pkt_count);
         size = size + pf_size;
         has_pf = (has_pf \<or> pf_size > 0)
     in if size \<le> remain_in_pkt then (pkt_count, remain_in_pkt - size, has_pf)
        else let size = size - remain_in_pkt
             in (pkt_count + (size + 183) div 184, 184 - size mod 184, False))"

fun pack_loop :: "Section option list \<Rightarrow> nat \<times> nat \<times> bool \<Rightarrow> nat \<times> nat \<times> bool" where
  "pack_loop [] st = st"
| "pack_loop (None # c) st = pack_loop c st"
| "pack_loop (Some sec # c) st = pack_loop c (if sc_valid sec then pack_step sec st else st)"

definition Section_PacketCount :: "Section option list \<Rightarrow> bool \<Rightarrow> nat" where
  "Section_PacketCount container pack =
     (if pack then fst (pack_loop container (0, 184, False))
      else sum_list (map (\<lambda>c. case c of None \<Rightarrow> 0 | Some sec \<Rightarrow> if sc_valid sec then section_packetCount sec else 0)
                         container))"

section \<open>Well-formed binary sections\<close>

text \<open>What makes a buffer one section: the predicate that the accessors, the table
  builder, the packetizer and the demultiplexer rely on.\<close>

definition raw_size :: "byte list \<Rightarrow> nat" where
  "raw_size d = 3 + unat (GetUInt16 d 1 AND 0x0FFF)"

definition raw_long :: "byte list \<Rightarrow> bool" where
  "raw_long d = (d ! 1 AND 0x80 \<noteq> 0)"

definition raw_ok :: "byte list \<Rightarrow> bool" where
  "raw_ok d = (3 \<le> length d \<and> length d \<le> 4096 \<and> raw_size d = length d \<and>
     (raw_long d \<longrightarrow> 12 \<le> length d \<and> d ! 6 \<le> d ! 7))"

definition raw_crc :: "byte list \<Rightarrow> bool" where
  "raw_crc d = (raw_long d \<longrightarrow> CRC32 (take (length d - 4) d) = GetUInt32 d (length d - 4))"

definition wf_section :: "Section \<Rightarrow> bool" where
  "wf_section s = (sc_valid s \<and> raw_ok (sc_data s))"

definition crc_section :: "Section \<Rightarrow> bool" where
  "crc_section s = raw_crc (sc_data s)"

lemma isLong_wf: "sc_valid s \<Longrightarrow> isLongSection s = raw_long (sc_data s)"
  by (simp add: isLongSection_def raw_long_def)

lemma SectionSize_eq: "SectionSize d =
    (if 3 \<le> length d \<and> length d \<le> 4096 \<and> length d \<le> raw_size d then raw_size d else 0)"
  by (auto simp: SectionSize_def raw_size_def Let_def)

lemma length_recompute_crc_data [simp]: "12 \<le> length d \<Longrightarrow> length (recompute_crc_data d) = length d"
  by (simp add: recompute_crc_data_def)

lemma recompute_crc_data_nth: "12 \<le> length d \<Longrightarrow> i < length d - 4 \<Longrightarrow> recompute_crc_data d ! i = d ! i"
  by (simp add: recompute_crc_data_def PutUInt32_def nth_memcpy_at)

lemma raw_size_recompute [simp]: "12 \<le> length d \<Longrightarrow> raw_size (recompute_crc_data d) = raw_size d"
  by (simp add: raw_size_def GetUInt16_def recompute_crc_data_nth)

lemma raw_long_recompute [simp]: "12 \<le> length d \<Longrightarrow> raw_long (recompute_crc_data d) = raw_long d"
  by (simp add: raw_long_def recompute_crc_data_nth)

lemma raw_ok_recompute: "12 \<le> length d \<Longrightarrow> raw_ok (recompute_crc_data d) = raw_ok d"
  by (simp add: raw_ok_def recompute_crc_data_nth)

lemma raw_crc_recompute: "12 \<le> length d \<Longrightarrow> raw_crc (recompute_crc_data d)"
proof -
  assume d: "12 \<le> length d"
  have "GetUInt32 (recompute_crc_data d) (length d - 4) = CRC32 (take (length d - 4) d)"
    using d by (simp add: recompute_crc_data_def Get_PutUInt32)
  moreover have "take (length d - 4) (recompute_crc_data d) = take (length d - 4) d"
    using d by (simp add: recompute_crc_data_def PutUInt32_def take_memcpy_at)
  ultimately show ?thesis using d by (simp add: raw_crc_def)
qed

lemma Section_initialize_valid:
  "sc_valid (Section_initialize d pid op) = (raw_ok d \<and> (op = CRC_CHECK \<longrightarrow> raw_crc d))"
  by (cases op) (auto simp: Section_initialize_def Section_initialize_pid_def Let_def SectionSize_eq
      isLongSection_def sectionNumber_def lastSectionNumber_def raw_ok_def raw_crc_def raw_long_def)

lemma Section_initialize_data:
  "raw_ok d \<Longrightarrow> op = CRC_CHECK \<longrightarrow> raw_crc d \<Longrightarrow>
   Section_initialize d pid op = \<lparr>sc_valid = True, sc_pid = pid, sc_first = 0, sc_last = 0,
     sc_data = (if op = CRC_COMPUTE \<and> raw_long d then recompute_crc_data d else d)\<rparr>"
  by (cases op) (auto simp: Section_initialize_def Section_initialize_pid_def Let_def SectionSize_eq
      isLongSection_def sectionNumber_def lastSectionNumber_def raw_ok_def raw_crc_def raw_long_def)


lemma Section_initialize_invalid:
  "\<not> (raw_ok d \<and> (op = CRC_CHECK \<longrightarrow> raw_crc d)) \<Longrightarrow>
   Section_initialize d pid op = \<lparr>sc_valid = False, sc_pid = pid, sc_first = 0, sc_last = 0, sc_data = []\<rparr>"
  using Section_initialize_valid [of d pid op]
  unfolding Section_initialize_def Let_def
  by (cases op) (auto simp: Section_initialize_pid_def split: if_splits)

lemma Section_initialize_facts:
  "let s = Section_initialize d pid op in
   if raw_ok d \<and> (op = CRC_CHECK \<longrightarrow> raw_crc d)
   then wf_section s \<and> sc_pid s = pid \<and> (op \<noteq> CRC_IGNORE \<longrightarrow> crc_section s) \<and>
        (op \<noteq> CRC_COMPUTE \<longrightarrow> sc_data s = d) \<and> take (length d - 4) (sc_data s) = take (length d - 4) d
   else \<not> sc_valid s \<and> sc_data s = []"
proof (cases "raw_ok d \<and> (op = CRC_CHECK \<longrightarrow> raw_crc d)")
  case True
  have t: "take (length d - 4) (recompute_crc_data d) = take (length d - 4) d" if "12 \<le> length d"
    using that by (simp add: recompute_crc_data_def PutUInt32_def take_memcpy_at)
  have c: "12 \<le> length d" if "raw_long d" using True that by (simp add: raw_ok_def)
  show ?thesis using True t c
    by (cases op) (auto simp: Section_initialize_data wf_section_def crc_section_def Let_def
        raw_crc_recompute raw_ok_recompute raw_crc_def [of d])
next
  case False
  then show ?thesis unfolding Section_initialize_invalid [OF False] Let_def by auto
qed

section \<open>Serialized sections\<close>

lemma section_length_bits:
  fixes f :: u16
  assumes "n < 4096" and "f AND 0x0FFF = 0"
  shows "unat ((f OR (of_nat n AND 0x0FFF)) AND 0x0FFF) = n"
proof -
  have "(f OR (of_nat n AND 0x0FFF)) AND 0x0FFF = (of_nat n :: u16) AND 0x0FFF"
    using assms(2) by (simp add: bit.conj_disj_distrib2 and.assoc)
  also have "unat \<dots> = n"
    using assms(1) unfolding u16_masks unat_and_mask by (simp add: unat_of_nat)
  finally show ?thesis .
qed


lemma memcpy_at_0: "memcpy_at d 0 src = src @ drop (length src) d"
  by (simp add: memcpy_at_def)
lemma memcpy_at_Cons_Suc: "memcpy_at (x # xs) (Suc n) src = x # memcpy_at xs n src"
  by (simp add: memcpy_at_def)
lemma memcpy_at_Cons_numeral: "memcpy_at (x # xs) (numeral k) src = x # memcpy_at xs (pred_numeral k) src"
  by (simp add: memcpy_at_def numeral_eq_Suc)
lemmas memcpy_at_eval = memcpy_at_0 memcpy_at_Cons_Suc memcpy_at_Cons_numeral

lemma long_header_writes:
  "memcpy_at (PutUInt8 (PutUInt8 (PutUInt8 (PutUInt16 (PutUInt16 (PutUInt8
      (replicate (8 + length payload + 4) 0) 0 tid) 1 w) 3 ext) 5 f) 6 num) 7 lst) 8 payload =
   [tid, ucast (drop_bit 8 w), ucast w, ucast (drop_bit 8 ext), ucast ext, f, num, lst] @ payload @ replicate 4 0"
proof -
  have "replicate (8 + length payload + 4) (0::byte) = [0,0,0,0,0,0,0,0] @ replicate (length payload) 0 @ replicate 4 0"
    by (simp only: replicate_add append_assoc) (simp add: numeral_eq_Suc)
  then show ?thesis
    by (simp add: PutUInt8_def PutUInt16_def memcpy_at_eval)
qed

lemma reload_long_eq:
  fixes tid :: byte
  defines "w \<equiv> (\<lambda>priv n. 0x8000 OR (if priv then 0x4000 else 0) OR 0x3000 OR (of_nat (9 + n) AND 0x0FFF) :: u16)"
  shows "reload_long tid priv ext ver cur num lst payload pid =
    (let d = [tid, ucast (drop_bit 8 (w priv (length payload))), ucast (w priv (length payload)),
              ucast (drop_bit 8 ext), ucast ext,
              0xC0 OR push_bit 1 (ver AND 0x1F) OR (if cur then 0x01 else 0x00), num, lst] @ payload @ replicate 4 0
     in recomputeCRC \<lparr>sc_valid = num \<le> lst \<and> ver \<le> 31 \<and> 12 + length payload \<le> 4096,
          sc_pid = pid, sc_first = 0, sc_last = 0, sc_data = d\<rparr>)"
  unfolding reload_long_def Let_def w_def Section_initialize_pid_def long_header_writes
  by simp

lemma long_length_word:
  fixes priv :: bool
  assumes "n \<le> 4084"
  defines "w \<equiv> 0x8000 OR (if priv then 0x4000 else 0) OR 0x3000 OR (of_nat (9 + n) AND 0x0FFF) :: u16"
  shows "unat (w AND 0x0FFF) = 9 + n" and "bit w 15" and "bit w 14 = priv"
proof -
  have c: "(0x8000 OR (if priv then 0x4000 else 0) OR 0x3000 :: u16) AND 0x0FFF = 0" by simp
  have "9 + n < 4096" using assms(1) by simp
  from section_length_bits [OF this c] show "unat (w AND 0x0FFF) = 9 + n"
    by (simp add: w_def or.assoc)
  show "bit w 15" by (simp add: w_def ts_bits)
  have m: "(0x0FFF :: u16) = mask 12" by (simp add: mask_eq_exp_minus_1)
  show "bit w 14 = priv" unfolding w_def m by (cases priv) (simp_all add: ts_bits)
qed

lemma word16_bytes_bits:
  fixes w :: u16
  shows "(ucast (drop_bit 8 w) :: byte) AND 0x80 \<noteq> 0 \<longleftrightarrow> bit w 15"
    and "(ucast (drop_bit 8 w) :: byte) AND 0x40 \<noteq> 0 \<longleftrightarrow> bit w 14"
  by (simp_all add: byte_flags ts_bits)

lemma version_field:
  fixes ver :: byte
  shows "drop_bit 1 (0xC0 OR push_bit 1 (ver AND 0x1F) OR (if cur then 0x01 else 0x00)) AND 0x1F = ver AND 0x1F"
    and "(0xC0 OR push_bit 1 (ver AND 0x1F) OR (if cur then 0x01 else 0x00) :: byte) AND 0x01 \<noteq> 0 \<longleftrightarrow> cur"
proof -
  have o: "(if cur then 0x01 else 0x00 :: byte) = (if cur then mask 1 else 0)" by simp
  show "drop_bit 1 (0xC0 OR push_bit 1 (ver AND 0x1F) OR (if cur then 0x01 else 0x00)) AND 0x1F = ver AND 0x1F"
    unfolding o byte_masks
    by (rule bit_word_eqI, unfold ts_bits) (auto simp: bit_mask_iff)
  show "(0xC0 OR push_bit 1 (ver AND 0x1F) OR (if cur then 0x01 else 0x00) :: byte) AND 0x01 \<noteq> 0 \<longleftrightarrow> cur"
    by (cases cur) (simp_all add: byte_flags ts_bits)
qed

lemma version_in_range: "ver \<le> 31 \<Longrightarrow> ver AND 0x1F = ver" for ver :: byte
proof -
  assume "ver \<le> 31"
  then have "unat ver < 2 ^ 5" by (simp add: word_le_nat_alt)
  then have "take_bit 5 ver = ver" by (rule take_bit_word_id)
  then show ?thesis by (simp add: take_bit_eq_mask mask_eq_exp_minus_1)
qed

lemma recomputeCRC_long:
  "sc_valid s \<Longrightarrow> raw_long (sc_data s) \<Longrightarrow> recomputeCRC s = s\<lparr>sc_data := recompute_crc_data (sc_data s)\<rparr>"
  by (simp add: recomputeCRC_def isLong_wf)

lemma reload_long_facts:
  assumes "num \<le> lst" and "ver \<le> 31" and "12 + length payload \<le> 4096"
  shows "let s = reload_long tid priv ext ver cur num lst payload pid in
    wf_section s \<and> crc_section s \<and> isLongSection s \<and> tableId s = tid \<and>
    isPrivateSection s = priv \<and> tableIdExtension s = ext \<and> version_of s = ver \<and>
    isCurrent s = cur \<and> sectionNumber s = num \<and> lastSectionNumber s = lst \<and>
    section_payload s = payload \<and> Section_initialize (sc_data s) pid CRC_CHECK = s"
proof -
  define s where "s = reload_long tid priv ext ver cur num lst payload pid"
  define w :: u16 where "w = 0x8000 OR (if priv then 0x4000 else 0) OR 0x3000 OR (of_nat (9 + length payload) AND 0x0FFF)"
  let ?f = "0xC0 OR push_bit 1 (ver AND 0x1F) OR (if cur then 0x01 else 0x00) :: byte"
  let ?d = "[tid, ucast (drop_bit 8 w), ucast w, ucast (drop_bit 8 ext), ucast ext, ?f, num, lst] @ payload @ replicate 4 0"
  have len: "length payload \<le> 4084" using assms(3) by simp
  note lw = long_length_word [OF len, of priv, folded w_def]
  have long: "raw_long ?d" using lw(2) by (simp add: raw_long_def word16_bytes_bits)
  have sz: "raw_size ?d = length ?d" using lw(1) by (simp add: raw_size_def GetUInt16_def word16_of_bytes)
  have ok: "raw_ok ?d" using sz assms(1,3) by (simp add: raw_ok_def)
  have l12: "12 \<le> length ?d" by simp
  have "s = recomputeCRC \<lparr>sc_valid = True, sc_pid = pid, sc_first = 0, sc_last = 0, sc_data = ?d\<rparr>"
    using assms(1-3) unfolding s_def reload_long_eq Let_def w_def by simp
  then have p: "s = \<lparr>sc_valid = True, sc_pid = pid, sc_first = 0, sc_last = 0, sc_data = recompute_crc_data ?d\<rparr>"
    using long by (simp add: recomputeCRC_long)
  then have d: "sc_data s = recompute_crc_data ?d" and v: "sc_valid s" by simp_all
  have n: "sc_data s ! i = ?d ! i" if "i < 8" for i
    using that recompute_crc_data_nth [OF l12, of i] by (simp add: d)
  have il: "isLongSection s" using v long n [of 1] by (simp add: isLongSection_def raw_long_def)
  have ok': "raw_ok (sc_data s)" "raw_crc (sc_data s)"
    unfolding d using ok l12 raw_ok_recompute raw_crc_recompute by auto
  have "take (length payload) (drop 8 (recompute_crc_data ?d)) = payload"
    by (simp add: recompute_crc_data_def PutUInt32_def memcpy_at_def drop_take)
  then have pl: "section_payload s = payload"
    using v il by (simp add: section_payload_def payloadSize_def headerSize_def d)
  have f: "sc_data s ! 5 = ?f" using n [of 5] by simp
  have "version_of s = ver"
    by (simp only: version_of_def f version_field(1) il if_True) (rule version_in_range [OF assms(2)])
  moreover have "isCurrent s = cur"
    by (simp only: isCurrent_def f version_field(2) il if_True)
  moreover have "Section_initialize (sc_data s) pid CRC_CHECK = s"
    using Section_initialize_data [of "sc_data s" CRC_CHECK pid] ok' p by simp
  moreover have "tableId s = tid" "sectionNumber s = num" "lastSectionNumber s = lst"
      "isPrivateSection s = priv" "tableIdExtension s = ext"
    using v il n [of 0] n [of 1] n [of 3] n [of 4] n [of 6] n [of 7] lw(3)
    by (simp_all add: tableId_def sectionNumber_def lastSectionNumber_def isPrivateSection_def
        tableIdExtension_def GetUInt16_def word16_of_bytes word16_bytes_bits)
  ultimately show ?thesis
    unfolding s_def [symmetric] Let_def
    using ok' v il pl by (simp add: wf_section_def crc_section_def)
qed

lemma reload_short_facts:
  assumes "3 + length payload \<le> 4096"
  shows "let s = reload_short tid priv payload pid in
    wf_section s \<and> isShortSection s \<and> tableId s = tid \<and> isPrivateSection s = priv \<and>
    version_of s = 0 \<and> sectionNumber s = 0 \<and> lastSectionNumber s = 0 \<and>
    section_payload s = payload \<and> Section_initialize (sc_data s) pid CRC_CHECK = s"
proof -
  define s where "s = reload_short tid priv payload pid"
  define w :: u16 where "w = (if priv then 0x4000 else 0) OR 0x3000 OR (of_nat (length payload) AND 0x0FFF)"
  let ?d = "[tid, ucast (drop_bit 8 w), ucast w] @ payload"
  have "replicate (3 + length payload) (0::byte) = [0, 0, 0] @ replicate (length payload) 0"
    by (simp only: replicate_add) (simp add: numeral_eq_Suc)
  then have p: "s = \<lparr>sc_valid = True, sc_pid = pid, sc_first = 0, sc_last = 0, sc_data = ?d\<rparr>"
    using assms by (simp add: s_def reload_short_def Let_def Section_initialize_pid_def PutUInt8_def
        PutUInt16_def memcpy_at_eval flip: w_def)
  have lw: "unat (w AND 0x0FFF) = length payload"
    using assms unfolding w_def or.assoc [symmetric] by (intro section_length_bits) auto
  have m: "(0x0FFF :: u16) = mask 12" by (simp add: mask_eq_exp_minus_1)
  have b: "\<not> bit w 15" "bit w 14 = priv"
    unfolding w_def m by (cases priv; simp add: ts_bits)+
  have short: "\<not> raw_long ?d" using b(1) word16_bytes_bits(1) [of w] by (simp add: raw_long_def)
  have ok: "raw_ok ?d" using lw assms short
    by (simp add: raw_ok_def raw_size_def GetUInt16_def word16_of_bytes)
  have il: "\<not> isLongSection s" using short by (simp add: p isLong_wf)
  have "Section_initialize (sc_data s) pid CRC_CHECK = s"
    using Section_initialize_data [of "sc_data s" CRC_CHECK pid] ok short by (simp add: p raw_crc_def)
  then show ?thesis
    unfolding s_def [symmetric] Let_def
    using ok il b word16_bytes_bits [of w] short
    by (simp add: p wf_section_def isShortSection_def tableId_def isPrivateSection_def version_of_def
        sectionNumber_def lastSectionNumber_def section_payload_def payloadSize_def headerSize_def raw_long_def)
qed

section \<open>Setters keep a section well formed\<close>

lemma wf_sectionD:
  assumes "wf_section s"
  shows "sc_valid s" "raw_ok (sc_data s)" "3 \<le> length (sc_data s)" "length (sc_data s) \<le> 4096"
    "isLongSection s \<Longrightarrow> 12 \<le> length (sc_data s)"
  using assms by (auto simp: wf_section_def raw_ok_def isLong_wf)

text \<open>A patch of the header bytes after the length field that keeps the numbers ordered.\<close>

lemma patched_section:
  assumes wf: "wf_section s" and il: "isLongSection s"
    and len: "length d = length (sc_data s)"
    and same: "d ! 1 = sc_data s ! 1" "d ! 2 = sc_data s ! 2"
    and num: "d ! 6 \<le> d ! 7"
  shows "wf_section (if_crc rc (s\<lparr>sc_data := d\<rparr>)) \<and> isLongSection (if_crc rc (s\<lparr>sc_data := d\<rparr>)) \<and>
    (rc \<longrightarrow> crc_section (if_crc rc (s\<lparr>sc_data := d\<rparr>))) \<and>
    take (length d - 4) (sc_data (if_crc rc (s\<lparr>sc_data := d\<rparr>))) = take (length d - 4) d \<and>
    length (sc_data (if_crc rc (s\<lparr>sc_data := d\<rparr>))) = length d"
proof -
  note w = wf_sectionD [OF wf]
  have l: "raw_long d" "raw_size d = length d" "12 \<le> length d"
    using il w len same by (auto simp: raw_long_def isLong_wf raw_size_def GetUInt16_def raw_ok_def numeral_2_eq_2)
  have ok: "raw_ok d" using l num w(4) len by (simp add: raw_ok_def)
  have t: "take (length d - 4) (recompute_crc_data d) = take (length d - 4) d"
    using l(3) by (simp add: recompute_crc_data_def PutUInt32_def take_memcpy_at)
  show ?thesis
    using w(1) ok l t raw_ok_recompute [OF l(3)] raw_crc_recompute [OF l(3)]
    by (auto simp: if_crc_def recomputeCRC_def wf_section_def crc_section_def isLong_wf)
qed

lemma if_crc_nth:
  assumes "12 \<le> length d" and "i < length d - 4" and "sc_valid s"
  shows "sc_data (if_crc rc (s\<lparr>sc_data := d\<rparr>)) ! i = d ! i"
  using assms recompute_crc_data_nth [OF assms(1,2)] by (simp add: if_crc_def recomputeCRC_def)

lemma version_patch:
  fixes x ver :: byte
  shows "drop_bit 1 ((x AND 0xC1) OR push_bit 1 (ver AND 0x1F)) AND 0x1F = ver AND 0x1F"
    and "((x AND 0xC1) OR push_bit 1 (ver AND 0x1F)) AND 0x01 = x AND 0x01"
    and "drop_bit 1 ((x AND 0xFE) OR (if cur then 0x01 else 0x00)) AND 0x1F = drop_bit 1 x AND 0x1F"
    and "((x AND 0xFE) OR (if cur then 0x01 else 0x00)) AND 0x01 \<noteq> 0 \<longleftrightarrow> cur"
proof -
  have o: "(if cur then 0x01 else 0x00 :: byte) = (if cur then mask 1 else 0)" by simp
  show "drop_bit 1 ((x AND 0xC1) OR push_bit 1 (ver AND 0x1F)) AND 0x1F = ver AND 0x1F"
    unfolding byte_masks by (rule bit_word_eqI, unfold ts_bits) (auto simp: bit_mask_iff)
  show "((x AND 0xC1) OR push_bit 1 (ver AND 0x1F)) AND 0x01 = x AND 0x01"
    unfolding byte_masks by (rule bit_word_eqI, unfold ts_bits) (auto simp: bit_mask_iff)
  show "drop_bit 1 ((x AND 0xFE) OR (if cur then 0x01 else 0x00)) AND 0x1F = drop_bit 1 x AND 0x1F"
    unfolding o byte_masks by (rule bit_word_eqI, unfold ts_bits)
      (auto simp: bit_mask_iff dest: bit_imp_le_length split: if_splits)
  show "((x AND 0xFE) OR (if cur then 0x01 else 0x00)) AND 0x01 \<noteq> 0 \<longleftrightarrow> cur"
    by (cases cur) (simp_all add: byte_flags ts_bits)
qed

lemma setter_frame:
  assumes wf: "wf_section s" and il: "isLongSection s"
    and len: "length d = length (sc_data s)" and same: "d ! 0 = sc_data s ! 0" "d ! 1 = sc_data s ! 1" "d ! 2 = sc_data s ! 2"
    and num: "d ! 6 \<le> d ! 7" and body: "drop 8 d = drop 8 (sc_data s)"
    and r: "r = if_crc rc (s\<lparr>sc_data := d\<rparr>)"
  shows "wf_section r \<and> isLongSection r \<and> (rc \<longrightarrow> crc_section r) \<and>
    tableId r = tableId s \<and> section_payload r = section_payload s \<and> section_size r = section_size s \<and>
    (\<forall>i < 8. sc_data r ! i = d ! i)"
proof -
  note w = wf_sectionD [OF wf]
  note p = patched_section [OF wf il len same(2,3) num, of rc, folded r]
  have l: "12 \<le> length d" using w(5) [OF il] len by simp
  have n: "sc_data r ! i = d ! i" if "i < 8" for i
    using if_crc_nth [OF l _ w(1), of i rc] that l by (simp add: r)
  have v: "sc_valid r" using p by (simp add: wf_section_def)
  have "take (length d - 12) (drop 8 (sc_data r)) = drop 8 (take (length d - 4) (sc_data r))"
    by (simp add: drop_take)
  also have "\<dots> = take (length d - 12) (drop 8 (sc_data s))"
    using p body by (simp add: drop_take)
  finally have "section_payload r = section_payload s"
    using p il v w(1) len by (simp add: section_payload_def payloadSize_def headerSize_def)
  moreover have "tableId r = tableId s" using v w(1) same n [of 0] by (simp add: tableId_def)
  ultimately show ?thesis using p n len by (simp add: section_size_def)
qed

abbreviation same_but_header :: "Section \<Rightarrow> Section \<Rightarrow> bool" where
  "same_but_header r s \<equiv> tableId r = tableId s \<and> section_payload r = section_payload s \<and> isLongSection r"

lemmas header_fields = tableIdExtension_def version_of_def isCurrent_def sectionNumber_def
  lastSectionNumber_def Let_def

lemma long_section_facts:
  assumes "wf_section s" and "isLongSection s"
  shows "12 \<le> length (sc_data s)" and "sc_valid s" and "sc_data s ! 6 \<le> sc_data s ! 7"
  using assms wf_sectionD [OF assms(1)] by (simp_all add: wf_section_def raw_ok_def isLong_wf)

lemma setTableIdExtension_frame:
  assumes "wf_section s" and "isLongSection s"
  shows "let r = setTableIdExtension s ext rc in wf_section r \<and> (rc \<longrightarrow> crc_section r) \<and>
      tableIdExtension r = ext \<and> version_of r = version_of s \<and> isCurrent r = isCurrent s \<and>
      sectionNumber r = sectionNumber s \<and> lastSectionNumber r = lastSectionNumber s \<and> same_but_header r s"
proof -
  let ?d = "sc_data s" and ?e = "PutUInt16 (sc_data s) 3 ext"
  note l = long_section_facts [OF assms]
  have o: "?e ! i = ?d ! i" if "i \<noteq> 3" "i \<noteq> 4" for i
    using l that by (auto simp: PutUInt16_def nth_memcpy_at)
  have "drop 8 ?e = drop 8 ?d" using l
    by (intro nth_equalityI) (simp_all add: o)
  from setter_frame [OF assms, of ?e _ rc, OF _ _ _ _ _ this refl] l o
  show ?thesis using assms(2) Get_PutUInt16 [of 3 ?d ext]
    by (simp add: setTableIdExtension_def header_fields GetUInt16_def)
qed

lemma setVersion_frame:
  assumes "wf_section s" and "isLongSection s"
  shows "let r = setVersion s ver rc in wf_section r \<and> (rc \<longrightarrow> crc_section r) \<and>
      tableIdExtension r = tableIdExtension s \<and> version_of r = ver AND 0x1F \<and> isCurrent r = isCurrent s \<and>
      sectionNumber r = sectionNumber s \<and> lastSectionNumber r = lastSectionNumber s \<and> same_but_header r s"
proof -
  define e where "e = (sc_data s ! 5 AND 0xC1) OR push_bit 1 (ver AND 0x1F)"
  note ev = version_patch(1,2) [of "sc_data s ! 5" ver, folded e_def]
  show ?thesis
    using setter_frame [OF assms, of "(sc_data s)[5 := e]" _ rc, OF _ _ _ _ _ _ refl]
      long_section_facts [OF assms] assms(2) ev
    unfolding setVersion_def e_def [symmetric] by (simp add: header_fields GetUInt16_def)
qed

lemma setIsCurrent_frame:
  assumes "wf_section s" and "isLongSection s"
  shows "let r = setIsCurrent s cur rc in wf_section r \<and> (rc \<longrightarrow> crc_section r) \<and>
      tableIdExtension r = tableIdExtension s \<and> version_of r = version_of s \<and> isCurrent r = cur \<and>
      sectionNumber r = sectionNumber s \<and> lastSectionNumber r = lastSectionNumber s \<and> same_but_header r s"
proof -
  define e where "e = (sc_data s ! 5 AND 0xFE) OR (if cur then 0x01 else 0x00)"
  note ec = version_patch(3,4) [of "sc_data s ! 5" cur, folded e_def]
  show ?thesis
    using setter_frame [OF assms, of "(sc_data s)[5 := e]" _ rc, OF _ _ _ _ _ _ refl]
      long_section_facts [OF assms] assms(2) ec
    unfolding setIsCurrent_def e_def [symmetric] by (simp add: header_fields GetUInt16_def)
qed

lemma setSectionNumber_frame:
  assumes "wf_section s" and "isLongSection s" and "num \<le> lastSectionNumber s"
  shows "let r = setSectionNumber s num rc in wf_section r \<and> (rc \<longrightarrow> crc_section r) \<and>
      tableIdExtension r = tableIdExtension s \<and> version_of r = version_of s \<and> isCurrent r = isCurrent s \<and>
      sectionNumber r = num \<and> lastSectionNumber r = lastSectionNumber s \<and> same_but_header r s"
  using setter_frame [OF assms(1,2), of "(sc_data s)[6 := num]" _ rc, OF _ _ _ _ _ _ refl]
    long_section_facts [OF assms(1,2)] assms(2,3)
  by (simp add: setSectionNumber_def header_fields GetUInt16_def)

lemma setLastSectionNumber_frame:
  assumes "wf_section s" and "isLongSection s" and "sectionNumber s \<le> lst"
  shows "let r = setLastSectionNumber s lst rc in wf_section r \<and> (rc \<longrightarrow> crc_section r) \<and>
      tableIdExtension r = tableIdExtension s \<and> version_of r = version_of s \<and> isCurrent r = isCurrent s \<and>
      sectionNumber r = sectionNumber s \<and> lastSectionNumber r = lst \<and> same_but_header r s"
  using setter_frame [OF assms(1,2), of "(sc_data s)[7 := lst]" _ rc, OF _ _ _ _ _ _ refl]
    long_section_facts [OF assms(1,2)] assms(2,3)
  by (simp add: setLastSectionNumber_def header_fields GetUInt16_def)

text \<open>
  Each header setter of a long section (extension, version, current indicator, section
  number, last section number) keeps the section well formed, restores a valid CRC-32 when
  asked to, stores its argument (the version modulo 32) and leaves every other header
  field and the payload alone. Numbers must stay ordered, as the code requires.
\<close>
theorem section_setters:
  assumes "wf_section s" and "isLongSection s"
    and "num \<le> lastSectionNumber s" and "sectionNumber s \<le> lst"
  shows "(let r = setTableIdExtension s ext rc in wf_section r \<and> (rc \<longrightarrow> crc_section r) \<and>
      tableIdExtension r = ext \<and> version_of r = version_of s \<and> isCurrent r = isCurrent s \<and>
      sectionNumber r = sectionNumber s \<and> lastSectionNumber r = lastSectionNumber s \<and> same_but_header r s) \<and>
    (let r = setVersion s ver rc in wf_section r \<and> (rc \<longrightarrow> crc_section r) \<and>
      tableIdExtension r = tableIdExtension s \<and> version_of r = ver AND 0x1F \<and> isCurrent r = isCurrent s \<and>
      sectionNumber r = sectionNumber s \<and> lastSectionNumber r = lastSectionNumber s \<and> same_but_header r s) \<and>
    (let r = setIsCurrent s cur rc in wf_section r \<and> (rc \<longrightarrow> crc_section r) \<and>
      tableIdExtension r = tableIdExtension s \<and> version_of r = version_of s \<and> isCurrent r = cur \<and>
      sectionNumber r = sectionNumber s \<and> lastSectionNumber r = lastSectionNumber s \<and> same_but_header r s) \<and>
    (let r = setSectionNumber s num rc in wf_section r \<and> (rc \<longrightarrow> crc_section r) \<and>
      tableIdExtension r = tableIdExtension s \<and> version_of r = version_of s \<and> isCurrent r = isCurrent s \<and>
      sectionNumber r = num \<and> lastSectionNumber r = lastSectionNumber s \<and> same_but_header r s) \<and>
    (let r = setLastSectionNumber s lst rc in wf_section r \<and> (rc \<longrightarrow> crc_section r) \<and>
      tableIdExtension r = tableIdExtension s \<and> version_of r = version_of s \<and> isCurrent r = isCurrent s \<and>
      sectionNumber r = sectionNumber s \<and> lastSectionNumber r = lst \<and> same_but_header r s)"
  by (intro conjI setTableIdExtension_frame setVersion_frame setIsCurrent_frame
      setSectionNumber_frame setLastSectionNumber_frame assms)

text \<open>A concrete long section with payload 0xAA 0xBB, used by the witnesses.\<close>

definition sample_section :: "byte \<Rightarrow> byte \<Rightarrow> Section" where
  "sample_section num lst = reload_long 0x42 True 0x1234 5 True num lst [0xAA, 0xBB] 0x100"

lemma GetUInt32_bytes:
  "ucast (drop_bit 24 (GetUInt32 d n)) = d ! n" "ucast (drop_bit 16 (GetUInt32 d n)) = d ! (n + 1)"
  "ucast (drop_bit 8 (GetUInt32 d n)) = d ! (n + 2)" "ucast (GetUInt32 d n) = d ! (n + 3)"
  unfolding GetUInt32_def by (rule bit_word_eqI, unfold ts_bits, auto dest: bit_imp_le_length)+


text \<open>
  What \<open>SectionSize\<close> returns around a section: its size when the buffer holds exactly
  the section; 0 as soon as anything follows it; and the full size when the buffer was cut
  before its end. The header documents the opposite (trailing data is allowed, a truncated
  section is an error).
\<close>
theorem SectionSize_of_section_with_trailing_data:
  assumes "wf_section s"
  shows "SectionSize (sc_data s) = section_size s \<and>
    (trail \<noteq> [] \<longrightarrow> SectionSize (sc_data s @ trail) = 0) \<and>
    (3 \<le> n \<and> n < section_size s \<longrightarrow> SectionSize (take n (sc_data s)) = section_size s)"
proof -
  note w = wf_sectionD [OF assms]
  have r: "raw_size (sc_data s) = length (sc_data s)" using w(2) by (simp add: raw_ok_def)
  have "raw_size (take n (sc_data s)) = raw_size (sc_data s)" if "3 \<le> n"
    using that by (simp add: raw_size_def)
  moreover have "raw_size (sc_data s @ trail) = raw_size (sc_data s)" 
    using w(3) by (simp add: raw_size_def)
  ultimately show ?thesis using w r by (auto simp: SectionSize_eq section_size_def)
qed

text \<open>
  C31. A section accepted by the constructor from binary data is exactly one whose length
  field is the buffer size, within 3 to 4096 bytes, with ordered section numbers and a
  correct CRC-32 when that is asked for; it is then well formed, its bytes are those of
  the buffer (apart from a CRC that was asked to be computed). Anything else is invalid and
  has no data.
\<close>
theorem Section_initialize_sound:
  "let s = Section_initialize d pid op in
   if raw_ok d \<and> (op = CRC_CHECK \<longrightarrow> raw_crc d)
   then wf_section s \<and> sc_pid s = pid \<and> (op \<noteq> CRC_IGNORE \<longrightarrow> crc_section s) \<and>
        (op \<noteq> CRC_COMPUTE \<longrightarrow> sc_data s = d) \<and> take (length d - 4) (sc_data s) = take (length d - 4) d
   else \<not> sc_valid s \<and> sc_data s = []"
  by (rule Section_initialize_facts)

text \<open>
  C24. Long sections round trip: a section built from its header fields and a payload is
  well formed, has a valid CRC-32, gives every field and the payload back, and is rebuilt
  identically from its bytes with the CRC-32 check on.
\<close>
theorem reload_long_roundtrip:
  assumes "num \<le> lst" and "ver \<le> 31" and "12 + length payload \<le> 4096"
  shows "let s = reload_long tid priv ext ver cur num lst payload pid in
    wf_section s \<and> crc_section s \<and> isLongSection s \<and> tableId s = tid \<and>
    isPrivateSection s = priv \<and> tableIdExtension s = ext \<and> version_of s = ver \<and>
    isCurrent s = cur \<and> sectionNumber s = num \<and> lastSectionNumber s = lst \<and>
    section_payload s = payload \<and> Section_initialize (sc_data s) pid CRC_CHECK = s"
  by (rule reload_long_facts [OF assms])

lemma sample_section_facts:
  "num \<le> lst \<Longrightarrow> wf_section (sample_section num lst) \<and> isLongSection (sample_section num lst) \<and>
     crc_section (sample_section num lst) \<and> tableId (sample_section num lst) = 0x42 \<and>
     tableIdExtension (sample_section num lst) = 0x1234 \<and> version_of (sample_section num lst) = 5 \<and>
     sectionNumber (sample_section num lst) = num \<and> lastSectionNumber (sample_section num lst) = lst \<and>
     section_payload (sample_section num lst) = [0xAA, 0xBB]"
  using reload_long_facts [of num lst 5 "[0xAA, 0xBB]" "0x42" True "0x1234" True "0x100"]
  by (simp add: sample_section_def Let_def)

theorem reload_long_roundtrip_witness:
  "let s = reload_long 0x42 True 0x1234 5 True 1 3 [0xAA, 0xBB] 0x100 in
    wf_section s \<and> version_of s = 5 \<and> section_payload s = [0xAA, 0xBB]"
  using reload_long_roundtrip [of 1 3 5 "[0xAA, 0xBB]" "0x42" True "0x1234" True "0x100"]
  by (simp add: Let_def)

text \<open>
  Short sections round trip: same property for sections with a 3-byte header.
\<close>
theorem reload_short_roundtrip:
  assumes "3 + length payload \<le> 4096"
  shows "let s = reload_short tid priv payload pid in
    wf_section s \<and> isShortSection s \<and> tableId s = tid \<and> isPrivateSection s = priv \<and>
    version_of s = 0 \<and> sectionNumber s = 0 \<and> lastSectionNumber s = 0 \<and>
    section_payload s = payload \<and> Section_initialize (sc_data s) pid CRC_CHECK = s"
  by (rule reload_short_facts [OF assms])

theorem reload_short_roundtrip_witness:
  "let s = reload_short 0x70 True [1, 2, 3] 0x14 in wf_section s \<and> section_payload s = [1, 2, 3]"
  using reload_short_roundtrip [of "[1, 2, 3]" "0x70" True "0x14"] by (simp add: Let_def)

theorem section_setters_witness:
  "let r = setVersion (sample_section 1 3) 9 True in crc_section r \<and> version_of r = 9"
  using section_setters [of "sample_section 1 3" 2 5 0 True 9] sample_section_facts [of 1 3]
  by (simp add: Let_def)


theorem SectionSize_of_section_with_trailing_data_witness:
  "SectionSize (sc_data (sample_section 0 0)) = section_size (sample_section 0 0)"
  using SectionSize_of_section_with_trailing_data [of "sample_section 0 0"] sample_section_facts [of 0 0]
  by simp

theorem Section_initialize_sound_witness:
  "wf_section (Section_initialize (sc_data (sample_section 1 3)) 0 CRC_CHECK)"
  using Section_initialize_sound [where d = "sc_data (sample_section 1 3)" and op = CRC_CHECK and pid = 0] sample_section_facts [of 1 3]
  by (simp add: wf_section_def [of "sample_section 1 3"] crc_section_def [of "sample_section 1 3"] Let_def)

end
