(* ===== verification/Ts_Table.thy ===== *)
theory Ts_Table
  imports Ts_Section
begin

text \<open>
  A table as a set of sections: \<open>tsBinaryTable.cpp\<close>. \<open>_sections\<close> is a list with
  \<^const>\<open>None\<close> for a null pointer. Sections are shared pointers in the code and
  \<open>addSection\<close> may patch the section it receives: the model returns it.
  An operation that dereferences the null pointer of a missing section has the
  result \<^const>\<open>None\<close>.
\<close>

section \<open>The table object\<close>

record BinaryTable =
  tb_valid :: bool
  tb_tid :: byte
  tb_tid_ext :: u16
  tb_version :: byte
  tb_pid :: u16
  tb_missing :: int
  tb_sections :: "Section option list"

definition BinaryTable_clear :: BinaryTable where
  "BinaryTable_clear = \<lparr>tb_valid = False, tb_tid = 0xFF, tb_tid_ext = 0, tb_version = 0,
     tb_pid = PID_NULL, tb_missing = 0, tb_sections = []\<rparr>"

definition vector_resize :: "nat \<Rightarrow> 'a option list \<Rightarrow> 'a option list" where
  "vector_resize n xs = take n xs @ replicate (n - length xs) None"

definition BinaryTable_equal :: "BinaryTable \<Rightarrow> BinaryTable \<Rightarrow> bool" where
  "BinaryTable_equal a b =
     (tb_valid a \<and> tb_valid b \<and> tb_tid a = tb_tid b \<and> tb_tid_ext a = tb_tid_ext b \<and>
      tb_version a = tb_version b \<and> length (tb_sections a) = length (tb_sections b) \<and>
      list_all2 (\<lambda>x y. case (x, y) of (Some s, Some t) \<Rightarrow> Section_equal s t | _ \<Rightarrow> False)
        (tb_sections a) (tb_sections b))"

section \<open>Adding sections\<close>

definition table_store :: "BinaryTable \<Rightarrow> Section \<Rightarrow> nat \<Rightarrow> bool \<Rightarrow> bool \<times> BinaryTable \<times> Section" where
  "table_store t sect index replace =
     (if tb_sections t ! index \<noteq> None \<and> \<not> replace then (False, t, sect)
      else
        let missing = (if tb_sections t ! index = None then tb_missing t - 1 else tb_missing t)
        in (True, t\<lparr>tb_sections := (tb_sections t)[index := Some sect], tb_missing := missing,
                    tb_valid := (missing = 0)\<rparr>, sect))"

definition table_grow :: "BinaryTable \<Rightarrow> byte \<Rightarrow> BinaryTable" where
  "table_grow t lst =
     t\<lparr>tb_missing := tb_missing t + (int (unat lst) + 1 - int (length (tb_sections t))),
       tb_sections := map (map_option (\<lambda>s. setLastSectionNumber s lst True))
                        (vector_resize (unat lst + 1) (tb_sections t))\<rparr>"

definition addSection :: "BinaryTable \<Rightarrow> Section \<Rightarrow> bool \<Rightarrow> bool \<Rightarrow> bool \<times> BinaryTable \<times> Section" where
  "addSection t sect replace grow =
     (if \<not> sc_valid sect then (False, t, sect)
      else
        let index = unat (sectionNumber sect);
            lst = unat (lastSectionNumber sect);
            n = length (tb_sections t)
        in if n = 0 then
             table_store
               (t\<lparr>tb_sections := vector_resize (lst + 1) [], tb_tid := tableId sect,
                  tb_tid_ext := tableIdExtension sect, tb_version := version_of sect,
                  tb_pid := sc_pid sect, tb_missing := int (lst + 1)\<rparr>) sect index replace
           else if tableId sect \<noteq> tb_tid t \<or> tableIdExtension sect \<noteq> tb_tid_ext t \<or>
                   version_of sect \<noteq> tb_version t then (False, t, sect)
           else if \<not> grow \<and> (index \<ge> n \<or> lst \<noteq> n - 1) then (False, t, sect)
           else if lst \<noteq> n - 1 then
             (if lst < n - 1
              then table_store t (setLastSectionNumber sect (of_nat (n - 1)) True) index replace
              else table_store (table_grow t (lastSectionNumber sect)) sect index replace)
           else table_store t sect index replace)"

fun addSections :: "BinaryTable \<Rightarrow> Section list \<Rightarrow> bool \<Rightarrow> bool \<Rightarrow> bool \<times> BinaryTable" where
  "addSections t [] replace grow = (True, t)"
| "addSections t (s # ss) replace grow =
     (let (ok1, t1, _) = addSection t s replace grow;
          (ok, t') = addSections t1 ss replace grow
      in (ok1 \<and> ok, t'))"

definition BinaryTable_of :: "Section list \<Rightarrow> bool \<Rightarrow> bool \<Rightarrow> BinaryTable" where
  "BinaryTable_of ss replace grow =
     (case addSections BinaryTable_clear ss replace grow of (ok, t) \<Rightarrow> if ok then t else BinaryTable_clear)"

section \<open>Packing and the other operations\<close>

definition renumber :: "nat \<Rightarrow> nat \<Rightarrow> Section \<Rightarrow> Section" where
  "renumber next_section n s =
     setLastSectionNumber (setSectionNumber s (of_nat n) False) (of_nat (next_section - 1)) True"

definition present :: "'a option list \<Rightarrow> 'a list" where
  "present xs = List.map_filter (\<lambda>x. x) xs"

definition packSections :: "BinaryTable \<Rightarrow> bool \<times> BinaryTable" where
  "packSections t =
     (let t' = (if tb_missing t > 0 then
          (let ss = present (tb_sections t)
           in t\<lparr>tb_missing := 0, tb_valid := (ss \<noteq> []),
                tb_sections := map (\<lambda>n. Some (renumber (length ss) n (ss ! n))) [0..<length ss]\<rparr>)
          else t)
      in (tb_valid t', t'))"

definition table_setTableIdExtension :: "BinaryTable \<Rightarrow> u16 \<Rightarrow> bool \<Rightarrow> BinaryTable option" where
  "table_setTableIdExtension t tid_ext rc =
     (if None \<in> set (tb_sections t) then None
      else Some (t\<lparr>tb_tid_ext := tid_ext,
                   tb_sections := map (map_option (\<lambda>s. setTableIdExtension s tid_ext rc)) (tb_sections t)\<rparr>))"

definition table_setVersion :: "BinaryTable \<Rightarrow> byte \<Rightarrow> bool \<Rightarrow> BinaryTable option" where
  "table_setVersion t version rc =
     (if None \<in> set (tb_sections t) then None
      else Some (t\<lparr>tb_version := version,
                   tb_sections := map (map_option (\<lambda>s. setVersion s version rc)) (tb_sections t)\<rparr>))"

definition table_setSourcePID :: "BinaryTable \<Rightarrow> u16 \<Rightarrow> BinaryTable option" where
  "table_setSourcePID t pid =
     (if None \<in> set (tb_sections t) then None
      else Some (t\<lparr>tb_pid := pid, tb_sections := map (map_option (\<lambda>s. setSourcePID s pid)) (tb_sections t)\<rparr>))"

definition getFirstTSPacketIndex :: "BinaryTable \<Rightarrow> PacketCounter" where
  "getFirstTSPacketIndex t =
     (let ss = present (tb_sections t)
      in if ss \<noteq> [] then fold (\<lambda>s a. min a (sc_first s)) ss 0xFFFFFFFFFFFFFFFF else 0)"

definition getLastTSPacketIndex :: "BinaryTable \<Rightarrow> PacketCounter" where
  "getLastTSPacketIndex t = fold (\<lambda>s a. max a (sc_last s)) (present (tb_sections t)) 0"

definition totalSize :: "BinaryTable \<Rightarrow> nat" where
  "totalSize t = sum_list (map section_size (filter sc_valid (present (tb_sections t))))"

definition table_packetCount :: "BinaryTable \<Rightarrow> bool \<Rightarrow> nat" where
  "table_packetCount t pack = Section_PacketCount (tb_sections t) pack"

definition table_isShortSection :: "BinaryTable \<Rightarrow> bool" where
  "table_isShortSection t =
     (case tb_sections t of [Some s] \<Rightarrow> isShortSection s | _ \<Rightarrow> False)"

section \<open>Facts\<close>

lemma length_vector_resize [simp]: "length (vector_resize n xs) = n"
  by (simp add: vector_resize_def)

lemma nth_vector_resize: "i < n \<Longrightarrow> vector_resize n xs ! i = (if i < length xs then xs ! i else None)"
  by (auto simp: vector_resize_def nth_append)

lemma present_simps [simp]:
  "present [] = []" "present (None # xs) = present xs" "present (Some x # xs) = x # present xs"
  by (simp_all add: present_def List.map_filter_simps)

lemma present_map_Some [simp]: "present (map Some xs) = xs"
  by (induction xs) simp_all

lemma length_present: "length (present xs) + count_list xs None = length xs"
  by (induction xs) (auto split: option.splits) 

lemma set_present: "set (present xs) = {x. Some x \<in> set xs}"
proof (induction xs)
  case (Cons a xs) then show ?case by (cases a) auto
qed simp

section \<open>Invariant\<close>

lemma count_list_update_add:
  "i < length xs \<Longrightarrow> count_list (xs[i := Some s]) None + (if xs ! i = None then 1 else 0) = count_list xs None"
proof (induction xs arbitrary: i)
  case (Cons x xs)
  show ?case
  proof (cases i)
    case (Suc j)
    then show ?thesis using Cons.IH [of j] Cons.prems by (cases "xs ! j") auto
  qed (use Cons.prems in auto)
qed simp

lemma count_list_update:
  "i < length xs \<Longrightarrow> count_list (xs[i := Some s]) None = count_list xs None - (if xs ! i = None then 1 else 0)"
  using count_list_update_add [of i xs s] by simp

lemma count_list_replicate_None: "count_list (replicate n None) None = n"
  by (induction n) simp_all

lemma count_None_pos: "i < length xs \<Longrightarrow> xs ! i = None \<Longrightarrow> 0 < count_list xs None"
  by (metis count_list_0_iff gr0I nth_mem)

definition entry_ok :: "BinaryTable \<Rightarrow> nat \<Rightarrow> Section \<Rightarrow> bool" where
  "entry_ok t i s = (wf_section s \<and> tableId s = tb_tid t \<and> tableIdExtension s = tb_tid_ext t \<and>
     version_of s = tb_version t \<and> unat (sectionNumber s) = i \<and>
     (isLongSection s \<longrightarrow> unat (lastSectionNumber s) = length (tb_sections t) - 1))"

definition table_inv :: "BinaryTable \<Rightarrow> bool" where
  "table_inv t = (length (tb_sections t) \<le> 256 \<and>
     tb_missing t = int (count_list (tb_sections t) None) \<and>
     tb_valid t = (tb_sections t \<noteq> [] \<and> tb_missing t = 0) \<and>
     (\<forall>i < length (tb_sections t). \<forall>s. tb_sections t ! i = Some s \<longrightarrow> entry_ok t i s))"

lemma wf_numbers: "wf_section s \<Longrightarrow> sectionNumber s \<le> lastSectionNumber s"
  by (auto simp: sectionNumber_def lastSectionNumber_def wf_section_def raw_ok_def isLong_wf)

lemma short_setLast [simp]: "\<not> isLongSection s \<Longrightarrow> setLastSectionNumber s n rc = s"
  by (simp add: setLastSectionNumber_def)

lemma setLast_entry:
  assumes "wf_section s" and "unat (sectionNumber s) \<le> unat lst"
  shows "wf_section (setLastSectionNumber s lst rc)"
    and "tableId (setLastSectionNumber s lst rc) = tableId s"
    and "tableIdExtension (setLastSectionNumber s lst rc) = tableIdExtension s"
    and "version_of (setLastSectionNumber s lst rc) = version_of s"
    and "sectionNumber (setLastSectionNumber s lst rc) = sectionNumber s"
    and "isLongSection (setLastSectionNumber s lst rc) = isLongSection s"
    and "isLongSection s \<Longrightarrow> lastSectionNumber (setLastSectionNumber s lst rc) = lst"
    and "section_payload (setLastSectionNumber s lst rc) = section_payload s"
    and "crc_section s \<Longrightarrow> rc \<Longrightarrow> crc_section (setLastSectionNumber s lst rc)"
  using assms setLastSectionNumber_frame [of s lst rc]
  by (cases "isLongSection s"; simp add: Let_def word_le_nat_alt)+

text \<open>The state in which the code stores a section: the table parameters are those of the
  section, which fits in the vector.\<close>

definition pre_store :: "BinaryTable \<Rightarrow> Section \<Rightarrow> bool" where
  "pre_store t s = (length (tb_sections t) \<le> 256 \<and> tb_missing t = int (count_list (tb_sections t) None) \<and>
     (\<forall>i < length (tb_sections t). \<forall>s. tb_sections t ! i = Some s \<longrightarrow> entry_ok t i s) \<and>
     unat (sectionNumber s) < length (tb_sections t) \<and> entry_ok t (unat (sectionNumber s)) s)"

lemma entry_ok_cong:
  "tb_tid t' = tb_tid t \<Longrightarrow> tb_tid_ext t' = tb_tid_ext t \<Longrightarrow> tb_version t' = tb_version t \<Longrightarrow>
   length (tb_sections t') = length (tb_sections t) \<Longrightarrow> entry_ok t' i s = entry_ok t i s"
  by (simp add: entry_ok_def)

lemma table_store_inv:
  assumes p: "pre_store t s" and n: "n = unat (sectionNumber s)"
    and r: "replace \<or> tb_sections t ! n = None"
  shows "case table_store t s n replace of (ok, t', s') \<Rightarrow> ok \<and> s' = s \<and> table_inv t' \<and>
    tb_sections t' = (tb_sections t)[n := Some s]"
proof -
  let ?xs = "tb_sections t"
  have lt: "n < length ?xs" using p n by (simp add: pre_store_def)
  have m: "int (count_list (?xs[n := Some s]) None) =
      (if ?xs ! n = None then tb_missing t - 1 else tb_missing t)"
    using p count_None_pos [OF lt] by (auto simp: pre_store_def count_list_update [OF lt])
  have ne: "?xs[n := Some s] \<noteq> []" using lt by auto
  obtain t' where t': "table_store t s n replace = (True, t', s)"
      and f: "tb_sections t' = ?xs[n := Some s]" "tb_missing t' = int (count_list (?xs[n := Some s]) None)"
        "tb_valid t' = (tb_missing t' = 0)" "tb_tid t' = tb_tid t" "tb_tid_ext t' = tb_tid_ext t"
        "tb_version t' = tb_version t"
    using r unfolding m by (auto simp: table_store_def Let_def)
  have "entry_ok t' i s'" if "i < length (tb_sections t')" "tb_sections t' ! i = Some s'" for i s'
    using that p lt n f(4-6) unfolding f(1)
    by (cases "i = n") (auto simp: pre_store_def entry_ok_cong [of t' t] f(1))
  then have "table_inv t'" using p f ne by (simp add: table_inv_def pre_store_def)
  then show ?thesis by (simp add: t' f(1))
qed

lemma table_store_refused:
  "\<not> replace \<Longrightarrow> tb_sections t ! n \<noteq> None \<Longrightarrow> table_store t s n replace = (False, t, s)"
  by (simp add: table_store_def)

lemma count_list_resize:
  "length xs \<le> n \<Longrightarrow> count_list (vector_resize n xs) None = count_list xs None + (n - length xs)"
  by (simp add: vector_resize_def count_list_replicate_None)

lemma count_list_map_option: "count_list (map (map_option f) xs) None = count_list xs None"
  by (induction xs) auto

lemma table_grow_pre:
  assumes inv: "table_inv t" and s: "wf_section s" "isLongSection s" "tableId s = tb_tid t"
      "tableIdExtension s = tb_tid_ext t" "version_of s = tb_version t"
    and l: "length (tb_sections t) \<le> unat (lastSectionNumber s)"
  shows "pre_store (table_grow t (lastSectionNumber s)) s"
proof -
  let ?l = "lastSectionNumber s" and ?t = "table_grow t (lastSectionNumber s)"
  have len: "length (tb_sections ?t) = unat ?l + 1" by (simp add: table_grow_def)
  have b: "unat ?l < 256" using unsigned_less [of ?l] by simp
  have "entry_ok ?t i x" if i: "i < unat ?l + 1" and x: "tb_sections ?t ! i = Some x" for i x
  proof -
    obtain y where y: "i < length (tb_sections t)" "tb_sections t ! i = Some y"
        "x = setLastSectionNumber y ?l True"
      using x i by (auto simp: table_grow_def nth_vector_resize split: if_splits simp del: upt_Suc)
    have ok: "entry_ok t i y" using inv y by (simp add: table_inv_def)
    then have "unat (sectionNumber y) \<le> unat ?l" using y(1) l by (simp add: entry_ok_def)
    with ok show ?thesis
      using setLast_entry [of y ?l True] by (simp add: y(3) entry_ok_def len) (simp add: table_grow_def)
  qed
  moreover have "entry_ok ?t (unat (sectionNumber s)) s"
    using s by (simp add: entry_ok_def len) (simp add: table_grow_def)
  moreover have "unat (sectionNumber s) < unat ?l + 1"
    using wf_numbers [OF s(1)] by (simp add: word_le_nat_alt)
  moreover have "tb_missing ?t = int (count_list (tb_sections ?t) None)"
    using inv l by (simp add: table_grow_def count_list_map_option count_list_resize table_inv_def)
  ultimately show ?thesis using b len by (simp add: pre_store_def)
qed

lemma addSection_facts:
  assumes inv: "table_inv t" and s: "wf_section s"
    and mode: "replace \<or> \<not> grow"
  shows "case addSection t s replace grow of (ok, t', s') \<Rightarrow> table_inv t' \<and> wf_section s' \<and>
    (ok \<longrightarrow> tb_sections t' ! unat (sectionNumber s) = Some s') \<and> (\<not> ok \<longrightarrow> t' = t \<and> s' = s)"
proof -
  let ?n = "length (tb_sections t)" and ?i = "unat (sectionNumber s)" and ?l = "unat (lastSectionNumber s)"
  have v: "sc_valid s" and il: "?i \<le> ?l" and b: "?l < 256"
    using s wf_numbers [OF s] unsigned_less [of "lastSectionNumber s"]
    by (simp_all add: wf_section_def word_le_nat_alt)
  have store: "case table_store u x ?i replace of (ok, t', s') \<Rightarrow> table_inv t' \<and> wf_section s' \<and>
      (ok \<longrightarrow> tb_sections t' ! ?i = Some s') \<and> (\<not> ok \<longrightarrow> t' = t \<and> s' = s)"
    if "pre_store u x" "sectionNumber x = sectionNumber s"
      "replace \<or> tb_sections u ! ?i = None \<or> (u = t \<and> x = s)" for u x
  proof (cases "replace \<or> tb_sections u ! ?i = None")
    case True
    have lt: "?i < length (tb_sections u)" and wx: "wf_section x"
      using that(1,2) by (simp_all add: pre_store_def entry_ok_def)
    from table_store_inv [OF that(1) that(2) [symmetric, THEN arg_cong [of _ _ unat]] True]
    show ?thesis using lt wx by (clarsimp split: prod.splits)
  next
    case False
    then have "u = t \<and> x = s" using that(3) by metis
    then show ?thesis using table_store_refused [of replace u ?i x] False inv s by simp
  qed
  let ?P = "tableId s = tb_tid t \<and> tableIdExtension s = tb_tid_ext t \<and> version_of s = tb_version t"
  consider (first) "?n = 0" | (other) "0 < ?n" "\<not> ?P" | (fixed) "0 < ?n" "\<not> grow" "?l \<noteq> ?n - 1"
    | (same) "0 < ?n" "?l = ?n - 1" "tableId s = tb_tid t" "tableIdExtension s = tb_tid_ext t" "version_of s = tb_version t"
    | (less) "0 < ?n" "grow" "?l < ?n - 1" "tableId s = tb_tid t" "tableIdExtension s = tb_tid_ext t" "version_of s = tb_version t"
    | (more) "0 < ?n" "grow" "?n - 1 < ?l" "tableId s = tb_tid t" "tableIdExtension s = tb_tid_ext t" "version_of s = tb_version t"
    by (cases "0 < ?n"; cases ?P; cases grow; cases ?l "?n - 1" rule: linorder_cases) simp_all
  then show ?thesis
  proof cases
    case first
    let ?u = "t\<lparr>tb_sections := vector_resize (?l + 1) [], tb_tid := tableId s, tb_tid_ext := tableIdExtension s,
        tb_version := version_of s, tb_pid := sc_pid s, tb_missing := int (?l + 1)\<rparr>"
    have "pre_store ?u s" using s il b
      by (simp add: pre_store_def entry_ok_def nth_vector_resize count_list_resize)
    moreover have "tb_sections ?u ! ?i = None" using il by (simp add: nth_vector_resize)
    ultimately show ?thesis using store [of ?u s] first v by (simp add: addSection_def Let_def)
  next
    case other
    then show ?thesis using inv s v by (auto simp: addSection_def Let_def)
  next
    case fixed
    then show ?thesis using inv s v by (auto simp: addSection_def Let_def)
  next
    case same
    have "?i < ?n" using same(1,2) il by linarith
    with same have "pre_store t s" using inv s by (auto simp: pre_store_def table_inv_def entry_ok_def)
    then show ?thesis using store [of t s] same v il inv s by (simp add: addSection_def Let_def)
  next
    case less
    let ?m = "of_nat (?n - 1) :: byte" and ?x = "setLastSectionNumber s (of_nat (?n - 1)) True"
    have "?n \<le> 256" using inv by (simp add: table_inv_def)
    with less(1) have "?n - 1 < 256" by linarith
    then have m: "unat ?m = ?n - 1" by (simp add: unat_of_nat)
    have "?i \<le> unat ?m" using il less m by simp
    note sl = setLast_entry [OF s this, of True]
    have "?i < ?n" using less il by linarith
    with less have "pre_store t ?x" using inv sl m by (auto simp: pre_store_def table_inv_def entry_ok_def)
    then show ?thesis using store [of t ?x] sl less v mode by (simp add: addSection_def Let_def)
  next
    case more
    have "isLongSection s" using more by (cases "isLongSection s") (auto simp: lastSectionNumber_def)
    then have "pre_store (table_grow t (lastSectionNumber s)) s"
      using table_grow_pre [OF inv s _ more(4-6)] more(3) by linarith
    then show ?thesis using store [of "table_grow t (lastSectionNumber s)" s] more v mode
      by (simp add: addSection_def Let_def)
  qed
qed

section \<open>Tables from sections in any order\<close>

text \<open>Sections of one table: same parameters and last number, one section per number.\<close>

definition same_table :: "byte \<Rightarrow> u16 \<Rightarrow> byte \<Rightarrow> nat \<Rightarrow> Section set \<Rightarrow> bool" where
  "same_table tid ext ver n D = ((\<forall>s \<in> D. wf_section s \<and> tableId s = tid \<and> tableIdExtension s = ext \<and>
     version_of s = ver \<and> unat (lastSectionNumber s) + 1 = n) \<and> inj_on sectionNumber D)"

definition holds_sections :: "byte \<Rightarrow> u16 \<Rightarrow> byte \<Rightarrow> nat \<Rightarrow> Section set \<Rightarrow> BinaryTable \<Rightarrow> bool" where
  "holds_sections tid ext ver n D t = (tb_tid t = tid \<and> tb_tid_ext t = ext \<and> tb_version t = ver \<and>
     length (tb_sections t) = n \<and> 0 < n \<and> tb_missing t = int (count_list (tb_sections t) None) \<and>
     tb_valid t = (tb_missing t = 0) \<and>
     (\<forall>i < n. \<forall>s. tb_sections t ! i = Some s \<longleftrightarrow> s \<in> D \<and> unat (sectionNumber s) = i))"

lemma same_tableD:
  assumes "same_table tid ext ver n D" and "s \<in> D"
  shows "wf_section s" "sc_valid s" "tableId s = tid" "tableIdExtension s = ext" "version_of s = ver"
    "unat (lastSectionNumber s) + 1 = n" "unat (sectionNumber s) < n"
  using assms wf_numbers [of s] by (auto simp: same_table_def wf_section_def word_le_nat_alt)

lemma same_table_unique:
  "same_table tid ext ver n D \<Longrightarrow> s \<in> D \<Longrightarrow> s' \<in> D \<Longrightarrow> unat (sectionNumber s) = unat (sectionNumber s') \<Longrightarrow> s = s'"
  by (metis same_table_def inj_onD word_unat_eq_iff)

lemma addSection_holds:
  assumes st: "same_table tid ext ver n (insert s D)" and h: "holds_sections tid ext ver n D t"
  shows "holds_sections tid ext ver n (insert s D) (fst (snd (addSection t s replace grow)))"
proof -
  let ?i = "unat (sectionNumber s)"
  note d = same_tableD [OF st insertI1]
  have add: "addSection t s replace grow = table_store t s ?i replace"
    using d h by (auto simp: addSection_def holds_sections_def Let_def)
  show ?thesis
  proof (cases "tb_sections t ! ?i")
    case None
    have m: "int (count_list ((tb_sections t)[?i := Some s]) None) = int (count_list (tb_sections t) None) - 1"
      using count_None_pos [of ?i "tb_sections t"] None h d
      by (simp add: holds_sections_def count_list_update)
    have "s \<notin> D" using h None d(7) unfolding holds_sections_def by (metis option.distinct(1))
    then show ?thesis using h None d m unfolding add
      by (auto simp: table_store_def holds_sections_def Let_def nth_list_update)
  next
    case (Some s')
    then have "s' \<in> D" "unat (sectionNumber s') = ?i" using h d by (auto simp: holds_sections_def)
    then have "s' = s" using same_table_unique [OF st] by blast
    moreover have "insert s D = D" using \<open>s' \<in> D\<close> \<open>s' = s\<close> by blast
    moreover have "(tb_sections t)[?i := Some s] = tb_sections t"
      using Some \<open>s' = s\<close> by (metis list_update_id)
    ultimately show ?thesis using h Some unfolding add
      by (auto simp: table_store_def Let_def holds_sections_def)
  qed
qed

lemma same_table_subset: "same_table tid ext ver n D \<Longrightarrow> E \<subseteq> D \<Longrightarrow> same_table tid ext ver n E"
  by (auto simp: same_table_def intro: inj_on_subset)

lemma addSections_holds:
  assumes "same_table tid ext ver n (D \<union> set ss)" and "holds_sections tid ext ver n D t"
  shows "holds_sections tid ext ver n (D \<union> set ss) (snd (addSections t ss replace grow))"
  using assms
proof (induction ss arbitrary: D t)
  case (Cons s ss)
  have "same_table tid ext ver n (insert s D)"
    using same_table_subset [OF Cons.prems(1), of "insert s D"] by auto
  from addSection_holds [OF this Cons.prems(2), of replace grow] Cons.prems(1)
  show ?case using Cons.IH [of "insert s D" "fst (snd (addSection t s replace grow))"]
    by (simp add: case_prod_beta Let_def)
qed simp

text \<open>The first section of an empty table sets the parameters of the table.\<close>

definition table_for :: "Section \<Rightarrow> BinaryTable" where
  "table_for s = \<lparr>tb_valid = False, tb_tid = tableId s, tb_tid_ext = tableIdExtension s,
     tb_version = version_of s, tb_pid = sc_pid s, tb_missing = int (unat (lastSectionNumber s) + 1),
     tb_sections = vector_resize (unat (lastSectionNumber s) + 1) []\<rparr>"

lemma addSection_first:
  "wf_section s \<Longrightarrow> addSection BinaryTable_clear s replace grow = addSection (table_for s) s replace grow"
  using wf_numbers [of s]
  by (auto simp: addSection_def BinaryTable_clear_def table_for_def Let_def wf_section_def word_le_nat_alt)

lemma table_for_holds:
  "unat (lastSectionNumber s) + 1 = n \<Longrightarrow>
   holds_sections (tableId s) (tableIdExtension s) (version_of s) n {} (table_for s)"
  by (auto simp: holds_sections_def table_for_def nth_vector_resize count_list_resize)

lemma addSections_any_order_facts:
  assumes st: "same_table tid ext ver n (set ss)"
    and cover: "\<And>i. i < n \<Longrightarrow> \<exists>s \<in> set ss. unat (sectionNumber s) = i"
    and ne: "ss \<noteq> []"
  shows "let t = snd (addSections BinaryTable_clear ss replace grow) in
    tb_valid t \<and> tb_tid t = tid \<and> tb_tid_ext t = ext \<and> tb_version t = ver \<and>
    length (tb_sections t) = n \<and>
    (\<forall>i < n. \<exists>s \<in> set ss. unat (sectionNumber s) = i \<and> tb_sections t ! i = Some s)"
proof -
  obtain s ss' where ss: "ss = s # ss'" using ne by (cases ss) auto
  have "s \<in> set ss" by (simp add: ss)
  note d = same_tableD [OF st this]
  have "addSections BinaryTable_clear ss replace grow = addSections (table_for s) ss replace grow"
    by (simp add: ss addSection_first d(1))
  moreover have "holds_sections tid ext ver n {} (table_for s)"
    by (rule table_for_holds [OF d(6), unfolded d(3-5)])
  ultimately have h: "holds_sections tid ext ver n (set ss) (snd (addSections BinaryTable_clear ss replace grow))"
    using addSections_holds [of tid ext ver n "{}" ss "table_for s" replace grow] st by simp
  let ?t = "snd (addSections BinaryTable_clear ss replace grow)"
  have all: "\<exists>s \<in> set ss. unat (sectionNumber s) = i \<and> tb_sections ?t ! i = Some s" if "i < n" for i
    using cover [OF that] h that by (auto simp: holds_sections_def)
  then have "None \<notin> set (tb_sections ?t)"
    using h unfolding in_set_conv_nth holds_sections_def by (metis option.distinct(1))
  then show ?thesis using h all by (simp add: holds_sections_def Let_def count_list_0_iff)
qed

section \<open>Packing\<close>

lemma present_numbers:
  assumes "\<And>i s. i < length xs \<Longrightarrow> xs ! i = Some s \<Longrightarrow> f s = (k + i :: nat)" and "j < length (present xs)"
  shows "k + j \<le> f (present xs ! j) \<and> present xs ! j \<in> {s. Some s \<in> set xs}"
  using assms
proof (induction xs arbitrary: k j)
  case (Cons x xs)
  have ih: "k + 1 + j \<le> f (present xs ! j) \<and> present xs ! j \<in> {s. Some s \<in> set xs}" if "j < length (present xs)" for j
    by (rule Cons.IH [OF _ that]) (use Cons.prems(1) [of "Suc _"] in auto)
  show ?case
  proof (cases x)
    case None
    then show ?thesis using ih [of j] Cons.prems(2) by auto
  next
    case (Some s)
    then show ?thesis using ih [of "j - 1"] Cons.prems(1) [of 0 s] Cons.prems(2)
      by (cases j) auto
  qed
qed simp

lemma renumber_entry:
  assumes wf: "wf_section s" and n: "n \<le> unat (sectionNumber s)" and k: "n < k" "k \<le> 256"
  shows "wf_section (renumber k n s) \<and> tableId (renumber k n s) = tableId s \<and>
    tableIdExtension (renumber k n s) = tableIdExtension s \<and> version_of (renumber k n s) = version_of s \<and>
    unat (sectionNumber (renumber k n s)) = n \<and>
    (isLongSection (renumber k n s) \<longrightarrow> unat (lastSectionNumber (renumber k n s)) = k - 1) \<and>
    crc_section (renumber k n s) \<and> section_payload (renumber k n s) = section_payload s"
proof (cases "isLongSection s")
  case False
  then have "n = 0" "crc_section s"
    using n wf by (simp_all add: sectionNumber_def crc_section_def raw_crc_def isLong_wf wf_section_def)
  then show ?thesis using wf False
    by (simp add: renumber_def setSectionNumber_def sectionNumber_def)
next
  case True
  have nn: "unat (of_nat n :: byte) = n" "unat (of_nat (k - 1) :: byte) = k - 1"
    using k by (simp_all only: unat_of_nat) simp_all
  have "of_nat n \<le> lastSectionNumber s"
    using n nn(1) wf_numbers [OF wf] by (simp add: word_le_nat_alt)
  note a = setSectionNumber_frame [OF wf True this, of False, unfolded Let_def]
  have "of_nat n \<le> (of_nat (k - 1) :: byte)" using nn k by (simp add: word_le_nat_alt)
  with a have b: "sectionNumber (setSectionNumber s (of_nat n) False) \<le> of_nat (k - 1)" by simp
  note c = setLastSectionNumber_frame [OF _ _ b, of True, unfolded Let_def]
  show ?thesis using a c nn by (simp add: renumber_def)
qed

lemma packSections_facts:
  assumes inv: "table_inv t"
  shows "case packSections t of (ok, t') \<Rightarrow> table_inv t' \<and> ok = tb_valid t' \<and>
    (ok \<longleftrightarrow> present (tb_sections t) \<noteq> []) \<and>
    map section_payload (present (tb_sections t')) = map section_payload (present (tb_sections t)) \<and>
    tb_tid t' = tb_tid t \<and> tb_tid_ext t' = tb_tid_ext t \<and> tb_version t' = tb_version t \<and> tb_missing t' = 0 \<and>
    ((\<forall>s. Some s \<in> set (tb_sections t) \<longrightarrow> crc_section s) \<longrightarrow>
     (\<forall>s. Some s \<in> set (tb_sections t') \<longrightarrow> crc_section s))"
proof (cases "tb_missing t > 0")
  case False
  then have m: "tb_missing t = 0" "count_list (tb_sections t) None = 0" using inv by (auto simp: table_inv_def)
  moreover have "present (tb_sections t) \<noteq> [] \<longleftrightarrow> tb_sections t \<noteq> []"
    using length_present [of "tb_sections t"] m(2) by (metis add.right_neutral length_0_conv)
  ultimately show ?thesis using inv False by (auto simp: packSections_def table_inv_def)
next
  case True
  let ?ss = "present (tb_sections t)" and ?k = "length (present (tb_sections t))"
  let ?f = "\<lambda>n. renumber ?k n (?ss ! n)"
  have k: "?k \<le> 256" using length_present [of "tb_sections t"] inv by (simp add: table_inv_def)
  have e: "wf_section (?f n) \<and> tableId (?f n) = tb_tid t \<and> tableIdExtension (?f n) = tb_tid_ext t \<and>
      version_of (?f n) = tb_version t \<and> unat (sectionNumber (?f n)) = n \<and>
      (isLongSection (?f n) \<longrightarrow> unat (lastSectionNumber (?f n)) = ?k - 1) \<and> crc_section (?f n) \<and>
      section_payload (?f n) = section_payload (?ss ! n)" if n: "n < ?k" for n
  proof -
    have "n \<le> unat (sectionNumber (?ss ! n)) \<and> Some (?ss ! n) \<in> set (tb_sections t)"
      using present_numbers [of "tb_sections t" "\<lambda>s. unat (sectionNumber s)" 0 n] inv n
      by (auto simp: table_inv_def entry_ok_def)
    moreover from this obtain i where "entry_ok t i (?ss ! n)"
      using inv by (auto simp: table_inv_def in_set_conv_nth)
    ultimately show ?thesis using renumber_entry [of "?ss ! n" n ?k] n k by (auto simp: entry_ok_def)
  qed
  let ?t = "t\<lparr>tb_missing := 0, tb_valid := (?ss \<noteq> []), tb_sections := map (\<lambda>n. Some (?f n)) [0..<?k]\<rparr>"
  have p: "packSections t = (?ss \<noteq> [], ?t)" using True by (simp add: packSections_def Let_def)
  have "present (map Some (map ?f [0..<?k])) = map ?f [0..<?k]" by (rule present_map_Some)
  then have pr: "present (tb_sections ?t) = map ?f [0..<?k]" by (simp add: comp_def)
  have pay: "map section_payload (map ?f [0..<?k]) = map section_payload ?ss"
    by (rule nth_equalityI) (simp_all add: e)
  have "count_list (tb_sections ?t) None = 0" by (simp only: count_list_0_iff) auto
  then have "table_inv ?t"
    using k e by (auto simp: table_inv_def entry_ok_def)
  moreover have "\<forall>s. Some s \<in> set (tb_sections ?t) \<longrightarrow> crc_section s" using e by auto
  ultimately show ?thesis unfolding p by (simp only: prod.case pr pay) simp
qed

section \<open>Properties\<close>

lemma table_inv_clear [simp]: "table_inv BinaryTable_clear"
  by (simp add: table_inv_def BinaryTable_clear_def)



text \<open>
  C33. In the mode "grow and never replace", a section with a known number and a greater
  last section number is refused after the table has grown: the table keeps its valid flag
  although sections are now missing.
\<close>
theorem addSection_grow_keeps_valid:
  assumes "table_inv t" and "tb_valid t" and "wf_section s"
    and "tableId s = tb_tid t" and "tableIdExtension s = tb_tid_ext t" and "version_of s = tb_version t"
    and "unat (sectionNumber s) < length (tb_sections t)"
    and "length (tb_sections t) \<le> unat (lastSectionNumber s)"
  shows "case addSection t s False True of (ok, t', s') \<Rightarrow>
    \<not> ok \<and> tb_valid t' \<and> 0 < tb_missing t' \<and> None \<in> set (tb_sections t')"
proof -
  let ?n = "length (tb_sections t)" and ?i = "unat (sectionNumber s)" and ?t = "table_grow t (lastSectionNumber s)"
  have n: "0 < ?n" and full: "count_list (tb_sections t) None = 0" "tb_missing t = 0"
    using assms(1,2) by (auto simp: table_inv_def)
  have present_i: "tb_sections t ! ?i \<noteq> None"
    using full(1) assms(7) by (metis count_list_0_iff nth_mem)
  have "tb_sections ?t ! ?i \<noteq> None"
    using present_i assms(7,8) by (auto simp: table_grow_def nth_vector_resize simp del: upt_Suc)
  then have "addSection t s False True = (False, ?t, s)"
    using assms n by (auto simp: addSection_def Let_def wf_section_def table_store_def)
  moreover have "0 < tb_missing ?t" "tb_valid ?t"
    using full assms(2) assms(8) [THEN iffD2 [OF of_nat_le_iff [where 'a = int]]]
    by (simp_all add: table_grow_def)
  moreover have "None \<in> set (tb_sections ?t)"
    using assms(8) by (auto simp: table_grow_def vector_resize_def)
  ultimately show ?thesis by simp
qed

definition sample_table :: BinaryTable where
  "sample_table = snd (addSections BinaryTable_clear [sample_section 0 0] True False)"

lemma sample_table_facts:
  "table_inv sample_table \<and> tb_valid sample_table \<and> tb_tid sample_table = 0x42 \<and>
   tb_tid_ext sample_table = 0x1234 \<and> tb_version sample_table = 5 \<and>
   tb_sections sample_table = [Some (sample_section 0 0)]"
proof -
  note f = sample_section_facts [of 0 0]
  have "sample_table = \<lparr>tb_valid = True, tb_tid = 0x42, tb_tid_ext = 0x1234, tb_version = 5,
      tb_pid = sc_pid (sample_section 0 0), tb_missing = 0, tb_sections = [Some (sample_section 0 0)]\<rparr>"
    using f wf_sectionD(1) [of "sample_section 0 0"]
    by (simp add: sample_table_def addSection_def BinaryTable_clear_def table_store_def vector_resize_def Let_def)
  note eq = this
  show ?thesis unfolding eq using f by (simp add: table_inv_def entry_ok_def)
qed

theorem addSection_grow_keeps_valid_witness:
  "case addSection sample_table (sample_section 0 1) False True of (ok, t', s') \<Rightarrow>
    \<not> ok \<and> tb_valid t' \<and> 0 < tb_missing t' \<and> None \<in> set (tb_sections t')"
  by (rule addSection_grow_keeps_valid) (use sample_table_facts sample_section_facts [of 0 1] in simp_all)

text \<open>
  C23. A table is rebuilt from its sections whatever their order and however often each is
  received: adding a list that has every section of one table, with any duplicates, to an
  empty table gives a valid table with each section at its number.
\<close>
theorem addSections_any_order:
  assumes "same_table tid ext ver n (set ss)"
    and "\<And>i. i < n \<Longrightarrow> \<exists>s \<in> set ss. unat (sectionNumber s) = i"
    and "ss \<noteq> []"
  shows "let t = snd (addSections BinaryTable_clear ss replace grow) in
    tb_valid t \<and> tb_tid t = tid \<and> tb_tid_ext t = ext \<and> tb_version t = ver \<and>
    length (tb_sections t) = n \<and>
    (\<forall>i < n. \<exists>s \<in> set ss. unat (sectionNumber s) = i \<and> tb_sections t ! i = Some s)"
  by (rule addSections_any_order_facts [OF assms])

theorem addSections_any_order_witness:
  "tb_valid (snd (addSections BinaryTable_clear [sample_section 1 1, sample_section 0 1, sample_section 1 1] False True))"
proof -
  let ?ss = "[sample_section 1 1, sample_section 0 1, sample_section 1 1]"
  note f = sample_section_facts [of 1 1] sample_section_facts [of 0 1]
  have st: "same_table 0x42 0x1234 5 2 (set ?ss)"
    using f by (auto simp: same_table_def inj_on_def)
  have "\<exists>s \<in> set ?ss. unat (sectionNumber s) = i" if "i < 2" for i
    using that f by (auto simp: less_2_cases_iff)
  from addSections_any_order [OF st this, of False True]
  show ?thesis by (simp only: Let_def) blast
qed


definition sample_hole :: BinaryTable where
  "sample_hole = sample_table\<lparr>tb_valid := False, tb_missing := 1,
     tb_sections := [None, Some (sample_section 1 1)]\<rparr>"


end
