(* ===== verification/Ts_Map.thy ===== *)
theory Ts_Map
  imports Main
begin

text \<open>
  \<open>std::map\<close> as the components use it: keys in increasing order, so an association list
  sorted by key. \<open>omap_get\<close> is \<open>find\<close>, \<open>omap_put\<close> the assignment through
  \<open>operator[]\<close> and \<open>omap_del\<close> is \<open>erase\<close>; iteration is the list itself. The locale
  \<open>map_laws\<close> states what a client may rely on; the client lemmas on maps whose entries
  satisfy an invariant are proved in it once, and the interpretation at the end gives them
  for the sorted lists.
\<close>

fun omap_put :: "'k::linorder \<Rightarrow> 'v \<Rightarrow> ('k \<times> 'v) list \<Rightarrow> ('k \<times> 'v) list" where
  "omap_put k v [] = [(k, v)]"
| "omap_put k v ((k', v') # m) =
     (if k < k' then (k, v) # (k', v') # m
      else if k = k' then (k, v) # m
      else (k', v') # omap_put k v m)"

definition omap_del :: "'k \<Rightarrow> ('k \<times> 'v) list \<Rightarrow> ('k \<times> 'v) list" where
  "omap_del k m = filter (\<lambda>e. fst e \<noteq> k) m"

definition omap_get :: "('k \<times> 'v) list \<Rightarrow> 'k \<Rightarrow> 'v option" where
  "omap_get m k = map_of m k"

definition omap_inv :: "('k::linorder \<times> 'v) list \<Rightarrow> bool" where
  "omap_inv m = (sorted (map fst m) \<and> distinct (map fst m))"

section \<open>The interface\<close>

locale map_laws =
  fixes get :: "'m \<Rightarrow> 'k \<Rightarrow> 'v option"
    and put :: "'k \<Rightarrow> 'v \<Rightarrow> 'm \<Rightarrow> 'm"
    and del :: "'k \<Rightarrow> 'm \<Rightarrow> 'm"
    and empty :: 'm
    and ok :: "'m \<Rightarrow> bool"
  assumes get_empty: "get empty k = None"
    and ok_empty: "ok empty"
    and get_put: "ok m \<Longrightarrow> get (put k v m) = (get m)(k \<mapsto> v)"
    and get_del: "ok m \<Longrightarrow> get (del k m) = (get m)(k := None)"
    and ok_put: "ok m \<Longrightarrow> ok (put k v m)"
    and ok_del: "ok m \<Longrightarrow> ok (del k m)"
begin

definition entries :: "('k \<Rightarrow> 'v \<Rightarrow> bool) \<Rightarrow> 'm \<Rightarrow> bool" where
  "entries P m = (ok m \<and> (\<forall>k v. get m k = Some v \<longrightarrow> P k v))"

lemma entries_empty: "entries P empty"
  by (simp add: entries_def get_empty ok_empty)

lemma entries_put: "entries P m \<Longrightarrow> P k v \<Longrightarrow> entries P (put k v m)"
  by (simp add: entries_def get_put ok_put)

lemma entries_del: "entries P m \<Longrightarrow> entries P (del k m)"
  by (simp add: entries_def get_del ok_del)

lemma entries_get: "entries P m \<Longrightarrow> get m k = Some v \<Longrightarrow> P k v"
  by (simp add: entries_def)

lemma entries_ok: "entries P m \<Longrightarrow> ok m"
  by (simp add: entries_def)

lemma entries_default:
  "entries P m \<Longrightarrow> P k d \<Longrightarrow> P k (case get m k of None \<Rightarrow> d | Some v \<Rightarrow> v)"
  by (auto simp: entries_def split: option.splits)

end

section \<open>Sorted association lists implement it\<close>

lemma set_omap_put: "fst ` set (omap_put k v m) = insert k (fst ` set m)"
  by (induction m rule: omap_put.induct) auto

lemma omap_inv_Cons: "omap_inv ((k, v) # m) = ((\<forall>e \<in> set m. k < fst e) \<and> omap_inv m)"
  unfolding omap_inv_def by (auto simp: less_le)

lemma omap_inv_put: "omap_inv m \<Longrightarrow> omap_inv (omap_put k v m)"
proof (induction m)
  case (Cons e m)
  obtain k' v' where e: "e = (k', v')" by (cases e)
  have "\<forall>x \<in> set (omap_put k v m). k' < fst x" if "k' < k"
    using that Cons.prems set_omap_put [of k v m] unfolding e omap_inv_Cons
    by (metis (no_types, lifting) image_iff insert_iff)
  then show ?case
    using Cons unfolding e by (auto simp: omap_inv_Cons)
qed (simp add: omap_inv_def)

lemma omap_inv_del: "omap_inv m \<Longrightarrow> omap_inv (omap_del k m)"
  by (induction m) (auto simp: omap_inv_Cons omap_del_def)

lemma omap_get_put: "omap_get (omap_put k v m) = (omap_get m)(k \<mapsto> v)"
  by (induction m rule: omap_put.induct) (auto simp: omap_get_def)

lemma omap_get_del: "omap_get (omap_del k m) = (omap_get m)(k := None)"
  by (induction m) (auto simp: omap_get_def omap_del_def)

interpretation omap: map_laws omap_get omap_put omap_del "[]" omap_inv
  by unfold_locales (simp_all add: omap_get_put omap_get_del omap_inv_put omap_inv_del,
      simp_all add: omap_get_def omap_inv_def)

lemma omap_entries_set: "omap.entries P m \<Longrightarrow> (k, v) \<in> set m \<Longrightarrow> P k v"
  by (auto simp: omap.entries_def omap_inv_def omap_get_def)

lemma omap_entriesI: "omap_inv m \<Longrightarrow> (\<And>k v. (k, v) \<in> set m \<Longrightarrow> P k v) \<Longrightarrow> omap.entries P m"
  by (auto simp: omap.entries_def omap_get_def dest: map_of_SomeD)

end
