(* ===== verification/Ts_Demux.thy ===== *)
theory Ts_Demux
  imports Ts_Table Ts_Map
begin

text \<open>
  The section demultiplexer: \<open>tsSectionDemux.cpp\<close> over \<open>tsAbstractDemux.cpp\<close>. The state
  is one record with the members of both classes; \<open>_table_handler\<close> and
  \<open>_section_handler\<close> are present or null. The application's handlers are the parameter
  \<open>h\<close>: what it does when called is a list of calls back into the demux, a function of all
  the events it has received so far (the log \<open>dm_events\<close>, latest last), so any
  deterministic handler that keeps its own state is covered. A handler does not feed
  packets and does not throw. The packet buffer pointer \<open>ts_start\<close> is the rest of the
  buffer, and \<open>pusi_section\<close> is its distance from \<open>ts_start\<close> (0 when it is null or passed,
  which the code treats alike).
\<close>

section \<open>State\<close>

record Status =
  st_invalid_ts :: u64
  st_discontinuities :: u64
  st_scrambled :: u64
  st_inv_sect_length :: u64
  st_inv_sect_index :: u64
  st_wrong_crc :: u64
  st_is_next :: u64

definition Status_reset :: Status where
  "Status_reset = \<lparr>st_invalid_ts = 0, st_discontinuities = 0, st_scrambled = 0, st_inv_sect_length = 0,
     st_inv_sect_index = 0, st_wrong_crc = 0, st_is_next = 0\<rparr>"

definition Status_hasErrors :: "Status \<Rightarrow> bool" where
  "Status_hasErrors s =
     (st_invalid_ts s \<noteq> 0 \<or> st_discontinuities s \<noteq> 0 \<or> st_scrambled s \<noteq> 0 \<or> st_inv_sect_length s \<noteq> 0 \<or>
      st_inv_sect_index s \<noteq> 0 \<or> st_wrong_crc s \<noteq> 0 \<or> st_is_next s \<noteq> 0)"

record ETIDContext =
  et_notified :: bool
  et_version :: byte
  et_expected :: nat
  et_received :: nat
  et_sects :: "Section option list"

definition ETIDContext_new :: ETIDContext where
  "ETIDContext_new = \<lparr>et_notified = False, et_version = 0, et_expected = 0, et_received = 0, et_sects = []\<rparr>"

record PIDContext =
  pc_continuity :: byte
  pc_sync :: bool
  pc_ts :: "byte list"
  pc_tids :: "(ETID \<times> ETIDContext) list"
  pc_pusi_pkt_index :: PacketCounter

definition PIDContext_new :: PIDContext where
  "PIDContext_new = \<lparr>pc_continuity = 0, pc_sync = False, pc_ts = [], pc_tids = [], pc_pusi_pkt_index = 0\<rparr>"

datatype DemuxEvent = EvSection Section | EvTable BinaryTable

record SectionDemux =
  dm_pid_filter :: "u16 set"
  dm_packet_count :: PacketCounter
  dm_in_handler :: bool
  dm_pid_in_handler :: u16
  dm_reset_pending :: bool
  dm_pid_reset_pending :: bool
  dm_table_handler :: bool
  dm_section_handler :: bool
  dm_pids :: "(u16 \<times> PIDContext) list"
  dm_status :: Status
  dm_get_current :: bool
  dm_get_next :: bool
  dm_events :: "DemuxEvent list"

definition SectionDemux_new :: "bool \<Rightarrow> bool \<Rightarrow> u16 set \<Rightarrow> SectionDemux" where
  "SectionDemux_new table_handler section_handler pid_filter =
     \<lparr>dm_pid_filter = pid_filter, dm_packet_count = 0, dm_in_handler = False, dm_pid_in_handler = PID_NULL,
      dm_reset_pending = False, dm_pid_reset_pending = False, dm_table_handler = table_handler,
      dm_section_handler = section_handler, dm_pids = [], dm_status = Status_reset,
      dm_get_current = True, dm_get_next = False, dm_events = []\<rparr>"

section \<open>Resets and the PID filter\<close>

definition immediateReset :: "SectionDemux \<Rightarrow> SectionDemux" where
  "immediateReset dm = dm\<lparr>dm_pids := []\<rparr>"

definition immediateResetPID :: "u16 \<Rightarrow> SectionDemux \<Rightarrow> SectionDemux" where
  "immediateResetPID pid dm = dm\<lparr>dm_pids := omap_del pid (dm_pids dm)\<rparr>"

definition reset_demux :: "SectionDemux \<Rightarrow> SectionDemux" where
  "reset_demux dm = (if dm_in_handler dm then dm\<lparr>dm_reset_pending := True\<rparr> else immediateReset dm)"

definition resetPID :: "u16 \<Rightarrow> SectionDemux \<Rightarrow> SectionDemux" where
  "resetPID pid dm =
     (if dm_in_handler dm \<and> pid = dm_pid_in_handler dm then dm\<lparr>dm_pid_reset_pending := True\<rparr>
      else immediateResetPID pid dm)"

definition addPID :: "u16 \<Rightarrow> SectionDemux \<Rightarrow> SectionDemux" where
  "addPID pid dm = dm\<lparr>dm_pid_filter := insert pid (dm_pid_filter dm)\<rparr>"

definition addPIDs :: "u16 set \<Rightarrow> SectionDemux \<Rightarrow> SectionDemux" where
  "addPIDs pids dm = dm\<lparr>dm_pid_filter := dm_pid_filter dm \<union> pids\<rparr>"

definition removePID :: "u16 \<Rightarrow> SectionDemux \<Rightarrow> SectionDemux" where
  "removePID pid dm =
     (if pid \<in> dm_pid_filter dm then resetPID pid (dm\<lparr>dm_pid_filter := dm_pid_filter dm - {pid}\<rparr>) else dm)"

definition setPIDFilter :: "u16 set \<Rightarrow> SectionDemux \<Rightarrow> SectionDemux" where
  "setPIDFilter pids dm =
     (let removed = dm_pid_filter dm - pids
      in fold (\<lambda>pid d. if pid \<in> removed then resetPID pid d else d) (map of_nat [0..<0x2000])
           (dm\<lparr>dm_pid_filter := pids\<rparr>))"

definition setCurrentNext :: "bool \<Rightarrow> bool \<Rightarrow> SectionDemux \<Rightarrow> SectionDemux" where
  "setCurrentNext cur nxt dm = dm\<lparr>dm_get_current := cur, dm_get_next := nxt\<rparr>"

definition setTableHandler :: "bool \<Rightarrow> SectionDemux \<Rightarrow> SectionDemux" where
  "setTableHandler b dm = dm\<lparr>dm_table_handler := b\<rparr>"

definition setSectionHandler :: "bool \<Rightarrow> SectionDemux \<Rightarrow> SectionDemux" where
  "setSectionHandler b dm = dm\<lparr>dm_section_handler := b\<rparr>"

section \<open>Calling a handler\<close>

datatype DemuxCall = CallReset | CallResetPID u16 | CallAddPID u16 | CallAddPIDs "u16 set" | CallRemovePID u16
  | CallSetPIDFilter "u16 set" | CallSetCurrentNext bool bool | CallSetTableHandler bool | CallSetSectionHandler bool

fun demux_call :: "DemuxCall \<Rightarrow> SectionDemux \<Rightarrow> SectionDemux" where
  "demux_call CallReset = reset_demux"
| "demux_call (CallResetPID pid) = resetPID pid"
| "demux_call (CallAddPID pid) = addPID pid"
| "demux_call (CallAddPIDs pids) = addPIDs pids"
| "demux_call (CallRemovePID pid) = removePID pid"
| "demux_call (CallSetPIDFilter pids) = setPIDFilter pids"
| "demux_call (CallSetCurrentNext c n) = setCurrentNext c n"
| "demux_call (CallSetTableHandler b) = setTableHandler b"
| "demux_call (CallSetSectionHandler b) = setSectionHandler b"

definition beforeCallingHandler :: "u16 \<Rightarrow> SectionDemux \<Rightarrow> SectionDemux" where
  "beforeCallingHandler pid dm = dm\<lparr>dm_in_handler := True, dm_pid_in_handler := pid,
     dm_reset_pending := False, dm_pid_reset_pending := False\<rparr>"

definition afterCallingHandler :: "bool \<Rightarrow> SectionDemux \<Rightarrow> bool \<times> SectionDemux" where
  "afterCallingHandler executeDelayedOperations dm =
     (let d0 = dm\<lparr>dm_in_handler := False\<rparr>;
          d1 = (if executeDelayedOperations \<and> dm_pid_reset_pending d0
                then immediateResetPID (dm_pid_in_handler d0) d0 else d0);
          d2 = (if executeDelayedOperations \<and> dm_reset_pending d0 then immediateReset d1 else d1);
          result = (executeDelayedOperations \<and> (dm_pid_reset_pending d0 \<or> dm_reset_pending d0))
      in (result, d2\<lparr>dm_pid_in_handler := PID_NULL, dm_pid_reset_pending := False, dm_reset_pending := False\<rparr>))"

type_synonym handler = "DemuxEvent list \<Rightarrow> DemuxCall list"

definition call_handler :: "handler \<Rightarrow> DemuxEvent \<Rightarrow> SectionDemux \<Rightarrow> SectionDemux" where
  "call_handler h e dm =
     (let log = dm_events dm @ [e] in fold demux_call (h log) (dm\<lparr>dm_events := log\<rparr>))"

section \<open>Tables under construction\<close>

definition ETIDContext_init :: "byte \<Rightarrow> byte \<Rightarrow> ETIDContext" where
  "ETIDContext_init new_version last_section =
     \<lparr>et_notified = False, et_version = new_version, et_expected = unat last_section + 1, et_received = 0,
      et_sects = replicate (unat last_section + 1) None\<rparr>"

text \<open>The sections of the table are the sections of the context, shared: what packing does
  to the former is seen in the latter.\<close>

fun share_back :: "Section option list \<Rightarrow> Section list \<Rightarrow> Section option list" where
  "share_back [] ys = []"
| "share_back (None # xs) ys = None # share_back xs ys"
| "share_back (Some x # xs) [] = Some x # share_back xs []"
| "share_back (Some x # xs) (y # ys) = Some y # share_back xs ys"

definition notify_table :: "Section option list \<Rightarrow> bool \<Rightarrow> BinaryTable" where
  "notify_table sects force =
     (let table = snd (addSections BinaryTable_clear (present sects) True True)
      in if force then snd (packSections table) else table)"

definition ETIDContext_notify ::
  "handler \<Rightarrow> bool \<Rightarrow> SectionDemux \<times> ETIDContext \<Rightarrow> SectionDemux \<times> ETIDContext" where
  "ETIDContext_notify h force = (\<lambda>(dm, tc).
     if \<not> et_notified tc \<and> (et_received tc = et_expected tc \<or> force) \<and> dm_table_handler dm then
       let table = notify_table (et_sects tc) force;
           tc1 = tc\<lparr>et_sects := share_back (et_sects tc) (present (tb_sections table))\<rparr>
       in if tb_valid table then (call_handler h (EvTable table) dm, tc1\<lparr>et_notified := True\<rparr>)
          else (dm, tc1)
     else (dm, tc))"

section \<open>Processing a packet\<close>

definition syncLost :: "PIDContext \<Rightarrow> PIDContext" where
  "syncLost pc = pc\<lparr>pc_sync := False, pc_ts := []\<rparr>"

text \<open>What one section of the buffer gives: its length as read, the header fields and
  whether it is to be analysed.\<close>

record SectionHeader =
  sh_etid :: ETID
  sh_version :: byte
  sh_number :: byte
  sh_last :: byte

definition demux_header :: "byte list \<Rightarrow> SectionHeader" where
  "demux_header ts =
     (if ts ! 1 AND 0x80 \<noteq> 0
      then \<lparr>sh_etid = ETID_long (ts ! 0) (GetUInt16 ts 3), sh_version = drop_bit 1 (ts ! 5) AND 0x1F,
            sh_number = ts ! 6, sh_last = ts ! 7\<rparr>
      else \<lparr>sh_etid = ETID_short (ts ! 0), sh_version = 0, sh_number = 0, sh_last = 0\<rparr>)"

abbreviation bump_inv_index :: "SectionDemux \<Rightarrow> SectionDemux" where
  "bump_inv_index dm \<equiv> dm\<lparr>dm_status := (dm_status dm)\<lparr>st_inv_sect_index := st_inv_sect_index (dm_status dm) + 1\<rparr>\<rparr>"
abbreviation bump_inv_length :: "SectionDemux \<Rightarrow> SectionDemux" where
  "bump_inv_length dm \<equiv> dm\<lparr>dm_status := (dm_status dm)\<lparr>st_inv_sect_length := st_inv_sect_length (dm_status dm) + 1\<rparr>\<rparr>"
abbreviation bump_wrong_crc :: "SectionDemux \<Rightarrow> SectionDemux" where
  "bump_wrong_crc dm \<equiv> dm\<lparr>dm_status := (dm_status dm)\<lparr>st_wrong_crc := st_wrong_crc (dm_status dm) + 1\<rparr>\<rparr>"
abbreviation bump_is_next :: "SectionDemux \<Rightarrow> SectionDemux" where
  "bump_is_next dm \<equiv> dm\<lparr>dm_status := (dm_status dm)\<lparr>st_is_next := st_is_next (dm_status dm) + 1\<rparr>\<rparr>"

text \<open>The checks on the section header (lines 414 to 440): whether the section is analysed.\<close>

definition demux_check :: "byte list \<Rightarrow> bool \<Rightarrow> SectionDemux \<Rightarrow> bool \<times> SectionDemux" where
  "demux_check ts section_ok dm =
     (let long_header = (ts ! 1 AND 0x80 \<noteq> 0);
          is_next = (section_ok \<and> long_header \<and> ts ! 5 AND 0x01 = 0);
          bad_index = (section_ok \<and> long_header \<and> ts ! 6 > ts ! 7);
          d1 = (if bad_index then bump_inv_index dm else dm);
          ok1 = (section_ok \<and> \<not> bad_index);
          d2 = (if is_next \<and> \<not> dm_get_next dm then bump_is_next d1 else d1);
          ok2 = (ok1 \<and> \<not> (is_next \<and> \<not> dm_get_next dm));
          ok3 = (ok2 \<and> \<not> (\<not> is_next \<and> \<not> dm_get_current dm))
      in (ok3, d2))"

text \<open>The context of the table, new or reset when the section starts a new version
  (lines 447 to 460).\<close>

definition demux_context :: "byte list \<Rightarrow> PIDContext \<Rightarrow> ETIDContext" where
  "demux_context content pc =
     (let hd = demux_header content;
          tc = (case omap_get (pc_tids pc) (sh_etid hd) of None \<Rightarrow> ETIDContext_new | Some tc \<Rightarrow> tc)
      in if content ! 1 AND 0x80 = 0 \<or> et_expected tc = 0 \<or> et_version tc \<noteq> sh_version hd
         then ETIDContext_init (sh_version hd) (sh_last hd) else tc)"

text \<open>The calls to the handlers (lines 485 to 513): whether a reset was asked for, and the
  two states after.\<close>

definition demux_deliver ::
  "handler \<Rightarrow> u16 \<Rightarrow> nat \<Rightarrow> bool \<Rightarrow> Section \<Rightarrow> SectionDemux \<Rightarrow> ETIDContext \<Rightarrow> bool \<times> SectionDemux \<times> ETIDContext" where
  "demux_deliver h pid num ok sect dm tc =
     (let d3 = beforeCallingHandler pid dm;
          d4 = (if ok \<and> dm_section_handler d3 then call_handler h (EvSection sect) d3 else d3);
          (d5, tc2) = (if ok \<and> et_sects tc ! num = None
             then ETIDContext_notify h False
                    (d4, tc\<lparr>et_sects := (et_sects tc)[num := Some sect], et_received := et_received tc + 1\<rparr>)
             else (d4, tc));
          (was_reset, d6) = afterCallingHandler True d5
      in (was_reset, d6, tc2))"

text \<open>The analysis of a complete section (lines 442 to 513). The context is
  \<^const>\<open>None\<close> when a handler had this PID or the demux reset.\<close>

definition demux_analyze ::
  "handler \<Rightarrow> u16 \<Rightarrow> PacketCounter \<Rightarrow> byte list \<Rightarrow> SectionDemux \<Rightarrow> PIDContext \<Rightarrow> SectionDemux \<times> PIDContext option" where
  "demux_analyze h pid pusi_pkt_index content dm pc =
     (let hd = demux_header content;
          tc = demux_context content pc;
          num = unat (sh_number hd);
          bad = (unat (sh_last hd) \<noteq> et_expected tc - 1);
          d1 = (if bad then bump_inv_index dm else dm);
          create = (\<not> bad \<and> (dm_section_handler d1 \<or> et_sects tc ! num = None));
          sect = (Section_initialize content pid CRC_CHECK)
                   \<lparr>sc_first := pusi_pkt_index, sc_last := dm_packet_count dm\<rparr>;
          d2 = (if create \<and> \<not> sc_valid sect then bump_wrong_crc d1 else d1);
          ok = (\<not> bad \<and> (create \<longrightarrow> sc_valid sect));
          (was_reset, d6, tc2) = demux_deliver h pid num ok sect d2 tc
      in (d6, if was_reset then None
              else Some (pc\<lparr>pc_tids := omap_put (sh_etid hd) tc2 (pc_tids pc)\<rparr>)))"

text \<open>The length of the section at the start of the buffer, with its header; the lengths that
  lose the synchronization; the length actually consumed, less than that of the section when
  the section is truncated by the start of a new one in this packet.\<close>

definition demux_length :: "byte list \<Rightarrow> nat" where
  "demux_length ts = unat (GetUInt16 ts 1 AND 0x0FFF) + 3"

definition demux_bad_length :: "byte list \<Rightarrow> bool" where
  "demux_bad_length ts =
     (demux_length ts > 4096 \<or> demux_length ts < 3 \<or> (ts ! 1 AND 0x80 \<noteq> 0 \<and> demux_length ts < 12))"

definition demux_truncated :: "byte list \<Rightarrow> nat \<Rightarrow> bool" where
  "demux_truncated ts pusi = (0 < pusi \<and> demux_length ts > pusi)"

definition demux_consumed :: "byte list \<Rightarrow> nat \<Rightarrow> nat" where
  "demux_consumed ts pusi = (if demux_truncated ts pusi then pusi else demux_length ts)"

definition skip_stuffing :: "byte list \<Rightarrow> byte list" where
  "skip_stuffing ts = (if ts \<noteq> [] \<and> ts ! 0 = 0xFF then [] else ts)"

definition demux_one ::
  "handler \<Rightarrow> u16 \<Rightarrow> byte list \<Rightarrow> nat \<Rightarrow> PacketCounter \<Rightarrow> SectionDemux \<Rightarrow> PIDContext \<Rightarrow> SectionDemux \<times> PIDContext option" where
  "demux_one h pid ts pusi pusi_pkt_index dm pc =
     (let (ok, d1) = demux_check ts (\<not> demux_truncated ts pusi) dm
      in if ok then demux_analyze h pid pusi_pkt_index (take (demux_length ts) ts) d1 pc else (d1, Some pc))"

text \<open>The loop over the sections of the buffer: \<open>ts\<close> is the buffer from \<open>ts_start\<close> on.\<close>

function (sequential) demux_loop ::
  "handler \<Rightarrow> u16 \<Rightarrow> byte list \<Rightarrow> nat \<Rightarrow> PacketCounter \<Rightarrow> SectionDemux \<Rightarrow> PIDContext \<Rightarrow> SectionDemux \<times> PIDContext option" where
  "demux_loop h pid ts pusi pusi_pkt_index dm pc =
     (if length ts < 3 then (dm, Some (pc\<lparr>pc_ts := ts\<rparr>))
      else if demux_bad_length ts then (bump_inv_length dm, Some (syncLost pc))
      else if length ts < demux_length ts then (dm, Some (pc\<lparr>pc_ts := ts\<rparr>))
      else case demux_one h pid ts pusi pusi_pkt_index dm pc of
        (d2, None) \<Rightarrow> (d2, None)
      | (d2, Some pc2) \<Rightarrow>
          demux_loop h pid (skip_stuffing (drop (demux_consumed ts pusi) ts)) (pusi - demux_consumed ts pusi)
            (dm_packet_count d2) d2 pc2)"
  by pat_completeness auto
termination
  by (relation "measure (\<lambda>(h, pid, ts, _). length ts)")
    (auto simp: demux_consumed_def demux_truncated_def skip_stuffing_def demux_length_def)

text \<open>The part of \<open>processPacket\<close> up to the loop: the packet is dropped, loses the
  synchronization, or its payload is appended to the buffer.\<close>

definition demux_payload :: "handler \<Rightarrow> u16 \<Rightarrow> TSPacket \<Rightarrow> SectionDemux \<Rightarrow> PIDContext \<Rightarrow> SectionDemux \<times> PIDContext option" where
  "demux_payload h pid pkt dm pc =
     (let header_size = getHeaderSize pkt
      in if \<not> hasPayload pkt \<or> header_size \<ge> PKT_SIZE then (dm, Some pc)
         else
           let pusi = getPUSI pkt;
               pusi_pkt_index = pc_pusi_pkt_index pc;
               pc1 = (if pusi then pc\<lparr>pc_pusi_pkt_index := dm_packet_count dm\<rparr> else pc);
               payload = drop (if pusi then header_size + 1 else header_size) pkt;
               pointer_field = unat (pkt ! header_size)
           in if pusi \<and> header_size + 3 \<le> PKT_SIZE \<and> pkt ! header_size = 0x00 \<and>
                   pkt ! (header_size + 1) = 0x00 \<and> pkt ! (header_size + 2) = 0x01
              then (dm, Some (syncLost pc1))
              else if pusi \<and> pointer_field \<ge> length payload then (dm, Some (syncLost pc1))
              else if payload = [] then (dm, Some pc1)
              else if \<not> pc_sync pc1 \<and> \<not> pusi then (dm, Some pc1)
              else
                let idx = (if pusi \<and> pointer_field = 0 then dm_packet_count dm else pusi_pkt_index);
                    payload1 = (if pc_sync pc1 then payload else drop pointer_field payload);
                    pointer1 = (if pc_sync pc1 then pointer_field else 0);
                    ts = pc_ts pc1 @ payload1;
                    pusi_section = (if pusi then length (pc_ts pc1) + pointer1 else 0)
                in demux_loop h pid ts pusi_section idx dm (pc1\<lparr>pc_sync := True, pc_ts := ts\<rparr>))"

definition write_pid :: "u16 \<Rightarrow> SectionDemux \<times> PIDContext option \<Rightarrow> SectionDemux" where
  "write_pid pid = (\<lambda>(dm, pc). case pc of None \<Rightarrow> dm | Some c \<Rightarrow> dm\<lparr>dm_pids := omap_put pid c (dm_pids dm)\<rparr>)"

text \<open>A packet with its context (lines 258 to 542).\<close>

definition demux_packet :: "handler \<Rightarrow> u16 \<Rightarrow> TSPacket \<Rightarrow> SectionDemux \<Rightarrow> PIDContext \<Rightarrow> SectionDemux \<times> PIDContext option" where
  "demux_packet h pid pkt dm pc =
     (if getScrambling pkt \<noteq> 0
      then (dm\<lparr>dm_status := (dm_status dm)\<lparr>st_scrambled := st_scrambled (dm_status dm) + 1\<rparr>\<rparr>, Some (syncLost pc))
      else if pc_sync pc \<and> getCC pkt = pc_continuity pc then (dm, Some pc)
      else if pc_sync pc \<and> unat (getCC pkt) \<noteq> (unat (pc_continuity pc) + 1) mod 16
      then demux_payload h pid pkt
             (dm\<lparr>dm_status := (dm_status dm)\<lparr>st_discontinuities := st_discontinuities (dm_status dm) + 1\<rparr>\<rparr>)
             ((syncLost pc)\<lparr>pc_continuity := getCC pkt\<rparr>)
      else demux_payload h pid pkt dm (pc\<lparr>pc_continuity := getCC pkt\<rparr>))"

definition pid_context :: "SectionDemux \<Rightarrow> u16 \<Rightarrow> PIDContext" where
  "pid_context dm pid = (case omap_get (dm_pids dm) pid of None \<Rightarrow> PIDContext_new | Some c \<Rightarrow> c)"

definition processPacket :: "handler \<Rightarrow> TSPacket \<Rightarrow> SectionDemux \<Rightarrow> SectionDemux" where
  "processPacket h pkt dm =
     (if \<not> hasValidSync pkt
      then dm\<lparr>dm_status := (dm_status dm)\<lparr>st_invalid_ts := st_invalid_ts (dm_status dm) + 1\<rparr>\<rparr>
      else write_pid (getPID pkt) (demux_packet h (getPID pkt) pkt dm (pid_context dm (getPID pkt))))"

definition demux_feedPacket :: "handler \<Rightarrow> TSPacket \<Rightarrow> SectionDemux \<Rightarrow> SectionDemux" where
  "demux_feedPacket h pkt dm =
     (let d1 = (if getPID pkt \<in> dm_pid_filter dm then processPacket h pkt dm else dm)
      in d1\<lparr>dm_packet_count := dm_packet_count d1 + 1\<rparr>)"

section \<open>Forced notification of incomplete tables\<close>

fun notify_all :: "handler \<Rightarrow> SectionDemux \<Rightarrow> (ETID \<times> ETIDContext) list \<Rightarrow> SectionDemux \<times> (ETID \<times> ETIDContext) list" where
  "notify_all h dm [] = (dm, [])"
| "notify_all h dm ((etid, tc) # tids) =
     (let (d1, tc1) = ETIDContext_notify h True (dm, tc);
          (d2, tids2) = notify_all h d1 tids
      in (d2, (etid, tc1) # tids2))"

text \<open>The loop over the PID's advances an iterator of \<open>_pids\<close>. Erasing the entry it is at
  (a handler had this PID or the demux reset) leaves it dangling and the increment is
  undefined: the result is \<^const>\<open>None\<close>. A handler may erase entries of other PID's and
  never adds one, so the loop runs over the keys present at its start.\<close>

fun flush_pids :: "handler \<Rightarrow> u16 list \<Rightarrow> SectionDemux \<Rightarrow> SectionDemux option" where
  "flush_pids h [] dm = Some dm"
| "flush_pids h (pid # pids) dm =
     (case omap_get (dm_pids dm) pid of
        None \<Rightarrow> flush_pids h pids dm
      | Some pc \<Rightarrow>
          (let (d1, tids) = notify_all h (beforeCallingHandler pid dm) (pc_tids pc);
               d2 = d1\<lparr>dm_pids := omap_put pid (pc\<lparr>pc_tids := tids\<rparr>) (dm_pids d1)\<rparr>;
               (was_reset, d3) = afterCallingHandler True d2
           in if was_reset then None else flush_pids h pids d3))"

definition packAndFlushSections :: "handler \<Rightarrow> SectionDemux \<Rightarrow> SectionDemux option" where
  "packAndFlushSections h dm = flush_pids h (map fst (dm_pids dm)) dm"

section \<open>Sections read from a buffer\<close>

lemma section_index_update [simp]:
  "tableId (sc_first_update f s) = tableId s" "tableId (sc_last_update f s) = tableId s"
  "isLongSection (sc_first_update f s) = isLongSection s" "isLongSection (sc_last_update f s) = isLongSection s"
  "tableIdExtension (sc_first_update f s) = tableIdExtension s" "tableIdExtension (sc_last_update f s) = tableIdExtension s"
  "version_of (sc_first_update f s) = version_of s" "version_of (sc_last_update f s) = version_of s"
  "sectionNumber (sc_first_update f s) = sectionNumber s" "sectionNumber (sc_last_update f s) = sectionNumber s"
  "lastSectionNumber (sc_first_update f s) = lastSectionNumber s" "lastSectionNumber (sc_last_update f s) = lastSectionNumber s"
  "wf_section (sc_first_update f s) = wf_section s" "wf_section (sc_last_update f s) = wf_section s"
  "crc_section (sc_first_update f s) = crc_section s" "crc_section (sc_last_update f s) = crc_section s"
  "section_payload (sc_first_update f s) = section_payload s" "section_payload (sc_last_update f s) = section_payload s"
  by (simp_all add: tableId_def isLongSection_def tableIdExtension_def version_of_def sectionNumber_def
      lastSectionNumber_def wf_section_def crc_section_def section_payload_def payloadSize_def headerSize_def)

lemma ETID_fields [simp]:
  "ETID_tid (ETID_long tid ext) = tid" "ETID_tidExt (ETID_long tid ext) = ext"
  "ETID_tid (ETID_short tid) = tid" "ETID_tidExt (ETID_short tid) = 0"
proof -
  have m: "(0xFF :: u32) = mask 8" "(0xFFFF :: u32) = mask 16" "(0x01000000 :: u32) = push_bit 24 (mask 1)"
    by (simp_all add: mask_eq_exp_minus_1)
  show "ETID_tid (ETID_long tid ext) = tid"
    unfolding ETID_tid_def ETID_long_def m by (rule bit_word_eqI, unfold ts_bits) (auto dest: bit_imp_le_length)
  show "ETID_tidExt (ETID_long tid ext) = ext"
    unfolding ETID_tidExt_def ETID_long_def m by (rule bit_word_eqI, unfold ts_bits) (auto dest: bit_imp_le_length)
  show "ETID_tid (ETID_short tid) = tid"
    unfolding ETID_tid_def ETID_short_def m by (rule bit_word_eqI, unfold ts_bits) (auto dest: bit_imp_le_length)
  show "ETID_tidExt (ETID_short tid) = 0"
    unfolding ETID_tidExt_def ETID_short_def m by (rule bit_word_eqI, unfold ts_bits) (auto dest: bit_imp_le_length)
qed

lemma header_of_section:
  assumes "sc_valid (Section_initialize d pid CRC_CHECK)"
  shows "wf_section (Section_initialize d pid CRC_CHECK)" "crc_section (Section_initialize d pid CRC_CHECK)"
    "sc_data (Section_initialize d pid CRC_CHECK) = d"
    "tableId (Section_initialize d pid CRC_CHECK) = ETID_tid (sh_etid (demux_header d))"
    "tableIdExtension (Section_initialize d pid CRC_CHECK) = ETID_tidExt (sh_etid (demux_header d))"
    "version_of (Section_initialize d pid CRC_CHECK) = sh_version (demux_header d)"
    "sectionNumber (Section_initialize d pid CRC_CHECK) = sh_number (demux_header d)"
    "lastSectionNumber (Section_initialize d pid CRC_CHECK) = sh_last (demux_header d)"
proof -
  have ok: "raw_ok d" "raw_crc d" using assms by (simp_all add: Section_initialize_valid)
  then have s: "Section_initialize d pid CRC_CHECK = \<lparr>sc_valid = True, sc_pid = pid, sc_first = 0, sc_last = 0, sc_data = d\<rparr>"
    by (simp add: Section_initialize_data)
  show "wf_section (Section_initialize d pid CRC_CHECK)" "crc_section (Section_initialize d pid CRC_CHECK)"
    "sc_data (Section_initialize d pid CRC_CHECK) = d"
    using ok unfolding s by (simp_all add: wf_section_def crc_section_def)
  show "tableId (Section_initialize d pid CRC_CHECK) = ETID_tid (sh_etid (demux_header d))"
    "tableIdExtension (Section_initialize d pid CRC_CHECK) = ETID_tidExt (sh_etid (demux_header d))"
    "version_of (Section_initialize d pid CRC_CHECK) = sh_version (demux_header d)"
    "sectionNumber (Section_initialize d pid CRC_CHECK) = sh_number (demux_header d)"
    "lastSectionNumber (Section_initialize d pid CRC_CHECK) = sh_last (demux_header d)"
    unfolding s by (simp_all add: tableId_def tableIdExtension_def version_of_def sectionNumber_def
        lastSectionNumber_def isLongSection_def demux_header_def)
qed

section \<open>Invariant\<close>

definition sect_in_context :: "ETID \<Rightarrow> ETIDContext \<Rightarrow> nat \<Rightarrow> Section \<Rightarrow> bool" where
  "sect_in_context etid tc i s = (wf_section s \<and> crc_section s \<and> tableId s = ETID_tid etid \<and>
     tableIdExtension s = ETID_tidExt etid \<and> version_of s = et_version tc \<and>
     unat (sectionNumber s) = i \<and> unat (lastSectionNumber s) + 1 = et_expected tc)"

definition etid_inv :: "ETID \<Rightarrow> ETIDContext \<Rightarrow> bool" where
  "etid_inv etid tc = (et_expected tc = length (et_sects tc) \<and>
     et_received tc + count_list (et_sects tc) None = length (et_sects tc) \<and>
     (\<not> et_notified tc \<longrightarrow>
       (\<forall>i < length (et_sects tc). \<forall>s. et_sects tc ! i = Some s \<longrightarrow> sect_in_context etid tc i s)))"

definition ts_pending :: "byte list \<Rightarrow> bool" where
  "ts_pending ts = (length ts < 3 \<or> length ts < unat (GetUInt16 ts 1 AND 0x0FFF) + 3)"

definition pid_inv :: "u16 \<Rightarrow> PIDContext \<Rightarrow> bool" where
  "pid_inv pid pc = (omap.entries etid_inv (pc_tids pc) \<and> (\<not> pc_sync pc \<longrightarrow> pc_ts pc = []) \<and>
     ts_pending (pc_ts pc))"

definition event_ok :: "DemuxEvent \<Rightarrow> bool" where
  "event_ok e = (case e of
     EvSection s \<Rightarrow> wf_section s \<and> crc_section s
   | EvTable t \<Rightarrow> table_inv t \<and> tb_valid t \<and> (\<forall>s. Some s \<in> set (tb_sections t) \<longrightarrow> crc_section s))"

definition demux_core :: "SectionDemux \<Rightarrow> bool" where
  "demux_core dm = (omap.entries pid_inv (dm_pids dm) \<and> (\<forall>e \<in> set (dm_events dm). event_ok e))"

definition demux_idle :: "SectionDemux \<Rightarrow> bool" where
  "demux_idle dm = (\<not> dm_in_handler dm \<and> dm_pid_in_handler dm = PID_NULL \<and> \<not> dm_reset_pending dm \<and> \<not> dm_pid_reset_pending dm)"

lemma ts_pending_bound: "ts_pending ts \<Longrightarrow> length ts < 4098"
proof -
  have "unat (GetUInt16 ts 1 AND 0x0FFF) < 4096"
    unfolding u16_masks unat_and_mask by simp
  then show "ts_pending ts \<Longrightarrow> length ts < 4098" by (auto simp: ts_pending_def)
qed

subsection \<open>Resets and handlers\<close>

lemma demux_core_simps [simp]:
  "demux_core (dm\<lparr>dm_pid_filter := a\<rparr>) = demux_core dm" "demux_core (dm\<lparr>dm_packet_count := b\<rparr>) = demux_core dm"
  "demux_core (dm\<lparr>dm_in_handler := c\<rparr>) = demux_core dm" "demux_core (dm\<lparr>dm_pid_in_handler := d\<rparr>) = demux_core dm"
  "demux_core (dm\<lparr>dm_reset_pending := e\<rparr>) = demux_core dm" "demux_core (dm\<lparr>dm_pid_reset_pending := e\<rparr>) = demux_core dm"
  "demux_core (dm\<lparr>dm_table_handler := e\<rparr>) = demux_core dm" "demux_core (dm\<lparr>dm_section_handler := e\<rparr>) = demux_core dm"
  "demux_core (dm\<lparr>dm_get_current := e\<rparr>) = demux_core dm" "demux_core (dm\<lparr>dm_get_next := e\<rparr>) = demux_core dm"
  "demux_core (dm\<lparr>dm_status := s\<rparr>) = demux_core dm"
  by (simp_all add: demux_core_def)

lemma demux_core_immediate [simp]:
  "demux_core dm \<Longrightarrow> demux_core (immediateReset dm)" "demux_core dm \<Longrightarrow> demux_core (immediateResetPID pid dm)"
  by (simp_all add: demux_core_def immediateReset_def immediateResetPID_def omap.entries_empty omap.entries_del)

lemma demux_core_resetPID [simp]: "demux_core dm \<Longrightarrow> demux_core (resetPID pid dm)"
  by (simp add: resetPID_def)

lemma demux_core_setPIDFilter: "demux_core dm \<Longrightarrow> demux_core (setPIDFilter pids dm)"
proof -
  have "demux_core d \<Longrightarrow> demux_core (fold (\<lambda>pid d. if pid \<in> R then resetPID pid d else d) xs d)" for R xs d
    by (induction xs arbitrary: d) auto
  then show "demux_core dm \<Longrightarrow> demux_core (setPIDFilter pids dm)"
    unfolding setPIDFilter_def Let_def by (simp only: demux_core_simps)
qed

lemma demux_core_call: "demux_core dm \<Longrightarrow> demux_core (demux_call c dm)"
  by (cases c) (auto simp: reset_demux_def addPID_def addPIDs_def removePID_def demux_core_setPIDFilter
      setCurrentNext_def setTableHandler_def setSectionHandler_def)

lemma demux_core_calls: "demux_core dm \<Longrightarrow> demux_core (fold demux_call cs dm)"
  by (induction cs arbitrary: dm) (auto intro: demux_core_call)

lemma demux_core_handler: "demux_core dm \<Longrightarrow> event_ok e \<Longrightarrow> demux_core (call_handler h e dm)"
  unfolding call_handler_def Let_def by (rule demux_core_calls) (simp add: demux_core_def)

lemma demux_core_before [simp]: "demux_core (beforeCallingHandler pid dm) = demux_core dm"
  by (simp add: beforeCallingHandler_def demux_core_def)

lemma demux_core_after: "demux_core dm \<Longrightarrow> demux_core (snd (afterCallingHandler b dm))"
  by (auto simp: afterCallingHandler_def Let_def)

lemma demux_idle_after: "demux_idle (snd (afterCallingHandler b dm))"
  by (auto simp: afterCallingHandler_def Let_def demux_idle_def immediateReset_def immediateResetPID_def)

subsection \<open>Notification of a table\<close>

lemma unat_byte_less: "unat (b :: byte) < 256"
  using unsigned_less [of b] by simp

lemma length_share_back [simp]: "length (share_back xs ys) = length xs"
  by (induction xs ys rule: share_back.induct) auto

lemma count_share_back [simp]: "count_list (share_back xs ys) None = count_list xs None"
  by (induction xs ys rule: share_back.induct) auto

lemma share_back_Nil [simp]: "share_back xs [] = xs"
  by (induction xs "[] :: Section list" rule: share_back.induct) auto

lemma holds_sections_inv:
  assumes h: "holds_sections tid ext ver n D t" and st: "same_table tid ext ver n D" and ne: "D \<noteq> {}"
  shows "table_inv t" and "Some s \<in> set (tb_sections t) \<Longrightarrow> s \<in> D"
proof -
  obtain x where x: "x \<in> D" using ne by auto
  have n: "n \<le> 256"
    using same_tableD(6) [OF st x] unat_byte_less [of "lastSectionNumber x"] by simp
  have "entry_ok t i s" if "i < n" "tb_sections t ! i = Some s" for i s
  proof -
    have "s \<in> D" "unat (sectionNumber s) = i" using that h by (auto simp: holds_sections_def)
    then show ?thesis using same_tableD [OF st \<open>s \<in> D\<close>] h by (auto simp: entry_ok_def holds_sections_def)
  qed
  then show "table_inv t" using n h by (auto simp: table_inv_def holds_sections_def)
  show "s \<in> D" if s: "Some s \<in> set (tb_sections t)"
  proof -
    obtain i where "i < n" "tb_sections t ! i = Some s"
      using s h by (auto simp: in_set_conv_nth holds_sections_def)
    then show ?thesis using h by (auto simp: holds_sections_def)
  qed
qed

lemma context_same_table:
  assumes inv: "etid_inv etid tc" and nn: "\<not> et_notified tc"
  shows "same_table (ETID_tid etid) (ETID_tidExt etid) (et_version tc) (et_expected tc) (set (present (et_sects tc)))"
proof -
  have *: "\<exists>i < length (et_sects tc). sect_in_context etid tc i s \<and> et_sects tc ! i = Some s"
    if "s \<in> set (present (et_sects tc))" for s
    using that inv nn by (auto simp: set_present in_set_conv_nth etid_inv_def)
  have "inj_on sectionNumber (set (present (et_sects tc)))"
  proof (rule inj_onI)
    fix s s' assume "s \<in> set (present (et_sects tc))" "s' \<in> set (present (et_sects tc))"
      and eq: "sectionNumber s = sectionNumber s'"
    then obtain i j where "sect_in_context etid tc i s" "et_sects tc ! i = Some s"
        "sect_in_context etid tc j s'" "et_sects tc ! j = Some s'" using * by blast
    then show "s = s'" using eq by (auto simp: sect_in_context_def)
  qed
  then show ?thesis using * by (fastforce simp: same_table_def sect_in_context_def)
qed

lemma addSections_context:
  assumes inv: "etid_inv etid tc" and nn: "\<not> et_notified tc"
  shows "let t = snd (addSections BinaryTable_clear (present (et_sects tc)) r g) in
    table_inv t \<and> (\<forall>s. Some s \<in> set (tb_sections t) \<longrightarrow> crc_section s) \<and>
    (present (et_sects tc) = [] \<longrightarrow> t = BinaryTable_clear) \<and>
    (None \<notin> set (et_sects tc) \<and> et_sects tc \<noteq> [] \<longrightarrow> tb_valid t)"
proof (cases "present (et_sects tc)")
  case Nil
  then have "None \<in> set (et_sects tc)" if "et_sects tc \<noteq> []"
    using that by (cases "et_sects tc"; cases "hd (et_sects tc)") auto
  then show ?thesis using Nil by (auto simp: Let_def BinaryTable_clear_def table_inv_def)
next
  case (Cons s ss)
  let ?ss = "present (et_sects tc)" and ?t = "snd (addSections BinaryTable_clear (present (et_sects tc)) r g)"
  note st = context_same_table [OF inv nn]
  have s: "s \<in> set ?ss" using Cons by simp
  note d = same_tableD [OF st s]
  have "addSections BinaryTable_clear ?ss r g = addSections (table_for s) ?ss r g"
    by (simp add: Cons addSection_first d(1))
  moreover have "holds_sections (ETID_tid etid) (ETID_tidExt etid) (et_version tc) (et_expected tc) {} (table_for s)"
    by (rule table_for_holds [OF d(6), unfolded d(3-5)])
  ultimately have h: "holds_sections (ETID_tid etid) (ETID_tidExt etid) (et_version tc) (et_expected tc) (set ?ss) ?t"
    using addSections_holds [of _ _ _ _ "{}" ?ss "table_for s" r g] st by simp
  have crc: "crc_section x" if "x \<in> set ?ss" for x
    using that inv nn by (auto simp: set_present in_set_conv_nth etid_inv_def sect_in_context_def)
  have "tb_valid ?t" if full: "None \<notin> set (et_sects tc)"
  proof -
    have "\<exists>s \<in> set ?ss. unat (sectionNumber s) = i" if i: "i < et_expected tc" for i
    proof -
      have "i < length (et_sects tc)" using i inv by (simp add: etid_inv_def)
      then obtain y where y: "et_sects tc ! i = Some y" using full by (metis not_None_eq nth_mem)
      then have "sect_in_context etid tc i y" using inv nn \<open>i < length (et_sects tc)\<close> by (simp add: etid_inv_def)
      then show ?thesis using y \<open>i < length (et_sects tc)\<close>
        by (intro bexI [of _ y]) (auto simp: sect_in_context_def set_present in_set_conv_nth)
    qed
    from addSections_any_order_facts [OF st this, of r g] Cons show ?thesis by (simp add: Let_def)
  qed
  then show ?thesis using holds_sections_inv [OF h st] crc s Cons by (auto simp: Let_def)
qed

lemma packSections_clear [simp]: "packSections BinaryTable_clear = (False, BinaryTable_clear)"
  by (simp add: packSections_def BinaryTable_clear_def)

lemma present_Nil_table: "table_inv t \<Longrightarrow> tb_valid t \<Longrightarrow> present (tb_sections t) \<noteq> []"
  using length_present [of "tb_sections t"] by (auto simp: table_inv_def)

lemma notify_table_facts:
  assumes inv: "etid_inv etid tc" and nn: "\<not> et_notified tc"
    and go: "et_received tc = et_expected tc \<or> force"
  shows "let t = notify_table (et_sects tc) force in
    (tb_valid t \<longrightarrow> event_ok (EvTable t)) \<and>
    (\<not> tb_valid t \<longrightarrow> share_back (et_sects tc) (present (tb_sections t)) = et_sects tc)"
proof -
  let ?t = "snd (addSections BinaryTable_clear (present (et_sects tc)) True True)"
  note a = addSections_context [OF inv nn, of True True, unfolded Let_def]
  note p = packSections_facts [of ?t]
  have full: "None \<notin> set (et_sects tc)" if "et_received tc = et_expected tc"
  proof -
    have "count_list (et_sects tc) None = 0" using that inv by (simp add: etid_inv_def)
    then show ?thesis unfolding count_list_0_iff .
  qed
  show ?thesis
  proof (cases force)
    case True
    let ?p = "snd (packSections ?t)"
    have pk: "table_inv ?p" "\<And>s. Some s \<in> set (tb_sections ?p) \<Longrightarrow> crc_section s"
        "map section_payload (present (tb_sections ?p)) = map section_payload (present (tb_sections ?t))"
        "tb_valid ?p = (present (tb_sections ?t) \<noteq> [])"
      using p a by (auto simp: case_prod_beta)
    have t: "notify_table (et_sects tc) force = ?p" using True by (simp add: notify_table_def)
    have "present (tb_sections ?p) = []" if "\<not> tb_valid ?p" using pk(3,4) that by simp
    then show ?thesis unfolding t Let_def using pk(1,2) by (auto simp: event_ok_def)
  next
    case False
    then have f: "None \<notin> set (et_sects tc)" using go full by simp
    show ?thesis
    proof (cases "et_sects tc = []")
      case True
      then show ?thesis using a False by (simp add: notify_table_def Let_def event_ok_def)
    next
      case ne: False
      then show ?thesis using a False f by (simp add: notify_table_def Let_def event_ok_def)
    qed
  qed
qed

lemma notify_inv:
  assumes core: "demux_core dm" and inv: "etid_inv etid tc"
  shows "case ETIDContext_notify h force (dm, tc) of (dm', tc') \<Rightarrow> demux_core dm' \<and> etid_inv etid tc'"
proof (cases "\<not> et_notified tc \<and> (et_received tc = et_expected tc \<or> force) \<and> dm_table_handler dm")
  case True
  then have nn: "\<not> et_notified tc" and go: "et_received tc = et_expected tc \<or> force" by auto
  let ?t = "notify_table (et_sects tc) force"
  note f = notify_table_facts [OF inv nn go, unfolded Let_def]
  show ?thesis
  proof (cases "tb_valid ?t")
    case valid: True
    then have "demux_core (call_handler h (EvTable ?t) dm)" using f core demux_core_handler by blast
    then show ?thesis using True valid inv by (simp add: ETIDContext_notify_def Let_def etid_inv_def)
  next
    case invalid: False
    then show ?thesis using True core inv f by (simp add: ETIDContext_notify_def Let_def)
  qed
qed (use assms in \<open>auto simp: ETIDContext_notify_def\<close>)

subsection \<open>Analysis of a section\<close>

lemma etid_inv_init: "etid_inv etid (ETIDContext_init ver lst)"
  by (simp add: etid_inv_def ETIDContext_init_def count_list_replicate_None del: replicate_Suc)

lemma etid_inv_store:
  assumes inv: "etid_inv etid tc" and i: "i < length (et_sects tc)" "et_sects tc ! i = None"
    and s: "sect_in_context etid tc i s"
  shows "etid_inv etid (tc\<lparr>et_sects := (et_sects tc)[i := Some s], et_received := et_received tc + 1\<rparr>)"
proof -
  have c: "count_list ((et_sects tc)[i := Some s]) None = count_list (et_sects tc) None - 1"
      "0 < count_list (et_sects tc) None"
    using count_list_update [OF i(1)] count_None_pos [OF i] i(2) by auto
  then show ?thesis using inv i s
    by (auto simp: etid_inv_def nth_list_update sect_in_context_def)
qed

text \<open>The header of an analysed section has its number in range (the check of
  \<^const>\<open>demux_check\<close>).\<close>

lemma demux_check_facts:
  assumes "demux_check ts ok dm = (True, d)" and "len \<ge> 12 \<or> ts ! 1 AND 0x80 = 0" and "2 < len" "len \<le> length ts"
  shows "ok" and "sh_number (demux_header (take len ts)) \<le> sh_last (demux_header (take len ts))"
  using assms by (auto simp: demux_check_def Let_def demux_header_def split: if_splits)

lemma demux_check_core [simp]: "demux_core (snd (demux_check ts ok dm)) = demux_core dm"
  by (simp add: demux_check_def Let_def)

lemma demux_check_idle [simp]: "demux_idle (snd (demux_check ts ok dm)) = demux_idle dm"
  by (simp add: demux_check_def Let_def demux_idle_def)

lemma demux_context_facts:
  assumes tids: "omap.entries etid_inv (pc_tids pc)"
  shows "etid_inv (sh_etid (demux_header c)) (demux_context c pc)"
    and "0 < et_expected (demux_context c pc)" and "et_version (demux_context c pc) = sh_version (demux_header c)"
proof -
  have "etid_inv (sh_etid (demux_header c))
      (case omap_get (pc_tids pc) (sh_etid (demux_header c)) of None \<Rightarrow> ETIDContext_new | Some tc \<Rightarrow> tc)"
    by (rule omap.entries_default [OF tids]) (simp add: etid_inv_def ETIDContext_new_def)
  then show "etid_inv (sh_etid (demux_header c)) (demux_context c pc)"
    by (simp add: demux_context_def Let_def etid_inv_init)
  show "0 < et_expected (demux_context c pc)" "et_version (demux_context c pc) = sh_version (demux_header c)"
    by (simp_all add: demux_context_def Let_def ETIDContext_init_def)
qed

lemma demux_deliver_inv:
  assumes core: "demux_core dm" and tc: "etid_inv etid tc"
    and ev: "ok \<Longrightarrow> dm_section_handler dm \<or> et_sects tc ! n = None \<Longrightarrow> n < length (et_sects tc) \<and> sect_in_context etid tc n sect"
  shows "case demux_deliver h pid n ok sect dm tc of (_, d, tc') \<Rightarrow> demux_core d \<and> demux_idle d \<and> etid_inv etid tc'"
proof -
  define d3 where "d3 = beforeCallingHandler pid dm"
  define d4 where "d4 = (if ok \<and> dm_section_handler d3 then call_handler h (EvSection sect) d3 else d3)"
  define tcs where "tcs = tc\<lparr>et_sects := (et_sects tc)[n := Some sect], et_received := et_received tc + 1\<rparr>"
  define r where "r = (if ok \<and> et_sects tc ! n = None then ETIDContext_notify h False (d4, tcs) else (d4, tc))"
  have sd: "dm_section_handler d3 = dm_section_handler dm" by (simp add: d3_def beforeCallingHandler_def)
  have c3: "demux_core d3" using core by (simp add: d3_def)
  have c4: "demux_core d4"
    using demux_core_handler [OF c3, of "EvSection sect" h] ev c3
    by (auto simp: d4_def event_ok_def sd sect_in_context_def)
  have c5: "demux_core (fst r) \<and> etid_inv etid (snd r)"
  proof (cases "ok \<and> et_sects tc ! n = None")
    case True
    then have "etid_inv etid tcs" unfolding tcs_def using etid_inv_store [OF tc] ev by blast
    from notify_inv [OF c4 this, of h False] True show ?thesis by (simp add: r_def case_prod_beta)
  next
    case False
    then show ?thesis using c4 tc by (auto simp: r_def)
  qed
  have "demux_deliver h pid n ok sect dm tc =
      (fst (afterCallingHandler True (fst r)), snd (afterCallingHandler True (fst r)), snd r)"
    unfolding demux_deliver_def Let_def d3_def [symmetric] d4_def [symmetric] tcs_def [symmetric] r_def [symmetric]
    by (simp add: case_prod_beta)
  then show ?thesis using c5 by (simp add: demux_core_after demux_idle_after)
qed

lemma demux_analyze_inv:
  assumes core: "demux_core dm" and tids: "omap.entries etid_inv (pc_tids pc)"
    and num: "sh_number (demux_header content) \<le> sh_last (demux_header content)"
  shows "case demux_analyze h pid idx content dm pc of (d, r) \<Rightarrow> demux_core d \<and> demux_idle d \<and>
    (case r of None \<Rightarrow> True | Some pc' \<Rightarrow> omap.entries etid_inv (pc_tids pc') \<and> pc_sync pc' = pc_sync pc)"
proof -
  let ?hd = "demux_header content"
  define tc where "tc = demux_context content pc"
  define bad where "bad = (unat (sh_last ?hd) \<noteq> et_expected tc - 1)"
  define n where "n = unat (sh_number ?hd)"
  define d1 where "d1 = (if bad then bump_inv_index dm else dm)"
  define create where "create = (\<not> bad \<and> (dm_section_handler d1 \<or> et_sects tc ! n = None))"
  define sect where "sect = (Section_initialize content pid CRC_CHECK)\<lparr>sc_first := idx, sc_last := dm_packet_count dm\<rparr>"
  define d2 where "d2 = (if create \<and> \<not> sc_valid sect then bump_wrong_crc d1 else d1)"
  define ok where "ok = (\<not> bad \<and> (create \<longrightarrow> sc_valid sect))"
  obtain w d6 tc2 where del: "demux_deliver h pid n ok sect d2 tc = (w, d6, tc2)"
    by (cases "demux_deliver h pid n ok sect d2 tc") auto
  have eq: "demux_analyze h pid idx content dm pc =
     (d6, if w then None else Some (pc\<lparr>pc_tids := omap_put (sh_etid ?hd) tc2 (pc_tids pc)\<rparr>))"
    unfolding demux_analyze_def Let_def tc_def [symmetric] bad_def [symmetric] n_def [symmetric] d1_def [symmetric]
      create_def [symmetric] sect_def [symmetric] d2_def [symmetric] ok_def [symmetric] del by simp
  note tcf = demux_context_facts [OF tids, of content, folded tc_def]
  have c2: "demux_core d2" using core by (simp add: d2_def d1_def)
  have "n < length (et_sects tc) \<and> sect_in_context (sh_etid ?hd) tc n sect"
    if "ok" "dm_section_handler d2 \<or> et_sects tc ! n = None"
  proof -
    have nb: "\<not> bad" and c: create using that by (auto simp: ok_def create_def d2_def split: if_splits)
    have last1: "unat (sh_last ?hd) + 1 = et_expected tc" using nb tcf(2) by (simp add: bad_def)
    have "sc_valid (Section_initialize content pid CRC_CHECK)" using that(1) c by (simp add: ok_def sect_def)
    from header_of_section [OF this] last1 tcf(3)
    have "sect_in_context (sh_etid ?hd) tc n sect" by (simp add: sect_in_context_def sect_def n_def)
    moreover have "n < length (et_sects tc)"
      using num last1 tcf(1) by (simp add: n_def etid_inv_def word_le_nat_alt)
    ultimately show ?thesis by simp
  qed
  from demux_deliver_inv [OF c2 tcf(1) this, of ok h pid, unfolded del prod.case] tids
  show ?thesis unfolding eq by (simp add: omap.entries_put)
qed

subsection \<open>The loop and the packet\<close>

lemma demux_one_inv:
  assumes core: "demux_core dm" and idle: "demux_idle dm" and tids: "omap.entries etid_inv (pc_tids pc)"
    and ts: "3 \<le> length ts" "demux_length ts \<le> length ts" "\<not> demux_bad_length ts"
  shows "case demux_one h pid ts pusi idx dm pc of (d, r) \<Rightarrow> demux_core d \<and> demux_idle d \<and>
    (case r of None \<Rightarrow> True | Some pc' \<Rightarrow> omap.entries etid_inv (pc_tids pc') \<and> pc_sync pc' = pc_sync pc)"
proof -
  obtain ok d1 where chk: "demux_check ts (\<not> demux_truncated ts pusi) dm = (ok, d1)"
    by (cases "demux_check ts (\<not> demux_truncated ts pusi) dm")
  have d1: "demux_core d1" "demux_idle d1"
    using core idle demux_check_core [of ts "\<not> demux_truncated ts pusi" dm]
      demux_check_idle [of ts "\<not> demux_truncated ts pusi" dm] by (simp_all add: chk)
  show ?thesis
  proof (cases ok)
    case True
    have "sh_number (demux_header (take (demux_length ts) ts)) \<le> sh_last (demux_header (take (demux_length ts) ts))"
      using demux_check_facts [of ts _ dm d1 "demux_length ts"] chk True ts
      by (auto simp: demux_bad_length_def)
    from demux_analyze_inv [OF d1(1) tids this] show ?thesis
      using True by (simp add: demux_one_def chk)
  next
    case False
    then show ?thesis using d1 tids by (simp add: demux_one_def chk)
  qed
qed

lemma demux_loop_inv:
  assumes "demux_core dm" and "demux_idle dm" and "omap.entries etid_inv (pc_tids pc)" and "pc_sync pc"
  shows "case demux_loop h pid ts pusi idx dm pc of (d, r) \<Rightarrow> demux_core d \<and> demux_idle d \<and>
    (case r of None \<Rightarrow> True | Some pc' \<Rightarrow> pid_inv pid pc')"
  using assms
proof (induction h pid ts pusi idx dm pc rule: demux_loop.induct)
  case (1 h pid ts pusi idx dm pc)
  consider "length ts < 3" | "3 \<le> length ts" "demux_bad_length ts"
    | "3 \<le> length ts" "\<not> demux_bad_length ts" "length ts < demux_length ts"
    | (full) "3 \<le> length ts" "\<not> demux_bad_length ts" "demux_length ts \<le> length ts" by linarith
  then show ?case
  proof cases
    case full
    obtain d2 r where one: "demux_one h pid ts pusi idx dm pc = (d2, r)"
      by (cases "demux_one h pid ts pusi idx dm pc")
    note inv = demux_one_inv [OF 1(2-4) full(1) full(3) full(2), of h pid pusi idx, unfolded one prod.case]
    show ?thesis
    proof (cases r)
      case None
      then show ?thesis using inv full one by simp
    next
      case (Some pc2)
      have "\<not> length ts < 3" "\<not> length ts < demux_length ts" using full by simp_all
      from 1(1) [OF this(1) full(2) this(2) one [symmetric] Some] inv 1(5) Some full one
      show ?thesis by simp
    qed
  qed (use 1 in \<open>simp_all add: pid_inv_def ts_pending_def syncLost_def demux_length_def demux_idle_def\<close>)
qed

lemma pid_inv_syncLost: "omap.entries etid_inv (pc_tids pc) \<Longrightarrow> pid_inv pid (syncLost pc)"
  by (simp add: pid_inv_def syncLost_def ts_pending_def)

lemma pid_inv_other [simp]:
  "pid_inv pid (pc\<lparr>pc_continuity := c\<rparr>) = pid_inv pid pc"
  "pid_inv pid (pc\<lparr>pc_pusi_pkt_index := i\<rparr>) = pid_inv pid pc"
  by (simp_all add: pid_inv_def)

lemma pid_inv_new [simp]: "pid_inv pid PIDContext_new"
  by (simp add: pid_inv_def PIDContext_new_def ts_pending_def omap.entries_empty)

lemma pid_inv_tids: "pid_inv pid pc \<Longrightarrow> omap.entries etid_inv (pc_tids pc)"
  by (simp add: pid_inv_def)

definition packet_result_ok :: "u16 \<Rightarrow> SectionDemux \<times> PIDContext option \<Rightarrow> bool" where
  "packet_result_ok pid r = (demux_core (fst r) \<and> demux_idle (fst r) \<and>
     (case snd r of None \<Rightarrow> True | Some pc \<Rightarrow> pid_inv pid pc))"

lemma packet_result_if:
  "(c \<Longrightarrow> packet_result_ok pid a) \<Longrightarrow> (\<not> c \<Longrightarrow> packet_result_ok pid b) \<Longrightarrow> packet_result_ok pid (if c then a else b)"
  by simp

lemma demux_payload_inv:
  assumes "demux_core dm" and "demux_idle dm" and "pid_inv pid pc"
  shows "packet_result_ok pid (demux_payload h pid pkt dm pc)"
proof -
  have l: "packet_result_ok pid (demux_loop h pid ts p i dm (pc'\<lparr>pc_sync := True, pc_ts := ts\<rparr>))"
    if "pc_tids pc' = pc_tids pc" for ts p i pc'
    using demux_loop_inv [where pc = "pc'\<lparr>pc_sync := True, pc_ts := ts\<rparr>" and h = h and pid = pid and ts = ts
        and pusi = p and idx = i, OF assms(1,2)]
      that pid_inv_tids [OF assms(3)] by (simp add: packet_result_ok_def case_prod_beta)
  have r: "packet_result_ok pid (dm, Some pc')" if "pid_inv pid pc'" for pc'
    using that assms by (simp add: packet_result_ok_def)
  have s: "pid_inv pid (syncLost pc')" if "pc_tids pc' = pc_tids pc" for pc'
    by (rule pid_inv_syncLost) (simp add: that pid_inv_tids [OF assms(3)])
  show ?thesis
    unfolding demux_payload_def Let_def
    by (intro packet_result_if r l) (use assms(3) s in simp_all)
qed

lemma write_pid_inv: "packet_result_ok pid r \<Longrightarrow> demux_core (write_pid pid r) \<and> demux_idle (write_pid pid r)"
  by (cases r) (auto simp: packet_result_ok_def write_pid_def demux_core_def demux_idle_def
      intro: omap.entries_put split: option.splits)

lemma processPacket_inv:
  assumes core: "demux_core dm" and idle: "demux_idle dm"
  shows "demux_core (processPacket h pkt dm) \<and> demux_idle (processPacket h pkt dm)"
proof (cases "hasValidSync pkt")
  case False
  then show ?thesis using assms by (simp add: processPacket_def demux_idle_def)
next
  case True
  let ?pid = "getPID pkt" and ?pc = "pid_context dm (getPID pkt)"
  have pc: "pid_inv ?pid ?pc"
    unfolding pid_context_def by (rule omap.entries_default) (use core in \<open>simp_all add: demux_core_def\<close>)
  have s: "pid_inv ?pid (syncLost ?pc)" by (rule pid_inv_syncLost [OF pid_inv_tids [OF pc]])
  have st: "demux_core (dm\<lparr>dm_status := x\<rparr>) \<and> demux_idle (dm\<lparr>dm_status := x\<rparr>)" for x
    using assms by (simp add: demux_idle_def)
  have r: "packet_result_ok ?pid (d, Some pc')" if "demux_core d" "demux_idle d" "pid_inv ?pid pc'" for d pc'
    using that by (simp add: packet_result_ok_def)
  have "packet_result_ok ?pid (demux_packet h ?pid pkt dm ?pc)"
    unfolding demux_packet_def
    by (intro packet_result_if demux_payload_inv r assms st [THEN conjunct1] st [THEN conjunct2] pc s)
      (simp_all only: pid_inv_other pc s)
  from write_pid_inv [OF this] show ?thesis using True by (simp add: processPacket_def)
qed

text \<open>
  C17. Whatever packets a demultiplexer is fed, whatever its handlers do when called (resets
  of the PID in progress or of the whole demux included), its contexts stay consistent and
  every event delivered so far is right: a section is well formed with a valid CRC-32, a
  table is complete, with all its sections at their number, valid and with a valid CRC-32.
  The pending resets have all been executed when the call returns.
\<close>
theorem demux_feed_inv:
  assumes "demux_core dm" and "demux_idle dm"
  shows "demux_core (fold (demux_feedPacket h) pkts dm) \<and> demux_idle (fold (demux_feedPacket h) pkts dm)"
  using assms
proof (induction pkts arbitrary: dm)
  case (Cons pkt pkts)
  have "demux_core (demux_feedPacket h pkt dm) \<and> demux_idle (demux_feedPacket h pkt dm)"
    using Cons.prems processPacket_inv [of dm h pkt] by (simp add: demux_feedPacket_def Let_def demux_idle_def)
  with Cons.IH show ?case by simp
qed simp

lemma SectionDemux_new_inv: "demux_core (SectionDemux_new t s f) \<and> demux_idle (SectionDemux_new t s f)"
  by (simp add: SectionDemux_new_def demux_core_def demux_idle_def omap.entries_empty)

theorem demux_feed_inv_witness:
  "demux_core (fold (demux_feedPacket (\<lambda>_. [CallReset])) [NullPacket, NullPacket] (SectionDemux_new True True {0}))"
  using demux_feed_inv [of "SectionDemux_new True True {0}"] SectionDemux_new_inv by blast

subsection \<open>Forced notification\<close>

lemma notify_all_inv:
  assumes "demux_core dm" and "\<forall>e \<in> set tids. etid_inv (fst e) (snd e)"
  shows "case notify_all h dm tids of (d, tids') \<Rightarrow> demux_core d \<and> map fst tids' = map fst tids \<and>
    (\<forall>e \<in> set tids'. etid_inv (fst e) (snd e))"
  using assms
proof (induction h dm tids rule: notify_all.induct)
  case (2 h dm etid tc tids)
  obtain d1 tc1 where n: "ETIDContext_notify h True (dm, tc) = (d1, tc1)" by (cases "ETIDContext_notify h True (dm, tc)")
  have i: "demux_core d1" "etid_inv etid tc1" using notify_inv [of dm etid tc h True] 2(2,3) n by auto
  obtain d2 t2 where a: "notify_all h d1 tids = (d2, t2)" by (cases "notify_all h d1 tids")
  show ?case using 2(1) [OF refl n [symmetric] i(1)] 2(3) i n a by auto
qed simp

lemma flush_pids_inv:
  assumes "demux_core dm" and "demux_idle dm" and "flush_pids h pids dm = Some dm'"
  shows "demux_core dm' \<and> demux_idle dm'"
  using assms
proof (induction h pids dm rule: flush_pids.induct)
  case (2 h pid pids dm)
  show ?case
  proof (cases "omap_get (dm_pids dm) pid")
    case None
    then show ?thesis using 2 by simp
  next
    case (Some pc)
    have pc: "pid_inv pid pc" using omap.entries_get 2(3) Some unfolding demux_core_def by metis
    obtain d1 tids where n: "notify_all h (beforeCallingHandler pid dm) (pc_tids pc) = (d1, tids)"
      by (cases "notify_all h (beforeCallingHandler pid dm) (pc_tids pc)")
    have t: "omap.entries etid_inv (pc_tids pc)" by (rule pid_inv_tids [OF pc])
    have "\<forall>e \<in> set (pc_tids pc). etid_inv (fst e) (snd e)" using omap_entries_set [OF t] by auto
    with notify_all_inv [of "beforeCallingHandler pid dm" "pc_tids pc" h] n 2(3)
    have d1: "demux_core d1" and k: "map fst tids = map fst (pc_tids pc)" and e: "\<forall>e \<in> set tids. etid_inv (fst e) (snd e)"
      by simp_all
    have "omap.entries etid_inv tids"
      using omap.entries_ok [OF t] k e by (intro omap_entriesI) (auto simp: omap_inv_def)
    then have "pid_inv pid (pc\<lparr>pc_tids := tids\<rparr>)" using pc by (simp add: pid_inv_def)
    then have c2: "demux_core (d1\<lparr>dm_pids := omap_put pid (pc\<lparr>pc_tids := tids\<rparr>) (dm_pids d1)\<rparr>)"
      using d1 by (simp add: demux_core_def omap.entries_put)
    obtain w d3 where a: "afterCallingHandler True (d1\<lparr>dm_pids := omap_put pid (pc\<lparr>pc_tids := tids\<rparr>) (dm_pids d1)\<rparr>) = (w, d3)"
      by (cases "afterCallingHandler True (d1\<lparr>dm_pids := omap_put pid (pc\<lparr>pc_tids := tids\<rparr>) (dm_pids d1)\<rparr>)")
    have d3: "demux_core d3 \<and> demux_idle d3"
      using demux_core_after [OF c2, of True] demux_idle_after [of True "d1\<lparr>dm_pids := omap_put pid (pc\<lparr>pc_tids := tids\<rparr>) (dm_pids d1)\<rparr>"] a by simp
    have "\<not> w" using 2(5) Some n a by (simp split: if_splits)
    with 2(2) [OF Some refl n [symmetric] refl refl a [symmetric] this] d3 2(5) Some n a show ?thesis by simp
  qed
qed auto



end
