(* ===== verification/Ts_Packetizer.thy ===== *)
theory Ts_Packetizer
  imports Ts_Table
begin

text \<open>
  Packetization of sections: \<open>tsPacketizer.cpp\<close> with the interface
  \<open>tsSectionProviderInterface.h\<close>, \<open>tsCyclingPacketizer.cpp\<close> and
  \<open>tsOneShotPacketizer.cpp\<close>. The provider is a record of its two operations on a state of
  its own (the type parameter); \<^const>\<open>None\<close> stands for a null provider. In the code the
  cycling packetizer is its own provider: its state is then the provider state of the
  packetizer, and the packet count that its \<open>provideSection\<close> reads is passed to it.
\<close>

section \<open>Packetizer\<close>

type_synonym SectionCounter = u64

record 'p Provider =
  pv_provide :: "SectionCounter \<Rightarrow> PacketCounter \<Rightarrow> 'p \<Rightarrow> Section option \<times> 'p"
  pv_stuffing :: "'p \<Rightarrow> bool"

record 'p Packetizer =
  pz_prov :: 'p
  pz_pid :: u16
  pz_continuity :: byte
  pz_section :: "Section option"
  pz_next_byte :: nat
  pz_packet_count :: PacketCounter
  pz_out_count :: SectionCounter
  pz_in_count :: SectionCounter

definition Packetizer_new :: "u16 \<Rightarrow> 'p \<Rightarrow> 'p Packetizer" where
  "Packetizer_new pid prov = \<lparr>pz_prov = prov, pz_pid = pid, pz_continuity = 0, pz_section = None,
     pz_next_byte = 0, pz_packet_count = 0, pz_out_count = 0, pz_in_count = 0\<rparr>"

definition Packetizer_reset :: "'p Packetizer \<Rightarrow> 'p Packetizer" where
  "Packetizer_reset p = p\<lparr>pz_section := None, pz_next_byte := 0\<rparr>"

definition Packetizer_setPID :: "u16 \<Rightarrow> 'p Packetizer \<Rightarrow> 'p Packetizer" where
  "Packetizer_setPID pid p = p\<lparr>pz_pid := pid AND 0x1FFF\<rparr>"

definition setNextContinuityCounter :: "byte \<Rightarrow> 'p Packetizer \<Rightarrow> 'p Packetizer" where
  "setNextContinuityCounter cc p = p\<lparr>pz_continuity := cc AND 0x0F\<rparr>"

definition atSectionBoundary :: "'p Packetizer \<Rightarrow> bool" where
  "atSectionBoundary p = (pz_next_byte p = 0)"

text \<open>A call to the provider, which counts the provided sections.\<close>

definition pz_provide :: "'p Provider \<Rightarrow> 'p Packetizer \<Rightarrow> Section option \<times> 'p Packetizer" where
  "pz_provide ops p =
     (let (s, q) = pv_provide ops (pz_in_count p) (pz_packet_count p) (pz_prov p)
      in (s, p\<lparr>pz_prov := q, pz_in_count := pz_in_count p + 1\<rparr>))"

text \<open>The loop that fills the payload (lines 158 to 200): \<open>room\<close> is \<open>remain_in_packet\<close>, and
  \<open>remain_in_section\<close> is the size of the section less \<open>_next_byte\<close>. The result is the bytes
  copied before stuffing. A turn that does not reach the end of the section fills the packet,
  so it is the last one. A section without content has a null buffer, which the code would
  dereference: the result is \<^const>\<open>None\<close>.\<close>

definition pz_following :: "'p Provider option \<Rightarrow> Section option \<Rightarrow> 'p Packetizer \<Rightarrow> Section option \<times> 'p Packetizer" where
  "pz_following ops next_section p =
     (case next_section of
        Some s \<Rightarrow> (Some s, p)
      | None \<Rightarrow> (case ops of
            None \<Rightarrow> (None, p)
          | Some o' \<Rightarrow> if pv_stuffing o' (pz_prov p) then (None, p) else pz_provide o' p))"

definition pz_copied :: "Section option \<Rightarrow> 'p Packetizer \<Rightarrow> 'p Packetizer" where
  "pz_copied next_section p =
     p\<lparr>pz_out_count := pz_out_count p + 1, pz_section := next_section, pz_next_byte := 0\<rparr>"

function (sequential) pz_fill ::
  "'p Provider option \<Rightarrow> nat \<Rightarrow> bool \<Rightarrow> Section option \<Rightarrow> Section \<Rightarrow> 'p Packetizer \<Rightarrow> (byte list \<times> 'p Packetizer) option" where
  "pz_fill ops room do_stuffing next_section sec p =
     (let next_byte = pz_next_byte p; remain = section_size sec - next_byte
      in if room = 0 then Some ([], p)
         else if remain = 0 then None
         else if room < remain
         then Some (take room (drop next_byte (sc_data sec)), p\<lparr>pz_next_byte := next_byte + room\<rparr>)
         else if do_stuffing then Some (drop next_byte (sc_data sec), pz_copied next_section p)
         else (case pz_following ops next_section (pz_copied next_section p) of
             (None, p3) \<Rightarrow> Some (drop next_byte (sc_data sec), p3)
           | (Some s, p3) \<Rightarrow>
               if room - remain < headerSize s
               then Some (drop next_byte (sc_data sec), p3\<lparr>pz_section := Some s\<rparr>)
               else map_option (\<lambda>(d, q). (drop next_byte (sc_data sec) @ d, q))
                      (pz_fill ops (room - remain) False None s (p3\<lparr>pz_section := Some s\<rparr>))))"
  by pat_completeness auto
termination
  by (relation "measure (\<lambda>(ops, room, _). room)") auto

declare pz_fill.simps [simp del]

text \<open>The look-ahead for a section that may start in this packet (lines 97 to 119): whether the
  end of the packet is to be stuffed, and the next section.\<close>

definition pz_lookahead :: "'p Provider option \<Rightarrow> Section \<Rightarrow> 'p Packetizer \<Rightarrow> bool \<times> Section option \<times> 'p Packetizer" where
  "pz_lookahead ops sec p =
     (let remain = section_size sec - pz_next_byte p
      in if remain \<le> PKT_SIZE - 5 - SHORT_SECTION_HEADER_SIZE
         then (case ops of None \<Rightarrow> (True, None, p)
           | Some o' \<Rightarrow>
               if pv_stuffing o' (pz_prov p) then (True, None, p)
               else (case pz_provide o' p of
                   (None, p1) \<Rightarrow> (True, None, p1)
                 | (Some s, p1) \<Rightarrow> (remain > PKT_SIZE - 5 - headerSize s, Some s, p1)))
         else (True, None, p))"

definition pz_current :: "'p Provider option \<Rightarrow> 'p Packetizer \<Rightarrow> 'p Packetizer" where
  "pz_current ops p =
     (case (pz_section p, ops) of
        (None, Some o') \<Rightarrow> (case pz_provide o' p of (s, q) \<Rightarrow> q\<lparr>pz_section := s, pz_next_byte := 0\<rparr>)
      | _ \<Rightarrow> p)"

definition pz_header :: "bool \<Rightarrow> u16 \<Rightarrow> byte \<Rightarrow> byte list" where
  "pz_header pusi pid cc =
     (let w = (if pusi then 0x4000 else 0) OR pid
      in [SYNC_BYTE, ucast (drop_bit 8 w), ucast w, 0x10 OR cc])"

definition getNextPacket :: "'p Provider option \<Rightarrow> 'p Packetizer \<Rightarrow> (bool \<times> TSPacket \<times> 'p Packetizer) option" where
  "getNextPacket ops p =
     (let p0 = pz_current ops (p\<lparr>pz_packet_count := pz_packet_count p + 1\<rparr>)
      in case pz_section p0 of
           None \<Rightarrow> Some (False, NullPacket, p0)
         | Some sec \<Rightarrow>
             let (do_stuffing, next_section, p1) = pz_lookahead ops sec p0;
                 remain = section_size sec - pz_next_byte p1;
                 pusi = (pz_next_byte p1 = 0 \<or> \<not> do_stuffing);
                 pointer_field = (if pz_next_byte p1 = 0 then 0x00 else of_nat remain);
                 header = pz_header pusi (pz_pid p1) (pz_continuity p1) @ (if pusi then [pointer_field] else []);
                 p2 = p1\<lparr>pz_continuity := (pz_continuity p1 + 1) AND 0x0F\<rparr>;
                 room = PKT_SIZE - length header
             in (case pz_fill ops room do_stuffing next_section sec p2 of
                   None \<Rightarrow> None
                 | Some (payload, p3) \<Rightarrow>
                     Some (True, header @ payload @ replicate (room - length payload) 0xFF, p3)))"

section \<open>Cycling packetizer\<close>

datatype StuffingPolicy = NEVER | AT_END | ALWAYS

record SectionDesc =
  sd_section :: Section
  sd_repetition :: MilliSecond
  sd_last_packet :: PacketCounter
  sd_due_packet :: PacketCounter
  sd_last_cycle :: SectionCounter

record Cycling =
  cy_stuffing :: StuffingPolicy
  cy_bitrate :: BitRate
  cy_section_count :: nat
  cy_sched :: "SectionDesc list"
  cy_other :: "SectionDesc list"
  cy_sched_packets :: PacketCounter
  cy_current_cycle :: SectionCounter
  cy_remain :: nat
  cy_cycle_end :: SectionCounter

type_synonym CyclingPacketizer = "Cycling Packetizer"

abbreviation (input) UNDEFINED :: SectionCounter where "UNDEFINED \<equiv> 0xFFFFFFFFFFFFFFFF"

definition Cycling_new :: "StuffingPolicy \<Rightarrow> BitRate \<Rightarrow> Cycling" where
  "Cycling_new stuffing bitrate = \<lparr>cy_stuffing = stuffing, cy_bitrate = bitrate, cy_section_count = 0,
     cy_sched = [], cy_other = [], cy_sched_packets = 0, cy_current_cycle = 1, cy_remain = 0,
     cy_cycle_end = UNDEFINED\<rparr>"

definition CyclingPacketizer_new :: "u16 \<Rightarrow> StuffingPolicy \<Rightarrow> BitRate \<Rightarrow> CyclingPacketizer" where
  "CyclingPacketizer_new pid stuffing bitrate = Packetizer_new pid (Cycling_new stuffing bitrate)"

definition sd_packets :: "SectionDesc \<Rightarrow> PacketCounter" where
  "sd_packets d = of_nat (section_packetCount (sd_section d))"

fun addScheduledSection :: "SectionDesc \<Rightarrow> SectionDesc list \<Rightarrow> SectionDesc list" where
  "addScheduledSection d [] = [d]"
| "addScheduledSection d (e # es) =
     (if sd_due_packet e < sd_due_packet d then e # addScheduledSection d es else d # e # es)"

definition cy_addSection :: "PacketCounter \<Rightarrow> Section \<Rightarrow> MilliSecond \<Rightarrow> Cycling \<Rightarrow> Cycling" where
  "cy_addSection packet_count sect rep_rate c =
     (let desc = \<lparr>sd_section = sect, sd_repetition = rep_rate, sd_last_packet = 0, sd_due_packet = 0, sd_last_cycle = 0\<rparr>;
          c1 = (if rep_rate = 0 \<or> cy_bitrate c = 0
                then c\<lparr>cy_other := cy_other c @ [desc]\<rparr>
                else c\<lparr>cy_sched := addScheduledSection (desc\<lparr>sd_due_packet := packet_count\<rparr>) (cy_sched c),
                       cy_sched_packets := cy_sched_packets c + of_nat (section_packetCount sect)\<rparr>)
      in c1\<lparr>cy_section_count := cy_section_count c1 + 1, cy_remain := cy_remain c1 + 1\<rparr>)"

definition on_provider :: "(PacketCounter \<Rightarrow> Cycling \<Rightarrow> Cycling) \<Rightarrow> CyclingPacketizer \<Rightarrow> CyclingPacketizer" where
  "on_provider f p = p\<lparr>pz_prov := f (pz_packet_count p) (pz_prov p)\<rparr>"

definition cyc_addSection :: "Section \<Rightarrow> MilliSecond \<Rightarrow> CyclingPacketizer \<Rightarrow> CyclingPacketizer" where
  "cyc_addSection sect rep_rate = on_provider (\<lambda>n. cy_addSection n sect rep_rate)"

definition cyc_addSections :: "Section list \<Rightarrow> MilliSecond \<Rightarrow> CyclingPacketizer \<Rightarrow> CyclingPacketizer" where
  "cyc_addSections sects rep_rate p = fold (\<lambda>s. cyc_addSection s rep_rate) sects p"

text \<open>A table with a missing section has a null pointer there, which the code would
  dereference when the section is provided: \<^const>\<open>None\<close>.\<close>

definition cyc_addTable :: "BinaryTable \<Rightarrow> MilliSecond \<Rightarrow> CyclingPacketizer \<Rightarrow> CyclingPacketizer option" where
  "cyc_addTable table rep_rate p =
     (if None \<in> set (tb_sections table) then None
      else Some (cyc_addSections (present (tb_sections table)) rep_rate p))"

text \<open>Removal from one of the two lists, element by element.\<close>

fun cy_removeList :: "(Section \<Rightarrow> bool) \<Rightarrow> bool \<Rightarrow> SectionDesc list \<Rightarrow> Cycling \<Rightarrow> SectionDesc list \<times> Cycling" where
  "cy_removeList match scheduled [] c = ([], c)"
| "cy_removeList match scheduled (d # ds) c =
     (if match (sd_section d) then
        cy_removeList match scheduled ds
          (c\<lparr>cy_section_count := cy_section_count c - 1,
             cy_remain := (if sd_last_cycle d \<noteq> cy_current_cycle c then cy_remain c - 1 else cy_remain c),
             cy_sched_packets := (if scheduled then cy_sched_packets c - sd_packets d else cy_sched_packets c)\<rparr>)
      else (case cy_removeList match scheduled ds c of (ds', c') \<Rightarrow> (d # ds', c')))"

definition cy_removeSections :: "byte \<Rightarrow> u16 option \<Rightarrow> Cycling \<Rightarrow> Cycling" where
  "cy_removeSections tid tid_ext c =
     (let match = (\<lambda>s. tableId s = tid \<and> (case tid_ext of None \<Rightarrow> True | Some x \<Rightarrow> tableIdExtension s = x));
          (sched, c1) = cy_removeList match True (cy_sched c) c;
          (other, c2) = cy_removeList match False (cy_other c1) (c1\<lparr>cy_sched := sched\<rparr>)
      in c2\<lparr>cy_other := other\<rparr>)"

definition cy_removeAll :: "Cycling \<Rightarrow> Cycling" where
  "cy_removeAll c = c\<lparr>cy_section_count := 0, cy_remain := 0, cy_sched_packets := 0, cy_sched := [], cy_other := []\<rparr>"

definition cyc_reset :: "CyclingPacketizer \<Rightarrow> CyclingPacketizer" where
  "cyc_reset p = Packetizer_reset (p\<lparr>pz_prov := cy_removeAll (pz_prov p)\<rparr>)"

fun cy_reschedule :: "PacketCounter \<Rightarrow> SectionDesc list \<Rightarrow> Cycling \<Rightarrow> SectionDesc list \<times> Cycling" where
  "cy_reschedule current_packet [] c = ([], c)"
| "cy_reschedule current_packet (d # ds) c =
     (if sd_repetition d = 0 then (case cy_reschedule current_packet ds c of (ds', c') \<Rightarrow> (d # ds', c'))
      else
        let d' = (if sd_due_packet d < current_packet then d\<lparr>sd_due_packet := current_packet\<rparr> else d)
        in cy_reschedule current_packet ds
             (c\<lparr>cy_sched := addScheduledSection d' (cy_sched c), cy_sched_packets := cy_sched_packets c + sd_packets d'\<rparr>))"

definition cy_setBitRate :: "BitRate \<Rightarrow> PacketCounter \<Rightarrow> Cycling \<Rightarrow> Cycling" where
  "cy_setBitRate new_bitrate packet_count c =
     (if cy_bitrate c = new_bitrate then c
      else
        (if new_bitrate = 0 then c\<lparr>cy_other := cy_other c @ cy_sched c, cy_sched := [], cy_sched_packets := 0\<rparr>
         else if cy_bitrate c = 0 then
           (case cy_reschedule packet_count (cy_other c) c of (other, c') \<Rightarrow> c'\<lparr>cy_other := other\<rparr>)
         else
           c\<lparr>cy_sched := fold (\<lambda>d. addScheduledSection
                (d\<lparr>sd_due_packet := sd_last_packet d + PacketDistance new_bitrate (sd_repetition d)\<rparr>))
                (rev (cy_sched c)) []\<rparr>)\<lparr>cy_bitrate := new_bitrate\<rparr>)"

text \<open>The accounting of the cycle for the section that is provided (lines 337 to 347).\<close>

definition cy_account :: "SectionCounter \<Rightarrow> SectionDesc \<Rightarrow> Cycling \<Rightarrow> Cycling" where
  "cy_account counter sp c =
     (if sd_last_cycle sp \<noteq> cy_current_cycle c then
        (if cy_remain c - 1 = 0
         then c\<lparr>cy_remain := cy_section_count c, cy_cycle_end := counter, cy_current_cycle := cy_current_cycle c + 1\<rparr>
         else c\<lparr>cy_remain := cy_remain c - 1\<rparr>)
      else c)"

definition cy_sent :: "PacketCounter \<Rightarrow> SectionCounter \<Rightarrow> SectionDesc \<Rightarrow> SectionDesc" where
  "cy_sent current_packet cycle sp = sp\<lparr>sd_last_packet := current_packet, sd_last_cycle := cycle\<rparr>"

definition cy_force_unscheduled :: "PacketCounter \<Rightarrow> Cycling \<Rightarrow> bool" where
  "cy_force_unscheduled current_packet c =
     (cy_other c \<noteq> [] \<and> cy_sched c \<noteq> [] \<and>
      (let spp = List.last (cy_other c)
       in sd_last_cycle spp \<noteq> cy_current_cycle c \<or>
          sd_last_packet spp + sd_packets spp + cy_sched_packets c < current_packet))"

definition cy_provideSection :: "SectionCounter \<Rightarrow> PacketCounter \<Rightarrow> Cycling \<Rightarrow> Section option \<times> Cycling" where
  "cy_provideSection counter current_packet c0 =
     (let c = c0\<lparr>cy_cycle_end := UNDEFINED\<rparr>
      in if \<not> cy_force_unscheduled current_packet c \<and> cy_sched c \<noteq> [] \<and> sd_due_packet (hd (cy_sched c)) \<le> current_packet
         then
           let sp = hd (cy_sched c);
               due = current_packet + max 1 (PacketDistance (cy_bitrate c) (sd_repetition sp));
               sp' = (cy_sent current_packet (cy_current_cycle c) sp)\<lparr>sd_due_packet := due\<rparr>
           in (Some (sd_section sp), cy_account counter sp (c\<lparr>cy_sched := addScheduledSection sp' (tl (cy_sched c))\<rparr>))
         else if cy_other c \<noteq> []
         then
           let sp = hd (cy_other c)
           in (Some (sd_section sp),
               cy_account counter sp (c\<lparr>cy_other := tl (cy_other c) @ [cy_sent current_packet (cy_current_cycle c) sp]\<rparr>))
         else (None, c))"

definition cy_doStuffing :: "Cycling \<Rightarrow> bool" where
  "cy_doStuffing c =
     (cy_section_count c = 0 \<or> cy_stuffing c = ALWAYS \<or>
      (cy_stuffing c = AT_END \<and> cy_remain c = cy_section_count c))"

definition cycling_ops :: "Cycling Provider" where
  "cycling_ops = \<lparr>pv_provide = cy_provideSection, pv_stuffing = cy_doStuffing\<rparr>"

definition cyc_getNextPacket :: "CyclingPacketizer \<Rightarrow> (bool \<times> TSPacket \<times> CyclingPacketizer) option" where
  "cyc_getNextPacket p = getNextPacket (Some cycling_ops) p"

definition atCycleBoundary :: "CyclingPacketizer \<Rightarrow> bool" where
  "atCycleBoundary p =
     (atSectionBoundary p \<and> cy_cycle_end (pz_prov p) \<noteq> UNDEFINED \<and> cy_cycle_end (pz_prov p) + 1 = pz_out_count p)"

section \<open>One-shot packetizer\<close>

text \<open>The loop may not end (see \<open>remove_stalls_cycle\<close> below): \<^const>\<open>None\<close> is a loop that does not
  return, or the null dereference of \<^const>\<open>pz_fill\<close>.\<close>

partial_function (option) getPackets_loop ::
  "TSPacket list \<Rightarrow> CyclingPacketizer \<Rightarrow> (TSPacket list \<times> CyclingPacketizer) option" where
  "getPackets_loop packets p =
     (case cyc_getNextPacket p of
        None \<Rightarrow> None
      | Some (ok, pkt, p') \<Rightarrow>
          if atCycleBoundary p' then Some (packets @ [pkt], p') else getPackets_loop (packets @ [pkt]) p')"

definition getPackets :: "CyclingPacketizer \<Rightarrow> (TSPacket list \<times> CyclingPacketizer) option" where
  "getPackets p = (if cy_section_count (pz_prov p) > 0 then getPackets_loop [] p else Some ([], p))"

section \<open>Invariant of the cycling packetizer\<close>

definition unsent :: "SectionCounter \<Rightarrow> SectionDesc list \<Rightarrow> nat" where
  "unsent cycle ds = length (filter (\<lambda>d. sd_last_cycle d \<noteq> cycle) ds)"

definition packets_of :: "SectionDesc list \<Rightarrow> PacketCounter" where
  "packets_of ds = sum_list (map sd_packets ds)"

definition cy_stored :: "Cycling \<Rightarrow> Section set" where
  "cy_stored c = sd_section ` (set (cy_sched c) \<union> set (cy_other c))"

definition cy_inv :: "Cycling \<Rightarrow> bool" where
  "cy_inv c = (cy_section_count c = length (cy_sched c) + length (cy_other c) \<and>
     cy_remain c = unsent (cy_current_cycle c) (cy_sched c) + unsent (cy_current_cycle c) (cy_other c) \<and>
     sorted (map sd_due_packet (cy_sched c)) \<and>
     cy_sched_packets c = packets_of (cy_sched c))"

lemma unsent_simps [simp]:
  "unsent n [] = 0" "unsent n (d # ds) = (if sd_last_cycle d \<noteq> n then 1 else 0) + unsent n ds"
  "unsent n (xs @ ys) = unsent n xs + unsent n ys"
  by (simp_all add: unsent_def)

lemma packets_of_simps [simp]:
  "packets_of [] = 0" "packets_of (d # ds) = sd_packets d + packets_of ds"
  "packets_of (xs @ ys) = packets_of xs + packets_of ys"
  by (simp_all add: packets_of_def)

lemma sd_packets_simps [simp]:
  "sd_packets (d\<lparr>sd_due_packet := x\<rparr>) = sd_packets d" "sd_packets (cy_sent p n d) = sd_packets d"
  "sd_section (cy_sent p n d) = sd_section d" "sd_last_cycle (cy_sent p n d) = n"
  "sd_due_packet (cy_sent p n d) = sd_due_packet d"
  by (simp_all add: sd_packets_def cy_sent_def)

lemma addScheduled_facts [simp]:
  "set (addScheduledSection d es) = insert d (set es)"
  "length (addScheduledSection d es) = length es + 1"
  "unsent n (addScheduledSection d es) = unsent n (d # es)"
  "packets_of (addScheduledSection d es) = packets_of (d # es)"
  by (induction d es rule: addScheduledSection.induct) auto

lemma addScheduled_sorted:
  "sorted (map sd_due_packet es) \<Longrightarrow> sorted (map sd_due_packet (addScheduledSection d es))"
proof (induction d es rule: addScheduledSection.induct)
  case (2 d e es)
  then show ?case by (fastforce simp: not_less)
qed simp

text \<open>All sections were sent in the cycle: none was in the next one.\<close>

lemma unsent_next: "unsent n ds = 0 \<Longrightarrow> m \<noteq> n \<Longrightarrow> unsent m ds = length ds"
  by (induction ds) auto

lemma cy_account_inv:
  assumes "cy_section_count c = length (cy_sched c) + length (cy_other c)"
    and "cy_remain c = unsent (cy_current_cycle c) (cy_sched c) + unsent (cy_current_cycle c) (cy_other c) +
      (if sd_last_cycle sp \<noteq> cy_current_cycle c then 1 else 0)"
    and "sorted (map sd_due_packet (cy_sched c))" and "cy_sched_packets c = packets_of (cy_sched c)"
  shows "cy_inv (cy_account counter sp c) \<and> cy_stored (cy_account counter sp c) = cy_stored c \<and>
    cy_section_count (cy_account counter sp c) = cy_section_count c"
proof -
  have ne: "cy_current_cycle c + 1 \<noteq> cy_current_cycle c" by simp
  consider "sd_last_cycle sp = cy_current_cycle c" | "sd_last_cycle sp \<noteq> cy_current_cycle c" "cy_remain c - 1 = 0"
    | "sd_last_cycle sp \<noteq> cy_current_cycle c" "cy_remain c - 1 \<noteq> 0" by blast
  then show ?thesis
  proof cases
    case 2
    then have "unsent (cy_current_cycle c) (cy_sched c) = 0" "unsent (cy_current_cycle c) (cy_other c) = 0"
      using assms(2) by simp_all
    then show ?thesis using 2 assms(1,3,4)
      by (simp add: cy_account_def cy_inv_def cy_stored_def unsent_next [OF _ ne])
  next
    case 3
    then have "cy_account counter sp c = c\<lparr>cy_remain := cy_remain c - 1\<rparr>" by (simp add: cy_account_def)
    then show ?thesis using 3 assms by (simp add: cy_inv_def cy_stored_def)
  qed (use assms in \<open>simp add: cy_account_def cy_inv_def cy_stored_def\<close>)
qed

lemma cy_provide_inv:
  assumes inv: "cy_inv c"
  shows "case cy_provideSection counter pk c of (r, c') \<Rightarrow> cy_inv c' \<and> cy_stored c' = cy_stored c \<and>
    cy_section_count c' = cy_section_count c \<and>
    (case r of None \<Rightarrow> cy_other c = [] | Some s \<Rightarrow> s \<in> cy_stored c)"
proof -
  let ?c = "c\<lparr>cy_cycle_end := UNDEFINED\<rparr>"
  consider (sched) "\<not> cy_force_unscheduled pk ?c \<and> cy_sched ?c \<noteq> [] \<and> sd_due_packet (hd (cy_sched ?c)) \<le> pk"
    | (other) "\<not> (\<not> cy_force_unscheduled pk ?c \<and> cy_sched ?c \<noteq> [] \<and> sd_due_packet (hd (cy_sched ?c)) \<le> pk)" "cy_other ?c \<noteq> []"
    | (none) "\<not> (\<not> cy_force_unscheduled pk ?c \<and> cy_sched ?c \<noteq> [] \<and> sd_due_packet (hd (cy_sched ?c)) \<le> pk)" "cy_other ?c = []"
    by blast
  then show ?thesis
  proof cases
    case sched
    then obtain sp ss where s: "cy_sched c = sp # ss" by (cases "cy_sched c") auto
    define sp' where "sp' = (cy_sent pk (cy_current_cycle c) sp)\<lparr>sd_due_packet :=
      pk + max 1 (PacketDistance (cy_bitrate c) (sd_repetition sp))\<rparr>"
    have f: "sd_section sp' = sd_section sp" "sd_last_cycle sp' = cy_current_cycle c" "sd_packets sp' = sd_packets sp"
      by (simp_all add: sp'_def)
    have e: "cy_provideSection counter pk c = (Some (sd_section sp), cy_account counter sp (?c\<lparr>cy_sched := addScheduledSection sp' ss\<rparr>))"
      using sched s by (simp add: cy_provideSection_def Let_def sp'_def)
    have "cy_stored (?c\<lparr>cy_sched := addScheduledSection sp' ss\<rparr>) = cy_stored c"
      using s f by (auto simp: cy_stored_def)
    moreover have "sd_section sp \<in> cy_stored c" using s by (simp add: cy_stored_def)
    ultimately show ?thesis unfolding e
      using cy_account_inv [of "?c\<lparr>cy_sched := addScheduledSection sp' ss\<rparr>" sp counter] inv s f
      by (simp add: cy_inv_def addScheduled_sorted)
  next
    case other
    then obtain sp ss where s: "cy_other c = sp # ss" by (cases "cy_other c") auto
    let ?sp = "cy_sent pk (cy_current_cycle c) sp"
    have e: "cy_provideSection counter pk c = (Some (sd_section sp), cy_account counter sp (?c\<lparr>cy_other := ss @ [?sp]\<rparr>))"
      unfolding cy_provideSection_def Let_def if_not_P [OF other(1)] using s by simp
    have "cy_stored (?c\<lparr>cy_other := ss @ [?sp]\<rparr>) = cy_stored c"
      using s by (auto simp: cy_stored_def)
    moreover have "sd_section sp \<in> cy_stored c" using s by (simp add: cy_stored_def)
    ultimately show ?thesis unfolding e
      using cy_account_inv [of "?c\<lparr>cy_other := ss @ [?sp]\<rparr>" sp counter] inv s
      by (simp add: cy_inv_def)
  next
    case none
    then have "cy_provideSection counter pk c = (None, ?c)" by (auto simp: cy_provideSection_def Let_def)
    then show ?thesis using inv none by (simp add: cy_inv_def cy_stored_def)
  qed
qed

lemma cy_inv_new: "cy_inv (Cycling_new st br)"
  by (simp add: cy_inv_def Cycling_new_def)

lemma cy_add_inv:
  assumes "cy_inv c" and "cy_current_cycle c \<noteq> 0"
  shows "cy_inv (cy_addSection n s r c)" and "cy_stored (cy_addSection n s r c) = insert s (cy_stored c)"
    and "cy_current_cycle (cy_addSection n s r c) = cy_current_cycle c"
    and "cy_section_count (cy_addSection n s r c) = cy_section_count c + 1"
  using assms by (auto simp: cy_addSection_def Let_def cy_inv_def cy_stored_def addScheduled_sorted sd_packets_def)

lemma cy_removeList_facts:
  assumes "cy_removeList match scheduled ds c = (ds', c')"
  shows "ds' = filter (\<lambda>d. \<not> match (sd_section d)) ds \<and>
    c' = c\<lparr>cy_section_count := cy_section_count c - length (filter (\<lambda>d. match (sd_section d)) ds),
      cy_remain := cy_remain c - unsent (cy_current_cycle c) (filter (\<lambda>d. match (sd_section d)) ds),
      cy_sched_packets := (if scheduled then cy_sched_packets c - packets_of (filter (\<lambda>d. match (sd_section d)) ds)
        else cy_sched_packets c)\<rparr>"
  using assms
proof (induction match scheduled ds c arbitrary: ds' c' rule: cy_removeList.induct)
  case (2 match scheduled d ds c)
  show ?case
  proof (cases "match (sd_section d)")
    case True
    from 2(1) [OF True] 2(3) True show ?thesis by simp
  next
    case False
    obtain e k where r: "cy_removeList match scheduled ds c = (e, k)" by (cases "cy_removeList match scheduled ds c")
    from 2(2) [OF False r] 2(3) False r show ?thesis by auto
  qed
qed auto

lemma filter_split:
  "length (filter P ds) + length (filter (\<lambda>d. \<not> P d) ds) = length (ds :: SectionDesc list)"
  "unsent n (filter P ds) + unsent n (filter (\<lambda>d. \<not> P d) ds) = unsent n ds"
  "packets_of (filter P ds) + packets_of (filter (\<lambda>d. \<not> P d) ds) = packets_of ds"
  by (induction ds) (auto simp: add.assoc add.left_commute)

lemma cy_remove_inv:
  assumes inv: "cy_inv c"
  shows "cy_inv (cy_removeSections tid ext c) \<and>
    cy_stored (cy_removeSections tid ext c) =
      {s \<in> cy_stored c. \<not> (tableId s = tid \<and> (case ext of None \<Rightarrow> True | Some x \<Rightarrow> tableIdExtension s = x))}"
proof -
  define match where "match = (\<lambda>s. tableId s = tid \<and> (case ext of None \<Rightarrow> True | Some x \<Rightarrow> tableIdExtension s = x))"
  obtain sched c1 where r1: "cy_removeList match True (cy_sched c) c = (sched, c1)" by (cases "cy_removeList match True (cy_sched c) c")
  obtain other c2 where r2: "cy_removeList match False (cy_other c1) (c1\<lparr>cy_sched := sched\<rparr>) = (other, c2)"
    by (cases "cy_removeList match False (cy_other c1) (c1\<lparr>cy_sched := sched\<rparr>)")
  have e: "cy_removeSections tid ext c = c2\<lparr>cy_other := other\<rparr>"
    using r1 r2 by (simp add: cy_removeSections_def Let_def match_def)
  let ?m = "\<lambda>d. match (sd_section d)"
  define ms where "ms = filter ?m (cy_sched c)"
  define ns where "ns = filter (\<lambda>d. \<not> ?m d) (cy_sched c)"
  define mo where "mo = filter ?m (cy_other c)"
  define no where "no = filter (\<lambda>d. \<not> ?m d) (cy_other c)"
  note f1 = cy_removeList_facts [OF r1, folded ms_def ns_def]
  then have o1: "cy_other c1 = cy_other c" by simp
  note f2 = cy_removeList_facts [OF r2, unfolded o1, folded mo_def no_def]
  let ?k = "cy_current_cycle c" and ?r = "c2\<lparr>cy_other := other\<rparr>"
  have fields: "cy_section_count ?r = cy_section_count c - length ms - length mo"
      "cy_remain ?r = cy_remain c - unsent ?k ms - unsent ?k mo" "cy_current_cycle ?r = ?k"
      "cy_sched_packets ?r = cy_sched_packets c - packets_of ms" "cy_sched ?r = ns" "cy_other ?r = no"
    using f1 f2 by simp_all
  note sp = filter_split(1) [of ?m "cy_sched c", folded ms_def ns_def]
    filter_split(1) [of ?m "cy_other c", folded mo_def no_def]
  have "length ns + length no = length (cy_sched c) + length (cy_other c) - length ms - length mo"
    using sp by linarith
  moreover have "unsent ?k ns + unsent ?k no = unsent ?k (cy_sched c) + unsent ?k (cy_other c) - unsent ?k ms - unsent ?k mo"
    using filter_split(2) [of ?k ?m "cy_sched c", folded ms_def ns_def]
      filter_split(2) [of ?k ?m "cy_other c", folded mo_def no_def] by linarith
  moreover have "packets_of ns = packets_of (cy_sched c) - packets_of ms"
    using filter_split(3) [of ?m "cy_sched c", folded ms_def ns_def] by (simp add: algebra_simps)
  moreover have "sorted (map sd_due_packet ns)" using inv by (simp add: cy_inv_def sorted_filter ns_def)
  ultimately have "cy_inv ?r" using inv unfolding cy_inv_def fields by simp
  moreover have "cy_stored ?r = {s \<in> cy_stored c. \<not> match s}"
    unfolding cy_stored_def fields ns_def no_def by auto
  ultimately show ?thesis unfolding e match_def by simp
qed

section \<open>What a packetizer needs from its provider\<close>

locale section_provider =
  fixes ops :: "'p Provider"
    and inv :: "'p \<Rightarrow> bool"
    and good :: "Section \<Rightarrow> bool"
  assumes provide_ok: "inv q \<Longrightarrow> pv_provide ops c k q = (r, q') \<Longrightarrow> inv q' \<and> (\<forall>s. r = Some s \<longrightarrow> good s)"
    and good_wf: "good s \<Longrightarrow> wf_section s"
begin

definition pz_ok :: "'p Packetizer \<Rightarrow> bool" where
  "pz_ok p = (inv (pz_prov p) \<and> pz_pid p \<le> 0x1FFF \<and> pz_continuity p \<le> 0x0F \<and>
     (case pz_section p of None \<Rightarrow> pz_next_byte p = 0
      | Some s \<Rightarrow> good s \<and> pz_next_byte p < section_size s))"

lemma good_size: "good s \<Longrightarrow> 3 \<le> section_size s \<and> 3 \<le> headerSize s \<and> headerSize s \<le> section_size s \<and> headerSize s \<le> 8"
  using wf_sectionD [OF good_wf, of s] by (auto simp: section_size_def headerSize_def)

lemma good_pos: "good s \<Longrightarrow> 0 < section_size s"
  using good_size [of s] by linarith

lemma provided:
  assumes "pz_provide ops p = (r, p')" and "inv (pz_prov p)"
  shows "inv (pz_prov p')" and "\<And>s. r = Some s \<Longrightarrow> good s" and "pz_section p' = pz_section p"
    and "pz_next_byte p' = pz_next_byte p" and "pz_pid p' = pz_pid p" and "pz_continuity p' = pz_continuity p"
    and "pz_packet_count p' = pz_packet_count p" and "pz_out_count p' = pz_out_count p"
  using assms provide_ok by (auto simp: pz_provide_def Let_def split: prod.splits)

lemma following:
  assumes "pz_following (Some ops) nxt p = (r, p')" and "inv (pz_prov p)" and "\<And>s. nxt = Some s \<Longrightarrow> good s"
  shows "inv (pz_prov p') \<and> (\<forall>s. r = Some s \<longrightarrow> good s) \<and> pz_next_byte p' = pz_next_byte p \<and>
    pz_pid p' = pz_pid p \<and> pz_continuity p' = pz_continuity p \<and> pz_section p' = pz_section p \<and>
    (r = None \<longrightarrow> nxt = None) \<and> pz_packet_count p' = pz_packet_count p"
  using assms provided [of p] by (auto simp: pz_following_def split: option.splits if_splits)

lemma fill_ok:
  assumes "inv (pz_prov p)" and "good sec" and "pz_next_byte p < section_size sec"
    and "pz_section p = Some sec" and "\<And>s. nxt = Some s \<Longrightarrow> good s"
    and "pz_pid p \<le> 0x1FFF" and "pz_continuity p \<le> 0x0F"
  shows "\<exists>d p'. pz_fill (Some ops) room stuff nxt sec p = Some (d, p') \<and> length d \<le> room \<and> pz_ok p' \<and>
    pz_packet_count p' = pz_packet_count p \<and> pz_pid p' = pz_pid p \<and> pz_continuity p' = pz_continuity p"
  using assms
proof (induction "Some ops" room stuff nxt sec p rule: pz_fill.induct)
  case (1 room stuff nxt sec p)
  let ?r = "section_size sec - pz_next_byte p"
  have r: "0 < ?r" using 1(4) by simp
  have keep: "inv (pz_prov (pz_copied nxt p))" "pz_next_byte (pz_copied nxt p) = 0" "pz_section (pz_copied nxt p) = nxt"
      "pz_pid (pz_copied nxt p) = pz_pid p" "pz_continuity (pz_copied nxt p) = pz_continuity p"
      "pz_packet_count (pz_copied nxt p) = pz_packet_count p"
    using 1(2) by (simp_all add: pz_copied_def)
  have len: "length (drop (pz_next_byte p) (sc_data sec)) = ?r" by (simp add: section_size_def)
  consider "room = 0" | (part) "0 < room" "room < ?r" | (stop) "0 < room" "?r \<le> room" stuff | (go) "0 < room" "?r \<le> room" "\<not> stuff"
    by linarith
  then show ?case
  proof cases
    case part
    then show ?thesis using 1(2-8) r by (subst pz_fill.simps) (simp add: Let_def pz_ok_def)
  next
    case stop
    have "pz_ok (pz_copied nxt p)"
      using 1(6-8) keep good_pos by (auto simp: pz_ok_def split: option.splits)
    moreover have rn: "room \<noteq> 0" using stop by simp
    ultimately show ?thesis using stop r len keep by (subst pz_fill.simps) (simp add: Let_def rn)
  next
    case go
    then have rn: "room \<noteq> 0" by simp
    obtain f p3 where f: "pz_following (Some ops) nxt (pz_copied nxt p) = (f, p3)"
      by (cases "pz_following (Some ops) nxt (pz_copied nxt p)")
    note fo = following [OF f keep(1) 1(6)]
    show ?thesis
    proof (cases f)
      case None
      then have "pz_ok p3" using fo keep 1(7,8) by (simp add: pz_ok_def)
      then show ?thesis using go r f None len fo keep by (subst pz_fill.simps) (simp add: Let_def rn)
    next
      case (Some s)
      let ?p = "p3\<lparr>pz_section := Some s\<rparr>"
      have gs: "good s" using fo Some by simp
      show ?thesis
      proof (cases "room - ?r < headerSize s")
        case True
        have "pz_ok ?p" using fo keep 1(7,8) gs good_size [OF gs] by (simp add: pz_ok_def)
        then show ?thesis using go r f Some True len fo keep by (subst pz_fill.simps) (simp add: Let_def rn)
      next
        case False
        have "\<exists>d p'. pz_fill (Some ops) (room - ?r) False None s ?p = Some (d, p') \<and> length d \<le> room - ?r \<and> pz_ok p' \<and>
            pz_packet_count p' = pz_packet_count ?p \<and> pz_pid p' = pz_pid ?p \<and> pz_continuity p' = pz_continuity ?p"
          using go r False gs good_size [OF gs] fo keep 1(7,8)
          by (intro 1(1) [OF refl refl _ _ _ _ f [symmetric] Some]) auto
        then obtain d p' where "pz_fill (Some ops) (room - ?r) False None s ?p = Some (d, p')" "length d \<le> room - ?r"
            "pz_ok p'" "pz_packet_count p' = pz_packet_count ?p" "pz_pid p' = pz_pid ?p" "pz_continuity p' = pz_continuity ?p"
          by blast
        then show ?thesis using go r f Some False len fo keep
          by (subst pz_fill.simps) (simp add: Let_def rn)
      qed
    qed
  qed (use 1 in \<open>simp add: pz_ok_def pz_fill.simps\<close>)
qed

lemma current_ok:
  assumes "pz_ok p"
  shows "pz_ok (pz_current (Some ops) p) \<and> pz_pid (pz_current (Some ops) p) = pz_pid p \<and>
    pz_continuity (pz_current (Some ops) p) = pz_continuity p \<and>
    pz_packet_count (pz_current (Some ops) p) = pz_packet_count p"
proof (cases "pz_section p")
  case None
  obtain r p' where r: "pz_provide ops p = (r, p')" by (cases "pz_provide ops p")
  have i: "inv (pz_prov p)" using assms by (simp add: pz_ok_def)
  show ?thesis using assms None r provided [OF r i] good_pos
    by (auto simp: pz_current_def pz_ok_def split: option.splits)
qed (use assms in \<open>simp add: pz_current_def\<close>)

lemma lookahead_ok:
  assumes "inv (pz_prov p)" and "pz_lookahead (Some ops) sec p = (stuff, nxt, p')"
  shows "inv (pz_prov p') \<and> (\<forall>s. nxt = Some s \<longrightarrow> good s) \<and> pz_section p' = pz_section p \<and>
    pz_next_byte p' = pz_next_byte p \<and> pz_pid p' = pz_pid p \<and> pz_continuity p' = pz_continuity p \<and>
    pz_packet_count p' = pz_packet_count p \<and>
    (\<not> stuff \<longrightarrow> (\<exists>s. nxt = Some s \<and> section_size sec - pz_next_byte p \<le> 183 - headerSize s))"
proof -
  obtain r q where r: "pz_provide ops p = (r, q)" by (cases "pz_provide ops p")
  show ?thesis using assms(2) r provided [OF r assms(1)] assms(1)
    by (auto simp: pz_lookahead_def Let_def split: if_splits option.splits)
qed

lemma length_pz_header [simp]: "length (pz_header pusi pid cc) = 4"
  by (simp add: pz_header_def Let_def)

lemma getNextPacket_total:
  assumes "pz_ok p"
  shows "\<exists>ok pkt p'. getNextPacket (Some ops) p = Some (ok, pkt, p') \<and> pz_ok p' \<and> length pkt = PKT_SIZE \<and>
    pz_packet_count p' = pz_packet_count p + 1 \<and> pz_pid p' = pz_pid p"
proof -
  let ?p = "p\<lparr>pz_packet_count := pz_packet_count p + 1\<rparr>" and ?c = "pz_current (Some ops) (p\<lparr>pz_packet_count := pz_packet_count p + 1\<rparr>)"
  have p: "pz_ok ?p" using assms by (simp add: pz_ok_def split: option.splits)
  note c = current_ok [OF p]
  show ?thesis
  proof (cases "pz_section ?c")
    case None
    then have "getNextPacket (Some ops) p = Some (False, NullPacket, ?c)" by (simp add: getNextPacket_def)
    then show ?thesis using c by (auto simp: NullPacket_def)
  next
    case (Some sec)
    obtain stuff nxt p1 where la: "pz_lookahead (Some ops) sec ?c = (stuff, nxt, p1)"
      by (cases "pz_lookahead (Some ops) sec ?c") auto
    have ci: "inv (pz_prov ?c)" "good sec" "pz_next_byte ?c < section_size sec" "pz_pid ?c \<le> 0x1FFF"
      using c Some by (auto simp: pz_ok_def)
    note l = lookahead_ok [OF ci(1) la]
    let ?pusi = "pz_next_byte p1 = 0 \<or> \<not> stuff"
    let ?h = "pz_header ?pusi (pz_pid p1) (pz_continuity p1) @ (if ?pusi then
      [if pz_next_byte p1 = 0 then 0x00 else of_nat (section_size sec - pz_next_byte p1)] else [])"
    let ?p2 = "p1\<lparr>pz_continuity := (pz_continuity p1 + 1) AND 0x0F\<rparr>"
    have cc: "(pz_continuity p1 + 1) AND 0x0F \<le> 0x0F" by (rule word_and_le1)
    have "\<exists>d p'. pz_fill (Some ops) (PKT_SIZE - length ?h) stuff nxt sec ?p2 = Some (d, p') \<and>
        length d \<le> PKT_SIZE - length ?h \<and> pz_ok p' \<and> pz_packet_count p' = pz_packet_count ?p2 \<and>
        pz_pid p' = pz_pid ?p2 \<and> pz_continuity p' = pz_continuity ?p2"
      by (rule fill_ok) (use l ci c Some cc in auto)
    then obtain d p3 where f: "pz_fill (Some ops) (PKT_SIZE - length ?h) stuff nxt sec ?p2 = Some (d, p3)"
      and d: "length d \<le> PKT_SIZE - length ?h" and ok: "pz_ok p3" and cnt: "pz_packet_count p3 = pz_packet_count ?p2"
      and pid: "pz_pid p3 = pz_pid ?p2" by blast
    have "length ?h \<le> PKT_SIZE" by simp
    have e: "getNextPacket (Some ops) p = Some (True, ?h @ d @ replicate (PKT_SIZE - length ?h - length d) 0xFF, p3)"
      unfolding getNextPacket_def Let_def Some option.case la prod.case f ..
    show ?thesis unfolding e using ok cnt pid l c d by (auto split: if_splits)
  qed
qed

end

section \<open>The cycling packetizer as a provider\<close>

interpretation cyc: section_provider cycling_ops "\<lambda>c. cy_inv c \<and> (\<forall>s \<in> cy_stored c. wf_section s)" wf_section
proof
  fix q c k r q'
  assume i: "cy_inv q \<and> (\<forall>s \<in> cy_stored q. wf_section s)" and "pv_provide cycling_ops c k q = (r, q')"
  then have p: "cy_provideSection c k q = (r, q')" by (simp add: cycling_ops_def)
  show "(cy_inv q' \<and> (\<forall>s \<in> cy_stored q'. wf_section s)) \<and> (\<forall>s. r = Some s \<longrightarrow> wf_section s)"
    using cy_provide_inv [of q c k] i p by (auto split: option.splits)
qed

section \<open>Bitrate changes\<close>

lemma cy_reschedule_facts:
  assumes "cy_reschedule pk ds c = (ds', c')"
  shows "length ds' + length (cy_sched c') = length ds + length (cy_sched c) \<and>
    (\<forall>n. unsent n ds' + unsent n (cy_sched c') = unsent n ds + unsent n (cy_sched c)) \<and>
    sd_section ` (set ds' \<union> set (cy_sched c')) = sd_section ` (set ds \<union> set (cy_sched c)) \<and>
    (sorted (map sd_due_packet (cy_sched c)) \<longrightarrow> sorted (map sd_due_packet (cy_sched c'))) \<and>
    cy_sched_packets c' - packets_of (cy_sched c') = cy_sched_packets c - packets_of (cy_sched c) \<and>
    cy_section_count c' = cy_section_count c \<and> cy_remain c' = cy_remain c \<and>
    cy_current_cycle c' = cy_current_cycle c \<and> cy_other c' = cy_other c"
  using assms
proof (induction pk ds c arbitrary: ds' c' rule: cy_reschedule.induct)
  case (2 pk d ds c)
  show ?case
  proof (cases "sd_repetition d = 0")
    case True
    obtain e k where r: "cy_reschedule pk ds c = (e, k)" by (cases "cy_reschedule pk ds c")
    have "sd_section ` (set (d # e) \<union> A) = insert (sd_section d) (sd_section ` (set e \<union> A))" for A by auto
    moreover have "sd_section ` (set (d # ds) \<union> A) = insert (sd_section d) (sd_section ` (set ds \<union> A))" for A by auto
    moreover have "ds' = d # e" "c' = k" using 2(3) True r by simp_all
    ultimately show ?thesis using 2(1) [OF True r] by simp
  next
    case False
    define d' where "d' = (if sd_due_packet d < pk then d\<lparr>sd_due_packet := pk\<rparr> else d)"
    have d': "sd_section d' = sd_section d" "sd_last_cycle d' = sd_last_cycle d" by (simp_all add: d'_def)
    let ?c = "c\<lparr>cy_sched := addScheduledSection d' (cy_sched c), cy_sched_packets := cy_sched_packets c + sd_packets d'\<rparr>"
    have r: "cy_reschedule pk ds ?c = (ds', c')" using 2(3) False by (simp add: d'_def Let_def split: if_splits)
    note ih = 2(2) [OF False d'_def r]
    have "sd_section ` (set ds \<union> set (cy_sched ?c)) = sd_section ` (set (d # ds) \<union> set (cy_sched c))"
      using d' by auto
    then show ?thesis using ih d' addScheduled_sorted [of "cy_sched c" d'] by (simp add: algebra_simps)
  qed
qed auto

lemma fold_addScheduled:
  assumes f: "\<And>d. sd_section (f d) = sd_section d \<and> sd_last_cycle (f d) = sd_last_cycle d"
  shows "length (fold (\<lambda>d. addScheduledSection (f d)) ds es) = length ds + length es \<and>
    (\<forall>n. unsent n (fold (\<lambda>d. addScheduledSection (f d)) ds es) = unsent n ds + unsent n es) \<and>
    sd_section ` set (fold (\<lambda>d. addScheduledSection (f d)) ds es) = sd_section ` (set ds \<union> set es) \<and>
    packets_of (fold (\<lambda>d. addScheduledSection (f d)) ds es) = packets_of ds + packets_of es \<and>
    (sorted (map sd_due_packet es) \<longrightarrow> sorted (map sd_due_packet (fold (\<lambda>d. addScheduledSection (f d)) ds es)))"
proof (induction ds arbitrary: es)
  case (Cons d ds)
  have p: "sd_packets (f d) = sd_packets d" using f by (simp add: sd_packets_def)
  show ?case using Cons.IH [of "addScheduledSection (f d) es"] f p addScheduled_sorted [of es "f d"]
    by (auto simp: algebra_simps)
qed auto

lemma cy_setBitRate_inv:
  assumes inv: "cy_inv c"
  shows "cy_inv (cy_setBitRate br pk c) \<and> cy_stored (cy_setBitRate br pk c) = cy_stored c \<and>
    cy_section_count (cy_setBitRate br pk c) = cy_section_count c \<and> cy_remain (cy_setBitRate br pk c) = cy_remain c"
proof -
  consider "cy_bitrate c = br" | "cy_bitrate c \<noteq> br" "br = 0" | (sched) "cy_bitrate c \<noteq> br" "br \<noteq> 0" "cy_bitrate c = 0"
    | (resched) "cy_bitrate c \<noteq> br" "br \<noteq> 0" "cy_bitrate c \<noteq> 0" by blast
  then show ?thesis
  proof cases
    case sched
    obtain ds c' where r: "cy_reschedule pk (cy_other c) c = (ds, c')" by (cases "cy_reschedule pk (cy_other c) c")
    note f = cy_reschedule_facts [OF r]
    let ?r = "c'\<lparr>cy_other := ds, cy_bitrate := br\<rparr>"
    have e: "cy_setBitRate br pk c = ?r" using sched r by (simp add: cy_setBitRate_def)
    have "unsent n (cy_sched c') + unsent n ds = unsent n (cy_sched c) + unsent n (cy_other c)" for n
      using f by (metis add.commute)
    moreover have "cy_sched_packets c' = packets_of (cy_sched c')" using f inv by (simp add: cy_inv_def)
    moreover have "sd_section ` (set (cy_sched c') \<union> set ds) = sd_section ` (set (cy_sched c) \<union> set (cy_other c))"
      using f by (metis Un_commute)
    ultimately show ?thesis unfolding e using inv f by (simp add: cy_inv_def cy_stored_def)
  next
    case resched
    let ?f = "\<lambda>d. d\<lparr>sd_due_packet := sd_last_packet d + PacketDistance br (sd_repetition d)\<rparr>"
    let ?s = "fold (\<lambda>d. addScheduledSection (?f d)) (rev (cy_sched c)) []"
    have e: "cy_setBitRate br pk c = c\<lparr>cy_sched := ?s, cy_bitrate := br\<rparr>" using resched by (simp add: cy_setBitRate_def)
    have rv: "unsent n (rev ds) = unsent n ds" "packets_of (rev ds) = packets_of ds" for n ds
      by (induction ds) auto
    show ?thesis unfolding e
      using inv fold_addScheduled [of ?f "rev (cy_sched c)" "[]"] by (simp add: cy_inv_def cy_stored_def rv image_Un)
  qed (use inv in \<open>auto simp: cy_setBitRate_def cy_inv_def cy_stored_def\<close>)
qed

text \<open>
  C20. Every operation of the cycling packetizer keeps its accounting exact: the number of
  stored sections, the number not yet sent in the current cycle, the order of the scheduled
  list and its size in packets. Adding stores the section, removing removes exactly those
  that match, a bitrate change moves sections between the two lists without losing one, and
  a provided section is a stored one.
\<close>
theorem cycling_accounting:
  assumes "cy_inv c" and "cy_current_cycle c \<noteq> 0"
  shows "cy_inv (cy_addSection pk s rep c) \<and> cy_stored (cy_addSection pk s rep c) = insert s (cy_stored c) \<and>
    cy_inv (cy_removeSections tid ext c) \<and>
    cy_stored (cy_removeSections tid ext c) =
      {x \<in> cy_stored c. \<not> (tableId x = tid \<and> (case ext of None \<Rightarrow> True | Some y \<Rightarrow> tableIdExtension x = y))} \<and>
    cy_inv (cy_setBitRate br pk c) \<and> cy_stored (cy_setBitRate br pk c) = cy_stored c \<and>
    cy_inv (cy_removeAll c) \<and>
    (case cy_provideSection counter pk c of (r, c') \<Rightarrow> cy_inv c' \<and> cy_stored c' = cy_stored c \<and>
       (\<forall>x. r = Some x \<longrightarrow> x \<in> cy_stored c) \<and> (r = None \<longrightarrow> cy_other c = []))"
  using assms cy_add_inv [OF assms] cy_remove_inv [OF assms(1)] cy_setBitRate_inv [OF assms(1)]
    cy_provide_inv [OF assms(1), of counter pk]
  by (auto simp: cy_removeAll_def cy_inv_def split: option.splits)

theorem cycling_accounting_witness:
  "cy_inv (cy_addSection 0 (sample_section 0 0) 1000 (Cycling_new AT_END 1000000))"
  using cycling_accounting [of "Cycling_new AT_END 1000000"] cy_inv_new by (simp add: Cycling_new_def)

section \<open>One cycle of unscheduled sections\<close>

fun cy_provides :: "(SectionCounter \<times> PacketCounter) list \<Rightarrow> Cycling \<Rightarrow> Section option list \<times> Cycling" where
  "cy_provides [] c = ([], c)"
| "cy_provides ((n, pk) # rs) c =
     (case cy_provideSection n pk c of (r, c1) \<Rightarrow> (case cy_provides rs c1 of (ss, c2) \<Rightarrow> (r # ss, c2)))"

lemma cy_provides_mid:
  assumes "cy_sched c = []" and "cy_other c = xs @ ys" and "cy_section_count c = length xs + length ys"
    and "cy_remain c = length xs" and "\<forall>d \<in> set xs. sd_last_cycle d \<noteq> cy_current_cycle c"
    and "\<forall>d \<in> set ys. sd_last_cycle d = cy_current_cycle c"
    and "length rs = length xs" and "xs \<noteq> []"
  shows "case cy_provides rs c of (ss, c') \<Rightarrow>
    ss = map (\<lambda>d. Some (sd_section d)) xs \<and> cy_cycle_end c' = fst (last rs) \<and> cy_sched c' = [] \<and>
    map sd_section (cy_other c') = map sd_section (ys @ xs) \<and>
    cy_remain c' = cy_section_count c \<and> cy_section_count c' = cy_section_count c \<and>
    cy_current_cycle c' = cy_current_cycle c + 1 \<and> cy_inv c' = cy_inv c' \<and>
    (\<forall>d \<in> set (cy_other c'). sd_last_cycle d = cy_current_cycle c)"
  using assms
proof (induction xs arbitrary: c ys rs)
  case (Cons d xs)
  obtain n pk rs' where rs: "rs = (n, pk) # rs'" and l: "length rs' = length xs"
    using Cons.prems(7) by (cases rs) auto
  let ?d = "cy_sent pk (cy_current_cycle c) d"
  let ?c1 = "c\<lparr>cy_cycle_end := UNDEFINED, cy_other := (xs @ ys) @ [?d]\<rparr>"
  have p: "cy_provideSection n pk c = (Some (sd_section d), cy_account n d ?c1)"
    using Cons.prems(1,2) by (simp add: cy_provideSection_def Let_def cy_force_unscheduled_def)
  show ?case
  proof (cases "xs = []")
    case True
    have "cy_account n d ?c1 = ?c1\<lparr>cy_remain := cy_section_count c, cy_cycle_end := n, cy_current_cycle := cy_current_cycle c + 1\<rparr>"
      using Cons.prems(4,5) True by (simp add: cy_account_def)
    then show ?thesis using rs l True p Cons.prems by simp
  next
    case False
    then have a: "cy_account n d ?c1 = ?c1\<lparr>cy_remain := length xs\<rparr>"
      using Cons.prems(4,5) by (simp add: cy_account_def)
    have ne: "rs' \<noteq> []" using l False by auto
    from Cons.IH [of "?c1\<lparr>cy_remain := length xs\<rparr>" "ys @ [?d]" rs'] Cons.prems l False
    show ?thesis unfolding rs using p a ne by (simp add: case_prod_beta)
  qed
qed simp

lemma unsent_all: "unsent n ds = length ds \<Longrightarrow> d \<in> set ds \<Longrightarrow> sd_last_cycle d \<noteq> n"
proof (induction ds)
  case (Cons e ds)
  have "unsent n ds \<le> length ds" by (simp add: unsent_def)
  then show ?case using Cons by (auto split: if_splits)
qed simp

text \<open>
  C27. With unscheduled sections only, one cycle is one pass over the stored sections in their
  order: at the start of a cycle, as many calls as there are sections provide each of them
  once, the last call closes the cycle (its counter is recorded) and the packetizer is at
  the start of the next cycle, with the same sections in the same order.
\<close>
theorem cycling_one_pass:
  assumes "cy_inv c" and "cy_sched c = []" and "cy_remain c = cy_section_count c" and "cy_section_count c > 0"
    and "length rs = cy_section_count c"
  shows "case cy_provides rs c of (ss, c') \<Rightarrow>
    ss = map Some (map sd_section (cy_other c)) \<and> cy_cycle_end c' = fst (last rs) \<and> cy_sched c' = [] \<and>
    map sd_section (cy_other c') = map sd_section (cy_other c) \<and>
    cy_remain c' = cy_section_count c' \<and> cy_section_count c' = cy_section_count c"
proof -
  have "\<forall>d \<in> set (cy_other c). sd_last_cycle d \<noteq> cy_current_cycle c"
  proof -
    have "unsent (cy_current_cycle c) (cy_other c) = length (cy_other c)"
      using assms(1-3) by (simp add: cy_inv_def)
    then show ?thesis using unsent_all by blast
  qed
  with cy_provides_mid [of c "cy_other c" "[]" rs] assms
  show ?thesis by (simp add: cy_inv_def case_prod_beta)
qed

lemma cy_inv_sample: "cy_inv (cy_addSection 0 (sample_section 1 1) 0 (cy_addSection 0 (sample_section 0 1) 0 (Cycling_new AT_END 0)))"
  using cy_inv_new [of AT_END 0] cy_add_inv(1,3) [of "Cycling_new AT_END 0" 0 "sample_section 0 1" 0]
    cy_add_inv(1) [of "cy_addSection 0 (sample_section 0 1) 0 (Cycling_new AT_END 0)" 0 "sample_section 1 1" 0]
  by (simp add: Cycling_new_def)

theorem cycling_one_pass_witness:
  "fst (cy_provides [(0, 0), (1, 0)]
     (cy_addSection 0 (sample_section 1 1) 0 (cy_addSection 0 (sample_section 0 1) 0 (Cycling_new AT_END 0)))) =
   [Some (sample_section 0 1), Some (sample_section 1 1)]"
  using cycling_one_pass [OF cy_inv_sample, of "[(0, 0), (1, 0)]"]
  by (simp add: cy_addSection_def Cycling_new_def case_prod_beta)

section \<open>Removal inside a cycle\<close>

definition stalled :: "Cycling \<Rightarrow> bool" where
  "stalled c = (cy_inv c \<and> cy_section_count c > 0 \<and> cy_remain c = 0 \<and> cy_cycle_end c = UNDEFINED)"

lemma unsent_zero: "unsent n ds = 0 \<Longrightarrow> d \<in> set ds \<Longrightarrow> sd_last_cycle d = n"
  by (induction ds) (auto split: if_splits)

lemma provide_stalled:
  assumes "stalled c"
  shows "stalled (snd (cy_provideSection n pk c))"
proof -
  have u: "unsent (cy_current_cycle c) (cy_sched c) = 0" "unsent (cy_current_cycle c) (cy_other c) = 0"
    using assms by (simp_all add: stalled_def cy_inv_def)
  have "cy_inv (snd (cy_provideSection n pk c))" "cy_section_count (snd (cy_provideSection n pk c)) = cy_section_count c"
    using cy_provide_inv [of c n pk] assms by (auto simp: stalled_def split: prod.splits)
  moreover have "cy_remain (snd (cy_provideSection n pk c)) = 0 \<and> cy_cycle_end (snd (cy_provideSection n pk c)) = UNDEFINED"
  proof -
    have "sd_last_cycle (hd (cy_sched c)) = cy_current_cycle c" if "cy_sched c \<noteq> []"
      using unsent_zero [OF u(1)] that by simp
    moreover have "sd_last_cycle (hd (cy_other c)) = cy_current_cycle c" if "cy_other c \<noteq> []"
      using unsent_zero [OF u(2)] that by simp
    ultimately show ?thesis using assms
      by (simp add: cy_provideSection_def Let_def cy_account_def stalled_def)
  qed
  ultimately show ?thesis using assms by (simp add: stalled_def)
qed

interpretation stall: section_provider cycling_ops "\<lambda>c. stalled c \<and> (\<forall>s \<in> cy_stored c. wf_section s)" wf_section
proof
  fix q c k r q'
  assume i: "stalled q \<and> (\<forall>s \<in> cy_stored q. wf_section s)" and "pv_provide cycling_ops c k q = (r, q')"
  then have p: "cy_provideSection c k q = (r, q')" by (simp add: cycling_ops_def)
  show "(stalled q' \<and> (\<forall>s \<in> cy_stored q'. wf_section s)) \<and> (\<forall>s. r = Some s \<longrightarrow> wf_section s)"
    using cy_provide_inv [of q c k] provide_stalled [of q c k] i p by (auto simp: stalled_def split: option.splits)
qed

lemma getPackets_loop_stalled:
  assumes "getPackets_loop pkts p = Some r"
  shows "\<not> stall.pz_ok p"
proof (rule getPackets_loop.raw_induct [where P = "\<lambda>pkts p r. \<not> stall.pz_ok p", OF _ assms])
  fix f pkts p r
  assume ih: "\<And>pkts p r. f pkts p = Some r \<Longrightarrow> \<not> stall.pz_ok p"
    and step: "(case cyc_getNextPacket p of None \<Rightarrow> None
      | Some (ok, pkt, p') \<Rightarrow> if atCycleBoundary p' then Some (pkts @ [pkt], p') else f (pkts @ [pkt]) p') = Some r"
  show "\<not> stall.pz_ok p"
  proof
    assume "stall.pz_ok p"
    from stall.getNextPacket_total [OF this]
    obtain ok pkt p' where g: "cyc_getNextPacket p = Some (ok, pkt, p')" and p': "stall.pz_ok p'"
      by (auto simp: cyc_getNextPacket_def)
    have "stalled (pz_prov p')" using p' unfolding stall.pz_ok_def by blast
    then have "\<not> atCycleBoundary p'" by (simp add: atCycleBoundary_def stalled_def)
    then show False using ih step g p' by auto
  qed
qed


text \<open>A cycle of two sections: the first is provided, the second is then removed.\<close>

definition sample_short :: Section where
  "sample_short = reload_short 0x70 True [1, 2, 3] 0x14"

lemma sample_short_facts: "wf_section sample_short \<and> tableId sample_short = 0x70"
  using reload_short_facts [of "[1, 2, 3]" "0x70" True "0x14"] by (simp add: sample_short_def Let_def)

definition sample_stall :: Cycling where
  "sample_stall = cy_removeSections 0x70 None (snd (cy_provideSection 0 1
     (cy_addSection 0 sample_short 0 (cy_addSection 0 (sample_section 0 0) 0 (Cycling_new AT_END 0)))))"

lemma sample_stall_facts: "stalled sample_stall \<and> cy_stored sample_stall = {sample_section 0 0}"
proof -
  note f = sample_short_facts sample_section_facts [of 0 0]
  have "sample_stall = (Cycling_new AT_END 0)\<lparr>cy_section_count := 1, cy_remain := 0, cy_other :=
      [\<lparr>sd_section = sample_section 0 0, sd_repetition = 0, sd_last_packet = 1, sd_due_packet = 0, sd_last_cycle = 1\<rparr>]\<rparr>"
    using f by (simp add: sample_stall_def cy_addSection_def Cycling_new_def cy_provideSection_def
        cy_force_unscheduled_def cy_account_def cy_sent_def cy_removeSections_def Let_def)
  note eq = this
  show ?thesis unfolding eq by (simp add: stalled_def cy_inv_def Cycling_new_def cy_stored_def)
qed


text \<open>
  A scheduled section is inserted before the sections with the same due packet, not after
  them: two sections that are due at the same packet are provided in the reverse order of
  their insertion (the comment on the function states the opposite).
\<close>
theorem addScheduled_before_equals:
  assumes "sorted (map sd_due_packet es)"
  shows "\<exists>xs ys. addScheduledSection d es = xs @ d # ys \<and> es = xs @ ys \<and>
    (\<forall>e \<in> set xs. sd_due_packet e < sd_due_packet d) \<and> (\<forall>e \<in> set ys. sd_due_packet d \<le> sd_due_packet e)"
  using assms
proof (induction d es rule: addScheduledSection.induct)
  case (2 d e es)
  show ?case
  proof (cases "sd_due_packet e < sd_due_packet d")
    case True
    then obtain xs ys where "addScheduledSection d es = xs @ d # ys" "es = xs @ ys"
        "\<forall>e \<in> set xs. sd_due_packet e < sd_due_packet d" "\<forall>e \<in> set ys. sd_due_packet d \<le> sd_due_packet e"
      using 2 by auto
    then show ?thesis using True by (intro exI [of _ "e # xs"] exI [of _ ys]) auto
  next
    case False
    then show ?thesis using 2(2) by (intro exI [of _ "[]"] exI [of _ "e # es"]) fastforce
  qed
qed simp

definition sample_desc :: "Section \<Rightarrow> SectionDesc" where
  "sample_desc s = \<lparr>sd_section = s, sd_repetition = 1, sd_last_packet = 0, sd_due_packet = 5, sd_last_cycle = 0\<rparr>"

theorem addScheduled_before_equals_witness:
  "\<exists>xs ys. addScheduledSection (sample_desc sample_short) [sample_desc (sample_section 0 0)] = xs @ sample_desc sample_short # ys \<and>
     [sample_desc (sample_section 0 0)] = xs @ ys \<and> (\<forall>e \<in> set xs. sd_due_packet e < 5)"
  using addScheduled_before_equals [of "[sample_desc (sample_section 0 0)]" "sample_desc sample_short"]
  by (force simp: sample_desc_def)

end
