(* ===== verification/Ts_Transport.thy ===== *)
theory Ts_Transport
  imports Ts_Demux Ts_Packetizer
begin


text \<open>
  From the packetizer to the demultiplexer: what \<open>Packetizer::getNextPacket\<close> produces, fed to
  \<open>SectionDemux::feedPacket\<close>, gives the provided sections back, each once and in order. The
  relation between the two states is kept packet by packet, for any provider of sections
  that can be transported and any stuffing policy.
\<close>

section \<open>Sections that can be transported\<close>

text \<open>A section in a packet is not told from stuffing when its table id is 0xFF, nor from a PES
  packet when its first bytes are 00 01; a demultiplexer drops the sections that are not
  yet current. Sections of one version of one table agree on the last section number.\<close>

definition transportable :: "Section \<Rightarrow> bool" where
  "transportable s = (wf_section s \<and> crc_section s \<and> tableId s \<noteq> 0xFF \<and>
     \<not> (sc_data s ! 0 = 0 \<and> sc_data s ! 1 = 1) \<and> (isLongSection s \<longrightarrow> isCurrent s))"

definition consistent :: "Section set \<Rightarrow> bool" where
  "consistent S = (\<forall>s \<in> S. \<forall>t \<in> S. section_etid s = section_etid t \<and> version_of s = version_of t \<longrightarrow>
     lastSectionNumber s = lastSectionNumber t)"

definition tids_ok :: "Section set \<Rightarrow> (ETID \<times> ETIDContext) list \<Rightarrow> bool" where
  "tids_ok S tids = (\<forall>etid tc. omap_get tids etid = Some tc \<longrightarrow>
     (\<forall>s \<in> S. section_etid s = etid \<and> version_of s = et_version tc \<and> et_expected tc \<noteq> 0 \<longrightarrow>
        unat (lastSectionNumber s) + 1 = et_expected tc))"

definition sections_of :: "DemuxEvent list \<Rightarrow> byte list list" where
  "sections_of es = List.map_filter (\<lambda>e. case e of EvSection s \<Rightarrow> Some (sc_data s) | EvTable _ \<Rightarrow> None) es"

lemma sections_of_simps [simp]:
  "sections_of [] = []" "sections_of (EvSection s # es) = sc_data s # sections_of es"
  "sections_of (EvTable t # es) = sections_of es"
  by (simp_all add: sections_of_def List.map_filter_simps)

lemma sections_of_append [simp]: "sections_of (es @ fs) = sections_of es @ sections_of fs"
proof (induction es)
  case (Cons e es)
  then show ?case by (cases e) simp_all
qed simp

section \<open>A demultiplexer whose handlers only listen\<close>

abbreviation listen :: handler where "listen \<equiv> (\<lambda>_. [])"

lemma call_listen: "call_handler listen e dm = dm\<lparr>dm_events := dm_events dm @ [e]\<rparr>"
  by (simp add: call_handler_def Let_def)

lemma notify_listen:
  "\<exists>es tc'. ETIDContext_notify listen force (dm, tc) = (dm\<lparr>dm_events := dm_events dm @ es\<rparr>, tc') \<and>
     sections_of es = [] \<and> et_version tc' = et_version tc \<and> et_expected tc' = et_expected tc"
proof -
  let ?t = "notify_table (et_sects tc) force"
  consider "\<not> et_notified tc \<and> (et_received tc = et_expected tc \<or> force) \<and> dm_table_handler dm" "tb_valid ?t"
    | "\<not> et_notified tc \<and> (et_received tc = et_expected tc \<or> force) \<and> dm_table_handler dm" "\<not> tb_valid ?t"
    | "\<not> (\<not> et_notified tc \<and> (et_received tc = et_expected tc \<or> force) \<and> dm_table_handler dm)" by blast
  then show ?thesis
  proof cases
    case 1
    then show ?thesis by (intro exI [of _ "[EvTable ?t]"]) (auto simp: ETIDContext_notify_def Let_def call_listen)
  next
    case 2
    then show ?thesis by (intro exI [of _ "[]"]) (auto simp: ETIDContext_notify_def Let_def)
  next
    case 3
    then have "ETIDContext_notify listen force (dm, tc) = (dm, tc)" by (auto simp: ETIDContext_notify_def)
    then show ?thesis by (intro exI [of _ "[]"]) simp
  qed
qed

lemma after_listen:
  "dm_reset_pending dm = False \<Longrightarrow> dm_pid_reset_pending dm = False \<Longrightarrow>
   afterCallingHandler True dm = (False, dm\<lparr>dm_in_handler := False, dm_pid_in_handler := PID_NULL,
     dm_pid_reset_pending := False, dm_reset_pending := False\<rparr>)"
  by (simp add: afterCallingHandler_def Let_def)

lemma idle_restore:
  "demux_idle dm \<Longrightarrow> (beforeCallingHandler pid dm)\<lparr>dm_events := es, dm_in_handler := False, dm_pid_in_handler := PID_NULL,
     dm_pid_reset_pending := False, dm_reset_pending := False\<rparr> = dm\<lparr>dm_events := es\<rparr>"
  by (cases dm) (simp add: demux_idle_def beforeCallingHandler_def)

lemma deliver_listen:
  assumes idle: "demux_idle dm" and sh: "dm_section_handler dm"
  shows "\<exists>es tc'. demux_deliver listen pid n True sect dm tc =
      (False, dm\<lparr>dm_events := dm_events dm @ EvSection sect # es\<rparr>, tc') \<and>
    sections_of es = [] \<and> et_version tc' = et_version tc \<and> et_expected tc' = et_expected tc"
proof -
  let ?b = "beforeCallingHandler pid dm"
  let ?d4 = "?b\<lparr>dm_events := dm_events dm @ [EvSection sect]\<rparr>"
  have b: "dm_events ?b = dm_events dm" "dm_section_handler ?b = dm_section_handler dm"
      "dm_reset_pending ?b = False" "dm_pid_reset_pending ?b = False"
    by (simp_all add: beforeCallingHandler_def)
  define tcs where "tcs = tc\<lparr>et_sects := (et_sects tc)[n := Some sect], et_received := et_received tc + 1\<rparr>"
  have "\<exists>es tc'. (if et_sects tc ! n = None then ETIDContext_notify listen False (?d4, tcs) else (?d4, tc)) =
      (?b\<lparr>dm_events := dm_events dm @ EvSection sect # es\<rparr>, tc') \<and>
    sections_of es = [] \<and> et_version tc' = et_version tc \<and> et_expected tc' = et_expected tc"
  proof (cases "et_sects tc ! n = None")
    case True
    then show ?thesis using notify_listen [of False ?d4 tcs] by (auto simp: tcs_def)
  next
    case False
    then show ?thesis by (auto intro: exI [of _ "[]"])
  qed
  then obtain es tc' where r: "(if et_sects tc ! n = None then ETIDContext_notify listen False (?d4, tcs) else (?d4, tc)) =
      (?b\<lparr>dm_events := dm_events dm @ EvSection sect # es\<rparr>, tc')"
    and e: "sections_of es = [] \<and> et_version tc' = et_version tc \<and> et_expected tc' = et_expected tc" by blast
  have "demux_deliver listen pid n True sect dm tc = (False, dm\<lparr>dm_events := dm_events dm @ EvSection sect # es\<rparr>, tc')"
    unfolding demux_deliver_def Let_def tcs_def [symmetric] b(2) using sh
    by (simp only: if_True simp_thms call_listen b(1) r prod.case)
      (use idle_restore [OF idle, where pid = pid and es = "dm_events dm @ EvSection sect # es"] in
        \<open>simp add: after_listen b\<close>)
  then show ?thesis using e by blast
qed

section \<open>One section of the buffer\<close>

lemma transportable_data:
  assumes "transportable s"
  shows "sc_valid s" "raw_ok (sc_data s)" "raw_crc (sc_data s)" "3 \<le> length (sc_data s)" "length (sc_data s) \<le> 4096"
    "sc_data s ! 0 \<noteq> 0xFF" "raw_size (sc_data s) = length (sc_data s)"
    "raw_long (sc_data s) \<Longrightarrow> 12 \<le> length (sc_data s) \<and> sc_data s ! 6 \<le> sc_data s ! 7 \<and> sc_data s ! 5 AND 0x01 \<noteq> 0"
  using assms wf_sectionD [of s]
  by (auto simp: transportable_def crc_section_def tableId_def raw_ok_def isLong_wf isCurrent_def)

lemma header_of_transportable:
  assumes "transportable s"
  shows "sh_etid (demux_header (sc_data s)) = section_etid s" "sh_version (demux_header (sc_data s)) = version_of s"
    "sh_number (demux_header (sc_data s)) = sectionNumber s" "sh_last (demux_header (sc_data s)) = lastSectionNumber s"
  using transportable_data(1) [OF assms]
  by (simp_all add: demux_header_def section_etid_def version_of_def sectionNumber_def lastSectionNumber_def
      isLongSection_def tableId_def tableIdExtension_def)

lemma demux_length_section:
  assumes "transportable s" and "3 \<le> n"
  shows "demux_length (take n (sc_data s) @ rest) = length (sc_data s)"
    and "demux_bad_length (take n (sc_data s) @ rest) = False"
proof -
  note d = transportable_data [OF assms(1)]
  have l: "3 \<le> length (take n (sc_data s))" using d(4) assms(2) by simp
  then have g: "GetUInt16 (take n (sc_data s) @ rest) 1 = GetUInt16 (sc_data s) 1"
    using assms(2) by simp
  show len: "demux_length (take n (sc_data s) @ rest) = length (sc_data s)"
    using d(7) by (simp add: demux_length_def raw_size_def g del: One_nat_def)
  have n1: "(take n (sc_data s) @ rest) ! 1 = sc_data s ! 1" using l assms(2) by (simp add: nth_append)
  show "demux_bad_length (take n (sc_data s) @ rest) = False"
    unfolding demux_bad_length_def len n1 using d(4,5,8) by (auto simp: raw_long_def)
qed

lemma demux_one_listen:
  assumes s: "transportable s" "s \<in> S" and cons: "consistent S" and tids: "tids_ok S (pc_tids pc)"
    and idle: "demux_idle dm" and sh: "dm_section_handler dm" and cur: "dm_get_current dm"
    and nt: "\<not> demux_truncated (sc_data s @ rest) pusi"
  shows "\<exists>es tids'. demux_one listen pid (sc_data s @ rest) pusi idx dm pc =
      (dm\<lparr>dm_events := dm_events dm @ es\<rparr>, Some (pc\<lparr>pc_tids := tids'\<rparr>)) \<and>
    sections_of es = [sc_data s] \<and> tids_ok S tids'"
proof -
  let ?d = "sc_data s"
  note d = transportable_data [OF s(1)]
  note hd = header_of_transportable [OF s(1)]
  have len: "demux_length (?d @ rest) = length ?d"
    using demux_length_section(1) [OF s(1) d(4), of rest] by simp
  have nth: "(?d @ rest) ! i = ?d ! i" if "i < length ?d" for i using that by (simp add: nth_append)
  have chk: "demux_check (?d @ rest) True dm = (True, dm)"
  proof (cases "raw_long ?d")
    case True
    then show ?thesis using d(8) [OF True] cur nth [of 1] nth [of 5] nth [of 6] nth [of 7]
      by (simp add: demux_check_def Let_def raw_long_def not_less)
  next
    case False
    then show ?thesis using d(4) cur nth [of 1] by (simp add: demux_check_def Let_def raw_long_def)
  qed
  define tc where "tc = demux_context ?d pc"
  have tc: "et_expected tc = unat (lastSectionNumber s) + 1 \<and> et_version tc = version_of s"
  proof (cases "omap_get (pc_tids pc) (section_etid s)")
    case None
    then show ?thesis by (simp add: tc_def demux_context_def Let_def hd ETIDContext_init_def ETIDContext_new_def)
  next
    case (Some t)
    have "unat (lastSectionNumber s) + 1 = et_expected t" if "et_version t = version_of s" "et_expected t \<noteq> 0"
      using tids Some s(2) that by (auto simp: tids_ok_def)
    then show ?thesis using Some by (auto simp: tc_def demux_context_def Let_def hd ETIDContext_init_def)
  qed
  let ?raw = "Section_initialize ?d pid CRC_CHECK"
  define sect where "sect = ?raw\<lparr>sc_first := idx, sc_last := dm_packet_count dm\<rparr>"
  have v: "sc_valid ?raw" using d(2,3) by (simp add: Section_initialize_valid)
  then have sd: "sc_valid sect" "sc_data sect = ?d" using header_of_section(3) [OF v] by (simp_all add: sect_def)
  obtain es tc' where del: "demux_deliver listen pid (unat (sectionNumber s)) True sect dm tc =
      (False, dm\<lparr>dm_events := dm_events dm @ EvSection sect # es\<rparr>, tc')"
    and e: "sections_of es = []" "et_version tc' = et_version tc" "et_expected tc' = et_expected tc"
    using deliver_listen [OF idle sh] by blast
  let ?tids = "omap_put (section_etid s) tc' (pc_tids pc)"
  have "demux_analyze listen pid idx ?d dm pc =
      (dm\<lparr>dm_events := dm_events dm @ EvSection sect # es\<rparr>, Some (pc\<lparr>pc_tids := ?tids\<rparr>))"
    unfolding demux_analyze_def Let_def tc_def [symmetric] hd sect_def [symmetric]
    using tc sh sd(1) del by simp
  then have one: "demux_one listen pid (?d @ rest) pusi idx dm pc =
      (dm\<lparr>dm_events := dm_events dm @ EvSection sect # es\<rparr>, Some (pc\<lparr>pc_tids := ?tids\<rparr>))"
    using nt chk len by (simp add: demux_one_def)
  have "tids_ok S ?tids"
    using tids tc e(2,3) cons s(2) unfolding tids_ok_def consistent_def omap_get_put
    by (metis (no_types, lifting) fun_upd_apply option.inject)
  then show ?thesis using one e(1) sd(2)
    by (intro exI [of _ "EvSection sect # es"] exI [of _ ?tids]) simp
qed


declare demux_loop.simps [simp del]

section \<open>A buffer of complete sections and an incomplete one\<close>

definition unfinished :: "Section set \<Rightarrow> byte list \<Rightarrow> bool" where
  "unfinished S tail = (\<exists>s \<in> S. \<exists>n. 0 < n \<and> n < length (sc_data s) \<and> tail = take n (sc_data s))"

definition is_stuffing :: "byte list \<Rightarrow> bool" where
  "is_stuffing tail = (tail = replicate (length tail) 0xFF)"

lemma skip_is_stuffing: "is_stuffing tail \<Longrightarrow> skip_stuffing tail = []"
  by (cases tail) (auto simp: is_stuffing_def skip_stuffing_def)

lemma skip_section: "transportable s \<Longrightarrow> 0 < n \<Longrightarrow> skip_stuffing (take n (sc_data s) @ rest) = take n (sc_data s) @ rest"
  using transportable_data(4,6) [of s] by (cases "sc_data s") (auto simp: skip_stuffing_def nth_append)

lemma loop_unfinished:
  assumes "unfinished S tail" and "\<And>s. s \<in> S \<Longrightarrow> transportable s"
  shows "demux_loop h pid tail pusi idx dm pc = (dm, Some (pc\<lparr>pc_ts := tail\<rparr>))"
proof -
  obtain s n where s: "s \<in> S" "0 < n" "n < length (sc_data s)" "tail = take n (sc_data s)"
    using assms(1) by (auto simp: unfinished_def)
  show ?thesis
  proof (cases "n < 3")
    case True
    then show ?thesis using s by (subst demux_loop.simps) simp
  next
    case False
    then have "3 \<le> n" by simp
    with demux_length_section [OF assms(2) [OF s(1)] this, of "[]"] s(2-4) show ?thesis
      by (subst demux_loop.simps) simp
  qed
qed

lemma loop_listen:
  assumes S: "\<And>s. s \<in> S \<Longrightarrow> transportable s" "consistent S"
    and dnS: "set dn \<subseteq> S" and tail: "is_stuffing tail \<or> unfinished S tail"
    and pusi: "pusi = 0 \<or> (\<exists>s ss. dn = s # ss \<and> pusi = length (sc_data s))"
    and dm: "demux_idle dm" "dm_section_handler dm" "dm_get_current dm" and tids: "tids_ok S (pc_tids pc)"
  shows "\<exists>es tids'. demux_loop listen pid (skip_stuffing (concat (map sc_data dn) @ tail)) pusi idx dm pc =
      (dm\<lparr>dm_events := dm_events dm @ es\<rparr>, Some (pc\<lparr>pc_tids := tids', pc_ts := skip_stuffing tail\<rparr>)) \<and>
    sections_of es = map sc_data dn \<and> tids_ok S tids'"
  using dnS pusi dm tids
proof (induction dn arbitrary: pusi idx dm pc)
  case Nil
  have "demux_loop listen pid (skip_stuffing tail) pusi idx dm pc = (dm, Some (pc\<lparr>pc_ts := skip_stuffing tail\<rparr>))"
    using tail
  proof
    assume "is_stuffing tail"
    then show ?thesis by (subst demux_loop.simps) (simp add: skip_is_stuffing)
  next
    assume u: "unfinished S tail"
    then have "skip_stuffing tail = tail"
      using skip_section [of _ _ "[]"] S(1) by (auto simp: unfinished_def)
    then show ?thesis using loop_unfinished [OF u S(1)] by simp
  qed
  then show ?case using Nil by (intro exI [of _ "[] :: DemuxEvent list"] exI [of _ "pc_tids pc"]) simp
next
  case (Cons s ss)
  let ?d = "sc_data s" and ?rest = "concat (map sc_data ss) @ tail"
  have sS: "s \<in> S" and ts: "transportable s" using Cons.prems(1) S(1) by auto
  note d = transportable_data [OF ts]
  have skip: "skip_stuffing (concat (map sc_data (s # ss)) @ tail) = ?d @ ?rest"
    using skip_section [OF ts, of "length ?d" ?rest] d(4) by (cases "sc_data s") auto
  have len: "demux_length (?d @ ?rest) = length ?d" "demux_bad_length (?d @ ?rest) = False"
    using demux_length_section [OF ts d(4), of ?rest] by simp_all
  have p: "pusi = 0 \<or> pusi = length ?d" using Cons.prems(2) by auto
  then have nt: "\<not> demux_truncated (?d @ ?rest) pusi" by (auto simp: demux_truncated_def len)
  then have con: "demux_consumed (?d @ ?rest) pusi = length ?d" by (simp add: demux_consumed_def len)
  obtain es tids' where one: "demux_one listen pid (?d @ ?rest) pusi idx dm pc =
      (dm\<lparr>dm_events := dm_events dm @ es\<rparr>, Some (pc\<lparr>pc_tids := tids'\<rparr>))"
    and e: "sections_of es = [?d]" "tids_ok S tids'"
    using demux_one_listen [OF ts sS S(2) Cons.prems(6,3,4,5) nt, of pid idx] by blast
  let ?dm = "dm\<lparr>dm_events := dm_events dm @ es\<rparr>" and ?pc = "pc\<lparr>pc_tids := tids'\<rparr>"
  have step: "demux_loop listen pid (?d @ ?rest) pusi idx dm pc =
      demux_loop listen pid (skip_stuffing ?rest) (pusi - length ?d) (dm_packet_count ?dm) ?dm ?pc"
    using d(4) len con one by (subst demux_loop.simps) simp
  have "demux_idle ?dm" "dm_section_handler ?dm" "dm_get_current ?dm" "tids_ok S (pc_tids ?pc)"
    using Cons.prems e by (simp_all add: demux_idle_def)
  moreover have "pusi - length ?d = 0 \<or> (\<exists>s' ss'. ss = s' # ss' \<and> pusi - length ?d = length (sc_data s'))" using p by auto
  moreover have "set ss \<subseteq> S" using Cons.prems(1) by simp
  ultimately obtain es2 tids2 where
      "demux_loop listen pid (skip_stuffing ?rest) (pusi - length ?d) (dm_packet_count ?dm) ?dm ?pc =
        (?dm\<lparr>dm_events := dm_events ?dm @ es2\<rparr>, Some (?pc\<lparr>pc_tids := tids2, pc_ts := skip_stuffing tail\<rparr>))"
      "sections_of es2 = map sc_data ss" "tids_ok S tids2"
    using Cons.IH [of "pusi - length ?d" ?dm ?pc "dm_packet_count ?dm"] by blast
  then show ?case unfolding skip step using e
    by (intro exI [of _ "es @ es2"] exI [of _ tids2]) simp
qed

section \<open>A provider that keeps the list of what it provided\<close>

text \<open>The section that the packetizer holds, not yet sent whole.\<close>

definition pz_pending :: "'p Packetizer \<Rightarrow> Section list" where
  "pz_pending p = (case pz_section p of None \<Rightarrow> [] | Some s \<Rightarrow> [s])"

abbreviation opt_list :: "Section option \<Rightarrow> Section list" where
  "opt_list r \<equiv> (case r of None \<Rightarrow> [] | Some s \<Rightarrow> [s])"

locale section_stream = section_provider ops inv good
  for ops :: "'p Provider" and inv and good +
  fixes log :: "'p \<Rightarrow> Section list"
  assumes provide_log: "inv q \<Longrightarrow> pv_provide ops c k q = (r, q') \<Longrightarrow>
      log q' = log q @ opt_list r"
    and good_transportable: "good s \<Longrightarrow> transportable s"
    and good_consistent: "consistent (Collect good)"
begin

lemma provided_log:
  assumes "pz_provide ops p = (r, p')" and "inv (pz_prov p)"
  shows "log (pz_prov p') = log (pz_prov p) @ opt_list r"
  using assms provide_log by (auto simp: pz_provide_def Let_def split: prod.splits)

lemma following_log:
  assumes "pz_following (Some ops) nxt p = (r, p')" and "inv (pz_prov p)"
  shows "log (pz_prov p') @ opt_list nxt = log (pz_prov p) @ opt_list r"
  using assms provided_log by (fastforce simp: pz_following_def split: option.splits if_splits)

text \<open>What the loop puts in the payload: complete sections, then stuffing or the beginning of
  the section that is left in the packetizer.\<close>

lemma fill_stream:
  assumes "inv (pz_prov p)" and "good sec" and "pz_next_byte p < section_size sec"
    and "pz_section p = Some sec" and "\<And>s. nxt = Some s \<Longrightarrow> good s"
    and "0 < room" and "pz_fill (Some ops) room stuff nxt sec p = Some (d, p')"
    and "log (pz_prov p) = L @ sec # opt_list nxt"
    and "nxt \<noteq> None \<Longrightarrow> section_size sec - pz_next_byte p \<le> room"
  shows "\<exists>dn tail. take (pz_next_byte p) (sc_data sec) @ d @ replicate (room - length d) 0xFF = concat (map sc_data dn) @ tail \<and>
    (\<forall>s \<in> set dn. good s) \<and>
    (if pz_next_byte p' = 0 then is_stuffing tail
     else tail = take (pz_next_byte p') (sc_data (the (pz_section p'))) \<and> unfinished (Collect good) tail) \<and>
    log (pz_prov p') = L @ dn @ pz_pending p' \<and>
    (section_size sec - pz_next_byte p \<le> room \<longrightarrow> (\<exists>ss. dn = sec # ss)) \<and>
    (room < section_size sec - pz_next_byte p \<longrightarrow> pz_next_byte p' = pz_next_byte p + room)"
  using assms
proof (induction "Some ops" room stuff nxt sec p arbitrary: L d rule: pz_fill.induct)
  case (1 room stuff nxt sec p)
  let ?r = "section_size sec - pz_next_byte p" and ?rest = "drop (pz_next_byte p) (sc_data sec)"
  have r: "0 < ?r" using 1(4) by simp
  have keep: "inv (pz_prov (pz_copied nxt p))" "pz_next_byte (pz_copied nxt p) = 0" "pz_section (pz_copied nxt p) = nxt"
      "pz_prov (pz_copied nxt p) = pz_prov p"
    using 1(2) by (simp_all add: pz_copied_def)
  have len: "length ?rest = ?r" by (simp add: section_size_def)
  have whole': "take (pz_next_byte p) (sc_data sec) @ ?rest @ x = sc_data sec @ x" for x
    by (simp flip: append_assoc)
  have whole: "take (pz_next_byte p) (sc_data sec) @ ?rest = sc_data sec" by simp
  consider (part) "room < ?r" | (stop) "?r \<le> room" stuff | (go) "?r \<le> room" "\<not> stuff" by linarith
  then show ?case
  proof cases
    case part
    then have e: "d = take room ?rest" "p' = p\<lparr>pz_next_byte := pz_next_byte p + room\<rparr>"
      using 1(7,8) r by (simp_all add: pz_fill.simps Let_def)
    have l: "length d = room" using part by (simp add: e(1) section_size_def)
    have t: "take (pz_next_byte p) (sc_data sec) @ d = take (pz_next_byte p + room) (sc_data sec)"
      by (simp add: e(1) take_add)
    have "unfinished (Collect good) (take (pz_next_byte p + room) (sc_data sec))"
      using part 1(3,7) unfolding unfinished_def section_size_def
      by (intro bexI [of _ sec] exI [of _ "pz_next_byte p + room"]) auto
    moreover have "take (pz_next_byte p) (sc_data sec) @ d @ replicate (room - length d) 0xFF =
        concat (map sc_data ([] :: Section list)) @ take (pz_next_byte p + room) (sc_data sec)"
      using l t by simp
    moreover have "log (pz_prov p') = L @ [] @ pz_pending p'"
      using 1(5,9,10) part by (cases nxt) (auto simp: e(2) pz_pending_def)
    ultimately show ?thesis using part 1(5,7)
      by (intro exI [of _ "[] :: Section list"] exI [of _ "take (pz_next_byte p + room) (sc_data sec)"]) (simp add: e(2))
  next
    case stop
    then have e: "d = ?rest" "p' = pz_copied nxt p" using 1(7,8) r by (simp_all add: pz_fill.simps Let_def)
    show ?thesis using 1(3,9) keep whole stop
      by (intro exI [of _ "[sec]"] exI [of _ "replicate (room - length d) 0xFF"])
        (simp add: e pz_pending_def is_stuffing_def flip: append_assoc)
  next
    case go
    obtain f p3 where f: "pz_following (Some ops) nxt (pz_copied nxt p) = (f, p3)"
      by (cases "pz_following (Some ops) nxt (pz_copied nxt p)")
    note fo = following [OF f keep(1) 1(6)] and fl = following_log [OF f keep(1)]
    have lg: "log (pz_prov p3) = (L @ [sec]) @ opt_list f"
      using fl 1(9) keep(4) f by (cases nxt) (auto simp: pz_following_def)
    show ?thesis
    proof (cases f)
      case None
      then have e: "d = ?rest" "p' = p3" using 1(7,8) r f go by (simp_all add: pz_fill.simps Let_def)
      show ?thesis using 1(3) keep whole go fo lg None
        by (intro exI [of _ "[sec]"] exI [of _ "replicate (room - length d) 0xFF"])
          (simp add: e pz_pending_def is_stuffing_def flip: append_assoc)
    next
      case (Some s)
      let ?p = "p3\<lparr>pz_section := Some s\<rparr>"
      have gs: "good s" using fo Some by simp
      show ?thesis
      proof (cases "room - ?r < headerSize s")
        case True
        then have e: "d = ?rest" "p' = ?p" using 1(7,8) r f go Some by (simp_all add: pz_fill.simps Let_def)
        show ?thesis using 1(3) keep whole go fo lg Some
          by (intro exI [of _ "[sec]"] exI [of _ "replicate (room - length d) 0xFF"])
            (simp add: e pz_pending_def is_stuffing_def flip: append_assoc)
      next
        case False
        obtain d2 where d2: "pz_fill (Some ops) (room - ?r) False None s ?p = Some (d2, p')" "d = ?rest @ d2"
          using 1(7,8) r f go Some False by (auto simp: pz_fill.simps [of _ room] Let_def)
        have room2: "0 < room - ?r" using False good_size [OF gs] by linarith
        have "\<exists>dn tail. take (pz_next_byte ?p) (sc_data s) @ d2 @ replicate (room - ?r - length d2) 0xFF = concat (map sc_data dn) @ tail \<and>
            (\<forall>s \<in> set dn. good s) \<and>
            (if pz_next_byte p' = 0 then is_stuffing tail
             else tail = take (pz_next_byte p') (sc_data (the (pz_section p'))) \<and> unfinished (Collect good) tail) \<and>
            log (pz_prov p') = (L @ [sec]) @ dn @ pz_pending p' \<and>
            (section_size s - pz_next_byte ?p \<le> room - ?r \<longrightarrow> (\<exists>ss. dn = s # ss)) \<and>
            (room - ?r < section_size s - pz_next_byte ?p \<longrightarrow> pz_next_byte p' = pz_next_byte ?p + (room - ?r))"
          using go r 1(7) False gs good_pos [OF gs] fo keep lg Some room2 d2(1)
          by (intro 1(1) [OF refl refl _ _ _ _ f [symmetric] Some]) auto
        then obtain dn tail where dn: "take (pz_next_byte ?p) (sc_data s) @ d2 @ replicate (room - ?r - length d2) 0xFF = concat (map sc_data dn) @ tail"
            "\<forall>s \<in> set dn. good s" "if pz_next_byte p' = 0 then is_stuffing tail
             else tail = take (pz_next_byte p') (sc_data (the (pz_section p'))) \<and> unfinished (Collect good) tail"
            "log (pz_prov p') = (L @ [sec]) @ dn @ pz_pending p'" by blast
        have "room - length d = room - ?r - length d2" by (simp add: d2(2) section_size_def)
        then have "take (pz_next_byte p) (sc_data sec) @ d @ replicate (room - length d) 0xFF =
            concat (map sc_data (sec # dn)) @ tail"
          using dn(1) fo keep(2) by (simp add: d2(2) whole')
        then show ?thesis using dn 1(3) go
          by (intro exI [of _ "sec # dn"] exI [of _ tail]) simp
      qed
    qed
  qed
qed


lemma fill_first:
  assumes "pz_fill ops' room stuff nxt sec p = Some (d, p')" and "0 < room" and "pz_next_byte p < section_size sec"
  shows "d \<noteq> [] \<and> d ! 0 = sc_data sec ! pz_next_byte p"
proof -
  have l: "0 < section_size sec - pz_next_byte p" "pz_next_byte p < length (sc_data sec)"
    using assms(3) by (simp_all add: section_size_def)
  show ?thesis
    using assms(1,2) l by (subst (asm) pz_fill.simps)
      (auto simp: Let_def nth_append split: if_splits option.splits prod.splits)
qed

lemma lookahead_log:
  assumes "inv (pz_prov p)" and "pz_lookahead (Some ops) sec p = (stuff, nxt, p')"
  shows "log (pz_prov p') = log (pz_prov p) @ opt_list nxt \<and>
    (nxt \<noteq> None \<longrightarrow> section_size sec - pz_next_byte p \<le> 180)"
proof -
  obtain r q where r: "pz_provide ops p = (r, q)" by (cases "pz_provide ops p")
  show ?thesis using assms(2) r provided_log [OF r assms(1)]
    by (auto simp: pz_lookahead_def Let_def split: if_splits option.splits)
qed

lemma current_log:
  assumes "pz_ok p"
  shows "log (pz_prov (pz_current (Some ops) p)) @ pz_pending p = log (pz_prov p) @ pz_pending (pz_current (Some ops) p)"
proof (cases "pz_section p")
  case None
  obtain r q where r: "pz_provide ops p = (r, q)" by (cases "pz_provide ops p")
  have "inv (pz_prov p)" using assms by (simp add: pz_ok_def)
  from provided_log [OF r this] show ?thesis using None r by (simp add: pz_current_def pz_pending_def)
qed (simp add: pz_current_def)

end

section \<open>The header of a packet\<close>

lemma pid_field:
  fixes pid :: u16
  assumes nb: "\<And>i. 13 \<le> i \<Longrightarrow> \<not> bit pid i"
  shows "((if pusi then 0x4000 else 0) OR pid) AND 0x1FFF = pid"
proof -
    have f: "bit (0x4000 :: u16) n = (n = 14)" if "n < 16" for n
    proof -
      have e: "(0x4000 :: u16) = 2 ^ 14" by simp
      show ?thesis unfolding e bit_exp_iff using that by auto
    qed
    have m: "bit (0x1FFF :: u16) n = (n < 13)" for n unfolding u16_masks by (auto simp: bit_mask_iff)
    show ?thesis 
    proof (rule bit_word_eqI)
      fix n assume "n < LENGTH(16)"
      then have l: "n < 16" by simp
      show "bit (((if pusi then 0x4000 else 0) OR pid) AND 0x1FFF) n = bit pid n"
        unfolding bit_and_iff bit_or_iff m using nb [of n] f [OF l] by (cases "n < 13") (auto simp: not_less)
    qed
qed
lemma header_bytes:
  assumes "pid \<le> 0x1FFF" and "cc \<le> 0x0F"
  shows "hasValidSync (pz_header pusi pid cc @ rest)" "getPID (pz_header pusi pid cc @ rest) = pid"
    "getPUSI (pz_header pusi pid cc @ rest) = pusi" "getScrambling (pz_header pusi pid cc @ rest) = 0"
    "getCC (pz_header pusi pid cc @ rest) = cc" "hasPayload (pz_header pusi pid cc @ rest)"
    "getHeaderSize (pz_header pusi pid cc @ rest) = 4"
proof -
  have p: "take_bit 13 pid = pid" and c: "take_bit 4 cc = cc"
    using assms by (simp_all add: take_bit_word_id word_le_nat_alt)
  have nb: "\<not> bit pid i" if "13 \<le> i" for i using not_bit_take_bit_id [OF p that] .
  have nc: "\<not> bit cc i" if "4 \<le> i" for i using not_bit_take_bit_id [OF c that] .
  show "hasValidSync (pz_header pusi pid cc @ rest)" by (simp add: hasValidSync_def pz_header_def Let_def)
  define w where "w = (if pusi then 0x4000 else 0) OR pid"
  have h: "pz_header pusi pid cc = [0x47, ucast (drop_bit 8 w), ucast w, 0x10 OR cc]"
    by (simp add: pz_header_def Let_def w_def)
  have "w AND 0x1FFF = pid" unfolding w_def by (rule pid_field [OF nb])
  then show "getPID (pz_header pusi pid cc @ rest) = pid"
    by (simp add: getPID_def h GetUInt16_def word16_of_bytes)
  show "getPUSI (pz_header pusi pid cc @ rest) = pusi"
  proof -
    have "bit (0x4000 :: u16) 14"
      using bit_exp_iff [where 'a = "16 word" and m = 14 and n = 14] by simp
    then have "bit w 14 = pusi" unfolding w_def bit_or_iff using nb [of 14] by simp
    then have "bit (ucast (drop_bit 8 w) :: byte) 6 = pusi" by (simp add: bit_unsigned_iff bit_drop_bit_eq)
    then show ?thesis by (simp add: getPUSI_def h byte_flags)
  qed
  have b3: "(pz_header pusi pid cc @ rest) ! 3 = 0x10 OR cc" by (simp add: pz_header_def Let_def numeral_3_eq_3)
  have f: "bit (0x10 OR cc) i = (i = 4 \<or> bit cc i)" if "i < 8" for i
  proof -
    have e: "(0x10 :: byte) = 2 ^ 4" by simp
    show ?thesis unfolding bit_or_iff e bit_exp_iff using that by auto
  qed
  have hi: "\<not> bit (0x10 OR cc) i" if "4 < i" for i
    using f [of i] nc [of i] that by (cases "i < 8") (auto simp: not_less dest: bit_imp_le_length)
  show "getScrambling (pz_header pusi pid cc @ rest) = 0"
    unfolding getScrambling_def b3 by (rule bit_word_eqI) (simp add: bit_drop_bit_eq hi nc)
  show "getCC (pz_header pusi pid cc @ rest) = cc"
    unfolding getCC_def b3
  proof (rule bit_word_eqI)
    fix i assume "i < LENGTH(8)"
    then have i: "i < 8" by simp
    show "bit ((0x10 OR cc) AND 0x0F) i = bit cc i"
      unfolding bit_and_iff f [OF i] byte_masks(3) bit_mask_iff using nc [of i] i by (cases "i < 4") auto
  qed
  show "hasPayload (pz_header pusi pid cc @ rest)"
    unfolding hasPayload_def b3 byte_flags using f [of 4] by simp
  show "getHeaderSize (pz_header pusi pid cc @ rest) = 4"
    unfolding getHeaderSize_def hasAF_def b3 using byte_flags(3) [of "0x10 OR cc"] hi [of 5] by simp
qed


lemma next_cc:
  assumes "c \<le> 0x0F"
  shows "unat ((c + 1) AND 0x0F :: byte) = (unat c + 1) mod 16" and "(c + 1) AND 0x0F \<noteq> c"
proof -
  have c: "unat c < 16" using assms by (simp add: word_le_nat_alt)
  have "unat (c + 1) = unat c + 1" using c by (simp add: unat_plus_if')
  then show e: "unat ((c + 1) AND 0x0F) = (unat c + 1) mod 16"
    unfolding byte_masks(3) unat_and_mask by simp
  show "(c + 1) AND 0x0F \<noteq> c"
  proof
    assume "(c + 1) AND 0x0F = c"
    then have "(unat c + 1) mod 16 = unat c" using e by simp
    then show False using c by (cases "unat c = 15") auto
  qed
qed

section \<open>A packet with sections in the demultiplexer\<close>

text \<open>The payload of a packet of the packetizer, seen as what its context has and what it brings.\<close>

lemma payload_listen:
  fixes h :: handler
  assumes pid: "pid \<le> 0x1FFF" and cc: "cc \<le> 0x0F"
    and pkt: "pkt = pz_header pusi pid cc @ (if pusi then [ptr] else []) @ body"
    and body: "body \<noteq> []" and len: "length pkt = 188"
    and start: "pusi \<and> ptr = 0 \<Longrightarrow> \<not> (body ! 0 = 0 \<and> body ! 1 = 1)"
    and sync: "\<not> pc_sync pc \<Longrightarrow> pusi \<and> ptr = 0 \<and> pc_ts pc = []"
    and ptr: "pusi \<Longrightarrow> unat ptr < length body"
  shows "\<exists>idx k. demux_payload h pid pkt dm pc =
    demux_loop h pid (pc_ts pc @ body) (if pusi then length (pc_ts pc) + unat ptr else 0) idx dm
      (pc\<lparr>pc_pusi_pkt_index := k, pc_sync := True, pc_ts := pc_ts pc @ body\<rparr>)"
proof -
  note h = header_bytes [OF pid cc, of pusi "(if pusi then [ptr] else []) @ body", folded pkt]
  have d: "drop (if pusi then 5 else 4) pkt = body" by (simp add: pkt)
  have lb: "3 \<le> length body" using len by (auto simp: pkt split: if_splits)
  have n: "pkt ! 4 = ptr" "pkt ! 5 = body ! 0" "pkt ! 6 = body ! 1" if pusi
    using that by (simp_all add: pkt nth_append nth_Cons')
  have pes: "\<not> (pusi \<and> 4 + 3 \<le> PKT_SIZE \<and> pkt ! 4 = 0x00 \<and> pkt ! (4 + 1) = 0x00 \<and> pkt ! (4 + 2) = 0x01)"
    using n start by auto
  define pc1 where "pc1 = (if pusi then pc\<lparr>pc_pusi_pkt_index := dm_packet_count dm\<rparr> else pc)"
  have f: "pc_ts pc1 = pc_ts pc" "pc_sync pc1 = pc_sync pc" by (simp_all add: pc1_def)
  have "demux_payload h pid pkt dm pc =
    demux_loop h pid (pc_ts pc @ body) (if pusi then length (pc_ts pc) + unat ptr else 0)
      (if pusi \<and> unat ptr = 0 then dm_packet_count dm else pc_pusi_pkt_index pc) dm
      (pc1\<lparr>pc_sync := True, pc_ts := pc_ts pc @ body\<rparr>)"
  proof (cases pusi)
    case True
    then show ?thesis using d n ptr sync body pes f lb
      unfolding demux_payload_def Let_def h pc1_def [symmetric]
      by (auto simp: h)
  next
    case False
    then show ?thesis using d sync body f lb
      unfolding demux_payload_def Let_def h pc1_def [symmetric]
      by (auto simp: h)
  qed
  moreover have "pc1\<lparr>pc_sync := True, pc_ts := pc_ts pc @ body\<rparr> =
     pc\<lparr>pc_pusi_pkt_index := pc_pusi_pkt_index pc1, pc_sync := True, pc_ts := pc_ts pc @ body\<rparr>"
    by (simp add: pc1_def)
  ultimately show ?thesis by auto
qed


lemma transportable_sync: "transportable s \<Longrightarrow> \<not> (sc_data s ! 0 = 0 \<and> sc_data s ! 1 = 1)"
  by (simp add: transportable_def)

lemma take_sync: "2 \<le> length (take n (sc_data s)) \<Longrightarrow> transportable s \<Longrightarrow>
  \<not> (take n (sc_data s) ! 0 = 0 \<and> take n (sc_data s) ! 1 = 1)"
  using transportable_sync [of s] by simp

context section_stream
begin

definition carries :: "nat \<Rightarrow> 'p Packetizer \<Rightarrow> SectionDemux \<Rightarrow> bool" where
  "carries m p dm = (pz_ok p \<and> demux_idle dm \<and> \<not> Status_hasErrors (dm_status dm) \<and> dm_section_handler dm \<and> dm_get_current dm \<and>
     pz_pid p \<in> dm_pid_filter dm \<and> PID_NULL \<notin> dm_pid_filter dm \<and>
     (\<exists>L. log (pz_prov p) = L @ pz_pending p \<and> map sc_data L = sections_of (dm_events dm) \<and>
       m \<le> 23 * length L + pz_next_byte p div 183) \<and>
     tids_ok (Collect good) (pc_tids (pid_context dm (pz_pid p))) \<and>
     (if pc_sync (pid_context dm (pz_pid p))
      then pc_continuity (pid_context dm (pz_pid p)) \<le> 0x0F \<and>
        (pc_continuity (pid_context dm (pz_pid p)) + 1) AND 0x0F = pz_continuity p
      else pz_next_byte p = 0) \<and>
     pc_ts (pid_context dm (pz_pid p)) =
       (case pz_section p of None \<Rightarrow> [] | Some s \<Rightarrow> take (pz_next_byte p) (sc_data s)))"

lemma carries_idle:
  assumes "carries m p dm"
  shows "carries m (p\<lparr>pz_packet_count := c\<rparr>) (dm\<lparr>dm_packet_count := k\<rparr>)"
  using assms unfolding carries_def pz_ok_def pid_context_def demux_idle_def pz_pending_def
  by (cases "pz_section p") auto

lemma carries_current:
  assumes "carries m p dm"
  shows "carries m (pz_current (Some ops) p) dm"
proof -
  have ok: "pz_ok p" using assms by (simp add: carries_def)
  note c = current_ok [OF ok] and l = current_log [OF ok]
  show ?thesis
  proof (cases "pz_section p")
    case None
    then have "pz_next_byte (pz_current (Some ops) p) = 0" "pz_pending p = []" "pz_next_byte p = 0"
      using ok by (auto simp: pz_current_def pz_ok_def pz_pending_def split: prod.splits)
    then show ?thesis using assms c l None by (auto simp: carries_def split: option.splits)
  qed (use assms in \<open>simp add: pz_current_def\<close>)
qed

text \<open>A packet with a section in it.\<close>

lemma carries_packet:
  assumes car: "carries m p dm" and sec: "pz_section p = Some sec"
    and la: "pz_lookahead (Some ops) sec p = (stuff, nxt, p1)"
    and pusi: "pusi = (pz_next_byte p = 0 \<or> \<not> stuff)"
    and ptr: "ptr = (if pz_next_byte p = 0 then 0x00 else of_nat (section_size sec - pz_next_byte p))"
    and hdr: "hdr = pz_header pusi (pz_pid p) (pz_continuity p) @ (if pusi then [ptr] else [])"
    and fill: "pz_fill (Some ops) (PKT_SIZE - length hdr) stuff nxt sec (p1\<lparr>pz_continuity := (pz_continuity p1 + 1) AND 0x0F\<rparr>) = Some (d, p3)"
    and ok: "pz_ok p3" "pz_pid p3 = pz_pid p" "pz_continuity p3 = (pz_continuity p + 1) AND 0x0F"
      "length d \<le> PKT_SIZE - length hdr"
  shows "carries (m + 1) p3 (demux_feedPacket listen (hdr @ d @ replicate (PKT_SIZE - length hdr - length d) 0xFF) dm)"
proof -
  let ?room = "PKT_SIZE - length hdr" and ?pid = "pz_pid p" and ?cc = "pz_continuity p"
  let ?body = "d @ replicate (?room - length d) 0xFF" and ?pkt = "hdr @ d @ replicate (?room - length d) 0xFF"
  let ?p2 = "p1\<lparr>pz_continuity := (pz_continuity p1 + 1) AND 0x0F\<rparr>"
  define pc where "pc = pid_context dm ?pid"
  have pok: "pz_ok p" using car by (simp add: carries_def)
  then have g: "good sec" "pz_next_byte p < section_size sec" "?pid \<le> 0x1FFF" "?cc \<le> 0x0F" "inv (pz_prov p)"
    using sec by (auto simp: pz_ok_def)
  note ts = good_transportable [OF g(1)]
  have dm: "demux_idle dm" "dm_section_handler dm" "dm_get_current dm" "?pid \<in> dm_pid_filter dm" "PID_NULL \<notin> dm_pid_filter dm"
    using car by (simp_all add: carries_def)
  obtain L where L: "log (pz_prov p) = L @ [sec]" "map sc_data L = sections_of (dm_events dm)"
      "m \<le> 23 * length L + pz_next_byte p div 183"
    using car sec by (auto simp: carries_def pz_pending_def)
  have pc: "tids_ok (Collect good) (pc_tids pc)" "pc_sync pc \<Longrightarrow> pc_continuity pc \<le> 0x0F \<and> (pc_continuity pc + 1) AND 0x0F = ?cc"
      "\<not> pc_sync pc \<Longrightarrow> pz_next_byte p = 0" "pc_ts pc = take (pz_next_byte p) (sc_data sec)"
    using car sec by (auto simp: carries_def pc_def split: if_splits)
  note l = lookahead_ok [OF g(5) la] and ll = lookahead_log [OF g(5) la]
  have room: "183 \<le> ?room" "?room \<le> 184" "0 < ?room" using hdr by auto
  have log1: "log (pz_prov ?p2) = L @ sec # opt_list nxt" using ll L by simp
  have fit: "nxt \<noteq> None \<Longrightarrow> section_size sec - pz_next_byte ?p2 \<le> ?room" using ll room l by auto
  have l2: "inv (pz_prov ?p2)" "pz_next_byte ?p2 < section_size sec" "pz_section ?p2 = Some sec"
      "\<And>s. nxt = Some s \<Longrightarrow> good s" "pz_next_byte ?p2 = pz_next_byte p"
    using l g sec by auto
  obtain dn tail where st: "take (pz_next_byte p) (sc_data sec) @ ?body = concat (map sc_data dn) @ tail"
      "\<forall>s \<in> set dn. good s"
      "if pz_next_byte p3 = 0 then is_stuffing tail
       else tail = take (pz_next_byte p3) (sc_data (the (pz_section p3))) \<and> unfinished (Collect good) tail"
      "log (pz_prov p3) = L @ dn @ pz_pending p3"
      "section_size sec - pz_next_byte p \<le> ?room \<longrightarrow> (\<exists>ss. dn = sec # ss)"
      "?room < section_size sec - pz_next_byte p \<longrightarrow> pz_next_byte p3 = pz_next_byte p + ?room"
    using fill_stream [OF l2(1) g(1) l2(2,3,4) room(3) fill log1 fit] unfolding l2(5) by blast
  note first = fill_first [OF fill room(3) l2(2), unfolded l2(5)]
  have S: "\<And>s. s \<in> Collect good \<Longrightarrow> transportable s" using good_transportable by simp
  have lb: "length ?body = ?room" using ok(4) by simp
  have start: "\<not> (?body ! 0 = 0 \<and> ?body ! 1 = 1)" if "pz_next_byte p = 0"
  proof (cases dn)
    case Nil
    then have b: "?body = tail" using st(1) that by simp
    show ?thesis
    proof (cases "pz_next_byte p3 = 0")
      case True
      then have "?body = replicate ?room 0xFF" using st(3) b lb by (simp add: is_stuffing_def)
      then show ?thesis using room by simp
    next
      case False
      then obtain s n where "s \<in> Collect good" "?body = take n (sc_data s)" "n < length (sc_data s)"
        using st(3) b by (auto simp: unfinished_def)
      then show ?thesis using S [of s] take_sync [of n s] lb room by simp
    qed
  next
    case (Cons s ss)
    then have "transportable s" "?body = sc_data s @ concat (map sc_data ss) @ tail" using st(1,2) that S by auto
    moreover have "(sc_data s @ r) ! 0 = sc_data s ! 0 \<and> (sc_data s @ r) ! 1 = sc_data s ! 1" for r
      using transportable_data(4) [OF calculation(1)] by (auto simp: nth_append)
    ultimately show ?thesis using transportable_sync [of s] by simp
  qed
  have ptr': "unat ptr = (if pz_next_byte p = 0 then 0 else section_size sec - pz_next_byte p)"
    and fits: "pz_next_byte p \<noteq> 0 \<Longrightarrow> section_size sec - pz_next_byte p \<le> ?room"
    and ptr_room: "unat ptr < ?room" if pusi
    using that l l2(5) pusi ptr room good_size [OF g(1)] good_size
    by (auto simp: unat_of_nat take_bit_nat_def unsigned_of_nat split: if_splits) (fastforce dest: good_size)+
  define pos where "pos = (if pusi then pz_next_byte p + unat ptr else 0)"
  have pos: "pos = 0 \<or> (\<exists>s ss. dn = s # ss \<and> pos = length (sc_data s))"
    using ptr' fits st(5) g(2) by (auto simp: pos_def section_size_def)
  have skip: "skip_stuffing (take (pz_next_byte p) (sc_data sec) @ ?body) = take (pz_next_byte p) (sc_data sec) @ ?body"
  proof (cases "pz_next_byte p = 0")
    case True
    then show ?thesis using first transportable_data(6) [OF ts] by (simp add: skip_stuffing_def nth_append)
  next
    case False
    then show ?thesis using skip_section [OF ts] by simp
  qed
  have tail: "is_stuffing tail \<or> unfinished (Collect good) tail" using st(3) by (auto split: if_splits)
  define pc1 where "pc1 = pc\<lparr>pc_continuity := ?cc\<rparr>"
  have pc1: "pc_ts pc1 = take (pz_next_byte p) (sc_data sec)" "pc_sync pc1 = pc_sync pc" "pc_tids pc1 = pc_tids pc"
    using pc(4) by (simp_all add: pc1_def)
  define pk where "pk = ?pkt"
  have pkt: "pk = pz_header pusi ?pid ?cc @ (if pusi then [ptr] else []) @ ?body" using hdr by (simp add: pk_def)
  have lp: "length pk = 188" using ok(4) room by (simp add: pk_def)
  have nb: "length (take (pz_next_byte p) (sc_data sec)) = pz_next_byte p" using g(2) by (simp add: section_size_def)
  have "\<exists>idx k. demux_payload listen ?pid pk dm pc1 =
    demux_loop listen ?pid (pc_ts pc1 @ ?body) (if pusi then length (pc_ts pc1) + unat ptr else 0) idx dm
      (pc1\<lparr>pc_pusi_pkt_index := k, pc_sync := True, pc_ts := pc_ts pc1 @ ?body\<rparr>)"
    by (rule payload_listen [OF g(3,4) pkt _ lp])
      (use g(2) first start pc(3) pc1 pusi ptr ptr_room lb ptr' room in \<open>auto split: if_splits\<close>)
  then obtain idx k where pl: "demux_payload listen ?pid pk dm pc1 =
      demux_loop listen ?pid (skip_stuffing (concat (map sc_data dn) @ tail)) pos idx dm
        (pc1\<lparr>pc_pusi_pkt_index := k, pc_sync := True, pc_ts := pc_ts pc1 @ ?body\<rparr>)" (is "_ = demux_loop _ _ _ _ _ _ ?pc2")
    unfolding pc1(1) nb pos_def using skip st(1) by auto
  have "tids_ok (Collect good) (pc_tids ?pc2)" using pc(1) pc1(3) by simp
  note lo = loop_listen [OF S good_consistent _ tail pos dm(1-3) this, where pid = ?pid and idx = idx]
  have "set dn \<subseteq> Collect good" using st(2) by auto
  from lo [OF _ this]
  obtain es tids' where lo: "demux_payload listen ?pid pk dm pc1 =
      (dm\<lparr>dm_events := dm_events dm @ es\<rparr>, Some (?pc2\<lparr>pc_tids := tids', pc_ts := skip_stuffing tail\<rparr>))"
    and es: "sections_of es = map sc_data dn" and tids': "tids_ok (Collect good) tids'"
    unfolding pl by auto
  note h = header_bytes [OF g(3,4), of pusi "(if pusi then [ptr] else []) @ ?body", folded pkt]
  have "demux_packet listen ?pid pk dm pc = demux_payload listen ?pid pk dm pc1"
    using pc(2) next_cc [of "pc_continuity pc"] by (auto simp: demux_packet_def h pc1_def)
  then have feed: "demux_feedPacket listen pk dm =
      dm\<lparr>dm_events := dm_events dm @ es, dm_packet_count := dm_packet_count dm + 1,
        dm_pids := omap_put ?pid (?pc2\<lparr>pc_tids := tids', pc_ts := skip_stuffing tail\<rparr>) (dm_pids dm)\<rparr>" (is "_ = ?dm")
    using dm(4) by (simp add: demux_feedPacket_def processPacket_def h write_pid_def lo pc_def [symmetric])
  have ctx: "pid_context ?dm ?pid = ?pc2\<lparr>pc_tids := tids', pc_ts := skip_stuffing tail\<rparr>"
    by (simp add: pid_context_def omap_get_put)
  have "skip_stuffing tail = (case pz_section p3 of None \<Rightarrow> [] | Some s \<Rightarrow> take (pz_next_byte p3) (sc_data s))"
  proof (cases "pz_next_byte p3 = 0")
    case True
    then show ?thesis using st(3) skip_is_stuffing by (simp split: option.splits)
  next
    case False
    then obtain s where "pz_section p3 = Some s" using ok(1) by (auto simp: pz_ok_def split: option.splits)
    then show ?thesis using False st(3) skip_section [of _ _ "[]"] S by (auto simp: unfinished_def)
  qed
  moreover have "m + 1 \<le> 23 * length (L @ dn) + pz_next_byte p3 div 183"
  proof (cases "section_size sec - pz_next_byte p \<le> ?room")
    case True
    have "pz_next_byte p < 4096" using g(2) transportable_data(5) [OF ts] by (simp add: section_size_def)
    then show ?thesis using True st(5) L(3) by auto
  next
    case False
    then have "pz_next_byte p + 183 \<le> pz_next_byte p3" using st(6) room by simp
    then have "pz_next_byte p div 183 + 1 \<le> pz_next_byte p3 div 183"
      using div_le_mono [of "pz_next_byte p + 183" "pz_next_byte p3" 183] by simp
    then show ?thesis using L(3) by simp
  qed
  then have "\<exists>L. log (pz_prov p3) = L @ pz_pending p3 \<and> map sc_data L = sections_of (dm_events ?dm) \<and>
      m + 1 \<le> 23 * length L + pz_next_byte p3 div 183"
    using st(4) L(2) es by (intro exI [of _ "L @ dn"]) simp
  moreover have "demux_idle ?dm" "\<not> Status_hasErrors (dm_status ?dm)" using car dm(1) by (simp_all add: demux_idle_def carries_def)
  ultimately show ?thesis unfolding pk_def [symmetric] feed carries_def ok(2) ctx
    using ok(1,3) dm tids' g(4) by (simp add: pc1_def)
qed

text \<open>Any packet: the packetizer returns, and its packet keeps the relation.\<close>

lemma carries_step:
  assumes "carries m p dm"
  shows "\<exists>ok pkt p'. getNextPacket (Some ops) p = Some (ok, pkt, p') \<and> carries (if ok then m + 1 else m) p' (demux_feedPacket listen pkt dm)"
proof -
  let ?c = "pz_current (Some ops) (p\<lparr>pz_packet_count := pz_packet_count p + 1\<rparr>)"
  have "carries m (p\<lparr>pz_packet_count := pz_packet_count p + 1\<rparr>) dm"
    using carries_idle [OF assms, of _ "dm_packet_count dm"] by simp
  then have car: "carries m ?c dm" by (rule carries_current)
  then have ok: "pz_ok ?c" by (simp add: carries_def)
  show ?thesis
  proof (cases "pz_section ?c")
    case None
    have "getPID NullPacket = PID_NULL" by (simp add: NullPacket_def getPID_def GetUInt16_def)
    then have "demux_feedPacket listen NullPacket dm = dm\<lparr>dm_packet_count := dm_packet_count dm + 1\<rparr>"
      using car by (simp add: demux_feedPacket_def carries_def)
    then have "carries m ?c (demux_feedPacket listen NullPacket dm)"
      using carries_idle [OF car, of "pz_packet_count ?c"] by simp
    moreover have "getNextPacket (Some ops) p = Some (False, NullPacket, ?c)" using None by (simp add: getNextPacket_def)
    ultimately show ?thesis by auto
  next
    case (Some sec)
    obtain stuff nxt p1 where la: "pz_lookahead (Some ops) sec ?c = (stuff, nxt, p1)"
      by (cases "pz_lookahead (Some ops) sec ?c") auto
    have ci: "inv (pz_prov ?c)" "good sec" "pz_next_byte ?c < section_size sec"
      using ok Some by (auto simp: pz_ok_def)
    note l = lookahead_ok [OF ci(1) la]
    define pusi where "pusi = (pz_next_byte p1 = 0 \<or> \<not> stuff)"
    define ptr :: byte where "ptr = (if pz_next_byte p1 = 0 then 0x00 else of_nat (section_size sec - pz_next_byte p1))"
    define hdr where "hdr = pz_header pusi (pz_pid p1) (pz_continuity p1) @ (if pusi then [ptr] else [])"
    have eqs: "pusi = (pz_next_byte ?c = 0 \<or> \<not> stuff)"
      "ptr = (if pz_next_byte ?c = 0 then 0x00 else of_nat (section_size sec - pz_next_byte ?c))"
      "hdr = pz_header pusi (pz_pid ?c) (pz_continuity ?c) @ (if pusi then [ptr] else [])"
      using l by (simp_all add: pusi_def ptr_def hdr_def)
    let ?p2 = "p1\<lparr>pz_continuity := (pz_continuity p1 + 1) AND 0x0F\<rparr>"
    have cc: "(pz_continuity p1 + 1) AND 0x0F \<le> 0x0F" by (rule word_and_le1)
    have "\<exists>d p'. pz_fill (Some ops) (PKT_SIZE - length hdr) stuff nxt sec ?p2 = Some (d, p') \<and>
        length d \<le> PKT_SIZE - length hdr \<and> pz_ok p' \<and> pz_packet_count p' = pz_packet_count ?p2 \<and>
        pz_pid p' = pz_pid ?p2 \<and> pz_continuity p' = pz_continuity ?p2"
      by (rule fill_ok) (use l ci ok Some cc in \<open>auto simp: pz_ok_def\<close>)
    then obtain d p3 where f: "pz_fill (Some ops) (PKT_SIZE - length hdr) stuff nxt sec ?p2 = Some (d, p3)"
      and d: "length d \<le> PKT_SIZE - length hdr" and p3: "pz_ok p3" "pz_pid p3 = pz_pid ?c"
        "pz_continuity p3 = (pz_continuity ?c + 1) AND 0x0F" using l by auto
    have "getNextPacket (Some ops) p = Some (True, hdr @ d @ replicate (PKT_SIZE - length hdr - length d) 0xFF, p3)"
      unfolding getNextPacket_def Let_def Some option.case la prod.case f [unfolded hdr_def pusi_def ptr_def]
        hdr_def pusi_def ptr_def ..
    then show ?thesis using carries_packet [OF car Some la eqs f p3 d] by auto
  qed
qed

lemma carries_start:
  assumes "pz_ok p" and "log (pz_prov p) = []" and "pz_section p = None"
    and "pz_pid p \<in> pids" and "PID_NULL \<notin> pids"
  shows "carries 0 p (SectionDemux_new th True pids)"
proof -
  have "pz_next_byte p = 0" using assms(1,3) by (simp add: pz_ok_def)
  then show ?thesis using assms
    by (simp add: carries_def SectionDemux_new_def demux_idle_def pz_pending_def pid_context_def
        Status_hasErrors_def Status_reset_def PIDContext_new_def tids_ok_def omap_get_def)
qed

end

section \<open>A run of packets\<close>

text \<open>The first \<open>n\<close> packets of a packetizer, fed to a demultiplexer one by one. A call without
  section available gives a null packet, which is fed too.\<close>

primrec transport :: "'p Provider \<Rightarrow> nat \<Rightarrow> 'p Packetizer \<Rightarrow> SectionDemux \<Rightarrow> ('p Packetizer \<times> SectionDemux) option" where
  "transport ops 0 p dm = Some (p, dm)"
| "transport ops (Suc n) p dm =
     (case getNextPacket (Some ops) p of
        None \<Rightarrow> None
      | Some (ok, pkt, p') \<Rightarrow> transport ops n p' (demux_feedPacket listen pkt dm))"

context section_stream
begin

lemma transport_carries:
  "carries m p dm \<Longrightarrow> \<exists>m' p' dm'. transport ops n p dm = Some (p', dm') \<and> carries m' p' dm'"
proof (induction n arbitrary: m p dm)
  case (Suc n)
  then show ?case using carries_step [OF Suc.prems] by fastforce
qed auto

lemma never_idle:
  assumes some: "\<And>q c k. inv q \<Longrightarrow> fst (pv_provide ops c k q) \<noteq> None"
    and "getNextPacket (Some ops) p = Some (ok, pkt, p')" and "pz_ok p"
  shows ok
proof -
  let ?p = "p\<lparr>pz_packet_count := pz_packet_count p + 1\<rparr>"
  have "inv (pz_prov ?p)" using assms(3) by (simp add: pz_ok_def)
  then have "pz_section (pz_current (Some ops) ?p) \<noteq> None"
    using some [of "pz_prov ?p" "pz_in_count ?p" "pz_packet_count ?p"]
    by (auto simp: pz_current_def pz_provide_def Let_def split: option.splits prod.splits)
  then show ?thesis using assms(2) by (auto simp: getNextPacket_def Let_def split: option.splits prod.splits)
qed

lemma transport_busy:
  assumes some: "\<And>q c k. inv q \<Longrightarrow> fst (pv_provide ops c k q) \<noteq> None"
  shows "carries m p dm \<Longrightarrow> \<exists>p' dm'. transport ops n p dm = Some (p', dm') \<and> carries (m + n) p' dm'"
proof (induction n arbitrary: m p dm)
  case (Suc n)
  obtain ok pkt p' where g: "getNextPacket (Some ops) p = Some (ok, pkt, p')"
    and c: "carries (if ok then m + 1 else m) p' (demux_feedPacket listen pkt dm)"
    using carries_step [OF Suc.prems] by blast
  have ok using never_idle [OF some g] Suc.prems by (simp add: carries_def)
  then show ?case using Suc.IH [of "m + 1" p' "demux_feedPacket listen pkt dm"] g c by simp
qed auto

lemma carries_result:
  assumes "carries m p dm"
  shows "\<not> Status_hasErrors (dm_status dm)"
    and "\<exists>L. log (pz_prov p) = L @ pz_pending p \<and> sections_of (dm_events dm) = map sc_data L \<and> m \<le> 23 * length L + 22"
proof -
  show "\<not> Status_hasErrors (dm_status dm)" using assms by (simp add: carries_def)
  obtain L where L: "log (pz_prov p) = L @ pz_pending p" "map sc_data L = sections_of (dm_events dm)"
      "m \<le> 23 * length L + pz_next_byte p div 183" using assms by (auto simp: carries_def)
  have "pz_next_byte p < 4096"
    using assms transportable_data(5) good_transportable
    by (fastforce simp: carries_def pz_ok_def section_size_def split: option.splits)
  then show "\<exists>L. log (pz_prov p) = L @ pz_pending p \<and> sections_of (dm_events dm) = map sc_data L \<and> m \<le> 23 * length L + 22"
    using L by (intro exI [of _ L]) auto
qed

end


section \<open>A provider with a trace\<close>

text \<open>Any provider, with the list of the sections it has provided beside its state. The trace
  changes nothing of what the packetizer does.\<close>

definition traced :: "'p Provider \<Rightarrow> ('p \<times> Section list) Provider" where
  "traced ops = \<lparr>pv_provide = (\<lambda>c k (q, l). case pv_provide ops c k q of (r, q') \<Rightarrow> (r, (q', l @ opt_list r))),
     pv_stuffing = (\<lambda>(q, l). pv_stuffing ops q)\<rparr>"

definition untrace :: "('p \<times> Section list) Packetizer \<Rightarrow> 'p Packetizer" where
  "untrace p = \<lparr>pz_prov = fst (pz_prov p), pz_pid = pz_pid p, pz_continuity = pz_continuity p, pz_section = pz_section p,
     pz_next_byte = pz_next_byte p, pz_packet_count = pz_packet_count p, pz_out_count = pz_out_count p,
     pz_in_count = pz_in_count p\<rparr>"

lemma untrace_simps [simp]:
  "pz_prov (untrace p) = fst (pz_prov p)" "pz_pid (untrace p) = pz_pid p" "pz_continuity (untrace p) = pz_continuity p"
  "pz_section (untrace p) = pz_section p" "pz_next_byte (untrace p) = pz_next_byte p"
  "pz_packet_count (untrace p) = pz_packet_count p" "pz_out_count (untrace p) = pz_out_count p"
  "pz_in_count (untrace p) = pz_in_count p"
  by (simp_all add: untrace_def)

lemma untrace_update [simp]:
  "(untrace p)\<lparr>pz_next_byte := n\<rparr> = untrace (p\<lparr>pz_next_byte := n\<rparr>)"
  "(untrace p)\<lparr>pz_section := s\<rparr> = untrace (p\<lparr>pz_section := s\<rparr>)"
  "(untrace p)\<lparr>pz_continuity := c\<rparr> = untrace (p\<lparr>pz_continuity := c\<rparr>)"
  "(untrace p)\<lparr>pz_packet_count := k\<rparr> = untrace (p\<lparr>pz_packet_count := k\<rparr>)"
  by (simp_all add: untrace_def)

lemma untrace_copied [simp]: "pz_copied nxt (untrace p) = untrace (pz_copied nxt p)"
  by (simp add: untrace_def pz_copied_def)

lemma untrace_stuffing [simp]: "pv_stuffing (traced ops) q = pv_stuffing ops (fst q)"
  by (simp add: traced_def case_prod_beta)

lemma untrace_provide: "pz_provide ops (untrace p) = map_prod id untrace (pz_provide (traced ops) p)"
  by (simp add: pz_provide_def Let_def traced_def case_prod_beta untrace_def)

lemma untrace_following:
  "pz_following (Some ops) nxt (untrace p) = map_prod id untrace (pz_following (Some (traced ops)) nxt p)"
  by (simp add: pz_following_def untrace_provide split: option.splits)

lemma untrace_fill:
  "pz_fill (Some ops) room stuff nxt sec (untrace p) =
   map_option (map_prod id untrace) (pz_fill (Some (traced ops)) room stuff nxt sec p)"
proof (induction "Some (traced ops)" room stuff nxt sec p rule: pz_fill.induct)
  case (1 room stuff nxt sec p)
  let ?r = "section_size sec - pz_next_byte p"
  obtain f p3 where f: "pz_following (Some (traced ops)) nxt (pz_copied nxt p) = (f, p3)"
    by (cases "pz_following (Some (traced ops)) nxt (pz_copied nxt p)")
  have f': "pz_following (Some ops) nxt (untrace (pz_copied nxt p)) = (f, untrace p3)"
    by (simp add: untrace_following f)
  consider "room = 0 \<or> ?r = 0 \<or> room < ?r \<or> stuff \<or> f = None" | (last_one) s where "0 < room" "?r \<noteq> 0" "?r \<le> room" "\<not> stuff" "f = Some s" "room - ?r < headerSize s"
    | (more) s where "0 < room" "?r \<noteq> 0" "?r \<le> room" "\<not> stuff" "f = Some s" "\<not> room - ?r < headerSize s"
    by (cases f; force simp: not_less)
  then show ?case
  proof cases
    case 1
    then show ?thesis using f f' by (simp add: pz_fill.simps [of _ room] Let_def) auto
  next
    case last_one
    then show ?thesis using f f' by (simp add: pz_fill.simps [of _ room] Let_def)
  next
    case more
    have "pz_fill (Some ops) (room - ?r) False None s (untrace (p3\<lparr>pz_section := Some s\<rparr>)) =
        map_option (map_prod id untrace) (pz_fill (Some (traced ops)) (room - ?r) False None s (p3\<lparr>pz_section := Some s\<rparr>))"
      using more by (intro 1(1) [OF refl refl _ _ _ _ f [symmetric]]) auto
    then show ?thesis using more f f'
      by (simp add: pz_fill.simps [of _ room] Let_def option.map_comp comp_def map_prod_def case_prod_beta)
  qed
qed

lemma untrace_lookahead:
  "pz_lookahead (Some ops) sec (untrace p) =
   (case pz_lookahead (Some (traced ops)) sec p of (stuff, nxt, q) \<Rightarrow> (stuff, nxt, untrace q))"
proof -
  obtain r q where "pz_provide (traced ops) p = (r, q)" by (cases "pz_provide (traced ops) p")
  then show ?thesis by (simp add: pz_lookahead_def Let_def untrace_provide split: option.splits)
qed

lemma untrace_current: "pz_current (Some ops) (untrace p) = untrace (pz_current (Some (traced ops)) p)"
proof -
  obtain r q where "pz_provide (traced ops) p = (r, q)" by (cases "pz_provide (traced ops) p")
  then show ?thesis by (simp add: pz_current_def untrace_provide split: option.splits)
qed

lemma untrace_next:
  "getNextPacket (Some ops) (untrace p) =
   map_option (\<lambda>(ok, pkt, q). (ok, pkt, untrace q)) (getNextPacket (Some (traced ops)) p)"
proof -
  let ?c = "pz_current (Some (traced ops)) (p\<lparr>pz_packet_count := pz_packet_count p + 1\<rparr>)"
  show ?thesis
  proof (cases "pz_section ?c")
    case None
    then show ?thesis by (simp add: getNextPacket_def untrace_current)
  next
    case (Some sec)
    obtain stuff nxt p1 where la: "pz_lookahead (Some (traced ops)) sec ?c = (stuff, nxt, p1)"
      by (cases "pz_lookahead (Some (traced ops)) sec ?c") auto
    show ?thesis
      by (simp add: getNextPacket_def untrace_current Some untrace_lookahead la Let_def untrace_fill
          split: option.splits)
  qed
qed

lemma untrace_transport:
  "transport ops n (untrace p) dm = map_option (map_prod untrace id) (transport (traced ops) n p dm)"
  by (induction n arbitrary: p dm) (auto simp: untrace_next option.map_comp split: option.splits)

text \<open>A provider whose sections can be transported, with or without the trace.\<close>

locale section_source = section_provider ops inv good
  for ops :: "'p Provider" and inv and good +
  assumes source_transportable: "good s \<Longrightarrow> transportable s"
    and source_consistent: "consistent (Collect good)"

sublocale section_source \<subseteq> trace: section_stream "traced ops" "\<lambda>q. inv (fst q)" good snd
proof
  fix q :: "'p \<times> Section list" and c k r q'
  assume "inv (fst q)" and "pv_provide (traced ops) c k q = (r, q')"
  moreover have "pv_provide ops c k (fst q) = (r, fst q')" and "snd q' = snd q @ opt_list r"
    using calculation(2) by (auto simp: traced_def case_prod_beta)
  ultimately show "inv (fst q') \<and> (\<forall>s. r = Some s \<longrightarrow> good s)" "snd q' = snd q @ opt_list r"
    using provide_ok [of "fst q" c k] by auto
qed (use good_wf source_transportable source_consistent in auto)

section \<open>The cycling packetizer as a source\<close>

text \<open>The last section numbers of the tables, as a function of the table and its version: the
  sections that agree with it are consistent.\<close>

definition good_for :: "(ETID \<Rightarrow> byte \<Rightarrow> byte) \<Rightarrow> Section \<Rightarrow> bool" where
  "good_for f s = (transportable s \<and> lastSectionNumber s = f (section_etid s) (version_of s))"

lemma good_for_facts: "good_for f s \<Longrightarrow> transportable s" "good_for f s \<Longrightarrow> wf_section s" "consistent (Collect (good_for f))"
  by (auto simp: good_for_def transportable_def consistent_def)

lemma consistentD:
  "consistent S \<Longrightarrow> s \<in> S \<Longrightarrow> t \<in> S \<Longrightarrow> section_etid s = section_etid t \<Longrightarrow> version_of s = version_of t \<Longrightarrow>
   lastSectionNumber s = lastSectionNumber t"
  unfolding consistent_def by blast

lemma consistent_good:
  assumes "consistent S" and "\<And>s. s \<in> S \<Longrightarrow> transportable s"
  shows "\<exists>f. S \<subseteq> Collect (good_for f)"
proof -
  define f where "f e v = lastSectionNumber (SOME s. s \<in> S \<and> section_etid s = e \<and> version_of s = v)" for e v
  have "lastSectionNumber s = f (section_etid s) (version_of s)" if "s \<in> S" for s
  proof -
    let ?t = "SOME t. t \<in> S \<and> section_etid t = section_etid s \<and> version_of t = version_of s"
    have t: "?t \<in> S \<and> section_etid ?t = section_etid s \<and> version_of ?t = version_of s"
      by (rule someI [of _ s]) (simp add: that)
    show ?thesis unfolding f_def using t by (intro consistentD [OF assms(1) that]) auto
  qed
  then show ?thesis using assms(2) by (auto simp: good_for_def)
qed

interpretation feed: section_source cycling_ops "\<lambda>c. cy_inv c \<and> cy_stored c \<subseteq> Collect (good_for f)" "good_for f" for f
proof
  fix q c k r q'
  assume i: "cy_inv q \<and> cy_stored q \<subseteq> Collect (good_for f)" and "pv_provide cycling_ops c k q = (r, q')"
  then have p: "cy_provideSection c k q = (r, q')" by (simp add: cycling_ops_def)
  show "(cy_inv q' \<and> cy_stored q' \<subseteq> Collect (good_for f)) \<and> (\<forall>s. r = Some s \<longrightarrow> good_for f s)"
    using cy_provide_inv [of q c k] i p by (auto split: option.splits)
qed (use good_for_facts in auto)

text \<open>With unscheduled sections only, what is provided goes round the list.\<close>

definition going_round :: "(ETID \<Rightarrow> byte \<Rightarrow> byte) \<Rightarrow> Section list \<Rightarrow> Cycling \<times> Section list \<Rightarrow> bool" where
  "going_round f secs = (\<lambda>(c, l). cy_sched c = [] \<and> secs \<noteq> [] \<and> (\<forall>s \<in> set secs. good_for f s) \<and>
     map sd_section (cy_other c) = rotate (length l) secs \<and> l = map (\<lambda>i. secs ! (i mod length secs)) [0..<length l])"

lemma going_round_provide:
  assumes "going_round f secs q" and "pv_provide (traced cycling_ops) c k q = (r, q')"
  shows "going_round f secs q' \<and> (\<exists>s. r = Some s \<and> good_for f s) \<and> snd q' = snd q @ opt_list r"
proof -
  obtain cy l where q: "q = (cy, l)" by (cases q)
  have g: "cy_sched cy = []" "secs \<noteq> []" "\<forall>s \<in> set secs. good_for f s"
      "map sd_section (cy_other cy) = rotate (length l) secs" "l = map (\<lambda>i. secs ! (i mod length secs)) [0..<length l]"
    using assms(1) by (simp_all add: going_round_def q)
  then have "map sd_section (cy_other cy) \<noteq> []" by simp
  then obtain d ds where o: "cy_other cy = d # ds" by (cases "cy_other cy") auto
  let ?c = "cy\<lparr>cy_cycle_end := UNDEFINED, cy_other := ds @ [cy_sent k (cy_current_cycle cy) d]\<rparr>"
  have p: "cy_provideSection c k cy = (Some (sd_section d), cy_account c d ?c)"
    using g(1) o by (simp add: cy_provideSection_def Let_def cy_force_unscheduled_def)
  have a: "cy_sched (cy_account c d ?c) = []" "cy_other (cy_account c d ?c) = ds @ [cy_sent k (cy_current_cycle cy) d]"
    using g(1) by (simp_all add: cy_account_def)
  have d: "sd_section d = secs ! (length l mod length secs)"
    using g(2,4) o by (metis hd_rotate_conv_nth list.sel(1) list.simps(9))
  have rot: "map sd_section (ds @ [cy_sent k (cy_current_cycle cy) d]) = rotate (Suc (length l)) secs"
    using g(4) [symmetric] o by (simp add: cy_sent_def)
  have "good_for f (sd_section d)" using g(2,3) d by simp
  moreover have e: "r = Some (sd_section d)" "q' = (cy_account c d ?c, l @ [sd_section d])"
    using assms(2) p by (simp_all add: traced_def q cycling_ops_def)
  moreover have "going_round f secs (cy_account c d ?c, l @ [sd_section d])"
    using g a rot d by (simp add: going_round_def)
  ultimately show ?thesis by (simp add: q)
qed

interpretation round: section_stream "traced cycling_ops" "going_round f secs" "good_for f" snd for f secs
  by unfold_locales (use going_round_provide good_for_facts in \<open>blast+\<close>)


text \<open>
  C2. From the packetizer to the demultiplexer. The packets of a cycling packetizer, fed one by
  one to a demultiplexer that listens on its PID, are received without an error (no
  discontinuity, no invalid length, index or CRC) and the sections delivered are those the
  packetizer provided, byte for byte, each once and in order; only the section the packetizer
  still holds is missing. Scheduled and unscheduled sections, any repetition rates and any
  stuffing policy. The trace that records what is provided does not change the packets.
\<close>
theorem packetize_demux:
  assumes "cy_inv c" and "\<And>s. s \<in> cy_stored c \<Longrightarrow> transportable s" and "consistent (cy_stored c)"
    and "pid \<le> 0x1FFF" and "pid \<in> pids" and "PID_NULL \<notin> pids"
  shows "\<exists>p dm L. transport (traced cycling_ops) n (Packetizer_new pid (c, [])) (SectionDemux_new th True pids) = Some (p, dm) \<and>
    transport cycling_ops n (Packetizer_new pid c) (SectionDemux_new th True pids) = Some (untrace p, dm) \<and>
    \<not> Status_hasErrors (dm_status dm) \<and>
    snd (pz_prov p) = L @ pz_pending p \<and> sections_of (dm_events dm) = map sc_data L"
proof -
  obtain f where f: "cy_stored c \<subseteq> Collect (good_for f)" using consistent_good [OF assms(3,2)] by blast
  let ?p = "Packetizer_new pid (c, [])" and ?dm = "SectionDemux_new th True pids"
  have "feed.trace.carries f 0 ?p ?dm"
    by (rule feed.trace.carries_start)
      (use assms f in \<open>simp_all add: feed.trace.pz_ok_def Packetizer_new_def\<close>)
  then obtain m p dm where r: "transport (traced cycling_ops) n ?p ?dm = Some (p, dm)" and c: "feed.trace.carries f m p dm"
    using feed.trace.transport_carries by blast
  have "untrace ?p = Packetizer_new pid c" by (simp add: untrace_def Packetizer_new_def)
  then have "transport cycling_ops n (Packetizer_new pid c) ?dm = Some (untrace p, dm)"
    using untrace_transport [of cycling_ops n ?p ?dm] r by simp
  then show ?thesis using r feed.trace.carries_result [OF c] by blast
qed

lemma sample_transportable: "num \<le> lst \<Longrightarrow> transportable (sample_section num lst)"
  using sample_section_facts [of num lst] reload_long_facts [of num lst 5 "[0xAA, 0xBB]" "0x42" True "0x1234" True "0x100"]
    wf_sectionD(1) [of "sample_section num lst"]
  by (auto simp: transportable_def sample_section_def Let_def tableId_def split: if_splits)

theorem packetize_demux_witness:
  "\<exists>p dm L. transport (traced cycling_ops) 5 (Packetizer_new 0x100 (cy_addSection 0 (sample_section 0 0) 1000 (Cycling_new AT_END 1000000), []))
      (SectionDemux_new True True {0x100}) = Some (p, dm) \<and>
    \<not> Status_hasErrors (dm_status dm) \<and> snd (pz_prov p) = L @ pz_pending p \<and> sections_of (dm_events dm) = map sc_data L"
proof -
  let ?c = "cy_addSection 0 (sample_section 0 0) 1000 (Cycling_new AT_END 1000000)"
  have c: "cy_inv ?c" "cy_stored ?c = {sample_section 0 0}"
    using cy_add_inv [OF cy_inv_new] by (simp_all add: Cycling_new_def cy_stored_def)
  with packetize_demux [where c = ?c and pid = "0x100" and pids = "{0x100}" and n = 5 and th = True] c sample_transportable show ?thesis by (fastforce simp: consistent_def)
qed

lemma sections_round:
  assumes "L = map (\<lambda>i. map g ds ! (i mod length (map g ds))) [0..<n]" and "ds \<noteq> []"
  shows "map h L = map (\<lambda>i. h (g (ds ! (i mod length ds)))) [0..<n]"
  using assms(2) unfolding assms(1) by simp

lemma map_upt_prefix:
  assumes "xs @ ys = map f [0..<length (xs @ ys)]"
  shows "xs = map f [0..<length xs]"
proof (rule nth_equalityI)
  fix i assume i: "i < length xs"
  have "(xs @ ys) ! i = map f [0..<length (xs @ ys)] ! i" by (subst assms) simp
  then show "xs ! i = map f [0..<length xs] ! i" using i by (simp add: nth_append)
qed simp

text \<open>
  C3. Progress and order: with unscheduled sections only, every 23 packets deliver at least one
  section, and the demultiplexer receives the stored sections in their order, cyclically: the
  sections delivered after \<open>n\<close> packets are the first \<open>k\<close> of the endless repetition of the list,
  with \<open>n \<le> 23 k + 22\<close>.
\<close>
theorem cycle_delivered:
  assumes "cy_sched c = []" and "cy_other c \<noteq> []" and "\<And>s. s \<in> cy_stored c \<Longrightarrow> transportable s"
    and "consistent (cy_stored c)" and "pid \<le> 0x1FFF" and "pid \<in> pids" and "PID_NULL \<notin> pids"
  shows "\<exists>p dm k. transport cycling_ops n (Packetizer_new pid c) (SectionDemux_new th True pids) = Some (p, dm) \<and>
    n \<le> 23 * k + 22 \<and> \<not> Status_hasErrors (dm_status dm) \<and>
    sections_of (dm_events dm) = map (\<lambda>i. sc_data (sd_section (cy_other c ! (i mod length (cy_other c))))) [0..<k]"
proof -
  obtain f where f: "cy_stored c \<subseteq> Collect (good_for f)" using consistent_good [OF assms(4,3)] by blast
  let ?secs = "map sd_section (cy_other c)"
  let ?p = "Packetizer_new pid (c, [])" and ?dm = "SectionDemux_new th True pids"
  have "going_round f ?secs (c, [])" using assms(1,2) f by (auto simp: going_round_def cy_stored_def)
  then have "round.carries f ?secs 0 ?p ?dm"
    using assms(5-7) by (intro round.carries_start) (simp_all add: round.pz_ok_def Packetizer_new_def)
  moreover have "fst (pv_provide (traced cycling_ops) i j q) \<noteq> None" if "going_round f ?secs q" for q i j
    using going_round_provide [OF that, of i j] by (metis fst_conv option.distinct(1) surj_pair)
  ultimately obtain p dm where r: "transport (traced cycling_ops) n ?p ?dm = Some (p, dm)"
    and c: "round.carries f ?secs n p dm"
    using round.transport_busy [of f ?secs 0 ?p ?dm n] by auto
  obtain L where L: "snd (pz_prov p) = L @ pz_pending p" "sections_of (dm_events dm) = map sc_data L" "n \<le> 23 * length L + 22"
    using round.carries_result(2) [OF c] by blast
  have "going_round f ?secs (pz_prov p)" using c by (simp add: round.carries_def round.pz_ok_def)
  then have "snd (pz_prov p) = map (\<lambda>i. ?secs ! (i mod length ?secs)) [0..<length (snd (pz_prov p))]"
    unfolding going_round_def case_prod_beta by blast
  then have "L = map (\<lambda>i. ?secs ! (i mod length ?secs)) [0..<length L]"
    unfolding L(1) by (rule map_upt_prefix)
  then have "sections_of (dm_events dm) = map (\<lambda>i. sc_data (sd_section (cy_other c ! (i mod length (cy_other c))))) [0..<length L]"
    unfolding L(2) by (rule sections_round [OF _ assms(2)])
  moreover have "untrace ?p = Packetizer_new pid c" by (simp add: untrace_def Packetizer_new_def)
  then have "transport cycling_ops n (Packetizer_new pid c) ?dm = Some (untrace p, dm)"
    using untrace_transport [of cycling_ops n ?p ?dm] r by simp
  ultimately show ?thesis using L(3) round.carries_result(1) [OF c] by blast
qed

theorem cycle_delivered_witness:
  "\<exists>p dm k. transport cycling_ops 100 (Packetizer_new 0x100
        (cy_addSection 0 (sample_section 1 1) 0 (cy_addSection 0 (sample_section 0 1) 0 (Cycling_new NEVER 0))))
      (SectionDemux_new True True {0x100}) = Some (p, dm) \<and>
    100 \<le> 23 * k + 22 \<and> \<not> Status_hasErrors (dm_status dm) \<and>
    sections_of (dm_events dm) = map (\<lambda>i. sc_data (sample_section (of_nat (i mod 2)) 1)) [0..<k]"
proof -
  let ?c = "cy_addSection 0 (sample_section 1 1) 0 (cy_addSection 0 (sample_section 0 1) 0 (Cycling_new NEVER 0))"
  have c: "cy_sched ?c = []" "map sd_section (cy_other ?c) = [sample_section 0 1, sample_section 1 1]" "length (cy_other ?c) = 2"
      "cy_stored ?c = {sample_section 0 1, sample_section 1 1}" "cy_other ?c \<noteq> []"
    by (auto simp: cy_addSection_def Cycling_new_def cy_stored_def)
  have n: "sd_section (cy_other ?c ! (i mod 2)) = sample_section (of_nat (i mod 2)) 1" for i
  proof -
    have "sd_section (cy_other ?c ! (i mod 2)) = map sd_section (cy_other ?c) ! (i mod 2)" using c(3) by simp
    then show ?thesis unfolding c(2) by (cases "i mod 2 = 0") (auto simp: not_mod_2_eq_0_eq_1)
  qed
  have "transportable s" if "s \<in> cy_stored ?c" for s using that sample_transportable by (auto simp: c(4))
  moreover have "consistent (cy_stored ?c)" unfolding consistent_def c(4) using sample_section_facts by auto
  ultimately show ?thesis
    using cycle_delivered [where c = ?c and pid = "0x100" and pids = "{0x100}" and n = 100 and th = True] c(1,5)
    by (simp add: c(3) n)
qed

end
