(* ===== verification/Ts_Encaps.thy ===== *)
theory Ts_Encaps
  imports Ts_Packet Ts_Map
begin

text \<open>
  Encapsulation of whole packets in one PID: \<open>tsPacketEncapsulation.cpp\<close> and
  \<open>tsPacketDecapsulation.cpp\<close>. The elementary stream is the sequence of the encapsulated
  packets without their sync byte. The queue of late packets is a list, \<open>_lateIndex\<close> an
  index in its first packet; error messages are an enumeration. The assertions of the code are
  not executed: they are theorems here.
\<close>

section \<open>Encapsulation\<close>

datatype EncapsError = PIDConflict u16 | BufferedPacketsOverflow

record PacketEncapsulation =
  ec_pidOutput :: u16
  ec_pidInput :: "u16 set"
  ec_pcrReference :: u16
  ec_lastError :: "EncapsError option"
  ec_currentPacket :: PacketCounter
  ec_pcrLastPacket :: PacketCounter
  ec_pcrLastValue :: u64
  ec_bitrate :: BitRate
  ec_insertPCR :: bool
  ec_ccOutput :: byte
  ec_lastCC :: "(u16 \<times> byte) list"
  ec_lateMaxPackets :: nat
  ec_lateIndex :: nat
  ec_latePackets :: "TSPacket list"

definition DEFAULT_MAX_BUFFERED_PACKETS :: nat where
  "DEFAULT_MAX_BUFFERED_PACKETS = 1024"

definition PacketEncapsulation_new :: "u16 \<Rightarrow> u16 set \<Rightarrow> u16 \<Rightarrow> PacketEncapsulation" where
  "PacketEncapsulation_new pidOutput pidInput pcrReference =
     \<lparr>ec_pidOutput = pidOutput, ec_pidInput = pidInput, ec_pcrReference = pcrReference, ec_lastError = None,
      ec_currentPacket = 0, ec_pcrLastPacket = INVALID_PACKET_COUNTER, ec_pcrLastValue = INVALID_PCR,
      ec_bitrate = 0, ec_insertPCR = False, ec_ccOutput = 0, ec_lastCC = [],
      ec_lateMaxPackets = DEFAULT_MAX_BUFFERED_PACKETS, ec_lateIndex = 0, ec_latePackets = []\<rparr>"

definition resetPCR :: "PacketEncapsulation \<Rightarrow> PacketEncapsulation" where
  "resetPCR e = e\<lparr>ec_pcrLastPacket := INVALID_PACKET_COUNTER, ec_pcrLastValue := INVALID_PCR,
     ec_bitrate := 0, ec_insertPCR := False\<rparr>"

definition enc_reset :: "u16 \<Rightarrow> u16 set \<Rightarrow> u16 \<Rightarrow> PacketEncapsulation \<Rightarrow> PacketEncapsulation" where
  "enc_reset pidOutput pidInput pcrReference e =
     resetPCR (e\<lparr>ec_pidOutput := pidOutput, ec_pidInput := pidInput, ec_pcrReference := pcrReference,
       ec_lastError := None, ec_currentPacket := 0, ec_ccOutput := 0, ec_lastCC := [], ec_lateIndex := 0,
       ec_latePackets := []\<rparr>)"

definition setOutputPID :: "u16 \<Rightarrow> PacketEncapsulation \<Rightarrow> PacketEncapsulation" where
  "setOutputPID pid e =
     (if pid \<noteq> ec_pidOutput e
      then e\<lparr>ec_pidOutput := pid, ec_ccOutput := 0, ec_lastCC := [], ec_lateIndex := 0, ec_latePackets := []\<rparr>
      else e)"

definition setMaxBufferedPackets :: "nat \<Rightarrow> PacketEncapsulation \<Rightarrow> PacketEncapsulation" where
  "setMaxBufferedPackets count e = e\<lparr>ec_lateMaxPackets := max 8 count\<rparr>"

definition setReferencePCR :: "u16 \<Rightarrow> PacketEncapsulation \<Rightarrow> PacketEncapsulation" where
  "setReferencePCR pid e = (if pid \<noteq> ec_pcrReference e then resetPCR (e\<lparr>ec_pcrReference := pid\<rparr>) else e)"

definition setInputPIDs :: "u16 set \<Rightarrow> PacketEncapsulation \<Rightarrow> PacketEncapsulation" where
  "setInputPIDs pidInput e = e\<lparr>ec_pidInput := pidInput - {PID_NULL}\<rparr>"

definition addInputPID :: "u16 \<Rightarrow> PacketEncapsulation \<Rightarrow> PacketEncapsulation" where
  "addInputPID pid e = (if pid < PID_NULL then e\<lparr>ec_pidInput := insert pid (ec_pidInput e)\<rparr> else e)"

definition removeInputPID :: "u16 \<Rightarrow> PacketEncapsulation \<Rightarrow> PacketEncapsulation" where
  "removeInputPID pid e = (if pid < PID_NULL then e\<lparr>ec_pidInput := ec_pidInput e - {pid}\<rparr> else e)"

text \<open>The continuity of an input PID (lines 171 to 185).\<close>

definition enc_continuity :: "u16 \<Rightarrow> byte \<Rightarrow> PacketEncapsulation \<Rightarrow> PacketEncapsulation" where
  "enc_continuity pid cc e =
     (if pid = PID_NULL then e
      else (case omap_get (ec_lastCC e) pid of
          None \<Rightarrow> e\<lparr>ec_lastCC := omap_put pid cc (ec_lastCC e)\<rparr>
        | Some l \<Rightarrow>
            let e1 = (if cc \<noteq> (l + 1) AND CC_MASK then resetPCR e else e)
            in e1\<lparr>ec_lastCC := omap_put pid cc (ec_lastCC e1)\<rparr>))"

text \<open>The bitrate from the clocks of the reference PID (lines 188 to 203).\<close>

definition enc_collectPCR :: "u16 \<Rightarrow> TSPacket \<Rightarrow> PacketEncapsulation \<Rightarrow> PacketEncapsulation" where
  "enc_collectPCR pid pkt e =
     (if ec_pcrReference e \<noteq> PID_NULL \<and> pid = ec_pcrReference e \<and> hasPCR pkt then
        let pcr = getPCR pkt;
            e1 = (if ec_pcrLastValue e \<noteq> INVALID_PCR \<and> ec_pcrLastValue e < pcr
                  then let ms = ((pcr - ec_pcrLastValue e) * 1000) div SYSTEM_CLOCK_FREQ
                       in e\<lparr>ec_bitrate := PacketBitRate (ec_currentPacket e - ec_pcrLastPacket e) ms, ec_insertPCR := True\<rparr>
                  else e)
        in e1\<lparr>ec_pcrLastPacket := ec_currentPacket e1, ec_pcrLastValue := pcr\<rparr>
      else e)"

text \<open>The queue (lines 206 to 231): the return status, and whether the packet is replaced.\<close>

definition enc_conflict :: "u16 \<Rightarrow> PacketEncapsulation \<Rightarrow> bool \<times> PacketEncapsulation" where
  "enc_conflict pid e =
     (if pid = ec_pidOutput e \<and> pid \<notin> ec_pidInput e then (False, e\<lparr>ec_lastError := Some (PIDConflict pid)\<rparr>) else (True, e))"

definition enc_enqueue :: "TSPacket \<Rightarrow> PacketEncapsulation \<Rightarrow> bool \<times> PacketEncapsulation" where
  "enc_enqueue pkt e =
     (if length (ec_latePackets e) > ec_lateMaxPackets e
      then (False, e\<lparr>ec_lastError := Some BufferedPacketsOverflow\<rparr>)
      else let e1 = e\<lparr>ec_latePackets := ec_latePackets e @ [pkt]\<rparr>
           in (True, if length (ec_latePackets e1) = 1 then e1\<lparr>ec_lateIndex := 1\<rparr> else e1))"

definition fillPacket :: "PacketEncapsulation \<times> TSPacket \<times> nat \<Rightarrow> PacketEncapsulation \<times> TSPacket \<times> nat" where
  "fillPacket = (\<lambda>(e, pkt, pktIndex).
     let size = min (PKT_SIZE - pktIndex) (PKT_SIZE - ec_lateIndex e);
         pkt1 = memcpy_at pkt pktIndex (take size (drop (ec_lateIndex e) (hd (ec_latePackets e))));
         e1 = e\<lparr>ec_lateIndex := ec_lateIndex e + size\<rparr>;
         e2 = (if ec_lateIndex e1 \<ge> PKT_SIZE then e1\<lparr>ec_latePackets := tl (ec_latePackets e1), ec_lateIndex := 1\<rparr> else e1)
     in (e2, pkt1, pktIndex + size))"

text \<open>The output packet (lines 236 to 294): its header, the clock, the stuffing, the pointer
  field and the payload.\<close>

definition enc_header :: "PacketEncapsulation \<Rightarrow> TSPacket" where
  "enc_header e = setCC (setPID ((replicate PKT_SIZE 0)[0 := SYNC_BYTE, 3 := 0x10]) (ec_pidOutput e)) (ec_ccOutput e)"

definition enc_pcr :: "PacketEncapsulation \<Rightarrow> TSPacket \<Rightarrow> packet_error + (PacketEncapsulation \<times> TSPacket \<times> nat)" where
  "enc_pcr e pkt =
     (if ec_insertPCR e \<and> ec_bitrate e \<noteq> 0 \<and> ec_pcrLastPacket e \<noteq> INVALID_PACKET_COUNTER \<and> ec_pcrLastValue e \<noteq> INVALID_PCR then
        let pcrDistance = (PacketInterval (ec_bitrate e) (ec_currentPacket e - ec_pcrLastPacket e) * SYSTEM_CLOCK_FREQ) div 1000;
            pcr = (ec_pcrLastValue e + pcrDistance) AND PCR_MASK;
            pkt1 = pkt[3 := pkt ! 3 OR 0x20, 4 := 7, 5 := 0x10]
        in (case setPCR pkt1 pcr of
              Inl err \<Rightarrow> Inl err
            | Inr pkt2 \<Rightarrow> Inr (e\<lparr>ec_insertPCR := False\<rparr>, pkt2, 12))
      else Inr (e, pkt, 4))"

definition enc_stuff :: "PacketEncapsulation \<times> TSPacket \<times> nat \<Rightarrow> PacketEncapsulation \<times> TSPacket \<times> nat" where
  "enc_stuff = (\<lambda>(e, pkt, pktIndex).
     if length (ec_latePackets e) = 1 \<and> ec_lateIndex e > pktIndex
     then (e, pkt[3 := pkt ! 3 OR 0x20, 4 := of_nat (ec_lateIndex e - 5)], ec_lateIndex e)
     else (e, pkt, pktIndex))"

definition enc_pointer :: "PacketEncapsulation \<times> TSPacket \<times> nat \<Rightarrow> PacketEncapsulation \<times> TSPacket \<times> nat" where
  "enc_pointer = (\<lambda>(e, pkt, pktIndex).
     if ec_lateIndex e > pktIndex
     then (e, (setPUSI pkt)[pktIndex := of_nat (PKT_SIZE - ec_lateIndex e)], pktIndex + 1)
     else (e, pkt, pktIndex))"

definition enc_fill :: "PacketEncapsulation \<times> TSPacket \<times> nat \<Rightarrow> PacketEncapsulation \<times> TSPacket \<times> nat" where
  "enc_fill s = (let (e1, pkt1, i1) = fillPacket s in if i1 < PKT_SIZE then fillPacket (e1, pkt1, i1) else (e1, pkt1, i1))"

definition enc_output :: "PacketEncapsulation \<Rightarrow> packet_error + (PacketEncapsulation \<times> TSPacket)" where
  "enc_output e =
     (case enc_pcr (e\<lparr>ec_ccOutput := (ec_ccOutput e + 1) AND CC_MASK\<rparr>) (enc_header e) of
        Inl err \<Rightarrow> Inl err
      | Inr s \<Rightarrow> (case enc_fill (enc_pointer (enc_stuff s)) of (e1, pkt, _) \<Rightarrow> Inr (e1, pkt)))"

definition enc_processPacket ::
  "TSPacket \<Rightarrow> PacketEncapsulation \<Rightarrow> packet_error + (bool \<times> TSPacket \<times> PacketEncapsulation)" where
  "enc_processPacket pkt e =
     (let pid = getPID pkt;
          (st1, e1) = enc_conflict pid (enc_collectPCR pid pkt (enc_continuity pid (getCC pkt) e));
          take_it = (pid \<in> ec_pidInput e1 \<and> ec_pidOutput e1 \<noteq> PID_NULL);
          (st2, e2) = (if take_it then enc_enqueue pkt e1 else (True, e1))
      in if (take_it \<or> pid = PID_NULL) \<and> ec_latePackets e2 \<noteq> [] then
           (case enc_output e2 of
              Inl err \<Rightarrow> Inl err
            | Inr (e3, pkt3) \<Rightarrow> Inr (st1 \<and> st2, pkt3, e3\<lparr>ec_currentPacket := ec_currentPacket e3 + 1\<rparr>))
         else Inr (st1 \<and> st2, pkt, e2\<lparr>ec_currentPacket := ec_currentPacket e2 + 1\<rparr>))"

section \<open>Decapsulation\<close>

datatype DecapsError = PointerOutOfRange | InputDiscontinuity

record PacketDecapsulation =
  de_pidInput :: u16
  de_synchronized :: bool
  de_ccInput :: byte
  de_nextIndex :: nat
  de_nextPacket :: TSPacket
  de_lastError :: "DecapsError option"

definition PacketDecapsulation_new :: "u16 \<Rightarrow> PacketDecapsulation" where
  "PacketDecapsulation_new pid = \<lparr>de_pidInput = pid, de_synchronized = False, de_ccInput = 0, de_nextIndex = 1,
     de_nextPacket = (replicate PKT_SIZE 0)[0 := SYNC_BYTE], de_lastError = None\<rparr>"

definition dec_reset :: "u16 \<Rightarrow> PacketDecapsulation \<Rightarrow> PacketDecapsulation" where
  "dec_reset pid d = d\<lparr>de_pidInput := pid, de_synchronized := False, de_nextIndex := 1, de_lastError := None\<rparr>"

definition lostSync :: "DecapsError \<Rightarrow> PacketDecapsulation \<Rightarrow> PacketDecapsulation" where
  "lostSync error d = d\<lparr>de_synchronized := False, de_nextIndex := 1, de_lastError := Some error\<rparr>"

text \<open>The copy of the payload from \<open>pktIndex\<close> on (lines 125 to 149).\<close>

definition dec_copy :: "TSPacket \<Rightarrow> nat \<Rightarrow> PacketDecapsulation \<Rightarrow> TSPacket \<times> PacketDecapsulation" where
  "dec_copy pkt pktIndex d =
     (let size = min (PKT_SIZE - pktIndex) (PKT_SIZE - de_nextIndex d);
          d1 = d\<lparr>de_nextPacket := memcpy_at (de_nextPacket d) (de_nextIndex d) (take size (drop pktIndex pkt)),
                 de_nextIndex := de_nextIndex d + size\<rparr>
      in if de_nextIndex d1 = PKT_SIZE
         then (de_nextPacket d1,
               d1\<lparr>de_nextPacket := memcpy_at (de_nextPacket d1) 1 (drop (pktIndex + size) pkt),
                  de_nextIndex := 1 + (PKT_SIZE - (pktIndex + size))\<rparr>)
         else (NullPacket, d1))"

definition dec_processPacket :: "TSPacket \<Rightarrow> PacketDecapsulation \<Rightarrow> bool \<times> TSPacket \<times> PacketDecapsulation" where
  "dec_processPacket pkt d =
     (if de_pidInput d = PID_NULL \<or> getPID pkt \<noteq> de_pidInput d then (True, pkt, d)
      else
        let pusi = getPUSI pkt;
            hasPointer = (pusi \<and> getHeaderSize pkt < PKT_SIZE);
            pointerField = (if hasPointer then unat (pkt ! getHeaderSize pkt) else 0);
            pktIndex = (if hasPointer then getHeaderSize pkt + 1 else getHeaderSize pkt)
        in if pusi \<and> pktIndex + pointerField > PKT_SIZE then (False, NullPacket, lostSync PointerOutOfRange d)
           else
             let cc = getCC pkt;
                 d1 = (if de_synchronized d \<and> cc \<noteq> (de_ccInput d + 1) AND CC_MASK then lostSync InputDiscontinuity d else d);
                 d2 = d1\<lparr>de_ccInput := cc\<rparr>
             in if de_synchronized d2 then (case dec_copy pkt pktIndex d2 of (p, d3) \<Rightarrow> (True, p, d3))
                else if pusi
                then (case dec_copy pkt (pktIndex + pointerField) (d2\<lparr>de_synchronized := True\<rparr>) of (p, d3) \<Rightarrow> (True, p, d3))
                else (True, NullPacket, d2))"

section \<open>The encapsulated stream as a queue of bytes\<close>

definition es_bytes :: "TSPacket list \<Rightarrow> byte list" where
  "es_bytes ps = concat (map tl ps)"

lemma es_bytes_simps [simp]: "es_bytes [] = []" "es_bytes (p # ps) = tl p @ es_bytes ps" "es_bytes (ps @ qs) = es_bytes ps @ es_bytes qs"
  by (simp_all add: es_bytes_def)

definition enc_bytes :: "PacketEncapsulation \<Rightarrow> byte list" where
  "enc_bytes e = (case ec_latePackets e of [] \<Rightarrow> [] | p # ps \<Rightarrow> drop (ec_lateIndex e) p @ es_bytes ps)"

definition enc_inv :: "PacketEncapsulation \<Rightarrow> bool" where
  "enc_inv e = ((\<forall>p \<in> set (ec_latePackets e). length p = PKT_SIZE \<and> p ! 0 = SYNC_BYTE) \<and>
     (ec_latePackets e \<noteq> [] \<longrightarrow> 1 \<le> ec_lateIndex e \<and> ec_lateIndex e < PKT_SIZE) \<and>
     ec_pidOutput e \<le> 0x1FFF \<and> ec_ccOutput e \<le> 0x0F \<and> length (ec_latePackets e) \<le> ec_lateMaxPackets e + 1)"

lemma fillPacket_facts:
  assumes inv: "enc_inv e" and ne: "ec_latePackets e = p # ps" and idx: "idx < PKT_SIZE" "length pkt = PKT_SIZE"
  defines "sz \<equiv> min (PKT_SIZE - idx) (PKT_SIZE - ec_lateIndex e)"
  shows "\<exists>e'. fillPacket (e, pkt, idx) =
      (e', take idx pkt @ take sz (drop (ec_lateIndex e) p) @ drop (idx + sz) pkt, idx + sz) \<and>
    enc_inv e' \<and> enc_bytes e = take sz (drop (ec_lateIndex e) p) @ enc_bytes e' \<and>
    e' = e\<lparr>ec_latePackets := ec_latePackets e', ec_lateIndex := ec_lateIndex e'\<rparr> \<and>
    (if PKT_SIZE - ec_lateIndex e \<le> PKT_SIZE - idx then ec_latePackets e' = ps \<and> ec_lateIndex e' = 1
     else ec_latePackets e' = p # ps \<and> ec_lateIndex e' = ec_lateIndex e + (PKT_SIZE - idx))"
proof -
  have p: "length p = 188" "1 \<le> ec_lateIndex e" "ec_lateIndex e < 188" using inv ne by (auto simp: enc_inv_def)
  have l: "length (take sz (drop (ec_lateIndex e) p)) = sz" using p by (simp add: sz_def)
  have c: "memcpy_at pkt idx (take sz (drop (ec_lateIndex e) p)) =
      take idx pkt @ take sz (drop (ec_lateIndex e) p) @ drop (idx + sz) pkt"
    using l unfolding memcpy_at_def by simp
  show ?thesis
  proof (cases "PKT_SIZE - ec_lateIndex e \<le> PKT_SIZE - idx")
    case True
    then have s: "sz = 188 - ec_lateIndex e" "188 \<le> ec_lateIndex e + sz" using p by (simp_all add: sz_def)
    let ?e = "e\<lparr>ec_latePackets := ps, ec_lateIndex := 1\<rparr>"
    have "fillPacket (e, pkt, idx) = (?e, take idx pkt @ take sz (drop (ec_lateIndex e) p) @ drop (idx + sz) pkt, idx + sz)"
      unfolding fillPacket_def Let_def prod.case sz_def [symmetric] ne list.sel c using s(2) ne by simp
    moreover have "enc_inv ?e" using inv ne by (simp add: enc_inv_def)
    moreover have "enc_bytes e = take sz (drop (ec_lateIndex e) p) @ enc_bytes ?e"
      using p s ne by (simp add: enc_bytes_def drop_Suc split: list.splits)
    ultimately show ?thesis using True by auto
  next
    case False
    then have s: "sz = 188 - idx" "\<not> 188 \<le> ec_lateIndex e + sz" using p idx by (auto simp: sz_def)
    let ?e = "e\<lparr>ec_lateIndex := ec_lateIndex e + sz\<rparr>"
    have "fillPacket (e, pkt, idx) = (?e, take idx pkt @ take sz (drop (ec_lateIndex e) p) @ drop (idx + sz) pkt, idx + sz)"
      unfolding fillPacket_def Let_def prod.case sz_def [symmetric] ne list.sel c using s(2) by simp
    moreover have "enc_inv ?e" using inv ne s by (simp add: enc_inv_def)
    moreover have "enc_bytes e = take sz (drop (ec_lateIndex e) p) @ enc_bytes ?e"
      using ne by (simp add: enc_bytes_def add.commute flip: drop_drop)
    ultimately show ?thesis using False s ne by auto
  qed
qed

lemma enc_fill_facts:
  assumes inv: "enc_inv e" and ne: "ec_latePackets e \<noteq> []" and idx: "idx < PKT_SIZE" "length pkt = PKT_SIZE"
    and two: "ec_lateIndex e \<le> idx \<or> 2 \<le> length (ec_latePackets e) \<and> ec_lateIndex e - idx < PKT_SIZE - 1"
  shows "\<exists>e' w. enc_fill (e, pkt, idx) = (e', take idx pkt @ w, PKT_SIZE) \<and> enc_inv e' \<and>
    enc_bytes e = w @ enc_bytes e' \<and> length w = PKT_SIZE - idx \<and>
    e' = e\<lparr>ec_latePackets := ec_latePackets e', ec_lateIndex := ec_lateIndex e'\<rparr> \<and>
    (if ec_lateIndex e < idx then ec_latePackets e' = ec_latePackets e \<and> ec_lateIndex e' = ec_lateIndex e + (PKT_SIZE - idx)
     else ec_latePackets e' = tl (ec_latePackets e) \<and> ec_lateIndex e' = 1 + (ec_lateIndex e - idx))"
proof -
  obtain p ps where p: "ec_latePackets e = p # ps" using ne by (cases "ec_latePackets e") auto
  have pl: "length p = 188" "1 \<le> ec_lateIndex e" "ec_lateIndex e < 188" using inv p by (auto simp: enc_inv_def)
  define sz where "sz = min (PKT_SIZE - idx) (PKT_SIZE - ec_lateIndex e)"
  define w where "w = take sz (drop (ec_lateIndex e) p)"
  obtain e1 where f: "fillPacket (e, pkt, idx) = (e1, take idx pkt @ w @ drop (idx + sz) pkt, idx + sz)"
    and e1: "enc_inv e1" "enc_bytes e = w @ enc_bytes e1"
      "e1 = e\<lparr>ec_latePackets := ec_latePackets e1, ec_lateIndex := ec_lateIndex e1\<rparr>"
      "if PKT_SIZE - ec_lateIndex e \<le> PKT_SIZE - idx then ec_latePackets e1 = ps \<and> ec_lateIndex e1 = 1
       else ec_latePackets e1 = p # ps \<and> ec_lateIndex e1 = ec_lateIndex e + (PKT_SIZE - idx)"
    using fillPacket_facts [OF inv p idx] unfolding sz_def [symmetric] w_def [symmetric] by blast
  have lw: "length w = sz" using pl by (simp add: w_def sz_def)
  show ?thesis
  proof (cases "ec_lateIndex e \<le> idx")
    case True
    then have s: "sz = 188 - idx" using idx by (simp add: sz_def)
    have "enc_fill (e, pkt, idx) = (e1, take idx pkt @ w, 188)"
      using f idx s unfolding enc_fill_def by (simp add: Let_def)
    moreover have "if ec_lateIndex e < idx then ec_latePackets e1 = ec_latePackets e \<and> ec_lateIndex e1 = ec_lateIndex e + (188 - idx)
        else ec_latePackets e1 = tl (ec_latePackets e) \<and> ec_lateIndex e1 = 1 + (ec_lateIndex e - idx)"
      using e1(4) True p idx by (auto split: if_splits)
    ultimately show ?thesis using e1(1-3) s lw by blast
  next
    case False
    then have s: "sz = 188 - ec_lateIndex e" "idx + sz < 188" using pl by (auto simp: sz_def)
    obtain q qs where q: "ps = q # qs" using two False p by (cases ps) auto
    have e1': "ec_latePackets e1 = q # qs" "ec_lateIndex e1 = 1" using e1(4) s q by (auto split: if_splits)
    let ?pkt = "take idx pkt @ w @ drop (idx + sz) pkt"
    have lp: "length ?pkt = 188" using idx lw s by simp
    define sz2 where "sz2 = min (PKT_SIZE - (idx + sz)) (PKT_SIZE - ec_lateIndex e1)"
    define w2 where "w2 = take sz2 (drop (ec_lateIndex e1) q)"
    obtain e2 where f2: "fillPacket (e1, ?pkt, idx + sz) =
        (e2, take (idx + sz) ?pkt @ w2 @ drop (idx + sz + sz2) ?pkt, idx + sz + sz2)"
      and e2: "enc_inv e2" "enc_bytes e1 = w2 @ enc_bytes e2"
        "e2 = e1\<lparr>ec_latePackets := ec_latePackets e2, ec_lateIndex := ec_lateIndex e2\<rparr>"
        "if PKT_SIZE - ec_lateIndex e1 \<le> PKT_SIZE - (idx + sz) then ec_latePackets e2 = qs \<and> ec_lateIndex e2 = 1
         else ec_latePackets e2 = q # qs \<and> ec_lateIndex e2 = ec_lateIndex e1 + (PKT_SIZE - (idx + sz))"
      using fillPacket_facts [OF e1(1) e1'(1) s(2) lp] unfolding sz2_def [symmetric] w2_def [symmetric] by blast
    have s2: "sz2 = ec_lateIndex e - idx" using e1'(2) s False two idx pl by (auto simp: sz2_def)
    have ql: "length q = 188" using e1(1) e1'(1) by (simp add: enc_inv_def)
    then have lw2: "length w2 = sz2" by (simp add: w2_def sz2_def)
    have t: "take (idx + sz) ?pkt = take idx pkt @ w" "drop (idx + sz + sz2) ?pkt = []"
      using lw idx s s2 False by simp_all
    have fin: "enc_fill (e, pkt, idx) = (e2, take idx pkt @ w @ w2, 188)"
    proof -
      have "idx + sz + sz2 = 188" using s s2 False pl by linarith
      then have f2': "fillPacket (e1, ?pkt, idx + sz) = (e2, take idx pkt @ w @ w2, 188)"
        using f2 unfolding t append_assoc append_Nil2 by simp
      show ?thesis unfolding enc_fill_def f Let_def prod.case f2' using s(2) by (simp only: if_True)
    qed
    have r1: "e2 = e\<lparr>ec_latePackets := ec_latePackets e2, ec_lateIndex := ec_lateIndex e2\<rparr>"
      by (subst e2(3), subst e1(3)) simp
    have r2: "ec_latePackets e2 = tl (ec_latePackets e)" "ec_lateIndex e2 = 1 + (ec_lateIndex e - idx)"
    proof -
      have "\<not> PKT_SIZE - ec_lateIndex e1 \<le> PKT_SIZE - (idx + sz)" using e1'(2) s two False pl by linarith
      then have "ec_latePackets e2 = q # qs" "ec_lateIndex e2 = ec_lateIndex e1 + (PKT_SIZE - (idx + sz))" using e2(4) by simp_all
      then show "ec_latePackets e2 = tl (ec_latePackets e)" "ec_lateIndex e2 = 1 + (ec_lateIndex e - idx)"
        using e1'(2) p q s False pl by simp_all
    qed
    have r3: "enc_bytes e = (w @ w2) @ enc_bytes e2" unfolding append_assoc e2(2) [symmetric] by (rule e1(2))
    have r4: "length (w @ w2) = 188 - idx" unfolding length_append lw lw2 using s s2 False pl by linarith
    have r5: "if ec_lateIndex e < idx then ec_latePackets e2 = ec_latePackets e \<and> ec_lateIndex e2 = ec_lateIndex e + (PKT_SIZE - idx)
        else ec_latePackets e2 = tl (ec_latePackets e) \<and> ec_lateIndex e2 = 1 + (ec_lateIndex e - idx)"
      using r2 False by simp
    show ?thesis by (rule exI [of _ e2], rule exI [of _ "w @ w2"], intro conjI fin e2(1) r3 r4 r1 r5)
  qed
qed


section \<open>The output packet\<close>

text \<open>The header of an output packet: the fields a receiver reads.\<close>

lemma header_fields:
  assumes pid: "pid \<le> 0x1FFF" and cc: "cc \<le> 0x0F"
    and b: "b ! 0 = SYNC_BYTE" "b ! 1 = (if pusi then 0x40 else 0) OR (ucast (drop_bit 8 pid) AND 0x1F)"
      "b ! 2 = ucast (pid AND 0xFF)" "b ! 3 = 0x10 OR (if af then 0x20 else 0) OR cc"
  shows "getPID b = pid" "getPUSI b = pusi" "getCC b = cc" "hasAF b = af"
    "getHeaderSize b = min (4 + (if af then unat (b ! 4) + 1 else 0)) PKT_SIZE"
proof -
  have p: "take_bit 13 pid = pid" and c: "take_bit 4 cc = cc"
    using pid cc by (simp_all add: take_bit_word_id word_le_nat_alt)
  have nb: "\<not> bit pid i" if "13 \<le> i" for i using not_bit_take_bit_id [OF p that] .
  have nc: "\<not> bit cc i" if "4 \<le> i" for i using not_bit_take_bit_id [OF c that] .
  have m13: "bit (0x1FFF :: u16) i = (i < 13)" for i unfolding u16_masks by (auto simp: bit_mask_iff)
  have m8: "bit (0x00FF :: u16) i = (i < 8)" for i unfolding u16_masks by (auto simp: bit_mask_iff)
  have m5: "bit (0x1F :: byte) i = (i < 5)" for i unfolding byte_masks by (auto simp: bit_mask_iff)
  have m4: "bit (0x0F :: byte) i = (i < 4)" for i unfolding byte_masks by (auto simp: bit_mask_iff)
  have s6: "bit (if pusi then 0x40 else 0 :: byte) i = (pusi \<and> i = 6)" if "i < 8" for i
  proof -
    have e: "(0x40 :: byte) = 2 ^ 6" by simp
    have "bit (2 ^ 6 :: byte) i = (i = 6)" unfolding bit_exp_iff using that by auto
    then show ?thesis by (simp only: e split: if_splits) simp
  qed
  have s4: "bit (0x10 :: byte) i = (i = 4)" if "i < 8" for i
  proof -
    have e: "(0x10 :: byte) = 2 ^ 4" by simp
    show ?thesis unfolding e bit_exp_iff using that by auto
  qed
  have s5: "bit (if af then 0x20 else 0 :: byte) i = (af \<and> i = 5)" if "i < 8" for i
  proof -
    have e: "(0x20 :: byte) = 2 ^ 5" by simp
    have "bit (2 ^ 5 :: byte) i = (i = 5)" unfolding bit_exp_iff using that by auto
    then show ?thesis by (simp only: e split: if_splits) simp
  qed
  have b1: "bit (b ! 1) i = (pusi \<and> i = 6 \<or> bit pid (8 + i) \<and> i < 5)" if "i < 8" for i
    unfolding b bit_or_iff bit_and_iff s6 [OF that] m5 using that by (auto simp: bit_unsigned_iff bit_drop_bit_eq)
  have b2: "bit (b ! 2) i = bit pid i" if "i < 8" for i
    unfolding b bit_unsigned_iff bit_and_iff m8 using that by auto
  have b3: "bit (b ! 3) i = (i = 4 \<or> af \<and> i = 5 \<or> bit cc i)" if "i < 8" for i
    unfolding b bit_or_iff s4 [OF that] s5 [OF that] by auto
  show "getPID b = pid"
  proof (rule bit_word_eqI)
    fix i assume "i < LENGTH(16)"
    then have i: "i < 16" by simp
    have g: "bit (getPID b) i = ((8 \<le> i \<and> bit (b ! 1) (i - 8) \<or> bit (b ! 2) i) \<and> i < 13)"
      unfolding getPID_def GetUInt16_def bit_and_iff m13 bit_or_iff bit_push_bit_iff bit_unsigned_iff one_add_one
      using i by (auto dest: bit_imp_le_length)
    show "bit (getPID b) i = bit pid i"
    proof (cases "i < 8")
      case True
      then show ?thesis unfolding g b2 [OF True] by auto
    next
      case False
      then have "bit (b ! 1) (i - 8) = (pusi \<and> i = 14 \<or> bit pid i \<and> i < 13)" using b1 [of "i - 8"] i by auto
      moreover have "\<not> bit (b ! 2) i" using False bit_imp_le_length [of "b ! 2" i] by auto
      ultimately show ?thesis unfolding g using False nb [of i] by auto
    qed
  qed
  show "getPUSI b = pusi" unfolding getPUSI_def byte_flags using b1 [of 6] by simp
  show "getCC b = cc"
  proof (rule bit_word_eqI)
    fix i assume "i < LENGTH(8)"
    then have i: "i < 8" by simp
    show "bit (getCC b) i = bit cc i" unfolding getCC_def bit_and_iff m4 b3 [OF i] using nc [of i] by (cases "i < 4") auto
  qed
  show af: "hasAF b = af" unfolding hasAF_def byte_flags using b3 [of 5] nc [of 5] by simp
  show "getHeaderSize b = min (4 + (if af then unat (b ! 4) + 1 else 0)) PKT_SIZE" unfolding getHeaderSize_def af ..
qed

text \<open>The first bytes of the packet under construction, and where its payload starts.\<close>

definition enc_head :: "u16 \<Rightarrow> byte \<Rightarrow> bool \<Rightarrow> bool \<Rightarrow> nat \<Rightarrow> TSPacket \<Rightarrow> bool" where
  "enc_head pid cc pusi af h b = (length b = PKT_SIZE \<and> b ! 0 = SYNC_BYTE \<and>
     b ! 1 = (if pusi then 0x40 else 0) OR (ucast (drop_bit 8 pid) AND 0x1F) \<and> b ! 2 = ucast (pid AND 0xFF) \<and>
     b ! 3 = 0x10 OR (if af then 0x20 else 0) OR cc \<and> h = 4 + (if af then unat (b ! 4) + 1 else 0))"

lemma and_0F: "cc \<le> 0x0F \<Longrightarrow> cc AND 0x0F = cc" for cc :: byte
proof -
  assume "cc \<le> 0x0F"
  then have "unat cc < 2 ^ 4" by (simp add: word_le_nat_alt)
  then show ?thesis unfolding byte_masks(3) take_bit_eq_mask [symmetric] by (rule take_bit_word_id)
qed

lemma enc_header_head: "ec_ccOutput e \<le> 0x0F \<Longrightarrow> enc_head (ec_pidOutput e) (ec_ccOutput e) False False 4 (enc_header e)"
  by (simp add: enc_head_def enc_header_def setCC_def setPID_def Let_def nth_list_update and_0F)

lemma enc_pcr_facts:
  assumes h: "enc_head pid cc False False 4 pkt"
  shows "\<exists>e1 p1 i1 af. enc_pcr e pkt = Inr (e1, p1, i1) \<and> enc_head pid cc False af i1 p1 \<and> i1 \<le> 12 \<and>
    e1 = e\<lparr>ec_insertPCR := ec_insertPCR e1\<rparr>"
proof (cases "ec_insertPCR e \<and> ec_bitrate e \<noteq> 0 \<and> ec_pcrLastPacket e \<noteq> INVALID_PACKET_COUNTER \<and> ec_pcrLastValue e \<noteq> INVALID_PCR")
  case True
  define pcr where "pcr = (ec_pcrLastValue e + (PacketInterval (ec_bitrate e) (ec_currentPacket e - ec_pcrLastPacket e) * SYSTEM_CLOCK_FREQ) div 1000) AND PCR_MASK"
  let ?p = "pkt[3 := pkt ! 3 OR 0x20, 4 := 7, 5 := 0x10]"
  have l: "length pkt = 188" using h by (simp add: enc_head_def)
  then have b: "?p ! 3 = pkt ! 3 OR 0x20" "?p ! 4 = 7" "?p ! 5 = 0x10" "length ?p = 188"
    by (simp_all add: nth_list_update)
  have "hasAF ?p" unfolding hasAF_def b byte_flags by (simp add: bit_or_iff byte_flags [symmetric])
  then have "PCROffset ?p = 6" using b by (simp add: PCROffset_def hasPCR_def getAFSize_def)
  then have s: "setPCR ?p pcr = Inr (PutPCR ?p 6 pcr)" by (simp add: setPCR_def)
  have o: "PutPCR ?p 6 pcr ! i = ?p ! i" if "i < 6" for i using nth_PutPCR_other [of 6 ?p i pcr] b that by simp
  define q where "q = PutPCR ?p 6 pcr"
  have "q ! 0 = pkt ! 0" "q ! 1 = pkt ! 1" "q ! 2 = pkt ! 2" "q ! 3 = pkt ! 3 OR 0x20" "q ! 4 = 7" "length q = 188"
    unfolding q_def using o [of 0] o [of 1] o [of 2] o [of 3] o [of 4] b l by (simp_all add: nth_list_update)
  then have "enc_head pid cc False True 12 (PutPCR ?p 6 pcr)"
    using h unfolding enc_head_def q_def [symmetric] by (simp add: or.assoc or.commute or.left_commute)
  moreover have "enc_pcr e pkt = Inr (e\<lparr>ec_insertPCR := False\<rparr>, PutPCR ?p 6 pcr, 12)"
    unfolding enc_pcr_def Let_def pcr_def [symmetric] if_P [OF True] s by simp
  ultimately show ?thesis by fastforce
next
  case False
  then have "enc_pcr e pkt = Inr (e, pkt, 4)" by (auto simp: enc_pcr_def)
  then show ?thesis using h by fastforce
qed

lemma enc_stuff_facts:
  assumes h: "enc_head pid cc False af i pkt" and i: "i \<le> 12" and li: "1 \<le> ec_lateIndex e" "ec_lateIndex e < PKT_SIZE"
    and ne: "ec_latePackets e \<noteq> []"
  shows "\<exists>p1 i1 af1. enc_stuff (e, pkt, i) = (e, p1, i1) \<and> enc_head pid cc False af1 i1 p1 \<and> i1 < PKT_SIZE \<and>
    (ec_lateIndex e > i1 \<longrightarrow> 2 \<le> length (ec_latePackets e))"
proof (cases "length (ec_latePackets e) = 1 \<and> ec_lateIndex e > i")
  case True
  let ?p = "pkt[3 := pkt ! 3 OR 0x20, 4 := of_nat (ec_lateIndex e - 5)]"
  have i4: "4 \<le> i" using h by (simp add: enc_head_def)
  have "unat (of_nat (ec_lateIndex e - 5) :: byte) = ec_lateIndex e - 5" using li by (simp add: unat_of_nat)
  then have "enc_head pid cc False True (ec_lateIndex e) ?p"
    using h True i4 unfolding enc_head_def
    by (cases af) (simp_all add: nth_list_update or.assoc or.commute or.left_commute)
  then show ?thesis using True li by (intro exI [of _ ?p] exI [of _ "ec_lateIndex e"] exI [of _ True]) (simp add: enc_stuff_def)
next
  case False
  then have "enc_stuff (e, pkt, i) = (e, pkt, i)" by (auto simp: enc_stuff_def)
  moreover have "2 \<le> length (ec_latePackets e)" if "ec_lateIndex e > i"
  proof -
    have "length (ec_latePackets e) \<noteq> 1" "length (ec_latePackets e) \<noteq> 0" using False that ne by auto
    then show ?thesis by linarith
  qed
  ultimately show ?thesis using h i by fastforce
qed

lemma enc_pointer_facts:
  assumes h: "enc_head pid cc False af i pkt" and i: "i < PKT_SIZE" and li: "1 \<le> ec_lateIndex e" "ec_lateIndex e < PKT_SIZE"
  shows "\<exists>p1. enc_pointer (e, pkt, i) = (e, p1, if ec_lateIndex e > i then i + 1 else i) \<and>
    enc_head pid cc (ec_lateIndex e > i) af i p1 \<and> (ec_lateIndex e > i \<longrightarrow> unat (p1 ! i) = PKT_SIZE - ec_lateIndex e)"
proof (cases "ec_lateIndex e > i")
  case True
  let ?p = "(setPUSI pkt)[i := of_nat (PKT_SIZE - ec_lateIndex e)]"
  have i4: "4 \<le> i" "af \<Longrightarrow> 5 \<le> i" using h by (auto simp: enc_head_def)
  have "unat (of_nat (PKT_SIZE - ec_lateIndex e) :: byte) = PKT_SIZE - ec_lateIndex e"
    using li by (simp add: unat_of_nat del: of_nat_diff)
  then have "unat (?p ! i) = PKT_SIZE - ec_lateIndex e" using i h by (simp add: enc_head_def setPUSI_def)
  moreover have "enc_head pid cc True af i ?p"
    using h i4 i unfolding enc_head_def setPUSI_def by (cases af) (simp_all add: nth_list_update or.commute)
  ultimately show ?thesis using True by (intro exI [of _ ?p]) (simp add: enc_pointer_def)
qed (use h in \<open>auto simp: enc_pointer_def\<close>)

lemma enc_head_cong:
  assumes "enc_head pid cc pusi af h b" and "length b' = PKT_SIZE" and "\<And>i. i < 5 \<Longrightarrow> i < k \<Longrightarrow> b' ! i = b ! i" and "4 \<le> k" and "af \<Longrightarrow> 5 \<le> k"
  shows "enc_head pid cc pusi af h b'"
  using assms(1,2) assms(3) [of 0] assms(3) [of 1] assms(3) [of 2] assms(3) [of 3] assms(3) [of 4] assms(4,5)
  by (cases af) (simp_all add: enc_head_def)

lemma enc_output_facts:
  assumes inv: "enc_inv e" and ne: "ec_latePackets e \<noteq> []"
  shows "\<exists>e' pkt pusi h. enc_output e = Inr (e', pkt) \<and> enc_inv e' \<and> length pkt = PKT_SIZE \<and> getPID pkt = ec_pidOutput e \<and>
    getCC pkt = ec_ccOutput e \<and> getPUSI pkt = pusi \<and> getHeaderSize pkt = h \<and> h + of_bool pusi < PKT_SIZE \<and>
    enc_bytes e = drop (h + of_bool pusi) pkt @ enc_bytes e' \<and>
    ec_ccOutput e' = (ec_ccOutput e + 1) AND CC_MASK \<and> ec_pidOutput e' = ec_pidOutput e \<and> ec_pidInput e' = ec_pidInput e \<and>
    ec_lateMaxPackets e' = ec_lateMaxPackets e \<and>
    (pusi \<longrightarrow> unat (pkt ! h) = PKT_SIZE - ec_lateIndex e \<and> h < ec_lateIndex e \<and>
       ec_latePackets e' = tl (ec_latePackets e) \<and> ec_latePackets e' \<noteq> []) \<and>
    (ec_latePackets e' = ec_latePackets e \<or> ec_latePackets e' = tl (ec_latePackets e))"
proof -
  have li: "1 \<le> ec_lateIndex e" "ec_lateIndex e < 188" "ec_ccOutput e \<le> 0x0F" "ec_pidOutput e \<le> 0x1FFF"
    using inv ne by (auto simp: enc_inv_def)
  let ?pid = "ec_pidOutput e" and ?cc = "ec_ccOutput e"
  let ?e0 = "e\<lparr>ec_ccOutput := (ec_ccOutput e + 1) AND CC_MASK\<rparr>"
  obtain e1 p1 i1 af1 where s1: "enc_pcr ?e0 (enc_header e) = Inr (e1, p1, i1)" "enc_head ?pid ?cc False af1 i1 p1" "i1 \<le> 12"
    and e1: "e1 = ?e0\<lparr>ec_insertPCR := ec_insertPCR e1\<rparr>"
    using enc_pcr_facts [OF enc_header_head [OF li(3)], of ?e0] by (elim exE conjE) (rule that; assumption)
  have f1: "ec_lateIndex e1 = ec_lateIndex e" "ec_latePackets e1 = ec_latePackets e"
      "ec_ccOutput e1 = (ec_ccOutput e + 1) AND CC_MASK" "ec_pidOutput e1 = ec_pidOutput e" "ec_pidInput e1 = ec_pidInput e"
      "ec_lateMaxPackets e1 = ec_lateMaxPackets e"
    by (subst e1, simp)+
  have inv1: "enc_inv e1" using inv unfolding enc_inv_def f1 by (simp add: word_and_le1)
  have b1: "enc_bytes e1 = enc_bytes e" unfolding enc_bytes_def f1 ..
  obtain p2 i2 af2 where s2: "enc_stuff (e1, p1, i1) = (e1, p2, i2)" "enc_head ?pid ?cc False af2 i2 p2" "i2 < PKT_SIZE"
      "ec_lateIndex e1 > i2 \<longrightarrow> 2 \<le> length (ec_latePackets e1)"
    using enc_stuff_facts [OF s1(2,3), of e1] li ne unfolding f1 by blast
  let ?pusi = "ec_lateIndex e > i2"
  obtain p3 where s3: "enc_pointer (e1, p2, i2) = (e1, p3, if ?pusi then i2 + 1 else i2)"
      "enc_head ?pid ?cc ?pusi af2 i2 p3" "?pusi \<longrightarrow> unat (p3 ! i2) = PKT_SIZE - ec_lateIndex e"
    using enc_pointer_facts [OF s2(2,3), of e1] li unfolding f1 by blast
  define i3 where "i3 = i2 + of_bool ?pusi"
  have i3: "i3 < 188" "(if ?pusi then i2 + 1 else i2) = i3" "4 \<le> i2" using s2 li by (auto simp: i3_def enc_head_def)
  have lp3: "length p3 = 188" using s3(2) by (simp add: enc_head_def)
  have two: "ec_lateIndex e1 \<le> i3 \<or> 2 \<le> length (ec_latePackets e1) \<and> ec_lateIndex e1 - i3 < PKT_SIZE - 1"
    using s2(4) li i3(3) unfolding f1 i3_def by (cases "ec_lateIndex e > i2") auto
  have ne1: "ec_latePackets e1 \<noteq> []" using ne unfolding f1 .
  obtain e4 w where s4: "enc_fill (e1, p3, i3) = (e4, take i3 p3 @ w, PKT_SIZE)" "enc_inv e4" "enc_bytes e1 = w @ enc_bytes e4"
      "length w = PKT_SIZE - i3" and e4: "e4 = e1\<lparr>ec_latePackets := ec_latePackets e4, ec_lateIndex := ec_lateIndex e4\<rparr>"
    and l4: "if ec_lateIndex e1 < i3 then ec_latePackets e4 = ec_latePackets e1 \<and> ec_lateIndex e4 = ec_lateIndex e1 + (PKT_SIZE - i3)
       else ec_latePackets e4 = tl (ec_latePackets e1) \<and> ec_lateIndex e4 = 1 + (ec_lateIndex e1 - i3)"
    using enc_fill_facts [OF inv1 ne1 i3(1) lp3 two] by (elim exE conjE) (rule that; assumption)
  have f4: "ec_ccOutput e4 = (ec_ccOutput e + 1) AND CC_MASK" "ec_pidOutput e4 = ec_pidOutput e" "ec_pidInput e4 = ec_pidInput e"
      "ec_lateMaxPackets e4 = ec_lateMaxPackets e"
    by (subst e4, simp add: f1)+
  let ?pkt = "take i3 p3 @ w"
  have out: "enc_output e = Inr (e4, ?pkt)"
    unfolding enc_output_def s1(1) sum.case s2(1) s3(1) i3(2) s4(1) prod.case ..
  have lp: "length ?pkt = 188" using s4(4) i3(1) lp3 by simp
  have nth: "?pkt ! i = p3 ! i" if "i < i3" for i using that i3(1) lp3 by (simp add: nth_append)
  have hd: "enc_head ?pid ?cc ?pusi af2 i2 ?pkt"
    by (rule enc_head_cong [OF s3(2) lp, of i3])
      (use nth i3 s3(2) in \<open>auto simp: i3_def enc_head_def\<close>)
  then have hf: "getPID ?pkt = ?pid" "getPUSI ?pkt = ?pusi" "getCC ?pkt = ?cc"
      "getHeaderSize ?pkt = min (4 + (if af2 then unat (?pkt ! 4) + 1 else 0)) PKT_SIZE"
    using header_fields [OF li(4,3), of ?pkt ?pusi af2] by (simp_all add: enc_head_def)
  have hs: "getHeaderSize ?pkt = i2" using hf(4) hd s2(3) by (simp add: enc_head_def)
  have dr: "drop i3 ?pkt = w" using i3(1) lp3 by simp
  have late: "ec_latePackets e4 = ec_latePackets e \<or> ec_latePackets e4 = tl (ec_latePackets e)"
    using l4 unfolding f1 by (auto split: if_splits)
  have pu: "unat (?pkt ! i2) = PKT_SIZE - ec_lateIndex e \<and> i2 < ec_lateIndex e \<and> ec_latePackets e4 = tl (ec_latePackets e) \<and>
      ec_latePackets e4 \<noteq> []" if "?pusi"
  proof -
    have "ec_latePackets e4 = tl (ec_latePackets e)" using l4 that unfolding f1 by (simp add: i3_def split: if_splits)
    moreover have "2 \<le> length (ec_latePackets e)" using s2(4) that unfolding f1 by simp
    then have "tl (ec_latePackets e) \<noteq> []" by (cases "ec_latePackets e" rule: remdups_adj.cases) auto
    ultimately show ?thesis using that s3(3) nth [of i2] by (simp add: i3_def)
  qed
  show ?thesis
    by (rule exI [of _ e4], rule exI [of _ ?pkt], rule exI [of _ ?pusi], rule exI [of _ i2],
        intro conjI out s4(2) lp hf(1-3) hs f4 late impI pu)
      (use i3(1) dr s4(3) b1 in \<open>simp_all add: i3_def\<close>)
qed

section \<open>One packet of the input\<close>

definition same_queue :: "PacketEncapsulation \<Rightarrow> PacketEncapsulation \<Rightarrow> bool" where
  "same_queue e e' = (ec_pidOutput e' = ec_pidOutput e \<and> ec_pidInput e' = ec_pidInput e \<and> ec_ccOutput e' = ec_ccOutput e \<and>
     ec_lateMaxPackets e' = ec_lateMaxPackets e \<and> ec_lateIndex e' = ec_lateIndex e \<and> ec_latePackets e' = ec_latePackets e)"

lemma same_queue_steps:
  "same_queue e (enc_continuity pid cc e)" "same_queue e (enc_collectPCR pid pkt e)" "same_queue e (snd (enc_conflict pid e))"
  by (auto simp: same_queue_def enc_continuity_def resetPCR_def enc_collectPCR_def enc_conflict_def Let_def split: option.splits)

lemma same_queue_facts:
  assumes "same_queue e e'"
  shows "enc_inv e' = enc_inv e" "enc_bytes e' = enc_bytes e"
  using assms by (cases "ec_latePackets e"; simp add: same_queue_def enc_inv_def enc_bytes_def)+

text \<open>Whether a packet is taken in, and whether it goes through untouched.\<close>

definition enc_accepts :: "TSPacket \<Rightarrow> PacketEncapsulation \<Rightarrow> bool" where
  "enc_accepts pkt e = (getPID pkt \<in> ec_pidInput e \<and> ec_pidOutput e \<noteq> PID_NULL \<and>
     length (ec_latePackets e) \<le> ec_lateMaxPackets e)"

definition passes :: "u16 set \<Rightarrow> TSPacket \<Rightarrow> bool" where
  "passes pids pkt = (getPID pkt \<notin> pids \<and> getPID pkt \<noteq> PID_NULL)"

definition wf_packet :: "TSPacket \<Rightarrow> bool" where
  "wf_packet p = (length p = PKT_SIZE \<and> p ! 0 = SYNC_BYTE)"

lemma enqueue_facts:
  assumes inv: "enc_inv e" and p: "wf_packet pkt" and q: "enc_enqueue pkt e = (st, e')"
  defines "acc \<equiv> length (ec_latePackets e) \<le> ec_lateMaxPackets e"
  shows "enc_inv e'" "ec_latePackets e' = ec_latePackets e @ (if acc then [pkt] else [])"
    "enc_bytes e' = enc_bytes e @ (if acc then tl pkt else [])" "st = acc" "ec_latePackets e' \<noteq> []"
    "ec_pidOutput e' = ec_pidOutput e" "ec_pidInput e' = ec_pidInput e" "ec_ccOutput e' = ec_ccOutput e"
    "ec_lateMaxPackets e' = ec_lateMaxPackets e"
  using inv p q
  by (auto simp: enc_enqueue_def enc_inv_def enc_bytes_def acc_def wf_packet_def Let_def drop_Suc split: if_splits list.splits)

text \<open>The queue of bytes: the input packet goes in at its end if it is accepted, and the payload of
  the output packet is taken from its front.\<close>

lemma enc_step:
  assumes inv: "enc_inv e" and p: "wf_packet pkt" and out: "ec_pidOutput e \<noteq> PID_NULL"
  shows "\<exists>st pkt' e'. enc_processPacket pkt e = Inr (st, pkt', e') \<and> enc_inv e' \<and> ec_pidOutput e' = ec_pidOutput e \<and>
    ec_pidInput e' = ec_pidInput e \<and> ec_lateMaxPackets e' = ec_lateMaxPackets e \<and>
    (let new = (if enc_accepts pkt e then [pkt] else []);
         busy = (\<not> passes (ec_pidInput e) pkt \<and> ec_latePackets e @ new \<noteq> [])
     in if busy then
          (\<exists>pusi h. length pkt' = PKT_SIZE \<and> getPID pkt' = ec_pidOutput e \<and> getCC pkt' = ec_ccOutput e \<and> getPUSI pkt' = pusi \<and>
             getHeaderSize pkt' = h \<and> h + of_bool pusi < PKT_SIZE \<and>
             enc_bytes e @ es_bytes new = drop (h + of_bool pusi) pkt' @ enc_bytes e' \<and>
             ec_ccOutput e' = (ec_ccOutput e + 1) AND CC_MASK \<and>
             (pusi \<longrightarrow> (\<exists>q qs. ec_latePackets e @ new = q # qs \<and> ec_latePackets e' = qs \<and> qs \<noteq> [] \<and>
                unat (pkt' ! h) \<le> length (drop (h + 1) pkt') \<and>
                es_bytes qs = drop (h + 1 + unat (pkt' ! h)) pkt' @ enc_bytes e')) \<and>
             (ec_latePackets e' = ec_latePackets e @ new \<or> ec_latePackets e' = tl (ec_latePackets e @ new)))
        else pkt' = pkt \<and> new = [] \<and> ec_latePackets e' = ec_latePackets e \<and> enc_bytes e' = enc_bytes e \<and> ec_ccOutput e' = ec_ccOutput e)"
proof -
  let ?pid = "getPID pkt"
  define ea where "ea = enc_collectPCR ?pid pkt (enc_continuity ?pid (getCC pkt) e)"
  obtain st1 e1 where c: "enc_conflict ?pid ea = (st1, e1)" by (cases "enc_conflict ?pid ea")
  have sq: "same_queue e e1"
    using same_queue_steps(1) [of e ?pid "getCC pkt"] same_queue_steps(2) [of "enc_continuity ?pid (getCC pkt) e" ?pid pkt]
      same_queue_steps(3) [of ea ?pid] c by (simp add: ea_def same_queue_def)
  note f1 = sq [unfolded same_queue_def] and i1 = same_queue_facts [OF sq]
  define take_it where "take_it = (?pid \<in> ec_pidInput e1 \<and> ec_pidOutput e1 \<noteq> PID_NULL)"
  obtain st2 e2 where q: "(if take_it then enc_enqueue pkt e1 else (True, e1)) = (st2, e2)" by (cases "if take_it then enc_enqueue pkt e1 else (True, e1)")
  define new where "new = (if enc_accepts pkt e then [pkt] else [])"
  have acc: "enc_accepts pkt e = (take_it \<and> length (ec_latePackets e) \<le> ec_lateMaxPackets e)"
    using f1 by (simp add: enc_accepts_def take_it_def)
  have e2: "enc_inv e2" "ec_latePackets e2 = ec_latePackets e @ new" "enc_bytes e2 = enc_bytes e @ es_bytes new"
      "ec_pidOutput e2 = ec_pidOutput e" "ec_pidInput e2 = ec_pidInput e" "ec_ccOutput e2 = ec_ccOutput e"
      "ec_lateMaxPackets e2 = ec_lateMaxPackets e" "take_it \<Longrightarrow> ec_latePackets e2 \<noteq> []"
    using enqueue_facts [of e1 pkt st2 e2] inv p q f1 i1 by (auto simp: new_def acc split: if_splits)
  have pass: "(take_it \<or> ?pid = PID_NULL) = (\<not> passes (ec_pidInput e) pkt)"
    using out f1 by (auto simp: passes_def take_it_def)
  have proc: "enc_processPacket pkt e = (if (take_it \<or> ?pid = PID_NULL) \<and> ec_latePackets e2 \<noteq> [] then
           (case enc_output e2 of
              Inl err \<Rightarrow> Inl err
            | Inr (e3, pkt3) \<Rightarrow> Inr (st1 \<and> st2, pkt3, e3\<lparr>ec_currentPacket := ec_currentPacket e3 + 1\<rparr>))
         else Inr (st1 \<and> st2, pkt, e2\<lparr>ec_currentPacket := ec_currentPacket e2 + 1\<rparr>))"
    unfolding enc_processPacket_def Let_def ea_def [symmetric] c prod.case take_it_def [symmetric] q ..
  show ?thesis
  proof (cases "\<not> passes (ec_pidInput e) pkt \<and> ec_latePackets e @ new \<noteq> []")
    case True
    obtain e3 pk pusi h where o: "enc_output e2 = Inr (e3, pk)" "enc_inv e3" "length pk = PKT_SIZE" "getPID pk = ec_pidOutput e2"
        "getCC pk = ec_ccOutput e2" "getPUSI pk = pusi" "getHeaderSize pk = h" "h + of_bool pusi < PKT_SIZE"
        "enc_bytes e2 = drop (h + of_bool pusi) pk @ enc_bytes e3"
        "ec_ccOutput e3 = (ec_ccOutput e2 + 1) AND CC_MASK" "ec_pidOutput e3 = ec_pidOutput e2" "ec_pidInput e3 = ec_pidInput e2"
        "ec_lateMaxPackets e3 = ec_lateMaxPackets e2"
        "pusi \<longrightarrow> unat (pk ! h) = PKT_SIZE - ec_lateIndex e2 \<and> h < ec_lateIndex e2 \<and>
           ec_latePackets e3 = tl (ec_latePackets e2) \<and> ec_latePackets e3 \<noteq> []"
        "ec_latePackets e3 = ec_latePackets e2 \<or> ec_latePackets e3 = tl (ec_latePackets e2)"
      using enc_output_facts [OF e2(1)] True e2(2) by auto
    let ?e = "e3\<lparr>ec_currentPacket := ec_currentPacket e3 + 1\<rparr>"
    have k: "enc_inv ?e = enc_inv e3" "enc_bytes ?e = enc_bytes e3"
      by (cases "ec_latePackets e3"; simp add: enc_inv_def enc_bytes_def)+
    have ptr: "\<exists>q qs. ec_latePackets e @ new = q # qs \<and> ec_latePackets e3 = qs \<and> qs \<noteq> [] \<and>
          unat (pk ! h) \<le> length (drop (h + 1) pk) \<and> es_bytes qs = drop (h + 1 + unat (pk ! h)) pk @ enc_bytes e3" if pusi
    proof -
      have "ec_latePackets e2 \<noteq> []" using True e2(2) by simp
      then obtain q qs where q: "ec_latePackets e2 = q # qs" unfolding neq_Nil_conv by blast
      have ql: "length q = 188" "ec_lateIndex e2 < 188" using e2(1) q by (auto simp: enc_inv_def)
      let ?n = "unat (pk ! h)"
      have n: "?n = length (drop (ec_lateIndex e2) q)" "h < ec_lateIndex e2" using o(14) that ql by simp_all
      have "drop ?n (enc_bytes e2) = es_bytes qs" using q by (simp add: enc_bytes_def n)
      moreover have "?n \<le> length (drop (h + 1) pk)" using n ql o(3) by simp
      then have "drop ?n (enc_bytes e2) = drop (h + 1 + ?n) pk @ enc_bytes e3"
        unfolding o(9) using that by (simp add: add.commute)
      ultimately show ?thesis using o(14) that q e2(2) \<open>?n \<le> length (drop (h + 1) pk)\<close> by auto
    qed
    have "enc_processPacket pkt e = Inr (st1 \<and> st2, pk, ?e)"
      unfolding proc pass e2(2) if_P [OF True] o(1) by simp
    then show ?thesis unfolding new_def [symmetric] Let_def if_P [OF True]
      using o e2 k ptr by (intro exI [of _ "st1 \<and> st2"] exI [of _ pk] exI [of _ ?e] conjI exI [of _ pusi] exI [of _ h]) simp_all
  next
    case False
    have "new = []"
    proof (rule ccontr)
      assume "new \<noteq> []"
      then have "take_it" by (simp add: new_def acc split: if_splits)
      then show False using False pass \<open>new \<noteq> []\<close> by simp
    qed
    moreover have "enc_processPacket pkt e = Inr (st1 \<and> st2, pkt, e2\<lparr>ec_currentPacket := ec_currentPacket e2 + 1\<rparr>)"
      unfolding proc pass e2(2) if_not_P [OF False] ..
    moreover have "enc_inv (e2\<lparr>ec_currentPacket := ec_currentPacket e2 + 1\<rparr>)" "enc_bytes (e2\<lparr>ec_currentPacket := ec_currentPacket e2 + 1\<rparr>) = enc_bytes e2"
      using e2(1) by (cases "ec_latePackets e2"; simp add: enc_inv_def enc_bytes_def)+
    ultimately show ?thesis unfolding new_def [symmetric] Let_def if_not_P [OF False] using e2 by simp
  qed
qed

section \<open>One packet of the tunnel at the receiver\<close>

definition dec_inv :: "PacketDecapsulation \<Rightarrow> bool" where
  "dec_inv d = (length (de_nextPacket d) = PKT_SIZE \<and> de_nextPacket d ! 0 = SYNC_BYTE \<and> 1 \<le> de_nextIndex d \<and>
     de_nextIndex d < PKT_SIZE \<and> (\<not> de_synchronized d \<longrightarrow> de_nextIndex d = 1))"

definition dec_bytes :: "PacketDecapsulation \<Rightarrow> byte list" where
  "dec_bytes d = take (de_nextIndex d - 1) (tl (de_nextPacket d))"

lemma dec_copy_facts:
  assumes inv: "dec_inv d" and sy: "de_synchronized d" and idx: "2 \<le> pktIndex" "pktIndex \<le> PKT_SIZE" "length pkt = PKT_SIZE"
  defines "s \<equiv> dec_bytes d @ drop pktIndex pkt"
  shows "\<exists>out d'. dec_copy pkt pktIndex d = (out, d') \<and> dec_inv d' \<and> de_synchronized d' \<and> de_ccInput d' = de_ccInput d \<and>
    de_pidInput d' = de_pidInput d \<and>
    (if 187 \<le> length s then out = SYNC_BYTE # take 187 s \<and> dec_bytes d' = drop 187 s else out = NullPacket \<and> dec_bytes d' = s)"
proof -
  obtain t where n: "de_nextPacket d = 0x47 # t" "length t = 187"
    using inv by (cases "de_nextPacket d") (auto simp: dec_inv_def)
  obtain k where k: "de_nextIndex d = Suc k" "k < 187" using inv by (cases "de_nextIndex d") (auto simp: dec_inv_def)
  have b: "dec_bytes d = take k t" "length (dec_bytes d) = k" using n k by (simp_all add: dec_bytes_def)
  let ?w = "drop pktIndex pkt"
  have lw: "length ?w = 188 - pktIndex" using idx by simp
  define sz where "sz = min (188 - pktIndex) (187 - k)"
  have m: "memcpy_at (0x47 # t) (Suc k) (take sz ?w) = 0x47 # take k t @ take sz ?w @ drop (k + sz) t"
    using lw by (simp add: memcpy_at_def sz_def)
  define np where "np = 0x47 # take k t @ take sz ?w @ drop (k + sz) t"
  have size: "min (188 - pktIndex) (188 - de_nextIndex d) = sz" by (simp add: sz_def k)
  have u: "dec_copy pkt pktIndex d = (if Suc k + sz = 188
      then (np, d\<lparr>de_nextPacket := memcpy_at np 1 (drop (pktIndex + sz) pkt), de_nextIndex := 1 + (188 - (pktIndex + sz))\<rparr>)
      else (NullPacket, d\<lparr>de_nextPacket := np, de_nextIndex := Suc k + sz\<rparr>))"
    unfolding dec_copy_def Let_def size unfolding n(1) k(1) m np_def [symmetric] by simp
  show ?thesis
  proof (cases "187 \<le> length s")
    case True
    then have sz: "sz = 187 - k" "Suc k + sz = 188" using b lw k by (auto simp: s_def sz_def)
    have full: "np = 0x47 # take 187 s"
      using n k sz b by (simp add: s_def np_def)
    let ?d = "d\<lparr>de_nextPacket := memcpy_at (0x47 # take 187 s) 1 (drop (pktIndex + sz) pkt), de_nextIndex := 1 + (188 - (pktIndex + sz))\<rparr>"
    have "dec_copy pkt pktIndex d = (0x47 # take 187 s, ?d)"
      unfolding u full [symmetric] using sz(2) by simp
    moreover have l: "pktIndex + sz \<le> 188" using idx k by (simp add: sz_def)
    moreover have dr: "drop (pktIndex + sz) pkt = drop 187 s" using sz k b by (simp add: s_def add.commute)
    moreover have "length (drop 187 s) = 188 - (pktIndex + sz)" unfolding dr [symmetric] using idx by simp
    moreover have mm: "memcpy_at (0x47 # take 187 s) 1 (drop 187 s) = 0x47 # drop 187 s @ drop (length (drop 187 s)) (take 187 s)"
      by (simp add: memcpy_at_def)
    moreover have "length (drop 187 s) < 187" using calculation(4) idx sz k by linarith
    ultimately show ?thesis using True sy inv
      by (intro exI [of _ "0x47 # take 187 s"] exI [of _ ?d]) (auto simp: dec_inv_def dec_bytes_def)
  next
    case False
    then have sz: "sz = 188 - pktIndex" "k + sz < 187" using b lw k by (auto simp: s_def sz_def)
    let ?d = "d\<lparr>de_nextPacket := np, de_nextIndex := Suc k + sz\<rparr>"
    have "dec_copy pkt pktIndex d = (NullPacket, ?d)"
      unfolding u using sz(2) by simp
    moreover have "dec_bytes ?d = s" using n k sz b lw by (simp add: dec_bytes_def s_def np_def)
    ultimately show ?thesis using False sy sz n k lw
      by (intro exI [of _ NullPacket] exI [of _ ?d]) (simp add: dec_inv_def np_def)
  qed
qed

lemma getHeaderSize_ge: "4 \<le> getHeaderSize b"
  by (simp add: getHeaderSize_def)

text \<open>A packet of the tunnel, received in sequence.\<close>

lemma dec_step:
  assumes inv: "dec_inv d" and pid: "getPID pkt = de_pidInput d" "de_pidInput d \<noteq> PID_NULL" and len: "length pkt = PKT_SIZE"
    and h: "getHeaderSize pkt = h" "getPUSI pkt = pusi" "h + of_bool pusi < PKT_SIZE"
    and ptr: "pusi \<Longrightarrow> unat (pkt ! h) \<le> length (drop (h + 1) pkt)"
    and cc: "de_synchronized d \<Longrightarrow> getCC pkt = (de_ccInput d + 1) AND CC_MASK"
  defines "from \<equiv> (if de_synchronized d then h + of_bool pusi else h + 1 + unat (pkt ! h))"
  defines "s \<equiv> dec_bytes d @ drop from pkt"
  shows "\<exists>out d'. dec_processPacket pkt d = (True, out, d') \<and> dec_inv d' \<and> de_pidInput d' = de_pidInput d \<and> de_ccInput d' = getCC pkt \<and>
    de_synchronized d' = (de_synchronized d \<or> pusi) \<and>
    (if \<not> de_synchronized d \<and> \<not> pusi then out = NullPacket
     else if 187 \<le> length s then out = SYNC_BYTE # take 187 s \<and> dec_bytes d' = drop 187 s
     else out = NullPacket \<and> dec_bytes d' = s)"
proof -
  have h4: "4 \<le> h" using getHeaderSize_ge [of pkt] h(1) by simp
  have range: "\<not> (pusi \<and> h + of_bool pusi + (if pusi then unat (pkt ! h) else 0) > PKT_SIZE)"
    using ptr len h(3) by (cases pusi) auto
  let ?d = "d\<lparr>de_ccInput := getCC pkt, de_synchronized := True\<rparr>"
  have d1: "dec_inv ?d" "de_synchronized ?d" "dec_bytes ?d = dec_bytes d" using inv by (simp_all add: dec_inv_def dec_bytes_def)
  have disc: "(de_synchronized d \<and> getCC pkt \<noteq> (de_ccInput d + 1) AND CC_MASK) = False" using cc by auto
  have idx: "(if pusi \<and> getHeaderSize pkt < PKT_SIZE then getHeaderSize pkt + 1 else getHeaderSize pkt) = h + of_bool pusi"
      "(if pusi \<and> getHeaderSize pkt < PKT_SIZE then unat (pkt ! getHeaderSize pkt) else 0) = (if pusi then unat (pkt ! h) else 0)"
    using h by auto
  have proc: "dec_processPacket pkt d =
      (if de_synchronized d then (case dec_copy pkt (h + of_bool pusi) ?d of (p, d3) \<Rightarrow> (True, p, d3))
       else if pusi then (case dec_copy pkt (h + 1 + unat (pkt ! h)) ?d of (p, d3) \<Rightarrow> (True, p, d3))
       else (True, NullPacket, d\<lparr>de_ccInput := getCC pkt\<rparr>))"
  proof -
    have eq: "dec_copy pkt k ?d = dec_copy pkt k (d\<lparr>de_ccInput := getCC pkt\<rparr>)" if "de_synchronized d" for k
      using that by (cases d) simp
    show ?thesis unfolding dec_processPacket_def Let_def h(2) idx disc if_False using pid range
      by (auto simp: not_less eq)
  qed
  show ?thesis
  proof (cases "de_synchronized d \<or> pusi")
    case True
    have fr: "2 \<le> from" "from \<le> 188" using h4 h(3) ptr len True by (auto simp: from_def)
    obtain out d' where c: "dec_copy pkt from ?d = (out, d')" "dec_inv d'" "de_synchronized d'" "de_ccInput d' = getCC pkt"
        "de_pidInput d' = de_pidInput d"
        "if 187 \<le> length s then out = SYNC_BYTE # take 187 s \<and> dec_bytes d' = drop 187 s else out = NullPacket \<and> dec_bytes d' = s"
      using dec_copy_facts [OF d1(1,2) fr len] unfolding d1(3) s_def [symmetric] by auto
    have "dec_processPacket pkt d = (True, out, d')"
      unfolding proc using True c(1) by (auto simp: from_def)
    then show ?thesis using c True by (intro exI [of _ out] exI [of _ d']) auto
  next
    case False
    then have "dec_processPacket pkt d = (True, NullPacket, d\<lparr>de_ccInput := getCC pkt\<rparr>)" unfolding proc by simp
    moreover have "dec_inv (d\<lparr>de_ccInput := getCC pkt\<rparr>)" using inv by (simp add: dec_inv_def)
    ultimately show ?thesis using False by (intro exI [of _ NullPacket] exI [of _ "d\<lparr>de_ccInput := getCC pkt\<rparr>"]) simp
  qed
qed

section \<open>The tunnel\<close>

text \<open>What the two ends have sent and delivered. Once the receiver is synchronized, the packets sent
  are some lost ones, then those delivered, then those whose bytes are on the way.\<close>

definition tunnel_state :: "PacketEncapsulation \<Rightarrow> PacketDecapsulation \<Rightarrow> TSPacket list \<Rightarrow> TSPacket list \<Rightarrow> bool" where
  "tunnel_state e d snt dlv = (enc_inv e \<and> dec_inv d \<and> de_pidInput d = ec_pidOutput e \<and> ec_pidOutput e \<noteq> PID_NULL \<and>
     PID_NULL \<notin> ec_pidInput e \<and> (\<forall>p \<in> set snt. wf_packet p \<and> getPID p \<in> ec_pidInput e) \<and>
     (\<exists>pre. snt = pre @ ec_latePackets e) \<and>
     (if de_synchronized d
      then (\<exists>lost pend. snt = lost @ dlv @ pend \<and> es_bytes pend = dec_bytes d @ enc_bytes e) \<and>
        (de_ccInput d + 1) AND CC_MASK = ec_ccOutput e
      else dlv = []))"

lemma es_bytes_first:
  assumes "es_bytes ps = s @ rest" and "187 \<le> length s" and "\<forall>p \<in> set ps. wf_packet p"
  shows "\<exists>qs. ps = (SYNC_BYTE # take 187 s) # qs \<and> es_bytes qs = drop 187 s @ rest"
proof -
  have "es_bytes ps \<noteq> []" using assms(1,2) by auto
  then obtain q qs where ps: "ps = q # qs" by (cases ps) auto
  then have q: "wf_packet q" using assms(3) by simp
  then obtain t where t: "q = 0x47 # t" "length t = 187" by (cases q) (auto simp: wf_packet_def)
  have e: "t @ es_bytes qs = s @ rest" using assms(1) by (simp add: ps t)
  then have "t = take 187 s" using t(2) assms(2) by (metis append_eq_conv_conj take_append diff_is_0_eq take0 append_Nil2)
  moreover have "es_bytes qs = drop 187 (s @ rest)" using e t(2) by (metis append_eq_conv_conj)
  ultimately show ?thesis using ps t assms(2) by simp
qed

lemma NullPacket_pid: "getPID NullPacket = PID_NULL"
  by (simp add: NullPacket_def getPID_def GetUInt16_def)

lemma tunnel_step:
  assumes rel: "tunnel_state e d snt dlv" and p: "wf_packet pkt" and nc: "getPID pkt = ec_pidOutput e \<longrightarrow> getPID pkt \<in> ec_pidInput e"
  shows "\<exists>st q e' st' out d'. enc_processPacket pkt e = Inr (st, q, e') \<and> dec_processPacket q d = (st', out, d') \<and>
    (passes (ec_pidInput e) pkt \<longrightarrow> out = pkt) \<and> ec_pidInput e' = ec_pidInput e \<and> ec_pidOutput e' = ec_pidOutput e \<and>
    ec_lateMaxPackets e' = ec_lateMaxPackets e \<and>
    tunnel_state e' d' (snt @ (if enc_accepts pkt e then [pkt] else []))
      (dlv @ (if \<not> passes (ec_pidInput e) pkt \<and> getPID out \<noteq> PID_NULL then [out] else []))"
proof -
  have r: "enc_inv e" "dec_inv d" "de_pidInput d = ec_pidOutput e" "ec_pidOutput e \<noteq> PID_NULL" "PID_NULL \<notin> ec_pidInput e"
      "\<forall>p \<in> set snt. wf_packet p \<and> getPID p \<in> ec_pidInput e"
    using rel by (simp_all add: tunnel_state_def)
  obtain pre where pre: "snt = pre @ ec_latePackets e" using rel by (auto simp: tunnel_state_def)
  define new where "new = (if enc_accepts pkt e then [pkt] else [])"
  have new: "\<forall>p \<in> set (snt @ new). wf_packet p \<and> getPID p \<in> ec_pidInput e"
    using r(6) p by (auto simp: new_def enc_accepts_def)
  obtain st q e' where enc: "enc_processPacket pkt e = Inr (st, q, e')" "enc_inv e'" "ec_pidOutput e' = ec_pidOutput e"
      "ec_pidInput e' = ec_pidInput e" "ec_lateMaxPackets e' = ec_lateMaxPackets e"
    and res: "if \<not> passes (ec_pidInput e) pkt \<and> ec_latePackets e @ new \<noteq> [] then
          (\<exists>pusi h. length q = PKT_SIZE \<and> getPID q = ec_pidOutput e \<and> getCC q = ec_ccOutput e \<and> getPUSI q = pusi \<and>
             getHeaderSize q = h \<and> h + of_bool pusi < PKT_SIZE \<and>
             enc_bytes e @ es_bytes new = drop (h + of_bool pusi) q @ enc_bytes e' \<and>
             ec_ccOutput e' = (ec_ccOutput e + 1) AND CC_MASK \<and>
             (pusi \<longrightarrow> (\<exists>p ps. ec_latePackets e @ new = p # ps \<and> ec_latePackets e' = ps \<and> ps \<noteq> [] \<and>
                unat (q ! h) \<le> length (drop (h + 1) q) \<and>
                es_bytes ps = drop (h + 1 + unat (q ! h)) q @ enc_bytes e')) \<and>
             (ec_latePackets e' = ec_latePackets e @ new \<or> ec_latePackets e' = tl (ec_latePackets e @ new)))
        else q = pkt \<and> new = [] \<and> ec_latePackets e' = ec_latePackets e \<and> enc_bytes e' = enc_bytes e \<and> ec_ccOutput e' = ec_ccOutput e"
    using enc_step [OF r(1) p r(4)] unfolding Let_def new_def [symmetric] by (elim exE conjE) (rule that; assumption)
  show ?thesis
  proof (cases "\<not> passes (ec_pidInput e) pkt \<and> ec_latePackets e @ new \<noteq> []")
    case False
    note res = res [unfolded if_not_P [OF False]]
    have np: "getPID pkt \<noteq> de_pidInput d"
    proof
      assume "getPID pkt = de_pidInput d"
      then have "getPID pkt \<in> ec_pidInput e" using nc r(3) by simp
      then have "\<not> passes (ec_pidInput e) pkt" by (simp add: passes_def)
      then have l: "ec_latePackets e = []" using False by simp
      then have "enc_accepts pkt e" using \<open>getPID pkt \<in> _\<close> r(4) by (simp add: enc_accepts_def)
      then show False using res by (simp add: new_def)
    qed
    have nd: "\<not> (\<not> passes (ec_pidInput e) pkt \<and> getPID pkt \<noteq> PID_NULL)"
    proof
      assume a: "\<not> passes (ec_pidInput e) pkt \<and> getPID pkt \<noteq> PID_NULL"
      then have "getPID pkt \<in> ec_pidInput e" "ec_latePackets e = []" using False by (auto simp: passes_def)
      then have "enc_accepts pkt e" using r(4) by (simp add: enc_accepts_def)
      then show False using res by (simp add: new_def)
    qed
    have "dec_processPacket q d = (True, pkt, d)" using res np by (simp add: dec_processPacket_def)
    moreover have "tunnel_state e' d (snt @ new) dlv"
      using rel res enc(2-4) by (simp add: tunnel_state_def)
    moreover have "dlv @ (if \<not> passes (ec_pidInput e) pkt \<and> getPID pkt \<noteq> PID_NULL then [pkt] else []) = dlv"
      by (simp only: nd if_False append_Nil2)
    ultimately have "enc_processPacket pkt e = Inr (st, q, e') \<and> dec_processPacket q d = (True, pkt, d) \<and>
        (passes (ec_pidInput e) pkt \<longrightarrow> pkt = pkt) \<and> ec_pidInput e' = ec_pidInput e \<and> ec_pidOutput e' = ec_pidOutput e \<and>
        ec_lateMaxPackets e' = ec_lateMaxPackets e \<and>
        tunnel_state e' d (snt @ (if enc_accepts pkt e then [pkt] else []))
          (dlv @ (if \<not> passes (ec_pidInput e) pkt \<and> getPID pkt \<noteq> PID_NULL then [pkt] else []))"
      using enc(1,3-5) unfolding new_def [symmetric] by (simp only: simp_thms)
    then show ?thesis by blast
  next
    case True
    obtain pusi h where q: "length q = PKT_SIZE" "getPID q = ec_pidOutput e" "getCC q = ec_ccOutput e" "getPUSI q = pusi"
        "getHeaderSize q = h" "h + of_bool pusi < PKT_SIZE"
        "enc_bytes e @ es_bytes new = drop (h + of_bool pusi) q @ enc_bytes e'"
        "ec_ccOutput e' = (ec_ccOutput e + 1) AND CC_MASK"
        "pusi \<longrightarrow> (\<exists>p ps. ec_latePackets e @ new = p # ps \<and> ec_latePackets e' = ps \<and> ps \<noteq> [] \<and>
            unat (q ! h) \<le> length (drop (h + 1) q) \<and> es_bytes ps = drop (h + 1 + unat (q ! h)) q @ enc_bytes e')"
        "ec_latePackets e' = ec_latePackets e @ new \<or> ec_latePackets e' = tl (ec_latePackets e @ new)"
      using res unfolding if_P [OF True] by (elim exE conjE) (rule that; assumption)
    define fr where "fr = (if de_synchronized d then h + of_bool pusi else h + 1 + unat (q ! h))"
    define s where "s = dec_bytes d @ drop fr q"
    obtain out d' where dec: "dec_processPacket q d = (True, out, d')" "dec_inv d'" "de_pidInput d' = de_pidInput d"
        "de_ccInput d' = getCC q" "de_synchronized d' = (de_synchronized d \<or> pusi)"
        "if \<not> de_synchronized d \<and> \<not> pusi then out = NullPacket
         else if 187 \<le> length s then out = SYNC_BYTE # take 187 s \<and> dec_bytes d' = drop 187 s
         else out = NullPacket \<and> dec_bytes d' = s"
    proof -
      have "\<exists>out d'. dec_processPacket q d = (True, out, d') \<and> dec_inv d' \<and> de_pidInput d' = de_pidInput d \<and> de_ccInput d' = getCC q \<and>
        de_synchronized d' = (de_synchronized d \<or> pusi) \<and>
        (if \<not> de_synchronized d \<and> \<not> pusi then out = NullPacket
         else if 187 \<le> length s then out = SYNC_BYTE # take 187 s \<and> dec_bytes d' = drop 187 s
         else out = NullPacket \<and> dec_bytes d' = s)"
        unfolding s_def fr_def
        by (rule dec_step [OF r(2) _ _ q(1) q(5) q(4) q(6)]) (use q r rel in \<open>auto simp: tunnel_state_def\<close>)
      then show thesis by (elim exE conjE) (rule that; assumption)
    qed
    have pre': "\<exists>pre'. snt @ new = pre' @ ec_latePackets e'"
      using q(10) pre by (metis append.assoc append_Cons append_Nil list.collapse list.sel(2))
    have step: "tunnel_state e' d' (snt @ new) (dlv @ (if getPID out \<noteq> PID_NULL then [out] else []))"
    proof (cases "de_synchronized d \<or> pusi")
      case False
      then show ?thesis using dec r enc new pre' rel unfolding tunnel_state_def by (auto simp: NullPacket_pid)
    next
      case sync: True
      obtain lost pend where lp: "snt @ new = lost @ dlv @ pend" "es_bytes pend = s @ enc_bytes e'"
      proof (cases "de_synchronized d")
        case True
        then obtain lost pend where "snt = lost @ dlv @ pend" "es_bytes pend = dec_bytes d @ enc_bytes e"
          using rel by (auto simp: tunnel_state_def)
        then show thesis using q(7) True by (intro that [of lost "pend @ new"]) (simp_all add: s_def fr_def)
      next
        case False
        then have f: "dlv = []" "dec_bytes d = []" using rel r(2) by (simp_all add: tunnel_state_def dec_inv_def dec_bytes_def)
        obtain p ps where ps: "ec_latePackets e @ new = p # ps" "es_bytes ps = drop (h + 1 + unat (q ! h)) q @ enc_bytes e'"
          using q(9) sync False by blast
        have "snt @ new = (pre @ [p]) @ ps" using pre ps(1) by simp
        then show thesis using f ps(2) False by (intro that [of "pre @ [p]" ps]) (simp_all add: s_def fr_def)
      qed
      have wf: "\<forall>p \<in> set pend. wf_packet p \<and> getPID p \<in> ec_pidInput e" using new lp(1) by auto
      have cc: "(de_ccInput d' + 1) AND CC_MASK = ec_ccOutput e'" using dec(4) q(3,8) by simp
      have sd: "de_synchronized d'" using dec(5) sync by simp
      have all: "enc_inv e' \<and> dec_inv d' \<and> de_pidInput d' = ec_pidOutput e' \<and> ec_pidOutput e' \<noteq> PID_NULL \<and>
         PID_NULL \<notin> ec_pidInput e' \<and> (\<forall>p \<in> set (snt @ new). wf_packet p \<and> getPID p \<in> ec_pidInput e')"
        using enc dec r new by simp
      show ?thesis
      proof (cases "187 \<le> length s")
        case True
        then have o: "out = SYNC_BYTE # take 187 s" "dec_bytes d' = drop 187 s" using dec(6) sync by auto
        obtain qs where qs: "pend = out # qs" "es_bytes qs = dec_bytes d' @ enc_bytes e'"
          using es_bytes_first [OF lp(2) True] wf unfolding o by blast
        have "getPID out \<noteq> PID_NULL" using wf qs(1) r(5) by auto
        moreover have "snt @ new = lost @ (dlv @ [out]) @ qs" using lp(1) qs(1) by simp
        ultimately show ?thesis unfolding tunnel_state_def using all pre' qs(2) cc sd by (simp only: if_True simp_thms) blast
      next
        case False
        then have o: "out = NullPacket" "dec_bytes d' = s" using dec(6) sync by auto
        have "dlv @ (if getPID out \<noteq> PID_NULL then [out] else []) = dlv" by (simp add: o NullPacket_pid)
        then show ?thesis unfolding tunnel_state_def using all pre' lp cc sd o(2) by (simp only: if_True simp_thms) blast
      qed
    qed
    have np: "\<not> passes (ec_pidInput e) pkt" using True by (rule conjunct1)
    have "enc_processPacket pkt e = Inr (st, q, e') \<and> dec_processPacket q d = (True, out, d') \<and>
        (passes (ec_pidInput e) pkt \<longrightarrow> out = pkt) \<and> ec_pidInput e' = ec_pidInput e \<and> ec_pidOutput e' = ec_pidOutput e \<and>
        ec_lateMaxPackets e' = ec_lateMaxPackets e \<and>
        tunnel_state e' d' (snt @ (if enc_accepts pkt e then [pkt] else []))
          (dlv @ (if \<not> passes (ec_pidInput e) pkt \<and> getPID out \<noteq> PID_NULL then [out] else []))"
      unfolding new_def [symmetric] using enc(1,3-5) dec(1) step np by (simp only: simp_thms)
    then show ?thesis by blast
  qed
qed


text \<open>A whole input stream: each packet goes through the encapsulation, then through the
  decapsulation. The packets that were taken in are recorded.\<close>

fun tunnel :: "TSPacket list \<Rightarrow> PacketEncapsulation \<Rightarrow> PacketDecapsulation \<Rightarrow>
    packet_error + (TSPacket list \<times> TSPacket list \<times> PacketEncapsulation \<times> PacketDecapsulation)" where
  "tunnel [] e d = Inr ([], [], e, d)"
| "tunnel (p # ps) e d =
     (case enc_processPacket p e of
        Inl err \<Rightarrow> Inl err
      | Inr (_, q, e1) \<Rightarrow>
          (case dec_processPacket q d of (_, r, d1) \<Rightarrow>
            (case tunnel ps e1 d1 of
               Inl err \<Rightarrow> Inl err
             | Inr (outs, snt, e2, d2) \<Rightarrow> Inr (r # outs, (if enc_accepts p e then p # snt else snt), e2, d2))))"

text \<open>The packets delivered: those that come out in place of an encapsulated or a null packet.\<close>

definition delivered :: "u16 set \<Rightarrow> TSPacket list \<Rightarrow> TSPacket list \<Rightarrow> TSPacket list" where
  "delivered pids ps outs = map snd (filter (\<lambda>(p, r). \<not> passes pids p \<and> getPID r \<noteq> PID_NULL) (zip ps outs))"

lemma delivered_simps [simp]:
  "delivered pids [] outs = []"
  "delivered pids (p # ps) (r # outs) =
     (if \<not> passes pids p \<and> getPID r \<noteq> PID_NULL then [r] else []) @ delivered pids ps outs"
  by (simp_all add: delivered_def)

definition fits_tunnel :: "u16 \<Rightarrow> u16 set \<Rightarrow> TSPacket \<Rightarrow> bool" where
  "fits_tunnel pidOutput pids p = (wf_packet p \<and> (getPID p = pidOutput \<longrightarrow> getPID p \<in> pids))"

lemma tunnel_run:
  assumes "tunnel_state e d snt dlv" and "\<forall>p \<in> set ps. fits_tunnel (ec_pidOutput e) (ec_pidInput e) p"
  shows "\<exists>outs snt' e' d'. tunnel ps e d = Inr (outs, snt', e', d') \<and> length outs = length ps \<and>
    (\<forall>i < length ps. passes (ec_pidInput e) (ps ! i) \<longrightarrow> outs ! i = ps ! i) \<and>
    tunnel_state e' d' (snt @ snt') (dlv @ delivered (ec_pidInput e) ps outs) \<and>
    ec_lateMaxPackets e' = ec_lateMaxPackets e"
  using assms
proof (induction ps arbitrary: e d snt dlv)
  case Nil
  then show ?case by simp
next
  case (Cons p ps)
  have f: "wf_packet p" "getPID p = ec_pidOutput e \<longrightarrow> getPID p \<in> ec_pidInput e" using Cons.prems(2) by (simp_all add: fits_tunnel_def)
  obtain st q e1 st' r d1 where s: "enc_processPacket p e = Inr (st, q, e1)" "dec_processPacket q d = (st', r, d1)"
      "passes (ec_pidInput e) p \<longrightarrow> r = p" "ec_pidInput e1 = ec_pidInput e" "ec_pidOutput e1 = ec_pidOutput e"
      "ec_lateMaxPackets e1 = ec_lateMaxPackets e"
      "tunnel_state e1 d1 (snt @ (if enc_accepts p e then [p] else []))
        (dlv @ (if \<not> passes (ec_pidInput e) p \<and> getPID r \<noteq> PID_NULL then [r] else []))"
    using tunnel_step [OF Cons.prems(1) f(1) f(2)] by (elim exE conjE) (rule that; assumption)
  have "\<forall>p \<in> set ps. fits_tunnel (ec_pidOutput e1) (ec_pidInput e1) p" using Cons.prems(2) s(4,5) by simp
  from Cons.IH [OF s(7) this]
  obtain outs snt' e' d' where r: "tunnel ps e1 d1 = Inr (outs, snt', e', d')" "length outs = length ps"
      "\<forall>i < length ps. passes (ec_pidInput e) (ps ! i) \<longrightarrow> outs ! i = ps ! i"
      "tunnel_state e' d' ((snt @ (if enc_accepts p e then [p] else [])) @ snt')
        ((dlv @ (if \<not> passes (ec_pidInput e) p \<and> getPID r \<noteq> PID_NULL then [r] else [])) @ delivered (ec_pidInput e) ps outs)"
      "ec_lateMaxPackets e' = ec_lateMaxPackets e"
    unfolding s(4,6) by blast
  let ?snt = "if enc_accepts p e then p # snt' else snt'"
  have "tunnel (p # ps) e d = Inr (r # outs, ?snt, e', d')" using s(1,2) r(1) by simp
  moreover have "(snt @ (if enc_accepts p e then [p] else [])) @ snt' = snt @ ?snt" by simp
  moreover have "\<forall>i < length (p # ps). passes (ec_pidInput e) ((p # ps) ! i) \<longrightarrow> (r # outs) ! i = (p # ps) ! i"
    using s(3) r(3) by (auto simp: less_Suc_eq_0_disj)
  ultimately show ?case using r(2,4,5)
    by (intro exI [of _ "r # outs"] exI [of _ ?snt] exI [of _ e'] exI [of _ d']) simp
qed

lemma tunnel_state_new:
  assumes "pid < PID_NULL" and "PID_NULL \<notin> pids"
  shows "tunnel_state (PacketEncapsulation_new pid pids pcr) (PacketDecapsulation_new pid) [] []"
proof -
  have "pid \<le> 0x1FFF" "pid \<noteq> 0x1FFF" using assms(1) by auto
  then show ?thesis using assms(2)
    by (simp add: tunnel_state_def enc_inv_def dec_inv_def PacketEncapsulation_new_def PacketDecapsulation_new_def)
qed

lemma es_bytes_length: "\<forall>p \<in> set ps. wf_packet p \<Longrightarrow> length (es_bytes ps) = 187 * length ps"
  by (induction ps) (simp_all add: wf_packet_def)

text \<open>What is on the way fits in the queue of the sender: an empty queue means that everything
  sent since the synchronization is delivered.\<close>

lemma pending_bound:
  assumes inv: "enc_inv e" "dec_inv d" and wf: "\<forall>p \<in> set pend. wf_packet p" and b: "es_bytes pend = dec_bytes d @ enc_bytes e"
  shows "length pend \<le> length (ec_latePackets e)"
proof -
  have "length (dec_bytes d) < 187" using inv(2) by (auto simp: dec_inv_def dec_bytes_def)
  moreover have "length (enc_bytes e) \<le> 187 * length (ec_latePackets e)"
  proof (cases "ec_latePackets e")
    case (Cons p ps)
    have "length p = 188" "1 \<le> ec_lateIndex e" using inv(1) Cons by (auto simp: enc_inv_def)
    moreover have "\<forall>p \<in> set ps. wf_packet p" using inv(1) Cons by (simp add: enc_inv_def wf_packet_def)
    ultimately show ?thesis using es_bytes_length [of ps] Cons by (simp add: enc_bytes_def)
  qed (simp add: enc_bytes_def)
  ultimately have "187 * length pend < 187 + 187 * length (ec_latePackets e)"
    using es_bytes_length [OF wf] b by simp
  then show ?thesis by linarith
qed

section \<open>Sparse traffic\<close>

text \<open>An encapsulation that does not insert clocks. One packet in an empty queue leaves three
  bytes behind, which the next output packet takes after a full adaptation field.\<close>

definition no_clock :: "PacketEncapsulation \<Rightarrow> bool" where
  "no_clock e = (ec_pcrReference e = PID_NULL \<and> \<not> ec_insertPCR e)"

lemma no_clock_steps:
  assumes "no_clock e"
  shows "no_clock (enc_continuity pid cc e)" "no_clock (enc_collectPCR pid pkt e)" "no_clock (snd (enc_conflict pid e))"
    "enc_pcr e b = Inr (e, b, 4)"
  using assms by (auto simp: no_clock_def enc_continuity_def resetPCR_def enc_collectPCR_def enc_conflict_def enc_pcr_def
      Let_def split: option.splits)

lemma enc_output_one:
  assumes "no_clock e" and "ec_latePackets e = [p]"
  shows "ec_lateIndex e = 1 \<Longrightarrow> \<exists>e' q. enc_output e = Inr (e', q) \<and> no_clock e' \<and> ec_latePackets e' = [p] \<and> ec_lateIndex e' = 185"
    and "ec_lateIndex e = 185 \<Longrightarrow> \<exists>e' q. enc_output e = Inr (e', q) \<and> no_clock e' \<and> ec_latePackets e' = []"
proof -
  let ?e = "e\<lparr>ec_ccOutput := (ec_ccOutput e + 1) AND CC_MASK\<rparr>"
  have n: "no_clock ?e" using assms(1) by (simp add: no_clock_def)
  have u: "enc_output e = (case enc_fill (enc_pointer (enc_stuff (?e, enc_header e, 4))) of (e1, pkt, _) \<Rightarrow> Inr (e1, pkt))"
    unfolding enc_output_def no_clock_steps(4) [OF n] by simp
  show "ec_lateIndex e = 1 \<Longrightarrow> \<exists>e' q. enc_output e = Inr (e', q) \<and> no_clock e' \<and> ec_latePackets e' = [p] \<and> ec_lateIndex e' = 185"
    unfolding u using assms by (simp add: enc_stuff_def enc_pointer_def enc_fill_def fillPacket_def Let_def no_clock_def)
  show "ec_lateIndex e = 185 \<Longrightarrow> \<exists>e' q. enc_output e = Inr (e', q) \<and> no_clock e' \<and> ec_latePackets e' = []"
    unfolding u using assms by (simp add: enc_stuff_def enc_pointer_def enc_fill_def fillPacket_def Let_def no_clock_def)
qed

lemma sparse_step:
  assumes "no_clock e" and "ec_pidOutput e \<noteq> PID_NULL" and "PID_NULL \<notin> ec_pidInput e"
  shows "ec_latePackets e = [] \<Longrightarrow> getPID p \<in> ec_pidInput e \<Longrightarrow>
      \<exists>st q e'. enc_processPacket p e = Inr (st, q, e') \<and> no_clock e' \<and> ec_latePackets e' = [p] \<and> ec_lateIndex e' = 185"
    and "ec_latePackets e = [p] \<Longrightarrow> ec_lateIndex e = 185 \<Longrightarrow>
      \<exists>st q e'. enc_processPacket NullPacket e = Inr (st, q, e') \<and> no_clock e' \<and> ec_latePackets e' = []"
proof -
  define pre where "pre x = enc_conflict (getPID x) (enc_collectPCR (getPID x) x (enc_continuity (getPID x) (getCC x) e))" for x
  have pre: "no_clock (snd (pre x))" "same_queue e (snd (pre x))" for x
    using no_clock_steps(3) [OF no_clock_steps(2) [OF no_clock_steps(1) [OF assms(1)]]]
      same_queue_steps(1) [of e "getPID x" "getCC x"]
      same_queue_steps(2) [of "enc_continuity (getPID x) (getCC x) e" "getPID x" x]
      same_queue_steps(3) [of "enc_collectPCR (getPID x) x (enc_continuity (getPID x) (getCC x) e)" "getPID x"]
    by (simp_all add: pre_def same_queue_def)
  {
    assume e: "ec_latePackets e = []" and pid: "getPID p \<in> ec_pidInput e"
    obtain st e1 where p1: "pre p = (st, e1)" by (cases "pre p")
    then have f: "no_clock e1" "same_queue e e1" using pre [of p] by simp_all
    define e2 where "e2 = e1\<lparr>ec_latePackets := [p], ec_lateIndex := 1\<rparr>"
    have q: "enc_enqueue p e1 = (True, e2)" using f(2) e by (simp add: enc_enqueue_def e2_def same_queue_def Let_def)
    have "no_clock e2" "ec_latePackets e2 = [p]" "ec_lateIndex e2 = 1" using f(1) by (simp_all add: e2_def no_clock_def)
    then obtain e3 b where o: "enc_output e2 = Inr (e3, b)" "no_clock e3" "ec_latePackets e3 = [p]" "ec_lateIndex e3 = 185"
      using enc_output_one(1) by blast
    have "enc_processPacket p e = Inr (st, b, e3\<lparr>ec_currentPacket := ec_currentPacket e3 + 1\<rparr>)"
      unfolding enc_processPacket_def Let_def pre_def [symmetric] p1 prod.case
      using f(2) pid assms(2) q o(1) \<open>ec_latePackets e2 = [p]\<close> by (simp add: same_queue_def)
    then show "\<exists>st q e'. enc_processPacket p e = Inr (st, q, e') \<and> no_clock e' \<and> ec_latePackets e' = [p] \<and> ec_lateIndex e' = 185"
      using o by (simp add: no_clock_def)
  }
  assume e: "ec_latePackets e = [p]" "ec_lateIndex e = 185"
  obtain st e1 where p1: "pre NullPacket = (st, e1)" by (cases "pre NullPacket")
  then have f: "no_clock e1" "same_queue e e1" using pre [of NullPacket] by simp_all
  then have "ec_latePackets e1 = [p]" "ec_lateIndex e1 = 185" using e by (simp_all add: same_queue_def)
  then obtain e3 b where o: "enc_output e1 = Inr (e3, b)" "no_clock e3" "ec_latePackets e3 = []"
    using enc_output_one(2) [OF f(1)] by blast
  have "enc_processPacket NullPacket e = Inr (st, b, e3\<lparr>ec_currentPacket := ec_currentPacket e3 + 1\<rparr>)"
    unfolding enc_processPacket_def Let_def pre_def [symmetric] p1 prod.case
    using f(2) e(1) assms(3) o(1) \<open>ec_latePackets e1 = [p]\<close> by (simp add: same_queue_def NullPacket_pid)
  then show "\<exists>st q e'. enc_processPacket NullPacket e = Inr (st, q, e') \<and> no_clock e' \<and> ec_latePackets e' = []"
    using o by (simp add: no_clock_def)
qed

text \<open>No pointer field while fewer than two packets are in the queue: the receiver waits.\<close>

lemma sparse_tunnel_step:
  assumes rel: "tunnel_state e d snt dlv" and uns: "\<not> de_synchronized d" and p: "wf_packet p"
    and nc: "getPID p = ec_pidOutput e \<longrightarrow> getPID p \<in> ec_pidInput e" and np: "\<not> passes (ec_pidInput e) p"
    and one: "length (ec_latePackets e @ (if enc_accepts p e then [p] else [])) = 1"
  shows "\<exists>st q e' st' d'. enc_processPacket p e = Inr (st, q, e') \<and> dec_processPacket q d = (st', NullPacket, d') \<and>
    \<not> de_synchronized d' \<and> ec_pidInput e' = ec_pidInput e \<and> ec_pidOutput e' = ec_pidOutput e \<and>
    tunnel_state e' d' (snt @ (if enc_accepts p e then [p] else [])) []"
proof -
  define new where "new = (if enc_accepts p e then [p] else [])"
  have r: "enc_inv e" "dec_inv d" "de_pidInput d = ec_pidOutput e" "ec_pidOutput e \<noteq> PID_NULL" "dlv = []"
    using rel uns by (simp_all add: tunnel_state_def)
  have T: "\<not> passes (ec_pidInput e) p \<and> ec_latePackets e @ new \<noteq> []" using np one unfolding new_def by auto
  obtain st q e' st' out d' where s: "enc_processPacket p e = Inr (st, q, e')" "dec_processPacket q d = (st', out, d')"
      "ec_pidInput e' = ec_pidInput e" "ec_pidOutput e' = ec_pidOutput e"
      "tunnel_state e' d' (snt @ new) (dlv @ (if \<not> passes (ec_pidInput e) p \<and> getPID out \<noteq> PID_NULL then [out] else []))"
    using tunnel_step [OF rel p nc] unfolding new_def [symmetric] by (elim exE conjE) (rule that; assumption)
  obtain x where x: "ec_latePackets e @ new = [x]" using one unfolding new_def [symmetric] by (cases "ec_latePackets e @ new") auto
  have g: "getPID q = ec_pidOutput e" "\<not> getPUSI q"
    using enc_step [OF r(1) p r(4)] s(1) unfolding Let_def new_def [symmetric] if_P [OF T] unfolding x by auto
  have "dec_processPacket q d = (True, NullPacket, d\<lparr>de_ccInput := getCC q\<rparr>)"
    using uns g r(3,4) by (simp add: dec_processPacket_def)
  then have "out = NullPacket" "d' = d\<lparr>de_ccInput := getCC q\<rparr>" using s(2) by auto
  then show ?thesis using s uns r(5) unfolding new_def [symmetric] by (simp add: NullPacket_pid)
qed

lemma wf_NullPacket: "wf_packet NullPacket" by (simp add: wf_packet_def NullPacket_def)

lemma sparse_tunnel:
  assumes "tunnel_state e d snt []" and "\<not> de_synchronized d" and "no_clock e" and "ec_latePackets e = []"
    and "\<forall>p \<in> set ps. wf_packet p \<and> getPID p \<in> ec_pidInput e"
  shows "\<exists>outs e' d'. tunnel (concat (map (\<lambda>p. [p, NullPacket]) ps)) e d = Inr (outs, ps, e', d') \<and>
    outs = replicate (2 * length ps) NullPacket \<and> \<not> de_synchronized d' \<and> ec_latePackets e' = []"
  using assms
proof (induction ps arbitrary: e d snt)
  case Nil
  then show ?case by simp
next
  case (Cons p ps)
  have r: "ec_pidOutput e \<noteq> PID_NULL" "PID_NULL \<notin> ec_pidInput e" using Cons.prems(1) by (simp_all add: tunnel_state_def)
  have p: "wf_packet p" "getPID p \<in> ec_pidInput e" using Cons.prems(5) by simp_all
  have a: "enc_accepts p e" using p(2) r(1) Cons.prems(4) by (simp add: enc_accepts_def)
  have np: "\<not> passes (ec_pidInput e) p" using p(2) by (simp add: passes_def)
  obtain st q e1 st1 d1 where s1: "enc_processPacket p e = Inr (st, q, e1)" "dec_processPacket q d = (st1, NullPacket, d1)"
      "\<not> de_synchronized d1" "ec_pidInput e1 = ec_pidInput e" "ec_pidOutput e1 = ec_pidOutput e" "tunnel_state e1 d1 (snt @ [p]) []"
  proof -
    have "getPID p = ec_pidOutput e \<longrightarrow> getPID p \<in> ec_pidInput e" using p(2) by (rule impI)
    from sparse_tunnel_step [OF Cons.prems(1,2) p(1) this np] show thesis using a Cons.prems(4) that by auto
  qed
  have k1: "no_clock e1" "ec_latePackets e1 = [p]" "ec_lateIndex e1 = 185"
    using sparse_step(1) [OF Cons.prems(3) r Cons.prems(4) p(2)] s1(1) by auto
  have r1: "ec_pidOutput e1 \<noteq> PID_NULL" "PID_NULL \<notin> ec_pidInput e1" using r s1(4,5) by simp_all
  have na: "\<not> enc_accepts NullPacket e1" "\<not> passes (ec_pidInput e1) NullPacket"
    using r1 by (simp_all add: enc_accepts_def passes_def NullPacket_pid)
  obtain st2 q2 e2 st3 d2 where s2: "enc_processPacket NullPacket e1 = Inr (st2, q2, e2)" "dec_processPacket q2 d1 = (st3, NullPacket, d2)"
      "\<not> de_synchronized d2" "ec_pidInput e2 = ec_pidInput e1" "ec_pidOutput e2 = ec_pidOutput e1" "tunnel_state e2 d2 (snt @ [p]) []"
  proof -
    have "getPID NullPacket = ec_pidOutput e1 \<longrightarrow> getPID NullPacket \<in> ec_pidInput e1" using r1(1) by (simp add: NullPacket_pid)
    from sparse_tunnel_step [OF s1(6,3) wf_NullPacket this na(2)] show thesis using na(1) k1(2) that by auto
  qed
  have k2: "no_clock e2" "ec_latePackets e2 = []"
    using sparse_step(2) [OF k1(1) r1 k1(2,3)] s2(1) by auto
  have "\<forall>p \<in> set ps. wf_packet p \<and> getPID p \<in> ec_pidInput e2" using Cons.prems(5) s1(4) s2(4) by simp
  from Cons.IH [OF s2(6,3) k2 this]
  show ?case using s1(1,2) s2(1,2) a na(1) by auto
qed

text \<open>A whole packet of the elementary stream, for the concrete runs below.\<close>

definition sample_packet :: "byte \<Rightarrow> TSPacket" where
  "sample_packet x = [0x47, 0, 0x50, 0x10] @ replicate 184 x"

lemma sample_packet_facts: "wf_packet (sample_packet x)" "getPID (sample_packet x) = 0x50"
  by (simp_all add: sample_packet_def wf_packet_def getPID_def GetUInt16_def)

text \<open>
  C8. Sparse traffic. An encapsulation without clock reference receives packets of an input PID,
  each followed by a null packet, and its output feeds a decapsulation. Every packet is taken
  in and leaves the encapsulation, but no output packet has the unit start indicator: the
  pointer field is only written when a second packet is in the queue. The decapsulation never
  synchronizes and delivers nothing, however long the stream is.
\<close>
theorem sparse_never_synchronized:
  assumes "pid < PID_NULL" and "PID_NULL \<notin> pids" and "\<forall>p \<in> set ps. wf_packet p \<and> getPID p \<in> pids"
  shows "\<exists>e d. tunnel (concat (map (\<lambda>p. [p, NullPacket]) ps))
      (PacketEncapsulation_new pid pids PID_NULL) (PacketDecapsulation_new pid) =
        Inr (replicate (2 * length ps) NullPacket, ps, e, d) \<and>
    \<not> de_synchronized d \<and> ec_latePackets e = []"
  using sparse_tunnel [OF tunnel_state_new [OF assms(1,2)], of PID_NULL] assms(3)
  by (auto simp: PacketEncapsulation_new_def PacketDecapsulation_new_def no_clock_def)

theorem sparse_never_synchronized_witness:
  "\<exists>e d. tunnel [sample_packet 1, NullPacket, sample_packet 2, NullPacket]
      (PacketEncapsulation_new 0x100 {0x50} PID_NULL) (PacketDecapsulation_new 0x100) =
        Inr (replicate 4 NullPacket, [sample_packet 1, sample_packet 2], e, d) \<and> \<not> de_synchronized d"
  using sparse_never_synchronized [of "0x100" "{0x50}" "[sample_packet 1, sample_packet 2]"]
  by (auto simp: sample_packet_facts)


text \<open>The abstract queue of bytes, and the bytes a packet carries.\<close>

definition byte_queue :: "byte list \<Rightarrow> byte list \<Rightarrow> nat \<Rightarrow> byte list \<times> byte list" where
  "byte_queue queue added n = (take n (queue @ added), drop n (queue @ added))"

definition carried :: "TSPacket \<Rightarrow> byte list" where
  "carried pkt = drop (getHeaderSize pkt + of_bool (getPUSI pkt)) pkt"




end
