(* ===== verification/Ts_Blocks.thy ===== *)
theory Ts_Blocks
  imports Ts_Prelude
begin

text \<open>
  Buffers seen as sequences of blocks of one size, for the ciphers: the block at an index, the
  exclusive or of two blocks, and what a write at a block boundary changes.
\<close>

definition xor_bytes :: "byte list \<Rightarrow> byte list \<Rightarrow> byte list" where
  "xor_bytes a b = map2 (XOR) a b"

definition block_at :: "nat \<Rightarrow> byte list \<Rightarrow> nat \<Rightarrow> byte list" where
  "block_at n data i = take n (drop (n * i) data)"

named_theorems ts_blocks \<open>facts on blocks\<close>

lemma length_xor_bytes [simp, ts_blocks]: "length (xor_bytes a b) = min (length a) (length b)"
  by (simp add: xor_bytes_def)

lemma nth_xor_bytes: "i < length a \<Longrightarrow> i < length b \<Longrightarrow> xor_bytes a b ! i = a ! i XOR b ! i"
  by (simp add: xor_bytes_def)

lemma xor_bytes_cancel [simp]:
  "length a \<le> length b \<Longrightarrow> xor_bytes (xor_bytes a b) b = a"
  "length b = length a \<Longrightarrow> xor_bytes b (xor_bytes b a) = a"
  "length b = length a \<Longrightarrow> xor_bytes b (xor_bytes a b) = a"
  "length b = length a \<Longrightarrow> xor_bytes (xor_bytes b a) b = a"
  by (rule nth_equalityI; simp add: nth_xor_bytes ac_simps)+

lemma xor_bytes_cancel_prefix: "length b \<le> length a \<Longrightarrow> xor_bytes a (xor_bytes a b) = b"
  by (rule nth_equalityI; simp add: nth_xor_bytes ac_simps)

lemma xor_bytes_comm: "xor_bytes a b = xor_bytes b a"
  by (rule nth_equalityI) (simp_all add: nth_xor_bytes xor.commute)

lemma xor_bytes_zero: "length a \<le> n \<Longrightarrow> xor_bytes a (replicate n 0) = a"
  by (rule nth_equalityI) (simp_all add: nth_xor_bytes)

lemma length_block_at [ts_blocks]: "n * (i + 1) \<le> length data \<Longrightarrow> length (block_at n data i) = n"
  by (simp add: block_at_def)

lemma nth_block_at: "k < n \<Longrightarrow> n * i + k < length data \<Longrightarrow> block_at n data i ! k = data ! (n * i + k)"
  by (simp add: block_at_def)

lemma block_at_0: "block_at n data 0 = take n data"
  by (simp add: block_at_def)

lemma block_bound: "n * (i + 1) \<le> n * (j :: nat)" if "i < j"
  using that by (intro mult_le_mono2) simp

lemma block_at_memcpy:
  assumes "length b = n" and "n * (i + 1) \<le> length data" and "n * (j + 1) \<le> length data"
  shows "block_at n (memcpy_at data (n * i) b) j = (if j = i then b else block_at n data j)"
proof (rule nth_equalityI)
  have l: "n * i + n \<le> length data" "n * j + n \<le> length data" using assms(2,3) by simp_all
  show len: "length (block_at n (memcpy_at data (n * i) b) j) = length (if j = i then b else block_at n data j)"
    using assms l by (simp add: ts_blocks)
  fix k assume "k < length (block_at n (memcpy_at data (n * i) b) j)"
  then have k: "k < n" using len assms by (simp add: ts_blocks split: if_splits)
  consider "j = i" | "j < i" | "i < j" by linarith
  then show "block_at n (memcpy_at data (n * i) b) j ! k = (if j = i then b else block_at n data j) ! k"
  proof cases
    case 1
    then show ?thesis using assms(1) k l by (simp add: nth_block_at nth_memcpy_at)
  next
    case 2
    then have "n * j + n \<le> n * i" using block_bound [of j i n] by simp
    then show ?thesis using 2 assms(1) k l by (simp add: nth_block_at nth_memcpy_at)
  next
    case 3
    then have "n * i + n \<le> n * j" using block_bound [of i j n] by simp
    then show ?thesis using 3 assms(1) k l by (simp add: nth_block_at nth_memcpy_at)
  qed
qed

lemma drop_memcpy_block:
  assumes "length b = n" and "n * (i + 1) \<le> length data" and "i < m"
  shows "drop (n * m) (memcpy_at data (n * i) b) = drop (n * m) data"
proof -
  have l: "n * i + n \<le> length data" "n * i + n \<le> n * m" using assms(2) block_bound [OF assms(3), of n] by simp_all
  show ?thesis
  proof (rule nth_equalityI)
    show "length (drop (n * m) (memcpy_at data (n * i) b)) = length (drop (n * m) data)" using assms(1) l by simp
    fix k assume "k < length (drop (n * m) (memcpy_at data (n * i) b))"
    then show "drop (n * m) (memcpy_at data (n * i) b) ! k = drop (n * m) data ! k"
      using assms(1) l by (simp add: nth_memcpy_at)
  qed
qed

text \<open>Two buffers are equal when their blocks and what follows are.\<close>

lemma blocks_eqI:
  assumes "length a = length b" and "n * m \<le> length a" and "\<And>i. i < m \<Longrightarrow> block_at n a i = block_at n b i"
    and "drop (n * m) a = drop (n * m) b"
  shows "a = b"
proof -
  have "take (n * k) a = take (n * k) b" if "k \<le> m" for k
    using that
  proof (induction k)
    case (Suc k)
    have s: "take (n * Suc k) x = take (n * k) x @ block_at n x k" for x :: "byte list"
      unfolding block_at_def by (simp add: take_add [symmetric] add.commute)
    show ?case unfolding s using Suc assms(3) [of k] by simp
  qed simp
  from this [of m] show ?thesis using assms(4) by (metis append_take_drop_id order_refl)
qed

end
