(* ===== verification/Ts_CSA2.thy ===== *)
theory Ts_CSA2
  imports Ts_Blocks
begin

text \<open>
  The DVB Common Scrambling Algorithm: \<open>tsDVBCSA2.cpp\<close>. The registers of both ciphers are C
  integers (32-bit words), the shift registers and the table of scheduled keys are arrays whose
  index 0 is not used, as in the code. A null pointer is \<open>None\<close>; a buffer is its bytes, so that
  its size is its length.
\<close>

unbundle bit_operations_syntax

type_synonym cint = "32 word"

section \<open>Control words\<close>

definition cw_sum :: "byte \<Rightarrow> byte \<Rightarrow> byte \<Rightarrow> byte" where
  "cw_sum a b c = ucast ((ucast a + ucast b + ucast c) mod 256 :: u16)"

definition ReduceCW :: "byte list \<Rightarrow> byte list" where
  "ReduceCW cw = cw[3 := cw_sum (cw ! 0) (cw ! 1) (cw ! 2), 7 := cw_sum (cw ! 4) (cw ! 5) (cw ! 6)]"

definition IsReducedCW :: "byte list \<Rightarrow> bool" where
  "IsReducedCW cw = (cw ! 3 = cw_sum (cw ! 0) (cw ! 1) (cw ! 2) \<and> cw ! 7 = cw_sum (cw ! 4) (cw ! 5) (cw ! 6))"

section \<open>Stream cipher\<close>

definition sbox1 :: "cint list" where
  "sbox1 = [
    2, 0, 1, 1, 2, 3, 3, 0, 3, 2, 2, 0, 1, 1, 0, 3,
    0, 3, 3, 0, 2, 2, 1, 1, 2, 2, 0, 3, 1, 1, 3, 0]"

definition sbox2 :: "cint list" where
  "sbox2 = [
    3, 1, 0, 2, 2, 3, 3, 0, 1, 3, 2, 1, 0, 0, 1, 2,
    3, 1, 0, 3, 3, 2, 0, 2, 0, 0, 1, 2, 2, 1, 3, 1]"

definition sbox3 :: "cint list" where
  "sbox3 = [
    2, 0, 1, 2, 2, 3, 3, 1, 1, 1, 0, 3, 3, 0, 2, 0,
    1, 3, 0, 1, 3, 0, 2, 2, 2, 0, 1, 2, 0, 3, 3, 1]"

definition sbox4 :: "cint list" where
  "sbox4 = [
    3, 1, 2, 3, 0, 2, 1, 2, 1, 2, 0, 1, 3, 0, 0, 3,
    1, 0, 3, 1, 2, 3, 0, 3, 0, 3, 2, 0, 1, 2, 2, 1]"

definition sbox5 :: "cint list" where
  "sbox5 = [
    2, 0, 0, 1, 3, 2, 3, 2, 0, 1, 3, 3, 1, 0, 2, 1,
    2, 3, 2, 0, 0, 3, 1, 1, 1, 0, 3, 2, 3, 1, 0, 2]"

definition sbox6 :: "cint list" where
  "sbox6 = [
    0, 1, 2, 3, 1, 2, 2, 0, 0, 1, 3, 0, 2, 3, 1, 3,
    2, 3, 0, 2, 3, 0, 1, 1, 2, 1, 1, 2, 0, 3, 3, 0]"

definition sbox7 :: "cint list" where
  "sbox7 = [
    0, 3, 2, 2, 3, 0, 0, 1, 3, 0, 1, 3, 1, 2, 2, 1,
    1, 0, 3, 3, 0, 1, 1, 2, 2, 3, 1, 0, 2, 3, 0, 2]"

record StreamCipher =
  st_A :: "cint list"
  st_B :: "cint list"
  st_X :: cint
  st_Y :: cint
  st_Z :: cint
  st_D :: cint
  st_E :: cint
  st_F :: cint
  st_p :: cint
  st_q :: cint
  st_r :: cint

definition nib_hi :: "byte \<Rightarrow> cint" where
  "nib_hi b = drop_bit 4 (ucast b) AND 0x0F"

definition nib_lo :: "byte \<Rightarrow> cint" where
  "nib_lo b = ucast b AND 0x0F"

definition StreamCipher_init :: "byte list \<Rightarrow> StreamCipher" where
  "StreamCipher_init key =
     \<lparr>st_A = [0, nib_hi (key ! 0), nib_lo (key ! 0), nib_hi (key ! 1), nib_lo (key ! 1),
              nib_hi (key ! 2), nib_lo (key ! 2), nib_hi (key ! 3), nib_lo (key ! 3), 0, 0],
      st_B = [0, nib_hi (key ! 4), nib_lo (key ! 4), nib_hi (key ! 5), nib_lo (key ! 5),
              nib_hi (key ! 6), nib_lo (key ! 6), nib_hi (key ! 7), nib_lo (key ! 7), 0, 0],
      st_X = 0, st_Y = 0, st_Z = 0, st_D = 0, st_E = 0, st_F = 0, st_p = 0, st_q = 0, st_r = 0\<rparr>"

text \<open>One bit of a register, and the index that five bits make.\<close>

definition csa_tap :: "cint list \<Rightarrow> nat \<Rightarrow> nat \<Rightarrow> cint" where
  "csa_tap A i k = drop_bit k (A ! i) AND 1"

definition csa_index :: "cint \<Rightarrow> cint \<Rightarrow> cint \<Rightarrow> cint \<Rightarrow> cint \<Rightarrow> nat" where
  "csa_index a b c d e = unat (push_bit 4 a OR push_bit 3 b OR push_bit 2 c OR push_bit 1 d OR e)"

definition csa_sboxes :: "cint list \<Rightarrow> cint \<times> cint \<times> cint \<times> cint \<times> cint \<times> cint \<times> cint" where
  "csa_sboxes A =
     (sbox1 ! csa_index (csa_tap A 4 0) (csa_tap A 1 2) (csa_tap A 6 1) (csa_tap A 7 3) (csa_tap A 9 0),
      sbox2 ! csa_index (csa_tap A 2 1) (csa_tap A 3 2) (csa_tap A 6 3) (csa_tap A 7 0) (csa_tap A 9 1),
      sbox3 ! csa_index (csa_tap A 1 3) (csa_tap A 2 0) (csa_tap A 5 1) (csa_tap A 5 3) (csa_tap A 6 2),
      sbox4 ! csa_index (csa_tap A 3 3) (csa_tap A 1 1) (csa_tap A 2 3) (csa_tap A 4 2) (csa_tap A 8 0),
      sbox5 ! csa_index (csa_tap A 5 2) (csa_tap A 4 3) (csa_tap A 6 0) (csa_tap A 8 1) (csa_tap A 9 2),
      sbox6 ! csa_index (csa_tap A 3 1) (csa_tap A 4 1) (csa_tap A 5 0) (csa_tap A 7 2) (csa_tap A 9 3),
      sbox7 ! csa_index (csa_tap A 2 2) (csa_tap A 3 0) (csa_tap A 7 1) (csa_tap A 8 2) (csa_tap A 8 3))"

definition csa_extra :: "cint list \<Rightarrow> cint" where
  "csa_extra B =
     (push_bit 3 (B ! 3 AND 1) XOR push_bit 2 (B ! 6 AND 2) XOR push_bit 1 (B ! 7 AND 4) XOR (B ! 9 AND 8)) OR
     (push_bit 2 (B ! 6 AND 1) XOR push_bit 1 (B ! 8 AND 2) XOR drop_bit 1 (B ! 3 AND 8) XOR (B ! 4 AND 4)) OR
     (drop_bit 2 (B ! 5 AND 8) XOR drop_bit 1 (B ! 8 AND 4) XOR push_bit 1 (B ! 4 AND 1) XOR (B ! 5 AND 2)) OR
     (drop_bit 2 (B ! 9 AND 4) XOR drop_bit 3 (B ! 6 AND 8) XOR drop_bit 1 (B ! 3 AND 2) XOR (B ! 8 AND 1))"

text \<open>One step of two bits; the input is the pair of nibbles of the initialisation mode.\<close>

definition reg_shift :: "cint \<Rightarrow> cint list \<Rightarrow> cint list" where
  "reg_shift x R = [R ! 0, x, R ! 1, R ! 2, R ! 3, R ! 4, R ! 5, R ! 6, R ! 7, R ! 8, R ! 9]"

definition csa_next_A1 :: "(cint \<times> cint) option \<Rightarrow> nat \<Rightarrow> StreamCipher \<Rightarrow> cint" where
  "csa_next_A1 inp j s =
     (let n = st_A s ! 10 XOR st_X s
      in case inp of None \<Rightarrow> n
         | Some (in1, in2) \<Rightarrow> n XOR st_D s XOR (if j mod 2 \<noteq> 0 then in2 else in1))"

definition csa_next_B1 :: "(cint \<times> cint) option \<Rightarrow> nat \<Rightarrow> StreamCipher \<Rightarrow> cint" where
  "csa_next_B1 inp j s =
     (let n = st_B s ! 7 XOR st_B s ! 10 XOR st_Y s;
          n1 = (case inp of None \<Rightarrow> n | Some (in1, in2) \<Rightarrow> n XOR (if j mod 2 \<noteq> 0 then in1 else in2))
      in if st_p s \<noteq> 0 then (push_bit 1 n1 OR (drop_bit 3 n1 AND 1)) AND 0x0F else n1)"

definition csa_next_F :: "StreamCipher \<Rightarrow> cint \<times> cint" where
  "csa_next_F s =
     (if st_q s \<noteq> 0 then let f = st_Z s + st_E s + st_r s in (f AND 0x0F, drop_bit 4 f AND 1)
      else (st_E s, st_r s))"

definition stream_step :: "(cint \<times> cint) option \<Rightarrow> nat \<Rightarrow> StreamCipher \<Rightarrow> StreamCipher" where
  "stream_step inp j s =
     (let (s1, s2, s3, s4, s5, s6, s7) = csa_sboxes (st_A s);
          extra_B = csa_extra (st_B s);
          next_A1 = csa_next_A1 inp j s;
          next_B1 = csa_next_B1 inp j s;
          (f, r) = csa_next_F s
      in \<lparr>st_A = reg_shift next_A1 (st_A s), st_B = reg_shift next_B1 (st_B s),
          st_X = push_bit 3 (s4 AND 1) OR push_bit 2 (s3 AND 1) OR (s2 AND 2) OR drop_bit 1 (s1 AND 2),
          st_Y = push_bit 3 (s6 AND 1) OR push_bit 2 (s5 AND 1) OR (s4 AND 2) OR drop_bit 1 (s3 AND 2),
          st_Z = push_bit 3 (s2 AND 1) OR push_bit 2 (s1 AND 1) OR (s6 AND 2) OR drop_bit 1 (s5 AND 2),
          st_D = st_E s XOR st_Z s XOR extra_B, st_E = st_F s, st_F = f,
          st_p = drop_bit 1 (s7 AND 2), st_q = s7 AND 1, st_r = r\<rparr>)"

definition stream_bits :: "cint \<Rightarrow> cint \<Rightarrow> cint" where
  "stream_bits op d =
     push_bit 2 op XOR ((drop_bit 1 (d XOR drop_bit 1 d) AND 2) OR ((d XOR drop_bit 1 d) AND 1))"

definition stream_byte :: "(cint \<times> cint) option \<Rightarrow> StreamCipher \<Rightarrow> cint \<times> StreamCipher" where
  "stream_byte inp s =
     foldl (\<lambda>(op, s) j. let s' = stream_step inp j s in (stream_bits op (st_D s'), s')) (0, s) [0..<4]"

definition stream_cipher :: "byte list option \<Rightarrow> StreamCipher \<Rightarrow> byte list \<times> StreamCipher" where
  "stream_cipher sb s =
     foldl (\<lambda>(cb, s) i.
         case sb of
           None \<Rightarrow> (case stream_byte None s of (op, s') \<Rightarrow> (cb @ [ucast op], s'))
         | Some b \<Rightarrow> (case stream_byte (Some (nib_hi (b ! i), nib_lo (b ! i))) s of (_, s') \<Rightarrow> (cb @ [b ! i], s')))
       ([], s) [0..<8]"

section \<open>Block cipher\<close>

definition key_perm :: "nat list" where
  "key_perm = [
    0x12, 0x24, 0x09, 0x07, 0x2A, 0x31, 0x1D, 0x15, 0x1C, 0x36, 0x3E, 0x32, 0x13, 0x21, 0x3B, 0x40,
    0x18, 0x14, 0x25, 0x27, 0x02, 0x35, 0x1B, 0x01, 0x22, 0x04, 0x0D, 0x0E, 0x39, 0x28, 0x1A, 0x29,
    0x33, 0x23, 0x34, 0x0C, 0x16, 0x30, 0x1E, 0x3A, 0x2D, 0x1F, 0x08, 0x19, 0x17, 0x2F, 0x3D, 0x11,
    0x3C, 0x05, 0x38, 0x2B, 0x0B, 0x06, 0x0A, 0x2C, 0x20, 0x3F, 0x2E, 0x0F, 0x03, 0x26, 0x10, 0x37]"

definition block_sbox :: "byte list" where
  "block_sbox = [
    0x3A, 0xEA, 0x68, 0xFE, 0x33, 0xE9, 0x88, 0x1A, 0x83, 0xCF, 0xE1, 0x7F, 0xBA, 0xE2, 0x38, 0x12,
    0xE8, 0x27, 0x61, 0x95, 0x0C, 0x36, 0xE5, 0x70, 0xA2, 0x06, 0x82, 0x7C, 0x17, 0xA3, 0x26, 0x49,
    0xBE, 0x7A, 0x6D, 0x47, 0xC1, 0x51, 0x8F, 0xF3, 0xCC, 0x5B, 0x67, 0xBD, 0xCD, 0x18, 0x08, 0xC9,
    0xFF, 0x69, 0xEF, 0x03, 0x4E, 0x48, 0x4A, 0x84, 0x3F, 0xB4, 0x10, 0x04, 0xDC, 0xF5, 0x5C, 0xC6,
    0x16, 0xAB, 0xAC, 0x4C, 0xF1, 0x6A, 0x2F, 0x3C, 0x3B, 0xD4, 0xD5, 0x94, 0xD0, 0xC4, 0x63, 0x62,
    0x71, 0xA1, 0xF9, 0x4F, 0x2E, 0xAA, 0xC5, 0x56, 0xE3, 0x39, 0x93, 0xCE, 0x65, 0x64, 0xE4, 0x58,
    0x6C, 0x19, 0x42, 0x79, 0xDD, 0xEE, 0x96, 0xF6, 0x8A, 0xEC, 0x1E, 0x85, 0x53, 0x45, 0xDE, 0xBB,
    0x7E, 0x0A, 0x9A, 0x13, 0x2A, 0x9D, 0xC2, 0x5E, 0x5A, 0x1F, 0x32, 0x35, 0x9C, 0xA8, 0x73, 0x30,
    0x29, 0x3D, 0xE7, 0x92, 0x87, 0x1B, 0x2B, 0x4B, 0xA5, 0x57, 0x97, 0x40, 0x15, 0xE6, 0xBC, 0x0E,
    0xEB, 0xC3, 0x34, 0x2D, 0xB8, 0x44, 0x25, 0xA4, 0x1C, 0xC7, 0x23, 0xED, 0x90, 0x6E, 0x50, 0x00,
    0x99, 0x9E, 0x4D, 0xD9, 0xDA, 0x8D, 0x6F, 0x5F, 0x3E, 0xD7, 0x21, 0x74, 0x86, 0xDF, 0x6B, 0x05,
    0x8E, 0x5D, 0x37, 0x11, 0xD2, 0x28, 0x75, 0xD6, 0xA7, 0x77, 0x24, 0xBF, 0xF0, 0xB0, 0x02, 0xB7,
    0xF8, 0xFC, 0x81, 0x09, 0xB1, 0x01, 0x76, 0x91, 0x7D, 0x0F, 0xC8, 0xA0, 0xF2, 0xCB, 0x78, 0x60,
    0xD1, 0xF7, 0xE0, 0xB5, 0x98, 0x22, 0xB3, 0x20, 0x1D, 0xA6, 0xDB, 0x7B, 0x59, 0x9F, 0xAE, 0x31,
    0xFB, 0xD3, 0xB6, 0xCA, 0x43, 0x72, 0x07, 0xF4, 0xD8, 0x41, 0x14, 0x55, 0x0D, 0x54, 0x8B, 0xB9,
    0xAD, 0x46, 0x0B, 0xAF, 0x80, 0x52, 0x2C, 0xFA, 0x8C, 0x89, 0x66, 0xFD, 0xB2, 0xA9, 0x9B, 0xC0]"

definition block_perm :: "cint list" where
  "block_perm = [
    0x00, 0x02, 0x80, 0x82, 0x20, 0x22, 0xA0, 0xA2, 0x10, 0x12, 0x90, 0x92, 0x30, 0x32, 0xB0, 0xB2,
    0x04, 0x06, 0x84, 0x86, 0x24, 0x26, 0xA4, 0xA6, 0x14, 0x16, 0x94, 0x96, 0x34, 0x36, 0xB4, 0xB6,
    0x40, 0x42, 0xC0, 0xC2, 0x60, 0x62, 0xE0, 0xE2, 0x50, 0x52, 0xD0, 0xD2, 0x70, 0x72, 0xF0, 0xF2,
    0x44, 0x46, 0xC4, 0xC6, 0x64, 0x66, 0xE4, 0xE6, 0x54, 0x56, 0xD4, 0xD6, 0x74, 0x76, 0xF4, 0xF6,
    0x01, 0x03, 0x81, 0x83, 0x21, 0x23, 0xA1, 0xA3, 0x11, 0x13, 0x91, 0x93, 0x31, 0x33, 0xB1, 0xB3,
    0x05, 0x07, 0x85, 0x87, 0x25, 0x27, 0xA5, 0xA7, 0x15, 0x17, 0x95, 0x97, 0x35, 0x37, 0xB5, 0xB7,
    0x41, 0x43, 0xC1, 0xC3, 0x61, 0x63, 0xE1, 0xE3, 0x51, 0x53, 0xD1, 0xD3, 0x71, 0x73, 0xF1, 0xF3,
    0x45, 0x47, 0xC5, 0xC7, 0x65, 0x67, 0xE5, 0xE7, 0x55, 0x57, 0xD5, 0xD7, 0x75, 0x77, 0xF5, 0xF7,
    0x08, 0x0A, 0x88, 0x8A, 0x28, 0x2A, 0xA8, 0xAA, 0x18, 0x1A, 0x98, 0x9A, 0x38, 0x3A, 0xB8, 0xBA,
    0x0C, 0x0E, 0x8C, 0x8E, 0x2C, 0x2E, 0xAC, 0xAE, 0x1C, 0x1E, 0x9C, 0x9E, 0x3C, 0x3E, 0xBC, 0xBE,
    0x48, 0x4A, 0xC8, 0xCA, 0x68, 0x6A, 0xE8, 0xEA, 0x58, 0x5A, 0xD8, 0xDA, 0x78, 0x7A, 0xF8, 0xFA,
    0x4C, 0x4E, 0xCC, 0xCE, 0x6C, 0x6E, 0xEC, 0xEE, 0x5C, 0x5E, 0xDC, 0xDE, 0x7C, 0x7E, 0xFC, 0xFE,
    0x09, 0x0B, 0x89, 0x8B, 0x29, 0x2B, 0xA9, 0xAB, 0x19, 0x1B, 0x99, 0x9B, 0x39, 0x3B, 0xB9, 0xBB,
    0x0D, 0x0F, 0x8D, 0x8F, 0x2D, 0x2F, 0xAD, 0xAF, 0x1D, 0x1F, 0x9D, 0x9F, 0x3D, 0x3F, 0xBD, 0xBF,
    0x49, 0x4B, 0xC9, 0xCB, 0x69, 0x6B, 0xE9, 0xEB, 0x59, 0x5B, 0xD9, 0xDB, 0x79, 0x7B, 0xF9, 0xFB,
    0x4D, 0x4F, 0xCD, 0xCF, 0x6D, 0x6F, 0xED, 0xEF, 0x5D, 0x5F, 0xDD, 0xDF, 0x7D, 0x7F, 0xFD, 0xFF]"

text \<open>The key schedule: each row of eight bytes is the bit permutation of the row above it.\<close>

definition key_bit :: "cint list \<Rightarrow> nat \<Rightarrow> cint" where
  "key_bit row m = drop_bit (7 - m mod 8) (row ! (m div 8)) AND 1"

definition key_newbit :: "cint list \<Rightarrow> cint list" where
  "key_newbit row = foldl (\<lambda>nb m. nb[key_perm ! m - 1 := key_bit row m]) (replicate 64 0) [0..<64]"

definition key_row :: "cint list \<Rightarrow> cint list" where
  "key_row row = (let nb = key_newbit row in
     map (\<lambda>j. foldl (\<lambda>v k. v OR push_bit (7 - k) (nb ! (j * 8 + k))) 0 [0..<8]) [0..<8])"

fun kb_row :: "byte list \<Rightarrow> nat \<Rightarrow> cint list" where
  "kb_row key 0 = map ucast key"
| "kb_row key (Suc n) = key_row (kb_row key n)"

definition BlockCipher_init :: "byte list \<Rightarrow> cint list" where
  "BlockCipher_init key =
     0 # concat (map (\<lambda>i. map (\<lambda>j. kb_row key (6 - i) ! j XOR of_nat i) [0..<8]) [0..<7])"

type_synonym regs = "cint \<times> cint \<times> cint \<times> cint \<times> cint \<times> cint \<times> cint \<times> cint"

definition regs_of :: "byte list \<Rightarrow> regs" where
  "regs_of b = (ucast (b ! 0), ucast (b ! 1), ucast (b ! 2), ucast (b ! 3),
     ucast (b ! 4), ucast (b ! 5), ucast (b ! 6), ucast (b ! 7))"

definition of_regs :: "regs \<Rightarrow> byte list" where
  "of_regs = (\<lambda>(r1, r2, r3, r4, r5, r6, r7, r8). [ucast r1, ucast r2, ucast r3, ucast r4, ucast r5, ucast r6, ucast r7, ucast r8])"

definition decipher_round :: "cint list \<Rightarrow> regs \<Rightarrow> nat \<Rightarrow> regs" where
  "decipher_round kk = (\<lambda>(r1, r2, r3, r4, r5, r6, r7, r8) i.
     let sbox_in = kk ! i XOR r7;
         sbox_out = ucast (block_sbox ! unat sbox_in);
         perm_out = block_perm ! unat sbox_out
     in (r8 XOR sbox_out, r1, r2 XOR r8 XOR sbox_out, r3 XOR r8 XOR sbox_out, r4 XOR r8 XOR sbox_out,
         r5, r6 XOR perm_out, r7))"

definition BlockCipher_decipher :: "cint list \<Rightarrow> byte list \<Rightarrow> byte list" where
  "BlockCipher_decipher kk ib = of_regs (foldl (decipher_round kk) (regs_of ib) (rev [1..<57]))"

definition encipher_round :: "cint list \<Rightarrow> regs \<Rightarrow> nat \<Rightarrow> regs" where
  "encipher_round kk = (\<lambda>(r1, r2, r3, r4, r5, r6, r7, r8) i.
     let sbox_in = kk ! i XOR r8;
         sbox_out = ucast (block_sbox ! unat sbox_in);
         perm_out = block_perm ! unat sbox_out
     in (r2, r3 XOR r1, r4 XOR r1, r5 XOR r1, r6, r7 XOR perm_out, r8, r1 XOR sbox_out))"

definition BlockCipher_encipher :: "cint list \<Rightarrow> byte list \<Rightarrow> byte list" where
  "BlockCipher_encipher kk bd = of_regs (foldl (encipher_round kk) (regs_of bd) [1..<57])"

section \<open>Scrambling\<close>

datatype EntropyMode = FULL_CW | REDUCE_ENTROPY

record DVBCSA2 =
  csa_ready :: bool
  csa_mode :: EntropyMode
  csa_key :: "byte list"
  csa_block :: "cint list"
  csa_stream :: StreamCipher

definition KEY_SIZE :: nat where
  "KEY_SIZE = 8"

definition MAX_NBLOCKS :: nat where
  "MAX_NBLOCKS = 184 div 8"

definition DVBCSA2_new :: "EntropyMode \<Rightarrow> DVBCSA2" where
  "DVBCSA2_new mode = \<lparr>csa_ready = False, csa_mode = mode, csa_key = replicate 8 0, csa_block = replicate 57 0,
     csa_stream = \<lparr>st_A = replicate 11 0, st_B = replicate 11 0, st_X = 0, st_Y = 0, st_Z = 0, st_D = 0, st_E = 0,
       st_F = 0, st_p = 0, st_q = 0, st_r = 0\<rparr>\<rparr>"

definition setEntropyMode :: "EntropyMode \<Rightarrow> DVBCSA2 \<Rightarrow> DVBCSA2" where
  "setEntropyMode mode c = c\<lparr>csa_mode := mode\<rparr>"

definition csa_setKey :: "byte list option \<Rightarrow> DVBCSA2 \<Rightarrow> bool \<times> DVBCSA2" where
  "csa_setKey key c =
     (case key of
        None \<Rightarrow> (False, c)
      | Some k \<Rightarrow>
          if length k \<noteq> KEY_SIZE then (False, c)
          else let k1 = (if csa_mode c = REDUCE_ENTROPY then ReduceCW k else k)
               in (True, c\<lparr>csa_key := k1, csa_block := BlockCipher_init k1, csa_stream := StreamCipher_init k1,
                    csa_ready := True\<rparr>))"

text \<open>The reverse CBC loop of the encryption: the intermediate blocks are computed from the last one
  to the first one.\<close>

fun csa_reverse_cbc :: "cint list \<Rightarrow> byte list \<Rightarrow> nat \<Rightarrow> byte list list \<Rightarrow> byte list list" where
  "csa_reverse_cbc kk data 0 ib = ib"
| "csa_reverse_cbc kk data (Suc i) ib =
     csa_reverse_cbc kk data i (ib[i := BlockCipher_encipher kk (xor_bytes (block_at 8 data i) (ib ! (i + 1)))])"

text \<open>The stream cipher on blocks \<open>i\<close> to \<open>i + n - 1\<close>, then on the residue.\<close>

fun csa_xor_stream :: "byte list list \<Rightarrow> nat \<Rightarrow> nat \<Rightarrow> StreamCipher \<times> byte list \<Rightarrow> StreamCipher \<times> byte list" where
  "csa_xor_stream ib i 0 sd = sd"
| "csa_xor_stream ib i (Suc n) (s, data) =
     (case stream_cipher None s of (ostream, s') \<Rightarrow>
        csa_xor_stream ib (i + 1) n (s', memcpy_at data (8 * i) (xor_bytes (ib ! i) ostream)))"

definition csa_residue :: "nat \<Rightarrow> StreamCipher \<times> byte list \<Rightarrow> byte list" where
  "csa_residue nblocks = (\<lambda>(s, data).
     if length data mod 8 > 0
     then (case stream_cipher None s of (ostream, _) \<Rightarrow>
             memcpy_at data (8 * nblocks) (xor_bytes (drop (8 * nblocks) data) ostream))
     else data)"

definition csa_encrypt_data :: "DVBCSA2 \<Rightarrow> byte list \<Rightarrow> byte list" where
  "csa_encrypt_data c data =
     (let nblocks = length data div 8;
          ib = csa_reverse_cbc (csa_block c) data nblocks ((replicate (MAX_NBLOCKS + 1) [])[nblocks := replicate 8 0]);
          data1 = memcpy_at data 0 (ib ! 0);
          (_, s) = stream_cipher (Some (ib ! 0)) (csa_stream c)
      in csa_residue nblocks (csa_xor_stream ib 1 (nblocks - 1) (s, data1)))"

text \<open>The loop of the decryption: \<open>ib\<close> is the intermediate block before index \<open>i\<close>.\<close>

fun csa_decrypt_loop :: "cint list \<Rightarrow> nat \<Rightarrow> nat \<Rightarrow> byte list \<times> StreamCipher \<times> byte list \<Rightarrow> byte list \<times> StreamCipher \<times> byte list" where
  "csa_decrypt_loop kk i 0 x = x"
| "csa_decrypt_loop kk i (Suc n) (ib, s, data) =
     (case stream_cipher None s of (ostream, s') \<Rightarrow>
        let oblock = BlockCipher_decipher kk ib;
            ib' = xor_bytes (block_at 8 data i) ostream
        in csa_decrypt_loop kk (i + 1) n (ib', s', memcpy_at data (8 * (i - 1)) (xor_bytes ib' oblock)))"

definition csa_decrypt_data :: "DVBCSA2 \<Rightarrow> byte list \<Rightarrow> byte list" where
  "csa_decrypt_data c data =
     (let nblocks = length data div 8;
          (ib0, s0) = stream_cipher (Some (block_at 8 data 0)) (csa_stream c);
          (ib, s, data1) = csa_decrypt_loop (csa_block c) 1 (nblocks - 1) (ib0, s0, data);
          data2 = memcpy_at data1 (8 * (nblocks - 1)) (BlockCipher_decipher (csa_block c) ib)
      in csa_residue nblocks (s, data2))"

definition csa_in_place :: "(DVBCSA2 \<Rightarrow> byte list \<Rightarrow> byte list) \<Rightarrow> byte list option \<Rightarrow> DVBCSA2 \<Rightarrow> bool \<times> byte list option" where
  "csa_in_place f addr c =
     (case addr of
        None \<Rightarrow> (False, None)
      | Some data \<Rightarrow>
          if length data div 8 > MAX_NBLOCKS \<or> \<not> csa_ready c then (False, Some data)
          else if length data < 8 then (True, Some data)
          else (True, Some (f c data)))"

definition csa_encryptInPlace :: "byte list option \<Rightarrow> DVBCSA2 \<Rightarrow> bool \<times> byte list option" where
  "csa_encryptInPlace = csa_in_place csa_encrypt_data"

definition csa_decryptInPlace :: "byte list option \<Rightarrow> DVBCSA2 \<Rightarrow> bool \<times> byte list option" where
  "csa_decryptInPlace = csa_in_place csa_decrypt_data"

text \<open>The wrappers copy the input in the output buffer and work there.\<close>

definition csa_copied :: "(byte list option \<Rightarrow> DVBCSA2 \<Rightarrow> bool \<times> byte list option) \<Rightarrow>
    byte list option \<Rightarrow> byte list option \<Rightarrow> DVBCSA2 \<Rightarrow> bool \<times> byte list option" where
  "csa_copied f input output c =
     (case (input, output) of
        (Some a, Some b) \<Rightarrow>
          if length b < length a then (False, Some b)
          else (case f (Some a) c of
                  (st, Some d) \<Rightarrow> (st, Some (memcpy_at b 0 d))
                | (st, None) \<Rightarrow> (st, Some b))
      | _ \<Rightarrow> (False, output))"

definition csa_encrypt :: "byte list option \<Rightarrow> byte list option \<Rightarrow> DVBCSA2 \<Rightarrow> bool \<times> byte list option" where
  "csa_encrypt = csa_copied csa_encryptInPlace"

definition csa_decrypt :: "byte list option \<Rightarrow> byte list option \<Rightarrow> DVBCSA2 \<Rightarrow> bool \<times> byte list option" where
  "csa_decrypt = csa_copied csa_decryptInPlace"

section \<open>The block cipher and its inverse\<close>

lemma regs_cases: "(\<And>r1 r2 r3 r4 r5 r6 r7 r8. (r :: regs) = (r1, r2, r3, r4, r5, r6, r7, r8) \<Longrightarrow> P) \<Longrightarrow> P"
  by (metis surj_pair)

lemma round_inverse:
  "decipher_round kk (encipher_round kk r i) i = r"
  "encipher_round kk (decipher_round kk r i) i = r"
  by (cases r rule: regs_cases; simp add: encipher_round_def decipher_round_def Let_def xor.assoc xor.left_commute xor.commute)+

lemma rounds_inverse:
  "foldl (decipher_round kk) (foldl (encipher_round kk) r xs) (rev xs) = r"
  "foldl (encipher_round kk) (foldl (decipher_round kk) r (rev xs)) xs = r"
  by (induction xs arbitrary: r) (simp_all add: round_inverse)

text \<open>The registers hold bytes.\<close>

definition byte_val :: "cint \<Rightarrow> bool" where
  "byte_val x = (take_bit 8 x = x)"

lemma byte_val_ucast [simp]: "byte_val (ucast (b :: byte))"
  unfolding byte_val_def by (rule bit_word_eqI) (auto simp: bit_simps dest: bit_imp_le_length)

lemma byte_val_xor [simp]: "byte_val x \<Longrightarrow> byte_val y \<Longrightarrow> byte_val (x XOR y)"
  by (simp add: byte_val_def)

lemma byte_val_round_trip: "byte_val x \<Longrightarrow> ucast (ucast x :: byte) = x"
proof -
  have "ucast (ucast x :: byte) = take_bit 8 x" by (rule bit_word_eqI) (auto simp: bit_simps)
  then show "byte_val x \<Longrightarrow> ucast (ucast x :: byte) = x" by (simp add: byte_val_def)
qed

lemma ucast_byte_round_trip [simp]: "ucast (ucast (b :: byte) :: cint) = b"
  by (rule bit_word_eqI) (auto simp: bit_simps)

lemma block_perm_bytes: "i < 256 \<Longrightarrow> byte_val (block_perm ! i)"
proof -
  have "list_all byte_val block_perm" by (simp add: block_perm_def byte_val_def)
  moreover have "length block_perm = 256" by (simp add: block_perm_def)
  ultimately show "i < 256 \<Longrightarrow> byte_val (block_perm ! i)" by (simp add: list_all_length)
qed

definition regs_ok :: "regs \<Rightarrow> bool" where
  "regs_ok = (\<lambda>(r1, r2, r3, r4, r5, r6, r7, r8). byte_val r1 \<and> byte_val r2 \<and> byte_val r3 \<and> byte_val r4 \<and>
     byte_val r5 \<and> byte_val r6 \<and> byte_val r7 \<and> byte_val r8)"

lemma unat_byte_bound: "unat (ucast (b :: byte) :: cint) < 256"
  using unsigned_less [of b, where ?'a = nat] by (simp add: unsigned_ucast_eq take_bit_nat_eq_self)

lemma rounds_ok:
  "regs_ok r \<Longrightarrow> regs_ok (encipher_round kk r i)"
  "regs_ok r \<Longrightarrow> regs_ok (decipher_round kk r i)"
  by (cases r rule: regs_cases; simp add: regs_ok_def encipher_round_def decipher_round_def Let_def block_perm_bytes unat_byte_bound)+

lemma foldl_ok: "(\<And>r i. regs_ok r \<Longrightarrow> regs_ok (f r i)) \<Longrightarrow> regs_ok r \<Longrightarrow> regs_ok (foldl f r xs)"
  by (induction xs arbitrary: r) simp_all

lemma regs_of_ok [simp]: "regs_ok (regs_of b)"
  by (simp add: regs_ok_def regs_of_def)

lemma regs_of_regs: "regs_ok r \<Longrightarrow> regs_of (of_regs r) = r"
  by (cases r rule: regs_cases) (simp add: regs_ok_def regs_of_def of_regs_def byte_val_round_trip)

lemma of_regs_of: "length b = 8 \<Longrightarrow> of_regs (regs_of b) = b"
  by (rule nth_equalityI) (auto simp: of_regs_def regs_of_def nth_Cons' less_Suc_eq eval_nat_numeral)

lemma length_of_regs [simp]: "length (of_regs r) = 8"
  by (cases r rule: regs_cases) (simp add: of_regs_def)

lemma length_cipher [simp]:
  "length (BlockCipher_encipher kk b) = 8" "length (BlockCipher_decipher kk b) = 8"
  by (simp_all add: BlockCipher_encipher_def BlockCipher_decipher_def)

lemma decipher_encipher:
  assumes "length b = 8"
  shows "BlockCipher_decipher kk (BlockCipher_encipher kk b) = b" "BlockCipher_encipher kk (BlockCipher_decipher kk b) = b"
proof -
  have "regs_ok (foldl (encipher_round kk) (regs_of b) [1..<57])" "regs_ok (foldl (decipher_round kk) (regs_of b) (rev [1..<57]))"
    by (rule foldl_ok; simp add: rounds_ok)+
  then show "BlockCipher_decipher kk (BlockCipher_encipher kk b) = b" "BlockCipher_encipher kk (BlockCipher_decipher kk b) = b"
    unfolding BlockCipher_encipher_def BlockCipher_decipher_def
    by (simp_all only: regs_of_regs rounds_inverse of_regs_of [OF assms])
qed

section \<open>The stream cipher as a key stream\<close>

lemma foldl_length:
  assumes "\<And>cb s i. \<exists>x s'. f (cb, s) i = (cb @ [x], s')"
  shows "length (fst (foldl f (cb, s) xs)) = length cb + length xs"
proof (induction xs arbitrary: cb s)
  case (Cons i xs)
  obtain x s' where "f (cb, s) i = (cb @ [x], s')" using assms by blast
  then show ?case using Cons by simp
qed simp

lemma length_stream_cipher [simp]: "length (fst (stream_cipher sb s)) = 8"
  unfolding stream_cipher_def by (subst foldl_length) (auto split: option.splits prod.splits)

lemma stream_cipher_init:
  assumes "length b = 8"
  shows "fst (stream_cipher (Some b) s) = b"
proof -
  have "fst (foldl (\<lambda>(cb, s) i. case stream_byte (Some (nib_hi (b ! i), nib_lo (b ! i))) s of (_, s') \<Rightarrow> (cb @ [b ! i], s')) (cb, s) xs) =
      cb @ map ((!) b) xs" for cb s xs
    by (induction xs arbitrary: cb s) (auto split: prod.splits)
  then have "fst (stream_cipher (Some b) s) = map ((!) b) [0..<8]" unfolding stream_cipher_def by simp
  then show ?thesis using assms map_nth [of b] by simp
qed

definition stream_after :: "StreamCipher \<Rightarrow> nat \<Rightarrow> StreamCipher" where
  "stream_after s n = ((\<lambda>s. snd (stream_cipher None s)) ^^ n) s"

definition key_stream :: "StreamCipher \<Rightarrow> nat \<Rightarrow> byte list" where
  "key_stream s n = fst (stream_cipher None (stream_after s n))"

lemma key_stream_steps:
  "stream_after s 0 = s" "stream_after (snd (stream_cipher None s)) n = stream_after s (Suc n)"
  "key_stream s 0 = fst (stream_cipher None s)" "key_stream (snd (stream_cipher None s)) n = key_stream s (Suc n)"
  "length (key_stream s n) = 8"
  by (simp_all add: stream_after_def key_stream_def funpow_Suc_right del: funpow.simps)

section \<open>The loops of the scrambling\<close>

lemma reverse_cbc_facts:
  assumes "n < length ib"
  shows "length (csa_reverse_cbc kk data n ib) = length ib \<and>
    (\<forall>j. csa_reverse_cbc kk data n ib ! j =
      (if j < n then BlockCipher_encipher kk (xor_bytes (block_at 8 data j) (csa_reverse_cbc kk data n ib ! (j + 1))) else ib ! j))"
  using assms
proof (induction n arbitrary: ib)
  case (Suc n)
  let ?ib = "ib[n := BlockCipher_encipher kk (xor_bytes (block_at 8 data n) (ib ! (n + 1)))]"
  let ?r = "csa_reverse_cbc kk data n ?ib"
  have r: "length ?r = length ?ib" "\<And>j. ?r ! j =
      (if j < n then BlockCipher_encipher kk (xor_bytes (block_at 8 data j) (?r ! (j + 1))) else ?ib ! j)"
    using Suc.IH [of ?ib] Suc.prems by simp_all
  have "?r ! j = (if j < Suc n then BlockCipher_encipher kk (xor_bytes (block_at 8 data j) (?r ! (j + 1))) else ib ! j)" for j
  proof (cases "j = n")
    case True
    then show ?thesis using r(2) [of n] r(2) [of "n + 1"] Suc.prems by simp
  next
    case False
    then show ?thesis using r(2) [of j] by (cases "j < n") simp_all
  qed
  then show ?case using r(1) by simp
qed simp

lemma xor_stream_facts:
  assumes "8 * (i + n) \<le> length data" and "\<And>j. i \<le> j \<Longrightarrow> j < i + n \<Longrightarrow> length (ib ! j) = 8"
  shows "\<exists>data'. csa_xor_stream ib i n (s, data) = (stream_after s n, data') \<and> length data' = length data \<and>
    (\<forall>j. 8 * (j + 1) \<le> length data \<longrightarrow>
       block_at 8 data' j = (if i \<le> j \<and> j < i + n then xor_bytes (ib ! j) (key_stream s (j - i)) else block_at 8 data j)) \<and>
    drop (8 * (i + n)) data' = drop (8 * (i + n)) data"
  using assms
proof (induction n arbitrary: i s data)
  case 0
  then show ?case by (auto simp: key_stream_steps)
next
  case (Suc n)
  obtain os s1 where o: "stream_cipher None s = (os, s1)" by (cases "stream_cipher None s")
  have k: "os = key_stream s 0" "s1 = snd (stream_cipher None s)" using o by (simp_all add: key_stream_steps)
  let ?b = "xor_bytes (ib ! i) os" and ?d = "memcpy_at data (8 * i) (xor_bytes (ib ! i) os)"
  have lb: "length ?b = 8" using Suc.prems(2) [of i] key_stream_steps(5) [of s 0] by (simp add: k)
  have ld: "length ?d = length data" "8 * (i + 1) \<le> length data" using lb Suc.prems(1) by simp_all
  have "\<exists>data'. csa_xor_stream ib (i + 1) n (s1, ?d) = (stream_after s1 n, data') \<and> length data' = length ?d \<and>
      (\<forall>j. 8 * (j + 1) \<le> length ?d \<longrightarrow> block_at 8 data' j =
        (if i + 1 \<le> j \<and> j < i + 1 + n then xor_bytes (ib ! j) (key_stream s1 (j - (i + 1))) else block_at 8 ?d j)) \<and>
      drop (8 * (i + 1 + n)) data' = drop (8 * (i + 1 + n)) ?d"
    by (rule Suc.IH) (use Suc.prems ld(1) in simp_all)
  then obtain data' where d: "csa_xor_stream ib (i + 1) n (s1, ?d) = (stream_after s1 n, data')" "length data' = length data"
      "\<forall>j. 8 * (j + 1) \<le> length data \<longrightarrow> block_at 8 data' j =
        (if i + 1 \<le> j \<and> j < i + 1 + n then xor_bytes (ib ! j) (key_stream s1 (j - (i + 1))) else block_at 8 ?d j)"
      "drop (8 * ((i + 1) + n)) data' = drop (8 * ((i + 1) + n)) ?d"
    unfolding ld(1) by auto
  have bl: "block_at 8 data' j = (if i \<le> j \<and> j < i + Suc n then xor_bytes (ib ! j) (key_stream s (j - i)) else block_at 8 data j)"
    if j: "8 * (j + 1) \<le> length data" for j
  proof (cases "i + 1 \<le> j \<and> j < (i + 1) + n")
    case True
    then have "j - i = Suc (j - (i + 1))" by linarith
    then show ?thesis using d(3) j True by (simp add: k(2) key_stream_steps)
  next
    case False
    have "block_at 8 ?d j = (if j = i then ?b else block_at 8 data j)" by (rule block_at_memcpy [OF lb ld(2) j])
    then show ?thesis using d(3) j False by (auto simp: k(1))
  qed
  have "drop (8 * (i + Suc n)) data' = drop (8 * (i + Suc n)) data"
    using d(4) drop_memcpy_block [OF lb ld(2), of "(i + 1) + n"] by simp
  moreover have "csa_xor_stream ib i (Suc n) (s, data) = (stream_after s (Suc n), data')"
    using d(1) by (simp add: o) (simp add: k(2) key_stream_steps)
  ultimately show ?case using d(2) bl by blast
qed

lemma decrypt_loop_facts:
  assumes "1 \<le> i" and "8 * (i + n) \<le> length data" and "length ib = 8"
    and "\<And>j. i \<le> j \<Longrightarrow> j < i + n \<Longrightarrow> length (B j) = 8"
    and "\<And>j. i \<le> j \<Longrightarrow> j < i + n \<Longrightarrow> block_at 8 data j = xor_bytes (B j) (key_stream s (j - i))"
    and "B (i - 1) = ib"
  shows "\<exists>data'. csa_decrypt_loop kk i n (ib, s, data) = (B (i + n - 1), stream_after s n, data') \<and> length data' = length data \<and>
    (\<forall>j. 8 * (j + 1) \<le> length data \<longrightarrow>
       block_at 8 data' j = (if i - 1 \<le> j \<and> j < i + n - 1 then xor_bytes (B (j + 1)) (BlockCipher_decipher kk (B j)) else block_at 8 data j)) \<and>
    drop (8 * (i + n)) data' = drop (8 * (i + n)) data"
  using assms
proof (induction n arbitrary: i s data ib)
  case 0
  then show ?case by (auto simp: key_stream_steps)
next
  case (Suc n)
  obtain os s1 where o: "stream_cipher None s = (os, s1)" by (cases "stream_cipher None s")
  have k: "os = key_stream s 0" "s1 = snd (stream_cipher None s)" "length os = 8"
    using o key_stream_steps(5) [of s 0] by (simp_all add: key_stream_steps)
  have ib': "xor_bytes (block_at 8 data i) os = B i" using Suc.prems(4,5) [of i] k by simp
  let ?b = "xor_bytes (B i) (BlockCipher_decipher kk ib)" and ?d = "memcpy_at data (8 * (i - 1)) (xor_bytes (B i) (BlockCipher_decipher kk ib))"
  have lb: "length ?b = 8" using Suc.prems(4) [of i] by simp
  have ib1: "8 * (i - 1 + 1) \<le> length data" using Suc.prems(1,2) by simp
  have ld: "length ?d = length data" using lb ib1 by simp
  have db: "block_at 8 ?d j = (if j = i - 1 then ?b else block_at 8 data j)" if "8 * (j + 1) \<le> length data" for j
    by (rule block_at_memcpy [OF lb ib1 that])
  have "\<exists>data'. csa_decrypt_loop kk (i + 1) n (B i, s1, ?d) = (B (i + 1 + n - 1), stream_after s1 n, data') \<and> length data' = length ?d \<and>
    (\<forall>j. 8 * (j + 1) \<le> length ?d \<longrightarrow>
       block_at 8 data' j = (if i + 1 - 1 \<le> j \<and> j < i + 1 + n - 1 then xor_bytes (B (j + 1)) (BlockCipher_decipher kk (B j)) else block_at 8 ?d j)) \<and>
    drop (8 * (i + 1 + n)) data' = drop (8 * (i + 1 + n)) ?d"
  proof (rule Suc.IH)
    show "8 * (i + 1 + n) \<le> length ?d" using Suc.prems(2) ld by simp
    show "length (B i) = 8" using Suc.prems(4) [of i] by simp
    show "length (B j) = 8" if "i + 1 \<le> j" "j < i + 1 + n" for j using Suc.prems(4) [of j] that by simp
    show "block_at 8 ?d j = xor_bytes (B j) (key_stream s1 (j - (i + 1)))" if j: "i + 1 \<le> j" "j < i + 1 + n" for j
    proof -
      have "8 * (j + 1) \<le> length data" using Suc.prems(2) j by (simp add: algebra_simps)
      moreover have "j - i = Suc (j - (i + 1))" using j by linarith
      moreover have "j \<noteq> i - 1" using j by linarith
      ultimately show ?thesis using db [of j] Suc.prems(5) [of j] j by (simp add: k(2) key_stream_steps)
    qed
  qed simp_all
  then obtain data' where d: "csa_decrypt_loop kk (i + 1) n (B i, s1, ?d) = (B (i + n), stream_after s1 n, data')" "length data' = length data"
      "\<And>j. 8 * (j + 1) \<le> length data \<Longrightarrow>
       block_at 8 data' j = (if i \<le> j \<and> j < i + n then xor_bytes (B (j + 1)) (BlockCipher_decipher kk (B j)) else block_at 8 ?d j)"
      "drop (8 * (i + 1 + n)) data' = drop (8 * (i + 1 + n)) ?d"
    unfolding ld by auto
  have "csa_decrypt_loop kk i (Suc n) (ib, s, data) = (B (i + Suc n - 1), stream_after s (Suc n), data')"
  proof -
    have "stream_after s1 n = stream_after s (Suc n)" by (simp only: k(2) key_stream_steps)
    then show ?thesis using d(1) by (simp add: o ib' Let_def)
  qed
  moreover have "block_at 8 data' j = (if i - 1 \<le> j \<and> j < i + Suc n - 1 then xor_bytes (B (j + 1)) (BlockCipher_decipher kk (B j)) else block_at 8 data j)"
    if "8 * (j + 1) \<le> length data" for j
  proof (cases "j = i - 1")
    case True
    then have "\<not> (i \<le> j \<and> j < i + n)" "i - 1 \<le> j \<and> j < i + Suc n - 1" "B (j + 1) = B i" "B j = ib"
      using Suc.prems(1,6) by auto
    then show ?thesis using d(3) [OF that] db [OF that] True by presburger
  next
    case False
    then have "(i - 1 \<le> j \<and> j < i + Suc n - 1) = (i \<le> j \<and> j < i + n)" by linarith
    then show ?thesis using d(3) [OF that] db [OF that] False by presburger
  qed
  moreover have "drop (8 * (i + Suc n)) data' = drop (8 * (i + Suc n)) data"
    using d(4) drop_memcpy_block [OF lb ib1, of "i + 1 + n"] by simp
  ultimately show ?case using d(2) by blast
qed

section \<open>Encryption, then decryption\<close>

text \<open>The encrypted data: the first block is the first intermediate block, the next ones are
  combined with the key stream, and so is the residue.\<close>

lemma residue_facts:
  assumes "length data div 8 = n"
  shows "length (csa_residue n (s, data)) = length data"
    and "\<And>j. j < n \<Longrightarrow> block_at 8 (csa_residue n (s, data)) j = block_at 8 data j"
    and "drop (8 * n) (csa_residue n (s, data)) = xor_bytes (drop (8 * n) data) (key_stream s 0)"
proof -
  have m: "length data = 8 * n + length data mod 8" using assms by presburger
  let ?r = "xor_bytes (drop (8 * n) data) (key_stream s 0)"
  have lr: "length ?r = length data mod 8" using m by (simp add: key_stream_steps)
  have u: "csa_residue n (s, data) = memcpy_at data (8 * n) ?r"
  proof (cases "length data mod 8 = 0")
    case True
    then have "?r = []" using lr by (simp only: length_0_conv)
    then show ?thesis using True by (simp add: csa_residue_def)
  qed (simp add: csa_residue_def key_stream_steps split: prod.splits)
  have b: "8 * n + length ?r \<le> length data" using m lr by simp
  show "length (csa_residue n (s, data)) = length data" unfolding u by (rule length_memcpy_at [OF b])
  show "drop (8 * n) (csa_residue n (s, data)) = ?r"
    unfolding u using drop_memcpy_at [OF b] m lr by simp
  show "block_at 8 (csa_residue n (s, data)) j = block_at 8 data j" if "j < n" for j
  proof -
    have j: "8 * j + 8 \<le> 8 * n" using that by simp
    show ?thesis unfolding u
    proof (rule nth_equalityI)
      show "length (block_at 8 (memcpy_at data (8 * n) ?r) j) = length (block_at 8 data j)"
        using b j by (simp add: block_at_def length_memcpy_at [OF b])
      fix k assume k: "k < length (block_at 8 (memcpy_at data (8 * n) ?r) j)"
      then have "k < 8" by (simp add: block_at_def)
      moreover have "8 * j + k < length data" "8 * j + k < 8 * n" using b j \<open>k < 8\<close> by linarith+
      ultimately show "block_at 8 (memcpy_at data (8 * n) ?r) j ! k = block_at 8 data j ! k"
        using b by (simp add: nth_block_at nth_memcpy_at [OF b] length_memcpy_at [OF b])
    qed
  qed
qed

text \<open>The intermediate blocks of the encryption, after the zero block at the end.\<close>

lemma encrypt_data_facts:
  assumes "length data div 8 = n" and "0 < n" and "n \<le> MAX_NBLOCKS"
  shows "\<exists>B. (\<forall>j < n. B j = BlockCipher_encipher (csa_block c) (xor_bytes (block_at 8 data j) (B (j + 1)))) \<and> B n = replicate 8 0 \<and>
    length (csa_encrypt_data c data) = length data \<and> block_at 8 (csa_encrypt_data c data) 0 = B 0 \<and>
    (let s = snd (stream_cipher (Some (B 0)) (csa_stream c))
     in (\<forall>j. 1 \<le> j \<and> j < n \<longrightarrow> block_at 8 (csa_encrypt_data c data) j = xor_bytes (B j) (key_stream s (j - 1))) \<and>
        drop (8 * n) (csa_encrypt_data c data) = xor_bytes (drop (8 * n) data) (key_stream s (n - 1)))"
proof -
  let ?ib0 = "(replicate (MAX_NBLOCKS + 1) [])[n := replicate 8 0]"
  define ib where "ib = csa_reverse_cbc (csa_block c) data n ?ib0"
  have l0: "n < length ?ib0" using assms(3) unfolding length_list_update length_replicate by simp
  note f = reverse_cbc_facts [OF l0, of "csa_block c" data, folded ib_def]
  have B: "ib ! j = BlockCipher_encipher (csa_block c) (xor_bytes (block_at 8 data j) (ib ! (j + 1)))" if "j < n" for j
    using f that by (metis (lifting))
  have Bn: "ib ! n = replicate 8 0"
  proof -
    have "ib ! n = ?ib0 ! n" using f by (metis (lifting) less_irrefl)
    also have "\<dots> = replicate 8 0" by (rule nth_list_update_eq) (use l0 in \<open>simp only: length_list_update\<close>)
    finally show ?thesis .
  qed
  have lB: "length (ib ! j) = 8" if "j \<le> n" for j using B [of j] Bn that by (cases "j = n") simp_all
  have ld: "8 * n \<le> length data" using assms(1) by auto
  define s where "s = snd (stream_cipher (Some (ib ! 0)) (csa_stream c))"
  define d1 where "d1 = memcpy_at data 0 (ib ! 0)"
  have b0: "8 * (0 + 1) \<le> length data" using ld assms(2) by simp
  have l1: "length d1 = length data" using lB [of 0] b0 by (simp add: d1_def)
  have d1b: "block_at 8 d1 j = (if j = 0 then ib ! 0 else block_at 8 data j)" if "8 * (j + 1) \<le> length data" for j
    using block_at_memcpy [OF lB [of 0] b0 that] by (simp add: d1_def)
  have d1d: "drop (8 * n) d1 = drop (8 * n) data" using drop_memcpy_block [OF lB [of 0] b0 assms(2)] by (simp add: d1_def)
  have n1: "1 + (n - 1) = n" using assms(2) by simp
  have "\<exists>d2. csa_xor_stream ib 1 (n - 1) (s, d1) = (stream_after s (n - 1), d2) \<and> length d2 = length d1 \<and>
      (\<forall>j. 8 * (j + 1) \<le> length d1 \<longrightarrow> block_at 8 d2 j =
        (if 1 \<le> j \<and> j < 1 + (n - 1) then xor_bytes (ib ! j) (key_stream s (j - 1)) else block_at 8 d1 j)) \<and>
      drop (8 * (1 + (n - 1))) d2 = drop (8 * (1 + (n - 1))) d1"
    by (rule xor_stream_facts) (use ld l1 n1 lB in auto)
  then obtain d2 where d2: "csa_xor_stream ib 1 (n - 1) (s, d1) = (stream_after s (n - 1), d2)" "length d2 = length data"
      "\<And>j. 8 * (j + 1) \<le> length data \<Longrightarrow> block_at 8 d2 j = (if 1 \<le> j \<and> j < n then xor_bytes (ib ! j) (key_stream s (j - 1)) else block_at 8 d1 j)"
      "drop (8 * n) d2 = drop (8 * n) data"
    unfolding l1 n1 d1d by blast
  have e: "csa_encrypt_data c data = csa_residue n (stream_after s (n - 1), d2)"
    unfolding csa_encrypt_data_def Let_def assms(1) ib_def [symmetric]
    using d2(1) unfolding s_def d1_def by (auto split: prod.splits)
  have r0: "length d2 div 8 = n" using d2(2) assms(1) by simp
  note r = residue_facts [OF r0, where s = "stream_after s (n - 1)", folded e]
  have jl: "8 * (j + 1) \<le> length data" if "j < n" for j using that ld by (simp add: algebra_simps)
  have "block_at 8 (csa_encrypt_data c data) 0 = ib ! 0"
    using r(2) [OF assms(2)] d2(3) [OF b0] d1b [OF b0] by simp
  moreover have "block_at 8 (csa_encrypt_data c data) j = xor_bytes (ib ! j) (key_stream s (j - 1))" if "1 \<le> j \<and> j < n" for j
    using r(2) [of j] d2(3) [OF jl [of j]] that by simp
  moreover have "drop (8 * n) (csa_encrypt_data c data) = xor_bytes (drop (8 * n) data) (key_stream s (n - 1))"
    using r(3) d2(4) by (simp add: key_stream_def stream_after_def)
  ultimately show ?thesis using B Bn r(1) d2(2) unfolding Let_def s_def [symmetric]
    by (intro exI [of _ "(!) ib"]) (simp add: s_def)
qed

lemma decrypt_encrypt_data:
  assumes "length data div 8 = n" and "0 < n" and "n \<le> MAX_NBLOCKS"
  shows "csa_decrypt_data c (csa_encrypt_data c data) = data" "length (csa_encrypt_data c data) = length data"
proof -
  obtain B where B: "\<And>j. j < n \<Longrightarrow> B j = BlockCipher_encipher (csa_block c) (xor_bytes (block_at 8 data j) (B (j + 1)))"
      "B n = replicate 8 0"
    and en: "length (csa_encrypt_data c data) = length data" "block_at 8 (csa_encrypt_data c data) 0 = B 0"
      "\<And>j. 1 \<le> j \<Longrightarrow> j < n \<Longrightarrow> block_at 8 (csa_encrypt_data c data) j =
         xor_bytes (B j) (key_stream (snd (stream_cipher (Some (B 0)) (csa_stream c))) (j - 1))"
      "drop (8 * n) (csa_encrypt_data c data) =
         xor_bytes (drop (8 * n) data) (key_stream (snd (stream_cipher (Some (B 0)) (csa_stream c))) (n - 1))"
    using encrypt_data_facts [OF assms, of c] unfolding Let_def by blast
  define d where "d = csa_encrypt_data c data"
  define s where "s = snd (stream_cipher (Some (B 0)) (csa_stream c))"
  note en = en [folded d_def s_def]
  show "length (csa_encrypt_data c data) = length data" using en(1) by (simp add: d_def)
  have lB: "length (B j) = 8" if "j \<le> n" for j using B(1) [of j] B(2) that by (cases "j = n") simp_all
  have dn: "length d div 8 = n" using en(1) assms(1) by simp
  have ld: "8 * n \<le> length data" using assms(1) by auto
  have jl: "8 * (j + 1) \<le> length data" if "j < n" for j using that ld by (simp add: algebra_simps)
  have n1: "1 + (n - 1) = n" using assms(2) by simp
  have st: "stream_cipher (Some (B 0)) (csa_stream c) = (B 0, s)"
    using stream_cipher_init [OF lB [of 0], of "csa_stream c"] by (simp add: s_def prod_eq_iff)
  have "\<exists>data'. csa_decrypt_loop (csa_block c) 1 (n - 1) (B 0, s, d) = (B (1 + (n - 1) - 1), stream_after s (n - 1), data') \<and> length data' = length d \<and>
    (\<forall>j. 8 * (j + 1) \<le> length d \<longrightarrow>
       block_at 8 data' j = (if 1 - 1 \<le> j \<and> j < 1 + (n - 1) - 1 then xor_bytes (B (j + 1)) (BlockCipher_decipher (csa_block c) (B j)) else block_at 8 d j)) \<and>
    drop (8 * (1 + (n - 1))) data' = drop (8 * (1 + (n - 1))) d"
    by (rule decrypt_loop_facts) (use ld n1 lB en in auto)
  then obtain d1 where d1: "csa_decrypt_loop (csa_block c) 1 (n - 1) (B 0, s, d) = (B (n - 1), stream_after s (n - 1), d1)" "length d1 = length d"
      "\<And>j. 8 * (j + 1) \<le> length d \<Longrightarrow>
       block_at 8 d1 j = (if j < n - 1 then xor_bytes (B (j + 1)) (BlockCipher_decipher (csa_block c) (B j)) else block_at 8 d j)"
      "drop (8 * n) d1 = drop (8 * n) d"
    unfolding n1 by auto
  define d2 where "d2 = memcpy_at d1 (8 * (n - 1)) (BlockCipher_decipher (csa_block c) (B (n - 1)))"
  have bn: "8 * (n - 1 + 1) \<le> length d1" using jl [of "n - 1"] assms(2) d1(2) en(1) by simp
  have l2: "length d2 = length data" using bn d1(2) en(1) by (simp add: d2_def)
  have un: "csa_decrypt_data c d = csa_residue n (stream_after s (n - 1), d2)"
    unfolding csa_decrypt_data_def Let_def dn en(2) st d2_def prod.case d1(1) ..
  have r0: "length d2 div 8 = n" using l2 assms(1) by simp
  note r = residue_facts [OF r0, where s = "stream_after s (n - 1)", folded un]
  have undo: "BlockCipher_decipher (csa_block c) (B j) = xor_bytes (block_at 8 data j) (B (j + 1))" if "j < n" for j
    using B(1) [OF that] decipher_encipher(1) [of "xor_bytes (block_at 8 data j) (B (j + 1))"] jl [OF that] lB [of "j + 1"] that
    by (simp add: ts_blocks)
  show "csa_decrypt_data c (csa_encrypt_data c data) = data"
  proof (rule blocks_eqI [where n = 8 and m = n])
    show len: "length (csa_decrypt_data c (csa_encrypt_data c data)) = length data" using r(1) l2 by (simp add: d_def)
    show "8 * n \<le> length (csa_decrypt_data c (csa_encrypt_data c data))" using len ld by simp
    show "drop (8 * n) (csa_decrypt_data c (csa_encrypt_data c data)) = drop (8 * n) data"
    proof -
      have "drop (8 * n) d2 = drop (8 * n) d1"
        using drop_memcpy_block [OF length_cipher(2) bn, of n] assms(2) by (simp add: d2_def)
      moreover have "key_stream (stream_after s (n - 1)) 0 = key_stream s (n - 1)" by (simp add: key_stream_def stream_after_def)
      moreover have "length (drop (8 * n) data) \<le> 8" using assms(1) by auto
      ultimately show ?thesis using r(3) d1(4) en(4) by (simp add: d_def key_stream_steps)
    qed
    fix j assume j: "j < n"
    have jl1: "8 * (j + 1) \<le> length d1" "8 * (j + 1) \<le> length d" using jl [OF j] d1(2) en(1) by simp_all
    have lj: "length (block_at 8 data j) = 8" using jl [OF j] by (simp add: ts_blocks)
    have "block_at 8 d2 j = (if j = n - 1 then BlockCipher_decipher (csa_block c) (B (n - 1)) else block_at 8 d1 j)"
      unfolding d2_def by (rule block_at_memcpy [OF length_cipher(2) bn jl1(1)])
    also have "\<dots> = block_at 8 data j"
    proof (cases "j = n - 1")
      case True
      then show ?thesis using undo [OF j] B(2) lj assms(2) by (simp add: xor_bytes_zero)
    next
      case False
      then have "j < n - 1" using j by linarith
      then have "block_at 8 d1 j = xor_bytes (B (j + 1)) (xor_bytes (block_at 8 data j) (B (j + 1)))"
        using d1(3) [OF jl1(2)] undo [OF j] j by simp
      then show ?thesis using False lj lB [of "j + 1"] j by simp
    qed
    finally show "block_at 8 (csa_decrypt_data c (csa_encrypt_data c data)) j = block_at 8 data j"
      using r(2) [OF j] by (simp add: d_def)
  qed
qed

section \<open>Bounds\<close>

text \<open>The registers of the stream cipher are nibbles, those of one bit are bits.\<close>

definition nibble :: "cint \<Rightarrow> bool" where
  "nibble x = (take_bit 4 x = x)"

definition one_bit :: "cint \<Rightarrow> bool" where
  "one_bit x = (take_bit 1 x = x)"

definition stream_ok :: "StreamCipher \<Rightarrow> bool" where
  "stream_ok s = (length (st_A s) = 11 \<and> length (st_B s) = 11 \<and> list_all nibble (st_A s) \<and> list_all nibble (st_B s) \<and>
     list_all nibble [st_X s, st_Y s, st_Z s, st_D s, st_E s, st_F s] \<and> list_all one_bit [st_p s, st_q s, st_r s])"

lemma nibble_iff: "nibble x = (\<forall>i. bit x i \<longrightarrow> i < 4)"
proof
  assume "nibble x" then show "\<forall>i. bit x i \<longrightarrow> i < 4" unfolding nibble_def by (metis bit_take_bit_iff)
next
  assume b: "\<forall>i. bit x i \<longrightarrow> i < 4"
  show "nibble x" unfolding nibble_def by (rule bit_word_eqI) (use b in \<open>auto simp: bit_simps\<close>)
qed

lemma one_bit_iff: "one_bit x = (\<forall>i. bit x i \<longrightarrow> i = 0)"
proof
  assume "one_bit x" then show "\<forall>i. bit x i \<longrightarrow> i = 0" unfolding one_bit_def by (metis bit_take_bit_iff less_one)
next
  assume b: "\<forall>i. bit x i \<longrightarrow> i = 0"
  show "one_bit x" unfolding one_bit_def
  proof (rule bit_word_eqI)
    fix i show "bit (take_bit 1 x) i = bit x i" unfolding bit_take_bit_iff using b by (cases "i = 0") auto
  qed
qed

lemma small_masks: "bit (0x0F :: cint) i = (i < 4)" "bit (1 :: cint) i = (i = 0)" "bit (2 :: cint) i = (i = 1)"
  "bit (4 :: cint) i = (i = 2)" "bit (8 :: cint) i = (i = 3)"
proof -
  have p: "bit (2 ^ k :: cint) i = (i = k)" if "k < 32" for k unfolding bit_exp_iff using that by auto
  have m: "(0x0F :: cint) = mask 4" by (simp add: mask_eq_exp_minus_1)
  show "bit (0x0F :: cint) i = (i < 4)" unfolding m bit_mask_iff by auto
  show "bit (1 :: cint) i = (i = 0)" by (simp add: bit_1_iff)
  show "bit (2 :: cint) i = (i = 1)" using p [of 1] by simp
  show "bit (4 :: cint) i = (i = 2)" using p [of 2] by simp
  show "bit (8 :: cint) i = (i = 3)" using p [of 3] by simp
qed

lemma nibble_ops [simp]:
  "nibble x \<Longrightarrow> nibble y \<Longrightarrow> nibble (x XOR y)" "nibble x \<Longrightarrow> nibble y \<Longrightarrow> nibble (x OR y)"
  "nibble x \<Longrightarrow> nibble (drop_bit k x)" "nibble (x AND 0x0F)" "nibble x \<Longrightarrow> nibble (x AND y)" "nibble 0"
  "one_bit x \<Longrightarrow> k \<le> 3 \<Longrightarrow> nibble (push_bit k x)" "one_bit (x AND 1)" "one_bit 0" "one_bit (drop_bit 1 (x AND 2))"
  "nibble (x AND 2)" "nibble (push_bit 2 (x AND 2))" "nibble (push_bit 1 (x AND 2))" "nibble (push_bit 1 (x AND 4))"
  "nibble (x AND 4)" "nibble (x AND 8)"
  unfolding nibble_iff one_bit_iff bit_xor_iff bit_or_iff bit_and_iff bit_push_bit_iff bit_drop_bit_eq o_def small_masks
  by auto

lemma nibble_nth: "list_all nibble A \<Longrightarrow> i < length A \<Longrightarrow> nibble (A ! i)"
  by (simp add: list_all_length)

lemma reg_shift_ok: "length R = 11 \<Longrightarrow> list_all nibble R \<Longrightarrow> nibble x \<Longrightarrow> length (reg_shift x R) = 11 \<and> list_all nibble (reg_shift x R)"
  by (simp add: reg_shift_def nibble_nth)

lemma stream_step_ok:
  assumes "stream_ok s" and "\<And>a b. inp = Some (a, b) \<Longrightarrow> nibble a \<and> nibble b"
  shows "stream_ok (stream_step inp j s)"
proof -
  have s: "length (st_A s) = 11" "length (st_B s) = 11" "list_all nibble (st_A s)" "list_all nibble (st_B s)"
      "nibble (st_X s)" "nibble (st_Y s)" "nibble (st_Z s)" "nibble (st_D s)" "nibble (st_E s)" "nibble (st_F s)"
      "one_bit (st_p s)" "one_bit (st_q s)" "one_bit (st_r s)"
    using assms(1) by (simp_all add: stream_ok_def)
  have a: "nibble (csa_next_A1 inp j s)" using s assms(2)
    by (cases inp) (auto simp: csa_next_A1_def nibble_nth)
  have b: "nibble (csa_next_B1 inp j s)" using s assms(2)
    by (cases inp) (auto simp: csa_next_B1_def nibble_nth Let_def)
  have f: "nibble (fst (csa_next_F s)) \<and> one_bit (snd (csa_next_F s))" using s by (simp add: csa_next_F_def Let_def)
  have e: "nibble (csa_extra (st_B s))" using s by (simp add: csa_extra_def nibble_nth)
  obtain s1 s2 s3 s4 s5 s6 s7 where sb: "csa_sboxes (st_A s) = (s1, s2, s3, s4, s5, s6, s7)" by (metis surj_pair)
  obtain f' r' where fr: "csa_next_F s = (f', r')" by (cases "csa_next_F s")
  have bits: "nibble (push_bit 3 (x AND 1) OR push_bit 2 (y AND 1) OR (z AND 2) OR drop_bit 1 (w AND 2))" for x y z w :: cint
    by (intro nibble_ops) simp_all
  show ?thesis unfolding stream_step_def Let_def sb fr prod.case stream_ok_def
    using reg_shift_ok [OF s(1,3) a] reg_shift_ok [OF s(2,4) b] f fr e s bits by simp
qed

lemma nibble_of_byte: "nibble (nib_hi b)" "nibble (nib_lo b)"
  by (simp_all add: nib_hi_def nib_lo_def)

lemma StreamCipher_init_ok: "stream_ok (StreamCipher_init key)"
  by (simp add: stream_ok_def StreamCipher_init_def nibble_of_byte)

lemma stream_byte_ok:
  assumes "stream_ok s" and "\<And>a b. inp = Some (a, b) \<Longrightarrow> nibble a \<and> nibble b"
  shows "stream_ok (snd (stream_byte inp s))"
proof -
  have "stream_ok s \<Longrightarrow> stream_ok (snd (foldl (\<lambda>(op, s) j. let s' = stream_step inp j s in (stream_bits op (st_D s'), s')) (op, s) xs))" for op s xs
    using stream_step_ok [OF _ assms(2)] by (induction xs arbitrary: op s) (simp_all add: Let_def)
  then show ?thesis using assms(1) unfolding stream_byte_def by blast
qed

lemma stream_cipher_ok:
  assumes "stream_ok s"
  shows "stream_ok (snd (stream_cipher sb s))"
proof -
  have "stream_ok s \<Longrightarrow> stream_ok (snd (foldl (\<lambda>(cb, s) i.
         case sb of
           None \<Rightarrow> (case stream_byte None s of (op, s') \<Rightarrow> (cb @ [ucast op], s'))
         | Some b \<Rightarrow> (case stream_byte (Some (nib_hi (b ! i), nib_lo (b ! i))) s of (_, s') \<Rightarrow> (cb @ [b ! i], s')))
       (cb, s) xs))" for cb s xs
  proof (induction xs arbitrary: cb s)
    case (Cons i xs)
    have "stream_ok (snd (stream_byte None s))" "stream_ok (snd (stream_byte (Some (nib_hi x, nib_lo x)) s))" for x
      using Cons.prems by (auto intro!: stream_byte_ok simp: nibble_of_byte)
    then show ?case using Cons.IH by (cases sb) (simp_all add: case_prod_beta)
  qed simp
  then show ?thesis using assms unfolding stream_cipher_def by blast
qed

lemma csa_index_bound:
  assumes "one_bit a" "one_bit b" "one_bit c" "one_bit d" "one_bit e"
  shows "csa_index a b c d e < 32"
proof -
  let ?x = "push_bit 4 a OR push_bit 3 b OR push_bit 2 c OR push_bit 1 d OR e"
  have "take_bit 5 ?x = ?x"
  proof (rule bit_word_eqI)
    fix i
    have "bit ?x i \<Longrightarrow> i < 5" using assms unfolding one_bit_iff bit_or_iff bit_push_bit_iff by auto
    then show "bit (take_bit 5 ?x) i = bit ?x i" unfolding bit_take_bit_iff by blast
  qed
  then have "unat ?x = unat (take_bit 5 ?x)" by (simp only:)
  also have "\<dots> < 2 ^ 5" unfolding unsigned_take_bit_eq by (rule take_bit_nat_less_exp)
  finally show ?thesis unfolding csa_index_def by simp
qed

lemma csa_tap_bit [simp]: "one_bit (csa_tap A i k)"
  by (simp add: csa_tap_def)

section \<open>The key schedule\<close>

lemma byte_val_iff: "byte_val x = (\<forall>i. bit x i \<longrightarrow> i < 8)"
proof
  assume "byte_val x" then show "\<forall>i. bit x i \<longrightarrow> i < 8" unfolding byte_val_def by (metis bit_take_bit_iff)
next
  assume b: "\<forall>i. bit x i \<longrightarrow> i < 8"
  show "byte_val x" unfolding byte_val_def
  proof (rule bit_word_eqI)
    fix i show "bit (take_bit 8 x) i = bit x i" unfolding bit_take_bit_iff using b by blast
  qed
qed

lemma key_newbit_ok: "length (key_newbit row) = 64 \<and> list_all one_bit (key_newbit row)"
proof -
  have "length nb = 64 \<and> list_all one_bit nb \<Longrightarrow>
    length (foldl (\<lambda>nb m. nb[key_perm ! m - 1 := key_bit row m]) nb xs) = 64 \<and>
    list_all one_bit (foldl (\<lambda>nb m. nb[key_perm ! m - 1 := key_bit row m]) nb xs)" for nb xs
  proof (induction xs arbitrary: nb)
    case (Cons m xs)
    have "one_bit (key_bit row m)" by (simp add: key_bit_def)
    then have "list_all one_bit (nb[key_perm ! m - 1 := key_bit row m])"
      using Cons.prems by (auto simp: list_all_iff dest: set_update_subset_insert [THEN subsetD])
    then show ?case using Cons.IH [of "nb[key_perm ! m - 1 := key_bit row m]"] Cons.prems by simp
  qed simp
  from this [of "replicate 64 0" "[0..<64]"] show ?thesis
    unfolding key_newbit_def by (simp only: length_replicate list_all_iff set_replicate_conv_if) simp
qed

lemma key_row_ok: "length (key_row row) = 8 \<and> list_all byte_val (key_row row)"
proof -
  have "byte_val (foldl (\<lambda>v k. v OR push_bit (7 - k) (key_newbit row ! (j * 8 + k))) v xs)"
    if "byte_val v" "j < 8" "\<forall>k \<in> set xs. k < 8" for v j xs
    using that
  proof (induction xs arbitrary: v)
    case (Cons k xs)
    have "j * 8 + k < 64" using Cons.prems by simp
    then have "one_bit (key_newbit row ! (j * 8 + k))" using key_newbit_ok [of row] by (simp add: list_all_length)
    then have "byte_val (v OR push_bit (7 - k) (key_newbit row ! (j * 8 + k)))"
      using Cons.prems unfolding byte_val_iff one_bit_iff bit_or_iff bit_push_bit_iff by auto
    then show ?case using Cons by simp
  qed simp
  then show ?thesis by (auto simp: key_row_def Let_def list_all_iff byte_val_def simp del: upt_rec_numeral)
qed

lemma kb_row_ok: "length key = 8 \<Longrightarrow> length (kb_row key n) = 8 \<and> list_all byte_val (kb_row key n)"
  by (cases n) (simp_all add: key_row_ok, simp add: list_all_iff)

lemma BlockCipher_init_ok:
  assumes "length key = 8"
  shows "length (BlockCipher_init key) = 57" "list_all byte_val (BlockCipher_init key)"
proof -
  show "length (BlockCipher_init key) = 57" by (simp add: BlockCipher_init_def length_concat comp_def sum_list_triv del: upt_rec_numeral)
  have "byte_val (kb_row key (6 - i) ! j XOR of_nat i)" if "i < 7" "j < 8" for i j
  proof -
    have "byte_val (kb_row key (6 - i) ! j)" using kb_row_ok [OF assms, of "6 - i"] that by (simp add: list_all_length)
    moreover have "byte_val (of_nat i)" using that by (simp add: byte_val_def take_bit_of_nat take_bit_nat_eq_self)
    ultimately show ?thesis by simp
  qed
  then show "list_all byte_val (BlockCipher_init key)"
    by (auto simp: BlockCipher_init_def list_all_iff byte_val_def simp del: upt_rec_numeral)
qed

text \<open>The tables. The key permutation writes every bit of the new row, so that its initial value does
  not matter.\<close>

lemma csa_table_lengths:
  "length key_perm = 64" "length block_sbox = 256" "length block_perm = 256"
  "length sbox1 = 32" "length sbox2 = 32" "length sbox3 = 32" "length sbox4 = 32" "length sbox5 = 32" "length sbox6 = 32" "length sbox7 = 32"
  by (simp_all add: key_perm_def block_sbox_def block_perm_def sbox1_def sbox2_def sbox3_def sbox4_def sbox5_def sbox6_def sbox7_def)

lemma key_perm_all: "list_all (\<lambda>m. m \<in> set key_perm) [1..<65]"
  by code_simp

section \<open>Properties\<close>

lemma ReduceCW_facts:
  assumes "length cw = 8"
  shows "length (ReduceCW cw) = 8" "IsReducedCW (ReduceCW cw)" "ReduceCW (ReduceCW cw) = ReduceCW cw"
    "i \<noteq> 3 \<Longrightarrow> i \<noteq> 7 \<Longrightarrow> ReduceCW cw ! i = cw ! i" "(ReduceCW cw = cw) = IsReducedCW cw"
proof -
  show l: "length (ReduceCW cw) = 8" using assms by (simp add: ReduceCW_def)
  show k: "ReduceCW cw ! i = cw ! i" if "i \<noteq> 3" "i \<noteq> 7" for i using that by (simp add: ReduceCW_def)
  have v: "ReduceCW x ! 3 = cw_sum (x ! 0) (x ! 1) (x ! 2)" "ReduceCW x ! 7 = cw_sum (x ! 4) (x ! 5) (x ! 6)" if "length x = 8" for x
    using that by (simp_all add: ReduceCW_def)
  show r: "IsReducedCW (ReduceCW cw)" unfolding IsReducedCW_def v [OF assms] using k [of 0] k [of 1] k [of 2] k [of 4] k [of 5] k [of 6] by simp
  have f: "ReduceCW x = x" if "IsReducedCW x" for x
    using that unfolding IsReducedCW_def ReduceCW_def by (metis list_update_id)
  show "ReduceCW (ReduceCW cw) = ReduceCW cw" by (rule f [OF r])
  show "(ReduceCW cw = cw) = IsReducedCW cw" using f r by metis
qed

lemma csa_setKey_cases:
  assumes "csa_setKey key c0 = (True, c)"
  obtains k where "key = Some k" "length k = 8" "csa_ready c" "csa_mode c = csa_mode c0"
    "csa_key c = (if csa_mode c0 = REDUCE_ENTROPY then ReduceCW k else k)" "length (csa_key c) = 8"
    "csa_block c = BlockCipher_init (csa_key c)" "csa_stream c = StreamCipher_init (csa_key c)"
  using assms ReduceCW_facts(1)
  by (auto simp: csa_setKey_def KEY_SIZE_def Let_def split: option.splits if_splits)

lemma scrambling_facts:
  shows "\<And>c0 key c data. csa_setKey key c0 = (True, c) \<Longrightarrow> length data div 8 \<le> MAX_NBLOCKS \<Longrightarrow>
      \<exists>d. csa_encryptInPlace (Some data) c = (True, Some d) \<and> length d = length data \<and>
        csa_decryptInPlace (Some d) c = (True, Some data) \<and> (length data < 8 \<longrightarrow> d = data)"
    and "\<And>c addr. addr = None \<or> MAX_NBLOCKS < length (the addr) div 8 \<or> \<not> csa_ready c \<Longrightarrow>
      csa_encryptInPlace addr c = (False, addr) \<and> csa_decryptInPlace addr c = (False, addr)"
proof -
  fix c0 c :: DVBCSA2 and key and data :: "byte list"
  assume k: "csa_setKey key c0 = (True, c)" and l: "length data div 8 \<le> MAX_NBLOCKS"
  have r: "csa_ready c" using csa_setKey_cases [OF k] by blast
  show "\<exists>d. csa_encryptInPlace (Some data) c = (True, Some d) \<and> length d = length data \<and>
        csa_decryptInPlace (Some d) c = (True, Some data) \<and> (length data < 8 \<longrightarrow> d = data)"
  proof (cases "length data < 8")
    case True
    then show ?thesis using r l by (simp add: csa_encryptInPlace_def csa_decryptInPlace_def csa_in_place_def)
  next
    case False
    then have "0 < length data div 8" by simp
    from decrypt_encrypt_data [OF refl this l, of c] False r l show ?thesis
      by (simp add: csa_encryptInPlace_def csa_decryptInPlace_def csa_in_place_def)
  qed
next
  fix c :: DVBCSA2 and addr :: "byte list option"
  assume "addr = None \<or> MAX_NBLOCKS < length (the addr) div 8 \<or> \<not> csa_ready c"
  then show "csa_encryptInPlace addr c = (False, addr) \<and> csa_decryptInPlace addr c = (False, addr)"
    by (cases addr) (auto simp: csa_encryptInPlace_def csa_decryptInPlace_def csa_in_place_def)
qed

definition sample_csa :: DVBCSA2 where
  "sample_csa = snd (csa_setKey (Some [1, 2, 3, 4, 5, 6, 7, 8]) (DVBCSA2_new REDUCE_ENTROPY))"

lemma sample_csa_set: "csa_setKey (Some [1, 2, 3, 4, 5, 6, 7, 8]) (DVBCSA2_new REDUCE_ENTROPY) = (True, sample_csa)"
  by (simp add: sample_csa_def csa_setKey_def KEY_SIZE_def Let_def)

text \<open>
  C10. Scrambling and descrambling are inverse. Once a key is set, any buffer of at most 23 whole
  blocks and a residue (a packet payload has at most 184 bytes) is scrambled in place to a
  buffer of the same size, which descrambles to the original; buffers of less than 8 bytes stay
  in the clear. A longer buffer, a null pointer and a missing key are refused and nothing is
  changed.
\<close>
theorem csa_scrambling_roundtrip:
  "(\<forall>c0 key c data. csa_setKey key c0 = (True, c) \<and> length data div 8 \<le> MAX_NBLOCKS \<longrightarrow>
      (\<exists>d. csa_encryptInPlace (Some data) c = (True, Some d) \<and> length d = length data \<and>
        csa_decryptInPlace (Some d) c = (True, Some data) \<and> (length data < 8 \<longrightarrow> d = data))) \<and>
   (\<forall>c addr. addr = None \<or> MAX_NBLOCKS < length (the addr) div 8 \<or> \<not> csa_ready c \<longrightarrow>
      csa_encryptInPlace addr c = (False, addr) \<and> csa_decryptInPlace addr c = (False, addr))"
  using scrambling_facts by blast

theorem csa_scrambling_roundtrip_witness:
  "\<exists>d. csa_encryptInPlace (Some (replicate 27 0xA5)) sample_csa = (True, Some d) \<and> length d = 27 \<and>
     csa_decryptInPlace (Some d) sample_csa = (True, Some (replicate 27 0xA5))"
  using conjunct1 [OF csa_scrambling_roundtrip, rule_format, OF conjI, OF sample_csa_set, of "replicate 27 0xA5"] by (simp add: MAX_NBLOCKS_def del: replicate_Suc)



text \<open>
  Setting a key. A key is accepted exactly when it has 8 bytes; a refused key changes nothing.
  In the reduced mode the control word in use has its checksums, and only these bytes differ
  from the key given; a reduced key, or any key in the full mode, is used as it is.
\<close>
theorem csa_setKey_control_word:
  "(fst (csa_setKey key c0) = (\<exists>k. key = Some k \<and> length k = KEY_SIZE)) \<and>
   (\<not> fst (csa_setKey key c0) \<longrightarrow> snd (csa_setKey key c0) = c0) \<and>
   (\<forall>k. key = Some k \<and> length k = KEY_SIZE \<longrightarrow>
      (let c = snd (csa_setKey key c0)
       in csa_ready c \<and> csa_block c = BlockCipher_init (csa_key c) \<and> csa_stream c = StreamCipher_init (csa_key c) \<and>
          (csa_mode c0 = FULL_CW \<or> IsReducedCW k \<longrightarrow> csa_key c = k) \<and>
          (csa_mode c0 = REDUCE_ENTROPY \<longrightarrow> IsReducedCW (csa_key c)) \<and>
          (\<forall>i. i \<noteq> 3 \<and> i \<noteq> 7 \<longrightarrow> csa_key c ! i = k ! i)))"
proof (intro conjI allI impI; (elim conjE)?)
  fix k assume k: "key = Some k" "length k = KEY_SIZE"
  then have l: "length k = 8" by (simp add: KEY_SIZE_def)
  show "let c = snd (csa_setKey key c0)
       in csa_ready c \<and> csa_block c = BlockCipher_init (csa_key c) \<and> csa_stream c = StreamCipher_init (csa_key c) \<and>
          (csa_mode c0 = FULL_CW \<or> IsReducedCW k \<longrightarrow> csa_key c = k) \<and>
          (csa_mode c0 = REDUCE_ENTROPY \<longrightarrow> IsReducedCW (csa_key c)) \<and>
          (\<forall>i. i \<noteq> 3 \<and> i \<noteq> 7 \<longrightarrow> csa_key c ! i = k ! i)"
    using k ReduceCW_facts [OF l] by (auto simp: csa_setKey_def Let_def)
qed (auto simp: csa_setKey_def Let_def split: option.splits if_splits)

theorem csa_setKey_control_word_witness:
  "IsReducedCW (csa_key sample_csa) \<and> csa_key sample_csa ! 0 = 1"
  using csa_setKey_control_word [of "Some [1, 2, 3, 4, 5, 6, 7, 8]" "DVBCSA2_new REDUCE_ENTROPY"]
  unfolding Let_def sample_csa_def [symmetric] by (simp add: KEY_SIZE_def DVBCSA2_new_def)

end
