(* ===== verification/Ts_DES_Tables.thy ===== *)
theory Ts_DES_Tables
  imports Ts_Prelude
begin

text \<open>
  The tables of DES, as \<open>tsDES.cpp\<close> lists them: the key permutations, the combined substitution and
  permutation boxes \<open>SP1\<close> to \<open>SP8\<close>, and the initial and final permutations, one table per byte of
  the block (\<open>des_ip[i]\<close> is \<open>des_ip0\<close> to \<open>des_ip7\<close>).
\<close>

definition bytebit :: "u32 list" where
  "bytebit = [
    0x80, 0x40, 0x20, 0x10, 0x08, 0x04, 0x02, 0x01]"

definition bigbyte :: "u32 list" where
  "bigbyte = [
    0x800000, 0x400000, 0x200000, 0x100000, 0x080000, 0x040000, 0x020000, 0x010000,
    0x008000, 0x004000, 0x002000, 0x001000, 0x000800, 0x000400, 0x000200, 0x000100,
    0x000080, 0x000040, 0x000020, 0x000010, 0x000008, 0x000004, 0x000002, 0x000001]"

definition pc1 :: "nat list" where
  "pc1 = [
    56, 48, 40, 32, 24, 16, 8, 0, 57, 49, 41, 33, 25, 17,
    9, 1, 58, 50, 42, 34, 26, 18, 10, 2, 59, 51, 43, 35,
    62, 54, 46, 38, 30, 22, 14, 6, 61, 53, 45, 37, 29, 21,
    13, 5, 60, 52, 44, 36, 28, 20, 12, 4, 27, 19, 11, 3]"

definition totrot :: "nat list" where
  "totrot = [
    1, 2, 4, 6, 8, 10, 12, 14, 15, 17, 19, 21, 23, 25, 27, 28]"

definition pc2 :: "nat list" where
  "pc2 = [
    13, 16, 10, 23, 0, 4, 2, 27, 14, 5, 20, 9,
    22, 18, 11, 3, 25, 7, 15, 6, 26, 19, 12, 1,
    40, 51, 30, 36, 46, 54, 29, 39, 50, 44, 32, 47,
    43, 48, 38, 55, 33, 52, 45, 41, 49, 35, 28, 31]"

definition SP1 :: "u32 list" where
  "SP1 = [
    0x01010400, 0x00000000, 0x00010000, 0x01010404, 0x01010004, 0x00010404, 0x00000004, 0x00010000,
    0x00000400, 0x01010400, 0x01010404, 0x00000400, 0x01000404, 0x01010004, 0x01000000, 0x00000004,
    0x00000404, 0x01000400, 0x01000400, 0x00010400, 0x00010400, 0x01010000, 0x01010000, 0x01000404,
    0x00010004, 0x01000004, 0x01000004, 0x00010004, 0x00000000, 0x00000404, 0x00010404, 0x01000000,
    0x00010000, 0x01010404, 0x00000004, 0x01010000, 0x01010400, 0x01000000, 0x01000000, 0x00000400,
    0x01010004, 0x00010000, 0x00010400, 0x01000004, 0x00000400, 0x00000004, 0x01000404, 0x00010404,
    0x01010404, 0x00010004, 0x01010000, 0x01000404, 0x01000004, 0x00000404, 0x00010404, 0x01010400,
    0x00000404, 0x01000400, 0x01000400, 0x00000000, 0x00010004, 0x00010400, 0x00000000, 0x01010004]"

definition SP2 :: "u32 list" where
  "SP2 = [
    0x80108020, 0x80008000, 0x00008000, 0x00108020, 0x00100000, 0x00000020, 0x80100020, 0x80008020,
    0x80000020, 0x80108020, 0x80108000, 0x80000000, 0x80008000, 0x00100000, 0x00000020, 0x80100020,
    0x00108000, 0x00100020, 0x80008020, 0x00000000, 0x80000000, 0x00008000, 0x00108020, 0x80100000,
    0x00100020, 0x80000020, 0x00000000, 0x00108000, 0x00008020, 0x80108000, 0x80100000, 0x00008020,
    0x00000000, 0x00108020, 0x80100020, 0x00100000, 0x80008020, 0x80100000, 0x80108000, 0x00008000,
    0x80100000, 0x80008000, 0x00000020, 0x80108020, 0x00108020, 0x00000020, 0x00008000, 0x80000000,
    0x00008020, 0x80108000, 0x00100000, 0x80000020, 0x00100020, 0x80008020, 0x80000020, 0x00100020,
    0x00108000, 0x00000000, 0x80008000, 0x00008020, 0x80000000, 0x80100020, 0x80108020, 0x00108000]"

definition SP3 :: "u32 list" where
  "SP3 = [
    0x00000208, 0x08020200, 0x00000000, 0x08020008, 0x08000200, 0x00000000, 0x00020208, 0x08000200,
    0x00020008, 0x08000008, 0x08000008, 0x00020000, 0x08020208, 0x00020008, 0x08020000, 0x00000208,
    0x08000000, 0x00000008, 0x08020200, 0x00000200, 0x00020200, 0x08020000, 0x08020008, 0x00020208,
    0x08000208, 0x00020200, 0x00020000, 0x08000208, 0x00000008, 0x08020208, 0x00000200, 0x08000000,
    0x08020200, 0x08000000, 0x00020008, 0x00000208, 0x00020000, 0x08020200, 0x08000200, 0x00000000,
    0x00000200, 0x00020008, 0x08020208, 0x08000200, 0x08000008, 0x00000200, 0x00000000, 0x08020008,
    0x08000208, 0x00020000, 0x08000000, 0x08020208, 0x00000008, 0x00020208, 0x00020200, 0x08000008,
    0x08020000, 0x08000208, 0x00000208, 0x08020000, 0x00020208, 0x00000008, 0x08020008, 0x00020200]"

definition SP4 :: "u32 list" where
  "SP4 = [
    0x00802001, 0x00002081, 0x00002081, 0x00000080, 0x00802080, 0x00800081, 0x00800001, 0x00002001,
    0x00000000, 0x00802000, 0x00802000, 0x00802081, 0x00000081, 0x00000000, 0x00800080, 0x00800001,
    0x00000001, 0x00002000, 0x00800000, 0x00802001, 0x00000080, 0x00800000, 0x00002001, 0x00002080,
    0x00800081, 0x00000001, 0x00002080, 0x00800080, 0x00002000, 0x00802080, 0x00802081, 0x00000081,
    0x00800080, 0x00800001, 0x00802000, 0x00802081, 0x00000081, 0x00000000, 0x00000000, 0x00802000,
    0x00002080, 0x00800080, 0x00800081, 0x00000001, 0x00802001, 0x00002081, 0x00002081, 0x00000080,
    0x00802081, 0x00000081, 0x00000001, 0x00002000, 0x00800001, 0x00002001, 0x00802080, 0x00800081,
    0x00002001, 0x00002080, 0x00800000, 0x00802001, 0x00000080, 0x00800000, 0x00002000, 0x00802080]"

definition SP5 :: "u32 list" where
  "SP5 = [
    0x00000100, 0x02080100, 0x02080000, 0x42000100, 0x00080000, 0x00000100, 0x40000000, 0x02080000,
    0x40080100, 0x00080000, 0x02000100, 0x40080100, 0x42000100, 0x42080000, 0x00080100, 0x40000000,
    0x02000000, 0x40080000, 0x40080000, 0x00000000, 0x40000100, 0x42080100, 0x42080100, 0x02000100,
    0x42080000, 0x40000100, 0x00000000, 0x42000000, 0x02080100, 0x02000000, 0x42000000, 0x00080100,
    0x00080000, 0x42000100, 0x00000100, 0x02000000, 0x40000000, 0x02080000, 0x42000100, 0x40080100,
    0x02000100, 0x40000000, 0x42080000, 0x02080100, 0x40080100, 0x00000100, 0x02000000, 0x42080000,
    0x42080100, 0x00080100, 0x42000000, 0x42080100, 0x02080000, 0x00000000, 0x40080000, 0x42000000,
    0x00080100, 0x02000100, 0x40000100, 0x00080000, 0x00000000, 0x40080000, 0x02080100, 0x40000100]"

definition SP6 :: "u32 list" where
  "SP6 = [
    0x20000010, 0x20400000, 0x00004000, 0x20404010, 0x20400000, 0x00000010, 0x20404010, 0x00400000,
    0x20004000, 0x00404010, 0x00400000, 0x20000010, 0x00400010, 0x20004000, 0x20000000, 0x00004010,
    0x00000000, 0x00400010, 0x20004010, 0x00004000, 0x00404000, 0x20004010, 0x00000010, 0x20400010,
    0x20400010, 0x00000000, 0x00404010, 0x20404000, 0x00004010, 0x00404000, 0x20404000, 0x20000000,
    0x20004000, 0x00000010, 0x20400010, 0x00404000, 0x20404010, 0x00400000, 0x00004010, 0x20000010,
    0x00400000, 0x20004000, 0x20000000, 0x00004010, 0x20000010, 0x20404010, 0x00404000, 0x20400000,
    0x00404010, 0x20404000, 0x00000000, 0x20400010, 0x00000010, 0x00004000, 0x20400000, 0x00404010,
    0x00004000, 0x00400010, 0x20004010, 0x00000000, 0x20404000, 0x20000000, 0x00400010, 0x20004010]"

definition SP7 :: "u32 list" where
  "SP7 = [
    0x00200000, 0x04200002, 0x04000802, 0x00000000, 0x00000800, 0x04000802, 0x00200802, 0x04200800,
    0x04200802, 0x00200000, 0x00000000, 0x04000002, 0x00000002, 0x04000000, 0x04200002, 0x00000802,
    0x04000800, 0x00200802, 0x00200002, 0x04000800, 0x04000002, 0x04200000, 0x04200800, 0x00200002,
    0x04200000, 0x00000800, 0x00000802, 0x04200802, 0x00200800, 0x00000002, 0x04000000, 0x00200800,
    0x04000000, 0x00200800, 0x00200000, 0x04000802, 0x04000802, 0x04200002, 0x04200002, 0x00000002,
    0x00200002, 0x04000000, 0x04000800, 0x00200000, 0x04200800, 0x00000802, 0x00200802, 0x04200800,
    0x00000802, 0x04000002, 0x04200802, 0x04200000, 0x00200800, 0x00000000, 0x00000002, 0x04200802,
    0x00000000, 0x00200802, 0x04200000, 0x00000800, 0x04000002, 0x04000800, 0x00000800, 0x00200002]"

definition SP8 :: "u32 list" where
  "SP8 = [
    0x10001040, 0x00001000, 0x00040000, 0x10041040, 0x10000000, 0x10001040, 0x00000040, 0x10000000,
    0x00040040, 0x10040000, 0x10041040, 0x00041000, 0x10041000, 0x00041040, 0x00001000, 0x00000040,
    0x10040000, 0x10000040, 0x10001000, 0x00001040, 0x00041000, 0x00040040, 0x10040040, 0x10041000,
    0x00001040, 0x00000000, 0x00000000, 0x10040040, 0x10000040, 0x10001000, 0x00041040, 0x00040000,
    0x00041040, 0x00040000, 0x10041000, 0x00001000, 0x00000040, 0x10040040, 0x00001000, 0x00041040,
    0x10001000, 0x00000040, 0x10000040, 0x10040000, 0x10040040, 0x10000000, 0x00040000, 0x10001040,
    0x00000000, 0x10041040, 0x00040040, 0x10000040, 0x10040000, 0x10001000, 0x10001040, 0x00000000,
    0x10041040, 0x00041000, 0x00041000, 0x00001040, 0x00001040, 0x00040040, 0x10000000, 0x10041000]"

definition des_ip0 :: "u64 list" where
  "des_ip0 = [
    0x0000000000000000, 0x0000001000000000, 0x0000000000000010, 0x0000001000000010, 0x0000100000000000, 0x0000101000000000,
    0x0000100000000010, 0x0000101000000010, 0x0000000000001000, 0x0000001000001000, 0x0000000000001010, 0x0000001000001010,
    0x0000100000001000, 0x0000101000001000, 0x0000100000001010, 0x0000101000001010, 0x0010000000000000, 0x0010001000000000,
    0x0010000000000010, 0x0010001000000010, 0x0010100000000000, 0x0010101000000000, 0x0010100000000010, 0x0010101000000010,
    0x0010000000001000, 0x0010001000001000, 0x0010000000001010, 0x0010001000001010, 0x0010100000001000, 0x0010101000001000,
    0x0010100000001010, 0x0010101000001010, 0x0000000000100000, 0x0000001000100000, 0x0000000000100010, 0x0000001000100010,
    0x0000100000100000, 0x0000101000100000, 0x0000100000100010, 0x0000101000100010, 0x0000000000101000, 0x0000001000101000,
    0x0000000000101010, 0x0000001000101010, 0x0000100000101000, 0x0000101000101000, 0x0000100000101010, 0x0000101000101010,
    0x0010000000100000, 0x0010001000100000, 0x0010000000100010, 0x0010001000100010, 0x0010100000100000, 0x0010101000100000,
    0x0010100000100010, 0x0010101000100010, 0x0010000000101000, 0x0010001000101000, 0x0010000000101010, 0x0010001000101010,
    0x0010100000101000, 0x0010101000101000, 0x0010100000101010, 0x0010101000101010, 0x1000000000000000, 0x1000001000000000,
    0x1000000000000010, 0x1000001000000010, 0x1000100000000000, 0x1000101000000000, 0x1000100000000010, 0x1000101000000010,
    0x1000000000001000, 0x1000001000001000, 0x1000000000001010, 0x1000001000001010, 0x1000100000001000, 0x1000101000001000,
    0x1000100000001010, 0x1000101000001010, 0x1010000000000000, 0x1010001000000000, 0x1010000000000010, 0x1010001000000010,
    0x1010100000000000, 0x1010101000000000, 0x1010100000000010, 0x1010101000000010, 0x1010000000001000, 0x1010001000001000,
    0x1010000000001010, 0x1010001000001010, 0x1010100000001000, 0x1010101000001000, 0x1010100000001010, 0x1010101000001010,
    0x1000000000100000, 0x1000001000100000, 0x1000000000100010, 0x1000001000100010, 0x1000100000100000, 0x1000101000100000,
    0x1000100000100010, 0x1000101000100010, 0x1000000000101000, 0x1000001000101000, 0x1000000000101010, 0x1000001000101010,
    0x1000100000101000, 0x1000101000101000, 0x1000100000101010, 0x1000101000101010, 0x1010000000100000, 0x1010001000100000,
    0x1010000000100010, 0x1010001000100010, 0x1010100000100000, 0x1010101000100000, 0x1010100000100010, 0x1010101000100010,
    0x1010000000101000, 0x1010001000101000, 0x1010000000101010, 0x1010001000101010, 0x1010100000101000, 0x1010101000101000,
    0x1010100000101010, 0x1010101000101010, 0x0000000010000000, 0x0000001010000000, 0x0000000010000010, 0x0000001010000010,
    0x0000100010000000, 0x0000101010000000, 0x0000100010000010, 0x0000101010000010, 0x0000000010001000, 0x0000001010001000,
    0x0000000010001010, 0x0000001010001010, 0x0000100010001000, 0x0000101010001000, 0x0000100010001010, 0x0000101010001010,
    0x0010000010000000, 0x0010001010000000, 0x0010000010000010, 0x0010001010000010, 0x0010100010000000, 0x0010101010000000,
    0x0010100010000010, 0x0010101010000010, 0x0010000010001000, 0x0010001010001000, 0x0010000010001010, 0x0010001010001010,
    0x0010100010001000, 0x0010101010001000, 0x0010100010001010, 0x0010101010001010, 0x0000000010100000, 0x0000001010100000,
    0x0000000010100010, 0x0000001010100010, 0x0000100010100000, 0x0000101010100000, 0x0000100010100010, 0x0000101010100010,
    0x0000000010101000, 0x0000001010101000, 0x0000000010101010, 0x0000001010101010, 0x0000100010101000, 0x0000101010101000,
    0x0000100010101010, 0x0000101010101010, 0x0010000010100000, 0x0010001010100000, 0x0010000010100010, 0x0010001010100010,
    0x0010100010100000, 0x0010101010100000, 0x0010100010100010, 0x0010101010100010, 0x0010000010101000, 0x0010001010101000,
    0x0010000010101010, 0x0010001010101010, 0x0010100010101000, 0x0010101010101000, 0x0010100010101010, 0x0010101010101010,
    0x1000000010000000, 0x1000001010000000, 0x1000000010000010, 0x1000001010000010, 0x1000100010000000, 0x1000101010000000,
    0x1000100010000010, 0x1000101010000010, 0x1000000010001000, 0x1000001010001000, 0x1000000010001010, 0x1000001010001010,
    0x1000100010001000, 0x1000101010001000, 0x1000100010001010, 0x1000101010001010, 0x1010000010000000, 0x1010001010000000,
    0x1010000010000010, 0x1010001010000010, 0x1010100010000000, 0x1010101010000000, 0x1010100010000010, 0x1010101010000010,
    0x1010000010001000, 0x1010001010001000, 0x1010000010001010, 0x1010001010001010, 0x1010100010001000, 0x1010101010001000,
    0x1010100010001010, 0x1010101010001010, 0x1000000010100000, 0x1000001010100000, 0x1000000010100010, 0x1000001010100010,
    0x1000100010100000, 0x1000101010100000, 0x1000100010100010, 0x1000101010100010, 0x1000000010101000, 0x1000001010101000,
    0x1000000010101010, 0x1000001010101010, 0x1000100010101000, 0x1000101010101000, 0x1000100010101010, 0x1000101010101010,
    0x1010000010100000, 0x1010001010100000, 0x1010000010100010, 0x1010001010100010, 0x1010100010100000, 0x1010101010100000,
    0x1010100010100010, 0x1010101010100010, 0x1010000010101000, 0x1010001010101000, 0x1010000010101010, 0x1010001010101010,
    0x1010100010101000, 0x1010101010101000, 0x1010100010101010, 0x1010101010101010]"

definition des_ip1 :: "u64 list" where
  "des_ip1 = [
    0x0000000000000000, 0x0000000800000000, 0x0000000000000008, 0x0000000800000008, 0x0000080000000000, 0x0000080800000000,
    0x0000080000000008, 0x0000080800000008, 0x0000000000000800, 0x0000000800000800, 0x0000000000000808, 0x0000000800000808,
    0x0000080000000800, 0x0000080800000800, 0x0000080000000808, 0x0000080800000808, 0x0008000000000000, 0x0008000800000000,
    0x0008000000000008, 0x0008000800000008, 0x0008080000000000, 0x0008080800000000, 0x0008080000000008, 0x0008080800000008,
    0x0008000000000800, 0x0008000800000800, 0x0008000000000808, 0x0008000800000808, 0x0008080000000800, 0x0008080800000800,
    0x0008080000000808, 0x0008080800000808, 0x0000000000080000, 0x0000000800080000, 0x0000000000080008, 0x0000000800080008,
    0x0000080000080000, 0x0000080800080000, 0x0000080000080008, 0x0000080800080008, 0x0000000000080800, 0x0000000800080800,
    0x0000000000080808, 0x0000000800080808, 0x0000080000080800, 0x0000080800080800, 0x0000080000080808, 0x0000080800080808,
    0x0008000000080000, 0x0008000800080000, 0x0008000000080008, 0x0008000800080008, 0x0008080000080000, 0x0008080800080000,
    0x0008080000080008, 0x0008080800080008, 0x0008000000080800, 0x0008000800080800, 0x0008000000080808, 0x0008000800080808,
    0x0008080000080800, 0x0008080800080800, 0x0008080000080808, 0x0008080800080808, 0x0800000000000000, 0x0800000800000000,
    0x0800000000000008, 0x0800000800000008, 0x0800080000000000, 0x0800080800000000, 0x0800080000000008, 0x0800080800000008,
    0x0800000000000800, 0x0800000800000800, 0x0800000000000808, 0x0800000800000808, 0x0800080000000800, 0x0800080800000800,
    0x0800080000000808, 0x0800080800000808, 0x0808000000000000, 0x0808000800000000, 0x0808000000000008, 0x0808000800000008,
    0x0808080000000000, 0x0808080800000000, 0x0808080000000008, 0x0808080800000008, 0x0808000000000800, 0x0808000800000800,
    0x0808000000000808, 0x0808000800000808, 0x0808080000000800, 0x0808080800000800, 0x0808080000000808, 0x0808080800000808,
    0x0800000000080000, 0x0800000800080000, 0x0800000000080008, 0x0800000800080008, 0x0800080000080000, 0x0800080800080000,
    0x0800080000080008, 0x0800080800080008, 0x0800000000080800, 0x0800000800080800, 0x0800000000080808, 0x0800000800080808,
    0x0800080000080800, 0x0800080800080800, 0x0800080000080808, 0x0800080800080808, 0x0808000000080000, 0x0808000800080000,
    0x0808000000080008, 0x0808000800080008, 0x0808080000080000, 0x0808080800080000, 0x0808080000080008, 0x0808080800080008,
    0x0808000000080800, 0x0808000800080800, 0x0808000000080808, 0x0808000800080808, 0x0808080000080800, 0x0808080800080800,
    0x0808080000080808, 0x0808080800080808, 0x0000000008000000, 0x0000000808000000, 0x0000000008000008, 0x0000000808000008,
    0x0000080008000000, 0x0000080808000000, 0x0000080008000008, 0x0000080808000008, 0x0000000008000800, 0x0000000808000800,
    0x0000000008000808, 0x0000000808000808, 0x0000080008000800, 0x0000080808000800, 0x0000080008000808, 0x0000080808000808,
    0x0008000008000000, 0x0008000808000000, 0x0008000008000008, 0x0008000808000008, 0x0008080008000000, 0x0008080808000000,
    0x0008080008000008, 0x0008080808000008, 0x0008000008000800, 0x0008000808000800, 0x0008000008000808, 0x0008000808000808,
    0x0008080008000800, 0x0008080808000800, 0x0008080008000808, 0x0008080808000808, 0x0000000008080000, 0x0000000808080000,
    0x0000000008080008, 0x0000000808080008, 0x0000080008080000, 0x0000080808080000, 0x0000080008080008, 0x0000080808080008,
    0x0000000008080800, 0x0000000808080800, 0x0000000008080808, 0x0000000808080808, 0x0000080008080800, 0x0000080808080800,
    0x0000080008080808, 0x0000080808080808, 0x0008000008080000, 0x0008000808080000, 0x0008000008080008, 0x0008000808080008,
    0x0008080008080000, 0x0008080808080000, 0x0008080008080008, 0x0008080808080008, 0x0008000008080800, 0x0008000808080800,
    0x0008000008080808, 0x0008000808080808, 0x0008080008080800, 0x0008080808080800, 0x0008080008080808, 0x0008080808080808,
    0x0800000008000000, 0x0800000808000000, 0x0800000008000008, 0x0800000808000008, 0x0800080008000000, 0x0800080808000000,
    0x0800080008000008, 0x0800080808000008, 0x0800000008000800, 0x0800000808000800, 0x0800000008000808, 0x0800000808000808,
    0x0800080008000800, 0x0800080808000800, 0x0800080008000808, 0x0800080808000808, 0x0808000008000000, 0x0808000808000000,
    0x0808000008000008, 0x0808000808000008, 0x0808080008000000, 0x0808080808000000, 0x0808080008000008, 0x0808080808000008,
    0x0808000008000800, 0x0808000808000800, 0x0808000008000808, 0x0808000808000808, 0x0808080008000800, 0x0808080808000800,
    0x0808080008000808, 0x0808080808000808, 0x0800000008080000, 0x0800000808080000, 0x0800000008080008, 0x0800000808080008,
    0x0800080008080000, 0x0800080808080000, 0x0800080008080008, 0x0800080808080008, 0x0800000008080800, 0x0800000808080800,
    0x0800000008080808, 0x0800000808080808, 0x0800080008080800, 0x0800080808080800, 0x0800080008080808, 0x0800080808080808,
    0x0808000008080000, 0x0808000808080000, 0x0808000008080008, 0x0808000808080008, 0x0808080008080000, 0x0808080808080000,
    0x0808080008080008, 0x0808080808080008, 0x0808000008080800, 0x0808000808080800, 0x0808000008080808, 0x0808000808080808,
    0x0808080008080800, 0x0808080808080800, 0x0808080008080808, 0x0808080808080808]"

definition des_ip2 :: "u64 list" where
  "des_ip2 = [
    0x0000000000000000, 0x0000000400000000, 0x0000000000000004, 0x0000000400000004, 0x0000040000000000, 0x0000040400000000,
    0x0000040000000004, 0x0000040400000004, 0x0000000000000400, 0x0000000400000400, 0x0000000000000404, 0x0000000400000404,
    0x0000040000000400, 0x0000040400000400, 0x0000040000000404, 0x0000040400000404, 0x0004000000000000, 0x0004000400000000,
    0x0004000000000004, 0x0004000400000004, 0x0004040000000000, 0x0004040400000000, 0x0004040000000004, 0x0004040400000004,
    0x0004000000000400, 0x0004000400000400, 0x0004000000000404, 0x0004000400000404, 0x0004040000000400, 0x0004040400000400,
    0x0004040000000404, 0x0004040400000404, 0x0000000000040000, 0x0000000400040000, 0x0000000000040004, 0x0000000400040004,
    0x0000040000040000, 0x0000040400040000, 0x0000040000040004, 0x0000040400040004, 0x0000000000040400, 0x0000000400040400,
    0x0000000000040404, 0x0000000400040404, 0x0000040000040400, 0x0000040400040400, 0x0000040000040404, 0x0000040400040404,
    0x0004000000040000, 0x0004000400040000, 0x0004000000040004, 0x0004000400040004, 0x0004040000040000, 0x0004040400040000,
    0x0004040000040004, 0x0004040400040004, 0x0004000000040400, 0x0004000400040400, 0x0004000000040404, 0x0004000400040404,
    0x0004040000040400, 0x0004040400040400, 0x0004040000040404, 0x0004040400040404, 0x0400000000000000, 0x0400000400000000,
    0x0400000000000004, 0x0400000400000004, 0x0400040000000000, 0x0400040400000000, 0x0400040000000004, 0x0400040400000004,
    0x0400000000000400, 0x0400000400000400, 0x0400000000000404, 0x0400000400000404, 0x0400040000000400, 0x0400040400000400,
    0x0400040000000404, 0x0400040400000404, 0x0404000000000000, 0x0404000400000000, 0x0404000000000004, 0x0404000400000004,
    0x0404040000000000, 0x0404040400000000, 0x0404040000000004, 0x0404040400000004, 0x0404000000000400, 0x0404000400000400,
    0x0404000000000404, 0x0404000400000404, 0x0404040000000400, 0x0404040400000400, 0x0404040000000404, 0x0404040400000404,
    0x0400000000040000, 0x0400000400040000, 0x0400000000040004, 0x0400000400040004, 0x0400040000040000, 0x0400040400040000,
    0x0400040000040004, 0x0400040400040004, 0x0400000000040400, 0x0400000400040400, 0x0400000000040404, 0x0400000400040404,
    0x0400040000040400, 0x0400040400040400, 0x0400040000040404, 0x0400040400040404, 0x0404000000040000, 0x0404000400040000,
    0x0404000000040004, 0x0404000400040004, 0x0404040000040000, 0x0404040400040000, 0x0404040000040004, 0x0404040400040004,
    0x0404000000040400, 0x0404000400040400, 0x0404000000040404, 0x0404000400040404, 0x0404040000040400, 0x0404040400040400,
    0x0404040000040404, 0x0404040400040404, 0x0000000004000000, 0x0000000404000000, 0x0000000004000004, 0x0000000404000004,
    0x0000040004000000, 0x0000040404000000, 0x0000040004000004, 0x0000040404000004, 0x0000000004000400, 0x0000000404000400,
    0x0000000004000404, 0x0000000404000404, 0x0000040004000400, 0x0000040404000400, 0x0000040004000404, 0x0000040404000404,
    0x0004000004000000, 0x0004000404000000, 0x0004000004000004, 0x0004000404000004, 0x0004040004000000, 0x0004040404000000,
    0x0004040004000004, 0x0004040404000004, 0x0004000004000400, 0x0004000404000400, 0x0004000004000404, 0x0004000404000404,
    0x0004040004000400, 0x0004040404000400, 0x0004040004000404, 0x0004040404000404, 0x0000000004040000, 0x0000000404040000,
    0x0000000004040004, 0x0000000404040004, 0x0000040004040000, 0x0000040404040000, 0x0000040004040004, 0x0000040404040004,
    0x0000000004040400, 0x0000000404040400, 0x0000000004040404, 0x0000000404040404, 0x0000040004040400, 0x0000040404040400,
    0x0000040004040404, 0x0000040404040404, 0x0004000004040000, 0x0004000404040000, 0x0004000004040004, 0x0004000404040004,
    0x0004040004040000, 0x0004040404040000, 0x0004040004040004, 0x0004040404040004, 0x0004000004040400, 0x0004000404040400,
    0x0004000004040404, 0x0004000404040404, 0x0004040004040400, 0x0004040404040400, 0x0004040004040404, 0x0004040404040404,
    0x0400000004000000, 0x0400000404000000, 0x0400000004000004, 0x0400000404000004, 0x0400040004000000, 0x0400040404000000,
    0x0400040004000004, 0x0400040404000004, 0x0400000004000400, 0x0400000404000400, 0x0400000004000404, 0x0400000404000404,
    0x0400040004000400, 0x0400040404000400, 0x0400040004000404, 0x0400040404000404, 0x0404000004000000, 0x0404000404000000,
    0x0404000004000004, 0x0404000404000004, 0x0404040004000000, 0x0404040404000000, 0x0404040004000004, 0x0404040404000004,
    0x0404000004000400, 0x0404000404000400, 0x0404000004000404, 0x0404000404000404, 0x0404040004000400, 0x0404040404000400,
    0x0404040004000404, 0x0404040404000404, 0x0400000004040000, 0x0400000404040000, 0x0400000004040004, 0x0400000404040004,
    0x0400040004040000, 0x0400040404040000, 0x0400040004040004, 0x0400040404040004, 0x0400000004040400, 0x0400000404040400,
    0x0400000004040404, 0x0400000404040404, 0x0400040004040400, 0x0400040404040400, 0x0400040004040404, 0x0400040404040404,
    0x0404000004040000, 0x0404000404040000, 0x0404000004040004, 0x0404000404040004, 0x0404040004040000, 0x0404040404040000,
    0x0404040004040004, 0x0404040404040004, 0x0404000004040400, 0x0404000404040400, 0x0404000004040404, 0x0404000404040404,
    0x0404040004040400, 0x0404040404040400, 0x0404040004040404, 0x0404040404040404]"

definition des_ip3 :: "u64 list" where
  "des_ip3 = [
    0x0000000000000000, 0x0000000200000000, 0x0000000000000002, 0x0000000200000002, 0x0000020000000000, 0x0000020200000000,
    0x0000020000000002, 0x0000020200000002, 0x0000000000000200, 0x0000000200000200, 0x0000000000000202, 0x0000000200000202,
    0x0000020000000200, 0x0000020200000200, 0x0000020000000202, 0x0000020200000202, 0x0002000000000000, 0x0002000200000000,
    0x0002000000000002, 0x0002000200000002, 0x0002020000000000, 0x0002020200000000, 0x0002020000000002, 0x0002020200000002,
    0x0002000000000200, 0x0002000200000200, 0x0002000000000202, 0x0002000200000202, 0x0002020000000200, 0x0002020200000200,
    0x0002020000000202, 0x0002020200000202, 0x0000000000020000, 0x0000000200020000, 0x0000000000020002, 0x0000000200020002,
    0x0000020000020000, 0x0000020200020000, 0x0000020000020002, 0x0000020200020002, 0x0000000000020200, 0x0000000200020200,
    0x0000000000020202, 0x0000000200020202, 0x0000020000020200, 0x0000020200020200, 0x0000020000020202, 0x0000020200020202,
    0x0002000000020000, 0x0002000200020000, 0x0002000000020002, 0x0002000200020002, 0x0002020000020000, 0x0002020200020000,
    0x0002020000020002, 0x0002020200020002, 0x0002000000020200, 0x0002000200020200, 0x0002000000020202, 0x0002000200020202,
    0x0002020000020200, 0x0002020200020200, 0x0002020000020202, 0x0002020200020202, 0x0200000000000000, 0x0200000200000000,
    0x0200000000000002, 0x0200000200000002, 0x0200020000000000, 0x0200020200000000, 0x0200020000000002, 0x0200020200000002,
    0x0200000000000200, 0x0200000200000200, 0x0200000000000202, 0x0200000200000202, 0x0200020000000200, 0x0200020200000200,
    0x0200020000000202, 0x0200020200000202, 0x0202000000000000, 0x0202000200000000, 0x0202000000000002, 0x0202000200000002,
    0x0202020000000000, 0x0202020200000000, 0x0202020000000002, 0x0202020200000002, 0x0202000000000200, 0x0202000200000200,
    0x0202000000000202, 0x0202000200000202, 0x0202020000000200, 0x0202020200000200, 0x0202020000000202, 0x0202020200000202,
    0x0200000000020000, 0x0200000200020000, 0x0200000000020002, 0x0200000200020002, 0x0200020000020000, 0x0200020200020000,
    0x0200020000020002, 0x0200020200020002, 0x0200000000020200, 0x0200000200020200, 0x0200000000020202, 0x0200000200020202,
    0x0200020000020200, 0x0200020200020200, 0x0200020000020202, 0x0200020200020202, 0x0202000000020000, 0x0202000200020000,
    0x0202000000020002, 0x0202000200020002, 0x0202020000020000, 0x0202020200020000, 0x0202020000020002, 0x0202020200020002,
    0x0202000000020200, 0x0202000200020200, 0x0202000000020202, 0x0202000200020202, 0x0202020000020200, 0x0202020200020200,
    0x0202020000020202, 0x0202020200020202, 0x0000000002000000, 0x0000000202000000, 0x0000000002000002, 0x0000000202000002,
    0x0000020002000000, 0x0000020202000000, 0x0000020002000002, 0x0000020202000002, 0x0000000002000200, 0x0000000202000200,
    0x0000000002000202, 0x0000000202000202, 0x0000020002000200, 0x0000020202000200, 0x0000020002000202, 0x0000020202000202,
    0x0002000002000000, 0x0002000202000000, 0x0002000002000002, 0x0002000202000002, 0x0002020002000000, 0x0002020202000000,
    0x0002020002000002, 0x0002020202000002, 0x0002000002000200, 0x0002000202000200, 0x0002000002000202, 0x0002000202000202,
    0x0002020002000200, 0x0002020202000200, 0x0002020002000202, 0x0002020202000202, 0x0000000002020000, 0x0000000202020000,
    0x0000000002020002, 0x0000000202020002, 0x0000020002020000, 0x0000020202020000, 0x0000020002020002, 0x0000020202020002,
    0x0000000002020200, 0x0000000202020200, 0x0000000002020202, 0x0000000202020202, 0x0000020002020200, 0x0000020202020200,
    0x0000020002020202, 0x0000020202020202, 0x0002000002020000, 0x0002000202020000, 0x0002000002020002, 0x0002000202020002,
    0x0002020002020000, 0x0002020202020000, 0x0002020002020002, 0x0002020202020002, 0x0002000002020200, 0x0002000202020200,
    0x0002000002020202, 0x0002000202020202, 0x0002020002020200, 0x0002020202020200, 0x0002020002020202, 0x0002020202020202,
    0x0200000002000000, 0x0200000202000000, 0x0200000002000002, 0x0200000202000002, 0x0200020002000000, 0x0200020202000000,
    0x0200020002000002, 0x0200020202000002, 0x0200000002000200, 0x0200000202000200, 0x0200000002000202, 0x0200000202000202,
    0x0200020002000200, 0x0200020202000200, 0x0200020002000202, 0x0200020202000202, 0x0202000002000000, 0x0202000202000000,
    0x0202000002000002, 0x0202000202000002, 0x0202020002000000, 0x0202020202000000, 0x0202020002000002, 0x0202020202000002,
    0x0202000002000200, 0x0202000202000200, 0x0202000002000202, 0x0202000202000202, 0x0202020002000200, 0x0202020202000200,
    0x0202020002000202, 0x0202020202000202, 0x0200000002020000, 0x0200000202020000, 0x0200000002020002, 0x0200000202020002,
    0x0200020002020000, 0x0200020202020000, 0x0200020002020002, 0x0200020202020002, 0x0200000002020200, 0x0200000202020200,
    0x0200000002020202, 0x0200000202020202, 0x0200020002020200, 0x0200020202020200, 0x0200020002020202, 0x0200020202020202,
    0x0202000002020000, 0x0202000202020000, 0x0202000002020002, 0x0202000202020002, 0x0202020002020000, 0x0202020202020000,
    0x0202020002020002, 0x0202020202020002, 0x0202000002020200, 0x0202000202020200, 0x0202000002020202, 0x0202000202020202,
    0x0202020002020200, 0x0202020202020200, 0x0202020002020202, 0x0202020202020202]"

definition des_ip4 :: "u64 list" where
  "des_ip4 = [
    0x0000000000000000, 0x0000010000000000, 0x0000000000000100, 0x0000010000000100, 0x0001000000000000, 0x0001010000000000,
    0x0001000000000100, 0x0001010000000100, 0x0000000000010000, 0x0000010000010000, 0x0000000000010100, 0x0000010000010100,
    0x0001000000010000, 0x0001010000010000, 0x0001000000010100, 0x0001010000010100, 0x0100000000000000, 0x0100010000000000,
    0x0100000000000100, 0x0100010000000100, 0x0101000000000000, 0x0101010000000000, 0x0101000000000100, 0x0101010000000100,
    0x0100000000010000, 0x0100010000010000, 0x0100000000010100, 0x0100010000010100, 0x0101000000010000, 0x0101010000010000,
    0x0101000000010100, 0x0101010000010100, 0x0000000001000000, 0x0000010001000000, 0x0000000001000100, 0x0000010001000100,
    0x0001000001000000, 0x0001010001000000, 0x0001000001000100, 0x0001010001000100, 0x0000000001010000, 0x0000010001010000,
    0x0000000001010100, 0x0000010001010100, 0x0001000001010000, 0x0001010001010000, 0x0001000001010100, 0x0001010001010100,
    0x0100000001000000, 0x0100010001000000, 0x0100000001000100, 0x0100010001000100, 0x0101000001000000, 0x0101010001000000,
    0x0101000001000100, 0x0101010001000100, 0x0100000001010000, 0x0100010001010000, 0x0100000001010100, 0x0100010001010100,
    0x0101000001010000, 0x0101010001010000, 0x0101000001010100, 0x0101010001010100, 0x0000000100000000, 0x0000010100000000,
    0x0000000100000100, 0x0000010100000100, 0x0001000100000000, 0x0001010100000000, 0x0001000100000100, 0x0001010100000100,
    0x0000000100010000, 0x0000010100010000, 0x0000000100010100, 0x0000010100010100, 0x0001000100010000, 0x0001010100010000,
    0x0001000100010100, 0x0001010100010100, 0x0100000100000000, 0x0100010100000000, 0x0100000100000100, 0x0100010100000100,
    0x0101000100000000, 0x0101010100000000, 0x0101000100000100, 0x0101010100000100, 0x0100000100010000, 0x0100010100010000,
    0x0100000100010100, 0x0100010100010100, 0x0101000100010000, 0x0101010100010000, 0x0101000100010100, 0x0101010100010100,
    0x0000000101000000, 0x0000010101000000, 0x0000000101000100, 0x0000010101000100, 0x0001000101000000, 0x0001010101000000,
    0x0001000101000100, 0x0001010101000100, 0x0000000101010000, 0x0000010101010000, 0x0000000101010100, 0x0000010101010100,
    0x0001000101010000, 0x0001010101010000, 0x0001000101010100, 0x0001010101010100, 0x0100000101000000, 0x0100010101000000,
    0x0100000101000100, 0x0100010101000100, 0x0101000101000000, 0x0101010101000000, 0x0101000101000100, 0x0101010101000100,
    0x0100000101010000, 0x0100010101010000, 0x0100000101010100, 0x0100010101010100, 0x0101000101010000, 0x0101010101010000,
    0x0101000101010100, 0x0101010101010100, 0x0000000000000001, 0x0000010000000001, 0x0000000000000101, 0x0000010000000101,
    0x0001000000000001, 0x0001010000000001, 0x0001000000000101, 0x0001010000000101, 0x0000000000010001, 0x0000010000010001,
    0x0000000000010101, 0x0000010000010101, 0x0001000000010001, 0x0001010000010001, 0x0001000000010101, 0x0001010000010101,
    0x0100000000000001, 0x0100010000000001, 0x0100000000000101, 0x0100010000000101, 0x0101000000000001, 0x0101010000000001,
    0x0101000000000101, 0x0101010000000101, 0x0100000000010001, 0x0100010000010001, 0x0100000000010101, 0x0100010000010101,
    0x0101000000010001, 0x0101010000010001, 0x0101000000010101, 0x0101010000010101, 0x0000000001000001, 0x0000010001000001,
    0x0000000001000101, 0x0000010001000101, 0x0001000001000001, 0x0001010001000001, 0x0001000001000101, 0x0001010001000101,
    0x0000000001010001, 0x0000010001010001, 0x0000000001010101, 0x0000010001010101, 0x0001000001010001, 0x0001010001010001,
    0x0001000001010101, 0x0001010001010101, 0x0100000001000001, 0x0100010001000001, 0x0100000001000101, 0x0100010001000101,
    0x0101000001000001, 0x0101010001000001, 0x0101000001000101, 0x0101010001000101, 0x0100000001010001, 0x0100010001010001,
    0x0100000001010101, 0x0100010001010101, 0x0101000001010001, 0x0101010001010001, 0x0101000001010101, 0x0101010001010101,
    0x0000000100000001, 0x0000010100000001, 0x0000000100000101, 0x0000010100000101, 0x0001000100000001, 0x0001010100000001,
    0x0001000100000101, 0x0001010100000101, 0x0000000100010001, 0x0000010100010001, 0x0000000100010101, 0x0000010100010101,
    0x0001000100010001, 0x0001010100010001, 0x0001000100010101, 0x0001010100010101, 0x0100000100000001, 0x0100010100000001,
    0x0100000100000101, 0x0100010100000101, 0x0101000100000001, 0x0101010100000001, 0x0101000100000101, 0x0101010100000101,
    0x0100000100010001, 0x0100010100010001, 0x0100000100010101, 0x0100010100010101, 0x0101000100010001, 0x0101010100010001,
    0x0101000100010101, 0x0101010100010101, 0x0000000101000001, 0x0000010101000001, 0x0000000101000101, 0x0000010101000101,
    0x0001000101000001, 0x0001010101000001, 0x0001000101000101, 0x0001010101000101, 0x0000000101010001, 0x0000010101010001,
    0x0000000101010101, 0x0000010101010101, 0x0001000101010001, 0x0001010101010001, 0x0001000101010101, 0x0001010101010101,
    0x0100000101000001, 0x0100010101000001, 0x0100000101000101, 0x0100010101000101, 0x0101000101000001, 0x0101010101000001,
    0x0101000101000101, 0x0101010101000101, 0x0100000101010001, 0x0100010101010001, 0x0100000101010101, 0x0100010101010101,
    0x0101000101010001, 0x0101010101010001, 0x0101000101010101, 0x0101010101010101]"

definition des_ip5 :: "u64 list" where
  "des_ip5 = [
    0x0000000000000000, 0x0000008000000000, 0x0000000000000080, 0x0000008000000080, 0x0000800000000000, 0x0000808000000000,
    0x0000800000000080, 0x0000808000000080, 0x0000000000008000, 0x0000008000008000, 0x0000000000008080, 0x0000008000008080,
    0x0000800000008000, 0x0000808000008000, 0x0000800000008080, 0x0000808000008080, 0x0080000000000000, 0x0080008000000000,
    0x0080000000000080, 0x0080008000000080, 0x0080800000000000, 0x0080808000000000, 0x0080800000000080, 0x0080808000000080,
    0x0080000000008000, 0x0080008000008000, 0x0080000000008080, 0x0080008000008080, 0x0080800000008000, 0x0080808000008000,
    0x0080800000008080, 0x0080808000008080, 0x0000000000800000, 0x0000008000800000, 0x0000000000800080, 0x0000008000800080,
    0x0000800000800000, 0x0000808000800000, 0x0000800000800080, 0x0000808000800080, 0x0000000000808000, 0x0000008000808000,
    0x0000000000808080, 0x0000008000808080, 0x0000800000808000, 0x0000808000808000, 0x0000800000808080, 0x0000808000808080,
    0x0080000000800000, 0x0080008000800000, 0x0080000000800080, 0x0080008000800080, 0x0080800000800000, 0x0080808000800000,
    0x0080800000800080, 0x0080808000800080, 0x0080000000808000, 0x0080008000808000, 0x0080000000808080, 0x0080008000808080,
    0x0080800000808000, 0x0080808000808000, 0x0080800000808080, 0x0080808000808080, 0x8000000000000000, 0x8000008000000000,
    0x8000000000000080, 0x8000008000000080, 0x8000800000000000, 0x8000808000000000, 0x8000800000000080, 0x8000808000000080,
    0x8000000000008000, 0x8000008000008000, 0x8000000000008080, 0x8000008000008080, 0x8000800000008000, 0x8000808000008000,
    0x8000800000008080, 0x8000808000008080, 0x8080000000000000, 0x8080008000000000, 0x8080000000000080, 0x8080008000000080,
    0x8080800000000000, 0x8080808000000000, 0x8080800000000080, 0x8080808000000080, 0x8080000000008000, 0x8080008000008000,
    0x8080000000008080, 0x8080008000008080, 0x8080800000008000, 0x8080808000008000, 0x8080800000008080, 0x8080808000008080,
    0x8000000000800000, 0x8000008000800000, 0x8000000000800080, 0x8000008000800080, 0x8000800000800000, 0x8000808000800000,
    0x8000800000800080, 0x8000808000800080, 0x8000000000808000, 0x8000008000808000, 0x8000000000808080, 0x8000008000808080,
    0x8000800000808000, 0x8000808000808000, 0x8000800000808080, 0x8000808000808080, 0x8080000000800000, 0x8080008000800000,
    0x8080000000800080, 0x8080008000800080, 0x8080800000800000, 0x8080808000800000, 0x8080800000800080, 0x8080808000800080,
    0x8080000000808000, 0x8080008000808000, 0x8080000000808080, 0x8080008000808080, 0x8080800000808000, 0x8080808000808000,
    0x8080800000808080, 0x8080808000808080, 0x0000000080000000, 0x0000008080000000, 0x0000000080000080, 0x0000008080000080,
    0x0000800080000000, 0x0000808080000000, 0x0000800080000080, 0x0000808080000080, 0x0000000080008000, 0x0000008080008000,
    0x0000000080008080, 0x0000008080008080, 0x0000800080008000, 0x0000808080008000, 0x0000800080008080, 0x0000808080008080,
    0x0080000080000000, 0x0080008080000000, 0x0080000080000080, 0x0080008080000080, 0x0080800080000000, 0x0080808080000000,
    0x0080800080000080, 0x0080808080000080, 0x0080000080008000, 0x0080008080008000, 0x0080000080008080, 0x0080008080008080,
    0x0080800080008000, 0x0080808080008000, 0x0080800080008080, 0x0080808080008080, 0x0000000080800000, 0x0000008080800000,
    0x0000000080800080, 0x0000008080800080, 0x0000800080800000, 0x0000808080800000, 0x0000800080800080, 0x0000808080800080,
    0x0000000080808000, 0x0000008080808000, 0x0000000080808080, 0x0000008080808080, 0x0000800080808000, 0x0000808080808000,
    0x0000800080808080, 0x0000808080808080, 0x0080000080800000, 0x0080008080800000, 0x0080000080800080, 0x0080008080800080,
    0x0080800080800000, 0x0080808080800000, 0x0080800080800080, 0x0080808080800080, 0x0080000080808000, 0x0080008080808000,
    0x0080000080808080, 0x0080008080808080, 0x0080800080808000, 0x0080808080808000, 0x0080800080808080, 0x0080808080808080,
    0x8000000080000000, 0x8000008080000000, 0x8000000080000080, 0x8000008080000080, 0x8000800080000000, 0x8000808080000000,
    0x8000800080000080, 0x8000808080000080, 0x8000000080008000, 0x8000008080008000, 0x8000000080008080, 0x8000008080008080,
    0x8000800080008000, 0x8000808080008000, 0x8000800080008080, 0x8000808080008080, 0x8080000080000000, 0x8080008080000000,
    0x8080000080000080, 0x8080008080000080, 0x8080800080000000, 0x8080808080000000, 0x8080800080000080, 0x8080808080000080,
    0x8080000080008000, 0x8080008080008000, 0x8080000080008080, 0x8080008080008080, 0x8080800080008000, 0x8080808080008000,
    0x8080800080008080, 0x8080808080008080, 0x8000000080800000, 0x8000008080800000, 0x8000000080800080, 0x8000008080800080,
    0x8000800080800000, 0x8000808080800000, 0x8000800080800080, 0x8000808080800080, 0x8000000080808000, 0x8000008080808000,
    0x8000000080808080, 0x8000008080808080, 0x8000800080808000, 0x8000808080808000, 0x8000800080808080, 0x8000808080808080,
    0x8080000080800000, 0x8080008080800000, 0x8080000080800080, 0x8080008080800080, 0x8080800080800000, 0x8080808080800000,
    0x8080800080800080, 0x8080808080800080, 0x8080000080808000, 0x8080008080808000, 0x8080000080808080, 0x8080008080808080,
    0x8080800080808000, 0x8080808080808000, 0x8080800080808080, 0x8080808080808080]"

definition des_ip6 :: "u64 list" where
  "des_ip6 = [
    0x0000000000000000, 0x0000004000000000, 0x0000000000000040, 0x0000004000000040, 0x0000400000000000, 0x0000404000000000,
    0x0000400000000040, 0x0000404000000040, 0x0000000000004000, 0x0000004000004000, 0x0000000000004040, 0x0000004000004040,
    0x0000400000004000, 0x0000404000004000, 0x0000400000004040, 0x0000404000004040, 0x0040000000000000, 0x0040004000000000,
    0x0040000000000040, 0x0040004000000040, 0x0040400000000000, 0x0040404000000000, 0x0040400000000040, 0x0040404000000040,
    0x0040000000004000, 0x0040004000004000, 0x0040000000004040, 0x0040004000004040, 0x0040400000004000, 0x0040404000004000,
    0x0040400000004040, 0x0040404000004040, 0x0000000000400000, 0x0000004000400000, 0x0000000000400040, 0x0000004000400040,
    0x0000400000400000, 0x0000404000400000, 0x0000400000400040, 0x0000404000400040, 0x0000000000404000, 0x0000004000404000,
    0x0000000000404040, 0x0000004000404040, 0x0000400000404000, 0x0000404000404000, 0x0000400000404040, 0x0000404000404040,
    0x0040000000400000, 0x0040004000400000, 0x0040000000400040, 0x0040004000400040, 0x0040400000400000, 0x0040404000400000,
    0x0040400000400040, 0x0040404000400040, 0x0040000000404000, 0x0040004000404000, 0x0040000000404040, 0x0040004000404040,
    0x0040400000404000, 0x0040404000404000, 0x0040400000404040, 0x0040404000404040, 0x4000000000000000, 0x4000004000000000,
    0x4000000000000040, 0x4000004000000040, 0x4000400000000000, 0x4000404000000000, 0x4000400000000040, 0x4000404000000040,
    0x4000000000004000, 0x4000004000004000, 0x4000000000004040, 0x4000004000004040, 0x4000400000004000, 0x4000404000004000,
    0x4000400000004040, 0x4000404000004040, 0x4040000000000000, 0x4040004000000000, 0x4040000000000040, 0x4040004000000040,
    0x4040400000000000, 0x4040404000000000, 0x4040400000000040, 0x4040404000000040, 0x4040000000004000, 0x4040004000004000,
    0x4040000000004040, 0x4040004000004040, 0x4040400000004000, 0x4040404000004000, 0x4040400000004040, 0x4040404000004040,
    0x4000000000400000, 0x4000004000400000, 0x4000000000400040, 0x4000004000400040, 0x4000400000400000, 0x4000404000400000,
    0x4000400000400040, 0x4000404000400040, 0x4000000000404000, 0x4000004000404000, 0x4000000000404040, 0x4000004000404040,
    0x4000400000404000, 0x4000404000404000, 0x4000400000404040, 0x4000404000404040, 0x4040000000400000, 0x4040004000400000,
    0x4040000000400040, 0x4040004000400040, 0x4040400000400000, 0x4040404000400000, 0x4040400000400040, 0x4040404000400040,
    0x4040000000404000, 0x4040004000404000, 0x4040000000404040, 0x4040004000404040, 0x4040400000404000, 0x4040404000404000,
    0x4040400000404040, 0x4040404000404040, 0x0000000040000000, 0x0000004040000000, 0x0000000040000040, 0x0000004040000040,
    0x0000400040000000, 0x0000404040000000, 0x0000400040000040, 0x0000404040000040, 0x0000000040004000, 0x0000004040004000,
    0x0000000040004040, 0x0000004040004040, 0x0000400040004000, 0x0000404040004000, 0x0000400040004040, 0x0000404040004040,
    0x0040000040000000, 0x0040004040000000, 0x0040000040000040, 0x0040004040000040, 0x0040400040000000, 0x0040404040000000,
    0x0040400040000040, 0x0040404040000040, 0x0040000040004000, 0x0040004040004000, 0x0040000040004040, 0x0040004040004040,
    0x0040400040004000, 0x0040404040004000, 0x0040400040004040, 0x0040404040004040, 0x0000000040400000, 0x0000004040400000,
    0x0000000040400040, 0x0000004040400040, 0x0000400040400000, 0x0000404040400000, 0x0000400040400040, 0x0000404040400040,
    0x0000000040404000, 0x0000004040404000, 0x0000000040404040, 0x0000004040404040, 0x0000400040404000, 0x0000404040404000,
    0x0000400040404040, 0x0000404040404040, 0x0040000040400000, 0x0040004040400000, 0x0040000040400040, 0x0040004040400040,
    0x0040400040400000, 0x0040404040400000, 0x0040400040400040, 0x0040404040400040, 0x0040000040404000, 0x0040004040404000,
    0x0040000040404040, 0x0040004040404040, 0x0040400040404000, 0x0040404040404000, 0x0040400040404040, 0x0040404040404040,
    0x4000000040000000, 0x4000004040000000, 0x4000000040000040, 0x4000004040000040, 0x4000400040000000, 0x4000404040000000,
    0x4000400040000040, 0x4000404040000040, 0x4000000040004000, 0x4000004040004000, 0x4000000040004040, 0x4000004040004040,
    0x4000400040004000, 0x4000404040004000, 0x4000400040004040, 0x4000404040004040, 0x4040000040000000, 0x4040004040000000,
    0x4040000040000040, 0x4040004040000040, 0x4040400040000000, 0x4040404040000000, 0x4040400040000040, 0x4040404040000040,
    0x4040000040004000, 0x4040004040004000, 0x4040000040004040, 0x4040004040004040, 0x4040400040004000, 0x4040404040004000,
    0x4040400040004040, 0x4040404040004040, 0x4000000040400000, 0x4000004040400000, 0x4000000040400040, 0x4000004040400040,
    0x4000400040400000, 0x4000404040400000, 0x4000400040400040, 0x4000404040400040, 0x4000000040404000, 0x4000004040404000,
    0x4000000040404040, 0x4000004040404040, 0x4000400040404000, 0x4000404040404000, 0x4000400040404040, 0x4000404040404040,
    0x4040000040400000, 0x4040004040400000, 0x4040000040400040, 0x4040004040400040, 0x4040400040400000, 0x4040404040400000,
    0x4040400040400040, 0x4040404040400040, 0x4040000040404000, 0x4040004040404000, 0x4040000040404040, 0x4040004040404040,
    0x4040400040404000, 0x4040404040404000, 0x4040400040404040, 0x4040404040404040]"

definition des_ip7 :: "u64 list" where
  "des_ip7 = [
    0x0000000000000000, 0x0000002000000000, 0x0000000000000020, 0x0000002000000020, 0x0000200000000000, 0x0000202000000000,
    0x0000200000000020, 0x0000202000000020, 0x0000000000002000, 0x0000002000002000, 0x0000000000002020, 0x0000002000002020,
    0x0000200000002000, 0x0000202000002000, 0x0000200000002020, 0x0000202000002020, 0x0020000000000000, 0x0020002000000000,
    0x0020000000000020, 0x0020002000000020, 0x0020200000000000, 0x0020202000000000, 0x0020200000000020, 0x0020202000000020,
    0x0020000000002000, 0x0020002000002000, 0x0020000000002020, 0x0020002000002020, 0x0020200000002000, 0x0020202000002000,
    0x0020200000002020, 0x0020202000002020, 0x0000000000200000, 0x0000002000200000, 0x0000000000200020, 0x0000002000200020,
    0x0000200000200000, 0x0000202000200000, 0x0000200000200020, 0x0000202000200020, 0x0000000000202000, 0x0000002000202000,
    0x0000000000202020, 0x0000002000202020, 0x0000200000202000, 0x0000202000202000, 0x0000200000202020, 0x0000202000202020,
    0x0020000000200000, 0x0020002000200000, 0x0020000000200020, 0x0020002000200020, 0x0020200000200000, 0x0020202000200000,
    0x0020200000200020, 0x0020202000200020, 0x0020000000202000, 0x0020002000202000, 0x0020000000202020, 0x0020002000202020,
    0x0020200000202000, 0x0020202000202000, 0x0020200000202020, 0x0020202000202020, 0x2000000000000000, 0x2000002000000000,
    0x2000000000000020, 0x2000002000000020, 0x2000200000000000, 0x2000202000000000, 0x2000200000000020, 0x2000202000000020,
    0x2000000000002000, 0x2000002000002000, 0x2000000000002020, 0x2000002000002020, 0x2000200000002000, 0x2000202000002000,
    0x2000200000002020, 0x2000202000002020, 0x2020000000000000, 0x2020002000000000, 0x2020000000000020, 0x2020002000000020,
    0x2020200000000000, 0x2020202000000000, 0x2020200000000020, 0x2020202000000020, 0x2020000000002000, 0x2020002000002000,
    0x2020000000002020, 0x2020002000002020, 0x2020200000002000, 0x2020202000002000, 0x2020200000002020, 0x2020202000002020,
    0x2000000000200000, 0x2000002000200000, 0x2000000000200020, 0x2000002000200020, 0x2000200000200000, 0x2000202000200000,
    0x2000200000200020, 0x2000202000200020, 0x2000000000202000, 0x2000002000202000, 0x2000000000202020, 0x2000002000202020,
    0x2000200000202000, 0x2000202000202000, 0x2000200000202020, 0x2000202000202020, 0x2020000000200000, 0x2020002000200000,
    0x2020000000200020, 0x2020002000200020, 0x2020200000200000, 0x2020202000200000, 0x2020200000200020, 0x2020202000200020,
    0x2020000000202000, 0x2020002000202000, 0x2020000000202020, 0x2020002000202020, 0x2020200000202000, 0x2020202000202000,
    0x2020200000202020, 0x2020202000202020, 0x0000000020000000, 0x0000002020000000, 0x0000000020000020, 0x0000002020000020,
    0x0000200020000000, 0x0000202020000000, 0x0000200020000020, 0x0000202020000020, 0x0000000020002000, 0x0000002020002000,
    0x0000000020002020, 0x0000002020002020, 0x0000200020002000, 0x0000202020002000, 0x0000200020002020, 0x0000202020002020,
    0x0020000020000000, 0x0020002020000000, 0x0020000020000020, 0x0020002020000020, 0x0020200020000000, 0x0020202020000000,
    0x0020200020000020, 0x0020202020000020, 0x0020000020002000, 0x0020002020002000, 0x0020000020002020, 0x0020002020002020,
    0x0020200020002000, 0x0020202020002000, 0x0020200020002020, 0x0020202020002020, 0x0000000020200000, 0x0000002020200000,
    0x0000000020200020, 0x0000002020200020, 0x0000200020200000, 0x0000202020200000, 0x0000200020200020, 0x0000202020200020,
    0x0000000020202000, 0x0000002020202000, 0x0000000020202020, 0x0000002020202020, 0x0000200020202000, 0x0000202020202000,
    0x0000200020202020, 0x0000202020202020, 0x0020000020200000, 0x0020002020200000, 0x0020000020200020, 0x0020002020200020,
    0x0020200020200000, 0x0020202020200000, 0x0020200020200020, 0x0020202020200020, 0x0020000020202000, 0x0020002020202000,
    0x0020000020202020, 0x0020002020202020, 0x0020200020202000, 0x0020202020202000, 0x0020200020202020, 0x0020202020202020,
    0x2000000020000000, 0x2000002020000000, 0x2000000020000020, 0x2000002020000020, 0x2000200020000000, 0x2000202020000000,
    0x2000200020000020, 0x2000202020000020, 0x2000000020002000, 0x2000002020002000, 0x2000000020002020, 0x2000002020002020,
    0x2000200020002000, 0x2000202020002000, 0x2000200020002020, 0x2000202020002020, 0x2020000020000000, 0x2020002020000000,
    0x2020000020000020, 0x2020002020000020, 0x2020200020000000, 0x2020202020000000, 0x2020200020000020, 0x2020202020000020,
    0x2020000020002000, 0x2020002020002000, 0x2020000020002020, 0x2020002020002020, 0x2020200020002000, 0x2020202020002000,
    0x2020200020002020, 0x2020202020002020, 0x2000000020200000, 0x2000002020200000, 0x2000000020200020, 0x2000002020200020,
    0x2000200020200000, 0x2000202020200000, 0x2000200020200020, 0x2000202020200020, 0x2000000020202000, 0x2000002020202000,
    0x2000000020202020, 0x2000002020202020, 0x2000200020202000, 0x2000202020202000, 0x2000200020202020, 0x2000202020202020,
    0x2020000020200000, 0x2020002020200000, 0x2020000020200020, 0x2020002020200020, 0x2020200020200000, 0x2020202020200000,
    0x2020200020200020, 0x2020202020200020, 0x2020000020202000, 0x2020002020202000, 0x2020000020202020, 0x2020002020202020,
    0x2020200020202000, 0x2020202020202000, 0x2020200020202020, 0x2020202020202020]"

definition des_fp0 :: "u64 list" where
  "des_fp0 = [
    0x0000000000000000, 0x0000008000000000, 0x0000000002000000, 0x0000008002000000, 0x0000000000020000, 0x0000008000020000,
    0x0000000002020000, 0x0000008002020000, 0x0000000000000200, 0x0000008000000200, 0x0000000002000200, 0x0000008002000200,
    0x0000000000020200, 0x0000008000020200, 0x0000000002020200, 0x0000008002020200, 0x0000000000000002, 0x0000008000000002,
    0x0000000002000002, 0x0000008002000002, 0x0000000000020002, 0x0000008000020002, 0x0000000002020002, 0x0000008002020002,
    0x0000000000000202, 0x0000008000000202, 0x0000000002000202, 0x0000008002000202, 0x0000000000020202, 0x0000008000020202,
    0x0000000002020202, 0x0000008002020202, 0x0200000000000000, 0x0200008000000000, 0x0200000002000000, 0x0200008002000000,
    0x0200000000020000, 0x0200008000020000, 0x0200000002020000, 0x0200008002020000, 0x0200000000000200, 0x0200008000000200,
    0x0200000002000200, 0x0200008002000200, 0x0200000000020200, 0x0200008000020200, 0x0200000002020200, 0x0200008002020200,
    0x0200000000000002, 0x0200008000000002, 0x0200000002000002, 0x0200008002000002, 0x0200000000020002, 0x0200008000020002,
    0x0200000002020002, 0x0200008002020002, 0x0200000000000202, 0x0200008000000202, 0x0200000002000202, 0x0200008002000202,
    0x0200000000020202, 0x0200008000020202, 0x0200000002020202, 0x0200008002020202, 0x0002000000000000, 0x0002008000000000,
    0x0002000002000000, 0x0002008002000000, 0x0002000000020000, 0x0002008000020000, 0x0002000002020000, 0x0002008002020000,
    0x0002000000000200, 0x0002008000000200, 0x0002000002000200, 0x0002008002000200, 0x0002000000020200, 0x0002008000020200,
    0x0002000002020200, 0x0002008002020200, 0x0002000000000002, 0x0002008000000002, 0x0002000002000002, 0x0002008002000002,
    0x0002000000020002, 0x0002008000020002, 0x0002000002020002, 0x0002008002020002, 0x0002000000000202, 0x0002008000000202,
    0x0002000002000202, 0x0002008002000202, 0x0002000000020202, 0x0002008000020202, 0x0002000002020202, 0x0002008002020202,
    0x0202000000000000, 0x0202008000000000, 0x0202000002000000, 0x0202008002000000, 0x0202000000020000, 0x0202008000020000,
    0x0202000002020000, 0x0202008002020000, 0x0202000000000200, 0x0202008000000200, 0x0202000002000200, 0x0202008002000200,
    0x0202000000020200, 0x0202008000020200, 0x0202000002020200, 0x0202008002020200, 0x0202000000000002, 0x0202008000000002,
    0x0202000002000002, 0x0202008002000002, 0x0202000000020002, 0x0202008000020002, 0x0202000002020002, 0x0202008002020002,
    0x0202000000000202, 0x0202008000000202, 0x0202000002000202, 0x0202008002000202, 0x0202000000020202, 0x0202008000020202,
    0x0202000002020202, 0x0202008002020202, 0x0000020000000000, 0x0000028000000000, 0x0000020002000000, 0x0000028002000000,
    0x0000020000020000, 0x0000028000020000, 0x0000020002020000, 0x0000028002020000, 0x0000020000000200, 0x0000028000000200,
    0x0000020002000200, 0x0000028002000200, 0x0000020000020200, 0x0000028000020200, 0x0000020002020200, 0x0000028002020200,
    0x0000020000000002, 0x0000028000000002, 0x0000020002000002, 0x0000028002000002, 0x0000020000020002, 0x0000028000020002,
    0x0000020002020002, 0x0000028002020002, 0x0000020000000202, 0x0000028000000202, 0x0000020002000202, 0x0000028002000202,
    0x0000020000020202, 0x0000028000020202, 0x0000020002020202, 0x0000028002020202, 0x0200020000000000, 0x0200028000000000,
    0x0200020002000000, 0x0200028002000000, 0x0200020000020000, 0x0200028000020000, 0x0200020002020000, 0x0200028002020000,
    0x0200020000000200, 0x0200028000000200, 0x0200020002000200, 0x0200028002000200, 0x0200020000020200, 0x0200028000020200,
    0x0200020002020200, 0x0200028002020200, 0x0200020000000002, 0x0200028000000002, 0x0200020002000002, 0x0200028002000002,
    0x0200020000020002, 0x0200028000020002, 0x0200020002020002, 0x0200028002020002, 0x0200020000000202, 0x0200028000000202,
    0x0200020002000202, 0x0200028002000202, 0x0200020000020202, 0x0200028000020202, 0x0200020002020202, 0x0200028002020202,
    0x0002020000000000, 0x0002028000000000, 0x0002020002000000, 0x0002028002000000, 0x0002020000020000, 0x0002028000020000,
    0x0002020002020000, 0x0002028002020000, 0x0002020000000200, 0x0002028000000200, 0x0002020002000200, 0x0002028002000200,
    0x0002020000020200, 0x0002028000020200, 0x0002020002020200, 0x0002028002020200, 0x0002020000000002, 0x0002028000000002,
    0x0002020002000002, 0x0002028002000002, 0x0002020000020002, 0x0002028000020002, 0x0002020002020002, 0x0002028002020002,
    0x0002020000000202, 0x0002028000000202, 0x0002020002000202, 0x0002028002000202, 0x0002020000020202, 0x0002028000020202,
    0x0002020002020202, 0x0002028002020202, 0x0202020000000000, 0x0202028000000000, 0x0202020002000000, 0x0202028002000000,
    0x0202020000020000, 0x0202028000020000, 0x0202020002020000, 0x0202028002020000, 0x0202020000000200, 0x0202028000000200,
    0x0202020002000200, 0x0202028002000200, 0x0202020000020200, 0x0202028000020200, 0x0202020002020200, 0x0202028002020200,
    0x0202020000000002, 0x0202028000000002, 0x0202020002000002, 0x0202028002000002, 0x0202020000020002, 0x0202028000020002,
    0x0202020002020002, 0x0202028002020002, 0x0202020000000202, 0x0202028000000202, 0x0202020002000202, 0x0202028002000202,
    0x0202020000020202, 0x0202028000020202, 0x0202020002020202, 0x0202028002020202]"

definition des_fp1 :: "u64 list" where
  "des_fp1 = [
    0x0000000000000000, 0x0000000200000000, 0x0000000008000000, 0x0000000208000000, 0x0000000000080000, 0x0000000200080000,
    0x0000000008080000, 0x0000000208080000, 0x0000000000000800, 0x0000000200000800, 0x0000000008000800, 0x0000000208000800,
    0x0000000000080800, 0x0000000200080800, 0x0000000008080800, 0x0000000208080800, 0x0000000000000008, 0x0000000200000008,
    0x0000000008000008, 0x0000000208000008, 0x0000000000080008, 0x0000000200080008, 0x0000000008080008, 0x0000000208080008,
    0x0000000000000808, 0x0000000200000808, 0x0000000008000808, 0x0000000208000808, 0x0000000000080808, 0x0000000200080808,
    0x0000000008080808, 0x0000000208080808, 0x0800000000000000, 0x0800000200000000, 0x0800000008000000, 0x0800000208000000,
    0x0800000000080000, 0x0800000200080000, 0x0800000008080000, 0x0800000208080000, 0x0800000000000800, 0x0800000200000800,
    0x0800000008000800, 0x0800000208000800, 0x0800000000080800, 0x0800000200080800, 0x0800000008080800, 0x0800000208080800,
    0x0800000000000008, 0x0800000200000008, 0x0800000008000008, 0x0800000208000008, 0x0800000000080008, 0x0800000200080008,
    0x0800000008080008, 0x0800000208080008, 0x0800000000000808, 0x0800000200000808, 0x0800000008000808, 0x0800000208000808,
    0x0800000000080808, 0x0800000200080808, 0x0800000008080808, 0x0800000208080808, 0x0008000000000000, 0x0008000200000000,
    0x0008000008000000, 0x0008000208000000, 0x0008000000080000, 0x0008000200080000, 0x0008000008080000, 0x0008000208080000,
    0x0008000000000800, 0x0008000200000800, 0x0008000008000800, 0x0008000208000800, 0x0008000000080800, 0x0008000200080800,
    0x0008000008080800, 0x0008000208080800, 0x0008000000000008, 0x0008000200000008, 0x0008000008000008, 0x0008000208000008,
    0x0008000000080008, 0x0008000200080008, 0x0008000008080008, 0x0008000208080008, 0x0008000000000808, 0x0008000200000808,
    0x0008000008000808, 0x0008000208000808, 0x0008000000080808, 0x0008000200080808, 0x0008000008080808, 0x0008000208080808,
    0x0808000000000000, 0x0808000200000000, 0x0808000008000000, 0x0808000208000000, 0x0808000000080000, 0x0808000200080000,
    0x0808000008080000, 0x0808000208080000, 0x0808000000000800, 0x0808000200000800, 0x0808000008000800, 0x0808000208000800,
    0x0808000000080800, 0x0808000200080800, 0x0808000008080800, 0x0808000208080800, 0x0808000000000008, 0x0808000200000008,
    0x0808000008000008, 0x0808000208000008, 0x0808000000080008, 0x0808000200080008, 0x0808000008080008, 0x0808000208080008,
    0x0808000000000808, 0x0808000200000808, 0x0808000008000808, 0x0808000208000808, 0x0808000000080808, 0x0808000200080808,
    0x0808000008080808, 0x0808000208080808, 0x0000080000000000, 0x0000080200000000, 0x0000080008000000, 0x0000080208000000,
    0x0000080000080000, 0x0000080200080000, 0x0000080008080000, 0x0000080208080000, 0x0000080000000800, 0x0000080200000800,
    0x0000080008000800, 0x0000080208000800, 0x0000080000080800, 0x0000080200080800, 0x0000080008080800, 0x0000080208080800,
    0x0000080000000008, 0x0000080200000008, 0x0000080008000008, 0x0000080208000008, 0x0000080000080008, 0x0000080200080008,
    0x0000080008080008, 0x0000080208080008, 0x0000080000000808, 0x0000080200000808, 0x0000080008000808, 0x0000080208000808,
    0x0000080000080808, 0x0000080200080808, 0x0000080008080808, 0x0000080208080808, 0x0800080000000000, 0x0800080200000000,
    0x0800080008000000, 0x0800080208000000, 0x0800080000080000, 0x0800080200080000, 0x0800080008080000, 0x0800080208080000,
    0x0800080000000800, 0x0800080200000800, 0x0800080008000800, 0x0800080208000800, 0x0800080000080800, 0x0800080200080800,
    0x0800080008080800, 0x0800080208080800, 0x0800080000000008, 0x0800080200000008, 0x0800080008000008, 0x0800080208000008,
    0x0800080000080008, 0x0800080200080008, 0x0800080008080008, 0x0800080208080008, 0x0800080000000808, 0x0800080200000808,
    0x0800080008000808, 0x0800080208000808, 0x0800080000080808, 0x0800080200080808, 0x0800080008080808, 0x0800080208080808,
    0x0008080000000000, 0x0008080200000000, 0x0008080008000000, 0x0008080208000000, 0x0008080000080000, 0x0008080200080000,
    0x0008080008080000, 0x0008080208080000, 0x0008080000000800, 0x0008080200000800, 0x0008080008000800, 0x0008080208000800,
    0x0008080000080800, 0x0008080200080800, 0x0008080008080800, 0x0008080208080800, 0x0008080000000008, 0x0008080200000008,
    0x0008080008000008, 0x0008080208000008, 0x0008080000080008, 0x0008080200080008, 0x0008080008080008, 0x0008080208080008,
    0x0008080000000808, 0x0008080200000808, 0x0008080008000808, 0x0008080208000808, 0x0008080000080808, 0x0008080200080808,
    0x0008080008080808, 0x0008080208080808, 0x0808080000000000, 0x0808080200000000, 0x0808080008000000, 0x0808080208000000,
    0x0808080000080000, 0x0808080200080000, 0x0808080008080000, 0x0808080208080000, 0x0808080000000800, 0x0808080200000800,
    0x0808080008000800, 0x0808080208000800, 0x0808080000080800, 0x0808080200080800, 0x0808080008080800, 0x0808080208080800,
    0x0808080000000008, 0x0808080200000008, 0x0808080008000008, 0x0808080208000008, 0x0808080000080008, 0x0808080200080008,
    0x0808080008080008, 0x0808080208080008, 0x0808080000000808, 0x0808080200000808, 0x0808080008000808, 0x0808080208000808,
    0x0808080000080808, 0x0808080200080808, 0x0808080008080808, 0x0808080208080808]"

definition des_fp2 :: "u64 list" where
  "des_fp2 = [
    0x0000000000000000, 0x0000000800000000, 0x0000000020000000, 0x0000000820000000, 0x0000000000200000, 0x0000000800200000,
    0x0000000020200000, 0x0000000820200000, 0x0000000000002000, 0x0000000800002000, 0x0000000020002000, 0x0000000820002000,
    0x0000000000202000, 0x0000000800202000, 0x0000000020202000, 0x0000000820202000, 0x0000000000000020, 0x0000000800000020,
    0x0000000020000020, 0x0000000820000020, 0x0000000000200020, 0x0000000800200020, 0x0000000020200020, 0x0000000820200020,
    0x0000000000002020, 0x0000000800002020, 0x0000000020002020, 0x0000000820002020, 0x0000000000202020, 0x0000000800202020,
    0x0000000020202020, 0x0000000820202020, 0x2000000000000000, 0x2000000800000000, 0x2000000020000000, 0x2000000820000000,
    0x2000000000200000, 0x2000000800200000, 0x2000000020200000, 0x2000000820200000, 0x2000000000002000, 0x2000000800002000,
    0x2000000020002000, 0x2000000820002000, 0x2000000000202000, 0x2000000800202000, 0x2000000020202000, 0x2000000820202000,
    0x2000000000000020, 0x2000000800000020, 0x2000000020000020, 0x2000000820000020, 0x2000000000200020, 0x2000000800200020,
    0x2000000020200020, 0x2000000820200020, 0x2000000000002020, 0x2000000800002020, 0x2000000020002020, 0x2000000820002020,
    0x2000000000202020, 0x2000000800202020, 0x2000000020202020, 0x2000000820202020, 0x0020000000000000, 0x0020000800000000,
    0x0020000020000000, 0x0020000820000000, 0x0020000000200000, 0x0020000800200000, 0x0020000020200000, 0x0020000820200000,
    0x0020000000002000, 0x0020000800002000, 0x0020000020002000, 0x0020000820002000, 0x0020000000202000, 0x0020000800202000,
    0x0020000020202000, 0x0020000820202000, 0x0020000000000020, 0x0020000800000020, 0x0020000020000020, 0x0020000820000020,
    0x0020000000200020, 0x0020000800200020, 0x0020000020200020, 0x0020000820200020, 0x0020000000002020, 0x0020000800002020,
    0x0020000020002020, 0x0020000820002020, 0x0020000000202020, 0x0020000800202020, 0x0020000020202020, 0x0020000820202020,
    0x2020000000000000, 0x2020000800000000, 0x2020000020000000, 0x2020000820000000, 0x2020000000200000, 0x2020000800200000,
    0x2020000020200000, 0x2020000820200000, 0x2020000000002000, 0x2020000800002000, 0x2020000020002000, 0x2020000820002000,
    0x2020000000202000, 0x2020000800202000, 0x2020000020202000, 0x2020000820202000, 0x2020000000000020, 0x2020000800000020,
    0x2020000020000020, 0x2020000820000020, 0x2020000000200020, 0x2020000800200020, 0x2020000020200020, 0x2020000820200020,
    0x2020000000002020, 0x2020000800002020, 0x2020000020002020, 0x2020000820002020, 0x2020000000202020, 0x2020000800202020,
    0x2020000020202020, 0x2020000820202020, 0x0000200000000000, 0x0000200800000000, 0x0000200020000000, 0x0000200820000000,
    0x0000200000200000, 0x0000200800200000, 0x0000200020200000, 0x0000200820200000, 0x0000200000002000, 0x0000200800002000,
    0x0000200020002000, 0x0000200820002000, 0x0000200000202000, 0x0000200800202000, 0x0000200020202000, 0x0000200820202000,
    0x0000200000000020, 0x0000200800000020, 0x0000200020000020, 0x0000200820000020, 0x0000200000200020, 0x0000200800200020,
    0x0000200020200020, 0x0000200820200020, 0x0000200000002020, 0x0000200800002020, 0x0000200020002020, 0x0000200820002020,
    0x0000200000202020, 0x0000200800202020, 0x0000200020202020, 0x0000200820202020, 0x2000200000000000, 0x2000200800000000,
    0x2000200020000000, 0x2000200820000000, 0x2000200000200000, 0x2000200800200000, 0x2000200020200000, 0x2000200820200000,
    0x2000200000002000, 0x2000200800002000, 0x2000200020002000, 0x2000200820002000, 0x2000200000202000, 0x2000200800202000,
    0x2000200020202000, 0x2000200820202000, 0x2000200000000020, 0x2000200800000020, 0x2000200020000020, 0x2000200820000020,
    0x2000200000200020, 0x2000200800200020, 0x2000200020200020, 0x2000200820200020, 0x2000200000002020, 0x2000200800002020,
    0x2000200020002020, 0x2000200820002020, 0x2000200000202020, 0x2000200800202020, 0x2000200020202020, 0x2000200820202020,
    0x0020200000000000, 0x0020200800000000, 0x0020200020000000, 0x0020200820000000, 0x0020200000200000, 0x0020200800200000,
    0x0020200020200000, 0x0020200820200000, 0x0020200000002000, 0x0020200800002000, 0x0020200020002000, 0x0020200820002000,
    0x0020200000202000, 0x0020200800202000, 0x0020200020202000, 0x0020200820202000, 0x0020200000000020, 0x0020200800000020,
    0x0020200020000020, 0x0020200820000020, 0x0020200000200020, 0x0020200800200020, 0x0020200020200020, 0x0020200820200020,
    0x0020200000002020, 0x0020200800002020, 0x0020200020002020, 0x0020200820002020, 0x0020200000202020, 0x0020200800202020,
    0x0020200020202020, 0x0020200820202020, 0x2020200000000000, 0x2020200800000000, 0x2020200020000000, 0x2020200820000000,
    0x2020200000200000, 0x2020200800200000, 0x2020200020200000, 0x2020200820200000, 0x2020200000002000, 0x2020200800002000,
    0x2020200020002000, 0x2020200820002000, 0x2020200000202000, 0x2020200800202000, 0x2020200020202000, 0x2020200820202000,
    0x2020200000000020, 0x2020200800000020, 0x2020200020000020, 0x2020200820000020, 0x2020200000200020, 0x2020200800200020,
    0x2020200020200020, 0x2020200820200020, 0x2020200000002020, 0x2020200800002020, 0x2020200020002020, 0x2020200820002020,
    0x2020200000202020, 0x2020200800202020, 0x2020200020202020, 0x2020200820202020]"

definition des_fp3 :: "u64 list" where
  "des_fp3 = [
    0x0000000000000000, 0x0000002000000000, 0x0000000080000000, 0x0000002080000000, 0x0000000000800000, 0x0000002000800000,
    0x0000000080800000, 0x0000002080800000, 0x0000000000008000, 0x0000002000008000, 0x0000000080008000, 0x0000002080008000,
    0x0000000000808000, 0x0000002000808000, 0x0000000080808000, 0x0000002080808000, 0x0000000000000080, 0x0000002000000080,
    0x0000000080000080, 0x0000002080000080, 0x0000000000800080, 0x0000002000800080, 0x0000000080800080, 0x0000002080800080,
    0x0000000000008080, 0x0000002000008080, 0x0000000080008080, 0x0000002080008080, 0x0000000000808080, 0x0000002000808080,
    0x0000000080808080, 0x0000002080808080, 0x8000000000000000, 0x8000002000000000, 0x8000000080000000, 0x8000002080000000,
    0x8000000000800000, 0x8000002000800000, 0x8000000080800000, 0x8000002080800000, 0x8000000000008000, 0x8000002000008000,
    0x8000000080008000, 0x8000002080008000, 0x8000000000808000, 0x8000002000808000, 0x8000000080808000, 0x8000002080808000,
    0x8000000000000080, 0x8000002000000080, 0x8000000080000080, 0x8000002080000080, 0x8000000000800080, 0x8000002000800080,
    0x8000000080800080, 0x8000002080800080, 0x8000000000008080, 0x8000002000008080, 0x8000000080008080, 0x8000002080008080,
    0x8000000000808080, 0x8000002000808080, 0x8000000080808080, 0x8000002080808080, 0x0080000000000000, 0x0080002000000000,
    0x0080000080000000, 0x0080002080000000, 0x0080000000800000, 0x0080002000800000, 0x0080000080800000, 0x0080002080800000,
    0x0080000000008000, 0x0080002000008000, 0x0080000080008000, 0x0080002080008000, 0x0080000000808000, 0x0080002000808000,
    0x0080000080808000, 0x0080002080808000, 0x0080000000000080, 0x0080002000000080, 0x0080000080000080, 0x0080002080000080,
    0x0080000000800080, 0x0080002000800080, 0x0080000080800080, 0x0080002080800080, 0x0080000000008080, 0x0080002000008080,
    0x0080000080008080, 0x0080002080008080, 0x0080000000808080, 0x0080002000808080, 0x0080000080808080, 0x0080002080808080,
    0x8080000000000000, 0x8080002000000000, 0x8080000080000000, 0x8080002080000000, 0x8080000000800000, 0x8080002000800000,
    0x8080000080800000, 0x8080002080800000, 0x8080000000008000, 0x8080002000008000, 0x8080000080008000, 0x8080002080008000,
    0x8080000000808000, 0x8080002000808000, 0x8080000080808000, 0x8080002080808000, 0x8080000000000080, 0x8080002000000080,
    0x8080000080000080, 0x8080002080000080, 0x8080000000800080, 0x8080002000800080, 0x8080000080800080, 0x8080002080800080,
    0x8080000000008080, 0x8080002000008080, 0x8080000080008080, 0x8080002080008080, 0x8080000000808080, 0x8080002000808080,
    0x8080000080808080, 0x8080002080808080, 0x0000800000000000, 0x0000802000000000, 0x0000800080000000, 0x0000802080000000,
    0x0000800000800000, 0x0000802000800000, 0x0000800080800000, 0x0000802080800000, 0x0000800000008000, 0x0000802000008000,
    0x0000800080008000, 0x0000802080008000, 0x0000800000808000, 0x0000802000808000, 0x0000800080808000, 0x0000802080808000,
    0x0000800000000080, 0x0000802000000080, 0x0000800080000080, 0x0000802080000080, 0x0000800000800080, 0x0000802000800080,
    0x0000800080800080, 0x0000802080800080, 0x0000800000008080, 0x0000802000008080, 0x0000800080008080, 0x0000802080008080,
    0x0000800000808080, 0x0000802000808080, 0x0000800080808080, 0x0000802080808080, 0x8000800000000000, 0x8000802000000000,
    0x8000800080000000, 0x8000802080000000, 0x8000800000800000, 0x8000802000800000, 0x8000800080800000, 0x8000802080800000,
    0x8000800000008000, 0x8000802000008000, 0x8000800080008000, 0x8000802080008000, 0x8000800000808000, 0x8000802000808000,
    0x8000800080808000, 0x8000802080808000, 0x8000800000000080, 0x8000802000000080, 0x8000800080000080, 0x8000802080000080,
    0x8000800000800080, 0x8000802000800080, 0x8000800080800080, 0x8000802080800080, 0x8000800000008080, 0x8000802000008080,
    0x8000800080008080, 0x8000802080008080, 0x8000800000808080, 0x8000802000808080, 0x8000800080808080, 0x8000802080808080,
    0x0080800000000000, 0x0080802000000000, 0x0080800080000000, 0x0080802080000000, 0x0080800000800000, 0x0080802000800000,
    0x0080800080800000, 0x0080802080800000, 0x0080800000008000, 0x0080802000008000, 0x0080800080008000, 0x0080802080008000,
    0x0080800000808000, 0x0080802000808000, 0x0080800080808000, 0x0080802080808000, 0x0080800000000080, 0x0080802000000080,
    0x0080800080000080, 0x0080802080000080, 0x0080800000800080, 0x0080802000800080, 0x0080800080800080, 0x0080802080800080,
    0x0080800000008080, 0x0080802000008080, 0x0080800080008080, 0x0080802080008080, 0x0080800000808080, 0x0080802000808080,
    0x0080800080808080, 0x0080802080808080, 0x8080800000000000, 0x8080802000000000, 0x8080800080000000, 0x8080802080000000,
    0x8080800000800000, 0x8080802000800000, 0x8080800080800000, 0x8080802080800000, 0x8080800000008000, 0x8080802000008000,
    0x8080800080008000, 0x8080802080008000, 0x8080800000808000, 0x8080802000808000, 0x8080800080808000, 0x8080802080808000,
    0x8080800000000080, 0x8080802000000080, 0x8080800080000080, 0x8080802080000080, 0x8080800000800080, 0x8080802000800080,
    0x8080800080800080, 0x8080802080800080, 0x8080800000008080, 0x8080802000008080, 0x8080800080008080, 0x8080802080008080,
    0x8080800000808080, 0x8080802000808080, 0x8080800080808080, 0x8080802080808080]"

definition des_fp4 :: "u64 list" where
  "des_fp4 = [
    0x0000000000000000, 0x0000004000000000, 0x0000000001000000, 0x0000004001000000, 0x0000000000010000, 0x0000004000010000,
    0x0000000001010000, 0x0000004001010000, 0x0000000000000100, 0x0000004000000100, 0x0000000001000100, 0x0000004001000100,
    0x0000000000010100, 0x0000004000010100, 0x0000000001010100, 0x0000004001010100, 0x0000000000000001, 0x0000004000000001,
    0x0000000001000001, 0x0000004001000001, 0x0000000000010001, 0x0000004000010001, 0x0000000001010001, 0x0000004001010001,
    0x0000000000000101, 0x0000004000000101, 0x0000000001000101, 0x0000004001000101, 0x0000000000010101, 0x0000004000010101,
    0x0000000001010101, 0x0000004001010101, 0x0100000000000000, 0x0100004000000000, 0x0100000001000000, 0x0100004001000000,
    0x0100000000010000, 0x0100004000010000, 0x0100000001010000, 0x0100004001010000, 0x0100000000000100, 0x0100004000000100,
    0x0100000001000100, 0x0100004001000100, 0x0100000000010100, 0x0100004000010100, 0x0100000001010100, 0x0100004001010100,
    0x0100000000000001, 0x0100004000000001, 0x0100000001000001, 0x0100004001000001, 0x0100000000010001, 0x0100004000010001,
    0x0100000001010001, 0x0100004001010001, 0x0100000000000101, 0x0100004000000101, 0x0100000001000101, 0x0100004001000101,
    0x0100000000010101, 0x0100004000010101, 0x0100000001010101, 0x0100004001010101, 0x0001000000000000, 0x0001004000000000,
    0x0001000001000000, 0x0001004001000000, 0x0001000000010000, 0x0001004000010000, 0x0001000001010000, 0x0001004001010000,
    0x0001000000000100, 0x0001004000000100, 0x0001000001000100, 0x0001004001000100, 0x0001000000010100, 0x0001004000010100,
    0x0001000001010100, 0x0001004001010100, 0x0001000000000001, 0x0001004000000001, 0x0001000001000001, 0x0001004001000001,
    0x0001000000010001, 0x0001004000010001, 0x0001000001010001, 0x0001004001010001, 0x0001000000000101, 0x0001004000000101,
    0x0001000001000101, 0x0001004001000101, 0x0001000000010101, 0x0001004000010101, 0x0001000001010101, 0x0001004001010101,
    0x0101000000000000, 0x0101004000000000, 0x0101000001000000, 0x0101004001000000, 0x0101000000010000, 0x0101004000010000,
    0x0101000001010000, 0x0101004001010000, 0x0101000000000100, 0x0101004000000100, 0x0101000001000100, 0x0101004001000100,
    0x0101000000010100, 0x0101004000010100, 0x0101000001010100, 0x0101004001010100, 0x0101000000000001, 0x0101004000000001,
    0x0101000001000001, 0x0101004001000001, 0x0101000000010001, 0x0101004000010001, 0x0101000001010001, 0x0101004001010001,
    0x0101000000000101, 0x0101004000000101, 0x0101000001000101, 0x0101004001000101, 0x0101000000010101, 0x0101004000010101,
    0x0101000001010101, 0x0101004001010101, 0x0000010000000000, 0x0000014000000000, 0x0000010001000000, 0x0000014001000000,
    0x0000010000010000, 0x0000014000010000, 0x0000010001010000, 0x0000014001010000, 0x0000010000000100, 0x0000014000000100,
    0x0000010001000100, 0x0000014001000100, 0x0000010000010100, 0x0000014000010100, 0x0000010001010100, 0x0000014001010100,
    0x0000010000000001, 0x0000014000000001, 0x0000010001000001, 0x0000014001000001, 0x0000010000010001, 0x0000014000010001,
    0x0000010001010001, 0x0000014001010001, 0x0000010000000101, 0x0000014000000101, 0x0000010001000101, 0x0000014001000101,
    0x0000010000010101, 0x0000014000010101, 0x0000010001010101, 0x0000014001010101, 0x0100010000000000, 0x0100014000000000,
    0x0100010001000000, 0x0100014001000000, 0x0100010000010000, 0x0100014000010000, 0x0100010001010000, 0x0100014001010000,
    0x0100010000000100, 0x0100014000000100, 0x0100010001000100, 0x0100014001000100, 0x0100010000010100, 0x0100014000010100,
    0x0100010001010100, 0x0100014001010100, 0x0100010000000001, 0x0100014000000001, 0x0100010001000001, 0x0100014001000001,
    0x0100010000010001, 0x0100014000010001, 0x0100010001010001, 0x0100014001010001, 0x0100010000000101, 0x0100014000000101,
    0x0100010001000101, 0x0100014001000101, 0x0100010000010101, 0x0100014000010101, 0x0100010001010101, 0x0100014001010101,
    0x0001010000000000, 0x0001014000000000, 0x0001010001000000, 0x0001014001000000, 0x0001010000010000, 0x0001014000010000,
    0x0001010001010000, 0x0001014001010000, 0x0001010000000100, 0x0001014000000100, 0x0001010001000100, 0x0001014001000100,
    0x0001010000010100, 0x0001014000010100, 0x0001010001010100, 0x0001014001010100, 0x0001010000000001, 0x0001014000000001,
    0x0001010001000001, 0x0001014001000001, 0x0001010000010001, 0x0001014000010001, 0x0001010001010001, 0x0001014001010001,
    0x0001010000000101, 0x0001014000000101, 0x0001010001000101, 0x0001014001000101, 0x0001010000010101, 0x0001014000010101,
    0x0001010001010101, 0x0001014001010101, 0x0101010000000000, 0x0101014000000000, 0x0101010001000000, 0x0101014001000000,
    0x0101010000010000, 0x0101014000010000, 0x0101010001010000, 0x0101014001010000, 0x0101010000000100, 0x0101014000000100,
    0x0101010001000100, 0x0101014001000100, 0x0101010000010100, 0x0101014000010100, 0x0101010001010100, 0x0101014001010100,
    0x0101010000000001, 0x0101014000000001, 0x0101010001000001, 0x0101014001000001, 0x0101010000010001, 0x0101014000010001,
    0x0101010001010001, 0x0101014001010001, 0x0101010000000101, 0x0101014000000101, 0x0101010001000101, 0x0101014001000101,
    0x0101010000010101, 0x0101014000010101, 0x0101010001010101, 0x0101014001010101]"

definition des_fp5 :: "u64 list" where
  "des_fp5 = [
    0x0000000000000000, 0x0000000100000000, 0x0000000004000000, 0x0000000104000000, 0x0000000000040000, 0x0000000100040000,
    0x0000000004040000, 0x0000000104040000, 0x0000000000000400, 0x0000000100000400, 0x0000000004000400, 0x0000000104000400,
    0x0000000000040400, 0x0000000100040400, 0x0000000004040400, 0x0000000104040400, 0x0000000000000004, 0x0000000100000004,
    0x0000000004000004, 0x0000000104000004, 0x0000000000040004, 0x0000000100040004, 0x0000000004040004, 0x0000000104040004,
    0x0000000000000404, 0x0000000100000404, 0x0000000004000404, 0x0000000104000404, 0x0000000000040404, 0x0000000100040404,
    0x0000000004040404, 0x0000000104040404, 0x0400000000000000, 0x0400000100000000, 0x0400000004000000, 0x0400000104000000,
    0x0400000000040000, 0x0400000100040000, 0x0400000004040000, 0x0400000104040000, 0x0400000000000400, 0x0400000100000400,
    0x0400000004000400, 0x0400000104000400, 0x0400000000040400, 0x0400000100040400, 0x0400000004040400, 0x0400000104040400,
    0x0400000000000004, 0x0400000100000004, 0x0400000004000004, 0x0400000104000004, 0x0400000000040004, 0x0400000100040004,
    0x0400000004040004, 0x0400000104040004, 0x0400000000000404, 0x0400000100000404, 0x0400000004000404, 0x0400000104000404,
    0x0400000000040404, 0x0400000100040404, 0x0400000004040404, 0x0400000104040404, 0x0004000000000000, 0x0004000100000000,
    0x0004000004000000, 0x0004000104000000, 0x0004000000040000, 0x0004000100040000, 0x0004000004040000, 0x0004000104040000,
    0x0004000000000400, 0x0004000100000400, 0x0004000004000400, 0x0004000104000400, 0x0004000000040400, 0x0004000100040400,
    0x0004000004040400, 0x0004000104040400, 0x0004000000000004, 0x0004000100000004, 0x0004000004000004, 0x0004000104000004,
    0x0004000000040004, 0x0004000100040004, 0x0004000004040004, 0x0004000104040004, 0x0004000000000404, 0x0004000100000404,
    0x0004000004000404, 0x0004000104000404, 0x0004000000040404, 0x0004000100040404, 0x0004000004040404, 0x0004000104040404,
    0x0404000000000000, 0x0404000100000000, 0x0404000004000000, 0x0404000104000000, 0x0404000000040000, 0x0404000100040000,
    0x0404000004040000, 0x0404000104040000, 0x0404000000000400, 0x0404000100000400, 0x0404000004000400, 0x0404000104000400,
    0x0404000000040400, 0x0404000100040400, 0x0404000004040400, 0x0404000104040400, 0x0404000000000004, 0x0404000100000004,
    0x0404000004000004, 0x0404000104000004, 0x0404000000040004, 0x0404000100040004, 0x0404000004040004, 0x0404000104040004,
    0x0404000000000404, 0x0404000100000404, 0x0404000004000404, 0x0404000104000404, 0x0404000000040404, 0x0404000100040404,
    0x0404000004040404, 0x0404000104040404, 0x0000040000000000, 0x0000040100000000, 0x0000040004000000, 0x0000040104000000,
    0x0000040000040000, 0x0000040100040000, 0x0000040004040000, 0x0000040104040000, 0x0000040000000400, 0x0000040100000400,
    0x0000040004000400, 0x0000040104000400, 0x0000040000040400, 0x0000040100040400, 0x0000040004040400, 0x0000040104040400,
    0x0000040000000004, 0x0000040100000004, 0x0000040004000004, 0x0000040104000004, 0x0000040000040004, 0x0000040100040004,
    0x0000040004040004, 0x0000040104040004, 0x0000040000000404, 0x0000040100000404, 0x0000040004000404, 0x0000040104000404,
    0x0000040000040404, 0x0000040100040404, 0x0000040004040404, 0x0000040104040404, 0x0400040000000000, 0x0400040100000000,
    0x0400040004000000, 0x0400040104000000, 0x0400040000040000, 0x0400040100040000, 0x0400040004040000, 0x0400040104040000,
    0x0400040000000400, 0x0400040100000400, 0x0400040004000400, 0x0400040104000400, 0x0400040000040400, 0x0400040100040400,
    0x0400040004040400, 0x0400040104040400, 0x0400040000000004, 0x0400040100000004, 0x0400040004000004, 0x0400040104000004,
    0x0400040000040004, 0x0400040100040004, 0x0400040004040004, 0x0400040104040004, 0x0400040000000404, 0x0400040100000404,
    0x0400040004000404, 0x0400040104000404, 0x0400040000040404, 0x0400040100040404, 0x0400040004040404, 0x0400040104040404,
    0x0004040000000000, 0x0004040100000000, 0x0004040004000000, 0x0004040104000000, 0x0004040000040000, 0x0004040100040000,
    0x0004040004040000, 0x0004040104040000, 0x0004040000000400, 0x0004040100000400, 0x0004040004000400, 0x0004040104000400,
    0x0004040000040400, 0x0004040100040400, 0x0004040004040400, 0x0004040104040400, 0x0004040000000004, 0x0004040100000004,
    0x0004040004000004, 0x0004040104000004, 0x0004040000040004, 0x0004040100040004, 0x0004040004040004, 0x0004040104040004,
    0x0004040000000404, 0x0004040100000404, 0x0004040004000404, 0x0004040104000404, 0x0004040000040404, 0x0004040100040404,
    0x0004040004040404, 0x0004040104040404, 0x0404040000000000, 0x0404040100000000, 0x0404040004000000, 0x0404040104000000,
    0x0404040000040000, 0x0404040100040000, 0x0404040004040000, 0x0404040104040000, 0x0404040000000400, 0x0404040100000400,
    0x0404040004000400, 0x0404040104000400, 0x0404040000040400, 0x0404040100040400, 0x0404040004040400, 0x0404040104040400,
    0x0404040000000004, 0x0404040100000004, 0x0404040004000004, 0x0404040104000004, 0x0404040000040004, 0x0404040100040004,
    0x0404040004040004, 0x0404040104040004, 0x0404040000000404, 0x0404040100000404, 0x0404040004000404, 0x0404040104000404,
    0x0404040000040404, 0x0404040100040404, 0x0404040004040404, 0x0404040104040404]"

definition des_fp6 :: "u64 list" where
  "des_fp6 = [
    0x0000000000000000, 0x0000000400000000, 0x0000000010000000, 0x0000000410000000, 0x0000000000100000, 0x0000000400100000,
    0x0000000010100000, 0x0000000410100000, 0x0000000000001000, 0x0000000400001000, 0x0000000010001000, 0x0000000410001000,
    0x0000000000101000, 0x0000000400101000, 0x0000000010101000, 0x0000000410101000, 0x0000000000000010, 0x0000000400000010,
    0x0000000010000010, 0x0000000410000010, 0x0000000000100010, 0x0000000400100010, 0x0000000010100010, 0x0000000410100010,
    0x0000000000001010, 0x0000000400001010, 0x0000000010001010, 0x0000000410001010, 0x0000000000101010, 0x0000000400101010,
    0x0000000010101010, 0x0000000410101010, 0x1000000000000000, 0x1000000400000000, 0x1000000010000000, 0x1000000410000000,
    0x1000000000100000, 0x1000000400100000, 0x1000000010100000, 0x1000000410100000, 0x1000000000001000, 0x1000000400001000,
    0x1000000010001000, 0x1000000410001000, 0x1000000000101000, 0x1000000400101000, 0x1000000010101000, 0x1000000410101000,
    0x1000000000000010, 0x1000000400000010, 0x1000000010000010, 0x1000000410000010, 0x1000000000100010, 0x1000000400100010,
    0x1000000010100010, 0x1000000410100010, 0x1000000000001010, 0x1000000400001010, 0x1000000010001010, 0x1000000410001010,
    0x1000000000101010, 0x1000000400101010, 0x1000000010101010, 0x1000000410101010, 0x0010000000000000, 0x0010000400000000,
    0x0010000010000000, 0x0010000410000000, 0x0010000000100000, 0x0010000400100000, 0x0010000010100000, 0x0010000410100000,
    0x0010000000001000, 0x0010000400001000, 0x0010000010001000, 0x0010000410001000, 0x0010000000101000, 0x0010000400101000,
    0x0010000010101000, 0x0010000410101000, 0x0010000000000010, 0x0010000400000010, 0x0010000010000010, 0x0010000410000010,
    0x0010000000100010, 0x0010000400100010, 0x0010000010100010, 0x0010000410100010, 0x0010000000001010, 0x0010000400001010,
    0x0010000010001010, 0x0010000410001010, 0x0010000000101010, 0x0010000400101010, 0x0010000010101010, 0x0010000410101010,
    0x1010000000000000, 0x1010000400000000, 0x1010000010000000, 0x1010000410000000, 0x1010000000100000, 0x1010000400100000,
    0x1010000010100000, 0x1010000410100000, 0x1010000000001000, 0x1010000400001000, 0x1010000010001000, 0x1010000410001000,
    0x1010000000101000, 0x1010000400101000, 0x1010000010101000, 0x1010000410101000, 0x1010000000000010, 0x1010000400000010,
    0x1010000010000010, 0x1010000410000010, 0x1010000000100010, 0x1010000400100010, 0x1010000010100010, 0x1010000410100010,
    0x1010000000001010, 0x1010000400001010, 0x1010000010001010, 0x1010000410001010, 0x1010000000101010, 0x1010000400101010,
    0x1010000010101010, 0x1010000410101010, 0x0000100000000000, 0x0000100400000000, 0x0000100010000000, 0x0000100410000000,
    0x0000100000100000, 0x0000100400100000, 0x0000100010100000, 0x0000100410100000, 0x0000100000001000, 0x0000100400001000,
    0x0000100010001000, 0x0000100410001000, 0x0000100000101000, 0x0000100400101000, 0x0000100010101000, 0x0000100410101000,
    0x0000100000000010, 0x0000100400000010, 0x0000100010000010, 0x0000100410000010, 0x0000100000100010, 0x0000100400100010,
    0x0000100010100010, 0x0000100410100010, 0x0000100000001010, 0x0000100400001010, 0x0000100010001010, 0x0000100410001010,
    0x0000100000101010, 0x0000100400101010, 0x0000100010101010, 0x0000100410101010, 0x1000100000000000, 0x1000100400000000,
    0x1000100010000000, 0x1000100410000000, 0x1000100000100000, 0x1000100400100000, 0x1000100010100000, 0x1000100410100000,
    0x1000100000001000, 0x1000100400001000, 0x1000100010001000, 0x1000100410001000, 0x1000100000101000, 0x1000100400101000,
    0x1000100010101000, 0x1000100410101000, 0x1000100000000010, 0x1000100400000010, 0x1000100010000010, 0x1000100410000010,
    0x1000100000100010, 0x1000100400100010, 0x1000100010100010, 0x1000100410100010, 0x1000100000001010, 0x1000100400001010,
    0x1000100010001010, 0x1000100410001010, 0x1000100000101010, 0x1000100400101010, 0x1000100010101010, 0x1000100410101010,
    0x0010100000000000, 0x0010100400000000, 0x0010100010000000, 0x0010100410000000, 0x0010100000100000, 0x0010100400100000,
    0x0010100010100000, 0x0010100410100000, 0x0010100000001000, 0x0010100400001000, 0x0010100010001000, 0x0010100410001000,
    0x0010100000101000, 0x0010100400101000, 0x0010100010101000, 0x0010100410101000, 0x0010100000000010, 0x0010100400000010,
    0x0010100010000010, 0x0010100410000010, 0x0010100000100010, 0x0010100400100010, 0x0010100010100010, 0x0010100410100010,
    0x0010100000001010, 0x0010100400001010, 0x0010100010001010, 0x0010100410001010, 0x0010100000101010, 0x0010100400101010,
    0x0010100010101010, 0x0010100410101010, 0x1010100000000000, 0x1010100400000000, 0x1010100010000000, 0x1010100410000000,
    0x1010100000100000, 0x1010100400100000, 0x1010100010100000, 0x1010100410100000, 0x1010100000001000, 0x1010100400001000,
    0x1010100010001000, 0x1010100410001000, 0x1010100000101000, 0x1010100400101000, 0x1010100010101000, 0x1010100410101000,
    0x1010100000000010, 0x1010100400000010, 0x1010100010000010, 0x1010100410000010, 0x1010100000100010, 0x1010100400100010,
    0x1010100010100010, 0x1010100410100010, 0x1010100000001010, 0x1010100400001010, 0x1010100010001010, 0x1010100410001010,
    0x1010100000101010, 0x1010100400101010, 0x1010100010101010, 0x1010100410101010]"

definition des_fp7 :: "u64 list" where
  "des_fp7 = [
    0x0000000000000000, 0x0000001000000000, 0x0000000040000000, 0x0000001040000000, 0x0000000000400000, 0x0000001000400000,
    0x0000000040400000, 0x0000001040400000, 0x0000000000004000, 0x0000001000004000, 0x0000000040004000, 0x0000001040004000,
    0x0000000000404000, 0x0000001000404000, 0x0000000040404000, 0x0000001040404000, 0x0000000000000040, 0x0000001000000040,
    0x0000000040000040, 0x0000001040000040, 0x0000000000400040, 0x0000001000400040, 0x0000000040400040, 0x0000001040400040,
    0x0000000000004040, 0x0000001000004040, 0x0000000040004040, 0x0000001040004040, 0x0000000000404040, 0x0000001000404040,
    0x0000000040404040, 0x0000001040404040, 0x4000000000000000, 0x4000001000000000, 0x4000000040000000, 0x4000001040000000,
    0x4000000000400000, 0x4000001000400000, 0x4000000040400000, 0x4000001040400000, 0x4000000000004000, 0x4000001000004000,
    0x4000000040004000, 0x4000001040004000, 0x4000000000404000, 0x4000001000404000, 0x4000000040404000, 0x4000001040404000,
    0x4000000000000040, 0x4000001000000040, 0x4000000040000040, 0x4000001040000040, 0x4000000000400040, 0x4000001000400040,
    0x4000000040400040, 0x4000001040400040, 0x4000000000004040, 0x4000001000004040, 0x4000000040004040, 0x4000001040004040,
    0x4000000000404040, 0x4000001000404040, 0x4000000040404040, 0x4000001040404040, 0x0040000000000000, 0x0040001000000000,
    0x0040000040000000, 0x0040001040000000, 0x0040000000400000, 0x0040001000400000, 0x0040000040400000, 0x0040001040400000,
    0x0040000000004000, 0x0040001000004000, 0x0040000040004000, 0x0040001040004000, 0x0040000000404000, 0x0040001000404000,
    0x0040000040404000, 0x0040001040404000, 0x0040000000000040, 0x0040001000000040, 0x0040000040000040, 0x0040001040000040,
    0x0040000000400040, 0x0040001000400040, 0x0040000040400040, 0x0040001040400040, 0x0040000000004040, 0x0040001000004040,
    0x0040000040004040, 0x0040001040004040, 0x0040000000404040, 0x0040001000404040, 0x0040000040404040, 0x0040001040404040,
    0x4040000000000000, 0x4040001000000000, 0x4040000040000000, 0x4040001040000000, 0x4040000000400000, 0x4040001000400000,
    0x4040000040400000, 0x4040001040400000, 0x4040000000004000, 0x4040001000004000, 0x4040000040004000, 0x4040001040004000,
    0x4040000000404000, 0x4040001000404000, 0x4040000040404000, 0x4040001040404000, 0x4040000000000040, 0x4040001000000040,
    0x4040000040000040, 0x4040001040000040, 0x4040000000400040, 0x4040001000400040, 0x4040000040400040, 0x4040001040400040,
    0x4040000000004040, 0x4040001000004040, 0x4040000040004040, 0x4040001040004040, 0x4040000000404040, 0x4040001000404040,
    0x4040000040404040, 0x4040001040404040, 0x0000400000000000, 0x0000401000000000, 0x0000400040000000, 0x0000401040000000,
    0x0000400000400000, 0x0000401000400000, 0x0000400040400000, 0x0000401040400000, 0x0000400000004000, 0x0000401000004000,
    0x0000400040004000, 0x0000401040004000, 0x0000400000404000, 0x0000401000404000, 0x0000400040404000, 0x0000401040404000,
    0x0000400000000040, 0x0000401000000040, 0x0000400040000040, 0x0000401040000040, 0x0000400000400040, 0x0000401000400040,
    0x0000400040400040, 0x0000401040400040, 0x0000400000004040, 0x0000401000004040, 0x0000400040004040, 0x0000401040004040,
    0x0000400000404040, 0x0000401000404040, 0x0000400040404040, 0x0000401040404040, 0x4000400000000000, 0x4000401000000000,
    0x4000400040000000, 0x4000401040000000, 0x4000400000400000, 0x4000401000400000, 0x4000400040400000, 0x4000401040400000,
    0x4000400000004000, 0x4000401000004000, 0x4000400040004000, 0x4000401040004000, 0x4000400000404000, 0x4000401000404000,
    0x4000400040404000, 0x4000401040404000, 0x4000400000000040, 0x4000401000000040, 0x4000400040000040, 0x4000401040000040,
    0x4000400000400040, 0x4000401000400040, 0x4000400040400040, 0x4000401040400040, 0x4000400000004040, 0x4000401000004040,
    0x4000400040004040, 0x4000401040004040, 0x4000400000404040, 0x4000401000404040, 0x4000400040404040, 0x4000401040404040,
    0x0040400000000000, 0x0040401000000000, 0x0040400040000000, 0x0040401040000000, 0x0040400000400000, 0x0040401000400000,
    0x0040400040400000, 0x0040401040400000, 0x0040400000004000, 0x0040401000004000, 0x0040400040004000, 0x0040401040004000,
    0x0040400000404000, 0x0040401000404000, 0x0040400040404000, 0x0040401040404000, 0x0040400000000040, 0x0040401000000040,
    0x0040400040000040, 0x0040401040000040, 0x0040400000400040, 0x0040401000400040, 0x0040400040400040, 0x0040401040400040,
    0x0040400000004040, 0x0040401000004040, 0x0040400040004040, 0x0040401040004040, 0x0040400000404040, 0x0040401000404040,
    0x0040400040404040, 0x0040401040404040, 0x4040400000000000, 0x4040401000000000, 0x4040400040000000, 0x4040401040000000,
    0x4040400000400000, 0x4040401000400000, 0x4040400040400000, 0x4040401040400000, 0x4040400000004000, 0x4040401000004000,
    0x4040400040004000, 0x4040401040004000, 0x4040400000404000, 0x4040401000404000, 0x4040400040404000, 0x4040401040404000,
    0x4040400000000040, 0x4040401000000040, 0x4040400040000040, 0x4040401040000040, 0x4040400000400040, 0x4040401000400040,
    0x4040400040400040, 0x4040401040400040, 0x4040400000004040, 0x4040401000004040, 0x4040400040004040, 0x4040401040004040,
    0x4040400000404040, 0x4040401000404040, 0x4040400040404040, 0x4040401040404040]"

end
