(* ===== verification/Ts_Chaining.thy ===== *)
theory Ts_Chaining
  imports Ts_Blocks
begin

text \<open>
  The chaining modes of block ciphers: \<open>tsCipherChaining.cpp\<close>, \<open>tsBlockCipher.cpp\<close> and the
  templates of ECB, CBC, the four variants of cipher text stealing and DVS 042.

  A block cipher is the interface the templates use: its block size and its two operations on
  one block, \<open>None\<close> when they return false. The data of a call is a byte list, its output the
  bytes written (\<open>None\<close> when the call returns false), and the size of the output buffer is an
  argument; input and output do not overlap, as in the in-place calls, which copy their input.
  The work buffer is only read where the same call wrote it, so that its size is kept alone. A
  block size is never zero: a loop of the model stops at once with one, where the code does not
  end.
\<close>

section \<open>Block ciphers and their chaining\<close>

record block_cipher =
  bc_size :: nat
  bc_encrypt :: "byte list \<Rightarrow> byte list option"
  bc_decrypt :: "byte list \<Rightarrow> byte list option"

record CipherChaining =
  ch_algo :: "block_cipher option"
  ch_block_size :: nat
  ch_iv_min_size :: nat
  ch_iv_max_size :: nat
  ch_iv :: "byte list"
  ch_work :: nat
  ch_shortIV :: "byte list"

definition CipherChaining_new :: "block_cipher option \<Rightarrow> nat \<Rightarrow> nat \<Rightarrow> nat \<Rightarrow> CipherChaining" where
  "CipherChaining_new algo iv_min_blocks iv_max_blocks work_blocks =
     (let bs = (case algo of None \<Rightarrow> 0 | Some a \<Rightarrow> bc_size a)
      in \<lparr>ch_algo = algo, ch_block_size = bs, ch_iv_min_size = iv_min_blocks * bs, ch_iv_max_size = iv_max_blocks * bs,
          ch_iv = replicate (iv_max_blocks * bs) 0, ch_work = work_blocks * bs, ch_shortIV = []\<rparr>)"

definition ch_setKey :: "(byte list \<Rightarrow> nat \<Rightarrow> block_cipher \<Rightarrow> bool \<times> block_cipher) \<Rightarrow> byte list \<Rightarrow> nat \<Rightarrow> CipherChaining \<Rightarrow> bool \<times> CipherChaining" where
  "ch_setKey set_key key rounds c =
     (case ch_algo c of
        None \<Rightarrow> (False, c)
      | Some a \<Rightarrow> (case set_key key rounds a of (st, a') \<Rightarrow> (st, c\<lparr>ch_algo := Some a'\<rparr>)))"

text \<open>A null pointer comes with length 0.\<close>

definition new_iv :: "CipherChaining \<Rightarrow> byte list option \<Rightarrow> bool \<times> byte list" where
  "new_iv c iv_data =
     (case iv_data of
        None \<Rightarrow> (ch_iv_min_size c = 0, [])
      | Some iv \<Rightarrow>
          if ch_iv_min_size c = 0 \<and> length iv = 0 then (True, [])
          else if length iv < ch_iv_min_size c \<or> length iv > ch_iv_max_size c then (False, [])
          else (True, iv))"

definition ch_setIV :: "byte list option \<Rightarrow> CipherChaining \<Rightarrow> bool \<times> CipherChaining" where
  "ch_setIV iv_data c = (case new_iv c iv_data of (st, iv) \<Rightarrow> (st, c\<lparr>ch_iv := iv\<rparr>))"

definition DVS042_setShortIV :: "byte list option \<Rightarrow> CipherChaining \<Rightarrow> bool \<times> CipherChaining" where
  "DVS042_setShortIV iv_data c = (case new_iv c iv_data of (st, iv) \<Rightarrow> (st, c\<lparr>ch_shortIV := iv\<rparr>))"

definition DVS042_setIV :: "byte list option \<Rightarrow> CipherChaining \<Rightarrow> bool \<times> CipherChaining" where
  "DVS042_setIV iv_data c =
     (case ch_setIV iv_data c of (ok1, c1) \<Rightarrow> (case DVS042_setShortIV iv_data c1 of (ok2, c2) \<Rightarrow> (ok1 \<and> ok2, c2)))"

text \<open>The constructors of the modes.\<close>

definition ECB_new :: "block_cipher \<Rightarrow> CipherChaining" where
  "ECB_new a = CipherChaining_new (Some a) 0 0 0"

definition CBC_new :: "block_cipher \<Rightarrow> CipherChaining" where
  "CBC_new a = CipherChaining_new (Some a) 1 1 1"

definition CTS1_new :: "block_cipher \<Rightarrow> CipherChaining" where
  "CTS1_new a = CipherChaining_new (Some a) 1 1 2"

definition CTS2_new :: "block_cipher \<Rightarrow> CipherChaining" where
  "CTS2_new a = CipherChaining_new (Some a) 1 1 1"

definition CTS3_new :: "block_cipher \<Rightarrow> CipherChaining" where
  "CTS3_new a = CipherChaining_new (Some a) 0 0 1"

definition CTS4_new :: "block_cipher \<Rightarrow> CipherChaining" where
  "CTS4_new a = CipherChaining_new (Some a) 0 0 1"

definition DVS042_new :: "block_cipher \<Rightarrow> CipherChaining" where
  "DVS042_new a = (let c = CipherChaining_new (Some a) 1 1 1 in c\<lparr>ch_shortIV := replicate (ch_block_size c) 0\<rparr>)"

section \<open>The loops\<close>

text \<open>Block after block while \<open>go\<close> holds of the number of bytes left; the result is the previous
  cipher block, the input left and the output.\<close>

function ecb_loop :: "nat \<Rightarrow> (byte list \<Rightarrow> byte list option) \<Rightarrow> (nat \<Rightarrow> bool) \<Rightarrow> byte list \<Rightarrow> byte list \<Rightarrow> (byte list \<times> byte list) option" where
  "ecb_loop bs f go inp out =
     (if bs = 0 \<or> inp = [] \<or> \<not> go (length inp) then Some (inp, out)
      else (case f (take bs inp) of
              None \<Rightarrow> None
            | Some b \<Rightarrow> ecb_loop bs f go (drop bs inp) (out @ b)))"
  by pat_completeness auto
termination
  by (relation "measure (\<lambda>(bs, f, go, inp, out). length inp)") auto

function cbc_encrypt_loop :: "block_cipher \<Rightarrow> (nat \<Rightarrow> bool) \<Rightarrow> byte list \<Rightarrow> byte list \<Rightarrow> byte list \<Rightarrow> (byte list \<times> byte list \<times> byte list) option" where
  "cbc_encrypt_loop a go previous pt out =
     (if bc_size a = 0 \<or> pt = [] \<or> \<not> go (length pt) then Some (previous, pt, out)
      else (case bc_encrypt a (xor_bytes previous (take (bc_size a) pt)) of
              None \<Rightarrow> None
            | Some ct \<Rightarrow> cbc_encrypt_loop a go ct (drop (bc_size a) pt) (out @ ct)))"
  by pat_completeness auto
termination
  by (relation "measure (\<lambda>(a, go, previous, pt, out). length pt)") auto

function cbc_decrypt_loop :: "block_cipher \<Rightarrow> (nat \<Rightarrow> bool) \<Rightarrow> byte list \<Rightarrow> byte list \<Rightarrow> byte list \<Rightarrow> (byte list \<times> byte list \<times> byte list) option" where
  "cbc_decrypt_loop a go previous ct out =
     (if bc_size a = 0 \<or> ct = [] \<or> \<not> go (length ct) then Some (previous, ct, out)
      else (case bc_decrypt a (take (bc_size a) ct) of
              None \<Rightarrow> None
            | Some work \<Rightarrow>
                cbc_decrypt_loop a go (take (bc_size a) ct) (drop (bc_size a) ct) (out @ xor_bytes previous work)))"
  by pat_completeness auto
termination
  by (relation "measure (\<lambda>(a, go, previous, ct, out). length ct)") auto

declare ecb_loop.simps [simp del] cbc_encrypt_loop.simps [simp del] cbc_decrypt_loop.simps [simp del]

section \<open>ECB and CBC\<close>

definition ECB_crypt :: "(block_cipher \<Rightarrow> byte list \<Rightarrow> byte list option) \<Rightarrow> CipherChaining \<Rightarrow> byte list \<Rightarrow> nat \<Rightarrow> byte list option" where
  "ECB_crypt f c inp maxsize =
     (case ch_algo c of
        None \<Rightarrow> None
      | Some a \<Rightarrow>
          if length inp mod ch_block_size c \<noteq> 0 \<or> maxsize < length inp then None
          else map_option snd (ecb_loop (ch_block_size c) (f a) (\<lambda>n. n > 0) inp []))"

definition ECB_encrypt :: "CipherChaining \<Rightarrow> byte list \<Rightarrow> nat \<Rightarrow> byte list option" where
  "ECB_encrypt = ECB_crypt bc_encrypt"

definition ECB_decrypt :: "CipherChaining \<Rightarrow> byte list \<Rightarrow> nat \<Rightarrow> byte list option" where
  "ECB_decrypt = ECB_crypt bc_decrypt"

definition CBC_encrypt :: "CipherChaining \<Rightarrow> byte list \<Rightarrow> nat \<Rightarrow> byte list option" where
  "CBC_encrypt c plain maxsize =
     (case ch_algo c of
        None \<Rightarrow> None
      | Some a \<Rightarrow>
          if length (ch_iv c) \<noteq> ch_block_size c \<or> ch_work c < ch_block_size c \<or>
             length plain mod ch_block_size c \<noteq> 0 \<or> maxsize < length plain then None
          else (case cbc_encrypt_loop a (\<lambda>n. n > 0) (ch_iv c) plain [] of
                  None \<Rightarrow> None
                | Some (_, _, out) \<Rightarrow> Some out))"

definition CBC_decrypt :: "CipherChaining \<Rightarrow> byte list \<Rightarrow> nat \<Rightarrow> byte list option" where
  "CBC_decrypt c cipher maxsize =
     (case ch_algo c of
        None \<Rightarrow> None
      | Some a \<Rightarrow>
          if length (ch_iv c) \<noteq> ch_block_size c \<or> ch_work c < ch_block_size c \<or>
             length cipher mod ch_block_size c \<noteq> 0 \<or> maxsize < length cipher then None
          else (case cbc_decrypt_loop a (\<lambda>n. n > 0) (ch_iv c) cipher [] of
                  None \<Rightarrow> None
                | Some (_, _, out) \<Rightarrow> Some out))"

section \<open>Cipher text stealing\<close>

text \<open>CTS1: the last two blocks are swapped and the last one truncated.\<close>

definition CTS1_encrypt :: "CipherChaining \<Rightarrow> byte list \<Rightarrow> nat \<Rightarrow> byte list option" where
  "CTS1_encrypt c plain maxsize =
     (case ch_algo c of
        None \<Rightarrow> None
      | Some a \<Rightarrow>
          if length (ch_iv c) \<noteq> ch_block_size c \<or> ch_work c < 2 * ch_block_size c \<or> maxsize < length plain \<or>
             length plain \<le> ch_block_size c then None
          else (case cbc_encrypt_loop a (\<lambda>n. n > ch_block_size c) (ch_iv c) plain [] of
                  None \<Rightarrow> None
                | Some (previous, pt, out) \<Rightarrow>
                    let padded = memcpy_at (replicate (ch_block_size c) 0) 0 pt
                    in (case bc_encrypt a (xor_bytes previous padded) of
                          None \<Rightarrow> None
                        | Some padded' \<Rightarrow>
                            Some (memcpy_at (out @ take (length pt) previous) (length out - ch_block_size c) padded'))))"

definition CTS1_decrypt :: "CipherChaining \<Rightarrow> byte list \<Rightarrow> nat \<Rightarrow> byte list option" where
  "CTS1_decrypt c cipher maxsize =
     (case ch_algo c of
        None \<Rightarrow> None
      | Some a \<Rightarrow>
          let bs = ch_block_size c
          in if length (ch_iv c) \<noteq> bs \<or> ch_work c < 2 * bs \<or> maxsize < length cipher \<or> length cipher \<le> bs then None
             else (case cbc_decrypt_loop a (\<lambda>n. n > 2 * bs) (ch_iv c) cipher [] of
                  None \<Rightarrow> None
                | Some (previous, ct, out) \<Rightarrow>
                    let last_size = length ct - bs;
                        padded = take last_size (drop bs ct)
                    in (case bc_decrypt a (take bs ct) of
                          None \<Rightarrow> None
                        | Some work \<Rightarrow>
                            (case bc_decrypt a (padded @ drop last_size work) of
                               None \<Rightarrow> None
                             | Some p \<Rightarrow> Some (out @ xor_bytes p previous @ xor_bytes (take last_size work) padded)))))"

text \<open>CTS2: the last block is completed with the tail of the one before, which is overwritten.\<close>

definition CTS2_encrypt :: "CipherChaining \<Rightarrow> byte list \<Rightarrow> nat \<Rightarrow> byte list option" where
  "CTS2_encrypt c plain maxsize =
     (case ch_algo c of
        None \<Rightarrow> None
      | Some a \<Rightarrow>
          if length (ch_iv c) \<noteq> ch_block_size c \<or> ch_work c < ch_block_size c \<or>
             length plain < ch_block_size c \<or> maxsize < length plain then None
          else (case cbc_encrypt_loop a (\<lambda>n. n \<ge> ch_block_size c) (ch_iv c) plain [] of
                  None \<Rightarrow> None
                | Some (previous, pt, out) \<Rightarrow>
                    if length pt > 0
                    then (case bc_encrypt a (xor_bytes (take (length pt) previous) pt @ drop (length pt) previous) of
                            None \<Rightarrow> None
                          | Some b \<Rightarrow> Some (memcpy_at out (length out - ch_block_size c + length pt) b))
                    else Some out))"

definition CTS2_decrypt :: "CipherChaining \<Rightarrow> byte list \<Rightarrow> nat \<Rightarrow> byte list option" where
  "CTS2_decrypt c cipher maxsize =
     (case ch_algo c of
        None \<Rightarrow> None
      | Some a \<Rightarrow>
          let bs = ch_block_size c;
              residue_size = length cipher mod bs;
              trick_size = (if residue_size = 0 then 0 else bs + residue_size)
          in if length (ch_iv c) \<noteq> bs \<or> ch_work c < bs \<or> length cipher < bs \<or> maxsize < length cipher then None
             else (case cbc_decrypt_loop a (\<lambda>n. n > trick_size) (ch_iv c) cipher [] of
                  None \<Rightarrow> None
                | Some (previous, ct, out) \<Rightarrow>
                    if length ct > 0
                    then (case bc_decrypt a (take bs (drop residue_size ct)) of
                            None \<Rightarrow> None
                          | Some work \<Rightarrow>
                              (case bc_decrypt a (memcpy_at work 0 (take residue_size ct)) of
                                 None \<Rightarrow> None
                               | Some p \<Rightarrow> Some (out @ xor_bytes p previous @ xor_bytes (take residue_size ct) (take residue_size work))))
                    else Some out))"

text \<open>CTS3: stealing in ECB mode.\<close>

definition CTS3_crypt :: "(block_cipher \<Rightarrow> byte list \<Rightarrow> byte list option) \<Rightarrow> CipherChaining \<Rightarrow> byte list \<Rightarrow> nat \<Rightarrow> byte list option" where
  "CTS3_crypt f c inp maxsize =
     (case ch_algo c of
        None \<Rightarrow> None
      | Some a \<Rightarrow>
          let bs = ch_block_size c
          in if ch_work c < bs \<or> length inp \<le> bs \<or> maxsize < length inp then None
             else (case ecb_loop bs (f a) (\<lambda>n. n > 2 * bs) inp [] of
                     None \<Rightarrow> None
                   | Some (pt, out) \<Rightarrow>
                       let residue_size = length pt - bs
                       in (case f a (take bs pt) of
                             None \<Rightarrow> None
                           | Some work \<Rightarrow>
                               (case f a (memcpy_at work 0 (take residue_size (drop bs pt))) of
                                  None \<Rightarrow> None
                                | Some b \<Rightarrow> Some (out @ b @ take residue_size work)))))"

definition CTS3_encrypt :: "CipherChaining \<Rightarrow> byte list \<Rightarrow> nat \<Rightarrow> byte list option" where
  "CTS3_encrypt = CTS3_crypt bc_encrypt"

definition CTS3_decrypt :: "CipherChaining \<Rightarrow> byte list \<Rightarrow> nat \<Rightarrow> byte list option" where
  "CTS3_decrypt = CTS3_crypt bc_decrypt"

text \<open>CTS4: the block that ends at the end of the data is encrypted first, then the one before it.\<close>

definition CTS4_encrypt :: "CipherChaining \<Rightarrow> byte list \<Rightarrow> nat \<Rightarrow> byte list option" where
  "CTS4_encrypt c plain maxsize =
     (case ch_algo c of
        None \<Rightarrow> None
      | Some a \<Rightarrow>
          let bs = ch_block_size c
          in if ch_work c < bs \<or> length plain < bs \<or> maxsize < length plain then None
             else (case ecb_loop bs (bc_encrypt a) (\<lambda>n. n > 2 * bs) plain [] of
                     None \<Rightarrow> None
                   | Some (pt, out) \<Rightarrow>
                       let residue_size = length pt - bs;
                           work = take (bs - residue_size) (drop residue_size pt) @ take residue_size (drop bs pt)
                       in (case bc_encrypt a work of
                             None \<Rightarrow> None
                           | Some x \<Rightarrow>
                               let ct = replicate residue_size 0 @ x;
                                   work' = take residue_size pt @ take (bs - residue_size) (drop residue_size ct)
                               in (case bc_encrypt a work' of
                                     None \<Rightarrow> None
                                   | Some y \<Rightarrow> Some (out @ memcpy_at ct 0 y)))))"

definition CTS4_decrypt :: "CipherChaining \<Rightarrow> byte list \<Rightarrow> nat \<Rightarrow> byte list option" where
  "CTS4_decrypt c cipher maxsize =
     (case ch_algo c of
        None \<Rightarrow> None
      | Some a \<Rightarrow>
          let bs = ch_block_size c
          in if ch_work c < bs \<or> length cipher < bs \<or> maxsize < length cipher then None
             else (case ecb_loop bs (bc_decrypt a) (\<lambda>n. n > bs) cipher [] of
                     None \<Rightarrow> None
                   | Some (ct, out) \<Rightarrow>
                       let from = length out + length ct - bs;
                           work = take (bs - length ct) (drop from out) @ ct
                       in (case bc_decrypt a work of
                             None \<Rightarrow> None
                           | Some p \<Rightarrow> Some (memcpy_at out from p))))"

section \<open>DVS 042\<close>

definition DVS042_ready :: "CipherChaining \<Rightarrow> nat \<Rightarrow> nat \<Rightarrow> bool" where
  "DVS042_ready c len maxsize = (length (ch_iv c) = ch_block_size c \<and> length (ch_shortIV c) = ch_block_size c \<and>
     \<not> ch_work c < ch_block_size c \<and> \<not> maxsize < len)"

definition DVS042_residue :: "block_cipher \<Rightarrow> (byte list \<times> byte list \<times> byte list) option \<Rightarrow> byte list option" where
  "DVS042_residue a r =
     (case r of
        None \<Rightarrow> None
      | Some (previous, inp, out) \<Rightarrow>
          if length inp > 0
          then (case bc_encrypt a previous of
                  None \<Rightarrow> None
                | Some work \<Rightarrow> Some (out @ xor_bytes work inp))
          else Some out)"

definition DVS042_encrypt :: "CipherChaining \<Rightarrow> byte list \<Rightarrow> nat \<Rightarrow> byte list option" where
  "DVS042_encrypt c plain maxsize =
     (case ch_algo c of
        None \<Rightarrow> None
      | Some a \<Rightarrow>
          if \<not> DVS042_ready c (length plain) maxsize then None
          else let previous = (if length plain < ch_block_size c then ch_shortIV c else ch_iv c)
               in DVS042_residue a (cbc_encrypt_loop a (\<lambda>n. n \<ge> ch_block_size c) previous plain []))"

definition DVS042_decrypt :: "CipherChaining \<Rightarrow> byte list \<Rightarrow> nat \<Rightarrow> byte list option" where
  "DVS042_decrypt c cipher maxsize =
     (case ch_algo c of
        None \<Rightarrow> None
      | Some a \<Rightarrow>
          if \<not> DVS042_ready c (length cipher) maxsize then None
          else let previous = (if length cipher < ch_block_size c then ch_shortIV c else ch_iv c)
               in DVS042_residue a (cbc_decrypt_loop a (\<lambda>n. n \<ge> ch_block_size c) previous cipher []))"

section \<open>The modes as one interface\<close>

text \<open>The virtual methods of a chaining object, by its class, and the sizes it takes.\<close>

datatype chain_mode = ECB | CBC | CTS1 | CTS2 | CTS3 | CTS4 | DVS042

fun chain_new :: "chain_mode \<Rightarrow> block_cipher \<Rightarrow> CipherChaining" where
  "chain_new ECB = ECB_new"
| "chain_new CBC = CBC_new"
| "chain_new CTS1 = CTS1_new"
| "chain_new CTS2 = CTS2_new"
| "chain_new CTS3 = CTS3_new"
| "chain_new CTS4 = CTS4_new"
| "chain_new DVS042 = DVS042_new"

fun chain_encrypt :: "chain_mode \<Rightarrow> CipherChaining \<Rightarrow> byte list \<Rightarrow> nat \<Rightarrow> byte list option" where
  "chain_encrypt ECB = ECB_encrypt"
| "chain_encrypt CBC = CBC_encrypt"
| "chain_encrypt CTS1 = CTS1_encrypt"
| "chain_encrypt CTS2 = CTS2_encrypt"
| "chain_encrypt CTS3 = CTS3_encrypt"
| "chain_encrypt CTS4 = CTS4_encrypt"
| "chain_encrypt DVS042 = DVS042_encrypt"

fun chain_decrypt :: "chain_mode \<Rightarrow> CipherChaining \<Rightarrow> byte list \<Rightarrow> nat \<Rightarrow> byte list option" where
  "chain_decrypt ECB = ECB_decrypt"
| "chain_decrypt CBC = CBC_decrypt"
| "chain_decrypt CTS1 = CTS1_decrypt"
| "chain_decrypt CTS2 = CTS2_decrypt"
| "chain_decrypt CTS3 = CTS3_decrypt"
| "chain_decrypt CTS4 = CTS4_decrypt"
| "chain_decrypt DVS042 = DVS042_decrypt"

fun chain_setIV :: "chain_mode \<Rightarrow> byte list option \<Rightarrow> CipherChaining \<Rightarrow> bool \<times> CipherChaining" where
  "chain_setIV DVS042 = DVS042_setIV"
| "chain_setIV _ = ch_setIV"

fun minMessageSize :: "chain_mode \<Rightarrow> CipherChaining \<Rightarrow> nat" where
  "minMessageSize ECB c = ch_block_size c"
| "minMessageSize CBC c = ch_block_size c"
| "minMessageSize CTS1 c = ch_block_size c + 1"
| "minMessageSize CTS2 c = ch_block_size c"
| "minMessageSize CTS3 c = ch_block_size c + 1"
| "minMessageSize CTS4 c = ch_block_size c + 1"
| "minMessageSize DVS042 c = 0"

fun residueAllowed :: "chain_mode \<Rightarrow> bool" where
  "residueAllowed ECB = False"
| "residueAllowed CBC = False"
| "residueAllowed _ = True"

text \<open>The in-place calls copy their input; without an output size the buffer is as long as the data.\<close>

definition chain_encryptInPlace :: "chain_mode \<Rightarrow> CipherChaining \<Rightarrow> byte list \<Rightarrow> nat option \<Rightarrow> byte list option" where
  "chain_encryptInPlace m c data max_actual =
     chain_encrypt m c data (case max_actual of None \<Rightarrow> length data | Some n \<Rightarrow> n)"

definition chain_decryptInPlace :: "chain_mode \<Rightarrow> CipherChaining \<Rightarrow> byte list \<Rightarrow> nat option \<Rightarrow> byte list option" where
  "chain_decryptInPlace m c data max_actual =
     chain_decrypt m c data (case max_actual of None \<Rightarrow> length data | Some n \<Rightarrow> n)"

section \<open>The contract of a block cipher\<close>

text \<open>What the modes rely on: the block size is positive, and a block is encrypted to a block that
  decrypts to it.\<close>

locale block_code =
  fixes a :: block_cipher
  assumes size_pos: "0 < bc_size a"
    and crypt: "length b = bc_size a \<Longrightarrow>
      \<exists>c. bc_encrypt a b = Some c \<and> length c = bc_size a \<and> bc_decrypt a c = Some b"
begin

lemma ecb_stop: "inp = [] \<or> \<not> go (length inp) \<Longrightarrow> ecb_loop bs f go inp out = Some (inp, out)"
  by (subst ecb_loop.simps) auto

lemma cbc_stop:
  "pt = [] \<or> \<not> go (length pt) \<Longrightarrow> cbc_encrypt_loop a go prev pt out = Some (prev, pt, out)"
  "pt = [] \<or> \<not> go (length pt) \<Longrightarrow> cbc_decrypt_loop a go prev pt out = Some (prev, pt, out)"
  by (subst cbc_encrypt_loop.simps cbc_decrypt_loop.simps; auto)+

lemma ecb_step:
  assumes "length B = bc_size a" and "go (length (B @ X))" and "f B = Some c"
  shows "ecb_loop (bc_size a) f go (B @ X) out = ecb_loop (bc_size a) f go X (out @ c)"
  by (subst ecb_loop.simps) (use assms size_pos in auto)

lemma cbc_step:
  assumes "length B = bc_size a" and "go (length (B @ X))"
  shows "bc_encrypt a (xor_bytes prev B) = Some c \<Longrightarrow> cbc_encrypt_loop a go prev (B @ X) out = cbc_encrypt_loop a go c X (out @ c)"
    and "bc_decrypt a B = Some w \<Longrightarrow> cbc_decrypt_loop a go prev (B @ X) out = cbc_decrypt_loop a go B X (out @ xor_bytes prev w)"
  by (subst cbc_encrypt_loop.simps cbc_decrypt_loop.simps; use assms size_pos in auto)+

text \<open>A number of whole blocks, in ECB and in CBC mode: the output of the encryption is the input
  of the decryption, whatever follows.\<close>

definition covers :: "(nat \<Rightarrow> bool) \<Rightarrow> nat \<Rightarrow> nat \<Rightarrow> bool" where
  "covers go r k = (\<forall>i < k. go (r + bc_size a * (i + 1)))"

lemma covers_Suc: "covers go r (Suc k) = (covers go r k \<and> go (r + bc_size a * (k + 1)))"
  by (auto simp: covers_def less_Suc_eq)

lemma ecb_steps:
  assumes "length Q = bc_size a * k"
  shows "\<exists>C. length C = length Q \<and>
    (\<forall>go R out. covers go (length R) k \<longrightarrow>
       ecb_loop (bc_size a) (bc_encrypt a) go (Q @ R) out = ecb_loop (bc_size a) (bc_encrypt a) go R (out @ C) \<and>
       ecb_loop (bc_size a) (bc_decrypt a) go (C @ R) out = ecb_loop (bc_size a) (bc_decrypt a) go R (out @ Q))"
  using assms
proof (induction k arbitrary: Q)
  case 0
  then show ?case by auto
next
  case (Suc k)
  define B Q' where "B = take (bc_size a) Q" and "Q' = drop (bc_size a) Q"
  have Q: "Q = B @ Q'" "length B = bc_size a" "length Q' = bc_size a * k" using Suc.prems by (simp_all add: B_def Q'_def)
  obtain c where c: "bc_encrypt a B = Some c" "length c = bc_size a" "bc_decrypt a c = Some B" using crypt [OF Q(2)] by blast
  obtain C where C: "length C = length Q'" "\<And>go R out. covers go (length R) k \<Longrightarrow>
       ecb_loop (bc_size a) (bc_encrypt a) go (Q' @ R) out = ecb_loop (bc_size a) (bc_encrypt a) go R (out @ C) \<and>
       ecb_loop (bc_size a) (bc_decrypt a) go (C @ R) out = ecb_loop (bc_size a) (bc_decrypt a) go R (out @ Q')"
    using Suc.IH [OF Q(3)] by blast
  have "ecb_loop (bc_size a) (bc_encrypt a) go (Q @ R) out = ecb_loop (bc_size a) (bc_encrypt a) go R (out @ c @ C) \<and>
      ecb_loop (bc_size a) (bc_decrypt a) go ((c @ C) @ R) out = ecb_loop (bc_size a) (bc_decrypt a) go R (out @ Q)"
    if g: "covers go (length R) (Suc k)" for go R out
  proof -
    have k: "covers go (length R) k" and n: "go (length R + bc_size a * (k + 1))" using g by (simp_all add: covers_Suc)
    have l: "length (B @ Q' @ R) = length R + bc_size a * (k + 1)" "length (c @ C @ R) = length R + bc_size a * (k + 1)"
      using Q c(2) C(1) by simp_all
    have "ecb_loop (bc_size a) (bc_encrypt a) go (B @ Q' @ R) out = ecb_loop (bc_size a) (bc_encrypt a) go (Q' @ R) (out @ c)"
      by (rule ecb_step) (use l n c Q(2) in \<open>simp_all only:\<close>)
    moreover have "ecb_loop (bc_size a) (bc_decrypt a) go (c @ C @ R) out = ecb_loop (bc_size a) (bc_decrypt a) go (C @ R) (out @ B)"
      by (rule ecb_step) (use l n c Q(2) in \<open>simp_all only:\<close>)
    ultimately show ?thesis using C(2) [OF k] by (simp add: Q(1))
  qed
  then show ?case using C(1) c(2) Q by (intro exI [of _ "c @ C"]) simp
qed

lemma cbc_steps:
  assumes "length Q = bc_size a * k" and "length prev = bc_size a"
  shows "\<exists>C lst. length C = length Q \<and> length lst = bc_size a \<and>
    (if k = 0 then lst = prev else \<exists>front. C = front @ lst) \<and>
    (\<forall>go R out. covers go (length R) k \<longrightarrow>
       cbc_encrypt_loop a go prev (Q @ R) out = cbc_encrypt_loop a go lst R (out @ C) \<and>
       cbc_decrypt_loop a go prev (C @ R) out = cbc_decrypt_loop a go lst R (out @ Q))"
  using assms
proof (induction k arbitrary: Q prev)
  case 0
  then show ?case by auto
next
  case (Suc k)
  define B Q' where "B = take (bc_size a) Q" and "Q' = drop (bc_size a) Q"
  have Q: "Q = B @ Q'" "length B = bc_size a" "length Q' = bc_size a * k" using Suc.prems by (simp_all add: B_def Q'_def)
  have "length (xor_bytes prev B) = bc_size a" using Q(2) Suc.prems(2) by simp
  then obtain c where c: "bc_encrypt a (xor_bytes prev B) = Some c" "length c = bc_size a" "bc_decrypt a c = Some (xor_bytes prev B)"
    using crypt by blast
  obtain C lst where C: "length C = length Q'" "length lst = bc_size a" "if k = 0 then lst = c else \<exists>front. C = front @ lst"
      "\<And>go R out. covers go (length R) k \<Longrightarrow>
       cbc_encrypt_loop a go c (Q' @ R) out = cbc_encrypt_loop a go lst R (out @ C) \<and>
       cbc_decrypt_loop a go c (C @ R) out = cbc_decrypt_loop a go lst R (out @ Q')"
    using Suc.IH [OF Q(3) c(2)] by blast
  have "cbc_encrypt_loop a go prev (Q @ R) out = cbc_encrypt_loop a go lst R (out @ c @ C) \<and>
      cbc_decrypt_loop a go prev ((c @ C) @ R) out = cbc_decrypt_loop a go lst R (out @ Q)"
    if g: "covers go (length R) (Suc k)" for go R out
  proof -
    have k: "covers go (length R) k" and n: "go (length R + bc_size a * (k + 1))" using g by (simp_all add: covers_Suc)
    have l: "length (B @ Q' @ R) = length R + bc_size a * (k + 1)" "length (c @ C @ R) = length R + bc_size a * (k + 1)"
      using Q c(2) C(1) by simp_all
    have "cbc_encrypt_loop a go prev (B @ Q' @ R) out = cbc_encrypt_loop a go c (Q' @ R) (out @ c)"
      by (rule cbc_step(1)) (use l n c Q(2) in \<open>simp_all only:\<close>)
    moreover have "cbc_decrypt_loop a go prev (c @ C @ R) out = cbc_decrypt_loop a go c (C @ R) (out @ xor_bytes prev (xor_bytes prev B))"
      by (rule cbc_step(2)) (use l n c Q(2) in \<open>simp_all only:\<close>)
    moreover have "xor_bytes prev (xor_bytes prev B) = B" using Q(2) Suc.prems(2) by simp
    ultimately show ?thesis using C(4) [OF k] by (simp add: Q(1))
  qed
  moreover have "\<exists>front. c @ C = front @ lst"
    using C(1,3) Q(3) by (cases "k = 0") auto
  ultimately show ?case using C(1,2) c(2) Q by (intro exI [of _ "c @ C"] exI [of _ lst]) simp
qed

text \<open>Splitting the data in whole blocks and what follows.\<close>

lemma split_blocks:
  assumes "r \<le> length P" and "(length P - r) mod bc_size a = 0"
  obtains Q R k where "P = Q @ R" "length Q = bc_size a * k" "length R = r"
proof -
  have "length (take (length P - r) P) = bc_size a * ((length P - r) div bc_size a)" using assms by auto
  then show thesis using assms(1) by (intro that [of "take (length P - r) P" "drop (length P - r) P"]) auto
qed

lemma coversI:
  assumes "\<And>n. n mod bc_size a = r mod bc_size a \<Longrightarrow> bc_size a + r \<le> n \<Longrightarrow> go n"
  shows "covers go r k"
proof -
  have "go (r + bc_size a * (i + 1))" for i by (rule assms) (simp_all only: mod_mult_self2, simp)
  then show ?thesis by (simp add: covers_def)
qed

end

context block_code
begin

definition chained :: "CipherChaining \<Rightarrow> nat \<Rightarrow> bool" where
  "chained c w = (ch_algo c = Some a \<and> ch_block_size c = bc_size a \<and> w * bc_size a \<le> ch_work c)"

definition with_iv :: "CipherChaining \<Rightarrow> bool" where
  "with_iv c = (length (ch_iv c) = bc_size a)"

lemma whole_blocks:
  assumes "length P mod bc_size a = 0"
  obtains k where "length P = bc_size a * k"
  using assms by (metis mult_div_mod_eq add.right_neutral)

lemma covers_pos: "covers (\<lambda>n. n > 0) 0 k"
  using size_pos by (intro coversI) auto

lemma ECB_roundtrip:
  assumes "chained c 0" and "length P mod bc_size a = 0" and "length P \<le> m" and "length P \<le> m'"
  shows "\<exists>C. ECB_encrypt c P m = Some C \<and> length C = length P \<and> ECB_decrypt c C m' = Some P"
proof -
  obtain k where k: "length P = bc_size a * k" using whole_blocks assms(2) by blast
  obtain C where C: "length C = length P" "\<And>go R out. covers go (length R) k \<Longrightarrow>
       ecb_loop (bc_size a) (bc_encrypt a) go (P @ R) out = ecb_loop (bc_size a) (bc_encrypt a) go R (out @ C) \<and>
       ecb_loop (bc_size a) (bc_decrypt a) go (C @ R) out = ecb_loop (bc_size a) (bc_decrypt a) go R (out @ P)"
    using ecb_steps [OF k] by blast
  have "covers (\<lambda>n. n > 0) (length ([] :: byte list)) k" using covers_pos by simp
  from C(2) [OF this, of "[]"] show ?thesis
    using assms C(1) by (simp add: ECB_encrypt_def ECB_decrypt_def ECB_crypt_def chained_def ecb_stop)
qed

lemma CBC_roundtrip:
  assumes "chained c 1" and "with_iv c" and "length P mod bc_size a = 0" and "length P \<le> m" and "length P \<le> m'"
  shows "\<exists>C. CBC_encrypt c P m = Some C \<and> length C = length P \<and> CBC_decrypt c C m' = Some P"
proof -
  obtain k where k: "length P = bc_size a * k" using whole_blocks assms(3) by blast
  obtain C lst where C: "length C = length P" "\<And>go R out. covers go (length R) k \<Longrightarrow>
       cbc_encrypt_loop a go (ch_iv c) (P @ R) out = cbc_encrypt_loop a go lst R (out @ C) \<and>
       cbc_decrypt_loop a go (ch_iv c) (C @ R) out = cbc_decrypt_loop a go lst R (out @ P)"
    using cbc_steps [OF k, of "ch_iv c"] assms(2) unfolding with_iv_def by blast
  have "covers (\<lambda>n. n > 0) (length ([] :: byte list)) k" using covers_pos by simp
  from C(2) [OF this, of "[]"] show ?thesis
    using assms C(1) by (simp add: CBC_encrypt_def CBC_decrypt_def chained_def with_iv_def cbc_stop)
qed

text \<open>The data as whole blocks, one block, and a last part of 1 to \<open>bc_size a\<close> bytes.\<close>

lemma split_last_two:
  assumes "bc_size a < length P"
  obtains Q B R k where "P = Q @ B @ R" "length Q = bc_size a * k" "length B = bc_size a"
    "0 < length R" "length R \<le> bc_size a"
proof -
  define r where "r = (length P - 1) mod bc_size a + 1"
  have r: "0 < r" "r \<le> bc_size a" using mod_less_divisor [OF size_pos, of "length P - 1"] by (simp_all add: r_def)
  have l: "length P = bc_size a * ((length P - 1) div bc_size a) + r"
    using assms by (simp add: r_def)
  have k: "0 < (length P - 1) div bc_size a" using assms size_pos by (simp add: div_greater_zero_iff)
  define n where "n = bc_size a * ((length P - 1) div bc_size a - 1)"
  have n: "n + bc_size a + r = length P" using l k by (cases "(length P - 1) div bc_size a") (simp_all add: n_def)
  have "P = take n P @ take (bc_size a) (drop n P) @ drop (n + bc_size a) P"
    by (metis append_take_drop_id drop_drop add.commute)
  moreover have "length (take n P) = bc_size a * ((length P - 1) div bc_size a - 1)" using n by (simp add: n_def)
  ultimately show thesis by (rule that) (use n r in auto)
qed

lemma covers_two: "r \<le> bc_size a \<Longrightarrow> 0 < r \<Longrightarrow> covers (\<lambda>n. n > 2 * bc_size a) (bc_size a + r) k"
  by (rule coversI) auto

lemma CTS3_roundtrip:
  assumes "chained c 1" and "bc_size a < length P" and "length P \<le> m" and "length P \<le> m'"
  shows "\<exists>C. CTS3_encrypt c P m = Some C \<and> length C = length P \<and> CTS3_decrypt c C m' = Some P"
proof -
  obtain Q B R k where P: "P = Q @ B @ R" "length Q = bc_size a * k" "length B = bc_size a" "0 < length R" "length R \<le> bc_size a"
    using split_last_two [OF assms(2)] .
  obtain C where C: "length C = length Q" "\<And>go R out. covers go (length R) k \<Longrightarrow>
       ecb_loop (bc_size a) (bc_encrypt a) go (Q @ R) out = ecb_loop (bc_size a) (bc_encrypt a) go R (out @ C) \<and>
       ecb_loop (bc_size a) (bc_decrypt a) go (C @ R) out = ecb_loop (bc_size a) (bc_decrypt a) go R (out @ Q)"
    using ecb_steps [OF P(2)] by blast
  obtain w where w: "bc_encrypt a B = Some w" "length w = bc_size a" "bc_decrypt a w = Some B" using crypt [OF P(3)] by blast
  have mw: "memcpy_at w 0 R = R @ drop (length R) w" "length (R @ drop (length R) w) = bc_size a"
    using w(2) P(5) by (simp_all add: memcpy_at_def)
  obtain x where x: "bc_encrypt a (R @ drop (length R) w) = Some x" "length x = bc_size a" "bc_decrypt a x = Some (R @ drop (length R) w)"
    using crypt [OF mw(2)] by blast
  let ?r = "length R" and ?go = "\<lambda>n. n > 2 * bc_size a"
  have g: "covers ?go (length (B @ R)) k" "covers ?go (length (x @ take ?r w)) k"
    using covers_two [OF P(5,4)] P(3,5) x(2) w(2) by (simp_all add: min_absorb2)
  have e: "CTS3_encrypt c P m = Some (C @ x @ take ?r w)"
    using assms C(2) [OF g(1), of "[]"] P mw w x
    by (simp add: CTS3_encrypt_def CTS3_crypt_def chained_def ecb_stop Let_def)
  have "memcpy_at (R @ drop ?r w) 0 (take ?r w) = w" using w(2) P(5) by (simp add: memcpy_at_def min_absorb2)
  then have "CTS3_decrypt c (C @ x @ take ?r w) m' = Some P"
    using assms C(1) C(2) [OF g(2), of "[]"] P mw w x
    by (simp add: CTS3_decrypt_def CTS3_crypt_def chained_def ecb_stop Let_def min_absorb2)
  then show ?thesis using e C(1) P x(2) w(2) by (simp add: min_absorb2)
qed

lemma CTS4_roundtrip:
  assumes "chained c 1" and "bc_size a < length P" and "length P \<le> m" and "length P \<le> m'"
  shows "\<exists>C. CTS4_encrypt c P m = Some C \<and> length C = length P \<and> CTS4_decrypt c C m' = Some P"
proof -
  obtain Q B R k where P: "P = Q @ B @ R" "length Q = bc_size a * k" "length B = bc_size a" "0 < length R" "length R \<le> bc_size a"
    using split_last_two [OF assms(2)] .
  obtain C where C: "length C = length Q" "\<And>go R out. covers go (length R) k \<Longrightarrow>
       ecb_loop (bc_size a) (bc_encrypt a) go (Q @ R) out = ecb_loop (bc_size a) (bc_encrypt a) go R (out @ C) \<and>
       ecb_loop (bc_size a) (bc_decrypt a) go (C @ R) out = ecb_loop (bc_size a) (bc_decrypt a) go R (out @ Q)"
    using ecb_steps [OF P(2)] by blast
  let ?r = "length R" and ?go = "\<lambda>n. n > 2 * bc_size a" and ?go' = "\<lambda>n. n > bc_size a"
  let ?w = "drop ?r B @ R"
  have lw: "length ?w = bc_size a" using P by simp
  obtain x where x: "bc_encrypt a ?w = Some x" "length x = bc_size a" "bc_decrypt a x = Some ?w" using crypt [OF lw] by blast
  let ?w' = "take ?r B @ take (bc_size a - ?r) x"
  have lw': "length ?w' = bc_size a" using P x(2) by simp
  obtain y where y: "bc_encrypt a ?w' = Some y" "length y = bc_size a" "bc_decrypt a y = Some ?w'" using crypt [OF lw'] by blast
  let ?t = "drop (bc_size a - ?r) x"
  have g: "covers ?go (length (B @ R)) k" using covers_two [OF P(5,4)] P(3) by simp
  have yt: "memcpy_at (replicate ?r 0 @ x) 0 y = y @ ?t" using P(5) x(2) y(2) by (simp add: memcpy_at_def)
  have e: "CTS4_encrypt c P m = Some (C @ y @ ?t)"
    using assms C(2) [OF g, of "[]"] P x y yt by (simp add: CTS4_encrypt_def chained_def ecb_stop Let_def)
  have "covers ?go' (length (y @ ?t)) k" by (rule coversI) (use P(4,5) x(2) y(2) size_pos in auto)
  from C(2) [OF this, of "[]"]
  have l1: "ecb_loop (bc_size a) (bc_decrypt a) ?go' (C @ y @ ?t) [] = ecb_loop (bc_size a) (bc_decrypt a) ?go' (y @ ?t) Q" by simp
  have l2: "ecb_loop (bc_size a) (bc_decrypt a) ?go' (y @ ?t) Q = ecb_loop (bc_size a) (bc_decrypt a) ?go' ?t (Q @ ?w')"
    by (rule ecb_step) (use P(4,5) x(2) y in auto)
  have l3: "ecb_loop (bc_size a) (bc_decrypt a) ?go' ?t (Q @ ?w') = Some (?t, Q @ ?w')"
    using x(2) P(5) by (intro ecb_stop) auto
  have lt: "length ?t = ?r" using x(2) P(5) by simp
  have from_r: "length (Q @ ?w') + length ?t - bc_size a = length Q + ?r" unfolding length_append lw' [unfolded length_append] lt by simp
  have w1: "take (bc_size a - ?r) (drop (length Q + ?r) (Q @ ?w')) @ ?t = x" using P(3,5) x(2) by simp
  have w2: "memcpy_at (Q @ ?w') (length Q + ?r) ?w = P" using P(1,3,5) x(2) by (simp add: memcpy_at_def)
  have d: "CTS4_decrypt c (C @ y @ ?t) m' = Some P"
    using assms C(1) P(1,3,4,5) x(2) y(2) unfolding CTS4_decrypt_def chained_def
    by (simp add: l1 l2 l3 Let_def from_r [simplified] w1 [simplified] x(3) w2 [simplified] lt [simplified])
  show ?thesis using e d C(1) P x(2) y(2) by simp
qed

text \<open>One block alone in CTS4 is encrypted twice and decrypted once.\<close>

lemma CTS4_one_block:
  assumes "chained c 1" and "length P = bc_size a" and "bc_size a \<le> m" and "bc_size a \<le> m'"
  shows "\<exists>x y. bc_encrypt a P = Some x \<and> bc_encrypt a x = Some y \<and> CTS4_encrypt c P m = Some y \<and> CTS4_decrypt c y m' = Some x"
proof -
  obtain x where x: "bc_encrypt a P = Some x" "length x = bc_size a" using crypt [OF assms(2)] by blast
  obtain y where y: "bc_encrypt a x = Some y" "length y = bc_size a" "bc_decrypt a y = Some x" using crypt [OF x(2)] by blast
  show ?thesis using assms x y by (simp add: CTS4_encrypt_def CTS4_decrypt_def chained_def ecb_stop Let_def memcpy_at_def)
qed

end

context block_code
begin

lemma covers_last: "r \<le> bc_size a \<Longrightarrow> 0 < r \<Longrightarrow> covers (\<lambda>n. n > bc_size a) r k"
  by (rule coversI) auto

lemma CTS1_roundtrip:
  assumes "chained c 2" and "with_iv c" and "bc_size a < length P" and "length P \<le> m" and "length P \<le> m'"
  shows "\<exists>C. CTS1_encrypt c P m = Some C \<and> length C = length P \<and> CTS1_decrypt c C m' = Some P"
proof -
  obtain Q B R k where P: "P = Q @ B @ R" "length Q = bc_size a * k" "length B = bc_size a" "0 < length R" "length R \<le> bc_size a"
    using split_last_two [OF assms(3)] .
  have iv: "length (ch_iv c) = bc_size a" using assms(2) by (simp add: with_iv_def)
  obtain C lst where C: "length C = length Q" "length lst = bc_size a" "\<And>go R out. covers go (length R) k \<Longrightarrow>
       cbc_encrypt_loop a go (ch_iv c) (Q @ R) out = cbc_encrypt_loop a go lst R (out @ C) \<and>
       cbc_decrypt_loop a go (ch_iv c) (C @ R) out = cbc_decrypt_loop a go lst R (out @ Q)"
    using cbc_steps [OF P(2) iv] by blast
  let ?r = "length R" and ?go = "\<lambda>n. n > bc_size a" and ?go' = "\<lambda>n. n > 2 * bc_size a"
  have "length (xor_bytes lst B) = bc_size a" using C(2) P(3) by simp
  then obtain p where p: "bc_encrypt a (xor_bytes lst B) = Some p" "length p = bc_size a" "bc_decrypt a p = Some (xor_bytes lst B)"
    using crypt by blast
  let ?z = "R @ replicate (bc_size a - ?r) 0"
  have lz: "length (xor_bytes p ?z) = bc_size a" using p(2) P(5) by simp
  then obtain x where x: "bc_encrypt a (xor_bytes p ?z) = Some x" "length x = bc_size a" "bc_decrypt a x = Some (xor_bytes p ?z)"
    using crypt by blast
  have pad: "memcpy_at (replicate (bc_size a) 0) 0 R = ?z" by (simp add: memcpy_at_def)
  have g1: "covers ?go (length (B @ R)) k" by (rule coversI) (use P(3,4,5) size_pos in auto)
  have l1: "cbc_encrypt_loop a ?go (ch_iv c) (Q @ B @ R) [] = cbc_encrypt_loop a ?go lst (B @ R) C"
    using C(3) [OF g1, of "[]"] by simp
  have l2: "cbc_encrypt_loop a ?go lst (B @ R) C = cbc_encrypt_loop a ?go p R (C @ p)"
    by (rule cbc_step(1)) (use P(3,4) p(1) in auto)
  have l3: "cbc_encrypt_loop a ?go p R (C @ p) = Some (p, R, C @ p)" using P(5) by (intro cbc_stop) auto
  have wr: "memcpy_at ((C @ p) @ take ?r p) (length (C @ p) - bc_size a) x = C @ x @ take ?r p"
    using p(2) x(2) by (simp add: memcpy_at_def)
  have e: "CTS1_encrypt c P m = Some (C @ x @ take ?r p)"
    using assms P(3,4) unfolding CTS1_encrypt_def chained_def with_iv_def P(1)
    by (simp add: l1 l2 l3 pad x(1) wr [simplified])
  have g2: "covers ?go' (length (x @ take ?r p)) k" using covers_two [OF P(5,4)] p(2) x(2) P(5) by (simp add: min_absorb2)
  have d1: "cbc_decrypt_loop a ?go' (ch_iv c) (C @ x @ take ?r p) [] = cbc_decrypt_loop a ?go' lst (x @ take ?r p) Q"
    using C(3) [OF g2, of "[]"] by simp
  have d2: "cbc_decrypt_loop a ?go' lst (x @ take ?r p) Q = Some (lst, x @ take ?r p, Q)"
    using P(5) p(2) x(2) by (intro cbc_stop) auto
  have rp: "?r \<le> length p" using p(2) P(5) by simp
  have full: "take ?r p @ drop ?r (xor_bytes p ?z) = p"
  proof -
    have "drop ?r (xor_bytes p ?z) = drop ?r p"
      by (rule nth_equalityI) (use p(2) P(5) in \<open>simp_all add: nth_xor_bytes nth_append\<close>)
    then show ?thesis by simp
  qed
  have tail: "xor_bytes (take ?r (xor_bytes p ?z)) (take ?r p) = R"
    by (rule nth_equalityI) (use p(2) P(5) in \<open>simp_all add: nth_xor_bytes nth_append ac_simps\<close>)
  have undo: "xor_bytes (xor_bytes lst B) lst = B" using C(2) P(3) by simp
  have lc: "length (C @ x @ take ?r p) = length P" using C(1) P(1,3) p(2) x(2) rp by simp
  have "CTS1_decrypt c (C @ x @ take ?r p) m' = Some (Q @ B @ R)"
    using assms lc x(2) rp unfolding CTS1_decrypt_def chained_def with_iv_def
    by (simp add: d1 d2 Let_def x(3) full p(3) tail undo min_absorb2 del: xor_bytes_cancel)
  then show ?thesis using e lc P(1) by blast
qed

lemma CTS2_roundtrip:
  assumes "chained c 1" and "with_iv c" and "bc_size a \<le> length P" and "length P \<le> m" and "length P \<le> m'"
  shows "\<exists>C. CTS2_encrypt c P m = Some C \<and> length C = length P \<and> CTS2_decrypt c C m' = Some P"
proof (cases "length P mod bc_size a = 0")
  case True
  obtain k where k: "length P = bc_size a * k" using whole_blocks True by blast
  have iv: "length (ch_iv c) = bc_size a" using assms(2) by (simp add: with_iv_def)
  obtain C lst where C: "length C = length P" "\<And>go R out. covers go (length R) k \<Longrightarrow>
       cbc_encrypt_loop a go (ch_iv c) (P @ R) out = cbc_encrypt_loop a go lst R (out @ C) \<and>
       cbc_decrypt_loop a go (ch_iv c) (C @ R) out = cbc_decrypt_loop a go lst R (out @ P)"
    using cbc_steps [OF k iv] by blast
  have "covers (\<lambda>n. n \<ge> bc_size a) (length ([] :: byte list)) k" "covers (\<lambda>n. n > 0) (length ([] :: byte list)) k"
    using size_pos by (auto intro: coversI)
  from C(2) [OF this(1), of "[]"] C(2) [OF this(2), of "[]"] show ?thesis
    using assms C(1) True by (simp add: CTS2_encrypt_def CTS2_decrypt_def chained_def with_iv_def cbc_stop Let_def)
next
  case False
  have ls: "bc_size a < length P" using assms(3) False by (cases "bc_size a = length P") auto
  obtain Q B R k where P: "P = Q @ B @ R" "length Q = bc_size a * k" "length B = bc_size a" "0 < length R" "length R \<le> bc_size a"
    using split_last_two [OF ls] .
  have rs: "length R < bc_size a" using False P by (cases "length R = bc_size a") auto
  have md: "length P mod bc_size a = length R" using P rs by simp
  have iv: "length (ch_iv c) = bc_size a" using assms(2) by (simp add: with_iv_def)
  obtain C lst where C: "length C = length Q" "length lst = bc_size a" "\<And>go R out. covers go (length R) k \<Longrightarrow>
       cbc_encrypt_loop a go (ch_iv c) (Q @ R) out = cbc_encrypt_loop a go lst R (out @ C) \<and>
       cbc_decrypt_loop a go (ch_iv c) (C @ R) out = cbc_decrypt_loop a go lst R (out @ Q)"
    using cbc_steps [OF P(2) iv] by blast
  let ?r = "length R" and ?go = "\<lambda>n. n \<ge> bc_size a" and ?go' = "\<lambda>n. n > bc_size a + length R"
  have "length (xor_bytes lst B) = bc_size a" using C(2) P(3) by simp
  then obtain p where p: "bc_encrypt a (xor_bytes lst B) = Some p" "length p = bc_size a" "bc_decrypt a p = Some (xor_bytes lst B)"
    using crypt by blast
  let ?w = "xor_bytes (take ?r p) R @ drop ?r p"
  have lw: "length ?w = bc_size a" using p(2) P(5) by simp
  obtain x where x: "bc_encrypt a ?w = Some x" "length x = bc_size a" "bc_decrypt a x = Some ?w" using crypt [OF lw] by blast
  have g1: "covers ?go (length (B @ R)) k" by (rule coversI) (use P(3,4,5) size_pos in auto)
  have l1: "cbc_encrypt_loop a ?go (ch_iv c) (Q @ B @ R) [] = cbc_encrypt_loop a ?go lst (B @ R) C"
    using C(3) [OF g1, of "[]"] by simp
  have l2: "cbc_encrypt_loop a ?go lst (B @ R) C = cbc_encrypt_loop a ?go p R (C @ p)"
    by (rule cbc_step(1)) (use P(3,4) p(1) in auto)
  have l3: "cbc_encrypt_loop a ?go p R (C @ p) = Some (p, R, C @ p)" using rs by (intro cbc_stop) auto
  have wr: "memcpy_at (C @ p) (length (C @ p) - bc_size a + ?r) x = C @ take ?r p @ x"
    using p(2) x(2) by (simp add: memcpy_at_def)
  have e: "CTS2_encrypt c P m = Some (C @ take ?r p @ x)"
    using assms P(3,4) unfolding CTS2_encrypt_def chained_def with_iv_def P(1)
    by (simp add: l1 l2 l3 x(1) wr [simplified])
  have rp: "?r \<le> length p" using p(2) P(5) by simp
  have lc: "length (C @ take ?r p @ x) = length P" using C(1) P(1,3) p(2) x(2) rp by simp
  have g2: "covers ?go' (length (take ?r p @ x)) k" by (rule coversI) (use P(4,5) p(2) x(2) size_pos in auto)
  have d1: "cbc_decrypt_loop a ?go' (ch_iv c) (C @ take ?r p @ x) [] = cbc_decrypt_loop a ?go' lst (take ?r p @ x) Q"
    using C(3) [OF g2, of "[]"] by simp
  have d2: "cbc_decrypt_loop a ?go' lst (take ?r p @ x) Q = Some (lst, take ?r p @ x, Q)"
    using p(2) x(2) rp by (intro cbc_stop) auto
  have full: "memcpy_at ?w 0 (take ?r p) = p" using p(2) P(5) by (simp add: memcpy_at_def min_absorb2)
  have tail: "xor_bytes (take ?r p) (take ?r ?w) = R"
    using rp by (simp add: min_absorb2 del: xor_bytes_cancel) (rule xor_bytes_cancel; simp)
  have undo: "xor_bytes (xor_bytes lst B) lst = B" using C(2) P(3) by simp
  have "x \<noteq> []" using x(2) size_pos by auto
  then have "CTS2_decrypt c (C @ take ?r p @ x) m' = Some (Q @ B @ R)"
    using assms lc x(2) rp P(4) md unfolding CTS2_decrypt_def chained_def with_iv_def
    by (simp only: lc) (simp add: md d1 d2 Let_def x(3) full p(3) undo min_absorb2 xor_bytes_cancel_prefix del: xor_bytes_cancel)
  then show ?thesis using e lc P(1) by blast
qed

lemma DVS042_roundtrip:
  assumes "chained c 1" and "with_iv c" and "length (ch_shortIV c) = bc_size a" and "length P \<le> m" and "length P \<le> m'"
  shows "\<exists>C. DVS042_encrypt c P m = Some C \<and> length C = length P \<and> DVS042_decrypt c C m' = Some P"
proof -
  define iv where "iv = (if length P < bc_size a then ch_shortIV c else ch_iv c)"
  have iv: "length iv = bc_size a" using assms(2,3) by (simp add: iv_def with_iv_def)
  obtain Q R k where P: "P = Q @ R" "length Q = bc_size a * k" "length R = length P mod bc_size a"
    using split_blocks [of "length P mod bc_size a" P] by (metis minus_mod_self1 mod_less_eq_dividend minus_mod_eq_mult_div mod_mult_self1_is_0)
  have rs: "length R < bc_size a" using P(3) size_pos by simp
  let ?go = "\<lambda>n. n \<ge> bc_size a"
  obtain C lst where C: "length C = length Q" "length lst = bc_size a" "\<And>go R out. covers go (length R) k \<Longrightarrow>
       cbc_encrypt_loop a go iv (Q @ R) out = cbc_encrypt_loop a go lst R (out @ C) \<and>
       cbc_decrypt_loop a go iv (C @ R) out = cbc_decrypt_loop a go lst R (out @ Q)"
    using cbc_steps [OF P(2) iv] by blast
  obtain w where w: "bc_encrypt a lst = Some w" "length w = bc_size a" using crypt [OF C(2)] by blast
  have "covers ?go r k" for r by (rule coversI) simp
  note l = C(3) [OF this, of _ "[]"]
  have st: "cbc_encrypt_loop a ?go lst X Y = Some (lst, X, Y)" "cbc_decrypt_loop a ?go lst X Y = Some (lst, X, Y)"
    if "length X < bc_size a" for X Y using that by (intro cbc_stop; auto)+
  define T where "T = (if length R > 0 then xor_bytes w R else [])"
  have lT: "length T = length R" using w(2) rs by (simp add: T_def)
  have rdy: "DVS042_ready c n n'" if "n \<le> n'" for n n'
    using assms that by (simp add: DVS042_ready_def chained_def with_iv_def)
  have e: "DVS042_encrypt c P m = Some (C @ T)"
    using assms(1,4) rdy unfolding DVS042_encrypt_def chained_def
    by (simp add: iv_def [symmetric] Let_def del: length_greater_0_conv)
      (simp add: P(1) l st rs DVS042_residue_def w(1) T_def)
  have lc: "length (C @ T) = length P" using C(1) P(1) lT by simp
  have "DVS042_decrypt c (C @ T) m' = DVS042_residue a (cbc_decrypt_loop a ?go iv (C @ T) [])"
    using assms(1,5) rdy unfolding DVS042_decrypt_def chained_def lc by (simp add: iv_def [symmetric] Let_def)
  also have "\<dots> = Some (Q @ R)"
    using lT rs w(2) by (simp add: l st DVS042_residue_def w(1)) (auto simp: T_def xor_bytes_cancel_prefix)
  finally show ?thesis using e lc P(1) by blast
qed

end

section \<open>All modes\<close>

text \<open>A chaining object ready for use: its cipher is set and its initialization vectors have one block.\<close>

definition chain_ok :: "chain_mode \<Rightarrow> block_cipher \<Rightarrow> CipherChaining \<Rightarrow> bool" where
  "chain_ok m a c = (ch_algo c = Some a \<and> ch_block_size c = bc_size a \<and>
     (if m \<in> {CBC, CTS1, CTS2, DVS042}
      then ch_iv_min_size c = bc_size a \<and> ch_iv_max_size c = bc_size a \<and> length (ch_iv c) = bc_size a
      else ch_iv_min_size c = 0 \<and> ch_iv_max_size c = 0) \<and>
     (m = DVS042 \<longrightarrow> length (ch_shortIV c) = bc_size a) \<and>
     ch_work c = (case m of ECB \<Rightarrow> 0 | CTS1 \<Rightarrow> 2 | _ \<Rightarrow> 1) * bc_size a)"

lemma chain_new_ok: "chain_ok m a (chain_new m a)"
  by (cases m) (simp_all add: chain_ok_def CipherChaining_new_def Let_def ECB_new_def CBC_new_def CTS1_new_def
      CTS2_new_def CTS3_new_def CTS4_new_def DVS042_new_def)

lemma new_iv_size:
  "new_iv c iv = (True, x) \<Longrightarrow> ch_iv_min_size c \<le> length x \<and> length x \<le> ch_iv_max_size c"
  by (auto simp: new_iv_def split: option.splits if_splits)

lemma chain_setIV_ok:
  assumes "chain_ok m a c" and "chain_setIV m iv c = (True, c')"
  shows "chain_ok m a c'"
proof (cases "m = DVS042")
  case True
  obtain st x where x: "new_iv c iv = (st, x)" by (cases "new_iv c iv")
  have n: "new_iv (c\<lparr>ch_iv := x\<rparr>) iv = new_iv c iv" by (cases iv) (simp_all add: new_iv_def)
  have "st" "c' = c\<lparr>ch_iv := x, ch_shortIV := x\<rparr>"
    using assms(2) x n True by (auto simp: DVS042_setIV_def ch_setIV_def DVS042_setShortIV_def)
  then show ?thesis using assms(1) True x new_iv_size [of c iv x] by (simp add: chain_ok_def)
next
  case False
  obtain st x where x: "new_iv c iv = (st, x)" by (cases "new_iv c iv")
  have "st" "c' = c\<lparr>ch_iv := x\<rparr>" using assms(2) x False by (cases m; simp add: ch_setIV_def)+
  then show ?thesis using assms(1) False x new_iv_size [of c iv x] by (cases m) (simp_all add: chain_ok_def)
qed

lemma chain_setKey_ok:
  assumes "chain_ok m a c" and "ch_setKey f key rounds c = (st, c')" and "bc_size (snd (f key rounds a)) = bc_size a"
  shows "chain_ok m (snd (f key rounds a)) c'" "st = fst (f key rounds a)"
proof -
  obtain st' a' where f: "f key rounds a = (st', a')" by (cases "f key rounds a")
  have "ch_algo c = Some a" using assms(1) by (simp add: chain_ok_def)
  then have "c' = c\<lparr>ch_algo := Some a'\<rparr>" "st = st'" using assms(2) f by (simp_all add: ch_setKey_def)
  then show "chain_ok m (snd (f key rounds a)) c'" "st = fst (f key rounds a)"
    using assms(1,3) f by (cases m; simp add: chain_ok_def)+
qed

context block_code
begin

lemma chain_ok_facts:
  assumes "chain_ok m a c"
  shows "chained c 0" "m \<noteq> ECB \<Longrightarrow> chained c 1" "m = CTS1 \<Longrightarrow> chained c 2"
    "m \<in> {CBC, CTS1, CTS2, DVS042} \<Longrightarrow> with_iv c" "m = DVS042 \<Longrightarrow> length (ch_shortIV c) = bc_size a"
  using assms by (cases m; simp add: chain_ok_def chained_def with_iv_def)+

lemma modes_roundtrip:
  assumes "chain_ok m a c" and "minMessageSize m c \<le> length P" and "residueAllowed m \<or> length P mod bc_size a = 0"
    and "length P \<le> n" and "length P \<le> n'"
  shows "\<exists>C. chain_encrypt m c P n = Some C \<and> length C = length P \<and> chain_decrypt m c C n' = Some P"
proof -
  note f = chain_ok_facts [OF assms(1)]
  have s: "ch_block_size c = bc_size a" using assms(1) by (simp add: chain_ok_def)
  show ?thesis
  proof (cases m)
    case ECB
    then show ?thesis using ECB_roundtrip [OF f(1) _ assms(4,5)] assms(3) by simp
  next
    case CBC
    then show ?thesis using CBC_roundtrip [OF f(2) f(4) _ assms(4,5)] assms(3) by simp
  next
    case CTS1
    then show ?thesis using CTS1_roundtrip [OF f(3) f(4) _ assms(4,5)] assms(2) s by simp
  next
    case CTS2
    then show ?thesis using CTS2_roundtrip [OF f(2) f(4) _ assms(4,5)] assms(2) s by simp
  next
    case CTS3
    then show ?thesis using CTS3_roundtrip [OF f(2) _ assms(4,5)] assms(2) s by simp
  next
    case CTS4
    then show ?thesis using CTS4_roundtrip [OF f(2) _ assms(4,5)] assms(2) s by simp
  next
    case DVS042
    then show ?thesis using DVS042_roundtrip [OF f(2) f(4) f(5) assms(4,5)] by simp
  qed
qed

lemma in_place_roundtrip:
  assumes "chain_ok m a c" and "minMessageSize m c \<le> length P" and "residueAllowed m \<or> length P mod bc_size a = 0"
  shows "\<exists>C. chain_encryptInPlace m c P None = Some C \<and> length C = length P \<and> chain_decryptInPlace m c C None = Some P"
  using modes_roundtrip [OF assms order_refl order_refl] by (auto simp: chain_encryptInPlace_def chain_decryptInPlace_def)

end

text \<open>The size of the output buffer only matters when it is too small.\<close>

lemma enough_space:
  "length P \<le> n \<Longrightarrow> chain_encrypt m c P n = chain_encrypt m c P (length P)"
  "length P \<le> n \<Longrightarrow> chain_decrypt m c P n = chain_decrypt m c P (length P)"
  by (cases m; simp add: ECB_encrypt_def ECB_decrypt_def ECB_crypt_def CBC_encrypt_def CBC_decrypt_def
      CTS1_encrypt_def CTS1_decrypt_def CTS2_encrypt_def CTS2_decrypt_def CTS3_encrypt_def CTS3_decrypt_def CTS3_crypt_def
      CTS4_encrypt_def CTS4_decrypt_def DVS042_encrypt_def DVS042_decrypt_def DVS042_ready_def Let_def not_less cong: option.case_cong)+

text \<open>What every mode refuses: an output buffer that is too small, and sizes out of its range.\<close>

lemma modes_refuse:
  assumes "chain_ok m a c"
    and "n < length P \<or> length P < minMessageSize m c - of_bool (m = CTS4) \<and> P \<noteq> [] \<or>
      \<not> residueAllowed m \<and> length P mod ch_block_size c \<noteq> 0"
  shows "chain_encrypt m c P n = None" "chain_decrypt m c P n = None"
  using assms
  by (cases m; auto simp: chain_ok_def ECB_encrypt_def ECB_decrypt_def ECB_crypt_def CBC_encrypt_def CBC_decrypt_def
      CTS1_encrypt_def CTS1_decrypt_def CTS2_encrypt_def CTS2_decrypt_def CTS3_encrypt_def CTS3_decrypt_def CTS3_crypt_def
      CTS4_encrypt_def CTS4_decrypt_def DVS042_encrypt_def DVS042_decrypt_def DVS042_ready_def Let_def)+

end
