(* ===== verification/Ts_DES.thy ===== *)
theory Ts_DES
  imports Ts_DES_Tables Ts_Chaining
begin

text \<open>
  DES and triple DES: \<open>tsDES.cpp\<close> and \<open>tsTDES.cpp\<close>. A block is two 32-bit words. The scheduled
  keys are 32 words, two for each round.
\<close>

section \<open>Bytes of a word, and rotation\<close>

definition BYTE :: "u32 \<Rightarrow> nat \<Rightarrow> nat" where
  "BYTE x n = unat (drop_bit (8 * n) x AND 255)"

definition RORc :: "u32 \<Rightarrow> nat \<Rightarrow> u32" where
  "RORc word i = (drop_bit (i mod 32) word OR push_bit (32 - i mod 32) word) AND 0xFFFFFFFF"

section \<open>The key schedule\<close>

datatype des_mode = EN0 | DE1

definition cookey :: "u32 list \<Rightarrow> u32 list" where
  "cookey raw = concat (map (\<lambda>i.
     let raw0 = raw ! (2 * i); raw1 = raw ! (2 * i + 1)
     in [push_bit 6 (raw0 AND 0x00FC0000) OR push_bit 10 (raw0 AND 0x00000FC0) OR
         drop_bit 10 (raw1 AND 0x00FC0000) OR drop_bit 6 (raw1 AND 0x00000FC0),
         push_bit 12 (raw0 AND 0x0003F000) OR push_bit 16 (raw0 AND 0x0000003F) OR
         drop_bit 4 (raw1 AND 0x0003F000) OR (raw1 AND 0x0000003F)]) [0..<16])"

definition des_pc1m :: "byte list \<Rightarrow> nat list" where
  "des_pc1m key = map (\<lambda>j.
     let l = pc1 ! j; m = l mod 8
     in if ucast (key ! (l div 8)) AND bytebit ! m = bytebit ! m then 1 else 0) [0..<56]"

definition des_pcr :: "nat list \<Rightarrow> nat \<Rightarrow> nat list" where
  "des_pcr pc1m i = map (\<lambda>j.
     let l = j + totrot ! i
     in if j < 28 then (if l < 28 then pc1m ! l else pc1m ! (l - 28))
        else (if l < 56 then pc1m ! l else pc1m ! (l - 28))) [0..<56]"

definition des_kn :: "nat list \<Rightarrow> u32 \<times> u32" where
  "des_kn pcr = foldl (\<lambda>(km, kn) j.
     (if pcr ! (pc2 ! j) \<noteq> 0 then km OR bigbyte ! j else km,
      if pcr ! (pc2 ! (j + 24)) \<noteq> 0 then kn OR bigbyte ! j else kn)) (0, 0) [0..<24]"

definition deskey :: "byte list \<Rightarrow> des_mode \<Rightarrow> u32 list" where
  "deskey key edf =
     (let pc1m = des_pc1m key
      in cookey (foldl (\<lambda>kn i.
           let m = (if edf = DE1 then (15 - i) * 2 else i * 2);
               (km, kl) = des_kn (des_pcr pc1m i)
           in kn[m := km, m + 1 := kl]) (replicate 32 0) [0..<16]))"

section \<open>The block operation\<close>

definition des_initial :: "u32 \<Rightarrow> u32 \<Rightarrow> u64" where
  "des_initial leftt right =
     des_ip0 ! BYTE leftt 0 XOR des_ip1 ! BYTE leftt 1 XOR des_ip2 ! BYTE leftt 2 XOR des_ip3 ! BYTE leftt 3 XOR
     des_ip4 ! BYTE right 0 XOR des_ip5 ! BYTE right 1 XOR des_ip6 ! BYTE right 2 XOR des_ip7 ! BYTE right 3"

definition des_final :: "u32 \<Rightarrow> u32 \<Rightarrow> u64" where
  "des_final leftt right =
     des_fp0 ! BYTE leftt 0 XOR des_fp1 ! BYTE leftt 1 XOR des_fp2 ! BYTE leftt 2 XOR des_fp3 ! BYTE leftt 3 XOR
     des_fp4 ! BYTE right 0 XOR des_fp5 ! BYTE right 1 XOR des_fp6 ! BYTE right 2 XOR des_fp7 ! BYTE right 3"

definition des_box :: "u32 list \<Rightarrow> u32 \<Rightarrow> nat \<Rightarrow> u32" where
  "des_box SP work n = SP ! unat (drop_bit n work AND 0x3f)"

text \<open>What a half round adds to the other half.\<close>

definition des_half :: "u32 \<Rightarrow> u32 \<Rightarrow> u32 \<Rightarrow> u32" where
  "des_half x k0 k1 =
     (let work = RORc x 4 XOR k0; work' = x XOR k1
      in des_box SP7 work 0 XOR des_box SP5 work 8 XOR des_box SP3 work 16 XOR des_box SP1 work 24 XOR
         (des_box SP8 work' 0 XOR des_box SP6 work' 8 XOR des_box SP4 work' 16 XOR des_box SP2 work' 24))"

definition des_round :: "u32 list \<Rightarrow> u32 \<times> u32 \<Rightarrow> nat \<Rightarrow> u32 \<times> u32" where
  "des_round keys = (\<lambda>(leftt, right) r.
     let leftt' = leftt XOR des_half right (keys ! (4 * r)) (keys ! (4 * r + 1));
         right' = right XOR des_half leftt' (keys ! (4 * r + 2)) (keys ! (4 * r + 3))
     in (leftt', right'))"

definition desfunc :: "u32 \<times> u32 \<Rightarrow> u32 list \<Rightarrow> u32 \<times> u32" where
  "desfunc block keys =
     (case block of (leftt, right) \<Rightarrow>
        let tmp = des_initial leftt right;
            (leftt', right') = foldl (des_round keys) (ucast (drop_bit 32 tmp), ucast (tmp AND 0xFFFFFFFF)) [0..<8];
            tmp' = des_final leftt' right'
        in (ucast (tmp' AND 0xFFFFFFFF), ucast (drop_bit 32 tmp')))"

section \<open>The ciphers\<close>

definition BLOCK_SIZE :: nat where "BLOCK_SIZE = 8"
definition DES_KEY_SIZE :: nat where "DES_KEY_SIZE = 8"
definition TDES_KEY_SIZE :: nat where "TDES_KEY_SIZE = 24"
definition ROUNDS :: nat where "ROUNDS = 16"

record DES =
  des_ek :: "u32 list"
  des_dk :: "u32 list"

definition DES_setKey :: "byte list \<Rightarrow> nat \<Rightarrow> DES \<Rightarrow> bool \<times> DES" where
  "DES_setKey key rounds d =
     (if length key \<noteq> DES_KEY_SIZE \<or> (rounds \<noteq> 0 \<and> rounds \<noteq> ROUNDS) then (False, d)
      else (True, d\<lparr>des_ek := deskey key EN0, des_dk := deskey key DE1\<rparr>))"

definition des_work :: "byte list \<Rightarrow> u32 \<times> u32" where
  "des_work b = (GetUInt32 b 0, GetUInt32 b 4)"

definition des_out :: "u32 \<times> u32 \<Rightarrow> byte list" where
  "des_out = (\<lambda>(w0, w1). PutUInt32 (PutUInt32 (replicate 8 0) 0 w0) 4 w1)"

definition DES_encrypt :: "DES \<Rightarrow> byte list \<Rightarrow> nat \<Rightarrow> byte list option" where
  "DES_encrypt d plain cipher_maxsize =
     (if length plain \<noteq> BLOCK_SIZE \<or> cipher_maxsize < BLOCK_SIZE then None
      else Some (des_out (desfunc (des_work plain) (des_ek d))))"

definition DES_decrypt :: "DES \<Rightarrow> byte list \<Rightarrow> nat \<Rightarrow> byte list option" where
  "DES_decrypt d cipher plain_maxsize =
     (if length cipher \<noteq> BLOCK_SIZE \<or> plain_maxsize < BLOCK_SIZE then None
      else Some (des_out (desfunc (des_work cipher) (des_dk d))))"

record TDES =
  tdes_ek :: "u32 list list"
  tdes_dk :: "u32 list list"

definition TDES_setKey :: "byte list \<Rightarrow> nat \<Rightarrow> TDES \<Rightarrow> bool \<times> TDES" where
  "TDES_setKey key rounds t =
     (if length key \<noteq> TDES_KEY_SIZE \<or> (rounds \<noteq> 0 \<and> rounds \<noteq> ROUNDS) then (False, t)
      else (True, t\<lparr>tdes_ek := [deskey key EN0, deskey (drop 8 key) DE1, deskey (drop 16 key) EN0],
                    tdes_dk := [deskey (drop 16 key) DE1, deskey (drop 8 key) EN0, deskey key DE1]\<rparr>))"

definition TDES_crypt :: "u32 list list \<Rightarrow> byte list \<Rightarrow> nat \<Rightarrow> byte list option" where
  "TDES_crypt ks inp maxsize =
     (if length inp \<noteq> BLOCK_SIZE \<or> maxsize < BLOCK_SIZE then None
      else Some (des_out (desfunc (desfunc (desfunc (des_work inp) (ks ! 0)) (ks ! 1)) (ks ! 2))))"

definition TDES_encrypt :: "TDES \<Rightarrow> byte list \<Rightarrow> nat \<Rightarrow> byte list option" where
  "TDES_encrypt t = TDES_crypt (tdes_ek t)"

definition TDES_decrypt :: "TDES \<Rightarrow> byte list \<Rightarrow> nat \<Rightarrow> byte list option" where
  "TDES_decrypt t = TDES_crypt (tdes_dk t)"

text \<open>The two ciphers behind the interface of the chaining modes.\<close>

definition DES_cipher :: "DES \<Rightarrow> block_cipher" where
  "DES_cipher d = \<lparr>bc_size = BLOCK_SIZE, bc_encrypt = (\<lambda>b. DES_encrypt d b BLOCK_SIZE), bc_decrypt = (\<lambda>b. DES_decrypt d b BLOCK_SIZE)\<rparr>"

definition TDES_cipher :: "TDES \<Rightarrow> block_cipher" where
  "TDES_cipher t = \<lparr>bc_size = BLOCK_SIZE, bc_encrypt = (\<lambda>b. TDES_encrypt t b BLOCK_SIZE), bc_decrypt = (\<lambda>b. TDES_decrypt t b BLOCK_SIZE)\<rparr>"

section \<open>The permutation tables\<close>

text \<open>A table over the bytes that sends bit \<open>b\<close> of its index to bit \<open>ps ! b\<close>.\<close>

definition doubled :: "u64 list \<Rightarrow> u64 list" where
  "doubled cs = foldl (\<lambda>xs c. xs @ map (\<lambda>x. c + x) xs) [0] cs"

lemma doubled_simps: "doubled [] = [0]" "doubled (cs @ [c]) = doubled cs @ map ((+) c) (doubled cs)"
  by (simp_all add: doubled_def)

lemma length_doubled: "length (doubled cs) = 2 ^ length cs"
  by (induction cs rule: rev_induct) (simp_all add: doubled_simps)

lemma doubled_bit:
  assumes "distinct ps" and "\<forall>p \<in> set ps. p < 64" and "v < 2 ^ length ps"
  shows "bit (doubled (map (\<lambda>p. 2 ^ p) ps) ! v) n = (\<exists>b < length ps. bit v b \<and> ps ! b = n)"
  using assms
proof (induction ps arbitrary: v n rule: rev_induct)
  case Nil
  then show ?case by (simp add: doubled_simps)
next
  case (snoc p ps)
  let ?k = "length ps" and ?d = "doubled (map (\<lambda>p. 2 ^ p) ps)"
  have IH: "bit (?d ! u) m = (\<exists>b < ?k. bit u b \<and> ps ! b = m)" if "u < 2 ^ ?k" for u m
    using snoc that by simp
  have l: "length ?d = 2 ^ ?k" by (simp add: length_doubled)
  show ?case
  proof (cases "v < 2 ^ ?k")
    case True
    then have "\<not> bit v ?k" by (simp add: bit_iff_odd)
    then have "(\<exists>b < Suc ?k. bit v b \<and> (ps @ [p]) ! b = n) = (\<exists>b < ?k. bit v b \<and> ps ! b = n)"
      by (auto simp: nth_append less_Suc_eq)
    then show ?thesis using True IH [OF True] l by (simp add: doubled_simps nth_append)
  next
    case False
    define u where "u = v - 2 ^ ?k"
    have v: "v = 2 ^ ?k + u" "u < 2 ^ ?k" using False snoc.prems(3) by (simp_all add: u_def)
    have bv: "bit v b = (b = ?k \<or> bit u b)" if "b \<le> ?k" for b
    proof -
      have nu: "\<not> bit u ?k" using v(2) by (simp add: bit_iff_odd)
      have "(2 :: nat) ^ ?k + u = 2 ^ ?k OR u"
        by (rule disjunctive_add_eq_or) (rule bit_eqI, use nu in \<open>auto simp: bit_simps\<close>)
      then show ?thesis using v(1) by (auto simp: bit_simps)
    qed
    have np: "\<not> bit (?d ! u) p"
      using IH [OF v(2)] snoc.prems(1) by auto
    have p: "p < 64" using snoc.prems(2) by simp
    have "2 ^ p + ?d ! u = 2 ^ p OR ?d ! u"
      by (rule disjunctive_add_eq_or) (rule bit_eqI, use np in \<open>auto simp: bit_simps\<close>)
    then have "doubled (map (\<lambda>p. 2 ^ p) (ps @ [p])) ! v = 2 ^ p OR ?d ! u"
      using v l by (simp add: doubled_simps nth_append)
    then have "bit (doubled (map (\<lambda>p. 2 ^ p) (ps @ [p])) ! v) n = (n = p \<or> bit (?d ! u) n)"
      using p by (auto simp: bit_simps)
    also have "\<dots> = (\<exists>b < length (ps @ [p]). bit v b \<and> (ps @ [p]) ! b = n)"
      unfolding IH [OF v(2)] using bv by (auto simp: nth_append less_Suc_eq)
    finally show ?thesis .
  qed
qed


text \<open>Where the initial permutation sends each bit of the block.\<close>

definition initial_bits :: "nat list" where
  "initial_bits = [
    36, 4, 44, 12, 52, 20, 60, 28,
    35, 3, 43, 11, 51, 19, 59, 27,
    34, 2, 42, 10, 50, 18, 58, 26,
    33, 1, 41, 9, 49, 17, 57, 25,
    40, 8, 48, 16, 56, 24, 32, 0,
    39, 7, 47, 15, 55, 23, 63, 31,
    38, 6, 46, 14, 54, 22, 62, 30,
    37, 5, 45, 13, 53, 21, 61, 29]"

lemma des_ip0_doubled: "des_ip0 = doubled (map (\<lambda>p. 2 ^ p) [36, 4, 44, 12, 52, 20, 60, 28])"
  unfolding doubled_def des_ip0_def by simp

lemma des_ip1_doubled: "des_ip1 = doubled (map (\<lambda>p. 2 ^ p) [35, 3, 43, 11, 51, 19, 59, 27])"
  unfolding doubled_def des_ip1_def by simp

lemma des_ip2_doubled: "des_ip2 = doubled (map (\<lambda>p. 2 ^ p) [34, 2, 42, 10, 50, 18, 58, 26])"
  unfolding doubled_def des_ip2_def by simp

lemma des_ip3_doubled: "des_ip3 = doubled (map (\<lambda>p. 2 ^ p) [33, 1, 41, 9, 49, 17, 57, 25])"
  unfolding doubled_def des_ip3_def by simp

lemma des_ip4_doubled: "des_ip4 = doubled (map (\<lambda>p. 2 ^ p) [40, 8, 48, 16, 56, 24, 32, 0])"
  unfolding doubled_def des_ip4_def by simp

lemma des_ip5_doubled: "des_ip5 = doubled (map (\<lambda>p. 2 ^ p) [39, 7, 47, 15, 55, 23, 63, 31])"
  unfolding doubled_def des_ip5_def by simp

lemma des_ip6_doubled: "des_ip6 = doubled (map (\<lambda>p. 2 ^ p) [38, 6, 46, 14, 54, 22, 62, 30])"
  unfolding doubled_def des_ip6_def by simp

lemma des_ip7_doubled: "des_ip7 = doubled (map (\<lambda>p. 2 ^ p) [37, 5, 45, 13, 53, 21, 61, 29])"
  unfolding doubled_def des_ip7_def by simp

text \<open>Where the final permutation sends each bit of the block.\<close>

definition final_bits :: "nat list" where
  "final_bits = [
    39, 25, 17, 9, 1, 57, 49, 41,
    33, 27, 19, 11, 3, 59, 51, 43,
    35, 29, 21, 13, 5, 61, 53, 45,
    37, 31, 23, 15, 7, 63, 55, 47,
    38, 24, 16, 8, 0, 56, 48, 40,
    32, 26, 18, 10, 2, 58, 50, 42,
    34, 28, 20, 12, 4, 60, 52, 44,
    36, 30, 22, 14, 6, 62, 54, 46]"

lemma des_fp0_doubled: "des_fp0 = doubled (map (\<lambda>p. 2 ^ p) [39, 25, 17, 9, 1, 57, 49, 41])"
  unfolding doubled_def des_fp0_def by simp

lemma des_fp1_doubled: "des_fp1 = doubled (map (\<lambda>p. 2 ^ p) [33, 27, 19, 11, 3, 59, 51, 43])"
  unfolding doubled_def des_fp1_def by simp

lemma des_fp2_doubled: "des_fp2 = doubled (map (\<lambda>p. 2 ^ p) [35, 29, 21, 13, 5, 61, 53, 45])"
  unfolding doubled_def des_fp2_def by simp

lemma des_fp3_doubled: "des_fp3 = doubled (map (\<lambda>p. 2 ^ p) [37, 31, 23, 15, 7, 63, 55, 47])"
  unfolding doubled_def des_fp3_def by simp

lemma des_fp4_doubled: "des_fp4 = doubled (map (\<lambda>p. 2 ^ p) [38, 24, 16, 8, 0, 56, 48, 40])"
  unfolding doubled_def des_fp4_def by simp

lemma des_fp5_doubled: "des_fp5 = doubled (map (\<lambda>p. 2 ^ p) [32, 26, 18, 10, 2, 58, 50, 42])"
  unfolding doubled_def des_fp5_def by simp

lemma des_fp6_doubled: "des_fp6 = doubled (map (\<lambda>p. 2 ^ p) [34, 28, 20, 12, 4, 60, 52, 44])"
  unfolding doubled_def des_fp6_def by simp

lemma des_fp7_doubled: "des_fp7 = doubled (map (\<lambda>p. 2 ^ p) [36, 30, 22, 14, 6, 62, 54, 46])"
  unfolding doubled_def des_fp7_def by simp

lemma BYTE_bit: "bit (BYTE x k) b = (b < 8 \<and> bit x (8 * k + b))"
proof -
  have m: "(255 :: u32) = mask 8" by (simp add: mask_eq_exp_minus_1)
  show ?thesis unfolding BYTE_def m bit_unsigned_iff bit_and_iff bit_mask_iff bit_drop_bit_eq o_def
    by (auto dest: bit_imp_le_length)
qed

lemma BYTE_bound: "BYTE x k < 2 ^ 8"
proof -
  have m: "(255 :: u32) = mask 8" by (simp add: mask_eq_exp_minus_1)
  have "BYTE x k = take_bit 8 (unat (drop_bit (8 * k) x))"
    unfolding BYTE_def m by (simp only: take_bit_eq_mask [symmetric] unsigned_take_bit_eq)
  then show ?thesis by (simp only: take_bit_nat_less_exp)
qed

text \<open>A block as one word of 64 bits: the second half is its upper part.\<close>

definition join :: "u32 \<Rightarrow> u32 \<Rightarrow> u64" where
  "join leftt right = push_bit 32 (ucast right) OR ucast leftt"

lemma join_bit: "n < 64 \<Longrightarrow> bit (join l r) n = (if n < 32 then bit l n else bit r (n - 32))"
  unfolding join_def bit_or_iff bit_push_bit_iff bit_unsigned_iff
  using bit_imp_le_length [of l n] by (auto dest: bit_imp_le_length)

lemma halves_bit:
  "n < 32 \<Longrightarrow> bit (ucast (drop_bit 32 x) :: u32) n = bit (x :: u64) (n + 32)"
  "n < 32 \<Longrightarrow> bit (ucast (x AND 0xFFFFFFFF) :: u32) n = bit (x :: u64) n"
proof -
  assume n: "n < 32"
  have m: "(0xFFFFFFFF :: u64) = mask 32" by (simp add: mask_eq_exp_minus_1)
  show "bit (ucast (drop_bit 32 x) :: u32) n = bit x (n + 32)"
    using n unfolding bit_unsigned_iff bit_drop_bit_eq o_def by (simp add: add.commute)
  show "bit (ucast (x AND 0xFFFFFFFF) :: u32) n = bit x n"
    using n unfolding bit_unsigned_iff m bit_and_iff bit_mask_iff by simp
qed

lemma join_halves:
  "join (ucast (x AND 0xFFFFFFFF)) (ucast (drop_bit 32 x)) = x"
  "ucast (join l r AND 0xFFFFFFFF) = l" "ucast (drop_bit 32 (join l r)) = r"
proof -
  show "join (ucast (x AND 0xFFFFFFFF)) (ucast (drop_bit 32 x)) = x"
  proof (rule bit_word_eqI)
    fix n assume "n < LENGTH(64)"
    then show "bit (join (ucast (x AND 0xFFFFFFFF)) (ucast (drop_bit 32 x))) n = bit x n"
      using join_bit [of n] halves_bit(1) [of "n - 32" x] halves_bit(2) [of n x] by simp
  qed
  show "ucast (join l r AND 0xFFFFFFFF) = l"
    by (rule bit_word_eqI) (use halves_bit(2) [of _ "join l r"] join_bit [of _ l r] in simp)
  show "ucast (drop_bit 32 (join l r)) = r"
    by (rule bit_word_eqI) (use halves_bit(1) [of _ "join l r"] join_bit [of _ l r] in simp)
qed

text \<open>One entry of a table of a list of 64 positions: it holds the bit of one position or nothing.\<close>

lemma table_entry_bit:
  assumes "T = doubled (map (\<lambda>p. 2 ^ p) (take 8 (drop (8 * j) P)))" and "length P = 64" and "distinct P"
    and "\<forall>p \<in> set P. p < 64" and "j < 8" and "v < 2 ^ 8" and "m < 64"
  shows "bit (T ! v) (P ! m) = (j = m div 8 \<and> bit v (m mod 8))"
proof -
  let ?ps = "take 8 (drop (8 * j) P)"
  have ps: "length ?ps = 8" "distinct ?ps" "\<forall>p \<in> set ?ps. p < 64"
    using assms(2-5) by (auto dest: in_set_takeD in_set_dropD)
  have nt: "?ps ! b = P ! (8 * j + b)" if "b < 8" for b using that assms(2,5) by simp
  have "bit (T ! v) (P ! m) = (\<exists>b < 8. bit v b \<and> P ! (8 * j + b) = P ! m)"
    using doubled_bit [OF ps(2,3), of v "P ! m"] nt assms(6) unfolding assms(1) ps(1) by auto
  also have "\<dots> = (\<exists>b < 8. bit v b \<and> 8 * j + b = m)"
    using assms(2,3,5,7) by (auto simp: nth_eq_iff_index_eq)
  also have "\<dots> = (j = m div 8 \<and> bit v (m mod 8))"
    by (auto intro!: exI [of _ "m mod 8"])
  finally show ?thesis .
qed

lemma byte_index: "(m :: nat) < 64 \<Longrightarrow> m div 8 \<in> {0, 1, 2, 3, 4, 5, 6, 7}"
  by auto


lemma initial_bits_facts: "length initial_bits = 64" "distinct initial_bits" "\<forall>p \<in> set initial_bits. p < 64"
  by (simp_all add: initial_bits_def)

lemma des_initial_bit:
  assumes m: "m < 64"
  shows "bit (des_initial leftt right) (initial_bits ! m) = bit (join leftt right) m"
proof -
  note P = initial_bits_facts
  have t0: "bit (des_ip0 ! BYTE leftt 0) (initial_bits ! m) = (0 = m div 8 \<and> bit leftt (8 * 0 + m mod 8))"
    using table_entry_bit [of des_ip0 0 initial_bits, OF _ P(1-3) _ BYTE_bound m] BYTE_bit des_ip0_doubled by (simp add: initial_bits_def)
  have t1: "bit (des_ip1 ! BYTE leftt 1) (initial_bits ! m) = (1 = m div 8 \<and> bit leftt (8 * 1 + m mod 8))"
    using table_entry_bit [of des_ip1 1 initial_bits, OF _ P(1-3) _ BYTE_bound m] BYTE_bit des_ip1_doubled by (simp add: initial_bits_def)
  have t2: "bit (des_ip2 ! BYTE leftt 2) (initial_bits ! m) = (2 = m div 8 \<and> bit leftt (8 * 2 + m mod 8))"
    using table_entry_bit [of des_ip2 2 initial_bits, OF _ P(1-3) _ BYTE_bound m] BYTE_bit des_ip2_doubled by (simp add: initial_bits_def)
  have t3: "bit (des_ip3 ! BYTE leftt 3) (initial_bits ! m) = (3 = m div 8 \<and> bit leftt (8 * 3 + m mod 8))"
    using table_entry_bit [of des_ip3 3 initial_bits, OF _ P(1-3) _ BYTE_bound m] BYTE_bit des_ip3_doubled by (simp add: initial_bits_def)
  have t4: "bit (des_ip4 ! BYTE right 0) (initial_bits ! m) = (4 = m div 8 \<and> bit right (8 * 0 + m mod 8))"
    using table_entry_bit [of des_ip4 4 initial_bits, OF _ P(1-3) _ BYTE_bound m] BYTE_bit des_ip4_doubled by (simp add: initial_bits_def)
  have t5: "bit (des_ip5 ! BYTE right 1) (initial_bits ! m) = (5 = m div 8 \<and> bit right (8 * 1 + m mod 8))"
    using table_entry_bit [of des_ip5 5 initial_bits, OF _ P(1-3) _ BYTE_bound m] BYTE_bit des_ip5_doubled by (simp add: initial_bits_def)
  have t6: "bit (des_ip6 ! BYTE right 2) (initial_bits ! m) = (6 = m div 8 \<and> bit right (8 * 2 + m mod 8))"
    using table_entry_bit [of des_ip6 6 initial_bits, OF _ P(1-3) _ BYTE_bound m] BYTE_bit des_ip6_doubled by (simp add: initial_bits_def)
  have t7: "bit (des_ip7 ! BYTE right 3) (initial_bits ! m) = (7 = m div 8 \<and> bit right (8 * 3 + m mod 8))"
    using table_entry_bit [of des_ip7 7 initial_bits, OF _ P(1-3) _ BYTE_bound m] BYTE_bit des_ip7_doubled by (simp add: initial_bits_def)
  have j: "bit (join leftt right) m = (if m div 8 < 4 then bit leftt (8 * (m div 8) + m mod 8) else bit right (8 * (m div 8 - 4) + m mod 8))"
  proof -
    have "8 * (m div 8 - 4) + m mod 8 = m - 32" if "\<not> m div 8 < 4" using that by (simp add: algebra_simps)
    then show ?thesis using join_bit [OF m, of leftt right] by (auto simp: div_less_iff_less_mult)
  qed
  show ?thesis unfolding des_initial_def bit_xor_iff t0 t1 t2 t3 t4 t5 t6 t7 j
    using byte_index [OF m] by (elim insertE emptyE; simp)
qed


lemma final_bits_facts: "length final_bits = 64" "distinct final_bits" "\<forall>p \<in> set final_bits. p < 64"
  by (simp_all add: final_bits_def)

lemma des_final_bit:
  assumes m: "m < 64"
  shows "bit (des_final leftt right) (final_bits ! m) = bit (join leftt right) m"
proof -
  note P = final_bits_facts
  have t0: "bit (des_fp0 ! BYTE leftt 0) (final_bits ! m) = (0 = m div 8 \<and> bit leftt (8 * 0 + m mod 8))"
    using table_entry_bit [of des_fp0 0 final_bits, OF _ P(1-3) _ BYTE_bound m] BYTE_bit des_fp0_doubled by (simp add: final_bits_def)
  have t1: "bit (des_fp1 ! BYTE leftt 1) (final_bits ! m) = (1 = m div 8 \<and> bit leftt (8 * 1 + m mod 8))"
    using table_entry_bit [of des_fp1 1 final_bits, OF _ P(1-3) _ BYTE_bound m] BYTE_bit des_fp1_doubled by (simp add: final_bits_def)
  have t2: "bit (des_fp2 ! BYTE leftt 2) (final_bits ! m) = (2 = m div 8 \<and> bit leftt (8 * 2 + m mod 8))"
    using table_entry_bit [of des_fp2 2 final_bits, OF _ P(1-3) _ BYTE_bound m] BYTE_bit des_fp2_doubled by (simp add: final_bits_def)
  have t3: "bit (des_fp3 ! BYTE leftt 3) (final_bits ! m) = (3 = m div 8 \<and> bit leftt (8 * 3 + m mod 8))"
    using table_entry_bit [of des_fp3 3 final_bits, OF _ P(1-3) _ BYTE_bound m] BYTE_bit des_fp3_doubled by (simp add: final_bits_def)
  have t4: "bit (des_fp4 ! BYTE right 0) (final_bits ! m) = (4 = m div 8 \<and> bit right (8 * 0 + m mod 8))"
    using table_entry_bit [of des_fp4 4 final_bits, OF _ P(1-3) _ BYTE_bound m] BYTE_bit des_fp4_doubled by (simp add: final_bits_def)
  have t5: "bit (des_fp5 ! BYTE right 1) (final_bits ! m) = (5 = m div 8 \<and> bit right (8 * 1 + m mod 8))"
    using table_entry_bit [of des_fp5 5 final_bits, OF _ P(1-3) _ BYTE_bound m] BYTE_bit des_fp5_doubled by (simp add: final_bits_def)
  have t6: "bit (des_fp6 ! BYTE right 2) (final_bits ! m) = (6 = m div 8 \<and> bit right (8 * 2 + m mod 8))"
    using table_entry_bit [of des_fp6 6 final_bits, OF _ P(1-3) _ BYTE_bound m] BYTE_bit des_fp6_doubled by (simp add: final_bits_def)
  have t7: "bit (des_fp7 ! BYTE right 3) (final_bits ! m) = (7 = m div 8 \<and> bit right (8 * 3 + m mod 8))"
    using table_entry_bit [of des_fp7 7 final_bits, OF _ P(1-3) _ BYTE_bound m] BYTE_bit des_fp7_doubled by (simp add: final_bits_def)
  have j: "bit (join leftt right) m = (if m div 8 < 4 then bit leftt (8 * (m div 8) + m mod 8) else bit right (8 * (m div 8 - 4) + m mod 8))"
  proof -
    have "8 * (m div 8 - 4) + m mod 8 = m - 32" if "\<not> m div 8 < 4" using that by (simp add: algebra_simps)
    then show ?thesis using join_bit [OF m, of leftt right] by (auto simp: div_less_iff_less_mult)
  qed
  show ?thesis unfolding des_final_def bit_xor_iff t0 t1 t2 t3 t4 t5 t6 t7 j
    using byte_index [OF m] by (elim insertE emptyE; simp)
qed


text \<open>The two permutations undo each other.\<close>

lemma permutation_undo: "map (\<lambda>k. initial_bits ! (final_bits ! k)) [0..<64] = [0..<64]"
  "map (\<lambda>k. final_bits ! (initial_bits ! k)) [0..<64] = [0..<64]"
  by code_simp+

lemma permutation_undo_nth: "k < 64 \<Longrightarrow> initial_bits ! (final_bits ! k) = k \<and> final_bits ! k < 64"
  "k < 64 \<Longrightarrow> final_bits ! (initial_bits ! k) = k \<and> initial_bits ! k < 64"
proof -
  assume k: "k < 64"
  show "initial_bits ! (final_bits ! k) = k \<and> final_bits ! k < 64"
    using arg_cong [OF permutation_undo(1), of "\<lambda>xs. xs ! k"] k final_bits_facts by simp
  show "final_bits ! (initial_bits ! k) = k \<and> initial_bits ! k < 64"
    using arg_cong [OF permutation_undo(2), of "\<lambda>xs. xs ! k"] k initial_bits_facts by simp
qed

lemma des_final_initial:
  "des_final (ucast (des_initial l r AND 0xFFFFFFFF)) (ucast (drop_bit 32 (des_initial l r))) = join l r"
proof (rule bit_word_eqI)
  fix n assume "n < LENGTH(64)"
  then have n: "n < 64" by simp
  let ?x = "des_initial l r"
  have "bit (des_final (ucast (?x AND 0xFFFFFFFF)) (ucast (drop_bit 32 ?x))) (final_bits ! (initial_bits ! n)) =
      bit (join (ucast (?x AND 0xFFFFFFFF)) (ucast (drop_bit 32 ?x))) (initial_bits ! n)"
    by (rule des_final_bit) (use permutation_undo_nth(2) [OF n] in simp)
  then show "bit (des_final (ucast (?x AND 0xFFFFFFFF)) (ucast (drop_bit 32 ?x))) n = bit (join l r) n"
    unfolding join_halves using permutation_undo_nth(2) [OF n] des_initial_bit [OF n, of l r] by simp
qed

lemma des_initial_final:
  "des_initial (ucast (des_final l r AND 0xFFFFFFFF)) (ucast (drop_bit 32 (des_final l r))) = join l r"
proof (rule bit_word_eqI)
  fix n assume "n < LENGTH(64)"
  then have n: "n < 64" by simp
  let ?x = "des_final l r"
  have "bit (des_initial (ucast (?x AND 0xFFFFFFFF)) (ucast (drop_bit 32 ?x))) (initial_bits ! (final_bits ! n)) =
      bit (join (ucast (?x AND 0xFFFFFFFF)) (ucast (drop_bit 32 ?x))) (final_bits ! n)"
    by (rule des_initial_bit) (use permutation_undo_nth(1) [OF n] in simp)
  then show "bit (des_initial (ucast (?x AND 0xFFFFFFFF)) (ucast (drop_bit 32 ?x))) n = bit (join l r) n"
    unfolding join_halves using permutation_undo_nth(1) [OF n] des_final_bit [OF n, of l r] by simp
qed

section \<open>The rounds\<close>

text \<open>Two key schedules of which one is the other in reverse order.\<close>

definition reversed_keys :: "u32 list \<Rightarrow> u32 list \<Rightarrow> bool" where
  "reversed_keys ek dk = (\<forall>i < 16. dk ! (2 * i) = ek ! (2 * (15 - i)) \<and> dk ! (2 * i + 1) = ek ! (2 * (15 - i) + 1))"

lemma reversed_keys_sym: "reversed_keys ek dk \<Longrightarrow> reversed_keys dk ek"
proof -
  assume r: "reversed_keys ek dk"
  have "ek ! (2 * i) = dk ! (2 * (15 - i)) \<and> ek ! (2 * i + 1) = dk ! (2 * (15 - i) + 1)" if "i < 16" for i
  proof -
    have "15 - i < 16" "15 - (15 - i) = i" using that by auto
    then show ?thesis using r unfolding reversed_keys_def by metis
  qed
  then show "reversed_keys dk ek" by (simp add: reversed_keys_def)
qed

lemma round_undo:
  assumes "reversed_keys ek dk" and "r < 8" and "des_round ek (x, y) r = (x', y')"
  shows "des_round dk (y', x') (7 - r) = (y, x)"
proof -
  have k: "dk ! (2 * i) = ek ! (2 * (15 - i))" "dk ! (2 * i + 1) = ek ! (2 * (15 - i) + 1)" if "i < 16" for i
    using assms(1) that by (simp_all add: reversed_keys_def)
  have i: "2 * (7 - r) < 16" "2 * (7 - r) + 1 < 16" "15 - 2 * (7 - r) = 2 * r + 1" "15 - (2 * (7 - r) + 1) = 2 * r" using assms(2) by auto
  have keys: "dk ! (4 * (7 - r)) = ek ! (4 * r + 2)" "dk ! (4 * (7 - r) + 1) = ek ! (4 * r + 3)"
    "dk ! (4 * (7 - r) + 2) = ek ! (4 * r)" "dk ! (4 * (7 - r) + 3) = ek ! (4 * r + 1)"
    using k(1) [OF i(1)] k(2) [OF i(1)] k(1) [OF i(2)] k(2) [OF i(2)] unfolding i(3,4)
    by (simp_all add: algebra_simps numeral_3_eq_3)
  have x: "x' = x XOR des_half y (ek ! (4 * r)) (ek ! (4 * r + 1))"
      "y' = y XOR des_half x' (ek ! (4 * r + 2)) (ek ! (4 * r + 3))"
    using assms(3) by (auto simp: des_round_def Let_def)
  have u: "y' XOR des_half x' (ek ! (4 * r + 2)) (ek ! (4 * r + 3)) = y"
      "x' XOR des_half y (ek ! (4 * r)) (ek ! (4 * r + 1)) = x"
    unfolding x(2) xor.assoc by (simp, simp add: x(1) xor.assoc)
  show ?thesis unfolding des_round_def prod.case Let_def keys u ..
qed

lemma rounds_undo:
  assumes "reversed_keys ek dk" and "n \<le> 8" and "foldl (des_round ek) (x, y) [0..<n] = (x', y')"
  shows "foldl (des_round dk) (y', x') [8 - n..<8] = (y, x)"
  using assms(2,3)
proof (induction n arbitrary: x' y')
  case (Suc n)
  obtain u v where uv: "foldl (des_round ek) (x, y) [0..<n] = (u, v)" by (cases "foldl (des_round ek) (x, y) [0..<n]")
  have "des_round ek (u, v) n = (x', y')" using Suc.prems uv by simp
  then have "des_round dk (y', x') (7 - n) = (v, u)" using round_undo [OF assms(1)] Suc.prems(1) by simp
  moreover have "[8 - Suc n..<8] = (7 - n) # [8 - n..<8]" 
  proof -
    have "8 - Suc n = 7 - n" "Suc (7 - n) = 8 - n" "7 - n < 8" using Suc.prems(1) by auto
    then show ?thesis by (simp only: upt_conv_Cons)
  qed
  ultimately show ?case using Suc.IH [OF _ uv] Suc.prems(1) by simp
qed simp

lemma desfunc_undo:
  assumes "reversed_keys ek dk"
  shows "desfunc (desfunc b ek) dk = b"
proof -
  obtain l r where b: "b = (l, r)" by (cases b)
  define L R where "L = (ucast (drop_bit 32 (des_initial l r)) :: u32)" and "R = (ucast (des_initial l r AND 0xFFFFFFFF) :: u32)"
  obtain L' R' where f: "foldl (des_round ek) (L, R) [0..<8] = (L', R')" by (cases "foldl (des_round ek) (L, R) [0..<8]")
  have e: "desfunc b ek = (ucast (des_final L' R' AND 0xFFFFFFFF), ucast (drop_bit 32 (des_final L' R')))"
    unfolding desfunc_def b prod.case Let_def L_def [symmetric] R_def [symmetric] f ..
  have "foldl (des_round dk) (R', L') [8 - 8..<8] = (R, L)" by (rule rounds_undo [OF assms _ f]) simp
  then have g: "foldl (des_round dk) (R', L') [0..<8] = (R, L)" by (simp only: diff_self_eq_0)
  show ?thesis
    unfolding e unfolding desfunc_def prod.case Let_def des_initial_final join_halves(2,3) g
    unfolding L_def R_def des_final_initial join_halves(2,3) b ..
qed

section \<open>The two key schedules of a key\<close>

text \<open>Only the order of the pairs depends on the direction.\<close>

definition key_pairs :: "byte list \<Rightarrow> nat \<Rightarrow> u32 \<times> u32" where
  "key_pairs key i = des_kn (des_pcr (des_pc1m key) i)"

lemma raw_keys:
  assumes "n \<le> 16" and "\<And>i. i < 16 \<Longrightarrow> p i < 16" and "inj_on p {..<16}"
  defines "kn \<equiv> \<lambda>key. foldl (\<lambda>kn i. let m = p i * 2; (km, kl) = key_pairs key i in kn[m := km, m + 1 := kl]) (replicate 32 (0 :: u32)) [0..<n]"
  shows "length (kn key) = 32 \<and> (\<forall>i < n. (kn key ! (2 * p i), kn key ! (2 * p i + 1)) = key_pairs key i)"
  unfolding kn_def using assms(1)
proof (induction n)
  case (Suc n)
  let ?k = "foldl (\<lambda>kn i. let m = p i * 2; (km, kl) = key_pairs key i in kn[m := km, m + 1 := kl]) (replicate 32 (0 :: u32)) [0..<n]"
  obtain km kl where k: "key_pairs key n = (km, kl)" by (cases "key_pairs key n")
  have IH: "length ?k = 32" "\<And>i. i < n \<Longrightarrow> (?k ! (2 * p i), ?k ! (2 * p i + 1)) = key_pairs key i"
    using Suc.IH Suc.prems by simp_all
  have b: "2 * p n + 1 < 32" using assms(2) [of n] Suc.prems by simp
  have ne: "p i \<noteq> p n" if "i < n" for i using inj_onD [OF assms(3), of i n] that Suc.prems by auto
  have odd: "2 * a \<noteq> 2 * c + 1" for a c :: nat by presburger
  have "(?k[p n * 2 := km, p n * 2 + 1 := kl] ! (2 * p i), ?k[p n * 2 := km, p n * 2 + 1 := kl] ! (2 * p i + 1)) = key_pairs key i"
    if "i < Suc n" for i
  proof (cases "i = n")
    case True
    then show ?thesis using b IH(1) k by (simp add: mult.commute)
  next
    case False
    then have "i < n" using that by simp
    then show ?thesis using IH(2) [OF \<open>i < n\<close>] ne [OF \<open>i < n\<close>] odd [of "p i" "p n"] odd [of "p n" "p i"]
      by (simp add: nth_list_update mult.commute)
  qed
  then show ?case using IH(1) by (simp add: k Let_def)
qed simp

lemma cookey_nth:
  assumes "i < 16"
  shows "(cookey raw ! (2 * i), cookey raw ! (2 * i + 1)) =
    (let raw0 = raw ! (2 * i); raw1 = raw ! (2 * i + 1)
     in (push_bit 6 (raw0 AND 0x00FC0000) OR push_bit 10 (raw0 AND 0x00000FC0) OR
         drop_bit 10 (raw1 AND 0x00FC0000) OR drop_bit 6 (raw1 AND 0x00000FC0),
         push_bit 12 (raw0 AND 0x0003F000) OR push_bit 16 (raw0 AND 0x0000003F) OR
         drop_bit 4 (raw1 AND 0x0003F000) OR (raw1 AND 0x0000003F)))"
proof -
  have pair_nth: "concat (map (\<lambda>i. [f i, g i]) [0..<n]) ! (2 * i) = f i \<and> concat (map (\<lambda>i. [f i, g i]) [0..<n]) ! (2 * i + 1) = g i \<and>
      length (concat (map (\<lambda>i. [f i, g i]) [0..<n])) = 2 * n" if "i < n" for f g :: "nat \<Rightarrow> u32" and i n
    using that
  proof (induction n)
    case (Suc n)
    have l: "length (concat (map (\<lambda>i. [f i, g i]) [0..<n])) = 2 * n" by (induction n) simp_all
    show ?case
    proof (cases "i = n")
      case True
      then show ?thesis using l by (simp add: nth_append)
    next
      case False
      then have "i < n" using Suc.prems by simp
      then show ?thesis using Suc.IH l by (simp add: nth_append)
    qed
  qed simp
  show ?thesis unfolding cookey_def Let_def using pair_nth [OF assms] by simp
qed

lemma deskey_reversed: "reversed_keys (deskey key EN0) (deskey key DE1)"
proof -
  define raw where "raw p = foldl (\<lambda>kn i. let m = p i * 2; (km, kl) = key_pairs key i in kn[m := km, m + 1 := kl]) (replicate 32 (0 :: u32)) [0..<16]" for p
  have d: "deskey key EN0 = cookey (raw (\<lambda>i. i))" "deskey key DE1 = cookey (raw (\<lambda>i. 15 - i))"
    by (simp_all add: deskey_def raw_def key_pairs_def Let_def)
  have e: "\<forall>i < 16. (raw (\<lambda>i. i) ! (2 * i), raw (\<lambda>i. i) ! (2 * i + 1)) = key_pairs key i"
    using raw_keys [of 16 "\<lambda>i. i" key] by (simp add: raw_def)
  have r: "\<forall>i < 16. (raw (\<lambda>i. 15 - i) ! (2 * (15 - i)), raw (\<lambda>i. 15 - i) ! (2 * (15 - i) + 1)) = key_pairs key i"
  proof -
    have "inj_on (\<lambda>i. 15 - i) {..<16 :: nat}" by (auto simp: inj_on_def)
    from raw_keys [OF order_refl _ this, of key] show ?thesis unfolding raw_def by simp
  qed
  have eq: "raw (\<lambda>i. 15 - i) ! (2 * i) = raw (\<lambda>i. i) ! (2 * (15 - i)) \<and> raw (\<lambda>i. 15 - i) ! (2 * i + 1) = raw (\<lambda>i. i) ! (2 * (15 - i) + 1)"
    if "i < 16" for i
  proof -
    have j: "15 - i < 16" "15 - (15 - i) = i" using that by auto
    show ?thesis using e [rule_format, OF j(1)] r [rule_format, OF j(1)] unfolding j(2) by (metis Pair_inject)
  qed
  have "cookey (raw (\<lambda>i. 15 - i)) ! (2 * i) = cookey (raw (\<lambda>i. i)) ! (2 * (15 - i)) \<and>
      cookey (raw (\<lambda>i. 15 - i)) ! (2 * i + 1) = cookey (raw (\<lambda>i. i)) ! (2 * (15 - i) + 1)" if i: "i < 16" for i
  proof -
    have j: "15 - i < 16" using i by simp
    note eqs = conjunct1 [OF eq [OF i]] conjunct2 [OF eq [OF i]]
    show ?thesis using cookey_nth [OF i, of "raw (\<lambda>i. 15 - i)", unfolded Let_def eqs] cookey_nth [OF j, of "raw (\<lambda>i. i)", unfolded Let_def]
      by (simp only: prod.inject simp_thms)
  qed
  then show ?thesis unfolding reversed_keys_def d by blast
qed

section \<open>DES and triple DES as block ciphers\<close>

lemma bytes_of_word32:
  fixes b0 b1 b2 b3 :: byte
  defines "w \<equiv> (push_bit 24 (ucast b0) OR push_bit 16 (ucast b1) OR push_bit 8 (ucast b2) OR ucast b3 :: u32)"
  shows "ucast (drop_bit 24 w) = b0" "ucast (drop_bit 16 w) = b1" "ucast (drop_bit 8 w) = b2" "ucast w = b3"
proof -
  have hi: "\<not> bit (b :: byte) n" if "8 \<le> n" for b n using that bit_imp_le_length [of b n] by auto
  have u: "bit w n = (24 \<le> n \<and> n < 32 \<and> bit b0 (n - 24) \<or> 16 \<le> n \<and> n < 32 \<and> bit b1 (n - 16) \<or>
      8 \<le> n \<and> n < 32 \<and> bit b2 (n - 8) \<or> n < 32 \<and> bit b3 n)" for n
    unfolding w_def bit_or_iff bit_push_bit_iff bit_unsigned_iff by auto
  show "ucast (drop_bit 24 w) = b0"
    by (rule bit_word_eqI) (simp add: bit_unsigned_iff bit_drop_bit_eq u hi)
  show "ucast (drop_bit 16 w) = b1"
    by (rule bit_word_eqI) (auto simp add: bit_unsigned_iff bit_drop_bit_eq u hi)
  show "ucast (drop_bit 8 w) = b2"
    by (rule bit_word_eqI) (auto simp add: bit_unsigned_iff bit_drop_bit_eq u hi)
  show "ucast w = b3"
    by (rule bit_word_eqI) (auto simp add: bit_unsigned_iff u hi)
qed

lemma des_bytes:
  "length (des_out w) = 8" "des_work (des_out w) = w" "length b = 8 \<Longrightarrow> des_out (des_work b) = b"
proof -
  obtain w0 w1 where w: "w = (w0, w1)" by (cases w)
  have o: "des_out (x, y) = [ucast (drop_bit 24 x), ucast (drop_bit 16 x), ucast (drop_bit 8 x), ucast x,
      ucast (drop_bit 24 y), ucast (drop_bit 16 y), ucast (drop_bit 8 y), ucast y]" for x y
    by (simp add: des_out_def PutUInt32_def memcpy_at_def numeral_eq_Suc)
  show "length (des_out w) = 8" by (simp add: w o)
  show "des_work (des_out w) = w"
    using word32_of_bytes [of w0] word32_of_bytes [of w1] by (simp add: w o des_work_def GetUInt32_def)
  assume "length b = 8"
  then obtain b0 b1 b2 b3 b4 b5 b6 b7 where b: "b = [b0, b1, b2, b3, b4, b5, b6, b7]"
    by (auto simp: numeral_eq_Suc length_Suc_conv)
  show "des_out (des_work b) = b"
    using bytes_of_word32 [of b0 b1 b2 b3] bytes_of_word32 [of b4 b5 b6 b7] by (simp add: b o des_work_def GetUInt32_def)
qed

text \<open>The objects after their key is set.\<close>

definition DES_with :: "byte list \<Rightarrow> DES" where
  "DES_with key = \<lparr>des_ek = deskey key EN0, des_dk = deskey key DE1\<rparr>"

definition TDES_with :: "byte list \<Rightarrow> TDES" where
  "TDES_with key = \<lparr>tdes_ek = [deskey key EN0, deskey (drop 8 key) DE1, deskey (drop 16 key) EN0],
     tdes_dk = [deskey (drop 16 key) DE1, deskey (drop 8 key) EN0, deskey key DE1]\<rparr>"

lemma setKey_with:
  "DES_setKey key rounds d = (True, d') \<Longrightarrow> d' = DES_with key \<and> length key = 8"
  "TDES_setKey key rounds t = (True, t') \<Longrightarrow> t' = TDES_with key \<and> length key = 24"
  by (auto simp: DES_setKey_def TDES_setKey_def DES_with_def TDES_with_def DES_KEY_SIZE_def TDES_KEY_SIZE_def split: if_splits)

lemma des_crypt:
  assumes "length b = 8"
  shows "\<exists>c. DES_encrypt (DES_with key) b BLOCK_SIZE = Some c \<and> length c = 8 \<and> DES_decrypt (DES_with key) c BLOCK_SIZE = Some b"
  using assms desfunc_undo [OF deskey_reversed]
  by (simp add: DES_encrypt_def DES_decrypt_def DES_with_def BLOCK_SIZE_def des_bytes)

lemma tdes_crypt:
  assumes "length b = 8"
  shows "\<exists>c. TDES_encrypt (TDES_with key) b BLOCK_SIZE = Some c \<and> length c = 8 \<and> TDES_decrypt (TDES_with key) c BLOCK_SIZE = Some b"
  using assms desfunc_undo [OF deskey_reversed] desfunc_undo [OF reversed_keys_sym [OF deskey_reversed]]
  by (simp add: TDES_encrypt_def TDES_decrypt_def TDES_crypt_def TDES_with_def BLOCK_SIZE_def des_bytes)

interpretation des: block_code "DES_cipher (DES_with key)" for key
  by unfold_locales (use des_crypt in \<open>auto simp: DES_cipher_def BLOCK_SIZE_def\<close>)

interpretation tdes: block_code "TDES_cipher (TDES_with key)" for key
  by unfold_locales (use tdes_crypt in \<open>auto simp: TDES_cipher_def BLOCK_SIZE_def\<close>)

text \<open>The set-key operations as the chaining modes call them.\<close>

definition des_set_key :: "DES \<Rightarrow> byte list \<Rightarrow> nat \<Rightarrow> block_cipher \<Rightarrow> bool \<times> block_cipher" where
  "des_set_key d key rounds _ = (case DES_setKey key rounds d of (st, d') \<Rightarrow> (st, DES_cipher d'))"

definition tdes_set_key :: "TDES \<Rightarrow> byte list \<Rightarrow> nat \<Rightarrow> block_cipher \<Rightarrow> bool \<times> block_cipher" where
  "tdes_set_key t key rounds _ = (case TDES_setKey key rounds t of (st, t') \<Rightarrow> (st, TDES_cipher t'))"

lemma cipher_sizes: "bc_size (DES_cipher d) = 8" "bc_size (TDES_cipher t) = 8"
  by (simp_all add: DES_cipher_def TDES_cipher_def BLOCK_SIZE_def)

lemma des_chain_ok:
  assumes "ch_setKey (des_set_key d) key rounds (chain_new m (DES_cipher d)) = (True, c0)" and "chain_setIV m iv c0 = (True, c)"
  shows "chain_ok m (DES_cipher (DES_with key)) c" "length key = 8"
proof -
  let ?f = "des_set_key d key rounds (DES_cipher d)"
  obtain st d' where s: "DES_setKey key rounds d = (st, d')" by (cases "DES_setKey key rounds d")
  have f: "?f = (st, DES_cipher d')" by (simp add: des_set_key_def s)
  have k: "chain_ok m (DES_cipher d') c0" "st"
    using chain_setKey_ok [OF chain_new_ok assms(1)] by (simp_all add: f cipher_sizes)
  then have "d' = DES_with key" "length key = 8" using s setKey_with(1) [of key rounds d d'] by simp_all
  then show "chain_ok m (DES_cipher (DES_with key)) c" "length key = 8" using chain_setIV_ok [OF k(1) assms(2)] by simp_all
qed

lemma tdes_chain_ok:
  assumes "ch_setKey (tdes_set_key d) key rounds (chain_new m (TDES_cipher d)) = (True, c0)" and "chain_setIV m iv c0 = (True, c)"
  shows "chain_ok m (TDES_cipher (TDES_with key)) c" "length key = 24"
proof -
  let ?f = "tdes_set_key d key rounds (TDES_cipher d)"
  obtain st d' where s: "TDES_setKey key rounds d = (st, d')" by (cases "TDES_setKey key rounds d")
  have f: "?f = (st, TDES_cipher d')" by (simp add: tdes_set_key_def s)
  have k: "chain_ok m (TDES_cipher d') c0" "st"
    using chain_setKey_ok [OF chain_new_ok assms(1)] by (simp_all add: f cipher_sizes)
  then have "d' = TDES_with key" "length key = 24" using s setKey_with(2) [of key rounds d d'] by simp_all
  then show "chain_ok m (TDES_cipher (TDES_with key)) c" "length key = 24" using chain_setIV_ok [OF k(1) assms(2)] by simp_all
qed

section \<open>The initial permutation of the standard\<close>

text \<open>The table \<open>IP\<close> of FIPS 46-3: bit \<open>k\<close> of the permuted block is bit \<open>IP ! (k - 1)\<close> of the block,
  bits being numbered from 1, the most significant one.\<close>

definition fips_IP :: "nat list" where
  "fips_IP = [
    58, 50, 42, 34, 26, 18, 10, 2, 60, 52, 44, 36, 28, 20, 12, 4,
    62, 54, 46, 38, 30, 22, 14, 6, 64, 56, 48, 40, 32, 24, 16, 8,
    57, 49, 41, 33, 25, 17, 9, 1, 59, 51, 43, 35, 27, 19, 11, 3,
    61, 53, 45, 37, 29, 21, 13, 5, 63, 55, 47, 39, 31, 23, 15, 7]"

definition block_bit :: "u32 \<Rightarrow> u32 \<Rightarrow> nat \<Rightarrow> bool" where
  "block_bit w0 w1 k = (if k \<le> 32 then bit w0 (32 - k) else bit w1 (64 - k))"

text \<open>The code keeps each half rotated left by one bit.\<close>

definition rotated_place :: "nat \<Rightarrow> nat" where
  "rotated_place k = (if k \<le> 32 then 32 + (33 - k) mod 32 else (65 - k) mod 32)"

definition block_place :: "nat \<Rightarrow> nat" where
  "block_place k = (if k \<le> 32 then 32 - k else 96 - k)"

lemma fips_places: "map (\<lambda>k. initial_bits ! block_place (fips_IP ! (k - 1))) [1..<65] = map rotated_place [1..<65]"
  by code_simp

lemma fips_IP_range: "list_all (\<lambda>q. 1 \<le> q \<and> q \<le> 64) fips_IP" "length fips_IP = 64"
  by (simp_all add: fips_IP_def)

lemma block_place_bit:
  assumes "1 \<le> q" and "q \<le> 64"
  shows "block_place q < 64 \<and> bit (join w0 w1) (block_place q) = block_bit w0 w1 q"
proof (cases "q \<le> 32")
  case True
  then show ?thesis using assms join_bit [of "32 - q" w0 w1] by (simp add: block_place_def block_bit_def)
next
  case False
  then have "96 - q < 64" "\<not> 96 - q < 32" "96 - q - 32 = 64 - q" using assms(2) by auto
  then show ?thesis using False join_bit [of "96 - q" w0 w1] by (simp add: block_place_def block_bit_def)
qed

section \<open>Properties\<close>

text \<open>
  C9. Every chaining mode on DES is inverted by its decryption. A chaining object of any of the
  seven modes is created on DES, its key and its initialization vector are set; then any data
  of at least the minimum message size of the mode, and of whole blocks if the mode does not
  allow a residue, is encrypted to data of the same length which decrypts to it, into buffers of
  any sufficient sizes or in place.
\<close>
theorem des_chaining_roundtrip:
  assumes "ch_setKey (des_set_key d) key rounds (chain_new m (DES_cipher d)) = (True, c0)" and "chain_setIV m iv c0 = (True, c)"
    and "minMessageSize m c \<le> length data" and "residueAllowed m \<or> length data mod BLOCK_SIZE = 0"
    and "length data \<le> n" and "length data \<le> n'"
  shows "\<exists>e. chain_encrypt m c data n = Some e \<and> length e = length data \<and> chain_decrypt m c e n' = Some data \<and>
    chain_encryptInPlace m c data None = Some e \<and> chain_decryptInPlace m c e None = Some data"
proof -
  note ok = des_chain_ok(1) [OF assms(1,2)]
  have r: "residueAllowed m \<or> length data mod bc_size (DES_cipher (DES_with key)) = 0" using assms(4) by (simp add: cipher_sizes BLOCK_SIZE_def)
  from des.modes_roundtrip [OF ok assms(3) r assms(5,6)] show ?thesis
    using enough_space [of data n m c] enough_space(2) [of _ n' m c] assms(5,6)
    by (auto simp: chain_encryptInPlace_def chain_decryptInPlace_def)
qed

definition sample_chain :: "chain_mode \<Rightarrow> CipherChaining" where
  "sample_chain m = snd (ch_setKey (des_set_key \<lparr>des_ek = [], des_dk = []\<rparr>) [1, 2, 3, 4, 5, 6, 7, 8] 0
     (chain_new m (DES_cipher \<lparr>des_ek = [], des_dk = []\<rparr>)))"

lemma sample_chain_set:
  "ch_setKey (des_set_key \<lparr>des_ek = [], des_dk = []\<rparr>) [1, 2, 3, 4, 5, 6, 7, 8] 0
     (chain_new m (DES_cipher \<lparr>des_ek = [], des_dk = []\<rparr>)) = (True, sample_chain m)"
  by (cases m) (simp_all add: sample_chain_def ch_setKey_def des_set_key_def DES_setKey_def DES_KEY_SIZE_def
      CipherChaining_new_def ECB_new_def CBC_new_def CTS1_new_def CTS2_new_def CTS3_new_def CTS4_new_def DVS042_new_def Let_def)

theorem des_chaining_roundtrip_witness:
  "\<exists>c e. chain_setIV CTS1 (Some (replicate 8 0x11)) (sample_chain CTS1) = (True, c) \<and>
     chain_encrypt CTS1 c (replicate 21 0xA5) 21 = Some e \<and> length e = 21 \<and> chain_decrypt CTS1 c e 30 = Some (replicate 21 0xA5)"
proof -
  have n: "ch_iv_min_size (sample_chain CTS1) = 8" "ch_iv_max_size (sample_chain CTS1) = 8" "ch_block_size (sample_chain CTS1) = 8"
    by (simp_all add: sample_chain_def ch_setKey_def des_set_key_def DES_setKey_def DES_KEY_SIZE_def CTS1_new_def
        CipherChaining_new_def Let_def cipher_sizes)
  let ?c = "(sample_chain CTS1)\<lparr>ch_iv := replicate 8 0x11\<rparr>"
  have iv: "chain_setIV CTS1 (Some (replicate 8 0x11)) (sample_chain CTS1) = (True, ?c)"
    by (simp add: ch_setIV_def new_iv_def n)
  have "minMessageSize CTS1 ?c \<le> length (replicate 21 (0xA5 :: byte))" by (simp add: n)
  from des_chaining_roundtrip [OF sample_chain_set iv this, of 21 30] iv show ?thesis by auto
qed

text \<open>
  C38. The same for triple DES: its three key schedules are applied in one order to encrypt and in the
  other, in the other direction, to decrypt.
\<close>
theorem tdes_chaining_roundtrip:
  assumes "ch_setKey (tdes_set_key t) key rounds (chain_new m (TDES_cipher t)) = (True, c0)" and "chain_setIV m iv c0 = (True, c)"
    and "minMessageSize m c \<le> length data" and "residueAllowed m \<or> length data mod BLOCK_SIZE = 0"
    and "length data \<le> n" and "length data \<le> n'"
  shows "\<exists>e. chain_encrypt m c data n = Some e \<and> length e = length data \<and> chain_decrypt m c e n' = Some data"
proof -
  note ok = tdes_chain_ok(1) [OF assms(1,2)]
  have r: "residueAllowed m \<or> length data mod bc_size (TDES_cipher (TDES_with key)) = 0" using assms(4) by (simp add: cipher_sizes BLOCK_SIZE_def)
  from tdes.modes_roundtrip [OF ok assms(3) r assms(5,6)] show ?thesis by blast
qed

theorem tdes_chaining_roundtrip_witness:
  "\<exists>c0 c e. ch_setKey (tdes_set_key \<lparr>tdes_ek = [], tdes_dk = []\<rparr>) (replicate 24 0x5A) 16
       (chain_new DVS042 (TDES_cipher \<lparr>tdes_ek = [], tdes_dk = []\<rparr>)) = (True, c0) \<and>
     chain_setIV DVS042 (Some (replicate 8 0x11)) c0 = (True, c) \<and>
     chain_encrypt DVS042 c [1, 2, 3] 3 = Some e \<and> length e = 3 \<and> chain_decrypt DVS042 c e 3 = Some [1, 2, 3]"
proof -
  let ?t = "\<lparr>tdes_ek = [], tdes_dk = []\<rparr>"
  obtain c0 where k: "ch_setKey (tdes_set_key ?t) (replicate 24 0x5A) 16 (chain_new DVS042 (TDES_cipher ?t)) = (True, c0)"
      "ch_iv_min_size c0 = 8" "ch_iv_max_size c0 = 8"
    by (simp add: ch_setKey_def tdes_set_key_def TDES_setKey_def TDES_KEY_SIZE_def ROUNDS_def DVS042_new_def
        CipherChaining_new_def Let_def cipher_sizes)
  let ?c = "c0\<lparr>ch_iv := replicate 8 0x11, ch_shortIV := replicate 8 0x11\<rparr>"
  have iv: "chain_setIV DVS042 (Some (replicate 8 0x11)) c0 = (True, ?c)"
    by (simp add: DVS042_setIV_def ch_setIV_def DVS042_setShortIV_def new_iv_def k(2,3))
  from tdes_chaining_roundtrip [OF k(1) iv, of "[1, 2, 3]" 3 3] k(1) iv show ?thesis by auto
qed

text \<open>
  C36. The permutation tables are those of the standard. The eight tables of the initial
  permutation, combined as the code does, move bit \<open>IP ! (k - 1)\<close> of the block to bit \<open>k\<close>, each half
  being kept rotated by one bit; and the tables of the final permutation undo it, in both orders.
\<close>
theorem des_permutations_are_fips:
  "(\<forall>k. 1 \<le> k \<and> k \<le> 64 \<longrightarrow> bit (des_initial w0 w1) (rotated_place k) = block_bit w0 w1 (fips_IP ! (k - 1))) \<and>
   des_final (ucast (des_initial w0 w1 AND 0xFFFFFFFF)) (ucast (drop_bit 32 (des_initial w0 w1))) =
     push_bit 32 (ucast w1) OR ucast w0 \<and>
   des_initial (ucast (des_final w0 w1 AND 0xFFFFFFFF)) (ucast (drop_bit 32 (des_final w0 w1))) =
     push_bit 32 (ucast w1) OR ucast w0"
proof (intro conjI allI impI)
  show "des_final (ucast (des_initial w0 w1 AND 0xFFFFFFFF)) (ucast (drop_bit 32 (des_initial w0 w1))) =
     push_bit 32 (ucast w1) OR ucast w0"
    "des_initial (ucast (des_final w0 w1 AND 0xFFFFFFFF)) (ucast (drop_bit 32 (des_final w0 w1))) =
     push_bit 32 (ucast w1) OR ucast w0"
    by (simp_all only: des_final_initial des_initial_final join_def)
  fix k assume k: "1 \<le> k \<and> k \<le> (64 :: nat)"
  have q: "1 \<le> fips_IP ! (k - 1)" "fips_IP ! (k - 1) \<le> 64"
  proof -
    have "k - 1 < 64" using k by linarith
    then show "1 \<le> fips_IP ! (k - 1)" "fips_IP ! (k - 1) \<le> 64" using fips_IP_range by (simp_all add: list_all_length)
  qed
  have "map (\<lambda>k. initial_bits ! block_place (fips_IP ! (k - 1))) [1..<65] ! (k - 1) = map rotated_place [1..<65] ! (k - 1)"
    by (simp only: fips_places)
  then have p: "initial_bits ! block_place (fips_IP ! (k - 1)) = rotated_place k"
  proof -
    have "k - 1 < 65 - 1" "1 + (k - 1) = k" using k by linarith+
    moreover assume "map (\<lambda>k. initial_bits ! block_place (fips_IP ! (k - 1))) [1..<65] ! (k - 1) = map rotated_place [1..<65] ! (k - 1)"
    ultimately show ?thesis by (simp only: nth_map_upt)
  qed
  note b = block_place_bit [OF q, of w0 w1]
  show "bit (des_initial w0 w1) (rotated_place k) = block_bit w0 w1 (fips_IP ! (k - 1))"
    using des_initial_bit [OF conjunct1 [OF b], of w0 w1] conjunct2 [OF b] unfolding p by simp
qed

theorem des_permutations_are_fips_witness:
  "bit (des_initial 0 0x40) 32"
  using conjunct1 [OF des_permutations_are_fips, rule_format, of 1 0 "0x40"]
  by (simp add: rotated_place_def block_bit_def fips_IP_def)



end
