(* ===== verification/Ts_Ring.thy ===== *)
theory Ts_Ring
  imports Ts_Packet
begin

text \<open>
  The ring of plugin executors of \<open>tsp\<close>: \<open>tstools/tspPluginExecutor.cpp\<close> and
  \<open>tstools/tspJointTermination.cpp\<close>. One input executor, any number of packet processors and one
  output executor share a circular buffer of packets. Every executor owns a contiguous area of
  the buffer; it passes the packets at the front of its area to its successor in the ring, the output
  gives the freed space back to the input. All accesses to the areas are under one global
  mutex, so each operation is one atomic function on the state.

  Executor 0 is the input, executor \<open>rg_n - 1\<close> the output, \<open>ringNext\<close> is the successor modulo
  \<open>rg_n\<close>. The condition variable \<open>_to_do\<close> of an executor has one possible waiter, its own
  thread: \<open>pe_asleep\<close> says that the thread waits for a signal. A failed assertion is recorded in
  \<open>rg_failed\<close>.

  The lemmas show that the areas always partition the buffer (\<open>ring_ok\<close>, with the absolute
  number of packets that each executor has passed) and how an operation of one executor
  is seen by the others.
\<close>

section \<open>State\<close>

record Executor =
  pe_first :: nat             \<comment> \<open>\<open>_pkt_first\<close>\<close>
  pe_cnt :: nat               \<comment> \<open>\<open>_pkt_cnt\<close>\<close>
  pe_input_end :: bool
  pe_bitrate :: BitRate
  pe_aborting :: bool         \<comment> \<open>\<open>_tsp_aborting\<close>\<close>
  pe_tsp_bitrate :: BitRate   \<comment> \<open>\<open>_tsp_bitrate\<close>\<close>
  pe_asleep :: bool           \<comment> \<open>waiting on \<open>_to_do\<close>\<close>
  pe_total :: PacketCounter   \<comment> \<open>\<open>_total_packets\<close>\<close>
  pe_use_jt :: bool
  pe_jt_completed :: bool

record Ring =
  rg_n :: nat                 \<comment> \<open>number of executors\<close>
  rg_count :: nat             \<comment> \<open>\<open>_buffer->count()\<close>\<close>
  rg_ex :: "nat \<Rightarrow> Executor"
  rg_failed :: bool
  jt_users :: int
  jt_remaining :: int
  jt_highest :: PacketCounter \<comment> \<open>\<open>_jt_hightest_pkt\<close>\<close>

definition Executor_new :: Executor where
  "Executor_new = \<lparr>pe_first = 0, pe_cnt = 0, pe_input_end = False, pe_bitrate = 0, pe_aborting = False,
     pe_tsp_bitrate = 0, pe_asleep = False, pe_total = 0, pe_use_jt = False, pe_jt_completed = False\<rparr>"

definition Ring_new :: "nat \<Rightarrow> nat \<Rightarrow> Ring" where
  "Ring_new n count = \<lparr>rg_n = n, rg_count = count, rg_ex = (\<lambda>_. Executor_new), rg_failed = False,
     jt_users = 0, jt_remaining = 0, jt_highest = 0\<rparr>"

definition ringNext :: "Ring \<Rightarrow> nat \<Rightarrow> nat" where
  "ringNext r i = (if Suc i = rg_n r then 0 else Suc i)"

definition ringPrevious :: "Ring \<Rightarrow> nat \<Rightarrow> nat" where
  "ringPrevious r i = (if i = 0 then rg_n r - 1 else i - 1)"

section \<open>Operations under the global mutex\<close>

definition initBuffer :: "nat \<Rightarrow> nat \<Rightarrow> nat \<Rightarrow> bool \<Rightarrow> bool \<Rightarrow> BitRate \<Rightarrow> Ring \<Rightarrow> Ring" where
  "initBuffer i pkt_first pkt_cnt input_end aborted bitrate r =
     r\<lparr>rg_ex := (rg_ex r)(i := (rg_ex r i)\<lparr>pe_first := pkt_first, pe_cnt := pkt_cnt, pe_input_end := input_end,
         pe_aborting := aborted, pe_bitrate := bitrate, pe_tsp_bitrate := bitrate\<rparr>)\<rparr>"

definition to_do_signal :: "nat \<Rightarrow> (nat \<Rightarrow> Executor) \<Rightarrow> nat \<Rightarrow> Executor" where
  "to_do_signal i ex = ex(i := (ex i)\<lparr>pe_asleep := False\<rparr>)"

definition passPackets :: "nat \<Rightarrow> nat \<Rightarrow> BitRate \<Rightarrow> bool \<Rightarrow> bool \<Rightarrow> Ring \<Rightarrow> Ring \<times> bool" where
  "passPackets i count bitrate input_end aborted r =
     (let fails = \<not> (count \<le> pe_cnt (rg_ex r i) \<and> pe_first (rg_ex r i) + count \<le> rg_count r);
          ex0 = (rg_ex r)(i := (rg_ex r i)\<lparr>pe_first := (pe_first (rg_ex r i) + count) mod rg_count r,
                                            pe_cnt := pe_cnt (rg_ex r i) - count\<rparr>);
          next_ex = ringNext r i;
          ex1 = ex0(next_ex := (ex0 next_ex)\<lparr>pe_cnt := pe_cnt (ex0 next_ex) + count,
                       pe_input_end := pe_input_end (ex0 next_ex) \<or> input_end, pe_bitrate := bitrate\<rparr>);
          ex2 = (if count > 0 \<or> input_end then to_do_signal next_ex ex1 else ex1);
          aborted = (aborted \<or> pe_aborting (ex2 next_ex));
          ex3 = (if aborted then to_do_signal (ringPrevious r i) (ex2(i := (ex2 i)\<lparr>pe_aborting := True\<rparr>)) else ex2)
      in (r\<lparr>rg_ex := ex3, rg_failed := rg_failed r \<or> fails\<rparr>, \<not> input_end \<and> \<not> aborted))"

definition setAbort :: "nat \<Rightarrow> Ring \<Rightarrow> Ring" where
  "setAbort i r = r\<lparr>rg_ex := to_do_signal (ringPrevious r i) ((rg_ex r)(i := (rg_ex r i)\<lparr>pe_aborting := True\<rparr>))\<rparr>"

text \<open>\<open>waitWork\<close> either puts the thread to sleep or returns; a thread that is woken tests again.\<close>

definition must_wait :: "Ring \<Rightarrow> nat \<Rightarrow> bool" where
  "must_wait r i \<longleftrightarrow> pe_cnt (rg_ex r i) = 0 \<and> \<not> pe_input_end (rg_ex r i) \<and> \<not> pe_aborting (rg_ex r (ringNext r i))"

record Work =
  wk_first :: nat
  wk_cnt :: nat
  wk_bitrate :: BitRate
  wk_input_end :: bool
  wk_aborted :: bool

definition waitWork :: "nat \<Rightarrow> Ring \<Rightarrow> Ring \<times> Work option" where
  "waitWork i r =
     (let e = rg_ex r i in
      if must_wait r i then (r\<lparr>rg_ex := (rg_ex r)(i := e\<lparr>pe_asleep := True\<rparr>)\<rparr>, None)
      else
        let pkt_cnt = min (pe_cnt e) (rg_count r - pe_first e)
        in (r, Some \<lparr>wk_first = pe_first e, wk_cnt = pkt_cnt, wk_bitrate = pe_bitrate e,
                     wk_input_end = (pe_input_end e \<and> pkt_cnt = pe_cnt e),
                     wk_aborted = pe_aborting (rg_ex r (ringNext r i))\<rparr>))"

section \<open>Joint termination\<close>

definition addTotalPackets :: "nat \<Rightarrow> nat \<Rightarrow> Ring \<Rightarrow> Ring" where
  "addTotalPackets i incr r = r\<lparr>rg_ex := (rg_ex r)(i := (rg_ex r i)\<lparr>pe_total := pe_total (rg_ex r i) + of_nat incr\<rparr>)\<rparr>"

definition useJointTermination :: "nat \<Rightarrow> bool \<Rightarrow> Ring \<Rightarrow> Ring" where
  "useJointTermination i on r =
     (let e = rg_ex r i in
      if on \<and> \<not> pe_use_jt e then
        r\<lparr>rg_ex := (rg_ex r)(i := e\<lparr>pe_use_jt := True\<rparr>), jt_users := jt_users r + 1, jt_remaining := jt_remaining r + 1\<rparr>
      else if \<not> on \<and> pe_use_jt e then
        r\<lparr>rg_ex := (rg_ex r)(i := e\<lparr>pe_use_jt := False\<rparr>), jt_users := jt_users r - 1, jt_remaining := jt_remaining r - 1,
          rg_failed := rg_failed r \<or> \<not> (jt_users r - 1 \<ge> 0 \<and> jt_remaining r - 1 \<ge> 0)\<rparr>
      else r)"

definition jointTerminate :: "nat \<Rightarrow> Ring \<Rightarrow> Ring" where
  "jointTerminate i r =
     (let e = rg_ex r i in
      if pe_use_jt e \<and> \<not> pe_jt_completed e then
        r\<lparr>rg_ex := (rg_ex r)(i := e\<lparr>pe_jt_completed := True\<rparr>), jt_remaining := jt_remaining r - 1,
          rg_failed := rg_failed r \<or> \<not> jt_remaining r - 1 \<ge> 0,
          jt_highest := (if pe_total e > jt_highest r then pe_total e else jt_highest r)\<rparr>
      else r)"

definition totalPacketsBeforeJointTermination :: "bool \<Rightarrow> Ring \<Rightarrow> PacketCounter" where
  "totalPacketsBeforeJointTermination ignore_jt r =
     (if \<not> ignore_jt \<and> jt_users r > 0 \<and> jt_remaining r \<le> 0 then jt_highest r else 0xFFFFFFFFFFFFFFFF)"

section \<open>The areas partition the buffer\<close>

text \<open>\<open>A i\<close> is the absolute number of packets that executor \<open>i\<close> has passed since the start
  (for the input: stored and passed). The area of \<open>i\<close> holds the packets between its own
  count and the one of its predecessor; the area of the input is the free space.\<close>

definition ring_ok :: "(nat \<Rightarrow> nat) \<Rightarrow> Ring \<Rightarrow> bool" where
  "ring_ok A r \<longleftrightarrow> 2 \<le> rg_n r \<and> 0 < rg_count r \<and>
     (\<forall>i < rg_n r. pe_first (rg_ex r i) = A i mod rg_count r) \<and>
     (\<forall>i. Suc i < rg_n r \<longrightarrow> A (Suc i) + pe_cnt (rg_ex r (Suc i)) = A i) \<and>
     A 0 + pe_cnt (rg_ex r 0) = A (rg_n r - 1) + rg_count r"

lemma ringNext_less: "i < rg_n r \<Longrightarrow> ringNext r i < rg_n r"
  by (auto simp: ringNext_def)

lemma ringPrevious_less: "2 \<le> rg_n r \<Longrightarrow> i < rg_n r \<Longrightarrow> ringPrevious r i < rg_n r"
  by (auto simp: ringPrevious_def)

lemma ringNext_neq: "2 \<le> rg_n r \<Longrightarrow> i < rg_n r \<Longrightarrow> ringNext r i \<noteq> i"
  by (auto simp: ringNext_def)

lemma ringNext_Previous: "2 \<le> rg_n r \<Longrightarrow> i < rg_n r \<Longrightarrow> ringNext r (ringPrevious r i) = i"
  by (auto simp: ringNext_def ringPrevious_def)

lemma ringPrevious_Next: "2 \<le> rg_n r \<Longrightarrow> i < rg_n r \<Longrightarrow> ringPrevious r (ringNext r i) = i"
  by (auto simp: ringNext_def ringPrevious_def)

lemma ringPrevious_eq: "2 \<le> rg_n r \<Longrightarrow> i < rg_n r \<Longrightarrow> k < rg_n r \<Longrightarrow> ringPrevious r i = k \<longleftrightarrow> ringNext r k = i"
  by (auto simp: ringNext_def ringPrevious_def)

text \<open>What \<open>passPackets\<close> does to every executor.\<close>

lemma passPackets_fields:
  assumes "2 \<le> rg_n r" and "i < rg_n r" and "passPackets i c b ie ab r = (r', ok)"
  shows "rg_n r' = rg_n r" "rg_count r' = rg_count r"
    and "rg_failed r' \<longleftrightarrow> rg_failed r \<or> \<not> (c \<le> pe_cnt (rg_ex r i) \<and> pe_first (rg_ex r i) + c \<le> rg_count r)"
    and "ok \<longleftrightarrow> \<not> ie \<and> \<not> ab \<and> \<not> pe_aborting (rg_ex r (ringNext r i))"
    and "pe_first (rg_ex r' k) = (if k = i then (pe_first (rg_ex r i) + c) mod rg_count r else pe_first (rg_ex r k))"
    and "pe_cnt (rg_ex r' k) = (if k = i then pe_cnt (rg_ex r i) - c
           else if k = ringNext r i then pe_cnt (rg_ex r k) + c else pe_cnt (rg_ex r k))"
    and "pe_input_end (rg_ex r' k) \<longleftrightarrow> pe_input_end (rg_ex r k) \<or> k = ringNext r i \<and> ie"
    and "pe_aborting (rg_ex r' k) \<longleftrightarrow> pe_aborting (rg_ex r k) \<or> k = i \<and> (ab \<or> pe_aborting (rg_ex r (ringNext r i)))"
    and "pe_asleep (rg_ex r' k) \<longleftrightarrow> pe_asleep (rg_ex r k) \<and> \<not> (k = ringNext r i \<and> (c > 0 \<or> ie)) \<and>
           \<not> (k = ringPrevious r i \<and> (ab \<or> pe_aborting (rg_ex r (ringNext r i))))"
    and "pe_tsp_bitrate (rg_ex r' k) = pe_tsp_bitrate (rg_ex r k)" "pe_total (rg_ex r' k) = pe_total (rg_ex r k)"
    and "pe_use_jt (rg_ex r' k) = pe_use_jt (rg_ex r k)" "pe_jt_completed (rg_ex r' k) = pe_jt_completed (rg_ex r k)"
    and "jt_users r' = jt_users r" "jt_remaining r' = jt_remaining r" "jt_highest r' = jt_highest r"
proof -
  define nx where "nx = ringNext r i"
  define pv where "pv = ringPrevious r i"
  have neq: "nx \<noteq> i" using ringNext_neq [OF assms(1,2)] by (simp add: nx_def)
  have eq: "r' = fst (passPackets i c b ie ab r)" "ok = snd (passPackets i c b ie ab r)"
    using assms(3) by simp_all
  define ex0 where "ex0 = (rg_ex r)(i := (rg_ex r i)\<lparr>pe_first := (pe_first (rg_ex r i) + c) mod rg_count r,
      pe_cnt := pe_cnt (rg_ex r i) - c\<rparr>)"
  define ex1 where "ex1 = ex0(nx := (ex0 nx)\<lparr>pe_cnt := pe_cnt (ex0 nx) + c,
      pe_input_end := pe_input_end (ex0 nx) \<or> ie, pe_bitrate := b\<rparr>)"
  define ex2 where "ex2 = (if c > 0 \<or> ie then to_do_signal nx ex1 else ex1)"
  define ab' where "ab' \<longleftrightarrow> ab \<or> pe_aborting (rg_ex r nx)"
  define ex3 where "ex3 = (if ab' then to_do_signal pv (ex2(i := (ex2 i)\<lparr>pe_aborting := True\<rparr>)) else ex2)"
  have ab': "ab \<or> pe_aborting (ex2 nx) \<longleftrightarrow> ab'"
    using neq by (simp add: ex2_def ex1_def ex0_def to_do_signal_def ab'_def)
  have r': "r' = r\<lparr>rg_ex := ex3, rg_failed := rg_failed r \<or>
      \<not> (c \<le> pe_cnt (rg_ex r i) \<and> pe_first (rg_ex r i) + c \<le> rg_count r)\<rparr>" and ok: "ok \<longleftrightarrow> \<not> ie \<and> \<not> ab'"
    unfolding eq passPackets_def Let_def nx_def [symmetric] pv_def [symmetric]
    unfolding ex0_def [symmetric] ex1_def [symmetric] ex2_def [symmetric] ab' ex3_def [symmetric]
    by simp_all
  show "rg_n r' = rg_n r" "rg_count r' = rg_count r" "jt_users r' = jt_users r" "jt_remaining r' = jt_remaining r"
    "jt_highest r' = jt_highest r" "ok \<longleftrightarrow> \<not> ie \<and> \<not> ab \<and> \<not> pe_aborting (rg_ex r (ringNext r i))"
    "rg_failed r' \<longleftrightarrow> rg_failed r \<or> \<not> (c \<le> pe_cnt (rg_ex r i) \<and> pe_first (rg_ex r i) + c \<le> rg_count r)"
    using ok by (simp_all add: r' ab'_def nx_def)
  show "pe_first (rg_ex r' k) = (if k = i then (pe_first (rg_ex r i) + c) mod rg_count r else pe_first (rg_ex r k))"
    "pe_tsp_bitrate (rg_ex r' k) = pe_tsp_bitrate (rg_ex r k)" "pe_total (rg_ex r' k) = pe_total (rg_ex r k)"
    "pe_use_jt (rg_ex r' k) = pe_use_jt (rg_ex r k)" "pe_jt_completed (rg_ex r' k) = pe_jt_completed (rg_ex r k)"
    using neq by (simp_all add: r' ex3_def ex2_def ex1_def ex0_def to_do_signal_def)
  show "pe_cnt (rg_ex r' k) = (if k = i then pe_cnt (rg_ex r i) - c
           else if k = ringNext r i then pe_cnt (rg_ex r k) + c else pe_cnt (rg_ex r k))"
    "pe_input_end (rg_ex r' k) \<longleftrightarrow> pe_input_end (rg_ex r k) \<or> k = ringNext r i \<and> ie"
    "pe_aborting (rg_ex r' k) \<longleftrightarrow> pe_aborting (rg_ex r k) \<or> k = i \<and> (ab \<or> pe_aborting (rg_ex r (ringNext r i)))"
    using neq by (simp_all add: r' ex3_def ex2_def ex1_def ex0_def to_do_signal_def ab'_def nx_def)
  show "pe_asleep (rg_ex r' k) \<longleftrightarrow> pe_asleep (rg_ex r k) \<and> \<not> (k = ringNext r i \<and> (c > 0 \<or> ie)) \<and>
           \<not> (k = ringPrevious r i \<and> (ab \<or> pe_aborting (rg_ex r (ringNext r i))))"
    using neq by (simp add: r' ex3_def ex2_def ex1_def ex0_def to_do_signal_def ab'_def nx_def pv_def)
qed

lemma ring_ok_cnt_bound:
  assumes "ring_ok A r"
  shows "Suc i < rg_n r \<Longrightarrow> A (Suc i) \<le> A i" and "i < rg_n r \<Longrightarrow> A (rg_n r - 1) \<le> A i"
    and "A 0 \<le> A (rg_n r - 1) + rg_count r" and "i < rg_n r \<Longrightarrow> A i \<le> A 0"
proof -
  have step: "A (Suc i) \<le> A i" if "Suc i < rg_n r" for i
    using assms that by (metis le_add1 ring_ok_def)
  show "Suc i < rg_n r \<Longrightarrow> A (Suc i) \<le> A i" by (rule step)
  have mono: "j + k < rg_n r \<Longrightarrow> A (j + k) \<le> A j" for j k
    by (induction k) (auto intro: le_trans [OF step])
  show "i < rg_n r \<Longrightarrow> A (rg_n r - 1) \<le> A i"
    using mono [of i "rg_n r - 1 - i"] by simp
  show "i < rg_n r \<Longrightarrow> A i \<le> A 0" using mono [of 0 i] by simp
  show "A 0 \<le> A (rg_n r - 1) + rg_count r" using assms by (metis le_add1 ring_ok_def)
qed

lemma passPackets_ring_ok:
  assumes ok: "ring_ok A r" and i: "i < rg_n r" and c: "c \<le> pe_cnt (rg_ex r i)"
    and p: "passPackets i c b ie ab r = (r', res)"
  shows "ring_ok (A(i := A i + c)) r'"
proof -
  have n: "2 \<le> rg_n r" using ok by (simp add: ring_ok_def)
  note f = passPackets_fields [OF n i p]
  have first: "pe_first (rg_ex r' k) = (A(i := A i + c)) k mod rg_count r" if "k < rg_n r" for k
    using ok that by (simp add: f(5) ring_ok_def mod_add_left_eq)
  have cnt: "(A(i := A i + c)) (Suc k) + pe_cnt (rg_ex r' (Suc k)) = (A(i := A i + c)) k" if "Suc k < rg_n r" for k
  proof -
    have k: "A (Suc k) + pe_cnt (rg_ex r (Suc k)) = A k" using ok that by (simp add: ring_ok_def)
    consider "Suc k = i" | "k = i" | "Suc k \<noteq> i" "k \<noteq> i" by blast
    then show ?thesis
    proof cases
      case 1
      with k c that show ?thesis by (simp add: f(6))
    next
      case 2
      with k that have "ringNext r i = Suc k" by (simp add: ringNext_def)
      with k 2 show ?thesis by (simp add: f(6))
    next
      case 3
      with that have "ringNext r i \<noteq> Suc k" by (auto simp: ringNext_def)
      with k 3 show ?thesis by (simp add: f(6))
    qed
  qed
  have "(A(i := A i + c)) 0 + pe_cnt (rg_ex r' 0) = (A(i := A i + c)) (rg_n r - 1) + rg_count r"
  proof -
    have k: "A 0 + pe_cnt (rg_ex r 0) = A (rg_n r - 1) + rg_count r" using ok by (simp add: ring_ok_def)
    consider "0 = i" | "Suc i = rg_n r" "i \<noteq> 0" | "i \<noteq> 0" "Suc i \<noteq> rg_n r" by metis
    then show ?thesis
    proof cases
      case 1
      with k c n show ?thesis by (simp add: f(6))
    next
      case 2
      then have "ringNext r i = 0" "rg_n r - 1 = i" by (simp_all add: ringNext_def)
      with k 2 show ?thesis by (simp add: f(6))
    next
      case 3
      then have "ringNext r i \<noteq> 0" "rg_n r - 1 \<noteq> i" by (auto simp: ringNext_def)
      with k 3 show ?thesis by (simp add: f(6))
    qed
  qed
  with first cnt ok show ?thesis by (simp add: ring_ok_def f(1,2))
qed

lemma ring_ok_cong:
  assumes "ring_ok A r" and "rg_n r' = rg_n r" "rg_count r' = rg_count r"
    and "\<And>k. pe_first (rg_ex r' k) = pe_first (rg_ex r k)" "\<And>k. pe_cnt (rg_ex r' k) = pe_cnt (rg_ex r k)"
  shows "ring_ok A r'"
  using assms by (simp add: ring_ok_def)

end
