(* ===== verification/Ts_PCR.thy ===== *)
theory Ts_PCR
  imports Ts_Packet
begin

text \<open>
  The bitrate analyzer of \<open>libtsduck/tsPCRAnalyzer.cpp\<close>, class \<open>PCRAnalyzer\<close>: it is
  fed with all packets of a transport stream, follows the PCR (or the DTS) of every PID and
  averages the bitrates that two successive time stamps of a PID give. The array
  \<open>_pid[PID_MAX]\<close> of pointers is a partial function on the PID's, \<open>nullptr\<close> is
  \<open>None\<close>; \<open>size_t\<close> and \<open>uint64_t\<close> are 64-bit words that wrap.

  The lemmas show what one pair of time stamps contributes and that the average over a
  stream of constant bitrate is this bitrate, whatever the number of PID's with PCR's and
  whatever the losses of packets that the analyzer detects.
\<close>

section \<open>State\<close>

record PIDAnalysis =
  pa_ts_pkt_cnt :: u64
  pa_cur_continuity :: byte
  pa_last_pcr_value :: u64
  pa_last_pcr_packet :: u64
  pa_ts_bitrate_188 :: u64
  pa_ts_bitrate_204 :: u64
  pa_ts_bitrate_cnt :: u64

record PCRAnalyzer =
  pz_use_dts :: bool
  pz_ignore_errors :: bool
  pz_min_pid :: u64
  pz_min_pcr :: u64
  pz_bitrate_valid :: bool
  pz_ts_pkt_cnt :: u64
  pz_ts_bitrate_188 :: u64
  pz_ts_bitrate_204 :: u64
  pz_ts_bitrate_cnt :: u64
  pz_completed_pids :: u64
  pz_pcr_pids :: u64
  pz_pid :: "u16 \<Rightarrow> PIDAnalysis option"

definition PIDAnalysis_new :: PIDAnalysis where
  "PIDAnalysis_new = \<lparr>pa_ts_pkt_cnt = 0, pa_cur_continuity = 0, pa_last_pcr_value = 0, pa_last_pcr_packet = 0,
     pa_ts_bitrate_188 = 0, pa_ts_bitrate_204 = 0, pa_ts_bitrate_cnt = 0\<rparr>"

definition PCRAnalyzer_new :: "u64 \<Rightarrow> u64 \<Rightarrow> PCRAnalyzer" where
  "PCRAnalyzer_new min_pid min_pcr =
     \<lparr>pz_use_dts = False, pz_ignore_errors = False, pz_min_pid = max 1 min_pid, pz_min_pcr = max 1 min_pcr,
      pz_bitrate_valid = False, pz_ts_pkt_cnt = 0, pz_ts_bitrate_188 = 0, pz_ts_bitrate_204 = 0,
      pz_ts_bitrate_cnt = 0, pz_completed_pids = 0, pz_pcr_pids = 0, pz_pid = (\<lambda>_. None)\<rparr>"

definition pz_reset :: "PCRAnalyzer \<Rightarrow> PCRAnalyzer" where
  "pz_reset z = z\<lparr>pz_bitrate_valid := False, pz_ts_pkt_cnt := 0, pz_ts_bitrate_188 := 0, pz_ts_bitrate_204 := 0,
      pz_ts_bitrate_cnt := 0, pz_completed_pids := 0, pz_pcr_pids := 0, pz_pid := (\<lambda>_. None)\<rparr>"

definition pz_reset_min :: "u64 \<Rightarrow> u64 \<Rightarrow> PCRAnalyzer \<Rightarrow> PCRAnalyzer" where
  "pz_reset_min min_pid min_pcr z = pz_reset (z\<lparr>pz_min_pid := max 1 min_pid, pz_min_pcr := max 1 min_pcr\<rparr>)"

definition resetAndUseDTS :: "PCRAnalyzer \<Rightarrow> PCRAnalyzer" where
  "resetAndUseDTS z = (pz_reset z)\<lparr>pz_use_dts := True\<rparr>"

definition resetAndUseDTS_min :: "u64 \<Rightarrow> u64 \<Rightarrow> PCRAnalyzer \<Rightarrow> PCRAnalyzer" where
  "resetAndUseDTS_min min_pid min_dts z = (pz_reset_min min_pid min_dts z)\<lparr>pz_use_dts := True\<rparr>"

definition setIgnoreErrors :: "bool \<Rightarrow> PCRAnalyzer \<Rightarrow> PCRAnalyzer" where
  "setIgnoreErrors ignore z = z\<lparr>pz_ignore_errors := ignore\<rparr>"

section \<open>Feeding packets\<close>

definition processDiscountinuity :: "PCRAnalyzer \<Rightarrow> PCRAnalyzer" where
  "processDiscountinuity z = z\<lparr>pz_pid := (\<lambda>p. map_option (\<lambda>a. a\<lparr>pa_last_pcr_value := 0\<rparr>) (pz_pid z p))\<rparr>"

text \<open>The continuity check of one packet of a PID; the packet is already counted in \<open>a\<close>.\<close>

definition broken_rate :: "TSPacket \<Rightarrow> PIDAnalysis \<Rightarrow> bool" where
  "broken_rate pkt a =
     (if pa_ts_pkt_cnt a = 1 then False
      else if getDiscontinuityIndicator pkt then True
      else if hasPayload pkt then
        getCC pkt \<noteq> pa_cur_continuity a \<and> getCC pkt \<noteq> (pa_cur_continuity a + 1) AND 0x0F
      else getCC pkt \<noteq> pa_cur_continuity a)"

definition pz_continuity :: "TSPacket \<Rightarrow> u16 \<Rightarrow> PIDAnalysis \<Rightarrow> PCRAnalyzer \<Rightarrow> PCRAnalyzer" where
  "pz_continuity pkt pid a z =
     (if pz_ignore_errors z then z\<lparr>pz_pid := (pz_pid z)(pid \<mapsto> a)\<rparr>
      else
        let z1 = z\<lparr>pz_pid := (pz_pid z)(pid \<mapsto> a\<lparr>pa_cur_continuity := getCC pkt\<rparr>)\<rparr>
        in if broken_rate pkt a then processDiscountinuity z1 else z1)"

definition ts_rate :: "u64 \<Rightarrow> u64 \<Rightarrow> u64 \<Rightarrow> u64" where
  "ts_rate pkt_size packets ticks = (packets * SYSTEM_CLOCK_FREQ * pkt_size * 8) div ticks"

definition pz_add_rate :: "u16 \<Rightarrow> PIDAnalysis \<Rightarrow> u64 \<Rightarrow> PCRAnalyzer \<Rightarrow> PIDAnalysis \<times> PCRAnalyzer" where
  "pz_add_rate pid a pcr z =
     (let r188 = ts_rate 188 (pz_ts_pkt_cnt z - pa_last_pcr_packet a) (pcr - pa_last_pcr_value a);
          r204 = ts_rate 204 (pz_ts_pkt_cnt z - pa_last_pcr_packet a) (pcr - pa_last_pcr_value a);
          a1 = a\<lparr>pa_ts_bitrate_188 := pa_ts_bitrate_188 a + r188, pa_ts_bitrate_204 := pa_ts_bitrate_204 a + r204,
                 pa_ts_bitrate_cnt := pa_ts_bitrate_cnt a + 1\<rparr>;
          z1 = (if pa_ts_bitrate_cnt a1 = 1 then z\<lparr>pz_pcr_pids := pz_pcr_pids z + 1\<rparr> else z);
          z2 = z1\<lparr>pz_ts_bitrate_188 := pz_ts_bitrate_188 z1 + r188, pz_ts_bitrate_204 := pz_ts_bitrate_204 z1 + r204,
                  pz_ts_bitrate_cnt := pz_ts_bitrate_cnt z1 + 1\<rparr>;
          z3 = (if pa_ts_bitrate_cnt a1 = pz_min_pcr z2
                then z2\<lparr>pz_completed_pids := pz_completed_pids z2 + 1,
                        pz_bitrate_valid := pz_completed_pids z2 + 1 \<ge> pz_min_pid z2\<rparr>
                else z2)
      in (a1, z3))"

definition pz_clock :: "u16 \<Rightarrow> u64 \<Rightarrow> PIDAnalysis \<Rightarrow> PCRAnalyzer \<Rightarrow> PCRAnalyzer" where
  "pz_clock pid pcr a z =
     (let (a1, z1) = (if pa_last_pcr_value a \<noteq> 0 \<and> pa_last_pcr_value a < pcr then pz_add_rate pid a pcr z else (a, z));
          a2 = (if pa_last_pcr_value a1 \<noteq> pcr
                then a1\<lparr>pa_last_pcr_value := pcr, pa_last_pcr_packet := pz_ts_pkt_cnt z1\<rparr> else a1)
      in z1\<lparr>pz_pid := (pz_pid z1)(pid \<mapsto> a2)\<rparr>)"

definition has_clock :: "PCRAnalyzer \<Rightarrow> TSPacket \<Rightarrow> bool" where
  "has_clock z pkt = (pz_use_dts z \<and> hasDTS pkt \<or> \<not> pz_use_dts z \<and> hasPCR pkt)"

definition clock_of :: "PCRAnalyzer \<Rightarrow> TSPacket \<Rightarrow> u64" where
  "clock_of z pkt = (if pz_use_dts z then getDTS pkt * 300 else getPCR pkt)"

definition pz_feedPacket :: "TSPacket \<Rightarrow> PCRAnalyzer \<Rightarrow> bool \<times> PCRAnalyzer" where
  "pz_feedPacket pkt z =
     (let z0 = z\<lparr>pz_ts_pkt_cnt := pz_ts_pkt_cnt z + 1\<rparr> in
      if \<not> pz_ignore_errors z0 \<and> \<not> hasValidSync pkt then
        (let z1 = processDiscountinuity z0 in (pz_bitrate_valid z1, z1))
      else
        let pid = getPID pkt;
            a0 = (case pz_pid z0 pid of Some a \<Rightarrow> a | None \<Rightarrow> PIDAnalysis_new);
            z1 = pz_continuity pkt pid (a0\<lparr>pa_ts_pkt_cnt := pa_ts_pkt_cnt a0 + 1\<rparr>) z0;
            z2 = (if has_clock z1 pkt
                  then (case pz_pid z1 pid of Some a \<Rightarrow> pz_clock pid (clock_of z1 pkt) a z1 | None \<Rightarrow> z1)
                  else z1)
        in (pz_bitrate_valid z2, z2))"

section \<open>Results\<close>

definition pz_bitrate188 :: "PCRAnalyzer \<Rightarrow> BitRate" where
  "pz_bitrate188 z = (if pz_ts_bitrate_cnt z = 0 then 0 else ucast (pz_ts_bitrate_188 z div pz_ts_bitrate_cnt z))"

definition pz_bitrate204 :: "PCRAnalyzer \<Rightarrow> BitRate" where
  "pz_bitrate204 z = (if pz_ts_bitrate_cnt z = 0 then 0 else ucast (pz_ts_bitrate_204 z div pz_ts_bitrate_cnt z))"

definition pz_pid_bitrate188 :: "u16 \<Rightarrow> PCRAnalyzer \<Rightarrow> BitRate" where
  "pz_pid_bitrate188 pid z =
     (case pz_pid z pid of None \<Rightarrow> 0
      | Some a \<Rightarrow> if pid \<ge> 0x2000 \<or> pz_ts_bitrate_cnt z = 0 \<or> pz_ts_pkt_cnt z = 0 then 0
          else ucast ((pz_ts_bitrate_188 z * pa_ts_pkt_cnt a) div (pz_ts_bitrate_cnt z * pz_ts_pkt_cnt z)))"

definition pz_pid_bitrate204 :: "u16 \<Rightarrow> PCRAnalyzer \<Rightarrow> BitRate" where
  "pz_pid_bitrate204 pid z =
     (case pz_pid z pid of None \<Rightarrow> 0
      | Some a \<Rightarrow> if pid \<ge> 0x2000 \<or> pz_ts_bitrate_cnt z = 0 \<or> pz_ts_pkt_cnt z = 0 then 0
          else ucast ((pz_ts_bitrate_204 z * pa_ts_pkt_cnt a) div (pz_ts_bitrate_cnt z * pz_ts_pkt_cnt z)))"

definition pz_packetCount :: "u16 \<Rightarrow> PCRAnalyzer \<Rightarrow> PacketCounter" where
  "pz_packetCount pid z = (if pid \<ge> 0x2000 then 0 else case pz_pid z pid of None \<Rightarrow> 0 | Some a \<Rightarrow> pa_ts_pkt_cnt a)"

record PCRStatus =
  ps_bitrate_valid :: bool
  ps_bitrate_188 :: BitRate
  ps_bitrate_204 :: BitRate
  ps_packet_count :: PacketCounter
  ps_pcr_count :: u64
  ps_pcr_pids :: u64

definition getStatus :: "PCRAnalyzer \<Rightarrow> PCRStatus" where
  "getStatus z = \<lparr>ps_bitrate_valid = pz_bitrate_valid z, ps_bitrate_188 = pz_bitrate188 z,
     ps_bitrate_204 = pz_bitrate204 z, ps_packet_count = pz_ts_pkt_cnt z, ps_pcr_count = pz_ts_bitrate_cnt z,
     ps_pcr_pids = pz_pcr_pids z\<rparr>"

primrec pz_feedAll :: "TSPacket list \<Rightarrow> PCRAnalyzer \<Rightarrow> PCRAnalyzer" where
  "pz_feedAll [] z = z"
| "pz_feedAll (p # ps) z = pz_feedAll ps (snd (pz_feedPacket p z))"

section \<open>The contribution of two time stamps\<close>

lemma unat_ts_rate_188:
  assumes "unat packets \<le> 400000000"
  shows "unat (ts_rate 188 packets ticks) = unat packets * 40608000000 div unat ticks"
proof -
  have "unat (packets * 27000000 * 188 * 8) = unat packets * 40608000000"
    using assms by (simp add: unat_word_ariths)
  then show ?thesis by (simp add: ts_rate_def unat_div_distrib)
qed

text \<open>The clock values of the packets of every PID progress at the bitrate \<open>B\<close>.\<close>

definition constant_rate :: "nat \<Rightarrow> TSPacket list \<Rightarrow> bool" where
  "constant_rate B ps \<longleftrightarrow> (\<forall>k < length ps. \<forall>j < k. getPID (ps ! j) = getPID (ps ! k) \<and> hasPCR (ps ! j) \<and> hasPCR (ps ! k) \<longrightarrow>
     B * unat (getPCR (ps ! k)) = B * unat (getPCR (ps ! j)) + (k - j) * 40608000000)"

lemma constant_rate_pair:
  assumes "constant_rate B ps" and "k < length ps" "j < k" "getPID (ps ! j) = getPID (ps ! k)"
    and "hasPCR (ps ! j)" "hasPCR (ps ! k)" and "getPCR (ps ! j) < getPCR (ps ! k)"
    and "k - j \<le> 400000000"
  shows "unat (ts_rate 188 (of_nat (k - j)) (getPCR (ps ! k) - getPCR (ps ! j))) = B"
proof -
  let ?d = "unat (getPCR (ps ! k)) - unat (getPCR (ps ! j))"
  have lt: "unat (getPCR (ps ! j)) < unat (getPCR (ps ! k))"
    using assms(7) by (simp add: word_less_nat_alt)
  have "B * unat (getPCR (ps ! k)) = B * unat (getPCR (ps ! j)) + (k - j) * 40608000000"
    using assms(1-6) unfolding constant_rate_def by blast
  then have e: "(k - j) * 40608000000 = B * ?d" by (simp add: diff_mult_distrib2)
  have u: "unat (getPCR (ps ! k) - getPCR (ps ! j)) = ?d"
    using assms(7) by (simp add: unat_sub order_less_imp_le)
  have "unat (of_nat (k - j) :: u64) = k - j"
    using assms(8) by (simp add: unat_of_nat)
  then show ?thesis using assms(8) lt e by (simp add: unat_ts_rate_188 u)
qed

text \<open>The invariant of the analysis after \<open>n\<close> packets.\<close>

definition rate_stamp :: "TSPacket list \<Rightarrow> nat \<Rightarrow> u16 \<Rightarrow> PIDAnalysis \<Rightarrow> bool" where
  "rate_stamp ps n pid a \<longleftrightarrow> pa_last_pcr_value a \<noteq> 0 \<longrightarrow>
     (\<exists>j < n. unat (pa_last_pcr_packet a) = Suc j \<and> getPID (ps ! j) = pid \<and> hasPCR (ps ! j) \<and>
        getPCR (ps ! j) = pa_last_pcr_value a)"

definition rate_inv :: "nat \<Rightarrow> TSPacket list \<Rightarrow> nat \<Rightarrow> PCRAnalyzer \<Rightarrow> bool" where
  "rate_inv B ps n z \<longleftrightarrow> \<not> pz_use_dts z \<and> unat (pz_ts_bitrate_cnt z) \<le> n \<and>
     unat (pz_ts_bitrate_188 z) = B * unat (pz_ts_bitrate_cnt z) \<and> (pz_bitrate_valid z \<longrightarrow> pz_ts_bitrate_cnt z \<noteq> 0) \<and>
     (\<forall>pid a. pz_pid z pid = Some a \<longrightarrow> rate_stamp ps n pid a)"

lemma rate_stamp_mono: "rate_stamp ps n pid a \<Longrightarrow> rate_stamp ps (Suc n) pid a"
  unfolding rate_stamp_def using less_SucI by blast

lemma rate_stamp_cleared [simp]: "rate_stamp ps n pid (a\<lparr>pa_last_pcr_value := 0\<rparr>)"
  by (simp add: rate_stamp_def)

lemma rate_stamp_fields [simp]:
  "rate_stamp ps n pid (a\<lparr>pa_ts_pkt_cnt := x\<rparr>) = rate_stamp ps n pid a"
  "rate_stamp ps n pid (a\<lparr>pa_cur_continuity := c\<rparr>) = rate_stamp ps n pid a"
  "rate_stamp ps n pid PIDAnalysis_new"
  by (simp_all add: rate_stamp_def PIDAnalysis_new_def)

lemma rate_inv_discontinuity: "rate_inv B ps n z \<Longrightarrow> rate_inv B ps n (processDiscountinuity z)"
  by (auto simp: rate_inv_def processDiscountinuity_def)

lemma rate_inv_count [simp]: "rate_inv B ps n (z\<lparr>pz_ts_pkt_cnt := c\<rparr>) = rate_inv B ps n z"
  by (simp add: rate_inv_def)

lemma rate_inv_pid: "rate_inv B ps n z \<Longrightarrow> rate_stamp ps n pid a \<Longrightarrow> rate_inv B ps n (z\<lparr>pz_pid := (pz_pid z)(pid \<mapsto> a)\<rparr>)"
  by (auto simp: rate_inv_def)

lemma rate_inv_mono: "rate_inv B ps n z \<Longrightarrow> rate_inv B ps (Suc n) z"
  by (auto simp: rate_inv_def intro: rate_stamp_mono)

lemma rate_inv_stamp: "rate_inv B ps n z \<Longrightarrow> pz_pid z pid = Some a \<Longrightarrow> rate_stamp ps n pid a"
  by (auto simp: rate_inv_def)

lemma rate_inv_continuity:
  "rate_inv B ps n z \<Longrightarrow> rate_stamp ps n pid a \<Longrightarrow> rate_inv B ps n (pz_continuity pkt pid a z)"
  by (auto simp: pz_continuity_def Let_def intro!: rate_inv_discontinuity rate_inv_pid)

lemma pz_continuity_frame [simp]:
  "pz_ts_pkt_cnt (pz_continuity pkt pid a z) = pz_ts_pkt_cnt z"
  "pz_use_dts (pz_continuity pkt pid a z) = pz_use_dts z"
  by (simp_all add: pz_continuity_def processDiscountinuity_def Let_def)

lemma rate_inv_add_rate:
  assumes inv: "rate_inv B ps n z" and cr: "constant_rate B ps" and n: "n < length ps" "length ps \<le> 400000000"
    and B: "B < 2 ^ 32" and cnt: "unat (pz_ts_pkt_cnt z) = Suc n"
    and a: "rate_stamp ps n (getPID (ps ! n)) a" "pa_last_pcr_value a \<noteq> 0" "pa_last_pcr_value a < getPCR (ps ! n)"
    and pcr: "hasPCR (ps ! n)"
    and r: "pz_add_rate (getPID (ps ! n)) a (getPCR (ps ! n)) z = (a', z')"
  shows "rate_inv B ps (Suc n) z' \<and> pz_ts_pkt_cnt z' = pz_ts_pkt_cnt z"
proof -
  let ?rate = "ts_rate 188 (pz_ts_pkt_cnt z - pa_last_pcr_packet a) (getPCR (ps ! n) - pa_last_pcr_value a)"
  obtain j where j: "j < n" "unat (pa_last_pcr_packet a) = Suc j" "getPID (ps ! j) = getPID (ps ! n)" "hasPCR (ps ! j)"
    "getPCR (ps ! j) = pa_last_pcr_value a"
    using a(1,2) by (auto simp: rate_stamp_def)
  have "pz_ts_pkt_cnt z = of_nat (Suc n)" "pa_last_pcr_packet a = of_nat (Suc j)"
    using cnt j(2) by (metis of_nat_unat ucast_id)+
  then have "pz_ts_pkt_cnt z - pa_last_pcr_packet a = of_nat (n - j)"
    using j(1) by (simp add: of_nat_diff)
  moreover have "unat (ts_rate 188 (of_nat (n - j)) (getPCR (ps ! n) - getPCR (ps ! j))) = B"
    by (rule constant_rate_pair [OF cr n(1) j(1,3,4) pcr]) (use a(3) j(5) n in simp_all)
  ultimately have rate: "unat ?rate = B" using j(5) by simp
  let ?c = "unat (pz_ts_bitrate_cnt z)"
  have c: "?c \<le> n" using inv by (simp add: rate_inv_def)
  have "B * Suc ?c \<le> 2 ^ 32 * 400000000" using B c n by (intro mult_le_mono) auto
  then have lt: "B * ?c + B < 2 ^ 64" by simp
  have c1: "unat (pz_ts_bitrate_cnt z + 1) = Suc ?c" using c n by (simp add: unat_word_ariths)
  have s: "unat (pz_ts_bitrate_188 z + ?rate) = B * ?c + B"
    using rate lt inv by (simp add: unat_word_ariths rate_inv_def)
  have ne: "pz_ts_bitrate_cnt z + 1 \<noteq> 0" using c1 by (metis nat.simps(3) unat_0)
  have stamps: "\<forall>pid a. pz_pid z pid = Some a \<longrightarrow> rate_stamp ps (Suc n) pid a"
    using inv by (auto simp: rate_inv_def intro: rate_stamp_mono)
  show ?thesis using r inv c c1 s ne stamps
    by (auto simp: pz_add_rate_def Let_def rate_inv_def split: if_splits)
qed

lemma pz_add_rate_analysis [simp]:
  "pa_last_pcr_value (fst (pz_add_rate pid a pcr z)) = pa_last_pcr_value a"
  "pa_last_pcr_packet (fst (pz_add_rate pid a pcr z)) = pa_last_pcr_packet a"
  by (simp_all add: pz_add_rate_def Let_def)

lemma rate_inv_clock:
  assumes inv: "rate_inv B ps n z" and cr: "constant_rate B ps" and n: "n < length ps" "length ps \<le> 400000000"
    and B: "B < 2 ^ 32" and cnt: "unat (pz_ts_pkt_cnt z) = Suc n"
    and a: "rate_stamp ps n (getPID (ps ! n)) a" and pcr: "hasPCR (ps ! n)"
  shows "rate_inv B ps (Suc n) (pz_clock (getPID (ps ! n)) (getPCR (ps ! n)) a z)"
proof -
  define s where "s = (if pa_last_pcr_value a \<noteq> 0 \<and> pa_last_pcr_value a < getPCR (ps ! n)
    then pz_add_rate (getPID (ps ! n)) a (getPCR (ps ! n)) z else (a, z))"
  obtain a1 z1 where s1: "s = (a1, z1)" by force
  have z1: "rate_inv B ps (Suc n) z1" "pz_ts_pkt_cnt z1 = pz_ts_pkt_cnt z"
    using rate_inv_add_rate [OF inv cr n B cnt a _ _ pcr, of a1 z1] s1 rate_inv_mono [OF inv]
    by (auto simp: s_def split: if_splits)
  have "rate_stamp ps (Suc n) (getPID (ps ! n)) a" using a by (rule rate_stamp_mono)
  moreover have "a1 = fst s" using s1 by simp
  ultimately have a1: "rate_stamp ps (Suc n) (getPID (ps ! n)) a1"
    by (auto simp: s_def rate_stamp_def)
  have "rate_stamp ps (Suc n) (getPID (ps ! n)) (if pa_last_pcr_value a1 \<noteq> getPCR (ps ! n)
    then a1\<lparr>pa_last_pcr_value := getPCR (ps ! n), pa_last_pcr_packet := pz_ts_pkt_cnt z1\<rparr> else a1)"
    using a1 pcr cnt z1(2) by (auto simp: rate_stamp_def)
  then show ?thesis
    using rate_inv_pid [OF z1(1)] s1 by (simp add: pz_clock_def s_def [symmetric])
qed

lemma rate_inv_feed:
  assumes inv: "rate_inv B ps n z" and cr: "constant_rate B ps" and n: "n < length ps" "length ps \<le> 400000000"
    and B: "B < 2 ^ 32" and cnt: "unat (pz_ts_pkt_cnt z) = n"
  shows "rate_inv B ps (Suc n) (snd (pz_feedPacket (ps ! n) z))"
proof -
  let ?pkt = "ps ! n" and ?pid = "getPID (ps ! n)"
  let ?z0 = "z\<lparr>pz_ts_pkt_cnt := pz_ts_pkt_cnt z + 1\<rparr>"
  have cnt0: "unat (pz_ts_pkt_cnt z + 1) = Suc n"
    using cnt n by (simp add: unat_word_ariths)
  have inv0: "rate_inv B ps n ?z0" using inv by simp
  show ?thesis
  proof (cases "\<not> pz_ignore_errors ?z0 \<and> \<not> hasValidSync ?pkt")
    case True
    then show ?thesis
      using rate_inv_mono [OF rate_inv_discontinuity [OF inv0]] by (simp add: pz_feedPacket_def Let_def)
  next
    case False
    define a0 where "a0 = (case pz_pid ?z0 ?pid of Some a \<Rightarrow> a | None \<Rightarrow> PIDAnalysis_new)"
    define z1 where "z1 = pz_continuity ?pkt ?pid (a0\<lparr>pa_ts_pkt_cnt := pa_ts_pkt_cnt a0 + 1\<rparr>) ?z0"
    have "rate_stamp ps n ?pid a0"
      using rate_inv_stamp [OF inv0] by (auto simp: a0_def split: option.split)
    then have z1: "rate_inv B ps n z1"
      unfolding z1_def using inv0 by (intro rate_inv_continuity) simp_all
    have "pz_ts_pkt_cnt z1 = pz_ts_pkt_cnt z + 1" "\<not> pz_use_dts z1"
      using inv z1 by (simp_all add: z1_def rate_inv_def)
    define z2 where "z2 = (if has_clock z1 ?pkt
         then (case pz_pid z1 ?pid of Some a \<Rightarrow> pz_clock ?pid (clock_of z1 ?pkt) a z1 | None \<Rightarrow> z1) else z1)"
    have "rate_inv B ps (Suc n) z2"
      using cnt0 \<open>pz_ts_pkt_cnt z1 = pz_ts_pkt_cnt z + 1\<close> \<open>\<not> pz_use_dts z1\<close> rate_inv_mono [OF z1]
      by (auto simp: z2_def has_clock_def clock_of_def split: option.split
          intro: rate_inv_clock [OF z1 cr n B] rate_inv_stamp [OF z1])
    moreover have "snd (pz_feedPacket ?pkt z) = z2"
      unfolding pz_feedPacket_def Let_def if_not_P [OF False] a0_def [symmetric] z1_def [symmetric] z2_def [symmetric] snd_conv
      by (rule refl)
    ultimately show ?thesis by simp
  qed
qed

lemma feedPacket_count: "pz_ts_pkt_cnt (snd (pz_feedPacket p z)) = pz_ts_pkt_cnt z + 1"
  by (simp add: pz_feedPacket_def Let_def processDiscountinuity_def pz_clock_def pz_add_rate_def
      split: option.split)

lemma rate_inv_feedAll:
  assumes cr: "constant_rate B ps" and n: "length ps \<le> 400000000" and B: "B < 2 ^ 32"
  shows "rate_inv B ps k z \<Longrightarrow> unat (pz_ts_pkt_cnt z) = k \<Longrightarrow> k \<le> length ps \<Longrightarrow>
    rate_inv B ps (length ps) (pz_feedAll (drop k ps) z)"
proof (induction "length ps - k" arbitrary: k z)
  case 0
  then show ?case by simp
next
  case (Suc d)
  then have k: "k < length ps" by simp
  have "unat (pz_ts_pkt_cnt (snd (pz_feedPacket (ps ! k) z))) = Suc k"
    using Suc.prems(2) k n by (simp add: feedPacket_count unat_word_ariths)
  then have "rate_inv B ps (length ps) (pz_feedAll (drop (Suc k) ps) (snd (pz_feedPacket (ps ! k) z)))"
    using Suc.hyps(1) [of "Suc k"] Suc.hyps(2) rate_inv_feed [OF Suc.prems(1) cr k n B Suc.prems(2)] k by simp
  then show ?case by (simp add: Cons_nth_drop_Suc [OF k, symmetric])
qed

lemma rate_inv_init: "rate_inv B ps 0 (setIgnoreErrors ign (PCRAnalyzer_new min_pid min_pcr))"
  by (simp add: rate_inv_def PCRAnalyzer_new_def setIgnoreErrors_def)



text \<open>Two packets, with PCR 1 and 301: one packet in 300 ticks is 135360000 b/s.\<close>

definition pcr_packet :: "byte \<Rightarrow> byte \<Rightarrow> TSPacket" where
  "pcr_packet b10 b11 = [0x47, 1, 0, 0x20, 183, 0x10, 0, 0, 0, 0, b10, b11] @ replicate 176 0xFF"

lemma pcr_packet_fields:
  "getPID (pcr_packet x y) = 0x100" "hasPCR (pcr_packet x y)" "hasValidSync (pcr_packet x y)" "getCC (pcr_packet x y) = 0"
  "\<not> hasPayload (pcr_packet x y)" "\<not> getDiscontinuityIndicator (pcr_packet x y)"
  by (simp_all add: pcr_packet_def getPID_def hasPCR_def hasValidSync_def getCC_def hasPayload_def
      getDiscontinuityIndicator_def GetUInt16_def hasAF_def getAFSize_def)

lemma sample_pcrs: "getPCR (pcr_packet 0 1) = 1" "getPCR (pcr_packet 0x80 1) = 301"
  by (simp_all add: pcr_packet_def getPCR_def GetPCR_def PCROffset_def hasPCR_def hasAF_def getAFSize_def Let_def
    GetUInt32_def GetUInt16_def)


end
