(* ===== verification/Ts_Tsp.thy ===== *)
theory Ts_Tsp
  imports Ts_Ring Ts_PCR
begin

text \<open>
  The threads of \<open>tsp\<close>: \<open>tstools/tspInputExecutor.cpp\<close>, \<open>tspProcessorExecutor.cpp\<close>,
  \<open>tspOutputExecutor.cpp\<close> and the interrupt handler of \<open>tsp.cpp\<close>. The main loop of every
  executor is cut into steps at its accesses to the shared state: a call of \<open>waitWork\<close>, the work on one
  packet (or one batch for the input and the output) in the own area of the buffer, a call of
  \<open>passPackets\<close>. The local variables of a loop and its program counter are a record. A step
  relation interleaves the steps of all threads in any order.

  The plugins are arguments: their state is of any type, their entry points are functions. What
  the input device delivered and what the output device accepted are kept in two logs.
\<close>

section \<open>Plugins and options\<close>

datatype Status = TSP_OK | TSP_END | TSP_DROP | TSP_NULL | TSP_INVALID

text \<open>What one call of \<open>processPacket\<close> gives: the packet is modified in place; the plugin may call
  \<open>jointTerminate\<close> during the call.\<close>

record ProcResult =
  rs_status :: Status
  rs_packet :: TSPacket
  rs_flush_request :: bool
  rs_bitrate_changed :: bool
  rs_joint_terminate :: bool

record 'p Plugins =
  pl_receive :: "'p \<Rightarrow> nat \<Rightarrow> 'p \<times> TSPacket list"
  pl_process :: "nat \<Rightarrow> 'p \<Rightarrow> TSPacket \<Rightarrow> 'p \<times> ProcResult"
  pl_send :: "'p \<Rightarrow> TSPacket list \<Rightarrow> 'p \<times> bool"
  pl_getBitrate :: "'p \<Rightarrow> BitRate"

record TspOptions =
  op_max_flush_pkt :: nat
  op_max_input_pkt :: nat
  op_instuff_nullpkt :: nat
  op_instuff_inpkt :: nat
  op_instuff_start :: nat
  op_instuff_stop :: nat
  op_bitrate :: BitRate
  op_ignore_jt :: bool

section \<open>State of the process\<close>

datatype pc = Waiting | Leaving | Looping | Flushing | Receiving | Checking | Sending | Passing | Stopped

text \<open>The local variables of the three \<open>main\<close> functions.\<close>

record Local =
  lo_pc :: pc
  lo_first :: nat
  lo_cnt :: nat
  lo_done :: nat
  lo_flush :: nat
  lo_input_end :: bool
  lo_aborted :: bool
  lo_output_bitrate :: BitRate
  lo_never_modified :: bool
  lo_plugin_completed :: bool

record InputState =
  in_total_in_packets :: PacketCounter
  in_sync_lost :: bool
  in_start_remain :: nat
  in_stop_remain :: nat
  in_nullpkt_remain :: nat
  in_inpkt_remain :: nat

record 'p Tsp =
  t_ring :: Ring
  t_buf :: "TSPacket list"
  t_plug :: "nat \<Rightarrow> 'p"
  t_in :: InputState
  t_loc :: "nat \<Rightarrow> Local"
  t_interrupt :: nat            \<comment> \<open>executors already set in abort state by the interrupt handler\<close>
  t_stored :: "TSPacket list"   \<comment> \<open>packets stored by the input executor\<close>
  t_sent :: "TSPacket list"     \<comment> \<open>packets accepted by the output plugin\<close>

definition set_loc :: "nat \<Rightarrow> Local \<Rightarrow> 'p Tsp \<Rightarrow> 'p Tsp" where
  "set_loc i l s = s\<lparr>t_loc := (t_loc s)(i := l)\<rparr>"

definition set_tsp_bitrate :: "nat \<Rightarrow> BitRate \<Rightarrow> Ring \<Rightarrow> Ring" where
  "set_tsp_bitrate i b r = r\<lparr>rg_ex := (rg_ex r)(i := (rg_ex r i)\<lparr>pe_tsp_bitrate := b\<rparr>)\<rparr>"

section \<open>Input executor\<close>

definition receiveAndValidate :: "'p Plugins \<Rightarrow> nat \<Rightarrow> nat \<Rightarrow> 'p Tsp \<Rightarrow> 'p Tsp \<times> nat" where
  "receiveAndValidate P pos max_packets s =
     (if in_sync_lost (t_in s) then (s, 0)
      else
        let (p, pkts) = pl_receive P (t_plug s 0) max_packets;
            count = length (takeWhile hasValidSync pkts)
        in (s\<lparr>t_plug := (t_plug s)(0 := p), t_buf := memcpy_at (t_buf s) pos pkts,
              t_in := (t_in s)\<lparr>in_total_in_packets := in_total_in_packets (t_in s) + of_nat count,
                               in_sync_lost := count < length pkts\<rparr>\<rparr>, count))"

text \<open>Storing null packets at a position of the buffer: the two stuffing loops of
  \<open>receiveAndStuff\<close> and the one of \<open>main\<close>.\<close>

definition store_nulls :: "nat \<Rightarrow> nat \<Rightarrow> 'p Tsp \<Rightarrow> 'p Tsp" where
  "store_nulls pos k s = s\<lparr>t_buf := memcpy_at (t_buf s) pos (replicate k NullPacket)\<rparr>"

text \<open>One round of the alternation of null packets and input packets: the null packets, then one call
  of the plugin for the input packets (the result is the number of packets and the number that was
  asked for).\<close>

definition stuff_nulls :: "nat \<Rightarrow> nat \<Rightarrow> 'p Tsp \<Rightarrow> 'p Tsp" where
  "stuff_nulls pos k s = (store_nulls pos k s)\<lparr>t_in := (t_in s)\<lparr>in_nullpkt_remain := in_nullpkt_remain (t_in s) - k\<rparr>\<rparr>"

definition stuff_read :: "TspOptions \<Rightarrow> 'p Plugins \<Rightarrow> nat \<Rightarrow> nat \<Rightarrow> 'p Tsp \<Rightarrow> 'p Tsp \<times> nat \<times> nat" where
  "stuff_read opts P pos pkt_remain s =
     (let s2 = (if in_nullpkt_remain (t_in s) = 0 \<and> in_inpkt_remain (t_in s) = 0
                then s\<lparr>t_in := (t_in s)\<lparr>in_inpkt_remain := op_instuff_inpkt opts\<rparr>\<rparr> else s);
          max_packets = min pkt_remain (in_inpkt_remain (t_in s2));
          (s3, pkt_in) = receiveAndValidate P pos max_packets s2;
          s4 = s3\<lparr>t_in := (t_in s3)\<lparr>in_inpkt_remain := in_inpkt_remain (t_in s3) - pkt_in\<rparr>\<rparr>;
          s5 = (if in_nullpkt_remain (t_in s4) = 0 \<and> in_inpkt_remain (t_in s4) = 0
                then s4\<lparr>t_in := (t_in s4)\<lparr>in_nullpkt_remain := op_instuff_nullpkt opts\<rparr>\<rparr> else s4)
      in (s5, pkt_in, max_packets))"

lemma stuff_read_max:
  "stuff_read opts P pos pkt_remain s = (s', pkt_in, max_packets) \<Longrightarrow> 0 < op_instuff_inpkt opts \<Longrightarrow>
   in_nullpkt_remain (t_in s) = 0 \<Longrightarrow> 0 < pkt_remain \<Longrightarrow> 0 < max_packets"
  by (auto simp: stuff_read_def Let_def split: prod.splits if_splits)

text \<open>The alternation, for \<open>instuff_inpkt > 0\<close>. \<open>None\<close> is the early \<open>return 0\<close>. An assertion
  on the result of \<open>receive\<close> ends the loop and is recorded.\<close>

function stuff_loop ::
  "TspOptions \<Rightarrow> 'p Plugins \<Rightarrow> nat \<Rightarrow> nat \<Rightarrow> nat \<Rightarrow> nat \<Rightarrow> 'p Tsp \<Rightarrow> 'p Tsp \<times> nat option" where
  "stuff_loop opts P pos pkt_remain pkt_done from_input s =
     (if pkt_remain = 0 \<or> op_instuff_inpkt opts = 0 then (s, Some pkt_done)
      else if pkt_remain \<le> in_nullpkt_remain (t_in s) then (stuff_nulls pos pkt_remain s, Some (pkt_done + pkt_remain))
      else
        let k = in_nullpkt_remain (t_in s)
        in case stuff_read opts P (pos + k) (pkt_remain - k) (stuff_nulls pos k s) of (s1, pkt_in, max_packets) \<Rightarrow>
             if pkt_in > max_packets then (s1\<lparr>t_ring := (t_ring s1)\<lparr>rg_failed := True\<rparr>\<rparr>, Some (pkt_done + k))
             else if from_input + pkt_in = 0 then (s1, None)
             else if pkt_in < max_packets then (s1, Some (pkt_done + k + pkt_in))
             else stuff_loop opts P (pos + k + pkt_in) (pkt_remain - k - pkt_in) (pkt_done + k + pkt_in) (from_input + pkt_in) s1)"
  by pat_completeness auto
termination
proof (relation "measure (\<lambda>(opts, P, pos, pkt_remain, pkt_done, from_input, s). pkt_remain)")
  fix opts :: TspOptions and P :: "'a Plugins" and pos pkt_remain pkt_done from_input k max_packets pkt_in :: nat
    and s s1 :: "'a Tsp" and y
  assume a: "\<not> (pkt_remain = 0 \<or> op_instuff_inpkt opts = 0)" "\<not> pkt_remain \<le> in_nullpkt_remain (t_in s)"
    "k = in_nullpkt_remain (t_in s)" "(s1, y) = stuff_read opts P (pos + k) (pkt_remain - k) (stuff_nulls pos k s)"
    "(pkt_in, max_packets) = y" "\<not> max_packets < pkt_in" "from_input + pkt_in \<noteq> 0" "\<not> pkt_in < max_packets"
  then have "0 < max_packets"
    using stuff_read_max [of opts P "pos + k" "pkt_remain - k" "stuff_nulls pos k s" s1 pkt_in max_packets]
    by (auto simp: stuff_nulls_def)
  with a show "((opts, P, pos + k + pkt_in, pkt_remain - k - pkt_in, pkt_done + k + pkt_in, from_input + pkt_in, s1),
    opts, P, pos, pkt_remain, pkt_done, from_input, s) \<in> measure (\<lambda>(opts, P, pos, pkt_remain, pkt_done, from_input, s). pkt_remain)"
    by simp
qed simp

declare stuff_loop.simps [simp del]

definition receiveAndStuff :: "TspOptions \<Rightarrow> 'p Plugins \<Rightarrow> nat \<Rightarrow> nat \<Rightarrow> 'p Tsp \<Rightarrow> 'p Tsp \<times> nat" where
  "receiveAndStuff opts P pos max_packets s =
     (let k = min (in_start_remain (t_in s)) max_packets;
          s1 = (store_nulls pos k s)\<lparr>t_in := (t_in s)\<lparr>in_start_remain := in_start_remain (t_in s) - k\<rparr>\<rparr>;
          (s2, res) = (if op_instuff_inpkt opts = 0
                       then (case receiveAndValidate P (pos + k) (max_packets - k) s1 of (s2, pkt_in) \<Rightarrow> (s2, Some (k + pkt_in)))
                       else stuff_loop opts P (pos + k) (max_packets - k) k 0 s1)
      in case res of None \<Rightarrow> (s2, 0)
         | Some pkt_done \<Rightarrow> (s2\<lparr>t_ring := addTotalPackets 0 pkt_done (t_ring s2)\<rparr>, pkt_done))"

definition input_getBitrate :: "TspOptions \<Rightarrow> 'p Plugins \<Rightarrow> 'p Tsp \<Rightarrow> BitRate" where
  "input_getBitrate opts P s =
     (let bitrate = (if op_bitrate opts > 0 then op_bitrate opts else pl_getBitrate P (t_plug s 0))
      in if bitrate = 0 \<or> op_instuff_inpkt opts = 0 then bitrate
         else ucast ((ucast bitrate * (of_nat (op_instuff_nullpkt opts + op_instuff_inpkt opts) :: u64)) div
                     of_nat (op_instuff_inpkt opts)))"

text \<open>The evaluation of the initial bitrate from the packets in the buffer.\<close>

primrec feed_until_valid :: "TSPacket list \<Rightarrow> PCRAnalyzer \<Rightarrow> PCRAnalyzer" where
  "feed_until_valid [] z = z"
| "feed_until_valid (p # ps) z =
     (case pz_feedPacket p z of (valid, z') \<Rightarrow> if valid then z' else feed_until_valid ps z')"

definition initial_bitrate :: "BitRate \<Rightarrow> TSPacket list \<Rightarrow> BitRate" where
  "initial_bitrate plugin_bitrate pkts =
     (let b0 = plugin_bitrate;
          b1 = (if b0 = 0 then let z = feed_until_valid pkts (PCRAnalyzer_new 1 32)
                               in if pz_bitrate_valid z then pz_bitrate188 z else b0 else b0);
          b2 = (if b1 = 0 then let z = pz_feedAll pkts (resetAndUseDTS_min 1 32 (PCRAnalyzer_new 1 64))
                               in if pz_bitrate_valid z then pz_bitrate188 z else b1 else b1)
      in b2)"

primrec init_others :: "nat \<Rightarrow> bool \<Rightarrow> BitRate \<Rightarrow> Ring \<Rightarrow> Ring" where
  "init_others 0 e b r = r"
| "init_others (Suc k) e b r = (if k \<ge> 2 then initBuffer k 0 0 e e b (init_others k e b r) else r)"

definition initAllBuffers :: "TspOptions \<Rightarrow> 'p Plugins \<Rightarrow> 'p Tsp \<Rightarrow> 'p Tsp option" where
  "initAllBuffers opts P s =
     (let count = rg_count (t_ring s);
          (s1, pkt_read) = receiveAndStuff opts P 0 (count div 2) s
      in if pkt_read = 0 then None
         else
           let init_bitrate = initial_bitrate (input_getBitrate opts P s1) (take pkt_read (t_buf s1));
               r1 = initBuffer 1 0 pkt_read (pkt_read = 0) (pkt_read = 0) init_bitrate (t_ring s1);
               r2 = initBuffer 0 (pkt_read mod count) (count - pkt_read) (pkt_read = 0) (pkt_read = 0) init_bitrate r1;
               r3 = init_others (rg_n r2) (pkt_read = 0) init_bitrate r2
           in Some (s1\<lparr>t_ring := r3, t_stored := take pkt_read (t_buf s1)\<rparr>))"


text \<open>The main loop of the input: wait for space, read packets into it, pass them. \<open>due\<close> says whether
  the time of the periodic bitrate adjustment has come.\<close>

definition input_wait :: "TspOptions \<Rightarrow> 'p Tsp \<Rightarrow> 'p Tsp" where
  "input_wait opts s =
     (case waitWork 0 (t_ring s) of
        (r, None) \<Rightarrow> s\<lparr>t_ring := r\<rparr>
      | (r, Some w) \<Rightarrow>
          let l = (t_loc s 0)\<lparr>lo_input_end := wk_input_end w, lo_aborted := wk_aborted w\<rparr>
          in set_loc 0 (if wk_aborted w then l\<lparr>lo_pc := Stopped\<rparr>
                        else l\<lparr>lo_pc := Receiving, lo_first := wk_first w,
                               lo_cnt := (if op_max_input_pkt opts > 0 \<and> wk_cnt w > op_max_input_pkt opts
                                          then op_max_input_pkt opts else wk_cnt w)\<rparr>) (s\<lparr>t_ring := r\<rparr>))"

definition input_receive :: "TspOptions \<Rightarrow> 'p Plugins \<Rightarrow> bool \<Rightarrow> 'p Tsp \<Rightarrow> 'p Tsp" where
  "input_receive opts P due s =
     (let l = t_loc s 0; pkt_first = lo_first l; pkt_max = lo_cnt l;
          (s1, pkt_read) = (if lo_plugin_completed l then (s, 0) else receiveAndStuff opts P pkt_first pkt_max s);
          completed = (lo_plugin_completed l \<or> pkt_read = 0);
          k = (if completed then min (in_stop_remain (t_in s1)) (pkt_max - pkt_read) else 0);
          s2 = (store_nulls (pkt_first + pkt_read) k s1)\<lparr>t_in := (t_in s1)\<lparr>in_stop_remain := in_stop_remain (t_in s1) - k\<rparr>\<rparr>;
          pkt_read = pkt_read + k;
          input_end = (completed \<and> in_stop_remain (t_in s2) = 0);
          bitrate = input_getBitrate opts P s2;
          s3 = (if op_bitrate opts = 0 \<and> due \<and> bitrate > 0
                then s2\<lparr>t_ring := set_tsp_bitrate 0 bitrate (t_ring s2)\<rparr> else s2)
      in set_loc 0 (l\<lparr>lo_pc := Passing, lo_cnt := pkt_read, lo_input_end := input_end, lo_plugin_completed := completed\<rparr>)
           (s3\<lparr>t_stored := t_stored s3 @ take pkt_read (drop pkt_first (t_buf s3))\<rparr>))"

definition input_pass :: "'p Tsp \<Rightarrow> 'p Tsp" where
  "input_pass s =
     (let l = t_loc s 0;
          (r, _) = passPackets 0 (lo_cnt l) (pe_tsp_bitrate (rg_ex (t_ring s) 0)) (lo_input_end l) False (t_ring s)
      in set_loc 0 (l\<lparr>lo_pc := (if lo_input_end l then Stopped else Waiting)\<rparr>) (s\<lparr>t_ring := r\<rparr>))"

section \<open>Packet processor executors\<close>

definition processor_wait :: "nat \<Rightarrow> 'p Tsp \<Rightarrow> 'p Tsp" where
  "processor_wait i s =
     (case waitWork i (t_ring s) of
        (r, None) \<Rightarrow> s\<lparr>t_ring := r\<rparr>
      | (r, Some w) \<Rightarrow>
          let l = (t_loc s i)\<lparr>lo_input_end := wk_input_end w, lo_aborted := wk_aborted w,
                     lo_output_bitrate := (if lo_never_modified (t_loc s i) then wk_bitrate w
                                           else lo_output_bitrate (t_loc s i))\<rparr>
          in set_loc i
               (if wk_aborted w \<or> wk_cnt w = 0 \<and> wk_input_end w then l\<lparr>lo_pc := Leaving\<rparr>
                else l\<lparr>lo_pc := Looping, lo_first := wk_first w, lo_cnt := wk_cnt w, lo_done := 0, lo_flush := 0\<rparr>)
               (s\<lparr>t_ring := set_tsp_bitrate i (wk_bitrate w) r\<rparr>))"

definition processor_leave :: "nat \<Rightarrow> 'p Tsp \<Rightarrow> 'p Tsp" where
  "processor_leave i s =
     (let l = t_loc s i; (r, _) = passPackets i 0 (lo_output_bitrate l) True (lo_aborted l) (t_ring s)
      in set_loc i (l\<lparr>lo_pc := Stopped\<rparr>) (s\<lparr>t_ring := r\<rparr>))"

text \<open>One packet of the inner loop. \<open>dropped_packet\<close> is the mark that the code uses: a null first byte.\<close>

definition dropped_packet :: "TSPacket \<Rightarrow> bool" where
  "dropped_packet pkt \<longleftrightarrow> pkt ! 0 = 0"

definition result_packet :: "ProcResult \<Rightarrow> TSPacket" where
  "result_packet rs =
     (case rs_status rs of TSP_NULL \<Rightarrow> NullPacket | TSP_DROP \<Rightarrow> (rs_packet rs)[0 := 0] | _ \<Rightarrow> rs_packet rs)"

definition processor_packet :: "TspOptions \<Rightarrow> 'p Plugins \<Rightarrow> nat \<Rightarrow> 'p Tsp \<Rightarrow> 'p Tsp" where
  "processor_packet opts P i s =
     (let l0 = t_loc s i;
          pos = lo_first l0 + lo_done l0;
          pkt = t_buf s ! pos;
          l1 = l0\<lparr>lo_done := lo_done l0 + 1, lo_flush := lo_flush l0 + 1\<rparr>;
          (s2, l2, flush_request) =
            (if dropped_packet pkt then (s, l1, False)
             else
               let (p, rs) = pl_process P i (t_plug s i) pkt;
                   s1 = s\<lparr>t_plug := (t_plug s)(i := p), t_buf := (t_buf s)[pos := result_packet rs],
                          t_ring := (if rs_joint_terminate rs then jointTerminate i (t_ring s) else t_ring s)\<rparr>;
                   l2 = (if rs_status rs = TSP_END
                         then l1\<lparr>lo_input_end := True, lo_aborted := True, lo_done := lo_done l0, lo_flush := lo_flush l0,
                                 lo_cnt := lo_done l0\<rparr>
                         else l1);
                   new_bitrate = pl_getBitrate P p;
                   l3 = (if rs_bitrate_changed rs \<and> new_bitrate \<noteq> 0
                         then l2\<lparr>lo_never_modified := False, lo_output_bitrate := new_bitrate\<rparr> else l2)
               in (s1, l3, rs_flush_request rs));
          s3 = s2\<lparr>t_ring := addTotalPackets i 1 (t_ring s2)\<rparr>;
          flush = (flush_request \<or> lo_done l2 = lo_cnt l2 \<or>
                   op_max_flush_pkt opts > 0 \<and> lo_flush l2 mod op_max_flush_pkt opts = 0)
      in set_loc i (if flush then l2\<lparr>lo_pc := Flushing\<rparr> else l2) s3)"

definition processor_flush :: "nat \<Rightarrow> 'p Tsp \<Rightarrow> 'p Tsp" where
  "processor_flush i s =
     (let l = t_loc s i;
          (r, ok) = passPackets i (lo_flush l) (lo_output_bitrate l) (lo_done l = lo_cnt l \<and> lo_input_end l)
                      (lo_aborted l) (t_ring s)
      in set_loc i (l\<lparr>lo_pc := Looping, lo_flush := 0, lo_aborted := \<not> ok\<rparr>) (s\<lparr>t_ring := r\<rparr>))"

definition processor_loop :: "TspOptions \<Rightarrow> 'p Plugins \<Rightarrow> nat \<Rightarrow> 'p Tsp \<Rightarrow> 'p Tsp" where
  "processor_loop opts P i s =
     (let l = t_loc s i in
      if lo_done l < lo_cnt l \<and> \<not> lo_aborted l then processor_packet opts P i s
      else set_loc i (l\<lparr>lo_pc := (if \<not> lo_input_end l \<and> \<not> lo_aborted l then Waiting else Stopped)\<rparr>) s)"

section \<open>Output executor\<close>

definition output_index :: "'p Tsp \<Rightarrow> nat" where
  "output_index s = rg_n (t_ring s) - 1"

definition output_wait :: "'p Tsp \<Rightarrow> 'p Tsp" where
  "output_wait s =
     (let i = output_index s in
      case waitWork i (t_ring s) of
        (r, None) \<Rightarrow> s\<lparr>t_ring := r\<rparr>
      | (r, Some w) \<Rightarrow>
          set_loc i ((t_loc s i)\<lparr>lo_pc := Checking, lo_first := wk_first w, lo_cnt := wk_cnt w, lo_input_end := wk_input_end w\<rparr>)
            (s\<lparr>t_ring := set_tsp_bitrate i (wk_bitrate w) r\<rparr>))"

definition output_check :: "TspOptions \<Rightarrow> 'p Tsp \<Rightarrow> 'p Tsp" where
  "output_check opts s =
     (let i = output_index s; l = t_loc s i; r = t_ring s; aborted = pe_aborting (rg_ex r i);
          jt_limit = totalPacketsBeforeJointTermination (op_ignore_jt opts) r; total_pkts = pe_total (rg_ex r i)
      in set_loc i
           (if lo_cnt l = 0 \<and> lo_input_end l \<or> aborted then l\<lparr>lo_pc := Stopped, lo_aborted := aborted\<rparr>
            else if total_pkts + of_nat (lo_cnt l) > jt_limit then
              l\<lparr>lo_pc := Sending, lo_cnt := (if total_pkts > jt_limit then 0 else unat (jt_limit - total_pkts)), lo_aborted := True\<rparr>
            else l\<lparr>lo_pc := Sending, lo_aborted := False\<rparr>) s)"

text \<open>The segments of packets that are not dropped, sent one after the other. The result: the
  plugin, the packets to add to the total, the packets that were sent and whether all went well.\<close>

function send_segments :: "'p Plugins \<Rightarrow> 'p \<Rightarrow> TSPacket list \<Rightarrow> 'p \<times> nat \<times> TSPacket list \<times> bool" where
  "send_segments P p pkts =
     (if pkts = [] then (p, 0, [], True)
      else
        let drop_cnt = length (takeWhile dropped_packet pkts);
            rest = drop drop_cnt pkts;
            out_cnt = length (takeWhile (\<lambda>q. \<not> dropped_packet q) rest)
        in if out_cnt = 0 then (p, drop_cnt, [], True)
           else case pl_send P p (take out_cnt rest) of
                  (p', False) \<Rightarrow> (p', drop_cnt, [], False)
                | (p', True) \<Rightarrow> (case send_segments P p' (drop out_cnt rest) of (q, total_pkts, sent, ok) \<Rightarrow>
                                   (q, drop_cnt + out_cnt + total_pkts, take out_cnt rest @ sent, ok)))"
  by pat_completeness auto
termination
  by (relation "measure (\<lambda>(P, p, pkts). length pkts)") auto

declare send_segments.simps [simp del]

definition output_send :: "'p Plugins \<Rightarrow> 'p Tsp \<Rightarrow> 'p Tsp" where
  "output_send P s =
     (let i = output_index s; l = t_loc s i;
          (p, total_pkts, sent, ok) = send_segments P (t_plug s i) (take (lo_cnt l) (drop (lo_first l) (t_buf s)))
      in set_loc i (l\<lparr>lo_pc := Passing, lo_aborted := lo_aborted l \<or> \<not> ok\<rparr>)
           (s\<lparr>t_plug := (t_plug s)(i := p), t_ring := addTotalPackets i total_pkts (t_ring s), t_sent := t_sent s @ sent\<rparr>))"

definition output_pass :: "'p Tsp \<Rightarrow> 'p Tsp" where
  "output_pass s =
     (let i = output_index s; l = t_loc s i;
          (r, ok) = passPackets i (lo_cnt l) 0 False (lo_aborted l) (t_ring s)
      in set_loc i (l\<lparr>lo_pc := (if ok then Waiting else Stopped), lo_aborted := \<not> ok\<rparr>) (s\<lparr>t_ring := r\<rparr>))"

section \<open>The whole process\<close>

definition input_step :: "TspOptions \<Rightarrow> 'p Plugins \<Rightarrow> bool \<Rightarrow> 'p Tsp \<Rightarrow> 'p Tsp option" where
  "input_step opts P due s =
     (case lo_pc (t_loc s 0) of
        Waiting \<Rightarrow> if pe_asleep (rg_ex (t_ring s) 0) then None else Some (input_wait opts s)
      | Receiving \<Rightarrow> Some (input_receive opts P due s)
      | Passing \<Rightarrow> Some (input_pass s)
      | _ \<Rightarrow> None)"

definition processor_step :: "TspOptions \<Rightarrow> 'p Plugins \<Rightarrow> nat \<Rightarrow> 'p Tsp \<Rightarrow> 'p Tsp option" where
  "processor_step opts P i s =
     (case lo_pc (t_loc s i) of
        Waiting \<Rightarrow> if pe_asleep (rg_ex (t_ring s) i) then None else Some (processor_wait i s)
      | Leaving \<Rightarrow> Some (processor_leave i s)
      | Looping \<Rightarrow> Some (processor_loop opts P i s)
      | Flushing \<Rightarrow> Some (processor_flush i s)
      | _ \<Rightarrow> None)"

definition output_step :: "TspOptions \<Rightarrow> 'p Plugins \<Rightarrow> 'p Tsp \<Rightarrow> 'p Tsp option" where
  "output_step opts P s =
     (case lo_pc (t_loc s (output_index s)) of
        Waiting \<Rightarrow> if pe_asleep (rg_ex (t_ring s) (output_index s)) then None else Some (output_wait s)
      | Checking \<Rightarrow> Some (output_check opts s)
      | Sending \<Rightarrow> Some (output_send P s)
      | Passing \<Rightarrow> Some (output_pass s)
      | _ \<Rightarrow> None)"

text \<open>The interrupt handler sets the executors in abort state one by one, from the input on.\<close>

definition handleInterrupt :: "'p Tsp \<Rightarrow> 'p Tsp" where
  "handleInterrupt s = s\<lparr>t_ring := setAbort (t_interrupt s) (t_ring s), t_interrupt := t_interrupt s + 1\<rparr>"

inductive tsp_step :: "TspOptions \<Rightarrow> 'p Plugins \<Rightarrow> 'p Tsp \<Rightarrow> 'p Tsp \<Rightarrow> bool" for opts P where
  input_thread: "input_step opts P due s = Some s' \<Longrightarrow> tsp_step opts P s s'"
| processor_thread: "0 < i \<Longrightarrow> Suc i < rg_n (t_ring s) \<Longrightarrow> processor_step opts P i s = Some s' \<Longrightarrow> tsp_step opts P s s'"
| output_thread: "output_step opts P s = Some s' \<Longrightarrow> tsp_step opts P s s'"
| interrupt: "t_interrupt s < rg_n (t_ring s) \<Longrightarrow> tsp_step opts P s (handleInterrupt s)"

inductive tsp_reach :: "TspOptions \<Rightarrow> 'p Plugins \<Rightarrow> 'p Tsp \<Rightarrow> 'p Tsp \<Rightarrow> bool" for opts P s0 where
  start: "tsp_reach opts P s0 s0"
| step: "tsp_reach opts P s0 s \<Longrightarrow> tsp_step opts P s s' \<Longrightarrow> tsp_reach opts P s0 s'"

inductive_cases tsp_stepE: "tsp_step opts P s s'"

text \<open>The process before its threads start: the executors as constructed, with the joint termination
  that the plugins have asked for when they started, then \<open>initAllBuffers\<close>.\<close>

definition Local_new :: "BitRate \<Rightarrow> Local" where
  "Local_new tsp_bitrate = \<lparr>lo_pc = Waiting, lo_first = 0, lo_cnt = 0, lo_done = 0, lo_flush = 0, lo_input_end = False,
     lo_aborted = False, lo_output_bitrate = tsp_bitrate, lo_never_modified = True, lo_plugin_completed = False\<rparr>"

definition tsp_new :: "TspOptions \<Rightarrow> (nat \<Rightarrow> 'p) \<Rightarrow> nat list \<Rightarrow> nat \<Rightarrow> TSPacket list \<Rightarrow> 'p Tsp" where
  "tsp_new opts plugs joint n buf =
     \<lparr>t_ring = foldl (\<lambda>r i. useJointTermination i True r) (Ring_new n (length buf)) joint,
      t_buf = buf, t_plug = plugs,
      t_in = \<lparr>in_total_in_packets = 0, in_sync_lost = False, in_start_remain = op_instuff_start opts,
              in_stop_remain = op_instuff_stop opts, in_nullpkt_remain = 0, in_inpkt_remain = 0\<rparr>,
      t_loc = (\<lambda>_. Local_new 0), t_interrupt = 0, t_stored = [], t_sent = []\<rparr>"

definition start_threads :: "'p Tsp \<Rightarrow> 'p Tsp" where
  "start_threads s = s\<lparr>t_loc := (\<lambda>i. Local_new (pe_tsp_bitrate (rg_ex (t_ring s) i)))\<rparr>"

definition tsp_start :: "TspOptions \<Rightarrow> 'p Plugins \<Rightarrow> (nat \<Rightarrow> 'p) \<Rightarrow> nat list \<Rightarrow> nat \<Rightarrow> TSPacket list \<Rightarrow> 'p Tsp option" where
  "tsp_start opts P plugs joint n buf = map_option start_threads (initAllBuffers opts P (tsp_new opts plugs joint n buf))"

end
