(* ===== verification/Ts_Tsp_Inv.thy ===== *)
theory Ts_Tsp_Inv
  imports Ts_Tsp
begin

text \<open>
  This theory proves the invariants of the threads of \<open>tsp\<close>. \<open>ctl\<close> describes every thread by its own
  executor, its local variables and the executor of its successor, so that a step of one thread is
  one lemma on its own description and one (\<open>node_others\<close>) on all others. \<open>shape\<close> adds the
  partition of the buffer (\<open>ring_ok\<close>) and the counters of joint termination; every
  handler keeps it.
\<close>


section \<open>Control invariant\<close>

text \<open>The window of the buffer on which a thread works lies in the area of its executor.\<close>

definition window_ok :: "nat \<Rightarrow> Executor \<Rightarrow> Local \<Rightarrow> bool" where
  "window_ok N e l \<longleftrightarrow>
     (if lo_pc l \<in> {Looping, Flushing} then
        lo_done l \<le> lo_cnt l \<and> lo_flush l \<le> lo_done l \<and> lo_first l + lo_cnt l \<le> N \<and>
        (lo_done l < lo_cnt l \<or> 0 < lo_flush l \<longrightarrow> pe_first e + lo_flush l = lo_first l + lo_done l) \<and>
        lo_flush l + (lo_cnt l - lo_done l) \<le> pe_cnt e \<and>
        (lo_pc l = Looping \<and> (lo_aborted l \<or> lo_done l = lo_cnt l) \<longrightarrow> lo_flush l = 0)
      else lo_pc l \<in> {Receiving, Checking, Sending, Passing} \<longrightarrow>
        lo_first l = pe_first e \<and> lo_cnt l \<le> pe_cnt e \<and> lo_first l + lo_cnt l \<le> N)"

text \<open>A thread that sleeps has nothing to do: no signal is lost.\<close>

definition sleep_ok :: "Executor \<Rightarrow> Local \<Rightarrow> Executor \<Rightarrow> bool" where
  "sleep_ok e l e1 \<longleftrightarrow> pe_asleep e \<longrightarrow>
     lo_pc l = Waiting \<and> pe_cnt e = 0 \<and> \<not> pe_input_end e \<and> \<not> pe_aborting e1"

text \<open>A thread that has ended or is about to.\<close>

definition leaves :: "Local \<Rightarrow> bool" where
  "leaves l \<longleftrightarrow> lo_pc l = Stopped \<or> lo_pc l = Looping \<and> lo_aborted l"

text \<open>All that the end of a thread tells to its neighbours, in terms of its executor \<open>e\<close>, its local
  variables \<open>l\<close> and the executor \<open>e1\<close> of its successor.\<close>

definition input_ctl :: "Executor \<Rightarrow> Local \<Rightarrow> Executor \<Rightarrow> bool" where
  "input_ctl e l e1 \<longleftrightarrow> lo_pc l \<in> {Waiting, Receiving, Passing, Stopped} \<and> \<not> pe_input_end e \<and>
     (pe_input_end e1 \<longrightarrow> lo_pc l = Stopped) \<and> (lo_pc l = Stopped \<longrightarrow> pe_input_end e1 \<or> pe_aborting e1)"

definition processor_ctl :: "nat \<Rightarrow> nat \<Rightarrow> Executor \<Rightarrow> Local \<Rightarrow> Executor \<Rightarrow> bool" where
  "processor_ctl k i e l e1 \<longleftrightarrow> lo_pc l \<in> {Waiting, Leaving, Looping, Flushing, Stopped} \<and>
     (pe_input_end e1 \<longrightarrow> leaves l) \<and> (pe_aborting e \<longrightarrow> i < k \<or> leaves l) \<and>
     (leaves l \<longrightarrow> (pe_input_end e1 \<or> pe_aborting e1) \<and> (pe_aborting e \<or> pe_input_end e \<and> pe_cnt e = 0)) \<and>
     (lo_pc l = Leaving \<longrightarrow> (if lo_aborted l then pe_aborting e1 else pe_input_end e \<and> pe_cnt e = 0)) \<and>
     (lo_pc l \<in> {Looping, Flushing} \<and> lo_input_end l \<and> \<not> lo_aborted l \<longrightarrow>
        pe_input_end e \<and> lo_flush l + (lo_cnt l - lo_done l) = pe_cnt e) \<and>
     (lo_pc l = Looping \<and> lo_input_end l \<longrightarrow> lo_done l < lo_cnt l \<or> lo_aborted l) \<and>
     (lo_pc l = Flushing \<and> lo_aborted l \<longrightarrow> lo_input_end l \<and> lo_done l = lo_cnt l)"

definition output_ctl :: "nat \<Rightarrow> nat \<Rightarrow> Executor \<Rightarrow> Local \<Rightarrow> Executor \<Rightarrow> bool" where
  "output_ctl k i e l e1 \<longleftrightarrow> lo_pc l \<in> {Waiting, Checking, Sending, Passing, Stopped} \<and>
     (pe_aborting e \<longrightarrow> i < k \<or> lo_pc l = Stopped) \<and>
     (lo_pc l = Stopped \<longrightarrow> (if lo_aborted l then pe_aborting e else pe_input_end e \<and> pe_cnt e = 0)) \<and>
     (lo_pc l = Waiting \<longrightarrow> \<not> lo_aborted l) \<and> (lo_pc l = Checking \<longrightarrow> \<not> lo_aborted l) \<and>
     (lo_pc l = Checking \<and> lo_input_end l \<longrightarrow> pe_input_end e \<and> lo_cnt l = pe_cnt e)"

definition node :: "nat \<Rightarrow> nat \<Rightarrow> nat \<Rightarrow> nat \<Rightarrow> Executor \<Rightarrow> Local \<Rightarrow> Executor \<Rightarrow> bool" where
  "node n N k i e l e1 \<longleftrightarrow> window_ok N e l \<and> sleep_ok e l e1 \<and> (i < k \<longrightarrow> pe_aborting e) \<and>
     (if i = 0 then input_ctl e l e1 else if Suc i = n then output_ctl k i e l e1 else processor_ctl k i e l e1)"

definition ctl :: "Ring \<Rightarrow> (nat \<Rightarrow> Local) \<Rightarrow> nat \<Rightarrow> bool" where
  "ctl r loc k \<longleftrightarrow> k \<le> rg_n r \<and>
     (\<forall>i < rg_n r. node (rg_n r) (rg_count r) k i (rg_ex r i) (loc i) (rg_ex r (ringNext r i)))"

text \<open>What the other threads may do to an executor and to its successor.\<close>

definition others :: "nat \<Rightarrow> Executor \<Rightarrow> Executor \<Rightarrow> Executor \<Rightarrow> Executor \<Rightarrow> nat \<Rightarrow> bool" where
  "others i e e1 e' e1' k' \<longleftrightarrow> pe_first e' = pe_first e \<and> pe_cnt e \<le> pe_cnt e' \<and>
     (pe_input_end e \<longrightarrow> pe_input_end e' \<and> pe_cnt e' = pe_cnt e) \<and> (i = 0 \<longrightarrow> pe_input_end e' = pe_input_end e) \<and>
     (pe_aborting e \<longrightarrow> pe_aborting e') \<and> (pe_aborting e1 \<longrightarrow> pe_aborting e1') \<and>
     (pe_input_end e1' \<longleftrightarrow> pe_input_end e1) \<and>
     (pe_asleep e' \<longrightarrow> pe_asleep e \<and> pe_cnt e' = pe_cnt e \<and> pe_input_end e' = pe_input_end e \<and> pe_aborting e1' = pe_aborting e1) \<and>
     (pe_aborting e' \<longrightarrow> pe_aborting e \<or> i < k')"

lemma window_ok_others: "window_ok N e l \<Longrightarrow> pe_first e' = pe_first e \<Longrightarrow> pe_cnt e \<le> pe_cnt e' \<Longrightarrow> window_ok N e' l"
  by (auto simp: window_ok_def)

lemma input_ctl_others: "input_ctl e l e1 \<Longrightarrow> others 0 e e1 e' e1' k' \<Longrightarrow> input_ctl e' l e1'"
  by (auto simp: input_ctl_def others_def)

lemma processor_ctl_others:
  assumes "processor_ctl k i e l e1" and "others i e e1 e' e1' k'" and "k \<le> k'"
  shows "processor_ctl k' i e' l e1'"
proof -
  have "pe_input_end e \<Longrightarrow> pe_input_end e' \<and> pe_cnt e' = pe_cnt e" "pe_aborting e \<Longrightarrow> pe_aborting e'"
    "pe_aborting e1 \<Longrightarrow> pe_aborting e1'" "pe_input_end e1' = pe_input_end e1" "pe_aborting e' \<Longrightarrow> pe_aborting e \<or> i < k'"
    using assms(2) by (auto simp: others_def)
  with assms(1,3) show ?thesis unfolding processor_ctl_def by (intro conjI; metis less_le_trans)
qed

lemma output_ctl_others:
  assumes "output_ctl k i e l e1" and "others i e e1 e' e1' k'" and "k \<le> k'"
  shows "output_ctl k' i e' l e1'"
proof -
  have "pe_input_end e \<Longrightarrow> pe_input_end e' \<and> pe_cnt e' = pe_cnt e" "pe_aborting e \<Longrightarrow> pe_aborting e'"
    "pe_aborting e' \<Longrightarrow> pe_aborting e \<or> i < k'"
    using assms(2) by (auto simp: others_def)
  with assms(1,3) show ?thesis unfolding output_ctl_def by (intro conjI; metis less_le_trans)
qed

lemma node_others:
  assumes "node n N k i e l e1" and o1: "others i e e1 e' e1' k'" and "k \<le> k'" and "i < k' \<Longrightarrow> i < k \<or> pe_aborting e'"
  shows "node n N k' i e' l e1'"
proof -
  have "window_ok N e' l" using assms(1) o1 by (auto simp: node_def others_def intro: window_ok_others)
  moreover have "sleep_ok e' l e1'" using assms(1) o1 by (auto simp: node_def others_def sleep_ok_def)
  moreover have "i < k' \<longrightarrow> pe_aborting e'" using assms by (auto simp: node_def others_def)
  ultimately show ?thesis
    using assms(1) o1 assms(3) by (auto simp: node_def intro: input_ctl_others processor_ctl_others output_ctl_others)
qed

lemma passPackets_others:
  assumes n: "2 \<le> rg_n r" and i: "i < rg_n r" "k < rg_n r" "k \<noteq> i" and p: "passPackets i c b ie ab r = (r', ok)"
    and "k = ringNext r i \<Longrightarrow> pe_input_end (rg_ex r k) \<Longrightarrow> c = 0" and "ringNext r i = 0 \<Longrightarrow> \<not> ie"
  shows "others k (rg_ex r k) (rg_ex r (ringNext r k)) (rg_ex r' k) (rg_ex r' (ringNext r k)) j"
proof -
  note f = passPackets_fields [OF n i(1) p]
  have next_neq: "ringNext r k \<noteq> ringNext r i" using i n by (auto simp: ringNext_def split: if_splits)
  have prev: "ringNext r k = i \<Longrightarrow> k = ringPrevious r i" using ringPrevious_eq [OF n i(1,2)] by simp
  show ?thesis unfolding others_def using assms(3-) next_neq prev
    by (auto simp: f)
qed

lemma ctl_pass:
  assumes ctl: "ctl r loc k" and n: "2 \<le> rg_n r" and i: "i < rg_n r" and p: "passPackets i c b ie ab r = (r', ok)"
    and "pe_input_end (rg_ex r (ringNext r i)) \<Longrightarrow> c = 0" and "ringNext r i = 0 \<Longrightarrow> \<not> ie"
    and own: "node (rg_n r) (rg_count r) k i (rg_ex r' i) l' (rg_ex r' (ringNext r i))"
  shows "ctl r' (loc(i := l')) k"
proof -
  note f = passPackets_fields [OF n i p]
  have "node (rg_n r) (rg_count r) k j (rg_ex r' j) ((loc(i := l')) j) (rg_ex r' (ringNext r j))" if "j < rg_n r" for j
  proof (cases "j = i")
    case True
    with own show ?thesis by simp
  next
    case False
    have "others j (rg_ex r j) (rg_ex r (ringNext r j)) (rg_ex r' j) (rg_ex r' (ringNext r j)) k"
      by (rule passPackets_others [OF n i that False p]) (use assms(5,6) in auto)
    then show ?thesis using ctl that False by (auto simp: ctl_def intro: node_others)
  qed
  moreover have "ringNext r' = ringNext r" by (auto simp: ringNext_def f(1))
  ultimately show ?thesis using ctl by (auto simp: ctl_def f(1,2))
qed

text \<open>Steps that change nothing that the other threads see.\<close>

lemma ctl_local:
  assumes ctl: "ctl r loc k" and "rg_n r' = rg_n r" "rg_count r' = rg_count r"
    and other: "\<And>j. j \<noteq> i \<Longrightarrow> pe_first (rg_ex r' j) = pe_first (rg_ex r j) \<and> pe_cnt (rg_ex r' j) = pe_cnt (rg_ex r j) \<and>
        pe_input_end (rg_ex r' j) = pe_input_end (rg_ex r j) \<and> pe_aborting (rg_ex r' j) = pe_aborting (rg_ex r j) \<and>
        pe_asleep (rg_ex r' j) = pe_asleep (rg_ex r j)"
    and seen: "pe_input_end (rg_ex r' i) = pe_input_end (rg_ex r i)" "pe_aborting (rg_ex r' i) = pe_aborting (rg_ex r i)"
    and own: "node (rg_n r) (rg_count r) k i (rg_ex r' i) l' (rg_ex r' (ringNext r i))"
  shows "ctl r' (loc(i := l')) k"
proof -
  have "node (rg_n r) (rg_count r) k j (rg_ex r' j) ((loc(i := l')) j) (rg_ex r' (ringNext r j))" if "j < rg_n r" for j
  proof (cases "j = i")
    case True
    with own show ?thesis by simp
  next
    case False
    have "others j (rg_ex r j) (rg_ex r (ringNext r j)) (rg_ex r' j) (rg_ex r' (ringNext r j)) k"
      using other [OF False] other [of "ringNext r j"] seen by (cases "ringNext r j = i") (auto simp: others_def)
    then show ?thesis using ctl that False by (auto simp: ctl_def intro: node_others)
  qed
  moreover have "ringNext r' = ringNext r" by (auto simp: ringNext_def assms(2))
  ultimately show ?thesis using ctl by (auto simp: ctl_def assms(2,3))
qed

lemma ctl_node:
  "ctl r loc k \<Longrightarrow> i < rg_n r \<Longrightarrow> node (rg_n r) (rg_count r) k i (rg_ex r i) (loc i) (rg_ex r (ringNext r i))"
  by (simp add: ctl_def)

section \<open>Frames of the small operations\<close>

lemma addTotalPackets_fields [simp]:
  "rg_n (addTotalPackets i c r) = rg_n r" "rg_count (addTotalPackets i c r) = rg_count r"
  "rg_failed (addTotalPackets i c r) = rg_failed r" "jt_users (addTotalPackets i c r) = jt_users r"
  "jt_remaining (addTotalPackets i c r) = jt_remaining r"
  "pe_first (rg_ex (addTotalPackets i c r) j) = pe_first (rg_ex r j)"
  "pe_cnt (rg_ex (addTotalPackets i c r) j) = pe_cnt (rg_ex r j)"
  "pe_input_end (rg_ex (addTotalPackets i c r) j) = pe_input_end (rg_ex r j)"
  "pe_aborting (rg_ex (addTotalPackets i c r) j) = pe_aborting (rg_ex r j)"
  "pe_asleep (rg_ex (addTotalPackets i c r) j) = pe_asleep (rg_ex r j)"
  "pe_use_jt (rg_ex (addTotalPackets i c r) j) = pe_use_jt (rg_ex r j)"
  "pe_jt_completed (rg_ex (addTotalPackets i c r) j) = pe_jt_completed (rg_ex r j)"
  by (simp_all add: addTotalPackets_def)

lemma set_tsp_bitrate_fields [simp]:
  "rg_n (set_tsp_bitrate i b r) = rg_n r" "rg_count (set_tsp_bitrate i b r) = rg_count r"
  "rg_failed (set_tsp_bitrate i b r) = rg_failed r" "jt_users (set_tsp_bitrate i b r) = jt_users r"
  "jt_remaining (set_tsp_bitrate i b r) = jt_remaining r"
  "pe_first (rg_ex (set_tsp_bitrate i b r) j) = pe_first (rg_ex r j)"
  "pe_cnt (rg_ex (set_tsp_bitrate i b r) j) = pe_cnt (rg_ex r j)"
  "pe_input_end (rg_ex (set_tsp_bitrate i b r) j) = pe_input_end (rg_ex r j)"
  "pe_aborting (rg_ex (set_tsp_bitrate i b r) j) = pe_aborting (rg_ex r j)"
  "pe_asleep (rg_ex (set_tsp_bitrate i b r) j) = pe_asleep (rg_ex r j)"
  "pe_use_jt (rg_ex (set_tsp_bitrate i b r) j) = pe_use_jt (rg_ex r j)"
  "pe_jt_completed (rg_ex (set_tsp_bitrate i b r) j) = pe_jt_completed (rg_ex r j)"
  by (simp_all add: set_tsp_bitrate_def)

lemma jointTerminate_fields [simp]:
  "rg_n (jointTerminate i r) = rg_n r" "rg_count (jointTerminate i r) = rg_count r"
  "jt_users (jointTerminate i r) = jt_users r"
  "pe_first (rg_ex (jointTerminate i r) j) = pe_first (rg_ex r j)"
  "pe_cnt (rg_ex (jointTerminate i r) j) = pe_cnt (rg_ex r j)"
  "pe_input_end (rg_ex (jointTerminate i r) j) = pe_input_end (rg_ex r j)"
  "pe_aborting (rg_ex (jointTerminate i r) j) = pe_aborting (rg_ex r j)"
  "pe_asleep (rg_ex (jointTerminate i r) j) = pe_asleep (rg_ex r j)"
  "pe_use_jt (rg_ex (jointTerminate i r) j) = pe_use_jt (rg_ex r j)"
  by (simp_all add: jointTerminate_def Let_def)

lemma ringNext_cong: "rg_n r' = rg_n r \<Longrightarrow> ringNext r' = ringNext r"
  by (simp add: fun_eq_iff ringNext_def)

section \<open>Joint termination\<close>

text \<open>The counters count the plugins that use joint termination and those not yet completed.\<close>

definition jt_ok :: "Ring \<Rightarrow> bool" where
  "jt_ok r \<longleftrightarrow> jt_users r = int (card {i. i < rg_n r \<and> pe_use_jt (rg_ex r i)}) \<and>
     jt_remaining r = int (card {i. i < rg_n r \<and> pe_use_jt (rg_ex r i) \<and> \<not> pe_jt_completed (rg_ex r i)})"

lemma jt_ok_cong:
  "jt_ok r \<Longrightarrow> rg_n r' = rg_n r \<Longrightarrow> jt_users r' = jt_users r \<Longrightarrow> jt_remaining r' = jt_remaining r \<Longrightarrow>
   (\<And>j. pe_use_jt (rg_ex r' j) = pe_use_jt (rg_ex r j)) \<Longrightarrow>
   (\<And>j. pe_jt_completed (rg_ex r' j) = pe_jt_completed (rg_ex r j)) \<Longrightarrow> jt_ok r'"
  by (simp add: jt_ok_def)

lemma jointTerminate_jt_ok:
  assumes "jt_ok r" and "i < rg_n r"
  shows "jt_ok (jointTerminate i r)" and "rg_failed (jointTerminate i r) = rg_failed r"
proof -
  let ?S = "{j. j < rg_n r \<and> pe_use_jt (rg_ex r j) \<and> \<not> pe_jt_completed (rg_ex r j)}"
  have fin: "finite ?S" by simp
  have "jt_ok (jointTerminate i r) \<and> rg_failed (jointTerminate i r) = rg_failed r"
  proof (cases "pe_use_jt (rg_ex r i) \<and> \<not> pe_jt_completed (rg_ex r i)")
    case True
    let ?r = "jointTerminate i r"
    have "i \<in> ?S" using True assms(2) by simp
    then have pos: "0 < card ?S" using fin by (metis card_gt_0_iff empty_iff)
    have users: "{j. j < rg_n ?r \<and> pe_use_jt (rg_ex ?r j)} = {j. j < rg_n r \<and> pe_use_jt (rg_ex r j)}" by simp
    have "{j. j < rg_n ?r \<and> pe_use_jt (rg_ex ?r j) \<and> \<not> pe_jt_completed (rg_ex ?r j)} = ?S - {i}"
      using True by (auto simp: jointTerminate_def Let_def)
    then have "card {j. j < rg_n ?r \<and> pe_use_jt (rg_ex ?r j) \<and> \<not> pe_jt_completed (rg_ex ?r j)} = card ?S - 1"
      using \<open>i \<in> ?S\<close> by simp
    moreover have "jt_remaining ?r = jt_remaining r - 1" using True by (simp add: jointTerminate_def Let_def)
    ultimately have "jt_ok ?r" using assms(1) pos unfolding jt_ok_def users by (simp add: of_nat_diff)
    moreover have "rg_failed ?r = rg_failed r"
      using True assms(1) pos by (simp add: jointTerminate_def Let_def jt_ok_def)
    ultimately show ?thesis by simp
  next
    case False
    then have "jointTerminate i r = r" unfolding jointTerminate_def Let_def by (metis (no_types, lifting))
    with assms(1) show ?thesis by simp
  qed
  then show "jt_ok (jointTerminate i r)" and "rg_failed (jointTerminate i r) = rg_failed r" by simp_all
qed

section \<open>Reading into the own area\<close>

text \<open>The documented contract of \<open>InputPlugin::receive\<close>: at most the given number of packets.\<close>

definition receive_ok :: "'p Plugins \<Rightarrow> bool" where
  "receive_ok P \<longleftrightarrow> (\<forall>p m. length (snd (pl_receive P p m)) \<le> m)"

text \<open>What reading of at most \<open>m\<close> packets at \<open>pos\<close> leaves alone.\<close>

definition reads :: "nat \<Rightarrow> nat \<Rightarrow> 'p Tsp \<Rightarrow> 'p Tsp \<Rightarrow> bool" where
  "reads pos m s s' \<longleftrightarrow> t_loc s' = t_loc s \<and> t_interrupt s' = t_interrupt s \<and> t_stored s' = t_stored s \<and>
     t_sent s' = t_sent s \<and> t_ring s' = t_ring s \<and> (\<forall>i. i \<noteq> 0 \<longrightarrow> t_plug s' i = t_plug s i) \<and> length (t_buf s') = length (t_buf s) \<and>
     (\<forall>k. k < pos \<or> pos + m \<le> k \<longrightarrow> t_buf s' ! k = t_buf s ! k)"

lemma reads_refl: "reads pos m s s"
  by (simp add: reads_def)

lemma reads_trans: "reads pos m s s1 \<Longrightarrow> reads pos' m' s1 s' \<Longrightarrow> pos \<le> pos' \<Longrightarrow> pos' + m' \<le> pos + m \<Longrightarrow> reads pos m s s'"
  by (auto simp: reads_def)

lemma reads_in [simp]: "reads pos m s (s'\<lparr>t_in := x\<rparr>) = reads pos m s s'" "reads pos m (s\<lparr>t_in := x\<rparr>) s' = reads pos m s s'"
  by (simp_all add: reads_def)

lemma store_nulls_in [simp]: "t_in (store_nulls pos k s) = t_in s" "t_ring (store_nulls pos k s) = t_ring s"
  by (simp_all add: store_nulls_def)

lemma reads_nulls: "pos + k \<le> length (t_buf s) \<Longrightarrow> reads pos k s (store_nulls pos k s)"
  by (simp add: reads_def store_nulls_def nth_memcpy_at)

lemma reads_receive:
  assumes "receive_ok P" and "pos + m \<le> length (t_buf s)" and "receiveAndValidate P pos m s = (s', c)"
  shows "reads pos m s s' \<and> c \<le> m"
proof (cases "in_sync_lost (t_in s)")
  case True
  with assms(3) show ?thesis by (simp add: receiveAndValidate_def reads_refl)
next
  case False
  obtain p pkts where r: "pl_receive P (t_plug s 0) m = (p, pkts)" by force
  then have len: "length pkts \<le> m" using assms(1) by (metis receive_ok_def snd_conv)
  then have "length (takeWhile hasValidSync pkts) \<le> m" using length_takeWhile_le le_trans by blast
  moreover have "reads pos m s s'"
    using False assms(2,3) r len by (auto simp: receiveAndValidate_def Let_def reads_def nth_memcpy_at)
  moreover have "c = length (takeWhile hasValidSync pkts)"
    using False assms(3) r by (simp add: receiveAndValidate_def Let_def)
  ultimately show ?thesis by simp
qed

lemma reads_length: "reads pos m s s' \<Longrightarrow> length (t_buf s') = length (t_buf s)"
  by (simp add: reads_def)

lemma reads_stuff_read:
  assumes "receive_ok P" and "pos + m \<le> length (t_buf s)" and "stuff_read opts P pos m s = (s', c, mx)"
  shows "reads pos m s s' \<and> c \<le> mx \<and> mx \<le> m"
proof -
  define s2 where "s2 = (if in_nullpkt_remain (t_in s) = 0 \<and> in_inpkt_remain (t_in s) = 0
      then s\<lparr>t_in := (t_in s)\<lparr>in_inpkt_remain := op_instuff_inpkt opts\<rparr>\<rparr> else s)"
  define mp where "mp = min m (in_inpkt_remain (t_in s2))"
  obtain s3 c3 where r: "receiveAndValidate P pos mp s2 = (s3, c3)" by force
  have "mp \<le> m" "t_buf s2 = t_buf s" by (simp_all add: mp_def s2_def)
  then have "reads pos mp s2 s3 \<and> c3 \<le> mp"
    by (intro reads_receive [OF assms(1) _ r]) (use assms(2) in simp)
  moreover have "reads pos m s s2" by (simp add: s2_def reads_refl)
  ultimately have r3: "reads pos m s s3" using reads_trans [of pos m s s2 pos mp s3] by (simp add: mp_def)
  have "c = c3 \<and> mx = mp \<and> (\<exists>x. s' = s3\<lparr>t_in := x\<rparr> \<or> s' = s3)"
    using assms(3) r unfolding stuff_read_def Let_def s2_def [symmetric] mp_def [symmetric]
    by (auto split: if_splits)
  then show ?thesis using r3 \<open>reads pos mp s2 s3 \<and> c3 \<le> mp\<close> by (auto simp: mp_def)
qed

lemma reads_stuff_loop: "receive_ok P \<Longrightarrow> pos + m \<le> length (t_buf s) \<Longrightarrow> stuff_loop opts P pos m d f s = (s', res) \<Longrightarrow>
    reads pos m s s' \<and> (\<forall>c. res = Some c \<longrightarrow> c \<le> d + m)"
proof (induction opts P pos m d f s rule: stuff_loop.induct)
  case (1 opts P pos m d f s)
  let ?k = "in_nullpkt_remain (t_in s)"
  show ?case
  proof (cases "m = 0 \<or> op_instuff_inpkt opts = 0")
    case True
    with "1.prems"(3) show ?thesis by (auto simp: stuff_loop.simps [of opts P pos m] reads_refl)
  next
    case ne: False
    show ?thesis
    proof (cases "m \<le> ?k")
      case True
      with ne "1.prems" show ?thesis
        by (auto simp: stuff_loop.simps [of opts P pos m] stuff_nulls_def reads_nulls)
    next
      case k: False
      obtain s1 c mx where r: "stuff_read opts P (pos + ?k) (m - ?k) (stuff_nulls pos ?k s) = (s1, c, mx)"
        by (metis prod_cases3)
      have n: "reads pos ?k s (stuff_nulls pos ?k s)"
        using k "1.prems"(2) by (simp add: stuff_nulls_def reads_nulls)
      have rd: "reads (pos + ?k) (m - ?k) (stuff_nulls pos ?k s) s1 \<and> c \<le> mx \<and> mx \<le> m - ?k"
        by (rule reads_stuff_read [OF _ _ r]) (use "1.prems"(1) k "1.prems"(2) reads_length [OF n] in auto)
      have s1: "reads pos m s s1"
        using reads_trans [of pos m s "stuff_nulls pos ?k s" "pos + ?k" "m - ?k" s1] n rd k
        by (auto simp: reads_def)
      show ?thesis
      proof (cases "f + c = 0 \<or> c < mx")
        case True
        with "1.prems"(3) ne k r rd s1 show ?thesis
          by (auto simp: stuff_loop.simps [of opts P pos m] Let_def split: if_splits)
      next
        case False
        then have rest: "stuff_loop opts P (pos + ?k + c) (m - ?k - c) (d + ?k + c) (f + c) s1 = (s', res)"
          using "1.prems"(3) ne k r rd by (simp add: stuff_loop.simps [of opts P pos m] Let_def del: diff_diff_left split: if_splits)
        have "reads (pos + ?k + c) (m - ?k - c) s1 s' \<and> (\<forall>c'. res = Some c' \<longrightarrow> c' \<le> d + ?k + c + (m - ?k - c))"
          by (rule "1.IH" [OF ne k refl r [symmetric] refl _ _ _ _ _ rest])
            (use "1.prems"(1) False rd k "1.prems"(2) reads_length [OF s1] in auto)
        moreover have "pos + ?k + c + (m - ?k - c) \<le> pos + m" "d + ?k + c + (m - ?k - c) \<le> d + m" using rd k by auto
        ultimately show ?thesis using reads_trans [OF s1] by fastforce
      qed
    qed
  qed
qed

lemma receiveAndStuff_reads:
  assumes P: "receive_ok P" and b: "pos + m \<le> length (t_buf s)" and r: "receiveAndStuff opts P pos m s = (s', c)"
  shows "\<exists>s1. reads pos m s s1 \<and> (s' = s1 \<or> s' = s1\<lparr>t_ring := addTotalPackets 0 c (t_ring s)\<rparr>) \<and> c \<le> m"
proof -
  define k where "k = min (in_start_remain (t_in s)) m"
  define s1 where "s1 = (store_nulls pos k s)\<lparr>t_in := (t_in s)\<lparr>in_start_remain := in_start_remain (t_in s) - k\<rparr>\<rparr>"
  define q where "q = (if op_instuff_inpkt opts = 0
      then (case receiveAndValidate P (pos + k) (m - k) s1 of (s2, pkt_in) \<Rightarrow> (s2, Some (k + pkt_in)))
      else stuff_loop opts P (pos + k) (m - k) k 0 s1)"
  obtain s2 res where q2: "q = (s2, res)" by force
  have km: "k \<le> m" by (simp add: k_def)
  have rs1: "reads pos k s s1" using b km by (simp add: s1_def reads_nulls)
  have b1: "pos + k + (m - k) \<le> length (t_buf s1)" using b km reads_length [OF rs1] by simp
  have rq: "reads (pos + k) (m - k) s1 s2 \<and> (\<forall>c. res = Some c \<longrightarrow> c \<le> k + (m - k))"
  proof (cases "op_instuff_inpkt opts = 0")
    case True
    obtain s3 c3 where v: "receiveAndValidate P (pos + k) (m - k) s1 = (s3, c3)" by force
    then show ?thesis using reads_receive [OF P b1 v] True q2 by (auto simp: q_def)
  next
    case False
    then show ?thesis using reads_stuff_loop [OF P b1, of opts k 0 s2 res] q2 by (simp add: q_def)
  qed
  have s2: "reads pos m s s2" using rs1 rq reads_trans [of pos m s s1 "pos + k" "m - k" s2] km
    by (auto simp: reads_def)
  have "(s', c) = (case res of None \<Rightarrow> (s2, 0) | Some d \<Rightarrow> (s2\<lparr>t_ring := addTotalPackets 0 d (t_ring s2)\<rparr>, d))"
    using r q2 unfolding receiveAndStuff_def Let_def k_def [symmetric] s1_def [symmetric] q_def [symmetric] by simp
  moreover have "t_ring s2 = t_ring s" using s2 by (simp add: reads_def)
  ultimately show ?thesis using s2 rq km by (intro exI [of _ s2]) (auto split: option.splits)
qed

section \<open>Every step keeps the areas and the control invariant\<close>

definition shape :: "(nat \<Rightarrow> nat) \<Rightarrow> 'p Tsp \<Rightarrow> bool" where
  "shape A s \<longleftrightarrow> ring_ok A (t_ring s) \<and> ctl (t_ring s) (t_loc s) (t_interrupt s) \<and> jt_ok (t_ring s) \<and>
     \<not> rg_failed (t_ring s) \<and> length (t_buf s) = rg_count (t_ring s)"

lemma shape_n: "shape A s \<Longrightarrow> 2 \<le> rg_n (t_ring s)" and shape_count: "shape A s \<Longrightarrow> 0 < rg_count (t_ring s)"
  by (simp_all add: shape_def ring_ok_def)

lemma shape_node:
  "shape A s \<Longrightarrow> i < rg_n (t_ring s) \<Longrightarrow> node (rg_n (t_ring s)) (rg_count (t_ring s)) (t_interrupt s) i
     (rg_ex (t_ring s) i) (t_loc s i) (rg_ex (t_ring s) (ringNext (t_ring s) i))"
  by (simp add: shape_def ctl_def)

lemma shape_first: "shape A s \<Longrightarrow> i < rg_n (t_ring s) \<Longrightarrow> pe_first (rg_ex (t_ring s) i) < rg_count (t_ring s)"
  by (simp add: shape_def ring_ok_def)

lemma waitWork_None:
  "waitWork i r = (r', None) \<Longrightarrow> must_wait r i \<and> r' = r\<lparr>rg_ex := (rg_ex r)(i := (rg_ex r i)\<lparr>pe_asleep := True\<rparr>)\<rparr>"
  by (simp add: waitWork_def Let_def split: if_splits)

lemma waitWork_Some:
  "waitWork i r = (r', Some w) \<Longrightarrow> \<not> must_wait r i \<and> r' = r \<and> wk_first w = pe_first (rg_ex r i) \<and>
     wk_cnt w = min (pe_cnt (rg_ex r i)) (rg_count r - pe_first (rg_ex r i)) \<and>
     wk_input_end w = (pe_input_end (rg_ex r i) \<and> wk_cnt w = pe_cnt (rg_ex r i)) \<and>
     wk_aborted w = pe_aborting (rg_ex r (ringNext r i)) \<and> wk_bitrate w = pe_bitrate (rg_ex r i)"
  by (auto simp: waitWork_def Let_def split: if_splits)

text \<open>A step of a thread that changes its executor and its local variables only.\<close>

lemma shape_local:
  assumes s: "shape A s" and "rg_n r' = rg_n (t_ring s)" "rg_count r' = rg_count (t_ring s)"
    and "\<And>j. pe_first (rg_ex r' j) = pe_first (rg_ex (t_ring s) j)" "\<And>j. pe_cnt (rg_ex r' j) = pe_cnt (rg_ex (t_ring s) j)"
    and "\<And>j. pe_input_end (rg_ex r' j) = pe_input_end (rg_ex (t_ring s) j)" "\<And>j. pe_aborting (rg_ex r' j) = pe_aborting (rg_ex (t_ring s) j)"
    and "\<And>j. j \<noteq> i \<Longrightarrow> pe_asleep (rg_ex r' j) = pe_asleep (rg_ex (t_ring s) j)"
    and "jt_ok r'" "rg_failed r' = rg_failed (t_ring s)"
    and "node (rg_n (t_ring s)) (rg_count (t_ring s)) (t_interrupt s) i (rg_ex r' i) l' (rg_ex r' (ringNext (t_ring s) i))"
    and "t_ring s' = r'" "t_loc s' = (t_loc s)(i := l')" "t_interrupt s' = t_interrupt s" "length (t_buf s') = length (t_buf s)"
  shows "shape A s'"
proof -
  have "ctl r' ((t_loc s)(i := l')) (t_interrupt s)"
    by (rule ctl_local [where r = "t_ring s"]) (use assms in \<open>simp_all add: shape_def\<close>)
  then show ?thesis using assms ring_ok_cong [of A "t_ring s" r'] by (simp add: shape_def)
qed

text \<open>A step of a thread that passes packets.\<close>

lemma shape_pass:
  assumes s: "shape A s" and i: "i < rg_n (t_ring s)" and p: "passPackets i c b ie ab (t_ring s) = (r', ok)"
    and c: "c \<le> pe_cnt (rg_ex (t_ring s) i)" "pe_first (rg_ex (t_ring s) i) + c \<le> rg_count (t_ring s)"
    and "pe_input_end (rg_ex (t_ring s) (ringNext (t_ring s) i)) \<Longrightarrow> c = 0" and "Suc i = rg_n (t_ring s) \<Longrightarrow> \<not> ie"
    and own: "node (rg_n (t_ring s)) (rg_count (t_ring s)) (t_interrupt s) i (rg_ex r' i) l' (rg_ex r' (ringNext (t_ring s) i))"
    and s': "t_ring s' = r'" "t_loc s' = (t_loc s)(i := l')" "t_interrupt s' = t_interrupt s" "t_buf s' = t_buf s"
  shows "shape (A(i := A i + c)) s'"
proof -
  have ok: "ring_ok A (t_ring s)" and n: "2 \<le> rg_n (t_ring s)" using s by (simp_all add: shape_def ring_ok_def)
  note f = passPackets_fields [OF n i p]
  have "ctl r' ((t_loc s)(i := l')) (t_interrupt s)"
    by (rule ctl_pass [OF _ n i p _ _ own]) (use s assms(6,7) in \<open>auto simp: shape_def ringNext_def split: if_splits\<close>)
  moreover have "jt_ok r'" by (rule jt_ok_cong [of "t_ring s"]) (use s f in \<open>simp_all add: shape_def\<close>)
  ultimately show ?thesis
    using passPackets_ring_ok [OF ok i c(1) p] s s' c f(1-3) by (simp add: shape_def)
qed

lemma sleep_ok_awake: "\<not> pe_asleep e \<Longrightarrow> sleep_ok e l e1"
  by (simp add: sleep_ok_def)

lemma sleep_ok_busy: "sleep_ok e l e1 \<Longrightarrow> lo_pc l \<noteq> Waiting \<Longrightarrow> \<not> pe_asleep e"
  by (auto simp: sleep_ok_def)

text \<open>Going to sleep.\<close>

lemma shape_sleep:
  assumes s: "shape A s" and i: "i < rg_n (t_ring s)" and w: "waitWork i (t_ring s) = (r', None)"
    and pc: "lo_pc (t_loc s i) = Waiting" and s': "s' = s\<lparr>t_ring := r'\<rparr>"
  shows "shape A s'"
proof -
  note r = waitWork_None [OF w]
  have nx: "ringNext (t_ring s) i \<noteq> i" using ringNext_neq [OF shape_n [OF s] i] .
  note nd = shape_node [OF s i]
  have "node (rg_n (t_ring s)) (rg_count (t_ring s)) (t_interrupt s) i (rg_ex r' i) (t_loc s i) (rg_ex r' (ringNext (t_ring s) i))"
    using nd nx r pc by (auto simp: node_def window_ok_def sleep_ok_def must_wait_def input_ctl_def processor_ctl_def output_ctl_def leaves_def)
  moreover have "jt_ok r'" by (rule jt_ok_cong [of "t_ring s"]) (use s r in \<open>auto simp: shape_def\<close>)
  ultimately show ?thesis
    by (intro shape_local [OF s, of r' i "t_loc s i"]) (use r s' in auto)
qed

subsection \<open>Input\<close>

lemma shape_input_wait:
  assumes s: "shape A s" and pc: "lo_pc (t_loc s 0) = Waiting" "\<not> pe_asleep (rg_ex (t_ring s) 0)"
  shows "shape A (input_wait opts s)"
proof -
  have i: "0 < rg_n (t_ring s)" using shape_n [OF s] by simp
  obtain r w where w: "waitWork 0 (t_ring s) = (r, w)" by force
  note nd = shape_node [OF s i]
  show ?thesis
  proof (cases w)
    case None
    then show ?thesis using shape_sleep [OF s i _ pc(1) refl] w by (simp add: input_wait_def)
  next
    case (Some k)
    note k = waitWork_Some [OF w [unfolded Some]]
    define l' where "l' = (let l = (t_loc s 0)\<lparr>lo_input_end := wk_input_end k, lo_aborted := wk_aborted k\<rparr>
      in if wk_aborted k then l\<lparr>lo_pc := Stopped\<rparr>
         else l\<lparr>lo_pc := Receiving, lo_first := wk_first k,
                lo_cnt := (if op_max_input_pkt opts > 0 \<and> wk_cnt k > op_max_input_pkt opts then op_max_input_pkt opts else wk_cnt k)\<rparr>)"
    have st: "input_wait opts s = set_loc 0 l' (s\<lparr>t_ring := r\<rparr>)"
      using w Some by (simp add: input_wait_def l'_def Let_def)
    have "node (rg_n (t_ring s)) (rg_count (t_ring s)) (t_interrupt s) 0 (rg_ex r 0) l' (rg_ex r (ringNext (t_ring s) 0))"
      using nd k pc shape_first [OF s i] sleep_ok_awake [OF pc(2)]
      by (auto simp: node_def l'_def Let_def window_ok_def input_ctl_def)
    then show ?thesis unfolding st set_loc_def
      by (intro shape_local [OF s, of r 0 l']) (use s k in \<open>auto simp: shape_def\<close>)
  qed
qed

lemma shape_input_receive:
  assumes s: "shape A s" and pc: "lo_pc (t_loc s 0) = Receiving" and P: "receive_ok P"
  shows "\<exists>s1 c. reads (lo_first (t_loc s 0)) (lo_cnt (t_loc s 0)) s s1 \<and> c \<le> lo_cnt (t_loc s 0) \<and>
      t_buf (input_receive opts P due s) = t_buf s1 \<and> t_plug (input_receive opts P due s) = t_plug s1 \<and>
      t_sent (input_receive opts P due s) = t_sent s \<and>
      t_stored (input_receive opts P due s) = t_stored s @ take c (drop (lo_first (t_loc s 0)) (t_buf s1)) \<and>
      (\<exists>x y. t_loc (input_receive opts P due s) = (t_loc s)(0 := (t_loc s 0)\<lparr>lo_pc := Passing, lo_cnt := c, lo_input_end := x,
         lo_plugin_completed := y\<rparr>)) \<and> rg_n (t_ring (input_receive opts P due s)) = rg_n (t_ring s) \<and>
      rg_count (t_ring (input_receive opts P due s)) = rg_count (t_ring s) \<and> shape A (input_receive opts P due s)"
proof -
  have i: "0 < rg_n (t_ring s)" using shape_n [OF s] by simp
  note nd = shape_node [OF s i]
  define l where "l = t_loc s 0"
  have win: "lo_first l = pe_first (rg_ex (t_ring s) 0)" "lo_cnt l \<le> pe_cnt (rg_ex (t_ring s) 0)"
    "lo_first l + lo_cnt l \<le> length (t_buf s)" "\<not> pe_asleep (rg_ex (t_ring s) 0)"
    using nd pc s by (auto simp: node_def window_ok_def shape_def l_def dest: sleep_ok_busy)
  define q where "q = (if lo_plugin_completed l then (s, 0) else receiveAndStuff opts P (lo_first l) (lo_cnt l) s)"
  obtain s1 c1 where q1: "q = (s1, c1)" by force
  have "\<exists>s0. reads (lo_first l) (lo_cnt l) s s0 \<and> (s1 = s0 \<or> s1 = s0\<lparr>t_ring := addTotalPackets 0 c1 (t_ring s)\<rparr>) \<and> c1 \<le> lo_cnt l"
  proof (cases "lo_plugin_completed l")
    case True
    with q1 show ?thesis by (intro exI [of _ s]) (auto simp: q_def reads_refl)
  next
    case False
    with q1 show ?thesis using receiveAndStuff_reads [OF P win(3), of opts s1 c1] by (simp add: q_def)
  qed
  then obtain s0 where s0: "reads (lo_first l) (lo_cnt l) s s0" "s1 = s0 \<or> s1 = s0\<lparr>t_ring := addTotalPackets 0 c1 (t_ring s)\<rparr>"
    "c1 \<le> lo_cnt l" by blast
  define completed where "completed \<longleftrightarrow> lo_plugin_completed l \<or> c1 = 0"
  define k where "k = (if completed then min (in_stop_remain (t_in s1)) (lo_cnt l - c1) else 0)"
  define s2 where "s2 = (store_nulls (lo_first l + c1) k s1)\<lparr>t_in := (t_in s1)\<lparr>in_stop_remain := in_stop_remain (t_in s1) - k\<rparr>\<rparr>"
  have kc: "c1 + k \<le> lo_cnt l" using s0(3) by (auto simp: k_def)
  define bitrate where "bitrate = input_getBitrate opts P s2"
  define s3 where "s3 = (if op_bitrate opts = 0 \<and> due \<and> bitrate > 0
                then s2\<lparr>t_ring := set_tsp_bitrate 0 bitrate (t_ring s2)\<rparr> else s2)"
  define x where "x \<longleftrightarrow> completed \<and> in_stop_remain (t_in s2) = 0"
  define s' where "s' = input_receive opts P due s"
  have s': "s' = set_loc 0 (l\<lparr>lo_pc := Passing, lo_cnt := c1 + k, lo_input_end := x, lo_plugin_completed := completed\<rparr>)
      (s3\<lparr>t_stored := t_stored s3 @ take (c1 + k) (drop (lo_first l) (t_buf s3))\<rparr>)"
    unfolding s'_def input_receive_def Let_def l_def [symmetric] q_def [symmetric] q1 prod.case
      completed_def [symmetric] k_def [symmetric] s2_def [symmetric] bitrate_def [symmetric] s3_def [symmetric] x_def [symmetric]
    by (rule refl)
  have len: "length (t_buf s0) = length (t_buf s)" using s0(1) by (rule reads_length)
  define sb where "sb = s0\<lparr>t_buf := t_buf s2\<rparr>"
  have "t_buf s2 = memcpy_at (t_buf s0) (lo_first l + c1) (replicate k NullPacket)"
    using s0(2) by (auto simp: s2_def store_nulls_def)
  then have rd: "reads (lo_first l) (lo_cnt l) s sb"
    using s0(1) win(3) kc by (auto simp: reads_def sb_def nth_memcpy_at)
  have fr0: "t_loc s1 = t_loc s" "t_interrupt s1 = t_interrupt s" "t_stored s1 = t_stored s" "t_sent s1 = t_sent s"
    "t_plug s1 = t_plug s0" "t_ring s1 = t_ring s \<or> t_ring s1 = addTotalPackets 0 c1 (t_ring s)"
    using s0(1,2) unfolding reads_def by force+
  have fr: "t_buf s' = t_buf sb" "t_plug s' = t_plug sb" "t_sent s' = t_sent s" "t_interrupt s' = t_interrupt s"
    "t_stored s' = t_stored s @ take (c1 + k) (drop (lo_first l) (t_buf sb))"
    "t_loc s' = (t_loc s)(0 := l\<lparr>lo_pc := Passing, lo_cnt := c1 + k, lo_input_end := x, lo_plugin_completed := completed\<rparr>)"
    using fr0 by (simp_all add: s' set_loc_def s3_def s2_def sb_def store_nulls_def l_def)
  have ring: "t_ring s' = t_ring s \<or> t_ring s' = addTotalPackets 0 c1 (t_ring s) \<or> t_ring s' = set_tsp_bitrate 0 bitrate (t_ring s) \<or>
      t_ring s' = set_tsp_bitrate 0 bitrate (addTotalPackets 0 c1 (t_ring s))"
    using fr0(6) by (auto simp: s' set_loc_def s3_def s2_def store_nulls_def)
  have "shape A s'"
  proof (rule shape_local [OF s, of "t_ring s'" 0 "l\<lparr>lo_pc := Passing, lo_cnt := c1 + k, lo_input_end := x, lo_plugin_completed := completed\<rparr>"])
    show "jt_ok (t_ring s')" by (rule jt_ok_cong [of "t_ring s"]) (use s ring in \<open>auto simp: shape_def\<close>)
    show "node (rg_n (t_ring s)) (rg_count (t_ring s)) (t_interrupt s) 0 (rg_ex (t_ring s') 0)
      (l\<lparr>lo_pc := Passing, lo_cnt := c1 + k, lo_input_end := x, lo_plugin_completed := completed\<rparr>) (rg_ex (t_ring s') (ringNext (t_ring s) 0))"
      using nd ring kc win s pc by (auto simp: node_def window_ok_def sleep_ok_def input_ctl_def l_def shape_def)
    show "length (t_buf s') = length (t_buf s)" using fr(1) rd by (simp add: reads_def)
  qed (use ring fr in \<open>auto simp: l_def\<close>)
  moreover have "rg_n (t_ring s') = rg_n (t_ring s)" "rg_count (t_ring s') = rg_count (t_ring s)" using ring by auto
  ultimately show ?thesis using rd kc fr unfolding s'_def l_def by blast
qed

lemma shape_input_pass:
  assumes s: "shape A s" and pc: "lo_pc (t_loc s 0) = Passing"
  shows "shape (A(0 := A 0 + lo_cnt (t_loc s 0))) (input_pass s)"
proof -
  have i: "0 < rg_n (t_ring s)" using shape_n [OF s] by simp
  note nd = shape_node [OF s i]
  define l where "l = t_loc s 0"
  obtain r ok where p: "passPackets 0 (lo_cnt l) (pe_tsp_bitrate (rg_ex (t_ring s) 0)) (lo_input_end l) False (t_ring s) = (r, ok)" by force
  note f = passPackets_fields [OF shape_n [OF s] i p]
  have st: "input_pass s = set_loc 0 (l\<lparr>lo_pc := (if lo_input_end l then Stopped else Waiting)\<rparr>) (s\<lparr>t_ring := r\<rparr>)"
    using p by (simp add: input_pass_def l_def Let_def)
  have win: "lo_first l = pe_first (rg_ex (t_ring s) 0)" "lo_cnt l \<le> pe_cnt (rg_ex (t_ring s) 0)" "\<not> pe_asleep (rg_ex (t_ring s) 0)"
    "lo_first l + lo_cnt l \<le> rg_count (t_ring s)" "\<not> pe_input_end (rg_ex (t_ring s) (ringNext (t_ring s) 0))"
    using nd pc by (auto simp: node_def window_ok_def l_def input_ctl_def dest: sleep_ok_busy)
  show ?thesis unfolding st l_def [symmetric] set_loc_def
  proof (rule shape_pass [OF s i p, where l' = "l\<lparr>lo_pc := (if lo_input_end l then Stopped else Waiting)\<rparr>"])
    show "node (rg_n (t_ring s)) (rg_count (t_ring s)) (t_interrupt s) 0 (rg_ex r 0) (l\<lparr>lo_pc := (if lo_input_end l then Stopped else Waiting)\<rparr>)
       (rg_ex r (ringNext (t_ring s) 0))"
      using nd win ringNext_neq [OF shape_n [OF s] i] by (auto simp: node_def window_ok_def sleep_ok_def input_ctl_def f l_def)
  qed (use win shape_n [OF s] in auto)
qed

subsection \<open>Processors\<close>

lemma shape_processor_node:
  assumes "shape A s" and "0 < i" "Suc i < rg_n (t_ring s)"
  shows "window_ok (rg_count (t_ring s)) (rg_ex (t_ring s) i) (t_loc s i)"
    and "sleep_ok (rg_ex (t_ring s) i) (t_loc s i) (rg_ex (t_ring s) (Suc i))"
    and "i < t_interrupt s \<Longrightarrow> pe_aborting (rg_ex (t_ring s) i)"
    and "processor_ctl (t_interrupt s) i (rg_ex (t_ring s) i) (t_loc s i) (rg_ex (t_ring s) (Suc i))"
    and "ringNext (t_ring s) i = Suc i"
  using shape_node [OF assms(1), of i] assms(2,3) by (auto simp: node_def ringNext_def)

lemma node_processor:
  "0 < i \<Longrightarrow> Suc i < n \<Longrightarrow> node n N k i e l e1 \<longleftrightarrow>
     window_ok N e l \<and> sleep_ok e l e1 \<and> (i < k \<longrightarrow> pe_aborting e) \<and> processor_ctl k i e l e1"
  by (simp add: node_def)

lemma node_fields:
  assumes "pe_first e' = pe_first e" "pe_cnt e' = pe_cnt e" "pe_input_end e' = pe_input_end e" "pe_aborting e' = pe_aborting e"
    and "pe_input_end e1' = pe_input_end e1" "pe_aborting e1' = pe_aborting e1"
  shows "window_ok N e' l = window_ok N e l" "processor_ctl k i e' l e1' = processor_ctl k i e l e1"
    "output_ctl k i e' l e1' = output_ctl k i e l e1"
  using assms by (simp_all add: window_ok_def processor_ctl_def output_ctl_def)

lemma shape_processor_wait:
  assumes s: "shape A s" and i: "0 < i" "Suc i < rg_n (t_ring s)"
    and pc: "lo_pc (t_loc s i) = Waiting" "\<not> pe_asleep (rg_ex (t_ring s) i)"
  shows "shape A (processor_wait i s)"
proof -
  have i': "i < rg_n (t_ring s)" using i by simp
  obtain r w where w: "waitWork i (t_ring s) = (r, w)" by force
  note nd = shape_processor_node [OF s i]
  show ?thesis
  proof (cases w)
    case None
    then show ?thesis using shape_sleep [OF s i' _ pc(1) refl] w by (simp add: processor_wait_def)
  next
    case (Some k)
    note k = waitWork_Some [OF w [unfolded Some]]
    define l where "l = (t_loc s i)\<lparr>lo_input_end := wk_input_end k, lo_aborted := wk_aborted k,
        lo_output_bitrate := (if lo_never_modified (t_loc s i) then wk_bitrate k else lo_output_bitrate (t_loc s i))\<rparr>"
    define l' where "l' = (if wk_aborted k \<or> wk_cnt k = 0 \<and> wk_input_end k then l\<lparr>lo_pc := Leaving\<rparr>
                else l\<lparr>lo_pc := Looping, lo_first := wk_first k, lo_cnt := wk_cnt k, lo_done := 0, lo_flush := 0\<rparr>)"
    define r' where "r' = set_tsp_bitrate i (wk_bitrate k) r"
    have st: "processor_wait i s = set_loc i l' (s\<lparr>t_ring := r'\<rparr>)"
      using w Some by (simp add: processor_wait_def l'_def l_def r'_def Let_def)
    have wc: "window_ok (rg_count (t_ring s)) (rg_ex r' i) l'"
      using k shape_first [OF s i'] by (auto simp: window_ok_def l'_def l_def r'_def)
    have pr: "processor_ctl (t_interrupt s) i (rg_ex r' i) l' (rg_ex r' (Suc i))"
      using nd(4) k pc nd(5) unfolding processor_ctl_def
      by (auto simp: l'_def l_def r'_def leaves_def must_wait_def)
    have "node (rg_n (t_ring s)) (rg_count (t_ring s)) (t_interrupt s) i (rg_ex r' i) l' (rg_ex r' (ringNext (t_ring s) i))"
      using wc pr nd(3,5) pc(2) k by (simp add: node_processor [OF i] sleep_ok_def r'_def)
    moreover have "jt_ok r'" by (rule jt_ok_cong [of "t_ring s"]) (use s k in \<open>auto simp: shape_def r'_def\<close>)
    ultimately show ?thesis unfolding st set_loc_def
      by (intro shape_local [OF s, of r' i l']) (use k in \<open>auto simp: r'_def\<close>)
  qed
qed

lemma shape_processor_leave:
  assumes s: "shape A s" and i: "0 < i" "Suc i < rg_n (t_ring s)" and pc: "lo_pc (t_loc s i) = Leaving"
  shows "shape A (processor_leave i s)"
proof -
  have i': "i < rg_n (t_ring s)" using i by simp
  note nd = shape_processor_node [OF s i]
  define l where "l = t_loc s i"
  obtain r ok where p: "passPackets i 0 (lo_output_bitrate l) True (lo_aborted l) (t_ring s) = (r, ok)" by force
  note f = passPackets_fields [OF shape_n [OF s] i' p]
  have st: "processor_leave i s = set_loc i (l\<lparr>lo_pc := Stopped\<rparr>) (s\<lparr>t_ring := r\<rparr>)"
    using p by (simp add: processor_leave_def l_def Let_def)
  have "\<not> pe_asleep (rg_ex (t_ring s) i)" using nd(2) pc by (auto dest: sleep_ok_busy)
  then have own: "node (rg_n (t_ring s)) (rg_count (t_ring s)) (t_interrupt s) i (rg_ex r i) (l\<lparr>lo_pc := Stopped\<rparr>)
      (rg_ex r (ringNext (t_ring s) i))"
    using nd pc by (auto simp: node_processor [OF i] window_ok_def sleep_ok_def processor_ctl_def leaves_def f l_def split: if_splits)
  have "shape (A(i := A i + 0)) (processor_leave i s)" unfolding st l_def [symmetric] set_loc_def
    by (rule shape_pass [OF s i' p _ _ _ _ own]) (use shape_first [OF s i'] i in auto)
  then show ?thesis by simp
qed

lemma shape_processor_flush:
  assumes s: "shape A s" and i: "0 < i" "Suc i < rg_n (t_ring s)" and pc: "lo_pc (t_loc s i) = Flushing"
  shows "shape (A(i := A i + lo_flush (t_loc s i))) (processor_flush i s)"
proof -
  have i': "i < rg_n (t_ring s)" using i by simp
  note nd = shape_processor_node [OF s i]
  define l where "l = t_loc s i"
  define e where "e = rg_ex (t_ring s) i"
  define ie where "ie \<longleftrightarrow> lo_done l = lo_cnt l \<and> lo_input_end l"
  obtain r ok where p: "passPackets i (lo_flush l) (lo_output_bitrate l) ie (lo_aborted l) (t_ring s) = (r, ok)" by force
  note f = passPackets_fields [OF shape_n [OF s] i' p]
  define l' where "l' = l\<lparr>lo_pc := Looping, lo_flush := 0, lo_aborted := \<not> ok\<rparr>"
  have st: "processor_flush i s = set_loc i l' (s\<lparr>t_ring := r\<rparr>)"
    using p by (simp add: processor_flush_def l_def l'_def ie_def Let_def)
  have awake: "\<not> pe_asleep e" using nd(2) pc by (auto simp: e_def dest: sleep_ok_busy)
  have w: "lo_done l \<le> lo_cnt l" "lo_flush l \<le> lo_done l" "lo_first l + lo_cnt l \<le> rg_count (t_ring s)"
    "lo_done l < lo_cnt l \<or> 0 < lo_flush l \<Longrightarrow> pe_first e + lo_flush l = lo_first l + lo_done l"
    "lo_flush l + (lo_cnt l - lo_done l) \<le> pe_cnt e"
    using nd(1) pc by (auto simp: window_ok_def l_def e_def)
  have first: "pe_first e < rg_count (t_ring s)" using shape_first [OF s i'] by (simp add: e_def)
  have fits: "pe_first e + lo_flush l \<le> rg_count (t_ring s)"
    using w first by (cases "0 < lo_flush l") auto
  have c: "lo_pc l = Flushing" "\<not> leaves l" "\<not> pe_input_end (rg_ex (t_ring s) (Suc i))" "pe_aborting e \<longrightarrow> i < t_interrupt s"
    "lo_input_end l \<and> \<not> lo_aborted l \<longrightarrow> pe_input_end e \<and> lo_flush l + (lo_cnt l - lo_done l) = pe_cnt e"
    "lo_aborted l \<longrightarrow> lo_input_end l \<and> lo_done l = lo_cnt l"
    using nd(4) pc by (auto simp: processor_ctl_def l_def e_def leaves_def)
  have window: "window_ok (rg_count (t_ring s)) (rg_ex r i) l'"
    using w fits c by (auto simp: window_ok_def l'_def f e_def [symmetric])
  have nx: "ringNext (t_ring s) i = Suc i" by (rule nd(5))
  have ok: "ok \<longleftrightarrow> \<not> ie \<and> \<not> lo_aborted l \<and> \<not> pe_aborting (rg_ex (t_ring s) (Suc i))" by (simp add: f(4) nx)
  have ctl: "processor_ctl (t_interrupt s) i (rg_ex r i) l' (rg_ex r (Suc i))"
    unfolding processor_ctl_def leaves_def f nx e_def [symmetric] using c w ok by (auto simp: l'_def ie_def leaves_def)
  have own: "node (rg_n (t_ring s)) (rg_count (t_ring s)) (t_interrupt s) i (rg_ex r i) l' (rg_ex r (ringNext (t_ring s) i))"
    using window ctl nd(3) awake by (simp add: node_processor [OF i] sleep_ok_def f nx e_def)
  show ?thesis unfolding st set_loc_def l_def [symmetric]
    by (rule shape_pass [OF s i' p _ _ _ _ own]) (use w fits c i nx in \<open>auto simp: e_def\<close>)
qed

lemma shape_processor_loop_end:
  assumes s: "shape A s" and i: "0 < i" "Suc i < rg_n (t_ring s)" and pc: "lo_pc (t_loc s i) = Looping"
    and e: "\<not> (lo_done (t_loc s i) < lo_cnt (t_loc s i) \<and> \<not> lo_aborted (t_loc s i))"
  shows "shape A (processor_loop opts P i s)"
proof -
  note nd = shape_processor_node [OF s i]
  define l' where "l' = (t_loc s i)\<lparr>lo_pc := (if \<not> lo_input_end (t_loc s i) \<and> \<not> lo_aborted (t_loc s i) then Waiting else Stopped)\<rparr>"
  have st: "processor_loop opts P i s = set_loc i l' s"
    unfolding processor_loop_def Let_def l'_def by (subst if_not_P [OF e]) (rule refl)
  have awake: "\<not> pe_asleep (rg_ex (t_ring s) i)" using nd(2) pc by (auto dest: sleep_ok_busy)
  have "processor_ctl (t_interrupt s) i (rg_ex (t_ring s) i) l' (rg_ex (t_ring s) (Suc i))"
    using nd(4) pc e by (auto simp: processor_ctl_def l'_def leaves_def)
  then have "node (rg_n (t_ring s)) (rg_count (t_ring s)) (t_interrupt s) i (rg_ex (t_ring s) i) l' (rg_ex (t_ring s) (ringNext (t_ring s) i))"
    using nd awake by (simp add: node_processor [OF i] sleep_ok_def window_ok_def l'_def)
  then show ?thesis unfolding st set_loc_def
    by (intro shape_local [OF s, of "t_ring s" i l']) (use s in \<open>auto simp: shape_def\<close>)
qed

text \<open>The work on one packet: its position, and what the step changes.\<close>

definition packet_result :: "'p Plugins \<Rightarrow> nat \<Rightarrow> 'p \<Rightarrow> TSPacket \<Rightarrow> 'p \<times> TSPacket option" where
  "packet_result P i p pkt =
     (if dropped_packet pkt then (p, Some pkt)
      else case pl_process P i p pkt of (p', rs) \<Rightarrow> (p', if rs_status rs = TSP_END then None else Some (result_packet rs)))"

lemma shape_processor_packet:
  assumes s: "shape A s" and i: "0 < i" "Suc i < rg_n (t_ring s)" and pc: "lo_pc (t_loc s i) = Looping"
    and b: "lo_done (t_loc s i) < lo_cnt (t_loc s i)" "\<not> lo_aborted (t_loc s i)"
    and pr: "packet_result P i (t_plug s i) (t_buf s ! (lo_first (t_loc s i) + lo_done (t_loc s i))) = (p', res)"
  shows "shape A (processor_packet opts P i s)"
    and "lo_first (t_loc s i) + lo_done (t_loc s i) = pe_first (rg_ex (t_ring s) i) + lo_flush (t_loc s i)"
    and "lo_first (t_loc s i) + lo_done (t_loc s i) < rg_count (t_ring s)"
    and "t_plug (processor_packet opts P i s) = (t_plug s)(i := p') \<and>
      (\<exists>x. t_buf (processor_packet opts P i s) = (t_buf s)[lo_first (t_loc s i) + lo_done (t_loc s i) := x] \<and>
           (\<forall>y. res = Some y \<longrightarrow> x = y)) \<and>
      t_stored (processor_packet opts P i s) = t_stored s \<and> t_sent (processor_packet opts P i s) = t_sent s \<and>
      (\<exists>l'. t_loc (processor_packet opts P i s) = (t_loc s)(i := l') \<and> lo_pc l' \<in> {Looping, Flushing} \<and>
        (case res of Some _ \<Rightarrow> lo_flush l' = Suc (lo_flush (t_loc s i)) \<and> lo_aborted l' = lo_aborted (t_loc s i)
         | None \<Rightarrow> lo_flush l' = lo_flush (t_loc s i) \<and> lo_aborted l'))"
proof -
  have i': "i < rg_n (t_ring s)" using i by simp
  note nd = shape_processor_node [OF s i]
  define l where "l = t_loc s i"
  define e where "e = rg_ex (t_ring s) i"
  define pos where "pos = lo_first l + lo_done l"
  define pkt where "pkt = t_buf s ! pos"
  define l1 where "l1 = l\<lparr>lo_done := lo_done l + 1, lo_flush := lo_flush l + 1\<rparr>"
  have w: "lo_flush l \<le> lo_done l" "lo_first l + lo_cnt l \<le> rg_count (t_ring s)"
    "pe_first e + lo_flush l = lo_first l + lo_done l" "lo_flush l + (lo_cnt l - lo_done l) \<le> pe_cnt e"
    using nd(1) pc b by (auto simp: window_ok_def l_def e_def)
  show pos: "lo_first (t_loc s i) + lo_done (t_loc s i) = pe_first (rg_ex (t_ring s) i) + lo_flush (t_loc s i)"
    "lo_first (t_loc s i) + lo_done (t_loc s i) < rg_count (t_ring s)"
    using w b by (auto simp: l_def e_def)
  have awake: "\<not> pe_asleep e" using nd(2) pc by (auto simp: e_def dest: sleep_ok_busy)
  have c: "lo_pc l = Looping" "\<not> lo_aborted l" "lo_done l < lo_cnt l" "\<not> leaves l" "\<not> pe_input_end (rg_ex (t_ring s) (Suc i))"
    "pe_aborting e \<longrightarrow> i < t_interrupt s"
    "lo_input_end l \<longrightarrow> pe_input_end e \<and> lo_flush l + (lo_cnt l - lo_done l) = pe_cnt e"
    using nd(4) pc b by (auto simp: processor_ctl_def l_def e_def leaves_def)
  define T where "T = (if dropped_packet pkt then (s, l1, False)
             else
               let (p, rs) = pl_process P i (t_plug s i) pkt;
                   s1 = s\<lparr>t_plug := (t_plug s)(i := p), t_buf := (t_buf s)[pos := result_packet rs],
                          t_ring := (if rs_joint_terminate rs then jointTerminate i (t_ring s) else t_ring s)\<rparr>;
                   l2 = (if rs_status rs = TSP_END
                         then l1\<lparr>lo_input_end := True, lo_aborted := True, lo_done := lo_done l, lo_flush := lo_flush l,
                                 lo_cnt := lo_done l\<rparr>
                         else l1);
                   new_bitrate = pl_getBitrate P p;
                   l3 = (if rs_bitrate_changed rs \<and> new_bitrate \<noteq> 0
                         then l2\<lparr>lo_never_modified := False, lo_output_bitrate := new_bitrate\<rparr> else l2)
               in (s1, l3, rs_flush_request rs))"
  obtain s2 l2 fr where T: "T = (s2, l2, fr)" by (metis prod_cases3)
  define fl where "fl \<longleftrightarrow> fr \<or> lo_done l2 = lo_cnt l2 \<or> op_max_flush_pkt opts > 0 \<and> lo_flush l2 mod op_max_flush_pkt opts = 0"
  define l' where "l' = (if fl then l2\<lparr>lo_pc := Flushing\<rparr> else l2)"
  have st: "processor_packet opts P i s = set_loc i l' (s2\<lparr>t_ring := addTotalPackets i 1 (t_ring s2)\<rparr>)"
    unfolding processor_packet_def Let_def l_def [symmetric] pos_def [symmetric] pkt_def [symmetric] l1_def [symmetric]
      T_def [unfolded Let_def, symmetric] T prod.case fl_def [symmetric] l'_def [symmetric]
    by (rule refl)
  have pr: "packet_result P i (t_plug s i) pkt = (p', res)" using pr by (simp add: pkt_def pos_def l_def)
  define l3 where "l3 = (if res = None then l1\<lparr>lo_input_end := True, lo_aborted := True, lo_done := lo_done l, lo_flush := lo_flush l,
      lo_cnt := lo_done l\<rparr> else l1)"
  have T2: "\<exists>x y. l2 = l3\<lparr>lo_never_modified := x, lo_output_bitrate := y\<rparr>"
    using T pr by (cases l1) (auto simp: T_def packet_result_def l3_def Let_def split: if_splits prod.splits)
  have T3: "t_plug s2 = (t_plug s)(i := p')" "t_stored s2 = t_stored s" "t_sent s2 = t_sent s" "t_loc s2 = t_loc s"
    "t_interrupt s2 = t_interrupt s" "t_ring s2 = t_ring s \<or> t_ring s2 = jointTerminate i (t_ring s)"
    "\<exists>x. t_buf s2 = (t_buf s)[pos := x] \<and> (\<forall>y. res = Some y \<longrightarrow> x = y)"
    using T pr by (auto simp: T_def packet_result_def pkt_def Let_def split: if_splits prod.splits intro: exI [of _ "t_buf s ! pos"])
  define r' where "r' = addTotalPackets i 1 (t_ring s2)"
  have jt: "jt_ok r'" "rg_failed r' = rg_failed (t_ring s)"
    using T3(6) s jointTerminate_jt_ok [of "t_ring s" i] i' jt_ok_cong [of "t_ring s2" r'] by (auto simp: r'_def shape_def)
  have same: "rg_n r' = rg_n (t_ring s)" "rg_count r' = rg_count (t_ring s)"
    "\<And>j. pe_first (rg_ex r' j) = pe_first (rg_ex (t_ring s) j)" "\<And>j. pe_cnt (rg_ex r' j) = pe_cnt (rg_ex (t_ring s) j)"
    "\<And>j. pe_input_end (rg_ex r' j) = pe_input_end (rg_ex (t_ring s) j)" "\<And>j. pe_aborting (rg_ex r' j) = pe_aborting (rg_ex (t_ring s) j)"
    "\<And>j. pe_asleep (rg_ex r' j) = pe_asleep (rg_ex (t_ring s) j)"
    using T3(6) by (auto simp: r'_def)
  obtain x y where l2: "l2 = l3\<lparr>lo_never_modified := x, lo_output_bitrate := y\<rparr>" using T2 by blast
  have fl: "\<not> fl \<Longrightarrow> lo_done l2 \<noteq> lo_cnt l2" by (auto simp: fl_def)
  have window: "window_ok (rg_count (t_ring s)) e l'"
    using w c fl by (auto simp: window_ok_def l'_def l2 l3_def l1_def)
  have ctl: "processor_ctl (t_interrupt s) i e l' (rg_ex (t_ring s) (Suc i))"
    using c fl w(4) by (cases fl; cases "res = None") (auto simp: processor_ctl_def l'_def l2 l3_def l1_def leaves_def)
  have "node (rg_n (t_ring s)) (rg_count (t_ring s)) (t_interrupt s) i (rg_ex r' i) l' (rg_ex r' (ringNext (t_ring s) i))"
    using window ctl nd(3,5) awake same node_fields [of "rg_ex r' i" e "rg_ex r' (Suc i)" "rg_ex (t_ring s) (Suc i)"]
    by (simp add: node_processor [OF i] sleep_ok_def e_def)
  then show "shape A (processor_packet opts P i s)" unfolding st set_loc_def r'_def [symmetric]
    by (intro shape_local [OF s, of r' i l']) (use same jt T3 in auto)
  have "lo_pc l' \<in> {Looping, Flushing}" "case res of Some _ \<Rightarrow> lo_flush l' = Suc (lo_flush l) \<and> lo_aborted l' = lo_aborted l
      | None \<Rightarrow> lo_flush l' = lo_flush l \<and> lo_aborted l'"
    using c by (auto simp: l'_def l2 l3_def l1_def split: option.split)
  then show "t_plug (processor_packet opts P i s) = (t_plug s)(i := p') \<and>
      (\<exists>x. t_buf (processor_packet opts P i s) = (t_buf s)[lo_first (t_loc s i) + lo_done (t_loc s i) := x] \<and>
           (\<forall>y. res = Some y \<longrightarrow> x = y)) \<and>
      t_stored (processor_packet opts P i s) = t_stored s \<and> t_sent (processor_packet opts P i s) = t_sent s \<and>
      (\<exists>l'. t_loc (processor_packet opts P i s) = (t_loc s)(i := l') \<and> lo_pc l' \<in> {Looping, Flushing} \<and>
        (case res of Some _ \<Rightarrow> lo_flush l' = Suc (lo_flush (t_loc s i)) \<and> lo_aborted l' = lo_aborted (t_loc s i)
         | None \<Rightarrow> lo_flush l' = lo_flush (t_loc s i) \<and> lo_aborted l'))"
    using T3(7) unfolding st set_loc_def pos_def [unfolded l_def] l_def
    by (intro conjI exI [of _ l']) (simp_all add: T3(1-4))
qed


subsection \<open>Output\<close>

lemma shape_output_node:
  assumes "shape A s"
  shows "output_index s < rg_n (t_ring s)" "0 < output_index s" "Suc (output_index s) = rg_n (t_ring s)"
    and "ringNext (t_ring s) (output_index s) = 0"
    and "window_ok (rg_count (t_ring s)) (rg_ex (t_ring s) (output_index s)) (t_loc s (output_index s))"
    and "sleep_ok (rg_ex (t_ring s) (output_index s)) (t_loc s (output_index s)) (rg_ex (t_ring s) 0)"
    and "output_index s < t_interrupt s \<Longrightarrow> pe_aborting (rg_ex (t_ring s) (output_index s))"
    and "output_ctl (t_interrupt s) (output_index s) (rg_ex (t_ring s) (output_index s)) (t_loc s (output_index s)) (rg_ex (t_ring s) 0)"
    and "node (rg_n (t_ring s)) N k (output_index s) e l e1 \<longleftrightarrow> window_ok N e l \<and> sleep_ok e l e1 \<and>
      (output_index s < k \<longrightarrow> pe_aborting e) \<and> output_ctl k (output_index s) e l e1"
proof -
  show o: "output_index s < rg_n (t_ring s)" "0 < output_index s" "Suc (output_index s) = rg_n (t_ring s)"
    using shape_n [OF assms] by (auto simp: output_index_def)
  then show "ringNext (t_ring s) (output_index s) = 0" by (simp add: ringNext_def)
  with shape_node [OF assms o(1)] o show
    "window_ok (rg_count (t_ring s)) (rg_ex (t_ring s) (output_index s)) (t_loc s (output_index s))"
    "sleep_ok (rg_ex (t_ring s) (output_index s)) (t_loc s (output_index s)) (rg_ex (t_ring s) 0)"
    "output_index s < t_interrupt s \<Longrightarrow> pe_aborting (rg_ex (t_ring s) (output_index s))"
    "output_ctl (t_interrupt s) (output_index s) (rg_ex (t_ring s) (output_index s)) (t_loc s (output_index s)) (rg_ex (t_ring s) 0)"
    by (auto simp: node_def)
  show "node (rg_n (t_ring s)) N k (output_index s) e l e1 \<longleftrightarrow> window_ok N e l \<and> sleep_ok e l e1 \<and>
      (output_index s < k \<longrightarrow> pe_aborting e) \<and> output_ctl k (output_index s) e l e1"
    using o by (auto simp: node_def)
qed

lemma shape_output_wait:
  assumes s: "shape A s" and pc: "lo_pc (t_loc s (output_index s)) = Waiting" "\<not> pe_asleep (rg_ex (t_ring s) (output_index s))"
  shows "shape A (output_wait s)"
proof -
  define i where "i = output_index s"
  note nd = shape_output_node [OF s, folded i_def]
  obtain r w where w: "waitWork i (t_ring s) = (r, w)" by force
  show ?thesis
  proof (cases w)
    case None
    then show ?thesis using shape_sleep [OF s nd(1) _ _ refl] pc w by (simp add: output_wait_def i_def)
  next
    case (Some k)
    note k = waitWork_Some [OF w [unfolded Some]]
    define l' where "l' = (t_loc s i)\<lparr>lo_pc := Checking, lo_first := wk_first k, lo_cnt := wk_cnt k, lo_input_end := wk_input_end k\<rparr>"
    define r' where "r' = set_tsp_bitrate i (wk_bitrate k) r"
    have st: "output_wait s = set_loc i l' (s\<lparr>t_ring := r'\<rparr>)"
      using w Some by (simp add: output_wait_def l'_def r'_def i_def Let_def)
    have "window_ok (rg_count (t_ring s)) (rg_ex r' i) l'"
      using k shape_first [OF s nd(1)] by (auto simp: window_ok_def l'_def r'_def)
    moreover have "output_ctl (t_interrupt s) i (rg_ex r' i) l' (rg_ex r' 0)"
      using nd(8) k pc by (auto simp: output_ctl_def l'_def r'_def i_def)
    ultimately have "node (rg_n (t_ring s)) (rg_count (t_ring s)) (t_interrupt s) i (rg_ex r' i) l' (rg_ex r' (ringNext (t_ring s) i))"
      using nd(4,7) pc(2) k by (simp add: nd(9) sleep_ok_def r'_def i_def [symmetric])
    moreover have "jt_ok r'" by (rule jt_ok_cong [of "t_ring s"]) (use s k in \<open>auto simp: shape_def r'_def\<close>)
    ultimately show ?thesis unfolding st set_loc_def
      by (intro shape_local [OF s, of r' i l']) (use k in \<open>auto simp: r'_def\<close>)
  qed
qed

lemma shape_output_check:
  assumes s: "shape A s" and pc: "lo_pc (t_loc s (output_index s)) = Checking"
  shows "shape A (output_check opts s) \<and> (\<exists>l'. output_check opts s = set_loc (output_index s) l' s \<and> lo_pc l' \<in> {Sending, Stopped})"
proof -
  define i where "i = output_index s"
  note nd = shape_output_node [OF s, folded i_def]
  define l where "l = t_loc s i"
  define r where "r = t_ring s"
  define jt where "jt = totalPacketsBeforeJointTermination (op_ignore_jt opts) r"
  define tot where "tot = pe_total (rg_ex r i)"
  define l' where "l' = (if lo_cnt l = 0 \<and> lo_input_end l \<or> pe_aborting (rg_ex r i) then l\<lparr>lo_pc := Stopped, lo_aborted := pe_aborting (rg_ex r i)\<rparr>
            else if tot + of_nat (lo_cnt l) > jt then
              l\<lparr>lo_pc := Sending, lo_cnt := (if tot > jt then 0 else unat (jt - tot)), lo_aborted := True\<rparr>
            else l\<lparr>lo_pc := Sending, lo_aborted := False\<rparr>)"
  have st: "output_check opts s = set_loc i l' s"
    unfolding output_check_def Let_def i_def [symmetric] l_def [symmetric] r_def [symmetric] jt_def [symmetric] tot_def [symmetric]
      l'_def [symmetric] by (rule refl)
  have awake: "\<not> pe_asleep (rg_ex r i)" using nd(6) pc by (auto simp: r_def i_def dest: sleep_ok_busy)
  have c: "lo_pc l = Checking" "pe_aborting (rg_ex r i) \<longrightarrow> i < t_interrupt s" "\<not> lo_aborted l"
    "lo_input_end l \<longrightarrow> pe_input_end (rg_ex r i) \<and> lo_cnt l = pe_cnt (rg_ex r i)"
    using nd(8) pc by (auto simp: output_ctl_def l_def r_def i_def)
  have w: "lo_first l = pe_first (rg_ex r i)" "lo_cnt l \<le> pe_cnt (rg_ex r i)" "lo_first l + lo_cnt l \<le> rg_count r"
    using nd(5) c(1) by (auto simp: window_ok_def l_def r_def)
  have less: "unat (jt - tot) \<le> lo_cnt l" if "\<not> jt < tot" "jt < tot + of_nat (lo_cnt l)"
  proof -
    have "unat (jt - tot) = unat jt - unat tot" using that(1) by (simp add: unat_sub not_less)
    moreover have "unat jt < unat (tot + of_nat (lo_cnt l))" using that(2) by (simp add: word_less_nat_alt)
    moreover have "unat (tot + of_nat (lo_cnt l)) \<le> unat tot + lo_cnt l"
      by (metis of_nat_add of_nat_unat ucast_id unat_of_nat mod_less_eq_dividend)
    ultimately show ?thesis by linarith
  qed
  have "window_ok (rg_count r) (rg_ex r i) l'"
    using w less by (auto simp: window_ok_def l'_def intro: order_trans)
  moreover have "output_ctl (t_interrupt s) i (rg_ex r i) l' (rg_ex r 0)"
    using c by (auto simp: output_ctl_def l'_def)
  ultimately have "node (rg_n r) (rg_count r) (t_interrupt s) i (rg_ex r i) l' (rg_ex r (ringNext r i))"
    using nd(4,7) awake unfolding r_def by (simp add: nd(9) sleep_ok_def)
  then have "shape A (set_loc i l' s)" unfolding set_loc_def r_def
    by (intro shape_local [OF s, of "t_ring s" i l']) (use s in \<open>auto simp: shape_def\<close>)
  moreover have "lo_pc l' \<in> {Sending, Stopped}" by (simp add: l'_def)
  ultimately show ?thesis using st by (auto simp: i_def)
qed

lemma shape_output_send:
  assumes s: "shape A s" and pc: "lo_pc (t_loc s (output_index s)) = Sending"
    and sg: "send_segments P (t_plug s (output_index s))
      (take (lo_cnt (t_loc s (output_index s))) (drop (lo_first (t_loc s (output_index s))) (t_buf s))) = (p, tot, sent, ok)"
  shows "shape A (output_send P s)"
    and "\<exists>r'. output_send P s = set_loc (output_index s) ((t_loc s (output_index s))\<lparr>lo_pc := Passing,
        lo_aborted := lo_aborted (t_loc s (output_index s)) \<or> \<not> ok\<rparr>)
      (s\<lparr>t_plug := (t_plug s)(output_index s := p), t_ring := r', t_sent := t_sent s @ sent\<rparr>)"
proof -
  define i where "i = output_index s"
  note nd = shape_output_node [OF s, folded i_def]
  define l where "l = t_loc s i"
  define l' where "l' = l\<lparr>lo_pc := Passing, lo_aborted := lo_aborted l \<or> \<not> ok\<rparr>"
  define r' where "r' = addTotalPackets i tot (t_ring s)"
  have st: "output_send P s = set_loc i l' (s\<lparr>t_plug := (t_plug s)(i := p), t_ring := r', t_sent := t_sent s @ sent\<rparr>)"
    using sg by (simp add: output_send_def l'_def l_def r'_def i_def Let_def)
  then show "\<exists>r'. output_send P s = set_loc (output_index s) ((t_loc s (output_index s))\<lparr>lo_pc := Passing,
        lo_aborted := lo_aborted (t_loc s (output_index s)) \<or> \<not> ok\<rparr>)
      (s\<lparr>t_plug := (t_plug s)(output_index s := p), t_ring := r', t_sent := t_sent s @ sent\<rparr>)"
    unfolding l'_def l_def i_def by blast
  have awake: "\<not> pe_asleep (rg_ex (t_ring s) i)" using nd(6) pc by (auto simp: i_def dest: sleep_ok_busy)
  have "window_ok (rg_count (t_ring s)) (rg_ex r' i) l'" "output_ctl (t_interrupt s) i (rg_ex r' i) l' (rg_ex r' 0)"
    using nd(5,8) pc by (auto simp: window_ok_def output_ctl_def l'_def l_def r'_def i_def)
  then have "node (rg_n (t_ring s)) (rg_count (t_ring s)) (t_interrupt s) i (rg_ex r' i) l' (rg_ex r' (ringNext (t_ring s) i))"
    using nd(4,7) awake by (simp add: nd(9) sleep_ok_def r'_def)
  moreover have "jt_ok r'" by (rule jt_ok_cong [of "t_ring s"]) (use s in \<open>auto simp: shape_def r'_def\<close>)
  ultimately show "shape A (output_send P s)" unfolding st set_loc_def
    by (intro shape_local [OF s, of r' i l']) (auto simp: r'_def)
qed

lemma shape_output_pass:
  assumes s: "shape A s" and pc: "lo_pc (t_loc s (output_index s)) = Passing"
  shows "shape (A(output_index s := A (output_index s) + lo_cnt (t_loc s (output_index s)))) (output_pass s)"
    and "\<exists>r l'. output_pass s = set_loc (output_index s) l' (s\<lparr>t_ring := r\<rparr>) \<and> lo_pc l' \<in> {Waiting, Stopped} \<and>
      (lo_aborted (t_loc s (output_index s)) \<longrightarrow> lo_aborted l')"
proof -
  define i where "i = output_index s"
  note nd = shape_output_node [OF s, folded i_def]
  define l where "l = t_loc s i"
  obtain r ok where p: "passPackets i (lo_cnt l) 0 False (lo_aborted l) (t_ring s) = (r, ok)" by force
  note f = passPackets_fields [OF shape_n [OF s] nd(1) p]
  define l' where "l' = l\<lparr>lo_pc := (if ok then Waiting else Stopped), lo_aborted := \<not> ok\<rparr>"
  have st: "output_pass s = set_loc i l' (s\<lparr>t_ring := r\<rparr>)"
    using p by (simp add: output_pass_def l_def l'_def i_def Let_def)
  have w: "lo_first l = pe_first (rg_ex (t_ring s) i)" "lo_cnt l \<le> pe_cnt (rg_ex (t_ring s) i)" "\<not> pe_asleep (rg_ex (t_ring s) i)"
    "lo_first l + lo_cnt l \<le> rg_count (t_ring s)"
    using nd(5,6) pc by (auto simp: window_ok_def l_def i_def dest: sleep_ok_busy)
  have n0: "\<not> pe_input_end (rg_ex (t_ring s) 0)"
    using shape_node [OF s, of 0] shape_n [OF s] by (auto simp: node_def input_ctl_def)
  have "output_ctl (t_interrupt s) i (rg_ex r i) l' (rg_ex r 0)"
    using nd(8) pc by (auto simp: output_ctl_def l'_def l_def f nd(4) i_def)
  then have own: "node (rg_n (t_ring s)) (rg_count (t_ring s)) (t_interrupt s) i (rg_ex r i) l' (rg_ex r (ringNext (t_ring s) i))"
    using nd w by (simp add: nd(9) window_ok_def sleep_ok_def l'_def f)
  show "shape (A(output_index s := A (output_index s) + lo_cnt (t_loc s (output_index s)))) (output_pass s)"
    unfolding st set_loc_def i_def [symmetric] l_def [symmetric]
    by (rule shape_pass [OF s nd(1) p _ _ _ _ own]) (use w n0 nd(4) in auto)
  have "lo_aborted l \<longrightarrow> \<not> ok" by (simp add: f(4))
  then show "\<exists>r l'. output_pass s = set_loc (output_index s) l' (s\<lparr>t_ring := r\<rparr>) \<and> lo_pc l' \<in> {Waiting, Stopped} \<and>
      (lo_aborted (t_loc s (output_index s)) \<longrightarrow> lo_aborted l')"
    unfolding st i_def [symmetric] l_def [symmetric] by (intro exI [of _ r] exI [of _ l']) (auto simp: l'_def)
qed

subsection \<open>Interrupt\<close>

lemma shape_interrupt:
  assumes s: "shape A s" and k: "t_interrupt s < rg_n (t_ring s)"
  shows "shape A (handleInterrupt s)"
proof -
  define i where "i = t_interrupt s"
  define r where "r = t_ring s"
  define r' where "r' = setAbort i r"
  have n: "2 \<le> rg_n r" and i: "i < rg_n r" using shape_n [OF s] k by (simp_all add: r_def i_def)
  have f: "rg_n r' = rg_n r" "rg_count r' = rg_count r" "rg_failed r' = rg_failed r"
    "pe_first (rg_ex r' j) = pe_first (rg_ex r j)" "pe_cnt (rg_ex r' j) = pe_cnt (rg_ex r j)"
    "pe_input_end (rg_ex r' j) = pe_input_end (rg_ex r j)" "pe_aborting (rg_ex r' j) \<longleftrightarrow> pe_aborting (rg_ex r j) \<or> j = i"
    "pe_asleep (rg_ex r' j) \<longleftrightarrow> pe_asleep (rg_ex r j) \<and> j \<noteq> ringPrevious r i"
    "pe_use_jt (rg_ex r' j) = pe_use_jt (rg_ex r j)" "pe_jt_completed (rg_ex r' j) = pe_jt_completed (rg_ex r j)"
    "jt_users r' = jt_users r" "jt_remaining r' = jt_remaining r" for j
    by (simp_all add: r'_def setAbort_def to_do_signal_def)
  have "node (rg_n r) (rg_count r) (Suc i) j (rg_ex r' j) (t_loc s j) (rg_ex r' (ringNext r j))" if j: "j < rg_n r" for j
  proof (rule node_others)
    show "node (rg_n r) (rg_count r) i j (rg_ex r j) (t_loc s j) (rg_ex r (ringNext r j))"
      using shape_node [OF s] j by (simp add: r_def i_def)
    have "ringNext r j = i \<Longrightarrow> j = ringPrevious r i" using ringPrevious_eq [OF n i j] by simp
    then show "others j (rg_ex r j) (rg_ex r (ringNext r j)) (rg_ex r' j) (rg_ex r' (ringNext r j)) (Suc i)"
      by (auto simp: others_def f)
  qed (auto simp: f less_Suc_eq)
  moreover have "ringNext r' = ringNext r" by (rule ringNext_cong) (rule f)
  ultimately have "ctl r' (t_loc s) (Suc i)" using i by (simp add: ctl_def f(1,2))
  moreover have "jt_ok r'" by (rule jt_ok_cong [of r]) (use s in \<open>simp_all add: f shape_def r_def\<close>)
  moreover have "ring_ok A r'" by (rule ring_ok_cong [of A r]) (use s in \<open>simp_all add: f shape_def r_def\<close>)
  ultimately show ?thesis using s by (simp add: shape_def handleInterrupt_def r'_def [symmetric] i_def [symmetric] r_def [symmetric] f)
qed

end
