(* ===== verification/Ts_Tsp_Flow.thy ===== *)
theory Ts_Tsp_Flow
  imports Ts_Tsp_Inv "HOL-Library.Sublist"
begin

text \<open>
  This theory relates the threads of \<open>tsp\<close> to the sequential pipeline. The streams between the threads,
  of which the buffer holds the untreated parts, are ghost values of the invariant \<open>flow\<close>;
  every step extends them at most at the end, so the streams are always prefixes of the ones of the
  pipeline. \<open>flow_reach\<close> carries the invariant to all reachable states.
\<close>


section \<open>The pipeline as a specification\<close>

text \<open>A packet processor alone, over a whole stream: it ends at the packet for which the plugin
  answers \<open>TSP_END\<close>. The pipeline is the composition of the processors, and the output takes
  the packets that are not dropped.\<close>

primrec stage_run :: "'p Plugins \<Rightarrow> nat \<Rightarrow> 'p \<Rightarrow> TSPacket list \<Rightarrow> TSPacket list" where
  "stage_run P i p [] = []"
| "stage_run P i p (pkt # pkts) =
     (case packet_result P i p pkt of (p', None) \<Rightarrow> [] | (p', Some pkt') \<Rightarrow> pkt' # stage_run P i p' pkts)"

primrec stage_state :: "'p Plugins \<Rightarrow> nat \<Rightarrow> 'p \<Rightarrow> TSPacket list \<Rightarrow> 'p" where
  "stage_state P i p [] = p"
| "stage_state P i p (pkt # pkts) =
     (case packet_result P i p pkt of (p', None) \<Rightarrow> p' | (p', Some _) \<Rightarrow> stage_state P i p' pkts)"

primrec pipeline :: "'p Plugins \<Rightarrow> (nat \<Rightarrow> 'p) \<Rightarrow> nat \<Rightarrow> TSPacket list \<Rightarrow> TSPacket list" where
  "pipeline P plugs 0 pkts = pkts"
| "pipeline P plugs (Suc k) pkts = stage_run P (Suc k) (plugs (Suc k)) (pipeline P plugs k pkts)"

lemma stage_run_length: "length (stage_run P i p xs) \<le> length xs"
  by (induction xs arbitrary: p) (auto split: prod.split option.split)

lemma stage_run_snoc:
  "length (stage_run P i p xs) = length xs \<Longrightarrow>
   stage_run P i p (xs @ [y]) = stage_run P i p xs @
     (case snd (packet_result P i (stage_state P i p xs) y) of None \<Rightarrow> [] | Some z \<Rightarrow> [z]) \<and>
   stage_state P i p (xs @ [y]) = fst (packet_result P i (stage_state P i p xs) y)"
proof (induction xs arbitrary: p)
  case Nil
  show ?case by (cases "packet_result P i p y") (auto split: option.split)
next
  case (Cons x xs)
  then show ?case by (cases "packet_result P i p x") (auto split: option.splits)
qed

lemma stage_run_prefix: "prefix xs ys \<Longrightarrow> prefix (stage_run P i p xs) (stage_run P i p ys)"
proof (induction xs arbitrary: p ys)
  case (Cons x xs)
  then obtain zs where "ys = x # zs" "prefix xs zs" by (metis Cons_prefix_Cons prefix_Cons append_Cons prefix_def)
  with Cons.IH show ?case by (auto split: prod.split option.split)
qed simp

lemma filter_prefix: "prefix xs ys \<Longrightarrow> prefix (filter Q xs) (filter Q ys)"
  by (auto simp: prefix_def)

lemma send_segments_spec:
  "send_segments P p pkts = (p', tot, sent, ok) \<Longrightarrow>
   prefix sent (filter (\<lambda>q. \<not> dropped_packet q) pkts) \<and> (ok \<longrightarrow> sent = filter (\<lambda>q. \<not> dropped_packet q) pkts)"
proof (induction P p pkts arbitrary: p' tot sent ok rule: send_segments.induct)
  case (1 P p pkts)
  let ?live = "\<lambda>q. \<not> dropped_packet q"
  show ?case
  proof (cases "pkts = []")
    case True
    with "1.prems" show ?thesis by (simp add: send_segments.simps [of P p "[]"])
  next
    case ne: False
    define d where "d = length (takeWhile dropped_packet pkts)"
    define rest where "rest = drop d pkts"
    define out where "out = length (takeWhile ?live rest)"
    have rest: "rest = dropWhile dropped_packet pkts" by (simp add: rest_def d_def dropWhile_eq_drop)
    have seg: "take out rest = takeWhile ?live rest" unfolding out_def by (rule takeWhile_eq_take [symmetric])
    have "filter ?live (takeWhile dropped_packet pkts) = []"
      by (auto simp: filter_empty_conv dest: set_takeWhileD)
    then have f: "filter ?live pkts = filter ?live rest"
      using filter_append [of ?live "takeWhile dropped_packet pkts" "dropWhile dropped_packet pkts"] by (simp add: rest)
    have "filter ?live (takeWhile ?live rest) = takeWhile ?live rest"
      by (rule filter_True) (auto dest: set_takeWhileD)
    then have seg_live: "filter ?live (take out rest) = take out rest" by (simp add: seg)
    have "filter ?live rest = filter ?live (take out rest) @ filter ?live (drop out rest)"
      by (metis append_take_drop_id filter_append)
    then have f2: "filter ?live rest = take out rest @ filter ?live (drop out rest)" by (simp only: seg_live)
    have eq: "send_segments P p pkts = (if out = 0 then (p, d, [], True)
           else case pl_send P p (take out rest) of
                  (p', False) \<Rightarrow> (p', d, [], False)
                | (p', True) \<Rightarrow> (case send_segments P p' (drop out rest) of (q, total_pkts, sent, ok) \<Rightarrow>
                                   (q, d + out + total_pkts, take out rest @ sent, ok)))"
      by (subst send_segments.simps) (simp only: ne if_False Let_def d_def [symmetric] rest_def [symmetric] out_def [symmetric])
    show ?thesis
    proof (cases "out = 0")
      case True
      then have "rest = []" unfolding out_def rest
        by (metis hd_dropWhile length_0_conv takeWhile_eq_Nil_iff)
      with True "1.prems" ne show ?thesis
        by (auto simp: eq f)
    next
      case out: False
      obtain q b where sd: "pl_send P p (take out rest) = (q, b)" by force
      show ?thesis
      proof (cases b)
        case False
        with out sd "1.prems" ne show ?thesis
          by (auto simp: eq)
      next
        case True
        obtain q2 t2 s2 ok2 where r: "send_segments P q (drop out rest) = (q2, t2, s2, ok2)" by (metis prod_cases4)
        have "prefix s2 (filter ?live (drop out rest)) \<and> (ok2 \<longrightarrow> s2 = filter ?live (drop out rest))"
          by (rule "1.IH" [OF ne d_def rest_def out_def out sd [symmetric] _ r]) (use True in simp)
        moreover have "sent = take out rest @ s2 \<and> ok = ok2"
          using out sd True "1.prems" ne r
          by (auto simp: eq)
        ultimately show ?thesis by (simp add: f f2)
      qed
    qed
  qed
qed

section \<open>The streams between the threads\<close>

text \<open>The packets that a thread has treated but not yet passed, and its position in the stream.\<close>

definition lead :: "'p Tsp \<Rightarrow> nat \<Rightarrow> nat" where
  "lead s i = (if lo_pc (t_loc s i) \<in> {Looping, Flushing} then lo_flush (t_loc s i)
     else if lo_pc (t_loc s i) = Passing then lo_cnt (t_loc s i) else 0)"

definition reached :: "(nat \<Rightarrow> nat) \<Rightarrow> 'p Tsp \<Rightarrow> nat \<Rightarrow> nat" where
  "reached A s i = A i + lead s i"

definition alive :: "'p Tsp \<Rightarrow> nat \<Rightarrow> bool" where
  "alive s i \<longleftrightarrow> \<not> (lo_aborted (t_loc s i) \<and> lo_pc (t_loc s i) \<in> {Looping, Flushing, Stopped})"

text \<open>The stream \<open>S i\<close> is all that thread \<open>i\<close> has produced. The part of it that the successor has
  not treated lies in the buffer.\<close>

definition in_buffer :: "(nat \<Rightarrow> nat) \<Rightarrow> (nat \<Rightarrow> TSPacket list) \<Rightarrow> 'p Tsp \<Rightarrow> bool" where
  "in_buffer A S s \<longleftrightarrow> (\<forall>i. Suc i < rg_n (t_ring s) \<longrightarrow> length (S i) = reached A s i \<and>
     (alive s (Suc i) \<longrightarrow> (\<forall>k. reached A s (Suc i) \<le> k \<and> k < reached A s i \<longrightarrow>
        t_buf s ! (k mod rg_count (t_ring s)) = S i ! k)))"

definition processed :: "'p Plugins \<Rightarrow> (nat \<Rightarrow> 'p) \<Rightarrow> (nat \<Rightarrow> TSPacket list) \<Rightarrow> 'p Tsp \<Rightarrow> bool" where
  "processed P plugs S s \<longleftrightarrow> S 0 = t_stored s \<and>
     (\<forall>i. Suc (Suc i) < rg_n (t_ring s) \<longrightarrow>
        S (Suc i) = stage_run P (Suc i) (plugs (Suc i)) (take (length (S (Suc i))) (S i)) \<and>
        (alive s (Suc i) \<longrightarrow> t_plug s (Suc i) = stage_state P (Suc i) (plugs (Suc i)) (take (length (S (Suc i))) (S i))))"

definition exact :: "'p Tsp \<Rightarrow> bool" where
  "exact s \<longleftrightarrow> lo_pc (t_loc s (output_index s)) \<in> {Waiting, Checking, Sending} \<or> \<not> lo_aborted (t_loc s (output_index s))"

definition output_ok :: "(nat \<Rightarrow> nat) \<Rightarrow> (nat \<Rightarrow> TSPacket list) \<Rightarrow> 'p Tsp \<Rightarrow> bool" where
  "output_ok A S s \<longleftrightarrow>
     (let all = filter (\<lambda>q. \<not> dropped_packet q) (take (reached A s (output_index s)) (S (output_index s - 1)))
      in prefix (t_sent s) all \<and> (exact s \<longrightarrow> t_sent s = all))"

definition flow :: "'p Plugins \<Rightarrow> (nat \<Rightarrow> 'p) \<Rightarrow> (nat \<Rightarrow> nat) \<Rightarrow> (nat \<Rightarrow> TSPacket list) \<Rightarrow> 'p Tsp \<Rightarrow> bool" where
  "flow P plugs A S s \<longleftrightarrow> shape A s \<and> in_buffer A S s \<and> processed P plugs S s \<and> output_ok A S s"

lemma flow_keep:
  assumes "flow P plugs A S s" and "shape A' s'" and n: "rg_n (t_ring s') = rg_n (t_ring s)" "rg_count (t_ring s') = rg_count (t_ring s)"
    and b: "t_buf s' = t_buf s" "t_plug s' = t_plug s" "t_stored s' = t_stored s" "t_sent s' = t_sent s"
    and r: "\<And>i. reached A' s' i = reached A s i" and al: "\<And>i. i < rg_n (t_ring s) \<Longrightarrow> alive s' i \<Longrightarrow> alive s i" and ex: "exact s' \<Longrightarrow> exact s"
  shows "flow P plugs A' S s'"
proof -
  have o: "output_index s' = output_index s" using n by (simp add: output_index_def)
  have "in_buffer A' S s'" using assms(1) al unfolding flow_def in_buffer_def n b r by blast
  moreover have "processed P plugs S s'" using assms(1) al Suc_lessD unfolding flow_def processed_def n b by blast
  moreover have "output_ok A' S s'" using assms(1) ex unfolding flow_def output_ok_def b r o Let_def by blast
  ultimately show ?thesis using assms(2) by (simp add: flow_def)
qed

lemma lead_le:
  assumes "shape A s" and "i < rg_n (t_ring s)"
  shows "lead s i \<le> pe_cnt (rg_ex (t_ring s) i)"
  using shape_node [OF assms] by (auto simp: node_def window_ok_def lead_def split: if_splits)

lemma reached_bounds:
  assumes s: "shape A s"
  shows "Suc i < rg_n (t_ring s) \<Longrightarrow> reached A s (Suc i) \<le> A i"
    and "i < rg_n (t_ring s) \<Longrightarrow> A (output_index s) \<le> A i"
    and "i < rg_n (t_ring s) \<Longrightarrow> A i \<le> reached A s i"
    and "i < rg_n (t_ring s) \<Longrightarrow> reached A s i \<le> A (output_index s) + rg_count (t_ring s)"
    and "i < rg_n (t_ring s) \<Longrightarrow> A i \<le> A 0"
proof -
  have ok: "ring_ok A (t_ring s)" using s by (simp add: shape_def)
  show step: "reached A s (Suc i) \<le> A i" if "Suc i < rg_n (t_ring s)" for i
    using lead_le [OF s that] ok that by (auto simp: reached_def ring_ok_def)
  show "i < rg_n (t_ring s) \<Longrightarrow> A (output_index s) \<le> A i"
    using ring_ok_cnt_bound(2) [OF ok] by (simp add: output_index_def)
  show "i < rg_n (t_ring s) \<Longrightarrow> A i \<le> reached A s i" by (simp add: reached_def)
  show le0: "i < rg_n (t_ring s) \<Longrightarrow> A i \<le> A 0" for i using ring_ok_cnt_bound(4) [OF ok] .
  show "reached A s i \<le> A (output_index s) + rg_count (t_ring s)" if i: "i < rg_n (t_ring s)"
  proof (cases i)
    case 0
    with i lead_le [OF s i] ok show ?thesis by (auto simp: reached_def ring_ok_def output_index_def)
  next
    case (Suc j)
    then have "reached A s i \<le> A j" using step [of j] i by simp
    also have "\<dots> \<le> A 0" using le0 [of j] Suc i by simp
    also have "\<dots> \<le> A (output_index s) + rg_count (t_ring s)" using ok by (simp add: ring_ok_def output_index_def) 
    finally show ?thesis .
  qed
qed

lemma mod_window_le:
  assumes "a \<le> j" "k < a + n" "j \<le> k" and "j mod n = k mod (n::nat)"
  shows "j = k"
proof (rule ccontr)
  assume "j \<noteq> k"
  then have "0 < k - j" "k - j < n" using assms by auto
  moreover have "n dvd k - j" using assms(3,4) mod_eq_dvd_iff_nat [of j k n] by simp
  ultimately show False by (meson dvd_imp_le leD)
qed

lemma mod_window:
  assumes "a \<le> j" "j < a + n" "a \<le> k" "k < a + n" and "j mod n = k mod (n::nat)"
  shows "j = k"
  using mod_window_le [of a j k n] mod_window_le [of a k j n] assms by (metis nat_le_linear)

section \<open>Every step keeps the streams\<close>

lemma lead_set_loc [simp]:
  "lead (set_loc i l s) j = (if j = i then (if lo_pc l \<in> {Looping, Flushing} then lo_flush l
     else if lo_pc l = Passing then lo_cnt l else 0) else lead s j)"
  by (simp add: lead_def set_loc_def)

lemma set_loc_fields [simp]:
  "t_ring (set_loc i l s) = t_ring s" "t_buf (set_loc i l s) = t_buf s" "t_plug (set_loc i l s) = t_plug s"
  "t_in (set_loc i l s) = t_in s" "t_interrupt (set_loc i l s) = t_interrupt s" "t_stored (set_loc i l s) = t_stored s"
  "t_sent (set_loc i l s) = t_sent s" "t_loc (set_loc i l s) = (t_loc s)(i := l)"
  by (simp_all add: set_loc_def)

lemma lead_cong: "t_loc s' j = t_loc s j \<Longrightarrow> lead s' j = lead s j"
  by (simp add: lead_def)

lemma alive_cong: "t_loc s' j = t_loc s j \<Longrightarrow> alive s' j = alive s j"
  by (simp add: alive_def)

lemma output_index_cong: "rg_n (t_ring s') = rg_n (t_ring s) \<Longrightarrow> output_index s' = output_index s"
  by (simp add: output_index_def)

lemma exact_cong: "rg_n (t_ring s') = rg_n (t_ring s) \<Longrightarrow> t_loc s' (output_index s) = t_loc s (output_index s) \<Longrightarrow> exact s' = exact s"
  using output_index_cong [of s' s] by (simp only: exact_def)

text \<open>A step of thread \<open>i\<close> that changes neither the packets nor its position.\<close>

lemma flow_thread:
  assumes f: "flow P plugs A S s" and sh: "shape A' s'" and n: "rg_n (t_ring s') = rg_n (t_ring s)" "rg_count (t_ring s') = rg_count (t_ring s)"
    and b: "t_buf s' = t_buf s" "t_plug s' = t_plug s" "t_stored s' = t_stored s" "t_sent s' = t_sent s"
    and loc: "\<And>j. j \<noteq> i \<Longrightarrow> t_loc s' j = t_loc s j" and A: "\<And>j. j \<noteq> i \<Longrightarrow> A' j = A j" and r: "reached A' s' i = reached A s i"
    and al: "alive s' i \<Longrightarrow> alive s i" and ex: "i = output_index s \<Longrightarrow> exact s' \<Longrightarrow> exact s"
  shows "flow P plugs A' S s'"
proof (rule flow_keep [OF f sh n b])
  show "reached A' s' j = reached A s j" for j
    using r A loc lead_cong [of s' j s] by (cases "j = i") (auto simp: reached_def)
  show "alive s' j \<Longrightarrow> alive s j" for j using al loc alive_cong [of s' j s] by (cases "j = i") auto
  show "exact s' \<Longrightarrow> exact s"
    using ex loc [of "output_index s"] exact_cong [OF n(1)] by (cases "i = output_index s") auto
qed

lemma flow_shape: "flow P plugs A S s \<Longrightarrow> shape A s"
  by (simp add: flow_def)

lemma passPackets_n: "passPackets i c b ie ab r = (r', ok) \<Longrightarrow> rg_n r' = rg_n r \<and> rg_count r' = rg_count r"
  by (auto simp: passPackets_def Let_def)

lemma waitWork_n: "waitWork i r = (r', w) \<Longrightarrow> rg_n r' = rg_n r \<and> rg_count r' = rg_count r"
  by (auto simp: waitWork_def Let_def split: if_splits)

lemma flow_input_wait:
  assumes f: "flow P plugs A S s" and pc: "lo_pc (t_loc s 0) = Waiting" "\<not> pe_asleep (rg_ex (t_ring s) 0)"
  shows "flow P plugs A S (input_wait opts s)"
proof -
  note s = flow_shape [OF f]
  have o: "0 < output_index s" by (rule shape_output_node(2) [OF s])
  obtain r w where w: "waitWork 0 (t_ring s) = (r, w)" by force
  have n: "rg_n r = rg_n (t_ring s)" "rg_count r = rg_count (t_ring s)" using waitWork_n [OF w] by simp_all
  have l: "lead s 0 = 0" using pc by (simp add: lead_def)
  show ?thesis
    by (rule flow_thread [OF f shape_input_wait [OF s pc], where i = 0])
      (use w n l pc o in \<open>auto simp: input_wait_def Let_def reached_def alive_def lead_def split: option.split\<close>)
qed

lemma flow_input_pass:
  assumes f: "flow P plugs A S s" and pc: "lo_pc (t_loc s 0) = Passing"
  shows "flow P plugs (A(0 := A 0 + lo_cnt (t_loc s 0))) S (input_pass s)"
proof -
  note s = flow_shape [OF f]
  have o: "0 < output_index s" by (rule shape_output_node(2) [OF s])
  obtain r ok where p: "passPackets 0 (lo_cnt (t_loc s 0)) (pe_tsp_bitrate (rg_ex (t_ring s) 0)) (lo_input_end (t_loc s 0)) False (t_ring s) = (r, ok)"
    by force
  show ?thesis
    by (rule flow_thread [OF f shape_input_pass [OF s pc], where i = 0])
      (use p passPackets_n [OF p] pc o in \<open>auto simp: input_pass_def Let_def reached_def alive_def lead_def\<close>)
qed

lemma flow_processor_wait:
  assumes f: "flow P plugs A S s" and i: "0 < i" "Suc i < rg_n (t_ring s)"
    and pc: "lo_pc (t_loc s i) = Waiting" "\<not> pe_asleep (rg_ex (t_ring s) i)"
  shows "flow P plugs A S (processor_wait i s)"
proof -
  note s = flow_shape [OF f]
  have o: "i \<noteq> output_index s" using i by (auto simp: output_index_def)
  obtain r w where w: "waitWork i (t_ring s) = (r, w)" by force
  have n: "rg_n r = rg_n (t_ring s)" "rg_count r = rg_count (t_ring s)" using waitWork_n [OF w] by simp_all
  show ?thesis
    by (rule flow_thread [OF f shape_processor_wait [OF s i pc], where i = i])
      (use w n pc o in \<open>auto simp: processor_wait_def Let_def reached_def alive_def lead_def split: option.split\<close>)
qed

lemma flow_processor_leave:
  assumes f: "flow P plugs A S s" and i: "0 < i" "Suc i < rg_n (t_ring s)" and pc: "lo_pc (t_loc s i) = Leaving"
  shows "flow P plugs A S (processor_leave i s)"
proof -
  note s = flow_shape [OF f]
  have o: "i \<noteq> output_index s" using i by (auto simp: output_index_def)
  obtain r ok where p: "passPackets i 0 (lo_output_bitrate (t_loc s i)) True (lo_aborted (t_loc s i)) (t_ring s) = (r, ok)" by force
  show ?thesis
    by (rule flow_thread [OF f shape_processor_leave [OF s i pc], where i = i])
      (use p passPackets_n [OF p] pc o in \<open>auto simp: processor_leave_def Let_def reached_def alive_def lead_def\<close>)
qed

lemma flow_processor_flush:
  assumes f: "flow P plugs A S s" and i: "0 < i" "Suc i < rg_n (t_ring s)" and pc: "lo_pc (t_loc s i) = Flushing"
  shows "flow P plugs (A(i := A i + lo_flush (t_loc s i))) S (processor_flush i s)"
proof -
  note s = flow_shape [OF f]
  have o: "i \<noteq> output_index s" using i by (auto simp: output_index_def)
  let ?l = "t_loc s i"
  obtain r ok where p: "passPackets i (lo_flush ?l) (lo_output_bitrate ?l) (lo_done ?l = lo_cnt ?l \<and> lo_input_end ?l) (lo_aborted ?l) (t_ring s) = (r, ok)"
    by force
  have "lo_aborted ?l \<Longrightarrow> \<not> ok"
    using passPackets_fields(4) [OF shape_n [OF s] _ p] i by simp
  then show ?thesis
    by (intro flow_thread [OF f shape_processor_flush [OF s i pc], where i = i])
      (use p passPackets_n [OF p] pc o in \<open>auto simp: processor_flush_def Let_def reached_def alive_def lead_def\<close>)
qed

lemma flow_processor_loop_end:
  assumes f: "flow P plugs A S s" and i: "0 < i" "Suc i < rg_n (t_ring s)" and pc: "lo_pc (t_loc s i) = Looping"
    and e: "\<not> (lo_done (t_loc s i) < lo_cnt (t_loc s i) \<and> \<not> lo_aborted (t_loc s i))"
  shows "flow P plugs A S (processor_loop opts P i s)"
proof -
  note s = flow_shape [OF f]
  have o: "i \<noteq> output_index s" using i by (auto simp: output_index_def)
  have "processor_loop opts P i s = set_loc i ((t_loc s i)\<lparr>lo_pc := (if \<not> lo_input_end (t_loc s i) \<and> \<not> lo_aborted (t_loc s i) then Waiting else Stopped)\<rparr>) s"
    unfolding processor_loop_def Let_def by (subst if_not_P [OF e]) (rule refl)
  moreover have "lo_flush (t_loc s i) = 0"
    using shape_processor_node(1) [OF s i] pc e by (auto simp: window_ok_def)
  ultimately show ?thesis
    by (intro flow_thread [OF f shape_processor_loop_end [OF s i pc e], where i = i])
      (use pc o in \<open>auto simp: reached_def alive_def lead_def\<close>)
qed

lemma flow_output_wait:
  assumes f: "flow P plugs A S s" and pc: "lo_pc (t_loc s (output_index s)) = Waiting" "\<not> pe_asleep (rg_ex (t_ring s) (output_index s))"
  shows "flow P plugs A S (output_wait s)"
proof -
  note s = flow_shape [OF f]
  obtain r w where w: "waitWork (output_index s) (t_ring s) = (r, w)" by force
  have n: "rg_n r = rg_n (t_ring s)" "rg_count r = rg_count (t_ring s)" using waitWork_n [OF w] by simp_all
  have "exact s" using pc by (simp add: exact_def)
  then show ?thesis
    by (intro flow_thread [OF f shape_output_wait [OF s pc], where i = "output_index s"])
      (use w n pc in \<open>auto simp: output_wait_def Let_def reached_def alive_def lead_def split: option.split\<close>)
qed

lemma flow_output_check:
  assumes f: "flow P plugs A S s" and pc: "lo_pc (t_loc s (output_index s)) = Checking"
  shows "flow P plugs A S (output_check opts s)"
proof -
  note s = flow_shape [OF f]
  obtain l' where sh: "shape A (output_check opts s)" and l': "output_check opts s = set_loc (output_index s) l' s" "lo_pc l' \<in> {Sending, Stopped}"
    using shape_output_check [OF s pc] by blast
  have "exact s" using pc by (simp add: exact_def)
  then show ?thesis
    by (intro flow_thread [OF f sh, where i = "output_index s"]) (use l' pc in \<open>auto simp: reached_def alive_def lead_def\<close>)
qed

lemma flow_output_pass:
  assumes f: "flow P plugs A S s" and pc: "lo_pc (t_loc s (output_index s)) = Passing"
  shows "flow P plugs (A(output_index s := A (output_index s) + lo_cnt (t_loc s (output_index s)))) S (output_pass s)"
proof -
  note s = flow_shape [OF f]
  let ?A' = "A(output_index s := A (output_index s) + lo_cnt (t_loc s (output_index s)))"
  obtain r l' where sh: "shape ?A' (output_pass s)" and l': "output_pass s = set_loc (output_index s) l' (s\<lparr>t_ring := r\<rparr>)"
    "lo_pc l' \<in> {Waiting, Stopped}" "lo_aborted (t_loc s (output_index s)) \<longrightarrow> lo_aborted l'"
    using shape_output_pass [OF s pc] by blast
  obtain r2 ok where "passPackets (output_index s) (lo_cnt (t_loc s (output_index s))) 0 False (lo_aborted (t_loc s (output_index s))) (t_ring s) = (r2, ok)"
    by force
  then have "rg_n (t_ring (output_pass s)) = rg_n (t_ring s) \<and> rg_count (t_ring (output_pass s)) = rg_count (t_ring s)"
    by (auto simp: output_pass_def Let_def dest: passPackets_n)
  then have n: "rg_n r = rg_n (t_ring s)" "rg_count r = rg_count (t_ring s)" by (simp_all add: l')
  then have o: "output_index (output_pass s) = output_index s" by (simp add: l' output_index_def)
  have loc: "t_loc (output_pass s) (output_index s) = l'" by (simp add: l'(1))
  have "lo_pc l' = Waiting \<longrightarrow> \<not> lo_aborted l'"
    using shape_output_node(8) [OF sh] unfolding o output_ctl_def loc by blast
  with l'(2,3) have "exact (output_pass s) \<Longrightarrow> exact s" unfolding exact_def o loc by auto
  then show ?thesis
    by (intro flow_thread [OF f sh, where i = "output_index s"]) (use l' n pc in \<open>auto simp: reached_def alive_def lead_def\<close>)
qed

lemma flow_interrupt:
  assumes f: "flow P plugs A S s" and k: "t_interrupt s < rg_n (t_ring s)"
  shows "flow P plugs A S (handleInterrupt s)"
proof -
  have "rg_n (t_ring (handleInterrupt s)) = rg_n (t_ring s)" "rg_count (t_ring (handleInterrupt s)) = rg_count (t_ring s)"
    by (simp_all add: handleInterrupt_def setAbort_def)
  then show ?thesis
    by (intro flow_thread [OF f shape_interrupt [OF flow_shape [OF f] k], where i = 0])
      (auto simp: handleInterrupt_def reached_def lead_def alive_def exact_def output_index_def)
qed

subsection \<open>Steps that change packets\<close>

lemma flow_parts:
  assumes "flow P plugs A S s"
  shows "shape A s" and "Suc i < rg_n (t_ring s) \<Longrightarrow> length (S i) = reached A s i"
    and "Suc i < rg_n (t_ring s) \<Longrightarrow> alive s (Suc i) \<Longrightarrow> reached A s (Suc i) \<le> k \<Longrightarrow> k < reached A s i \<Longrightarrow>
      t_buf s ! (k mod rg_count (t_ring s)) = S i ! k"
    and "S 0 = t_stored s"
    and "Suc (Suc i) < rg_n (t_ring s) \<Longrightarrow> S (Suc i) = stage_run P (Suc i) (plugs (Suc i)) (take (length (S (Suc i))) (S i))"
    and "Suc (Suc i) < rg_n (t_ring s) \<Longrightarrow> alive s (Suc i) \<Longrightarrow>
      t_plug s (Suc i) = stage_state P (Suc i) (plugs (Suc i)) (take (length (S (Suc i))) (S i))"
    and "output_ok A S s"
  using assms unfolding flow_def in_buffer_def processed_def by blast+

lemma position:
  assumes s: "shape A s" and i: "i < rg_n (t_ring s)" and d: "pe_first (rg_ex (t_ring s) i) + d < rg_count (t_ring s)"
  shows "(A i + d) mod rg_count (t_ring s) = pe_first (rg_ex (t_ring s) i) + d"
proof -
  have "pe_first (rg_ex (t_ring s) i) = A i mod rg_count (t_ring s)" using s i by (simp add: shape_def ring_ok_def)
  then have "(A i + d) mod rg_count (t_ring s) = (pe_first (rg_ex (t_ring s) i) + d) mod rg_count (t_ring s)"
    by (simp add: mod_add_left_eq)
  with d show ?thesis by simp
qed

lemma ring_ok_antimono:
  assumes "ring_ok A r" and "i \<le> j" "j < rg_n r"
  shows "A j \<le> A i"
  using assms(2,3)
proof (induction rule: dec_induct)
  case (step m)
  then show ?case using ring_ok_cnt_bound(1) [OF assms(1), of m] by simp
qed simp

lemma live_range:
  assumes s: "shape A s" and i: "Suc i < rg_n (t_ring s)" and k: "reached A s (Suc i) \<le> k" "k < reached A s i"
  shows "A (output_index s) \<le> k" "k < A (output_index s) + rg_count (t_ring s)"
  using reached_bounds(2,3) [OF s i] reached_bounds(4) [OF s, of i] i k by auto

lemma output_behind:
  assumes f: "flow P plugs A S s"
  shows "reached A s (output_index s) \<le> length (S (output_index s - 1))"
proof -
  note s = flow_shape [OF f]
  obtain q where q: "output_index s = Suc q" using shape_output_node(2) [OF s] by (cases "output_index s") auto
  then have "Suc q < rg_n (t_ring s)" using shape_output_node(1) [OF s] by simp
  then have "reached A s (Suc q) \<le> length (S q)"
    using flow_parts(2) [OF f, of q] reached_bounds(1) [OF s, of q] reached_bounds(3) [OF s, of q] by simp
  with q show ?thesis by simp
qed

lemma flow_input_receive:
  assumes f: "flow P plugs A S s" and pc: "lo_pc (t_loc s 0) = Receiving" and P: "receive_ok P"
  shows "\<exists>S'. flow P plugs A S' (input_receive opts P due s)"
proof -
  note s = flow_shape [OF f]
  let ?s' = "input_receive opts P due s" and ?l = "t_loc s 0" and ?N = "rg_count (t_ring s)" and ?n = "rg_n (t_ring s)"
  obtain s1 c x y where rd: "reads (lo_first ?l) (lo_cnt ?l) s s1" and c: "c \<le> lo_cnt ?l"
    and b: "t_buf ?s' = t_buf s1" "t_plug ?s' = t_plug s1" "t_sent ?s' = t_sent s"
      "t_stored ?s' = t_stored s @ take c (drop (lo_first ?l) (t_buf s1))"
    and loc: "t_loc ?s' = (t_loc s)(0 := ?l\<lparr>lo_pc := Passing, lo_cnt := c, lo_input_end := x, lo_plugin_completed := y\<rparr>)"
    and rn: "rg_n (t_ring ?s') = ?n" "rg_count (t_ring ?s') = ?N" and sh: "shape A ?s'"
    using shape_input_receive [OF s pc P, of opts due] by blast
  have n2: "0 < ?n" "Suc 0 < ?n" using shape_n [OF s] by auto
  have w: "lo_first ?l = pe_first (rg_ex (t_ring s) 0)" "lo_cnt ?l \<le> pe_cnt (rg_ex (t_ring s) 0)" "lo_first ?l + lo_cnt ?l \<le> ?N"
    using shape_node [OF s n2(1)] pc by (auto simp: node_def window_ok_def)
  have o: "output_index ?s' = output_index s" "rg_count (t_ring ?s') = ?N" "rg_n (t_ring ?s') = ?n"
    and oi: "output_index s \<noteq> 0"
    using rn shape_output_node(2) [OF s] by (simp_all add: output_index_def)
  define new where "new = take c (drop (lo_first ?l) (t_buf s1))"
  define S' where "S' = S(0 := S 0 @ new)"
  have len: "length new = c" using c w rd s by (simp add: new_def reads_def shape_def)
  have r0: "reached A s 0 = A 0" "reached A ?s' 0 = A 0 + c" using pc by (simp_all add: reached_def lead_def loc)
  have rj: "reached A ?s' j = reached A s j" if "j \<noteq> 0" for j using that by (simp add: reached_def lead_def loc)
  have al: "alive ?s' j = alive s j" if "j \<noteq> 0" for j using that by (simp add: alive_def loc)
  have old: "t_buf s1 ! (k mod ?N) = t_buf s ! (k mod ?N)" if k: "A (output_index s) \<le> k" "k < A 0" for k
  proof -
    have "\<not> (lo_first ?l \<le> k mod ?N \<and> k mod ?N < lo_first ?l + lo_cnt ?l)"
    proof
      assume a: "lo_first ?l \<le> k mod ?N \<and> k mod ?N < lo_first ?l + lo_cnt ?l"
      define d where "d = k mod ?N - lo_first ?l"
      have d: "d < lo_cnt ?l" "k mod ?N = pe_first (rg_ex (t_ring s) 0) + d" using a w by (auto simp: d_def)
      then have "(A 0 + d) mod ?N = k mod ?N" using position [OF s n2(1), of d] w by simp
      moreover have "A 0 + d < A (output_index s) + ?N"
        using d w s by (auto simp: shape_def ring_ok_def output_index_def)
      ultimately have "A 0 + d = k" using mod_window [of "A (output_index s)" "A 0 + d" ?N k] k by simp
      with k show False by simp
    qed
    then show ?thesis using rd by (auto simp: reads_def not_le)
  qed
  have "in_buffer A S' ?s'" unfolding in_buffer_def o
  proof (intro allI impI conjI)
    fix i assume i: "Suc i < ?n"
    show "length (S' i) = reached A ?s' i"
      using flow_parts(2) [OF f i] r0 rj len by (cases "i = 0") (auto simp: S'_def)
    fix k assume a: "alive ?s' (Suc i)" and k: "reached A ?s' (Suc i) \<le> k \<and> k < reached A ?s' i"
    show "t_buf ?s' ! (k mod ?N) = S' i ! k"
    proof (cases "i = 0 \<and> A 0 \<le> k")
      case True
      define d where "d = k - A 0"
      have d: "d < c" "k = A 0 + d" using True k r0 by (auto simp: d_def)
      then have "k mod ?N = lo_first ?l + d" using position [OF s n2(1), of d] w c by simp
      then have "t_buf s1 ! (k mod ?N) = new ! d"
        using d c w rd s by (simp add: new_def reads_def shape_def)
      then show ?thesis using True d flow_parts(2) [OF f n2(2)] r0 by (simp add: b S'_def nth_append)
    next
      case False
      then have k': "reached A s (Suc i) \<le> k" "k < reached A s i" using k r0 rj by (cases "i = 0"; auto)+
      then have "k < A 0"
      proof (cases i)
        case 0
        with k' r0 show ?thesis by simp
      next
        case (Suc j)
        with k'(2) reached_bounds(1) [OF s, of j] reached_bounds(5) [OF s, of j] i show ?thesis by simp
      qed
      then have "t_buf s1 ! (k mod ?N) = S i ! k"
        using old live_range [OF s i k'] flow_parts(3) [OF f i _ k'] al [of "Suc i"] a by simp
      moreover have "S' i ! k = S i ! k"
        using flow_parts(2) [OF f i] k' by (cases "i = 0") (auto simp: S'_def nth_append)
      ultimately show ?thesis by (simp add: b)
    qed
  qed
  moreover have "processed P plugs S' ?s'" unfolding processed_def o
  proof (intro conjI allI impI)
    show "S' 0 = t_stored ?s'" using flow_parts(4) [OF f] by (simp add: S'_def b new_def)
    fix i assume i: "Suc (Suc i) < ?n"
    have le: "length (S (Suc i)) \<le> length (S i)"
      using flow_parts(2) [OF f, of i] flow_parts(2) [OF f, of "Suc i"] i reached_bounds(1,3) [OF s, of i] by fastforce
    then have t: "take (length (S (Suc i))) (S' i) = take (length (S (Suc i))) (S i)" "S' (Suc i) = S (Suc i)"
      by (cases "i = 0"; simp add: S'_def)+
    show "S' (Suc i) = stage_run P (Suc i) (plugs (Suc i)) (take (length (S' (Suc i))) (S' i))"
      using flow_parts(5) [OF f i] t by simp
    have "t_plug ?s' (Suc i) = t_plug s (Suc i)" using rd b by (simp add: reads_def)
    then show "alive ?s' (Suc i) \<Longrightarrow> t_plug ?s' (Suc i) = stage_state P (Suc i) (plugs (Suc i)) (take (length (S' (Suc i))) (S' i))"
      using flow_parts(6) [OF f i] t al [of "Suc i"] by simp
  qed
  moreover have "output_ok A S' ?s'"
  proof -
    have "exact ?s' = exact s" by (rule exact_cong) (use o oi loc in auto)
    moreover have "reached A s (output_index s) \<le> length (S (output_index s - 1))"
      by (rule output_behind [OF f])
    moreover have "take (reached A s (output_index s)) (S' (output_index s - 1)) = take (reached A s (output_index s)) (S (output_index s - 1))"
      if "reached A s (output_index s) \<le> length (S (output_index s - 1))"
      using that by (cases "output_index s - 1 = 0") (simp_all add: S'_def)
    ultimately show ?thesis using flow_parts(7) [OF f] unfolding output_ok_def o rj [OF oi] b Let_def by metis
  qed
  ultimately show ?thesis using sh by (auto simp: flow_def)
qed


lemma flow_processor_packet:
  assumes f: "flow P plugs A S s" and i: "0 < i" "Suc i < rg_n (t_ring s)" and pc: "lo_pc (t_loc s i) = Looping"
    and b: "lo_done (t_loc s i) < lo_cnt (t_loc s i)" "\<not> lo_aborted (t_loc s i)"
  shows "\<exists>S'. flow P plugs A S' (processor_packet opts P i s)"
proof -
  note s = flow_shape [OF f]
  let ?s' = "processor_packet opts P i s" and ?l = "t_loc s i" and ?N = "rg_count (t_ring s)" and ?n = "rg_n (t_ring s)"
  define pos where "pos = lo_first ?l + lo_done ?l"
  obtain p' res where pr: "packet_result P i (t_plug s i) (t_buf s ! pos) = (p', res)" by force
  note pk = shape_processor_packet [OF s i pc b pr [unfolded pos_def]]
  obtain x l' where plug: "t_plug ?s' = (t_plug s)(i := p')" and buf: "t_buf ?s' = (t_buf s)[pos := x]" "\<And>y. res = Some y \<Longrightarrow> x = y"
    and st: "t_stored ?s' = t_stored s" "t_sent ?s' = t_sent s" and loc: "t_loc ?s' = (t_loc s)(i := l')" "lo_pc l' \<in> {Looping, Flushing}"
    and l': "case res of Some _ \<Rightarrow> lo_flush l' = Suc (lo_flush ?l) \<and> lo_aborted l' = lo_aborted ?l
         | None \<Rightarrow> lo_flush l' = lo_flush ?l \<and> lo_aborted l'"
    using pk(4) [of opts] unfolding pos_def [symmetric] by blast
  have sh: "shape A ?s'" by (rule pk(1))
  have rn: "rg_n (t_ring ?s') = ?n" "rg_count (t_ring ?s') = ?N"
    by (auto simp: processor_packet_def Let_def split: prod.splits)
  have o: "output_index ?s' = output_index s" using rn by (simp add: output_index_def)
  have oi: "output_index s \<noteq> i" using i by (auto simp: output_index_def)
  define k0 where "k0 = reached A s i"
  obtain j where j: "i = Suc j" "Suc j < ?n" using i by (cases i) auto
  have fl: "k0 = A i + lo_flush ?l" using pc by (simp add: k0_def reached_def lead_def)
  have k0pos: "k0 mod ?N = pos"
    using position [OF s, of i "lo_flush ?l"] pk(2,3) i by (simp add: fl pos_def)
  have w: "lo_flush ?l + (lo_cnt ?l - lo_done ?l) \<le> pe_cnt (rg_ex (t_ring s) i)"
    using shape_processor_node(1) [OF s i] pc b by (auto simp: window_ok_def)
  have k0lt: "k0 < A j" using s w b j by (auto simp: fl shape_def ring_ok_def)
  have Aj: "A j \<le> reached A s j" using reached_bounds(3) [OF s, of j] j by simp
  have k0range: "A (output_index s) \<le> k0" "k0 < A (output_index s) + ?N"
    using live_range [OF s j(2), of k0] k0lt Aj by (simp_all add: k0_def j)
  have alive_i: "alive s i" using b by (simp add: alive_def)
  have rj: "reached A ?s' m = reached A s m" if "m \<noteq> i" for m using that by (simp add: reached_def lead_def loc)
  have ri: "reached A ?s' i = k0 + (if res = None then 0 else 1)"
    using l' loc by (auto simp: reached_def lead_def fl split: option.splits)
  have al: "alive ?s' m = alive s m" if "m \<noteq> i" for m using that by (simp add: alive_def loc)
  have al_i: "alive ?s' i \<longleftrightarrow> res \<noteq> None" using l' loc b by (auto simp: alive_def split: option.splits)
  have input: "t_buf s ! pos = S j ! k0"
    using flow_parts(3) [OF f j(2), of k0] alive_i k0lt Aj k0pos by (simp add: k0_def j)
  have Si: "length (S i) = k0" using flow_parts(2) [OF f i(2)] by (simp add: k0_def)
  have Sj: "length (S j) = reached A s j" using flow_parts(2) [OF f, of j] j by simp
  have run: "S i = stage_run P i (plugs i) (take k0 (S j))" "t_plug s i = stage_state P i (plugs i) (take k0 (S j))"
    using flow_parts(5,6) [OF f, of j] alive_i i(2) Si by (simp_all add: j)
  have lt: "take k0 (S j) @ [S j ! k0] = take (Suc k0) (S j)" using k0lt Aj Sj by (simp add: take_Suc_conv_app_nth)
  have full: "length (stage_run P i (plugs i) (take k0 (S j))) = length (take k0 (S j))"
    using run(1) Si k0lt Aj Sj by simp
  define S' where "S' = (case res of Some y \<Rightarrow> S(i := S i @ [y]) | None \<Rightarrow> S)"
  have S'i: "S' i = S i @ (case res of Some y \<Rightarrow> [y] | None \<Rightarrow> [])" and S'm: "m \<noteq> i \<Longrightarrow> S' m = S m" for m
    by (simp_all add: S'_def split: option.split)
  have pres: "packet_result P i (stage_state P i (plugs i) (take k0 (S j))) (S j ! k0) = (p', res)"
    using pr run(2) input by simp
  note snoc = stage_run_snoc [OF full, of "S j ! k0", unfolded lt pres fst_conv snd_conv]
  have "in_buffer A S' ?s'" unfolding in_buffer_def rn
  proof (intro allI impI conjI)
    fix m assume m: "Suc m < ?n"
    show "length (S' m) = reached A ?s' m"
      using flow_parts(2) [OF f m] rj [of m] ri S'i S'm [of m] Si by (cases "m = i") (auto split: option.split)
    fix k assume a: "alive ?s' (Suc m)" and k: "reached A ?s' (Suc m) \<le> k \<and> k < reached A ?s' m"
    show "t_buf ?s' ! (k mod ?N) = S' m ! k"
    proof (cases "m = i \<and> k = k0")
      case True
      then obtain y where y: "res = Some y" using k ri by (cases res) auto
      have "pos < length (t_buf s)" using pk(3) s by (simp add: pos_def shape_def)
      then show ?thesis using True y buf(2) [OF y] S'i Si by (simp add: k0pos buf(1) nth_append)
    next
      case False
      have ne: "k \<noteq> k0 \<and> reached A s (Suc m) \<le> k \<and> k < reached A s m"
      proof -
        consider "m = i" | "Suc m = i" | "Suc i \<le> m" | "i \<noteq> m" "Suc m < i" by linarith
        then show ?thesis
        proof cases
          case 1
          then show ?thesis using False k ri rj [of "Suc m"] by (auto simp: k0_def split: if_splits)
        next
          case 2
          then have "res \<noteq> None" using a al_i by simp
          then show ?thesis using 2 k ri rj [of m] by (auto simp: k0_def)
        next
          case 3
          then obtain q where q: "m = Suc q" "i \<le> q" by (cases m) auto
          have "reached A s m \<le> A q" using reached_bounds(1) [OF s, of q] m q by simp
          also have "A q \<le> A i" using ring_ok_antimono [of A "t_ring s" i q] s q m by (simp add: shape_def)
          finally have "reached A s m \<le> k0" by (simp add: fl)
          then show ?thesis using 3 k rj [of m] rj [of "Suc m"] by auto
        next
          case 4
          have "A j \<le> A (Suc m)" using ring_ok_antimono [of A "t_ring s" "Suc m" j] s 4 j by (simp add: shape_def)
          moreover have "A (Suc m) \<le> reached A s (Suc m)" using reached_bounds(3) [OF s m] .
          ultimately show ?thesis using 4 k rj [of m] rj [of "Suc m"] k0lt by auto
        qed
      qed
      then have "k mod ?N \<noteq> pos"
        using mod_window [OF _ _ k0range, of k] live_range [OF s m, of k] k0pos by auto
      moreover have "alive s (Suc m)" using a al [of "Suc m"] alive_i by (cases "Suc m = i") auto
      then have "t_buf s ! (k mod ?N) = S m ! k" using flow_parts(3) [OF f m] ne by simp
      moreover have "S' m ! k = S m ! k"
        using flow_parts(2) [OF f m] ne S'i S'm [of m] by (cases "m = i") (auto simp: nth_append)
      ultimately show ?thesis by (simp add: buf(1))
    qed
  qed
  moreover have "processed P plugs S' ?s'" unfolding processed_def rn
  proof (intro conjI allI impI)
    show "S' 0 = t_stored ?s'" using flow_parts(4) [OF f] S'm [of 0] i by (simp add: st)
    fix m assume m: "Suc (Suc m) < ?n"
    have le: "length (S (Suc m)) \<le> length (S m)"
      using flow_parts(2) [OF f, of m] flow_parts(2) [OF f, of "Suc m"] m reached_bounds(1,3) [OF s, of m] by fastforce
    show "S' (Suc m) = stage_run P (Suc m) (plugs (Suc m)) (take (length (S' (Suc m))) (S' m))"
    proof (cases "Suc m = i")
      case True
      then have m: "m = j" by (simp add: j)
      show ?thesis
      proof (cases res)
        case None
        then show ?thesis using run(1) Si S'm [of j] by (simp add: S'_def m j)
      next
        case (Some y)
        then have "S' i = S i @ [y]" "S' j = S j" using S'i S'm [of j] by (simp_all add: j)
        then show ?thesis using snoc Some run(1) Si by (simp add: m j)
      qed
    next
      case False
      then show ?thesis using flow_parts(5) [OF f m] S'm [of "Suc m"] le S'i S'm [of m] by (cases "m = i") auto
    qed
    assume a: "alive ?s' (Suc m)"
    show "t_plug ?s' (Suc m) = stage_state P (Suc m) (plugs (Suc m)) (take (length (S' (Suc m))) (S' m))"
    proof (cases "Suc m = i")
      case True
      then obtain y where y: "res = Some y" using a al_i by auto
      have "m = j" using True by (simp add: j)
      moreover have "S' i = S i @ [y]" "S' j = S j" using S'i S'm [of j] y by (simp_all add: j)
      moreover have "t_plug ?s' i = p'" by (simp add: plug)
      ultimately show ?thesis using snoc y Si by (simp add: j)
    next
      case False
      then show ?thesis using flow_parts(6) [OF f m] a al [of "Suc m"] S'm [of "Suc m"] le S'i S'm [of m]
        by (cases "m = i") (auto simp: plug)
    qed
  qed
  moreover have "output_ok A S' ?s'"
  proof -
    have ex: "exact ?s' = exact s" by (rule exact_cong) (use rn oi loc in auto)
    have "reached A s (output_index s) \<le> length (S (output_index s - 1))"
      by (rule output_behind [OF f])
    then have "take (reached A s (output_index s)) (S' (output_index s - 1)) = take (reached A s (output_index s)) (S (output_index s - 1))"
      using S'i S'm by (cases "output_index s - 1 = i") auto
    with ex show ?thesis using flow_parts(7) [OF f] rj [OF oi] unfolding output_ok_def o by (simp add: st Let_def)
  qed
  ultimately show ?thesis using sh by (auto simp: flow_def)
qed

lemma flow_output_send:
  assumes f: "flow P plugs A S s" and pc: "lo_pc (t_loc s (output_index s)) = Sending"
  shows "flow P plugs A S (output_send P s)"
proof -
  note s = flow_shape [OF f]
  let ?s' = "output_send P s" and ?N = "rg_count (t_ring s)" and ?n = "rg_n (t_ring s)"
  define out where "out = output_index s"
  define l where "l = t_loc s out"
  define win where "win = take (lo_cnt l) (drop (lo_first l) (t_buf s))"
  obtain p tot sent ok where sg: "send_segments P (t_plug s out) win = (p, tot, sent, ok)" by (metis prod_cases4)
  note sn = shape_output_send [OF s pc sg [unfolded win_def l_def out_def]]
  obtain r' where st: "?s' = set_loc out (l\<lparr>lo_pc := Passing, lo_aborted := lo_aborted l \<or> \<not> ok\<rparr>)
      (s\<lparr>t_plug := (t_plug s)(out := p), t_ring := r', t_sent := t_sent s @ sent\<rparr>)"
    using sn(2) unfolding out_def l_def by blast
  have sh: "shape A ?s'" by (rule sn(1))
  have rn: "rg_n (t_ring ?s') = ?n" "rg_count (t_ring ?s') = ?N"
    by (auto simp: output_send_def Let_def split: prod.splits)
  have o: "output_index ?s' = out" using rn by (simp add: output_index_def out_def)
  note od = shape_output_node [OF s, folded out_def]
  define q where "q = out - 1"
  have q: "out = Suc q" using od(2) by (simp add: q_def)
  have w: "lo_first l = pe_first (rg_ex (t_ring s) out)" "lo_cnt l \<le> pe_cnt (rg_ex (t_ring s) out)" "lo_first l + lo_cnt l \<le> ?N"
    using od(5) pc by (auto simp: window_ok_def l_def out_def)
  have r: "reached A s out = A out" "reached A ?s' out = A out + lo_cnt l" using pc by (simp_all add: reached_def lead_def st l_def out_def)
  have rj: "reached A ?s' j = reached A s j" if "j \<noteq> out" for j using that by (simp add: reached_def lead_def st)
  have lq: "length (S q) = reached A s q" using flow_parts(2) [OF f, of q] od(1) q by simp
  have lim: "A out + lo_cnt l \<le> A q" using w(2) s od(1) q by (auto simp: shape_def ring_ok_def)
  have Aq: "A q \<le> reached A s q" using reached_bounds(3) [OF s, of q] od(1) q by simp
  have win: "win = take (lo_cnt l) (drop (A out) (S q))"
  proof (rule nth_equalityI)
    show "length win = length (take (lo_cnt l) (drop (A out) (S q)))" using w(3) s lim Aq lq by (simp add: win_def shape_def)
    fix d assume "d < length win"
    then have d: "d < lo_cnt l" by (simp add: win_def)
    have "alive s out" using pc by (simp add: alive_def out_def)
    then have "t_buf s ! ((A out + d) mod ?N) = S q ! (A out + d)"
      using flow_parts(3) [OF f, of q "A out + d"] r(1) d lim Aq od(1) q by simp
    moreover have "(A out + d) mod ?N = lo_first l + d" using position [OF s od(1), of d] w d by simp
    ultimately show "win ! d = take (lo_cnt l) (drop (A out) (S q)) ! d"
      using d lim Aq lq w(3) s by (simp add: win_def shape_def)
  qed
  let ?live = "filter (\<lambda>q. \<not> dropped_packet q)"
  have split: "take (A out + lo_cnt l) (S q) = take (A out) (S q) @ win" by (simp add: win take_add)
  have sp: "prefix sent (?live win) \<and> (ok \<longrightarrow> sent = ?live win)" by (rule send_segments_spec [OF sg])
  have before: "t_sent s = ?live (take (A out) (S q))"
    using flow_parts(7) [OF f] pc r(1) by (auto simp: output_ok_def exact_def Let_def out_def [symmetric] q)
  have sent': "t_sent ?s' = t_sent s @ sent" and loc': "t_loc ?s' out = l\<lparr>lo_pc := Passing, lo_aborted := lo_aborted l \<or> \<not> ok\<rparr>"
    by (simp_all add: st)
  have "exact ?s' \<Longrightarrow> ok" unfolding exact_def o loc' by simp
  then have "output_ok A S ?s'" unfolding output_ok_def o Let_def r(2) sent' q_def [symmetric] split filter_append before
    using sp by auto
  moreover have "in_buffer A S ?s'" unfolding in_buffer_def rn
  proof (intro allI impI conjI)
    fix i assume i: "Suc i < ?n"
    then have ne: "i \<noteq> out" using od(3) by simp
    show "length (S i) = reached A ?s' i" using flow_parts(2) [OF f i] rj [OF ne] by simp
    fix k assume a: "alive ?s' (Suc i)" and k: "reached A ?s' (Suc i) \<le> k \<and> k < reached A ?s' i"
    have "alive s (Suc i)" using a pc by (cases "Suc i = out") (auto simp: alive_def st out_def)
    moreover have "reached A s (Suc i) \<le> k" using k rj [of "Suc i"] r by (cases "Suc i = out") auto
    ultimately show "t_buf ?s' ! (k mod ?N) = S i ! k" using flow_parts(3) [OF f i] k rj [OF ne] by (simp add: st)
  qed
  moreover have "processed P plugs S ?s'" unfolding processed_def rn
  proof (intro conjI allI impI)
    show "S 0 = t_stored ?s'" using flow_parts(4) [OF f] by (simp add: st)
    fix m assume m: "Suc (Suc m) < ?n"
    then have ne: "Suc m \<noteq> out" using od(3) by simp
    show "S (Suc m) = stage_run P (Suc m) (plugs (Suc m)) (take (length (S (Suc m))) (S m))" by (rule flow_parts(5) [OF f m])
    assume "alive ?s' (Suc m)"
    then have "alive s (Suc m)" using ne by (simp add: alive_def st)
    then show "t_plug ?s' (Suc m) = stage_state P (Suc m) (plugs (Suc m)) (take (length (S (Suc m))) (S m))"
      using flow_parts(6) [OF f m] ne by (simp add: st)
  qed
  ultimately show ?thesis using sh by (auto simp: flow_def)
qed

section \<open>Reachable states\<close>

lemma flow_step:
  assumes P: "receive_ok P" and f: "flow P plugs A S s" and st: "tsp_step opts P s s'"
  shows "\<exists>A' S'. flow P plugs A' S' s'"
  using st
proof (cases rule: tsp_step.cases)
  case (input_thread due)
  moreover have "lo_pc (t_loc s 0) = Receiving \<Longrightarrow> \<exists>A' S'. flow P plugs A' S' (input_receive opts P due s)"
    using flow_input_receive [OF f _ P] by blast
  ultimately show ?thesis
    using flow_input_wait [OF f] flow_input_pass [OF f]
    by (auto simp: input_step_def split: pc.splits if_splits)
next
  case (processor_thread i)
  have loop: "\<exists>A' S'. flow P plugs A' S' (processor_loop opts P i s)" if "lo_pc (t_loc s i) = Looping"
  proof (cases "lo_done (t_loc s i) < lo_cnt (t_loc s i) \<and> \<not> lo_aborted (t_loc s i)")
    case True
    then have "processor_loop opts P i s = processor_packet opts P i s" by (simp add: processor_loop_def)
    then show ?thesis using flow_processor_packet [OF f processor_thread(1,2) that] True by metis
  next
    case False
    then show ?thesis using flow_processor_loop_end [OF f processor_thread(1,2) that] by blast
  qed
  have "lo_pc (t_loc s i) = Waiting \<and> \<not> pe_asleep (rg_ex (t_ring s) i) \<and> s' = processor_wait i s \<or>
    lo_pc (t_loc s i) = Leaving \<and> s' = processor_leave i s \<or> lo_pc (t_loc s i) = Looping \<and> s' = processor_loop opts P i s \<or>
    lo_pc (t_loc s i) = Flushing \<and> s' = processor_flush i s"
    using processor_thread(3) by (auto simp: processor_step_def split: pc.splits if_splits)
  then show ?thesis
    using flow_processor_wait [OF f processor_thread(1,2)] flow_processor_leave [OF f processor_thread(1,2)]
      flow_processor_flush [OF f processor_thread(1,2)] loop by blast
next
  case output_thread
  then show ?thesis
    using flow_output_wait [OF f] flow_output_check [OF f] flow_output_send [OF f] flow_output_pass [OF f]
    by (auto simp: output_step_def split: pc.splits if_splits)
next
  case interrupt
  then show ?thesis using flow_interrupt [OF f] by auto
qed

lemma step_n:
  assumes P: "receive_ok P" and s: "shape A s" and st: "tsp_step opts P s s'"
  shows "rg_n (t_ring s') = rg_n (t_ring s)"
  using st
proof (cases rule: tsp_step.cases)
  case (input_thread due)
  moreover have "lo_pc (t_loc s 0) = Receiving \<Longrightarrow> rg_n (t_ring (input_receive opts P due s)) = rg_n (t_ring s)"
    using shape_input_receive [OF s _ P, of opts due] by blast
  ultimately show ?thesis
    by (auto simp: input_step_def input_wait_def input_pass_def Let_def dest!: waitWork_n passPackets_n split: pc.splits if_splits prod.splits option.splits)
next
  case (processor_thread i)
  then show ?thesis
    by (auto simp: processor_step_def processor_wait_def processor_leave_def processor_flush_def processor_loop_def processor_packet_def Let_def
        dest!: waitWork_n passPackets_n split: pc.splits if_splits prod.splits option.splits)
next
  case output_thread
  then show ?thesis
    by (auto simp: output_step_def output_wait_def output_check_def output_send_def output_pass_def Let_def
        dest!: waitWork_n passPackets_n split: pc.splits if_splits prod.splits option.splits)
next
  case interrupt
  then show ?thesis by (simp add: handleInterrupt_def setAbort_def)
qed

subsection \<open>The state when the threads start\<close>

lemma joint_ring:
  "foldl (\<lambda>r i. useJointTermination i True r) (Ring_new n c) joint =
     \<lparr>rg_n = n, rg_count = c, rg_ex = (\<lambda>k. Executor_new\<lparr>pe_use_jt := k \<in> set joint\<rparr>), rg_failed = False,
      jt_users = int (card (set joint)), jt_remaining = int (card (set joint)), jt_highest = 0\<rparr>"
proof (induction joint rule: rev_induct)
  case Nil
  show ?case by (simp add: Ring_new_def Executor_new_def)
next
  case (snoc i joint)
  then show ?case
    by (cases "i \<in> set joint")
      (auto simp: useJointTermination_def Let_def fun_eq_iff insert_absorb Executor_new_def)
qed

lemma initBuffer_fields:
  "rg_n (initBuffer i f c e ab b r) = rg_n r" "rg_count (initBuffer i f c e ab b r) = rg_count r"
  "rg_failed (initBuffer i f c e ab b r) = rg_failed r" "jt_users (initBuffer i f c e ab b r) = jt_users r"
  "jt_remaining (initBuffer i f c e ab b r) = jt_remaining r"
  "pe_use_jt (rg_ex (initBuffer i f c e ab b r) j) = pe_use_jt (rg_ex r j)"
  "pe_jt_completed (rg_ex (initBuffer i f c e ab b r) j) = pe_jt_completed (rg_ex r j)"
  "pe_asleep (rg_ex (initBuffer i f c e ab b r) j) = pe_asleep (rg_ex r j)"
  "pe_first (rg_ex (initBuffer i f c e ab b r) j) = (if j = i then f else pe_first (rg_ex r j))"
  "pe_cnt (rg_ex (initBuffer i f c e ab b r) j) = (if j = i then c else pe_cnt (rg_ex r j))"
  "pe_input_end (rg_ex (initBuffer i f c e ab b r) j) = (if j = i then e else pe_input_end (rg_ex r j))"
  "pe_aborting (rg_ex (initBuffer i f c e ab b r) j) = (if j = i then ab else pe_aborting (rg_ex r j))"
  by (simp_all add: initBuffer_def)

lemma init_others_fields:
  "rg_n (init_others n e b r) = rg_n r" "rg_count (init_others n e b r) = rg_count r"
  "rg_failed (init_others n e b r) = rg_failed r" "jt_users (init_others n e b r) = jt_users r"
  "jt_remaining (init_others n e b r) = jt_remaining r"
  "pe_use_jt (rg_ex (init_others n e b r) j) = pe_use_jt (rg_ex r j)"
  "pe_jt_completed (rg_ex (init_others n e b r) j) = pe_jt_completed (rg_ex r j)"
  "pe_asleep (rg_ex (init_others n e b r) j) = pe_asleep (rg_ex r j)"
  "pe_first (rg_ex (init_others n e b r) j) = (if 2 \<le> j \<and> j < n then 0 else pe_first (rg_ex r j))"
  "pe_cnt (rg_ex (init_others n e b r) j) = (if 2 \<le> j \<and> j < n then 0 else pe_cnt (rg_ex r j))"
  "pe_input_end (rg_ex (init_others n e b r) j) = (if 2 \<le> j \<and> j < n then e else pe_input_end (rg_ex r j))"
  "pe_aborting (rg_ex (init_others n e b r) j) = (if 2 \<le> j \<and> j < n then e else pe_aborting (rg_ex r j))"
  by (induction n) (auto simp: initBuffer_fields)

lemma flow_start:
  assumes P: "receive_ok P" and n: "2 \<le> n" and joint: "\<forall>i \<in> set joint. i < n"
    and st: "tsp_start opts P plugs joint n buf = Some s"
  shows "\<exists>A S. flow P plugs A S s" and "rg_n (t_ring s) = n" and "t_interrupt s = 0"
proof -
  define s0 where "s0 = tsp_new opts plugs joint n buf"
  define N where "N = length buf"
  have r0: "t_ring s0 = \<lparr>rg_n = n, rg_count = N, rg_ex = (\<lambda>k. Executor_new\<lparr>pe_use_jt := k \<in> set joint\<rparr>), rg_failed = False,
      jt_users = int (card (set joint)), jt_remaining = int (card (set joint)), jt_highest = 0\<rparr>"
    by (simp add: s0_def tsp_new_def joint_ring N_def)
  have f0: "t_buf s0 = buf" "t_plug s0 = plugs" "t_interrupt s0 = 0" "t_sent s0 = []"
    by (simp_all add: s0_def tsp_new_def)
  obtain s1 c where rs: "receiveAndStuff opts P 0 (N div 2) s0 = (s1, c)" by force
  obtain sr where sr: "reads 0 (N div 2) s0 sr" "s1 = sr \<or> s1 = sr\<lparr>t_ring := addTotalPackets 0 c (t_ring s0)\<rparr>" "c \<le> N div 2"
    using receiveAndStuff_reads [OF P _ rs] f0 N_def by auto
  define br where "br = initial_bitrate (input_getBitrate opts P s1) (take c (t_buf s1))"
  define r3 where "r3 = init_others n False br (initBuffer 0 (c mod N) (N - c) False False br (initBuffer 1 0 c False False br (t_ring s1)))"
  have ring1: "t_ring s1 = t_ring s0 \<or> t_ring s1 = addTotalPackets 0 c (t_ring s0)"
    using sr(1,2) by (auto simp: reads_def)
  have c0: "c \<noteq> 0" and s: "s = start_threads (s1\<lparr>t_ring := r3, t_stored := take c (t_buf s1)\<rparr>)"
    using st rs ring1 r0
    by (auto simp: tsp_start_def initAllBuffers_def s0_def [symmetric] Let_def r3_def br_def initBuffer_fields split: if_splits)
  have cN: "0 < c" "c < N" using c0 sr(3) by auto
  have ex: "pe_use_jt (rg_ex r3 j) \<longleftrightarrow> j \<in> set joint" "\<not> pe_jt_completed (rg_ex r3 j)" "\<not> pe_asleep (rg_ex r3 j)"
    "\<not> pe_input_end (rg_ex r3 j)" "\<not> pe_aborting (rg_ex r3 j)"
    "pe_first (rg_ex r3 j) = (if j = 0 then c else 0)"
    "pe_cnt (rg_ex r3 j) = (if j = 0 then N - c else if j = 1 then c else 0)" for j
    using ring1 r0 cN by (auto simp: r3_def init_others_fields initBuffer_fields Executor_new_def)
  have rn: "rg_n r3 = n" "rg_count r3 = N" "\<not> rg_failed r3" "jt_users r3 = int (card (set joint))" "jt_remaining r3 = int (card (set joint))"
    using ring1 r0 by (auto simp: r3_def init_others_fields initBuffer_fields)
  have fs: "t_ring s = r3" "t_interrupt s = 0" "t_sent s = []" "t_stored s = take c (t_buf s)" "length (t_buf s) = N"
    "t_loc s = (\<lambda>i. Local_new (pe_tsp_bitrate (rg_ex r3 i)))" "\<And>i. i \<noteq> 0 \<Longrightarrow> t_plug s i = plugs i"
    using sr(1,2) f0 N_def by (auto simp: s start_threads_def reads_def)
  define A where "A = (\<lambda>i::nat. if i = 0 then c else 0)"
  define S where "S = (\<lambda>i::nat. if i = 0 then t_stored s else [])"
  have "ring_ok A r3" using n cN by (auto simp: ring_ok_def rn ex A_def)
  moreover have "jt_ok r3"
  proof -
    have "{i. i < n \<and> i \<in> set joint} = set joint" using joint by auto
    then show ?thesis by (simp add: jt_ok_def rn ex)
  qed
  moreover have "ctl r3 (t_loc s) 0"
    by (auto simp: ctl_def node_def window_ok_def sleep_ok_def input_ctl_def processor_ctl_def output_ctl_def leaves_def fs ex Local_new_def)
  ultimately have sh: "shape A s" by (simp add: shape_def fs rn)
  have r: "reached A s i = A i" "alive s i" for i by (simp_all add: reached_def lead_def alive_def fs Local_new_def)
  have "in_buffer A S s"
    unfolding in_buffer_def r fs rn using fs cN by (auto simp: A_def S_def)
  moreover have "processed P plugs S s"
    unfolding processed_def using fs by (auto simp: S_def)
  moreover have "output_ok A S s"
  proof -
    have "output_index s \<noteq> 0" using n by (simp add: output_index_def fs rn)
    then have "reached A s (output_index s) = 0" unfolding r by (simp add: A_def)
    then show ?thesis by (simp add: output_ok_def fs)
  qed
  ultimately show "\<exists>A S. flow P plugs A S s" using sh by (auto simp: flow_def)
  show "rg_n (t_ring s) = n" "t_interrupt s = 0" by (simp_all add: fs rn)
qed

lemma flow_reach:
  assumes P: "receive_ok P" and n: "2 \<le> n" and joint: "\<forall>i \<in> set joint. i < n"
    and st: "tsp_start opts P plugs joint n buf = Some s0" and r: "tsp_reach opts P s0 s"
  shows "\<exists>A S. flow P plugs A S s \<and> rg_n (t_ring s) = n"
  using r
proof (induction rule: tsp_reach.induct)
  case start
  show ?case using flow_start [OF P n joint st] by blast
next
  case (step s s')
  then obtain A S where f: "flow P plugs A S s" "rg_n (t_ring s) = n" by blast
  with step show ?case using flow_step [OF P f(1) step(2)] step_n [OF P flow_shape [OF f(1)] step(2)] by auto
qed

end
