(* ===== verification/Ts_Tsp_Run.thy ===== *)
theory Ts_Tsp_Run
  imports Ts_Tsp_Flow
begin

text \<open>
  This theory states what the invariants of the previous ones mean for a run of \<open>tsp\<close>: refinement of the sequential
  pipeline, disjoint areas and no failed assertion, no deadlock, with a concrete
  execution as witness.
\<close>


section \<open>Properties of the process\<close>

lemma streams_prefix:
  assumes f: "flow P plugs A S s"
  shows "Suc k < rg_n (t_ring s) \<Longrightarrow> prefix (S k) (pipeline P plugs k (t_stored s))"
proof (induction k)
  case 0
  show ?case using flow_parts(4) [OF f] by simp
next
  case (Suc k)
  then have "prefix (S k) (pipeline P plugs k (t_stored s))" by simp
  then have "prefix (stage_run P (Suc k) (plugs (Suc k)) (take (length (S (Suc k))) (S k)))
      (stage_run P (Suc k) (plugs (Suc k)) (pipeline P plugs k (t_stored s)))"
    by (intro stage_run_prefix) (metis prefix_order.trans take_is_prefix)
  then show ?case using flow_parts(5) [OF f] Suc.prems by simp
qed

lemma sent_prefix:
  assumes f: "flow P plugs A S s" and n: "rg_n (t_ring s) = n"
  shows "prefix (t_sent s) (filter (\<lambda>q. \<not> dropped_packet q) (pipeline P plugs (n - 2) (t_stored s)))"
proof -
  have n2: "2 \<le> n" using shape_n [OF flow_shape [OF f]] n by simp
  have o: "output_index s - 1 = n - 2" using n by (simp add: output_index_def)
  have "prefix (t_sent s) (filter (\<lambda>q. \<not> dropped_packet q) (take (reached A s (output_index s)) (S (n - 2))))"
    using flow_parts(7) [OF f] unfolding output_ok_def o Let_def by blast
  also have "prefix \<dots> (filter (\<lambda>q. \<not> dropped_packet q) (S (n - 2)))" by (intro filter_prefix take_is_prefix)
  also have "prefix \<dots> (filter (\<lambda>q. \<not> dropped_packet q) (pipeline P plugs (n - 2) (t_stored s)))"
    using streams_prefix [OF f, of "n - 2"] n n2 by (intro filter_prefix) simp
  finally show ?thesis .
qed

lemma all_delivered:
  assumes f: "flow P plugs A S s" and n: "rg_n (t_ring s) = n"
    and stop: "\<forall>i < n. lo_pc (t_loc s i) = Stopped \<and> \<not> pe_aborting (rg_ex (t_ring s) i)"
  shows "t_sent s = filter (\<lambda>q. \<not> dropped_packet q) (pipeline P plugs (n - 2) (t_stored s))"
proof -
  note s = flow_shape [OF f]
  have n2: "2 \<le> n" using shape_n [OF s] n by simp
  have r: "reached A s i = A i" if "i < n" for i using stop that by (simp add: reached_def lead_def)
  have cnt: "pe_cnt (rg_ex (t_ring s) (Suc i)) = 0" if "Suc i < n" for i
  proof (cases "Suc (Suc i) = n")
    case True
    then have "Suc i = output_index s" using n by (simp add: output_index_def)
    then show ?thesis using shape_output_node(8) [OF s] stop that by (auto simp: output_ctl_def split: if_splits)
  next
    case False
    then show ?thesis using shape_processor_node(4) [OF s, of "Suc i"] stop that n
      by (auto simp: processor_ctl_def leaves_def)
  qed
  have A: "A (Suc i) = A i" if "Suc i < n" for i
    using s cnt [OF that] that n by (auto simp: shape_def ring_ok_def)
  have len: "Suc i < n \<Longrightarrow> length (S i) = A i" for i using flow_parts(2) [OF f] r n by simp
  have S: "Suc k < n \<Longrightarrow> S k = pipeline P plugs k (t_stored s)" for k
  proof (induction k)
    case 0
    show ?case using flow_parts(4) [OF f] by simp
  next
    case (Suc k)
    then have "take (length (S (Suc k))) (S k) = S k" using len [of k] len [of "Suc k"] A [of k] by simp
    with Suc show ?case using flow_parts(5) [OF f, of k] n by simp
  qed
  obtain q where q: "output_index s = Suc q" "q = n - 2" "Suc q < n" using n n2 by (cases "output_index s") (auto simp: output_index_def)
  have "\<not> lo_aborted (t_loc s (output_index s))"
    using shape_output_node(8) [OF s] stop q by (auto simp: output_ctl_def split: if_splits)
  then have "t_sent s = filter (\<lambda>q. \<not> dropped_packet q) (take (reached A s (output_index s)) (S (output_index s - 1)))"
    using flow_parts(7) [OF f] by (simp add: output_ok_def exact_def Let_def)
  moreover have "take (reached A s (output_index s)) (S q) = S q" using q r A [of q] len [of q] by simp
  ultimately show ?thesis using S [of q] q by simp
qed

text \<open>C1. The concurrent execution of \<open>tsp\<close>, with any interleaving of the threads, any size of the
  shared buffer, any flush requests, aborts and interrupts, refines the sequential pipeline: what the output device has
  received is always a prefix of what the processors, applied one after the other to the packets of the input, let through;
  and when all threads have ended without abort, it is all of it.\<close>

theorem tsp_refines_pipeline:
  assumes "receive_ok P" and "2 \<le> n" and "\<forall>i \<in> set joint. i < n"
    and "tsp_start opts P plugs joint n buf = Some s0" and "tsp_reach opts P s0 s"
  shows "prefix (t_sent s) (filter (\<lambda>q. \<not> dropped_packet q) (pipeline P plugs (n - 2) (t_stored s))) \<and>
    ((\<forall>i < n. lo_pc (t_loc s i) = Stopped \<and> \<not> pe_aborting (rg_ex (t_ring s) i)) \<longrightarrow>
      t_sent s = filter (\<lambda>q. \<not> dropped_packet q) (pipeline P plugs (n - 2) (t_stored s)))"
proof -
  obtain A S where f: "flow P plugs A S s" "rg_n (t_ring s) = n" using flow_reach [OF assms] by blast
  then show ?thesis using sent_prefix all_delivered by blast
qed

text \<open>The part of the buffer that an executor owns, and the part that its thread accesses in its
  current state.\<close>

definition area :: "Ring \<Rightarrow> nat \<Rightarrow> nat set" where
  "area r i = (\<lambda>d. (pe_first (rg_ex r i) + d) mod rg_count r) ` {..<pe_cnt (rg_ex r i)}"

definition accessed :: "'p Tsp \<Rightarrow> nat \<Rightarrow> nat set" where
  "accessed s i =
     (if lo_pc (t_loc s i) = Looping then {lo_first (t_loc s i) + lo_done (t_loc s i) ..< lo_first (t_loc s i) + lo_cnt (t_loc s i)}
      else if lo_pc (t_loc s i) \<in> {Receiving, Sending} then {lo_first (t_loc s i) ..< lo_first (t_loc s i) + lo_cnt (t_loc s i)}
      else {})"

lemma area_absolute:
  assumes s: "shape A s" and i: "i < rg_n (t_ring s)"
  shows "area (t_ring s) i = (\<lambda>k. k mod rg_count (t_ring s)) ` {A i ..< A i + pe_cnt (rg_ex (t_ring s) i)}"
proof -
  have "pe_first (rg_ex (t_ring s) i) = A i mod rg_count (t_ring s)" using s i by (simp add: shape_def ring_ok_def)
  then have e: "(pe_first (rg_ex (t_ring s) i) + d) mod rg_count (t_ring s) = (A i + d) mod rg_count (t_ring s)" for d
    by (simp add: mod_add_left_eq)
  have "{A i ..< A i + pe_cnt (rg_ex (t_ring s) i)} = (\<lambda>d. A i + d) ` {..<pe_cnt (rg_ex (t_ring s) i)}"
    by (auto simp: image_iff intro: le_add_diff_inverse [symmetric] intro!: bexI [of _ "_ - A i"])
  then show ?thesis by (simp add: area_def e image_image)
qed

lemma accessed_area:
  assumes s: "shape A s" and i: "i < rg_n (t_ring s)"
  shows "accessed s i \<subseteq> area (t_ring s) i"
proof
  fix k assume k: "k \<in> accessed s i"
  let ?e = "rg_ex (t_ring s) i" and ?l = "t_loc s i"
  have w: "window_ok (rg_count (t_ring s)) ?e ?l" using shape_node [OF s i] by (simp add: node_def)
  have b: "pe_first ?e \<le> k \<and> k < pe_first ?e + pe_cnt ?e \<and> k < rg_count (t_ring s)"
    using k w unfolding accessed_def window_ok_def by (auto split: if_splits)
  then have "k = (pe_first ?e + (k - pe_first ?e)) mod rg_count (t_ring s)" "k - pe_first ?e < pe_cnt ?e" by auto
  then show "k \<in> area (t_ring s) i" unfolding area_def by blast
qed

lemma ring_interval:
  assumes "ring_ok A r"
  shows "Suc m \<le> rg_n r \<Longrightarrow> (\<Union>i \<in> {1..m}. {A i ..< A i + pe_cnt (rg_ex r i)}) = {A m ..< A 0}"
proof (induction m)
  case (Suc m)
  have "A (Suc m) + pe_cnt (rg_ex r (Suc m)) = A m" "A m \<le> A 0"
    using assms Suc.prems ring_ok_cnt_bound(4) [OF assms, of m] by (auto simp: ring_ok_def)
  moreover have "{1..Suc m} = insert (Suc m) {1..m}" by auto
  ultimately show ?case using Suc by auto
qed simp

text \<open>C5. No data race and no failed assertion: in every reachable state the areas of the
  executors are disjoint and cover the buffer, every thread accesses its own area only, and
  no assertion of the code has failed.\<close>

theorem tsp_areas_partition:
  assumes "receive_ok P" and "2 \<le> n" and "\<forall>i \<in> set joint. i < n"
    and "tsp_start opts P plugs joint n buf = Some s0" and "tsp_reach opts P s0 s"
  shows "\<not> rg_failed (t_ring s) \<and> (\<forall>i < n. accessed s i \<subseteq> area (t_ring s) i) \<and>
    (\<forall>i < n. \<forall>j < n. i \<noteq> j \<longrightarrow> area (t_ring s) i \<inter> area (t_ring s) j = {}) \<and>
    (\<Union>i < n. area (t_ring s) i) = {..<length (t_buf s)}"
proof -
  obtain A S where f: "flow P plugs A S s" "rg_n (t_ring s) = n" using flow_reach [OF assms] by blast
  note s = flow_shape [OF f(1)]
  let ?N = "rg_count (t_ring s)" and ?r = "t_ring s"
  define seg where "seg i = {A i ..< A i + pe_cnt (rg_ex ?r i)}" for i
  have ok: "ring_ok A ?r" and N: "0 < ?N" "length (t_buf s) = ?N" using s by (simp_all add: shape_def ring_ok_def)
  have area: "area ?r i = (\<lambda>k. k mod ?N) ` seg i" if "i < n" for i using area_absolute [OF s] f(2) that by (simp add: seg_def)
  have top: "A 0 + pe_cnt (rg_ex ?r 0) = A (n - 1) + ?N" using ok f(2) by (simp add: ring_ok_def)
  have range: "seg i \<subseteq> {A (n - 1) ..< A (n - 1) + ?N}" if "i < n" for i
  proof (cases i)
    case 0
    then show ?thesis using top ring_ok_cnt_bound(2) [OF ok, of 0] f(2) that by (auto simp: seg_def)
  next
    case (Suc m)
    then have "A i + pe_cnt (rg_ex ?r i) = A m" using ok that f(2) by (auto simp: ring_ok_def)
    then show ?thesis using ring_ok_cnt_bound(2) [OF ok, of i] ring_ok_cnt_bound(4) [OF ok, of m] ring_ok_cnt_bound(3) [OF ok] f(2) that Suc
      by (auto simp: seg_def)
  qed
  have disj: "seg i \<inter> seg j = {}" if ij: "i < j" "j < n" for i j
  proof -
    obtain m where m: "j = Suc m" using ij(1) by (cases j) auto
    then have "A j + pe_cnt (rg_ex ?r j) = A m" using ok ij f(2) by (auto simp: ring_ok_def)
    moreover have "A m \<le> A i" using ring_ok_antimono [OF ok, of i m] ij m f(2) by simp
    ultimately show ?thesis by (auto simp: seg_def)
  qed
  have disj2: "seg i \<inter> seg j = {}" if "i \<noteq> j" "i < n" "j < n" for i j
    using that disj [of i j] disj [of j i] by (cases "i < j") auto
  have "area ?r i \<inter> area ?r j = {}" if ij: "i \<noteq> j" "i < n" "j < n" for i j
  proof (rule ccontr)
    assume "area ?r i \<inter> area ?r j \<noteq> {}"
    then obtain a b where ab: "a \<in> seg i" "b \<in> seg j" "a mod ?N = b mod ?N" using area ij by auto
    then have "a = b" using range [OF ij(2)] range [OF ij(3)] by (intro mod_window [of "A (n - 1)" a ?N b]) auto
    with ab disj2 [OF ij] show False by blast
  qed
  moreover have "(\<Union>i < n. area ?r i) = {..<?N}"
  proof
    show "(\<Union>i < n. area ?r i) \<subseteq> {..<?N}" using N(1) by (auto simp: area_def)
    show "{..<?N} \<subseteq> (\<Union>i < n. area ?r i)"
    proof
      fix k assume k: "k \<in> {..<?N}"
      define b where "b = A (n - 1) + (k + ?N - A (n - 1) mod ?N) mod ?N"
      have "(A (n - 1) + (k + ?N - A (n - 1) mod ?N)) mod ?N = k"
      proof -
        have "A (n - 1) mod ?N \<le> ?N" using N(1) by (simp add: less_imp_le)
        then have "A (n - 1) mod ?N + (k + ?N - A (n - 1) mod ?N) = k + ?N" by linarith
        then have "(A (n - 1) mod ?N + (k + ?N - A (n - 1) mod ?N)) mod ?N = k" using k by simp
        then show ?thesis by (simp add: mod_add_left_eq)
      qed
      then have bk: "b mod ?N = k" by (simp add: b_def mod_add_right_eq)
      have bb: "A (n - 1) \<le> b" "b < A (n - 1) + ?N" using N(1) by (simp_all add: b_def)
      have "\<exists>i < n. b \<in> seg i"
      proof (cases "b < A 0")
        case True
        have "(\<Union>i \<in> {1..n - 1}. seg i) = {A (n - 1) ..< A 0}"
          unfolding seg_def by (rule ring_interval [OF ok]) (use assms(2) f(2) in simp)
        then have "b \<in> (\<Union>i \<in> {1..n - 1}. seg i)" using True bb by simp
        then obtain i where "i \<le> n - 1" "b \<in> seg i" by auto
        then show ?thesis using assms(2) by (intro exI [of _ i]) simp
      next
        case False
        then show ?thesis using bb top assms(2) by (intro exI [of _ 0]) (simp add: seg_def)
      qed
      then show "k \<in> (\<Union>i < n. area ?r i)" using area bk by blast
    qed
  qed
  ultimately show ?thesis using s N accessed_area [OF s] f(2) by (auto simp: shape_def)
qed

text \<open>A thread can go on when it has not ended and, if it is about to wait, has something to do.\<close>

definition can_run :: "'p Tsp \<Rightarrow> nat \<Rightarrow> bool" where
  "can_run s i \<longleftrightarrow> lo_pc (t_loc s i) \<noteq> Stopped \<and>
     (lo_pc (t_loc s i) = Waiting \<longrightarrow> \<not> pe_asleep (rg_ex (t_ring s) i) \<and> \<not> must_wait (t_ring s) i)"

definition thread_step :: "TspOptions \<Rightarrow> 'p Plugins \<Rightarrow> bool \<Rightarrow> nat \<Rightarrow> 'p Tsp \<Rightarrow> 'p Tsp option" where
  "thread_step opts P due i s =
     (if i = 0 then input_step opts P due s
      else if Suc i < rg_n (t_ring s) then processor_step opts P i s
      else if i = output_index s then output_step opts P s else None)"

lemma thread_step_tsp_step: "thread_step opts P due i s = Some s' \<Longrightarrow> tsp_step opts P s s'"
  by (auto simp: thread_step_def intro: tsp_step.intros split: if_splits)

lemma can_run_step:
  assumes s: "shape A s" and i: "i < rg_n (t_ring s)" and c: "can_run s i"
  shows "\<exists>s'. thread_step opts P due i s = Some s'"
proof -
  note nd = shape_node [OF s i]
  have aw: "lo_pc (t_loc s i) \<noteq> Stopped" "lo_pc (t_loc s i) = Waiting \<Longrightarrow> \<not> pe_asleep (rg_ex (t_ring s) i)"
    using c by (auto simp: can_run_def)
  consider "i = 0" | "0 < i" "Suc i < rg_n (t_ring s)" | "i \<noteq> 0" "Suc i = rg_n (t_ring s)"
    using i by linarith
  then show ?thesis
  proof cases
    case 1
    then have "lo_pc (t_loc s i) \<in> {Waiting, Receiving, Passing, Stopped}" using nd by (simp add: node_def input_ctl_def)
    with 1 aw show ?thesis by (auto simp: thread_step_def input_step_def)
  next
    case 2
    then have "lo_pc (t_loc s i) \<in> {Waiting, Leaving, Looping, Flushing, Stopped}" using nd by (simp add: node_def processor_ctl_def)
    with 2 aw show ?thesis by (auto simp: thread_step_def processor_step_def)
  next
    case 3
    then have "output_index s = i" by (simp add: output_index_def)
    moreover have "lo_pc (t_loc s i) \<in> {Waiting, Checking, Sending, Passing, Stopped}" using nd 3 by (simp add: node_def output_ctl_def)
    ultimately show ?thesis using 3 aw by (auto simp: thread_step_def output_step_def)
  qed
qed

lemma some_can_run:
  assumes s: "shape A s" and i: "i < rg_n (t_ring s)" "lo_pc (t_loc s i) \<noteq> Stopped"
    and k: "t_interrupt s = 0 \<or> t_interrupt s = rg_n (t_ring s)"
  shows "\<exists>j < rg_n (t_ring s). can_run s j"
proof (rule ccontr)
  let ?r = "t_ring s" and ?n = "rg_n (t_ring s)"
  assume "\<not> ?thesis"
  then have none: "\<not> can_run s j" if "j < ?n" for j using that by blast
  have blocked: "lo_pc (t_loc s j) = Waiting \<and> must_wait ?r j" if j: "j < ?n" "lo_pc (t_loc s j) \<noteq> Stopped" for j
    using none [OF j(1)] j(2) shape_node [OF s j(1)] by (auto simp: can_run_def node_def sleep_ok_def must_wait_def)
  have up: "lo_pc (t_loc s (Suc j)) \<noteq> Stopped" if j: "Suc j < ?n" "lo_pc (t_loc s j) \<noteq> Stopped" for j
  proof
    assume st: "lo_pc (t_loc s (Suc j)) = Stopped"
    have nx: "ringNext ?r j = Suc j" using j by (simp add: ringNext_def)
    have w: "lo_pc (t_loc s j) = Waiting" "\<not> pe_aborting (rg_ex ?r (Suc j))"
      using blocked [of j] j by (auto simp: must_wait_def nx)
    have "pe_aborting (rg_ex ?r (Suc j)) \<or> pe_input_end (rg_ex ?r (Suc j))"
      using shape_node [OF s j(1)] st by (auto simp: node_def processor_ctl_def output_ctl_def leaves_def split: if_splits)
    moreover have "pe_input_end (rg_ex ?r (Suc j)) \<Longrightarrow> lo_pc (t_loc s j) \<noteq> Waiting"
      using shape_node [OF s, of j] j nx by (auto simp: node_def input_ctl_def processor_ctl_def leaves_def split: if_splits)
    ultimately show False using w by blast
  qed
  show False
  proof (cases "t_interrupt s = 0")
    case False
    then have "pe_aborting (rg_ex ?r (ringNext ?r i))"
      using k shape_node [OF s ringNext_less [OF i(1)]] ringNext_less [OF i(1)] by (auto simp: node_def)
    then show False using blocked [OF i] by (simp add: must_wait_def)
  next
    case k0: True
    have down: "lo_pc (t_loc s j) \<noteq> Stopped" if j: "Suc j < ?n" "lo_pc (t_loc s (Suc j)) \<noteq> Stopped" for j
    proof
      assume st: "lo_pc (t_loc s j) = Stopped"
      have nx: "ringNext ?r j = Suc j" using j by (simp add: ringNext_def)
      have "pe_input_end (rg_ex ?r (Suc j)) \<or> pe_aborting (rg_ex ?r (Suc j))"
        using shape_node [OF s, of j] j st nx by (auto simp: node_def input_ctl_def processor_ctl_def leaves_def split: if_splits)
      moreover have "pe_aborting (rg_ex ?r (Suc j)) \<Longrightarrow> lo_pc (t_loc s (Suc j)) \<noteq> Waiting"
        using shape_node [OF s j(1)] k0 by (auto simp: node_def processor_ctl_def output_ctl_def leaves_def split: if_splits)
      ultimately show False using blocked [OF j] by (auto simp: must_wait_def)
    qed
    have zero: "j \<le> i \<Longrightarrow> lo_pc (t_loc s (i - j)) \<noteq> Stopped" for j
    proof (induction j)
      case (Suc j)
      then show ?case using down [of "i - Suc j"] i(1) by (simp add: Suc_diff_Suc)
    qed (use i in simp)
    have all: "j < ?n \<Longrightarrow> lo_pc (t_loc s j) \<noteq> Stopped" for j
      by (induction j) (use zero [of i] up in auto)
    then have cnt: "pe_cnt (rg_ex ?r j) = 0" if "j < ?n" for j using blocked that by (auto simp: must_wait_def)
    have ok: "ring_ok A ?r" using s by (simp add: shape_def)
    have e: "A (Suc j) = A j" if j: "Suc j < ?n" for j
    proof -
      have "A (Suc j) + pe_cnt (rg_ex ?r (Suc j)) = A j" using ok j unfolding ring_ok_def by blast
      then show ?thesis using cnt [OF j] by simp
    qed
    have top: "A 0 = A (?n - 1) + rg_count ?r"
      using ok cnt [of 0] shape_n [OF s] by (simp add: ring_ok_def)
    have all_eq: "j < ?n \<Longrightarrow> A j = A 0" for j by (induction j) (auto simp: e)
    have "A (?n - 1) = A 0" using shape_n [OF s] by (intro all_eq) simp
    then show False using top ok by (simp add: ring_ok_def)
  qed
qed

text \<open>C4. No deadlock and no lost wake-up: in every reachable state, as long as one thread has
  not ended and no interrupt is being handled, some thread can make a step, and if it was
  going to wait it finds work; while the interrupt handler runs, the handler makes the step.\<close>

theorem tsp_never_stuck:
  assumes "receive_ok P" and "2 \<le> n" and "\<forall>i \<in> set joint. i < n"
    and "tsp_start opts P plugs joint n buf = Some s0" and "tsp_reach opts P s0 s"
    and "i < n" and "lo_pc (t_loc s i) \<noteq> Stopped"
  shows "if t_interrupt s = 0 \<or> t_interrupt s = n
    then \<exists>j < n. can_run s j \<and> (\<exists>s'. thread_step opts P due j s = Some s' \<and> tsp_step opts P s s')
    else tsp_step opts P s (handleInterrupt s)"
proof -
  obtain A S where f: "flow P plugs A S s" "rg_n (t_ring s) = n" using flow_reach [OF assms(1-5)] by blast
  note s = flow_shape [OF f(1)]
  have le: "t_interrupt s \<le> n" using s f(2) by (simp add: shape_def ctl_def)
  show ?thesis
  proof (cases "t_interrupt s = 0 \<or> t_interrupt s = n")
    case True
    then obtain j where j: "j < n" "can_run s j" using some_can_run [OF s, of i] assms(6,7) f(2) by auto
    then obtain s' where "thread_step opts P due j s = Some s'" using can_run_step [OF s] f(2) by blast
    with True j show ?thesis by (auto intro: thread_step_tsp_step)
  next
    case False
    then show ?thesis using le f(2) by (auto intro: tsp_step.interrupt)
  qed
qed

section \<open>A concrete execution\<close>

text \<open>Three executors on a buffer of four packets. The input has three short packets, the processor
  drops those with second byte 2.\<close>

definition demo_options :: TspOptions where
  "demo_options = \<lparr>op_max_flush_pkt = 1, op_max_input_pkt = 0, op_instuff_nullpkt = 0, op_instuff_inpkt = 0,
     op_instuff_start = 0, op_instuff_stop = 0, op_bitrate = 1000, op_ignore_jt = False\<rparr>"

definition demo_plugins :: "TSPacket list Plugins" where
  "demo_plugins = \<lparr>pl_receive = (\<lambda>p m. (drop m p, take m p)),
     pl_process = (\<lambda>i p pkt. (p, \<lparr>rs_status = (if pkt ! 1 = 2 then TSP_DROP else TSP_OK), rs_packet = pkt,
        rs_flush_request = False, rs_bitrate_changed = False, rs_joint_terminate = False\<rparr>)),
     pl_send = (\<lambda>p pkts. (p, True)), pl_getBitrate = (\<lambda>p. 0)\<rparr>"

definition demo_input :: "nat \<Rightarrow> TSPacket list" where
  "demo_input i = (if i = 0 then [[0x47, 1], [0x47, 2], [0x47, 3]] else [])"

definition demo_start :: "TSPacket list Tsp" where
  "demo_start = the (tsp_start demo_options demo_plugins demo_input [] 3 [[0, 0], [0, 0], [0, 0], [0, 0]])"

primrec run_threads :: "TspOptions \<Rightarrow> 'p Plugins \<Rightarrow> nat list \<Rightarrow> 'p Tsp \<Rightarrow> 'p Tsp" where
  "run_threads opts P [] s = s"
| "run_threads opts P (i # is) s =
     run_threads opts P is (case thread_step opts P False i s of Some s' \<Rightarrow> s' | None \<Rightarrow> s)"

lemma tsp_reach_trans: "tsp_reach opts P s1 s2 \<Longrightarrow> tsp_reach opts P s0 s1 \<Longrightarrow> tsp_reach opts P s0 s2"
  by (induction rule: tsp_reach.induct) (auto intro: tsp_reach.step)

lemma run_threads_reach: "tsp_reach opts P s (run_threads opts P is s)"
proof (induction "is" arbitrary: s)
  case Nil
  show ?case by (simp add: tsp_reach.start)
next
  case (Cons i "is")
  have "tsp_reach opts P s (case thread_step opts P False i s of Some s' \<Rightarrow> s' | None \<Rightarrow> s)"
    by (auto split: option.split intro: tsp_reach.start tsp_reach.step thread_step_tsp_step)
  then show ?case using Cons.IH tsp_reach_trans by (metis run_threads.simps(2))
qed

definition demo_schedule :: "nat list" where
  "demo_schedule = [0, 0, 1, 1, 1, 1, 2, 2, 2, 2, 0, 0, 0, 0] @ replicate 9 1 @ replicate 7 2"

definition demo_observe :: "'p Tsp \<Rightarrow> TSPacket list \<times> pc list \<times> bool list" where
  "demo_observe s = (t_stored s, map (\<lambda>i. lo_pc (t_loc s i)) [0, 1, 2], map (\<lambda>i. pe_aborting (rg_ex (t_ring s) i)) [0, 1, 2])"

lemma demo_run:
  "demo_observe (run_threads demo_options demo_plugins demo_schedule demo_start) =
     ([[0x47, 1], [0x47, 2], [0x47, 3]], [Stopped, Stopped, Stopped], [False, False, False])"
  by code_simp

lemma demo_end:
  "t_stored (run_threads demo_options demo_plugins demo_schedule demo_start) = [[0x47, 1], [0x47, 2], [0x47, 3]]"
  "\<forall>i < 3. lo_pc (t_loc (run_threads demo_options demo_plugins demo_schedule demo_start) i) = Stopped \<and>
    \<not> pe_aborting (rg_ex (t_ring (run_threads demo_options demo_plugins demo_schedule demo_start)) i)"
  using demo_run by (auto simp: demo_observe_def less_Suc_eq numeral_3_eq_3 numeral_2_eq_2)

lemma demo_receive_ok: "receive_ok demo_plugins"
  by (simp add: receive_ok_def demo_plugins_def)

lemma demo_starts: "tsp_start demo_options demo_plugins demo_input [] 3 [[0, 0], [0, 0], [0, 0], [0, 0]] = Some demo_start"
proof -
  have "\<not> Option.is_none (tsp_start demo_options demo_plugins demo_input [] 3 [[0, 0], [0, 0], [0, 0], [0, 0]])" by code_simp
  then show ?thesis by (auto simp: demo_start_def Option.is_none_def)
qed

theorem tsp_refines_pipeline_witness:
  "t_sent (run_threads demo_options demo_plugins demo_schedule demo_start) = [[0x47, 1], [0x47, 3]]"
proof -
  let ?s = "run_threads demo_options demo_plugins demo_schedule demo_start"
  have "(\<forall>i < 3. lo_pc (t_loc ?s i) = Stopped \<and> \<not> pe_aborting (rg_ex (t_ring ?s) i)) \<longrightarrow>
      t_sent ?s = filter (\<lambda>q. \<not> dropped_packet q) (pipeline demo_plugins demo_input (3 - 2) (t_stored ?s))"
    using tsp_refines_pipeline [OF demo_receive_ok _ _ demo_starts run_threads_reach] by simp
  moreover have "\<forall>i < 3. lo_pc (t_loc ?s i) = Stopped \<and> \<not> pe_aborting (rg_ex (t_ring ?s) i)" by (rule demo_end(2))
  ultimately have "t_sent ?s = filter (\<lambda>q. \<not> dropped_packet q) (pipeline demo_plugins demo_input (3 - 2) (t_stored ?s))" by blast
  then show ?thesis unfolding demo_end(1)
    by (simp add: packet_result_def dropped_packet_def demo_plugins_def result_packet_def)
qed

theorem tsp_areas_partition_witness:
  "let s = run_threads demo_options demo_plugins [0, 1, 1, 1, 1] demo_start
   in \<not> rg_failed (t_ring s) \<and> (\<forall>i < 3. accessed s i \<subseteq> area (t_ring s) i) \<and> area (t_ring s) 0 \<inter> area (t_ring s) 1 = {}"
proof -
  have three: "(0::nat) < 3" "(1::nat) < 3" "(0::nat) \<noteq> 1" by simp_all
  show ?thesis
    using tsp_areas_partition [OF demo_receive_ok _ _ demo_starts run_threads_reach, of "[0, 1, 1, 1, 1]"] three
    unfolding Let_def by simp
qed

theorem tsp_never_stuck_witness:
  "\<exists>j < 3. can_run (run_threads demo_options demo_plugins [0, 1, 1, 1, 1] demo_start) j"
proof -
  have "lo_pc (t_loc (run_threads demo_options demo_plugins [0, 1, 1, 1, 1] demo_start) 0) \<noteq> Stopped" by code_simp
  moreover have "t_interrupt (run_threads demo_options demo_plugins [0, 1, 1, 1, 1] demo_start) = 0" by code_simp
  ultimately show ?thesis
    using tsp_never_stuck [OF demo_receive_ok _ _ demo_starts run_threads_reach, of 0 "[0, 1, 1, 1, 1]" True] by auto
qed

end
