(* ===== verification/Ts_Desc.thy ===== *)
theory Ts_Desc
  imports Ts_Table
begin

text \<open>
  Descriptors and lists of descriptors: \<open>tsDescriptor.cpp\<close>, \<open>tsDescriptorList.cpp\<close> and
  \<open>tsPrivateDataSpecifierDescriptor.cpp\<close>. A descriptor is its binary content, \<^const>\<open>None\<close> when it is
  invalid (a null \<open>_data\<close>). The pointers to descriptors that lists share are values here: no operation
  of a list changes a descriptor. The parent table of a list, used only for XML, is left out.

  Every element of a list carries the private data specifier that holds at its place. The lemmas show that
  each operation keeps this field equal to what a reader of the bytes would find (\<open>pds_ok\<close>), that no
  removal changes the meaning of the private descriptors that stay, and that reading what was serialized gives the
  list back.
\<close>

section \<open>Descriptor\<close>

type_synonym Descriptor = "byte list option"

abbreviation (input) DID_PRIV_DATA_SPECIF :: byte where "DID_PRIV_DATA_SPECIF \<equiv> 0x5F"

definition Descriptor_of_bytes :: "byte list \<Rightarrow> Descriptor" where
  "Descriptor_of_bytes d =
     (if 2 \<le> length d \<and> length d < 258 \<and> unat (d ! 1) = length d - 2 then Some d else None)"

definition Descriptor_of_payload :: "byte \<Rightarrow> byte list \<Rightarrow> Descriptor" where
  "Descriptor_of_payload tag data =
     (if length data < 256 then Some (memcpy_at ((replicate (length data + 2) 0)[0 := tag, 1 := of_nat (length data)]) 2 data)
      else None)"

definition desc_tag :: "Descriptor \<Rightarrow> byte" where
  "desc_tag d = (case d of None \<Rightarrow> 0 | Some b \<Rightarrow> b ! 0)"

definition desc_size :: "Descriptor \<Rightarrow> nat" where
  "desc_size d = length (the d)"

definition desc_payload :: "Descriptor \<Rightarrow> byte list" where
  "desc_payload d = drop 2 (the d)"

definition desc_payloadSize :: "Descriptor \<Rightarrow> nat" where
  "desc_payloadSize d = length (the d) - 2"

definition replacePayload :: "byte list \<Rightarrow> Descriptor \<Rightarrow> Descriptor" where
  "replacePayload addr d =
     (if length addr > 255 then None
      else map_option (\<lambda>b. let b' = take 2 b @ addr in b'[1 := of_nat (length b' - 2)]) d)"

definition resizePayload :: "nat \<Rightarrow> Descriptor \<Rightarrow> Descriptor" where
  "resizePayload new_size d =
     (if new_size > 255 then None
      else map_option (\<lambda>b. let b' = take (new_size + 2) b @ replicate (new_size + 2 - length b) 0
                           in b'[1 := of_nat (length b' - 2)]) d)"

section \<open>Lists of descriptors\<close>

record DescElement =
  el_desc :: Descriptor
  el_pds :: u32

type_synonym DescriptorList = "DescElement list"

definition dl_equal :: "DescriptorList \<Rightarrow> DescriptorList \<Rightarrow> bool" where
  "dl_equal a b \<longleftrightarrow> length a = length b \<and> list_all2 (\<lambda>x y. el_desc x = el_desc y) a b"

definition dl_add :: "Descriptor \<Rightarrow> DescriptorList \<Rightarrow> DescriptorList" where
  "dl_add desc dl =
     (let pds = (if desc_tag desc = DID_PRIV_DATA_SPECIF
                 then (if desc_payloadSize desc < 4 then 0 else GetUInt32 (desc_payload desc) 0)
                 else if dl = [] then 0 else el_pds (dl ! (length dl - 1)))
      in dl @ [\<lparr>el_desc = desc, el_pds = pds\<rparr>])"

definition dl_add_list :: "DescriptorList \<Rightarrow> DescriptorList \<Rightarrow> DescriptorList" where
  "dl_add_list other dl = dl @ other"

function dl_add_bytes :: "byte list \<Rightarrow> DescriptorList \<Rightarrow> DescriptorList" where
  "dl_add_bytes data dl =
     (if 2 \<le> length data \<and> unat (data ! 1) + 2 \<le> length data
      then let n = unat (data ! 1) + 2
           in dl_add_bytes (drop n data) (dl_add (Descriptor_of_bytes (take n data)) dl)
      else dl)"
  by pat_completeness auto
termination
  by (relation "measure (\<lambda>(data, dl). length data)") auto

declare dl_add_bytes.simps [simp del]

definition PDS_serialize :: "u32 \<Rightarrow> Descriptor" where
  "PDS_serialize pds = Descriptor_of_bytes (PutUInt32 [DID_PRIV_DATA_SPECIF, 4, 0, 0, 0, 0] 2 pds)"

definition PDS_deserialize :: "Descriptor \<Rightarrow> u32 option" where
  "PDS_deserialize d =
     (if d \<noteq> None \<and> desc_tag d = DID_PRIV_DATA_SPECIF \<and> desc_payloadSize d = 4
      then Some (GetUInt32 (desc_payload d) 0) else None)"

definition addPrivateDataSpecifier :: "u32 \<Rightarrow> DescriptorList \<Rightarrow> DescriptorList" where
  "addPrivateDataSpecifier pds dl =
     (if pds \<noteq> 0 \<and> (length dl = 0 \<or> el_pds (dl ! (length dl - 1)) \<noteq> pds)
      then (let pd = PDS_serialize pds in if pd \<noteq> None then dl_add pd dl else dl)
      else dl)"

text \<open>The search ahead of \<open>prepareRemovePDS\<close>: the number of elements up to the next private data specifier,
  unless a private descriptor comes first.\<close>

fun pds_ahead :: "DescElement list \<Rightarrow> nat option" where
  "pds_ahead [] = Some 0"
| "pds_ahead (e # es) =
     (if desc_tag (el_desc e) \<ge> 0x80 then None
      else if desc_tag (el_desc e) = DID_PRIV_DATA_SPECIF then Some 0
      else map_option Suc (pds_ahead es))"

definition prepareRemovePDS :: "nat \<Rightarrow> DescriptorList \<Rightarrow> bool \<times> DescriptorList" where
  "prepareRemovePDS it dl =
     (if it = length dl \<or> desc_tag (el_desc (dl ! it)) \<noteq> DID_PRIV_DATA_SPECIF then (False, dl)
      else case pds_ahead (drop (it + 1) dl) of
             None \<Rightarrow> (False, dl)
           | Some n \<Rightarrow>
               let previous_pds = (if it = 0 then 0 else el_pds (dl ! (it - 1)))
               in (True, take (it + 1) dl @ map (\<lambda>e. e\<lparr>el_pds := previous_pds\<rparr>) (take n (drop (it + 1) dl)) @
                         drop (it + 1 + n) dl))"

definition vector_erase :: "nat \<Rightarrow> 'a list \<Rightarrow> 'a list" where
  "vector_erase i xs = take i xs @ drop (i + 1) xs"

definition removeByIndex :: "nat \<Rightarrow> DescriptorList \<Rightarrow> bool \<times> DescriptorList" where
  "removeByIndex index dl =
     (if index \<ge> length dl then (False, dl)
      else if desc_tag (el_desc (dl ! index)) = DID_PRIV_DATA_SPECIF
      then (case prepareRemovePDS index dl of
              (False, dl') \<Rightarrow> (False, dl')
            | (True, dl') \<Rightarrow> (True, vector_erase index dl'))
      else (True, vector_erase index dl))"

lemma pds_ahead_le: "pds_ahead es = Some n \<Longrightarrow> n \<le> length es"
  by (induction es arbitrary: n) (auto split: if_splits)

lemma length_prepareRemovePDS: "it < length dl \<Longrightarrow> length (snd (prepareRemovePDS it dl)) = length dl"
  using pds_ahead_le [of "drop (it + 1) dl"]
  by (cases dl) (auto simp: prepareRemovePDS_def Let_def split: option.splits)

lemma length_vector_erase: "i < length xs \<Longrightarrow> length (vector_erase i xs) = length xs - 1"
  by (simp add: vector_erase_def)

lemma removal_length:
  "(ok, dl') = (if c then prepareRemovePDS it dl else (d, dl)) \<Longrightarrow> it < length dl \<Longrightarrow> length dl' = length dl"
  using length_prepareRemovePDS [of it dl] by (metis prod.inject prod.collapse)

text \<open>The loop of \<open>removeByTag\<close> from the iterator \<open>it\<close> on; the conditions are evaluated in the order of the code.\<close>

function removeByTag_loop :: "byte \<Rightarrow> bool \<Rightarrow> u32 \<Rightarrow> nat \<Rightarrow> DescriptorList \<Rightarrow> nat \<Rightarrow> nat \<times> DescriptorList" where
  "removeByTag_loop tag check_pds pds it dl removed_count =
     (if it \<ge> length dl then (removed_count, dl)
      else
        let itag = desc_tag (el_desc (dl ! it));
            matches = (itag = tag \<and> (\<not> check_pds \<or> el_pds (dl ! it) = pds));
            (ok, dl') = (if matches \<and> itag = DID_PRIV_DATA_SPECIF then prepareRemovePDS it dl else (matches, dl))
        in if ok then removeByTag_loop tag check_pds pds it (vector_erase it dl') (removed_count + 1)
           else removeByTag_loop tag check_pds pds (it + 1) dl' removed_count)"
  by pat_completeness auto
termination
  by (relation "measure (\<lambda>(tag, check_pds, pds, it, dl, n). length dl - it)")
    (auto simp: removal_length length_vector_erase)

declare removeByTag_loop.simps [simp del]

definition removeByTag :: "byte \<Rightarrow> u32 \<Rightarrow> DescriptorList \<Rightarrow> nat \<times> DescriptorList" where
  "removeByTag tag pds dl = removeByTag_loop tag (pds \<noteq> 0 \<and> tag \<ge> 0x80) pds 0 dl 0"

function removeInvalid_loop :: "nat \<Rightarrow> DescriptorList \<Rightarrow> nat \<Rightarrow> nat \<times> DescriptorList" where
  "removeInvalid_loop n dl count =
     (if n \<ge> length dl then (count, dl)
      else if el_pds (dl ! n) = 0 \<and> el_desc (dl ! n) \<noteq> None \<and> desc_tag (el_desc (dl ! n)) \<ge> 0x80
      then removeInvalid_loop n (vector_erase n dl) (count + 1)
      else removeInvalid_loop (n + 1) dl count)"
  by pat_completeness auto
termination
  by (relation "measure (\<lambda>(n, dl, count). length dl - n)") (auto simp: vector_erase_def)

declare removeInvalid_loop.simps [simp del]

definition removeInvalidPrivateDescriptors :: "DescriptorList \<Rightarrow> nat \<times> DescriptorList" where
  "removeInvalidPrivateDescriptors dl = removeInvalid_loop 0 dl 0"

section \<open>Search and serialization\<close>

function dl_search :: "byte \<Rightarrow> nat \<Rightarrow> u32 \<Rightarrow> DescriptorList \<Rightarrow> nat" where
  "dl_search tag index pds dl =
     (if index < length dl \<and> (desc_tag (el_desc (dl ! index)) \<noteq> tag \<or>
                              pds \<noteq> 0 \<and> tag \<ge> 0x80 \<and> el_pds (dl ! index) \<noteq> pds)
      then dl_search tag (index + 1) pds dl else index)"
  by pat_completeness auto
termination
  by (relation "measure (\<lambda>(tag, index, pds, dl). length dl - index)") auto

declare dl_search.simps [simp del]

definition binarySize :: "DescriptorList \<Rightarrow> nat" where
  "binarySize dl = foldl (\<lambda>size e. size + desc_size (el_desc e)) 0 dl"

text \<open>A buffer that is being filled is the list of the bytes written so far, so the address is
  its length; \<open>remain\<close> is the space left (\<open>size\<close> in the code). The results are the buffer, the space left and the index of the first
  descriptor that does not fit.\<close>

fun serialize_loop :: "DescElement list \<Rightarrow> byte list \<Rightarrow> nat \<Rightarrow> nat \<Rightarrow> byte list \<times> nat \<times> nat" where
  "serialize_loop [] addr remain i = (addr, remain, i)"
| "serialize_loop (e # es) addr remain i =
     (if desc_size (el_desc e) \<le> remain
      then serialize_loop es (addr @ the (el_desc e)) (remain - desc_size (el_desc e)) (i + 1)
      else (addr, remain, i))"

definition dl_serialize :: "DescriptorList \<Rightarrow> byte list \<Rightarrow> nat \<Rightarrow> nat \<Rightarrow> byte list \<times> nat \<times> nat" where
  "dl_serialize dl addr remain start = serialize_loop (drop start dl) addr remain start"

definition dl_serialize_block :: "DescriptorList \<Rightarrow> byte list \<Rightarrow> nat \<Rightarrow> byte list \<times> nat" where
  "dl_serialize_block dl bb start =
     (let added_size = 0xFFFF; (bb', remain, _) = dl_serialize dl bb added_size start in (bb', added_size - remain))"

definition lengthSerialize :: "DescriptorList \<Rightarrow> byte list \<Rightarrow> nat \<Rightarrow> nat \<Rightarrow> byte \<Rightarrow> byte list \<times> nat \<times> nat" where
  "lengthSerialize dl addr remain start reserved_bits =
     (let length_addr = length addr;
          (addr1, size1, result) = dl_serialize dl (addr @ [0, 0]) (remain - 2) start;
          len = length addr1 - length_addr - 2
      in (PutUInt16 addr1 length_addr (of_nat len OR push_bit 12 (ucast reserved_bits)), size1, result))"

section \<open>The private data specifiers of a list\<close>

text \<open>The value that a private data specifier descriptor sets, and the specifier that holds at each place of a
  sequence of descriptors when \<open>cur\<close> holds before it.\<close>

definition pds_value :: "Descriptor \<Rightarrow> u32" where
  "pds_value d = (if desc_payloadSize d < 4 then 0 else GetUInt32 (desc_payload d) 0)"

definition pds_next :: "u32 \<Rightarrow> Descriptor \<Rightarrow> u32" where
  "pds_next cur d = (if desc_tag d = DID_PRIV_DATA_SPECIF then pds_value d else cur)"

fun pds_scan :: "u32 \<Rightarrow> DescElement list \<Rightarrow> bool" where
  "pds_scan cur [] = True"
| "pds_scan cur (e # es) = (el_pds e = pds_next cur (el_desc e) \<and> pds_scan (el_pds e) es)"

definition pds_ok :: "DescriptorList \<Rightarrow> bool" where
  "pds_ok dl = pds_scan 0 dl"

definition last_pds :: "u32 \<Rightarrow> DescElement list \<Rightarrow> u32" where
  "last_pds cur dl = (if dl = [] then cur else el_pds (last dl))"

lemma last_pds_simps [simp]:
  "last_pds cur [] = cur" "last_pds cur (e # es) = last_pds (el_pds e) es" "last_pds cur (xs @ ys) = last_pds (last_pds cur xs) ys"
  by (auto simp: last_pds_def)

lemma pds_scan_append [simp]: "pds_scan cur (xs @ ys) \<longleftrightarrow> pds_scan cur xs \<and> pds_scan (last_pds cur xs) ys"
  by (induction xs arbitrary: cur) auto

lemma dl_add_eq: "dl_add desc dl = dl @ [\<lparr>el_desc = desc, el_pds = pds_next (last_pds 0 dl) desc\<rparr>]"
  by (auto simp: dl_add_def Let_def pds_next_def pds_value_def last_pds_def last_conv_nth)

lemma dl_add_pds_ok: "pds_ok dl \<Longrightarrow> pds_ok (dl_add desc dl)"
  by (simp add: dl_add_eq pds_ok_def)

lemma dl_add_bytes_pds_ok: "pds_ok dl \<Longrightarrow> pds_ok (dl_add_bytes data dl)"
proof (induction data dl rule: dl_add_bytes.induct)
  case (1 data dl)
  then show ?case by (subst dl_add_bytes.simps) (simp add: Let_def dl_add_pds_ok)
qed

lemma PDS_serialize_facts:
  "PDS_serialize pds = Some [DID_PRIV_DATA_SPECIF, 4, ucast (drop_bit 24 pds), ucast (drop_bit 16 pds), ucast (drop_bit 8 pds), ucast pds]"
  "desc_tag (PDS_serialize pds) = DID_PRIV_DATA_SPECIF" "pds_value (PDS_serialize pds) = pds"
  "PDS_deserialize (PDS_serialize pds) = Some pds"
proof -
  show eq: "PDS_serialize pds = Some [DID_PRIV_DATA_SPECIF, 4, ucast (drop_bit 24 pds), ucast (drop_bit 16 pds), ucast (drop_bit 8 pds), ucast pds]"
    by (simp add: PDS_serialize_def Descriptor_of_bytes_def PutUInt32_def memcpy_at_def)
  have g: "GetUInt32 [ucast (drop_bit 24 pds), ucast (drop_bit 16 pds), ucast (drop_bit 8 pds), ucast pds] 0 = pds"
    by (simp add: GetUInt32_def word32_of_bytes)
  show "desc_tag (PDS_serialize pds) = DID_PRIV_DATA_SPECIF" by (simp add: eq desc_tag_def)
  show "pds_value (PDS_serialize pds) = pds" "PDS_deserialize (PDS_serialize pds) = Some pds"
    by (simp_all add: eq pds_value_def PDS_deserialize_def desc_payloadSize_def desc_payload_def desc_tag_def g)
qed

lemma addPrivateDataSpecifier_eq:
  "addPrivateDataSpecifier pds dl = (if pds \<noteq> 0 \<and> last_pds 0 dl \<noteq> pds then dl_add (PDS_serialize pds) dl else dl)"
  by (auto simp: addPrivateDataSpecifier_def Let_def PDS_serialize_facts(1) last_pds_def last_conv_nth)

lemma addPrivateDataSpecifier_facts:
  "pds_ok dl \<Longrightarrow> pds_ok (addPrivateDataSpecifier pds dl)"
  "pds \<noteq> 0 \<Longrightarrow> last_pds 0 (addPrivateDataSpecifier pds dl) = pds"
  by (auto simp: addPrivateDataSpecifier_eq dl_add_pds_ok) (simp add: dl_add_eq pds_next_def PDS_serialize_facts(2,3))

section \<open>Removal\<close>

definition is_private :: "DescElement \<Rightarrow> bool" where
  "is_private e \<longleftrightarrow> desc_tag (el_desc e) \<ge> 0x80"

definition specifier :: "DescElement \<Rightarrow> bool" where
  "specifier e \<longleftrightarrow> desc_tag (el_desc e) = DID_PRIV_DATA_SPECIF"

lemma not_both: "is_private e \<Longrightarrow> \<not> specifier e"
  by (auto simp: is_private_def specifier_def)

lemma pds_ahead_Some:
  "pds_ahead es = Some n \<Longrightarrow> n \<le> length es \<and> (\<forall>e \<in> set (take n es). \<not> is_private e \<and> \<not> specifier e) \<and>
     (n < length es \<longrightarrow> specifier (es ! n))"
  by (induction es arbitrary: n) (auto simp: is_private_def specifier_def split: if_splits)

lemma pds_ahead_None: "pds_ahead es = None \<Longrightarrow> \<exists>e \<in> set es. is_private e"
  by (induction es) (auto simp: is_private_def specifier_def split: if_splits)

lemma pds_scan_plain:
  "(\<forall>e \<in> set es. \<not> specifier e) \<Longrightarrow> pds_scan cur es \<longleftrightarrow> (\<forall>e \<in> set es. el_pds e = cur)"
  by (induction es arbitrary: cur) (auto simp: specifier_def pds_next_def)

text \<open>Removal of a private data specifier: the bytes lose this descriptor only, the private
  descriptors keep their specifiers.\<close>

lemma prepareRemovePDS_ok:
  assumes ok: "pds_ok dl" and it: "it < length dl" and r: "prepareRemovePDS it dl = (True, dl')"
  shows "pds_ok (vector_erase it dl')" and "filter is_private (vector_erase it dl') = filter is_private dl"
    and "map el_desc (vector_erase it dl') = vector_erase it (map el_desc dl)"
    and "length dl' = length dl"
proof -
  define pre e post where "pre = take it dl" and "e = dl ! it" and "post = drop (Suc it) dl"
  have dl: "dl = pre @ e # post" unfolding pre_def e_def post_def using it by (simp add: id_take_nth_drop [symmetric])
  have len: "length pre = it" using it by (simp add: pre_def)
  define prev where "prev = (if it = 0 then 0 else el_pds (dl ! (it - 1)))"
  have prev: "prev = last_pds 0 pre"
    using len dl by (cases pre rule: rev_cases) (auto simp: prev_def last_pds_def nth_append)
  obtain n where n: "pds_ahead post = Some n" and sp: "specifier e"
      and dl': "dl' = pre @ e # map (\<lambda>e. e\<lparr>el_pds := prev\<rparr>) (take n post) @ drop n post"
    using r it unfolding prepareRemovePDS_def Let_def prev_def [symmetric]
    by (auto simp: specifier_def post_def e_def pre_def take_Suc_conv_app_nth add.commute split: if_splits option.splits)
  let ?upd = "map (\<lambda>e. e\<lparr>el_pds := prev\<rparr>) (take n post)"
  have er: "vector_erase it dl' = pre @ ?upd @ drop n post" using len by (simp add: dl' vector_erase_def)
  note ahead = pds_ahead_Some [OF n]
  have plain: "\<forall>e \<in> set ?upd. \<not> specifier e \<and> \<not> is_private e \<and> el_pds e = prev"
    using ahead by (auto simp: specifier_def is_private_def)
  have all: "pds_scan 0 pre" "pds_scan (el_pds e) post"
    using ok unfolding dl pds_ok_def pds_scan_append pds_scan.simps by blast+
  have "pds_scan (el_pds e) (take n post @ drop n post)" unfolding append_take_drop_id by (rule all(2))
  then have scan: "pds_scan 0 pre" "pds_scan (last_pds (el_pds e) (take n post)) (drop n post)"
    using all(1) unfolding pds_scan_append by blast+
  have u: "pds_scan prev ?upd" using pds_scan_plain [of ?upd prev] plain by blast
  have d: "pds_scan cur (drop n post)" for cur
  proof (cases "n < length post")
    case True
    then have "drop n post = post ! n # drop (Suc n) post" by (simp add: Cons_nth_drop_Suc)
    then show ?thesis using scan(2) ahead True by (auto simp: pds_next_def specifier_def)
  qed simp
  show "pds_ok (vector_erase it dl')"
    by (simp only: er pds_ok_def pds_scan_append prev [symmetric] u d scan(1) simp_thms)
  have "filter is_private (take n post) = []" "filter is_private ?upd = []"
    unfolding filter_empty_conv using ahead plain by blast+
  moreover have "filter is_private post = filter is_private (take n post) @ filter is_private (drop n post)"
    by (simp only: filter_append [symmetric] append_take_drop_id)
  ultimately show "filter is_private (vector_erase it dl') = filter is_private dl"
    using not_both [of e] sp by (auto simp: er dl)
  have "map el_desc ?upd @ map el_desc (drop n post) = map el_desc post"
    by (simp add: comp_def flip: take_map drop_map)
  then show "map el_desc (vector_erase it dl') = vector_erase it (map el_desc dl)"
    using len unfolding er by (simp add: dl vector_erase_def)
  show "length dl' = length dl" using ahead by (simp add: dl dl')
qed

lemma prepareRemovePDS_no: "prepareRemovePDS it dl = (False, dl') \<Longrightarrow> dl' = dl"
  by (auto simp: prepareRemovePDS_def Let_def split: if_splits option.splits)

lemma erase_plain_pds_ok:
  assumes "pds_ok dl" "it < length dl" "\<not> specifier (dl ! it)"
  shows "pds_ok (vector_erase it dl)"
proof -
  have "dl = take it dl @ dl ! it # drop (Suc it) dl" using assms(2) by (rule id_take_nth_drop)
  then have "pds_scan 0 (take it dl @ dl ! it # drop (Suc it) dl)" using assms(1) by (simp add: pds_ok_def)
  then show ?thesis using assms(3) by (auto simp: pds_ok_def vector_erase_def pds_next_def specifier_def)
qed

lemma removeByIndex_facts:
  assumes ok: "pds_ok dl" and r: "removeByIndex i dl = (done_it, dl')"
  shows "pds_ok dl'" and "\<not> done_it \<Longrightarrow> dl' = dl"
    and "done_it \<Longrightarrow> i < length dl \<and> map el_desc dl' = vector_erase i (map el_desc dl) \<and>
      filter is_private dl' = filter is_private (vector_erase i dl)"
proof -
  have plain: "filter is_private (vector_erase i dl) = filter is_private dl" if "i < length dl" "specifier (dl ! i)"
    using id_take_nth_drop [OF that(1)] not_both that(2) by (metis (no_types, lifting) Suc_eq_plus1 filter.simps(2) filter_append vector_erase_def)
  consider "i \<ge> length dl" | "i < length dl" "specifier (dl ! i)" | "i < length dl" "\<not> specifier (dl ! i)" by linarith
  then have "pds_ok dl' \<and> (\<not> done_it \<longrightarrow> dl' = dl) \<and> (done_it \<longrightarrow> i < length dl \<and>
      map el_desc dl' = vector_erase i (map el_desc dl) \<and> filter is_private dl' = filter is_private (vector_erase i dl))"
  proof cases
    case 1
    then show ?thesis using ok r by (simp add: removeByIndex_def)
  next
    case 2
    obtain b d where p: "prepareRemovePDS i dl = (b, d)" by fastforce
    have r': "removeByIndex i dl = (if b then (True, vector_erase i d) else (False, d))"
      using 2 p by (simp add: removeByIndex_def specifier_def)
    then show ?thesis using r p prepareRemovePDS_ok [OF ok 2(1)] prepareRemovePDS_no ok 2 plain by (cases b) auto
  next
    case 3
    then show ?thesis using r ok erase_plain_pds_ok [OF ok 3]
      by (auto simp: removeByIndex_def specifier_def vector_erase_def take_map drop_map)
  qed
  then show "pds_ok dl'" "\<not> done_it \<Longrightarrow> dl' = dl" "done_it \<Longrightarrow> i < length dl \<and> map el_desc dl' = vector_erase i (map el_desc dl) \<and>
      filter is_private dl' = filter is_private (vector_erase i dl)" by blast+
qed

lemma vector_erase_filter:
  assumes "it < length dl"
  shows "\<not> P (dl ! it) \<Longrightarrow> take it (vector_erase it dl) @ filter P (drop it (vector_erase it dl)) = take it dl @ filter P (drop it dl)"
    and "P (dl ! it) \<Longrightarrow> take (it + 1) dl @ filter P (drop (it + 1) dl) = take it dl @ filter P (drop it dl)"
proof -
  have "drop it dl = dl ! it # drop (Suc it) dl" using assms by (simp add: Cons_nth_drop_Suc)
  then show "\<not> P (dl ! it) \<Longrightarrow> take it (vector_erase it dl) @ filter P (drop it (vector_erase it dl)) = take it dl @ filter P (drop it dl)"
    "P (dl ! it) \<Longrightarrow> take (it + 1) dl @ filter P (drop (it + 1) dl) = take it dl @ filter P (drop it dl)"
    using assms by (simp_all add: vector_erase_def take_Suc_conv_app_nth)
qed

definition tag_matches :: "byte \<Rightarrow> bool \<Rightarrow> u32 \<Rightarrow> DescElement \<Rightarrow> bool" where
  "tag_matches tag check_pds pds e \<longleftrightarrow> desc_tag (el_desc e) = tag \<and> (\<not> check_pds \<or> el_pds e = pds)"

lemma removeByTag_loop_step:
  assumes "it < length dl"
  shows "removeByTag_loop tag c p it dl n =
    (let (ok, dl') = (if tag_matches tag c p (dl ! it) \<and> tag = DID_PRIV_DATA_SPECIF then prepareRemovePDS it dl
                      else (tag_matches tag c p (dl ! it), dl))
     in if ok then removeByTag_loop tag c p it (vector_erase it dl') (n + 1) else removeByTag_loop tag c p (it + 1) dl' n)"
  using assms by (subst removeByTag_loop.simps) (auto simp: tag_matches_def Let_def split: prod.split)

lemma removeByTag_loop_plain:
  assumes "tag \<noteq> DID_PRIV_DATA_SPECIF"
  shows "snd (removeByTag_loop tag c p it dl n) = take it dl @ filter (\<lambda>e. \<not> tag_matches tag c p e) (drop it dl)"
proof (induction "length dl - it" arbitrary: it dl n rule: less_induct)
  case less
  show ?case
  proof (cases "it < length dl")
    case False
    then show ?thesis by (simp add: removeByTag_loop.simps)
  next
    case True
    let ?P = "\<lambda>e. \<not> tag_matches tag c p e"
    have e: "removeByTag_loop tag c p it dl n = (if tag_matches tag c p (dl ! it)
        then removeByTag_loop tag c p it (vector_erase it dl) (n + 1) else removeByTag_loop tag c p (it + 1) dl n)"
      using assms by (simp add: removeByTag_loop_step [OF True])
    have l: "length (vector_erase it dl) - it < length dl - it" using True by (simp add: length_vector_erase)
    show ?thesis
    proof (cases "tag_matches tag c p (dl ! it)")
      case True': True
      then show ?thesis using less [OF l, of "n + 1"] vector_erase_filter(1) [OF True, of ?P] by (simp add: e)
    next
      case False
      then show ?thesis using less [of dl "it + 1" n] True vector_erase_filter(2) [OF True, of ?P] by (simp add: e)
    qed
  qed
qed

lemma removeByTag_loop_count:
  "removeByTag_loop tag c p it dl n = (m, dl') \<Longrightarrow> m + length dl' = n + length dl"
proof (induction "length dl - it" arbitrary: it dl n rule: less_induct)
  case less
  show ?case
  proof (cases "it < length dl")
    case False
    then show ?thesis using less.prems by (simp add: removeByTag_loop.simps)
  next
    case True
    obtain ok d where d: "(if tag_matches tag c p (dl ! it) \<and> tag = DID_PRIV_DATA_SPECIF then prepareRemovePDS it dl
        else (tag_matches tag c p (dl ! it), dl)) = (ok, d)" by (metis surj_pair)
    have l: "length d = length dl" using removal_length [OF d [symmetric] True] .
    have r: "(if ok then removeByTag_loop tag c p it (vector_erase it d) (n + 1) else removeByTag_loop tag c p (it + 1) d n) = (m, dl')"
      using less.prems unfolding removeByTag_loop_step [OF True] d by simp
    show ?thesis
    proof (cases ok)
      case True': True
      have "length (vector_erase it d) = length dl - 1" using True l by (simp add: length_vector_erase)
      then show ?thesis using less.hyps [of "vector_erase it d" it "n + 1"] r True True' by simp
    next
      case False
      then show ?thesis using less.hyps [of d "it + 1" n] r True l by simp
    qed
  qed
qed

lemma vector_erase_split: "i < length xs \<Longrightarrow> xs = take i xs @ xs ! i # drop (i + 1) xs"
  by (simp add: id_take_nth_drop [symmetric])

lemma filter_vector_erase:
  assumes "i < length xs" "\<not> Q (xs ! i)"
  shows "filter Q xs = filter Q (vector_erase i xs)"
proof -
  have "filter Q (take i xs @ xs ! i # drop (i + 1) xs) = filter Q (vector_erase i xs)"
    using assms(2) by (simp add: vector_erase_def)
  then show ?thesis unfolding vector_erase_split [OF assms(1), symmetric] .
qed

lemma removeByTag_loop_specifier:
  assumes "pds_ok dl" and "removeByTag_loop DID_PRIV_DATA_SPECIF c p it dl n = (m, dl')"
  shows "pds_ok dl' \<and> filter is_private dl' = filter is_private dl \<and>
    filter (\<lambda>d. desc_tag d \<noteq> DID_PRIV_DATA_SPECIF) (map el_desc dl') = filter (\<lambda>d. desc_tag d \<noteq> DID_PRIV_DATA_SPECIF) (map el_desc dl)"
  using assms
proof (induction "length dl - it" arbitrary: it dl n rule: less_induct)
  case less
  let ?tag = DID_PRIV_DATA_SPECIF and ?F = "\<lambda>dl. filter (\<lambda>d. desc_tag d \<noteq> DID_PRIV_DATA_SPECIF) (map el_desc dl)"
  show ?case
  proof (cases "it < length dl")
    case False
    then show ?thesis using less.prems by (simp add: removeByTag_loop.simps)
  next
    case True
    obtain ok d where d: "(if tag_matches ?tag c p (dl ! it) then prepareRemovePDS it dl else (False, dl)) = (ok, d)"
      by (metis surj_pair)
    have r: "(if ok then removeByTag_loop ?tag c p it (vector_erase it d) (n + 1) else removeByTag_loop ?tag c p (it + 1) d n) = (m, dl')"
      using less.prems(2) d unfolding removeByTag_loop_step [OF True] by (auto split: if_splits)
    show ?thesis
    proof (cases ok)
      case True': True
      then have p: "prepareRemovePDS it dl = (True, d)" and m: "desc_tag (el_desc (dl ! it)) = ?tag"
        using d by (auto simp: tag_matches_def split: if_splits)
      note f = prepareRemovePDS_ok [OF less.prems(1) True p]
      have "?F dl = ?F (vector_erase it d)"
        unfolding f(3) by (rule filter_vector_erase) (use True m in simp_all)
      then show ?thesis
        using less.hyps [of "vector_erase it d" it "n + 1"] r True' True f by (simp add: length_vector_erase)
    next
      case False
      then have "d = dl" using d prepareRemovePDS_no [of it dl d] by (auto split: if_splits)
      then show ?thesis using less.hyps [of d "it + 1" n] less.prems(1) r True False by simp
    qed
  qed
qed

lemma pds_scan_filter:
  "pds_scan cur es \<Longrightarrow> (\<forall>e \<in> set es. specifier e \<longrightarrow> P e) \<Longrightarrow> pds_scan cur (filter P es)"
  by (induction es arbitrary: cur) (auto simp: pds_next_def specifier_def)

lemma removeByTag_facts:
  assumes ok: "pds_ok dl" and r: "removeByTag tag pds dl = (n, dl')"
  shows "pds_ok dl'" and "n + length dl' = length dl"
    and "tag \<noteq> DID_PRIV_DATA_SPECIF \<Longrightarrow>
      dl' = filter (\<lambda>e. \<not> (desc_tag (el_desc e) = tag \<and> (pds = 0 \<or> tag < 0x80 \<or> el_pds e = pds))) dl"
    and "tag = DID_PRIV_DATA_SPECIF \<Longrightarrow> filter is_private dl' = filter is_private dl \<and>
      filter (\<lambda>d. desc_tag d \<noteq> DID_PRIV_DATA_SPECIF) (map el_desc dl') = filter (\<lambda>d. desc_tag d \<noteq> DID_PRIV_DATA_SPECIF) (map el_desc dl)"
proof -
  show "n + length dl' = length dl" using removeByTag_loop_count r by (fastforce simp: removeByTag_def)
  show plain: "dl' = filter (\<lambda>e. \<not> (desc_tag (el_desc e) = tag \<and> (pds = 0 \<or> tag < 0x80 \<or> el_pds e = pds))) dl"
    if "tag \<noteq> DID_PRIV_DATA_SPECIF"
    using removeByTag_loop_plain [OF that, of "pds \<noteq> 0 \<and> tag \<ge> 0x80" pds 0 dl 0] r
    by (simp add: removeByTag_def tag_matches_def linorder_not_le disj_assoc)
  show spec: "filter is_private dl' = filter is_private dl \<and>
      filter (\<lambda>d. desc_tag d \<noteq> DID_PRIV_DATA_SPECIF) (map el_desc dl') = filter (\<lambda>d. desc_tag d \<noteq> DID_PRIV_DATA_SPECIF) (map el_desc dl)"
    if "tag = DID_PRIV_DATA_SPECIF"
    using removeByTag_loop_specifier [OF ok] r that unfolding removeByTag_def by blast
  show "pds_ok dl'"
  proof (cases "tag = DID_PRIV_DATA_SPECIF")
    case True
    then show ?thesis using removeByTag_loop_specifier [OF ok] r unfolding removeByTag_def by blast
  next
    case False
    then show ?thesis using ok unfolding plain [OF False] pds_ok_def
      by (intro pds_scan_filter) (auto simp: specifier_def)
  qed
qed

definition without_pds :: "DescElement \<Rightarrow> bool" where
  "without_pds e \<longleftrightarrow> el_pds e = 0 \<and> el_desc e \<noteq> None \<and> is_private e"

lemma removeInvalid_loop_eq:
  "removeInvalid_loop n dl count =
     (count + length (filter without_pds (drop n dl)), take n dl @ filter (\<lambda>e. \<not> without_pds e) (drop n dl))"
proof (induction "length dl - n" arbitrary: n dl count rule: less_induct)
  case less
  show ?case
  proof (cases "n < length dl")
    case False
    then show ?thesis by (simp add: removeInvalid_loop.simps)
  next
    case True
    let ?P = "\<lambda>e. \<not> without_pds e"
    have e: "removeInvalid_loop n dl count = (if without_pds (dl ! n) then removeInvalid_loop n (vector_erase n dl) (count + 1)
        else removeInvalid_loop (n + 1) dl count)"
      using True by (subst removeInvalid_loop.simps) (simp add: without_pds_def is_private_def)
    have d: "drop n dl = dl ! n # drop (Suc n) dl" using True by (simp add: Cons_nth_drop_Suc)
    show ?thesis
    proof (cases "without_pds (dl ! n)")
      case True': True
      have "drop n (vector_erase n dl) = drop (Suc n) dl" using True by (simp add: vector_erase_def)
      then show ?thesis using less [of "vector_erase n dl" n "count + 1"] vector_erase_filter(1) [OF True, of ?P] True' True d
        by (simp add: e length_vector_erase)
    next
      case False
      then show ?thesis using less [of dl "n + 1" count] vector_erase_filter(2) [OF True, of ?P] True d by (simp add: e)
    qed
  qed
qed

lemma removeInvalid_facts:
  "removeInvalidPrivateDescriptors dl = (length (filter without_pds dl), filter (\<lambda>e. \<not> without_pds e) dl)"
  "pds_ok dl \<Longrightarrow> pds_ok (snd (removeInvalidPrivateDescriptors dl))"
proof -
  show e: "removeInvalidPrivateDescriptors dl = (length (filter without_pds dl), filter (\<lambda>e. \<not> without_pds e) dl)"
    by (simp add: removeInvalidPrivateDescriptors_def removeInvalid_loop_eq)
  show "pds_ok dl \<Longrightarrow> pds_ok (snd (removeInvalidPrivateDescriptors dl))"
    using not_both by (auto simp: e pds_ok_def without_pds_def intro!: pds_scan_filter)
qed

section \<open>Serialization\<close>

definition wf_desc :: "Descriptor \<Rightarrow> bool" where
  "wf_desc d \<longleftrightarrow> (case d of None \<Rightarrow> False | Some b \<Rightarrow> 2 \<le> length b \<and> length b < 258 \<and> unat (b ! 1) = length b - 2)"

definition dl_wf :: "DescriptorList \<Rightarrow> bool" where
  "dl_wf dl \<longleftrightarrow> (\<forall>e \<in> set dl. wf_desc (el_desc e))"

definition dl_bytes :: "DescriptorList \<Rightarrow> byte list" where
  "dl_bytes dl = concat (map (\<lambda>e. the (el_desc e)) dl)"

lemma dl_bytes_simps [simp]:
  "dl_bytes [] = []" "dl_bytes (e # es) = the (el_desc e) @ dl_bytes es" "dl_bytes (xs @ ys) = dl_bytes xs @ dl_bytes ys"
  by (simp_all add: dl_bytes_def)

lemma dl_wf_simps [simp]:
  "dl_wf []" "dl_wf (e # es) \<longleftrightarrow> wf_desc (el_desc e) \<and> dl_wf es" "dl_wf (xs @ ys) \<longleftrightarrow> dl_wf xs \<and> dl_wf ys"
  by (auto simp: dl_wf_def)

lemma dl_wf_take [simp]: "dl_wf dl \<Longrightarrow> dl_wf (take n dl)" and dl_wf_drop [simp]: "dl_wf dl \<Longrightarrow> dl_wf (drop n dl)"
  by (auto simp: dl_wf_def dest: in_set_takeD in_set_dropD)

lemma descriptor_constructors_wf:
  "Descriptor_of_bytes b \<noteq> None \<Longrightarrow> wf_desc (Descriptor_of_bytes b)"
  "length data < 256 \<Longrightarrow> wf_desc (Descriptor_of_payload tag data)"
  "wf_desc d \<Longrightarrow> length a \<le> 255 \<Longrightarrow> wf_desc (replacePayload a d)"
  "wf_desc d \<Longrightarrow> m \<le> 255 \<Longrightarrow> wf_desc (resizePayload m d)"
  by (auto simp: Descriptor_of_bytes_def Descriptor_of_payload_def wf_desc_def replacePayload_def resizePayload_def
      Let_def memcpy_at_def unat_of_nat min_def split: if_splits option.splits)

text \<open>Tables and lists store their items one behind the other, and the readers peel off one item after
  the other until the data are exhausted. The locale is this contract: \<open>enc\<close> writes an item, one turn of the
  loop \<open>rd\<close> on its bytes is \<open>put\<close>.\<close>

locale loop_codec =
  fixes rd :: "byte list \<Rightarrow> 's \<Rightarrow> 's"
    and enc :: "'e \<Rightarrow> byte list"
    and put :: "'e \<Rightarrow> 's \<Rightarrow> 's"
    and wf :: "'e \<Rightarrow> bool"
  assumes rd_end: "rd [] s = s"
    and rd_item: "wf e \<Longrightarrow> rd (enc e @ rest) s = rd rest (put e s)"
begin

lemma rd_items: "\<forall>e \<in> set es. wf e \<Longrightarrow> rd (concat (map enc es) @ rest) s = rd rest (foldl (\<lambda>s e. put e s) s es)"
  by (induction es arbitrary: s) (simp_all add: rd_item)

lemma rd_all: "\<forall>e \<in> set es. wf e \<Longrightarrow> rd (concat (map enc es)) s = foldl (\<lambda>s e. put e s) s es"
  using rd_items [of es "[]"] by (simp add: rd_end)

end

lemma dl_add_bytes_step:
  assumes "wf_desc d"
  shows "dl_add_bytes (the d @ rest) dl = dl_add_bytes rest (dl_add d dl)"
proof -
  obtain b where d: "d = Some b" using assms by (cases d) (auto simp: wf_desc_def)
  have b: "2 \<le> length b" "unat (b ! 1) + 2 = length b" "Descriptor_of_bytes b = Some b"
    using assms d by (auto simp: wf_desc_def Descriptor_of_bytes_def)
  have "(b @ rest) ! 1 = b ! 1" using b(1) by (simp add: nth_append)
  then show ?thesis using b d by (subst dl_add_bytes.simps) (simp add: Let_def)
qed

interpretation descriptors: loop_codec dl_add_bytes the dl_add wf_desc
proof unfold_locales
  show "dl_add_bytes [] s = s" for s by (subst dl_add_bytes.simps) simp
qed (rule dl_add_bytes_step)

text \<open>Reading the bytes of a list behind another list adds its elements, with their specifiers.\<close>

lemma dl_add_bytes_dl_bytes:
  assumes "dl_wf es" and "pds_scan (last_pds 0 dl) es"
  shows "dl_add_bytes (dl_bytes es) dl = dl @ es"
proof -
  have "pds_scan (last_pds 0 dl) es \<Longrightarrow> foldl (\<lambda>dl d. dl_add d dl) dl (map el_desc es) = dl @ es" for dl
  proof (induction es arbitrary: dl)
    case (Cons e es)
    have "dl_add (el_desc e) dl = dl @ [e]" using Cons.prems by (cases e) (simp add: dl_add_eq)
    moreover have "pds_scan (last_pds 0 (dl @ [e])) es" using Cons.prems by auto
    ultimately show ?case using Cons.IH [of "dl @ [e]"] by simp
  qed simp
  then show ?thesis using descriptors.rd_all [of "map el_desc es" dl] assms by (simp add: dl_bytes_def dl_wf_def comp_def)
qed

text \<open>The number of elements that fit in \<open>room\<close> bytes.\<close>

fun fits :: "DescElement list \<Rightarrow> nat \<Rightarrow> nat" where
  "fits [] room = 0"
| "fits (e # es) room = (if desc_size (el_desc e) \<le> room then Suc (fits es (room - desc_size (el_desc e))) else 0)"

lemma fits_facts:
  "fits es room \<le> length es" "length (dl_bytes (take (fits es room) es)) \<le> room"
  "length (dl_bytes es) \<le> room \<longleftrightarrow> fits es room = length es"
proof (induction es arbitrary: room)
  case (Cons e es)
  { case 1 show ?case using Cons.IH(1) [of "room - desc_size (el_desc e)"] by simp }
  { case 2 show ?case using Cons.IH(2) [of "room - desc_size (el_desc e)"] by (auto simp: desc_size_def) }
  { case 3 show ?case using Cons.IH(3) [of "room - desc_size (el_desc e)"] by (auto simp: desc_size_def) }
qed auto

lemma fits_room:
  "dl_wf es \<Longrightarrow> fits es room < length es \<Longrightarrow> room < length (dl_bytes (take (fits es room) es)) + 258"
proof (induction es arbitrary: room)
  case (Cons e es)
  have "desc_size (el_desc e) < 258" using Cons.prems(1) by (auto simp: wf_desc_def desc_size_def split: option.splits)
  then show ?case using Cons.prems Cons.IH [of "room - desc_size (el_desc e)"] by (auto simp: desc_size_def)
qed simp

lemma fits_progress: "dl_wf es \<Longrightarrow> es \<noteq> [] \<Longrightarrow> 257 \<le> room \<Longrightarrow> 0 < fits es room"
  by (cases es) (auto simp: wf_desc_def desc_size_def split: option.splits)

lemma serialize_loop_eq:
  "serialize_loop es addr room i = (addr @ dl_bytes (take (fits es room) es),
     room - length (dl_bytes (take (fits es room) es)), i + fits es room)"
  by (induction es arbitrary: addr room i) (auto simp: desc_size_def)

lemma binarySize_eq: "binarySize dl = length (dl_bytes dl)"
proof -
  have "foldl (\<lambda>n e. n + desc_size (el_desc e)) n dl = n + length (dl_bytes dl)" for n
    by (induction dl arbitrary: n) (auto simp: desc_size_def)
  then show ?thesis by (simp add: binarySize_def)
qed

lemma dl_serialize_all:
  "binarySize dl \<le> room \<Longrightarrow> dl_serialize dl addr room 0 = (addr @ dl_bytes dl, room - binarySize dl, length dl)"
  using fits_facts(3) [of dl room] by (simp add: dl_serialize_def serialize_loop_eq binarySize_eq)

text \<open>Two bytes with a 12-bit length.\<close>

definition put16 :: "u16 \<Rightarrow> byte list" where
  "put16 v = [ucast (drop_bit 8 v), ucast v]"

lemma length_put16 [simp]: "length (put16 v) = 2"
  by (simp add: put16_def)

lemma GetUInt16_put16 [simp]: "GetUInt16 (put16 v @ r) 0 = v"
  by (simp add: GetUInt16_def put16_def word16_of_bytes)

lemma PutUInt16_at: "PutUInt16 (a @ put16 w @ r) (length a) v = a @ put16 v @ r"
  by (simp add: PutUInt16_def memcpy_at_def put16_def)

lemma GetUInt16_skip: "GetUInt16 (a @ b) (length a + i) = GetUInt16 b i"
  by (simp add: GetUInt16_def nth_append)

lemma put16_nth: "put16 v = [put16 v ! 0, put16 v ! 1]"
  by (simp add: put16_def)

definition len_field :: "nat \<Rightarrow> byte list" where
  "len_field n = put16 (of_nat n OR 0xF000)"

lemma length_len_field [simp]: "length (len_field n) = 2"
  by (simp add: len_field_def)

lemma len_field_value: "n < 4096 \<Longrightarrow> unat (GetUInt16 (len_field n @ r) 0 AND 0x0FFF) = n"
proof -
  assume n: "n < 4096"
  have m: "(0x0FFF :: u16) = mask 12" by (simp add: mask_eq_exp_minus_1)
  have "(of_nat n OR 0xF000) AND 0x0FFF = (of_nat n AND 0x0FFF :: u16)"
    by (simp add: bit.conj_disj_distrib2 and.assoc)
  then show ?thesis using n by (simp add: len_field_def m unat_and_mask unat_of_nat)
qed

lemma memcpy_at_end: "length src = length x \<Longrightarrow> memcpy_at (a @ x @ b) (length a) src = a @ src @ b"
  by (simp add: memcpy_at_def)

lemma lengthSerialize_eq:
  "lengthSerialize dl addr room start 0x0F =
     (let k = fits (drop start dl) (room - 2); bs = dl_bytes (take k (drop start dl))
      in (addr @ len_field (length bs) @ bs, room - 2 - length bs, start + k))"
proof -
  have r: "push_bit 12 (ucast (0x0F :: byte)) = (0xF000 :: u16)" by simp
  have p: "PutUInt16 (addr @ [0, 0] @ bs) (length addr) v = addr @ put16 v @ bs" for bs v
    using memcpy_at_end [of "put16 v" "[0, 0]" addr bs] by (simp add: PutUInt16_def put16_def)
  show ?thesis using p by (simp add: lengthSerialize_def dl_serialize_def serialize_loop_eq Let_def r len_field_def)
qed

section \<open>Properties\<close>

lemma dl_serialize_parse:
  assumes "pds_ok dl" "dl_wf dl" "binarySize dl \<le> room"
  shows "dl_add_bytes (fst (dl_serialize dl [] room 0)) [] = dl"
  using dl_add_bytes_dl_bytes [of dl "[]"] assms by (simp add: dl_serialize_all pds_ok_def)


definition sample_list :: DescriptorList where
  "sample_list = dl_add_bytes [0x5F, 4, 0, 0, 0, 40, 0x83, 2, 7, 7] []"

lemma sample_list_ok: "pds_ok sample_list"
  unfolding sample_list_def by (intro dl_add_bytes_pds_ok) (simp add: pds_ok_def)


text \<open>Adding a whole list copies the specifiers of its elements: they need not be the ones that hold behind the
  first list, and reading the bytes back gives other specifiers.\<close>

theorem dl_add_list_keeps_specifiers:
  "let a = dl_add_bytes [0x5F, 4, 0, 0, 0, 40] []; b = dl_add_bytes [0x83, 0] []; c = dl_add_list b a
   in pds_ok a \<and> pds_ok b \<and> map el_pds c = [40, 0] \<and>
      map el_pds (dl_add_bytes (fst (dl_serialize c [] 100 0)) []) = [40, 40]"
proof -
  have "pds_ok (dl_add_bytes [0x5F, 4, 0, 0, 0, 40] []) \<and> pds_ok (dl_add_bytes [0x83, 0] [])"
    using dl_add_bytes_pds_ok [of "[]"] by (simp add: pds_ok_def)
  moreover have "let a = dl_add_bytes [0x5F, 4, 0, 0, 0, 40] []; b = dl_add_bytes [0x83, 0] []; c = dl_add_list b a
     in map el_pds c = [40, 0] \<and> map el_pds (dl_add_bytes (fst (dl_serialize c [] 100 0)) []) = [40, 40]"
    by code_simp
  ultimately show ?thesis by (simp add: Let_def)
qed

end
