(* ===== verification/Ts_Psi.thy ===== *)
theory Ts_Psi
  imports Ts_Desc Ts_Map
begin

text \<open>
  Tables as objects and their sections, and the program association table (\<open>tsPAT.cpp\<close>). \<open>serialize\<close> fills a
  buffer and hands it over, section by section, to \<open>BinaryTable::addSection\<close>; \<open>deserialize\<close> reads the
  payloads of all sections. A buffer that is being filled is the list of the bytes written so far.
  The XML methods and the displays are left out.
\<close>

abbreviation (input) MAX_PSI_LONG_SECTION_PAYLOAD_SIZE :: nat where "MAX_PSI_LONG_SECTION_PAYLOAD_SIZE \<equiv> 1012"

section \<open>Sections that are added one after the other\<close>

text \<open>The call that every \<open>serialize\<close> makes: a new section whose number is also its last section number, added to
  a table that is allowed to grow.\<close>

definition addNewSection ::
  "byte \<Rightarrow> bool \<Rightarrow> u16 \<Rightarrow> byte \<Rightarrow> bool \<Rightarrow> nat \<Rightarrow> byte list \<Rightarrow> BinaryTable \<Rightarrow> BinaryTable" where
  "addNewSection tid priv tid_ext version is_current section_number payload table =
     (case addSection table (reload_long tid priv tid_ext version is_current (of_nat section_number)
              (of_nat section_number) payload PID_NULL) True True of (_, table', _) \<Rightarrow> table')"

definition section_at ::
  "byte \<Rightarrow> u16 \<Rightarrow> byte \<Rightarrow> bool \<Rightarrow> byte list list \<Rightarrow> nat \<Rightarrow> Section \<Rightarrow> bool" where
  "section_at tid ext ver cur pls i s \<longleftrightarrow> wf_section s \<and> crc_section s \<and> isLongSection s \<and> tableId s = tid \<and>
     tableIdExtension s = ext \<and> version_of s = ver \<and> isCurrent s = cur \<and> unat (sectionNumber s) = i \<and>
     unat (lastSectionNumber s) = length pls - 1 \<and> section_payload s = pls ! i"

text \<open>The table whose sections carry the given payloads.\<close>

definition has_payloads ::
  "byte \<Rightarrow> u16 \<Rightarrow> byte \<Rightarrow> bool \<Rightarrow> byte list list \<Rightarrow> BinaryTable \<Rightarrow> bool" where
  "has_payloads tid ext ver cur pls t \<longleftrightarrow> length (tb_sections t) = length pls \<and> tb_missing t = 0 \<and>
     tb_valid t = (pls \<noteq> []) \<and> (pls \<noteq> [] \<longrightarrow> tb_tid t = tid \<and> tb_tid_ext t = ext \<and> tb_version t = ver) \<and>
     (\<forall>i < length pls. \<exists>s. tb_sections t ! i = Some s \<and> section_at tid ext ver cur pls i s)"

lemma has_payloads_clear: "has_payloads tid ext ver cur [] BinaryTable_clear"
  by (simp add: has_payloads_def BinaryTable_clear_def)

lemma setLast_section_at:
  assumes "section_at tid ext ver cur pls i s" "i < length pls" "length pls < 256"
  shows "section_at tid ext ver cur (pls @ [p]) i (setLastSectionNumber s (of_nat (length pls)) True)"
proof -
  have u: "unat (of_nat (length pls) :: byte) = length pls" using assms(3) by (simp add: unat_of_nat)
  have "sectionNumber s \<le> (of_nat (length pls) :: byte)"
    using assms(1,2) by (simp add: section_at_def word_le_nat_alt u)
  then show ?thesis
    using assms(1,2) setLastSectionNumber_frame [of s "of_nat (length pls)" True] u
    by (simp add: section_at_def Let_def nth_append)
qed

lemma addNewSection_payloads:
  assumes t: "has_payloads tid ext ver cur pls t" and n: "length pls < 256"
    and v: "ver \<le> 31" and p: "length payload \<le> 4084"
  shows "has_payloads tid ext ver cur (pls @ [payload]) (addNewSection tid priv ext ver cur (length pls) payload t)"
proof -
  let ?n = "of_nat (length pls) :: byte"
  define s where "s = reload_long tid priv ext ver cur ?n ?n payload PID_NULL"
  have u: "unat ?n = length pls" using n by (simp add: unat_of_nat)
  have sf: "wf_section s" "crc_section s" "isLongSection s" "tableId s = tid" "tableIdExtension s = ext" "version_of s = ver"
    "isCurrent s = cur" "sectionNumber s = ?n" "lastSectionNumber s = ?n" "section_payload s = payload"
    using reload_long_facts [of ?n ?n ver payload tid priv ext cur PID_NULL, folded s_def] v p by (simp_all add: Let_def)
  have sat: "section_at tid ext ver cur (pls @ [payload]) (length pls) s" using sf u by (simp add: section_at_def)
  have valid: "sc_valid s" using sf(1) by (simp add: wf_section_def)
  have old: "tb_sections t ! i = Some x \<Longrightarrow> i < length pls \<Longrightarrow> section_at tid ext ver cur (pls @ [payload]) i (setLastSectionNumber x ?n True)" for i x
    using t setLast_section_at [OF _ _ n] by (fastforce simp: has_payloads_def)
  define base where "base = (if pls = []
      then t\<lparr>tb_sections := [None], tb_tid := tid, tb_tid_ext := ext, tb_version := ver, tb_pid := sc_pid s, tb_missing := 1\<rparr>
      else table_grow t ?n)"
  have len: "length (tb_sections t) = length pls" using t by (simp add: has_payloads_def)
  have add: "addSection t s True True = table_store base s (length pls) True"
  proof (cases "pls = []")
    case True
    then show ?thesis using valid len sf u by (simp add: addSection_def Let_def base_def vector_resize_def)
  next
    case False
    have "length pls \<noteq> length pls - 1" "\<not> length pls < length pls - 1" using False by (cases pls; simp)+
    then show ?thesis using False valid len sf u t by (simp add: addSection_def Let_def base_def has_payloads_def)
  qed
  have secs: "length (tb_sections base) = Suc (length pls)" "tb_sections base ! length pls = None" "tb_missing base = 1"
      "tb_tid base = tid" "tb_tid_ext base = ext" "tb_version base = ver"
    using t len u by (auto simp: base_def table_grow_def has_payloads_def nth_vector_resize simp del: upt_Suc)
  have kept: "\<exists>x. tb_sections base ! i = Some x \<and> section_at tid ext ver cur (pls @ [payload]) i x" if i: "i < length pls" for i
  proof -
    obtain x where x: "tb_sections t ! i = Some x" using t i by (auto simp: has_payloads_def)
    have "tb_sections base ! i = Some (setLastSectionNumber x ?n True)"
      using i x len u by (auto simp: base_def table_grow_def nth_vector_resize simp del: upt_Suc)
    then show ?thesis using old [OF x i] by blast
  qed
  have "addNewSection tid priv ext ver cur (length pls) payload t =
      base\<lparr>tb_sections := (tb_sections base)[length pls := Some s], tb_missing := 0, tb_valid := True\<rparr>"
    using secs by (simp add: addNewSection_def s_def [symmetric] add table_store_def Let_def)
  then show ?thesis using secs kept sat
    by (auto simp: has_payloads_def nth_list_update less_Suc_eq)
qed

text \<open>What a reader sees of such a table.\<close>

lemma has_payloads_present:
  assumes "has_payloads tid ext ver cur pls t"
  shows "map section_payload (present (tb_sections t)) = pls"
    and "\<forall>s \<in> set (present (tb_sections t)). section_at tid ext ver cur pls (unat (sectionNumber s)) s"
proof -
  obtain f where f: "\<And>i. i < length pls \<Longrightarrow> tb_sections t ! i = Some (f i) \<and> section_at tid ext ver cur pls i (f i)"
    using assms unfolding has_payloads_def by metis
  have "tb_sections t = map Some (map f [0..<length pls])"
    using assms f by (intro nth_equalityI) (simp_all add: has_payloads_def)
  then have p: "present (tb_sections t) = map f [0..<length pls]" by (simp only: present_map_Some)
  show "map section_payload (present (tb_sections t)) = pls"
    unfolding p using f by (intro nth_equalityI) (simp_all add: section_at_def)
  show "\<forall>s \<in> set (present (tb_sections t)). section_at tid ext ver cur pls (unat (sectionNumber s)) s"
    unfolding p using f by (auto simp: section_at_def)
qed

section \<open>Maps that are written in order\<close>

lemma omap_put_behind: "\<forall>e \<in> set m. fst e < k \<Longrightarrow> omap_put k v m = m @ [(k, v)]"
  by (induction m) auto

lemma omap_inv_append_Cons:
  "omap_inv (m @ (k, v) # ms) \<Longrightarrow> (\<forall>e \<in> set m. fst e < k) \<and> omap_inv (m @ [(k, v)])"
  unfolding omap_inv_def by (auto simp: sorted_append order_less_le image_iff)

lemma omap_rebuild_from: "omap_inv (m @ ms) \<Longrightarrow> foldl (\<lambda>m e. omap_put (fst e) (snd e) m) m ms = m @ ms"
proof (induction ms arbitrary: m)
  case (Cons e ms)
  then show ?case using omap_inv_append_Cons [of m "fst e" "snd e" ms] Cons.IH [of "m @ [e]"]
    by (simp add: omap_put_behind)
qed simp

lemmas omap_rebuild = omap_rebuild_from [of "[]", simplified]

text \<open>A buffer and the sections that have been closed.\<close>

record Builder =
  bd_table :: BinaryTable
  bd_number :: nat       \<comment> \<open>\<open>section_number\<close>\<close>
  bd_data :: "byte list" \<comment> \<open>the payload up to \<open>data\<close>\<close>
  bd_remain :: nat

definition Builder_new :: Builder where
  "Builder_new = \<lparr>bd_table = BinaryTable_clear, bd_number = 0, bd_data = [], bd_remain = MAX_PSI_LONG_SECTION_PAYLOAD_SIZE\<rparr>"

section \<open>Program association table\<close>

record PAT =
  pat_valid :: bool
  pat_version :: byte
  pat_is_current :: bool
  pat_ts_id :: u16
  pat_nit_pid :: u16
  pat_pmts :: "(u16 \<times> u16) list"

definition PAT_new :: "byte \<Rightarrow> bool \<Rightarrow> u16 \<Rightarrow> u16 \<Rightarrow> PAT" where
  "PAT_new ver is_cur tsid nitp = \<lparr>pat_valid = True, pat_version = ver, pat_is_current = is_cur,
     pat_ts_id = tsid, pat_nit_pid = nitp, pat_pmts = []\<rparr>"

text \<open>Registration of one pair of the payload and the loop on the pairs.\<close>

definition PAT_register :: "u16 \<times> u16 \<Rightarrow> PAT \<Rightarrow> PAT" where
  "PAT_register e p = (if fst e = 0 then p\<lparr>pat_nit_pid := snd e\<rparr>
                       else p\<lparr>pat_pmts := omap_put (fst e) (snd e) (pat_pmts p)\<rparr>)"

function PAT_read :: "byte list \<Rightarrow> PAT \<Rightarrow> PAT" where
  "PAT_read data p =
     (if length data \<ge> 4
      then let id = GetUInt16 data 0; pid = GetUInt16 data 2 AND 0x1FFF in PAT_read (drop 4 data) (PAT_register (id, pid) p)
      else p)"
  by pat_completeness auto
termination
  by (relation "measure (\<lambda>(data, p). length data)") auto

declare PAT_read.simps [simp del]

definition PAT_read_section :: "PAT \<Rightarrow> Section \<Rightarrow> PAT" where
  "PAT_read_section p sect =
     PAT_read (section_payload sect)
       (p\<lparr>pat_version := version_of sect, pat_is_current := isCurrent sect, pat_ts_id := tableIdExtension sect\<rparr>)"

definition PAT_deserialize :: "BinaryTable \<Rightarrow> PAT \<Rightarrow> PAT" where
  "PAT_deserialize table p =
     (let p0 = p\<lparr>pat_valid := False, pat_nit_pid := PID_NULL, pat_pmts := []\<rparr>
      in if \<not> tb_valid table \<or> tb_tid table \<noteq> 0x00 then p0
         else (foldl PAT_read_section p0 (present (tb_sections table)))\<lparr>pat_valid := True\<rparr>)"

definition PAT_addSection :: "PAT \<Rightarrow> Builder \<Rightarrow> BinaryTable" where
  "PAT_addSection p b = addNewSection 0x00 False (pat_ts_id p) (pat_version p) (pat_is_current p) (bd_number b) (bd_data b) (bd_table b)"

definition PAT_put :: "u16 \<times> u16 \<Rightarrow> Builder \<Rightarrow> Builder" where
  "PAT_put e b = b\<lparr>bd_data := bd_data b @ put16 (fst e) @ put16 (snd e OR 0xE000), bd_remain := bd_remain b - 4\<rparr>"

definition PAT_put_service :: "PAT \<Rightarrow> Builder \<Rightarrow> u16 \<times> u16 \<Rightarrow> Builder" where
  "PAT_put_service p b e =
     PAT_put e (if bd_remain b < 4
                then \<lparr>bd_table = PAT_addSection p b, bd_number = bd_number b + 1, bd_data = [],
                      bd_remain = MAX_PSI_LONG_SECTION_PAYLOAD_SIZE\<rparr>
                else b)"

definition PAT_serialize :: "PAT \<Rightarrow> BinaryTable" where
  "PAT_serialize p =
     (if \<not> pat_valid p then BinaryTable_clear
      else
        let b0 = (if pat_nit_pid p \<noteq> PID_NULL then PAT_put (0, pat_nit_pid p) Builder_new else Builder_new);
            b = foldl (PAT_put_service p) b0 (pat_pmts p)
        in if bd_data b \<noteq> [] \<or> length (tb_sections (bd_table b)) = 0 then PAT_addSection p b else bd_table b)"

subsection \<open>Round trip\<close>

definition pat_bytes :: "u16 \<times> u16 \<Rightarrow> byte list" where
  "pat_bytes e = put16 (fst e) @ put16 (snd e OR 0xE000)"

lemma length_pat_bytes [simp]: "length (pat_bytes e) = 4"
  by (simp add: pat_bytes_def)

lemma length_pat_items [simp]: "length (concat (map pat_bytes es)) = 4 * length es"
  by (induction es) simp_all

lemma pid_with_reserved: "pid < 0x2000 \<Longrightarrow> (pid OR 0xE000) AND 0x1FFF = (pid :: u16)"
proof -
  assume p: "pid < 0x2000"
  have m: "(0x1FFF :: u16) = mask 13" by (simp add: mask_eq_exp_minus_1)
  have "take_bit 13 pid = pid" using p by (simp add: word_less_nat_alt take_bit_word_id)
  then have "pid AND 0x1FFF = pid" unfolding m take_bit_eq_mask .
  then show ?thesis by (simp add: bit.conj_disj_distrib2 and.assoc)
qed

interpretation pat_items: loop_codec PAT_read pat_bytes PAT_register "\<lambda>e. snd e < 0x2000"
proof unfold_locales
  show "PAT_read [] p = p" for p by (subst PAT_read.simps) simp
  show "PAT_read (pat_bytes e @ rest) p = PAT_read rest (PAT_register e p)" if e: "snd e < 0x2000" for e rest p
  proof -
    have "GetUInt16 (pat_bytes e @ rest) 0 = fst e" by (simp add: pat_bytes_def)
    moreover have "GetUInt16 (pat_bytes e @ rest) 2 = snd e OR 0xE000"
      using GetUInt16_skip [of "put16 (fst e)" "put16 (snd e OR 0xE000) @ rest" 0] by (simp add: pat_bytes_def)
    moreover have "drop 4 (pat_bytes e @ rest) = rest" by simp
    ultimately show ?thesis by (subst PAT_read.simps) (simp add: Let_def pid_with_reserved [OF e])
  qed
qed

text \<open>The sections of a reader: their headers agree, so only the items matter.\<close>

definition PAT_header :: "byte \<Rightarrow> bool \<Rightarrow> u16 \<Rightarrow> PAT \<Rightarrow> PAT" where
  "PAT_header ver cur ext p = p\<lparr>pat_version := ver, pat_is_current := cur, pat_ts_id := ext\<rparr>"

lemma PAT_header_register_item: "PAT_register e (PAT_header v c x p) = PAT_header v c x (PAT_register e p)"
  by (simp add: PAT_header_def PAT_register_def)

lemma PAT_header_register: "foldl (\<lambda>p e. PAT_register e p) (PAT_header v c x p) es = PAT_header v c x (foldl (\<lambda>p e. PAT_register e p) p es)"
  by (induction es arbitrary: p) (simp_all add: PAT_header_register_item)

lemma PAT_read_sections:
  assumes "\<forall>s \<in> set ss. version_of s = v \<and> isCurrent s = c \<and> tableIdExtension s = x"
    and "map section_payload ss = map (\<lambda>es. concat (map pat_bytes es)) chunks" and "\<forall>e \<in> set (concat chunks). snd e < 0x2000"
  shows "PAT_header v c x (foldl PAT_read_section p ss) = PAT_header v c x (foldl (\<lambda>p e. PAT_register e p) p (concat chunks)) \<and>
    (ss \<noteq> [] \<longrightarrow> foldl PAT_read_section p ss = PAT_header v c x (foldl (\<lambda>p e. PAT_register e p) p (concat chunks)))"
  using assms
proof (induction ss arbitrary: p chunks)
  case (Cons s ss)
  obtain es cs where ch: "chunks = es # cs" using Cons.prems(2) by (cases chunks) auto
  have "PAT_read_section p s = PAT_read (concat (map pat_bytes es)) (PAT_header v c x p)"
    using Cons.prems(1,2) by (simp add: PAT_read_section_def PAT_header_def ch)
  also have "\<dots> = PAT_header v c x (foldl (\<lambda>p e. PAT_register e p) p es)"
    using pat_items.rd_all [of es] Cons.prems(3) by (simp add: ch PAT_header_register)
  finally have s: "PAT_read_section p s = PAT_header v c x (foldl (\<lambda>p e. PAT_register e p) p es)" .
  have idem: "PAT_header v c x (PAT_header v c x q) = PAT_header v c x q" for q by (simp add: PAT_header_def)
  have IH: "PAT_header v c x (foldl PAT_read_section q ss) = PAT_header v c x (foldl (\<lambda>p e. PAT_register e p) q (concat cs)) \<and>
      (ss \<noteq> [] \<longrightarrow> foldl PAT_read_section q ss = PAT_header v c x (foldl (\<lambda>p e. PAT_register e p) q (concat cs)))" for q
    by (rule Cons.IH) (use Cons.prems in \<open>simp_all add: ch\<close>)
  show ?case
  proof (cases "ss = []")
    case True
    then have "cs = []" using Cons.prems(2) by (simp add: ch)
    then show ?thesis using True by (simp add: s idem ch)
  next
    case False
    then show ?thesis using IH by (simp add: s idem ch PAT_header_register)
  qed
qed simp

abbreviation pat_payload :: "(u16 \<times> u16) list \<Rightarrow> byte list" where
  "pat_payload es \<equiv> concat (map pat_bytes es)"

text \<open>While the services are written: \<open>chunks\<close> are the items of the closed sections, 253 in each, \<open>cur\<close> those in the buffer.\<close>

definition pat_building :: "PAT \<Rightarrow> (u16 \<times> u16) list list \<Rightarrow> (u16 \<times> u16) list \<Rightarrow> Builder \<Rightarrow> bool" where
  "pat_building p chunks cur b \<longleftrightarrow>
     has_payloads 0 (pat_ts_id p) (pat_version p) (pat_is_current p) (map pat_payload chunks) (bd_table b) \<and>
     bd_number b = length chunks \<and> bd_data b = pat_payload cur \<and> bd_remain b = 1012 - 4 * length cur \<and>
     length cur \<le> 253 \<and> (\<forall>c \<in> set chunks. length c = 253)"

lemma pat_building_put:
  "pat_building p chunks cur b \<Longrightarrow> length cur < 253 \<Longrightarrow> pat_building p chunks (cur @ [e]) (PAT_put e b)"
  by (simp add: pat_building_def PAT_put_def pat_bytes_def)

lemma pat_building_close:
  assumes b: "pat_building p chunks cur b" and v: "pat_version p \<le> 31" and n: "length chunks < 256"
  shows "has_payloads 0 (pat_ts_id p) (pat_version p) (pat_is_current p) (map pat_payload (chunks @ [cur])) (PAT_addSection p b)"
proof -
  have "length (pat_payload cur) \<le> 4084" using b by (simp add: pat_building_def)
  then show ?thesis
    using addNewSection_payloads [of 0 "pat_ts_id p" "pat_version p" "pat_is_current p" "map pat_payload chunks" "bd_table b" "pat_payload cur" False] b v n
    by (simp add: pat_building_def PAT_addSection_def)
qed

lemma length_chunks: "\<forall>c \<in> set chunks. length c = k \<Longrightarrow> length (concat chunks) = k * length chunks"
  by (induction chunks) auto

lemma pat_building_service:
  assumes b: "pat_building p chunks cur b" and v: "pat_version p \<le> 31" and n: "length (concat chunks @ cur) < 64768"
  shows "\<exists>chunks' cur'. pat_building p chunks' cur' (PAT_put_service p b e) \<and> concat chunks' @ cur' = concat chunks @ cur @ [e] \<and> cur' \<noteq> []"
proof (cases "bd_remain b < 4")
  case False
  then have "length cur < 253" using b by (simp add: pat_building_def)
  then have "pat_building p chunks (cur @ [e]) (PAT_put e b)" using pat_building_put b by blast
  moreover have "PAT_put_service p b e = PAT_put e b" using False by (simp add: PAT_put_service_def)
  ultimately show ?thesis by (intro exI [of _ chunks] exI [of _ "cur @ [e]"]) simp
next
  case True
  then have "1012 - 4 * length cur < 4" "length cur \<le> 253" using b by (auto simp: pat_building_def)
  then have c: "length cur = 253" by linarith
  have "\<forall>c \<in> set (chunks @ [cur]). length c = 253" using b c by (simp add: pat_building_def)
  from length_chunks [OF this] have "length chunks < 256" using n by simp
  from pat_building_close [OF b v this]
  have "pat_building p (chunks @ [cur]) [] \<lparr>bd_table = PAT_addSection p b, bd_number = bd_number b + 1, bd_data = [], bd_remain = 1012\<rparr>"
    using b c by (simp add: pat_building_def)
  from pat_building_put [OF this, of e] have "pat_building p (chunks @ [cur]) [e] (PAT_put_service p b e)"
    using True by (simp add: PAT_put_service_def)
  then show ?thesis by (intro exI [of _ "chunks @ [cur]"] exI [of _ "[e]"]) simp
qed

lemma pat_building_services:
  assumes "pat_building p chunks cur b" "pat_version p \<le> 31" "length (concat chunks @ cur @ es) \<le> 64768" "cur \<noteq> [] \<or> chunks = []"
  shows "\<exists>chunks' cur'. pat_building p chunks' cur' (foldl (PAT_put_service p) b es) \<and> concat chunks' @ cur' = concat chunks @ cur @ es \<and>
    (cur' \<noteq> [] \<or> chunks' = [])"
  using assms
proof (induction es arbitrary: chunks cur b)
  case Nil
  then show ?case by (intro exI [of _ chunks] exI [of _ cur]) simp
next
  case (Cons e es)
  have "length (concat chunks @ cur) < 64768" using Cons.prems(3) by simp
  from pat_building_service [OF Cons.prems(1,2) this, of e] obtain chunks1 cur1 where
    1: "pat_building p chunks1 cur1 (PAT_put_service p b e)" "concat chunks1 @ cur1 = concat chunks @ cur @ [e]" "cur1 \<noteq> []"
    by blast
  have e: "concat chunks1 @ cur1 @ es = concat chunks @ cur @ e # es" using 1(2) by (metis append.assoc append_Cons append_Nil)
  then have "length (concat chunks1 @ cur1 @ es) \<le> 64768" using Cons.prems(3) by (simp only: e)
  from Cons.IH [OF 1(1) Cons.prems(2) this] 1(3) show ?case unfolding e by simp
qed

definition pat_items_of :: "PAT \<Rightarrow> (u16 \<times> u16) list" where
  "pat_items_of p = (if pat_nit_pid p \<noteq> PID_NULL then [(0, pat_nit_pid p)] else []) @ pat_pmts p"

lemma PAT_serialize_payloads:
  assumes "pat_valid p" "pat_version p \<le> 31" "length (pat_items_of p) \<le> 64768"
  shows "\<exists>chunks. chunks \<noteq> [] \<and> concat chunks = pat_items_of p \<and> (\<forall>c \<in> set chunks. length c \<le> 253) \<and>
    has_payloads 0 (pat_ts_id p) (pat_version p) (pat_is_current p) (map pat_payload chunks) (PAT_serialize p)"
proof -
  define cur0 where "cur0 = (if pat_nit_pid p \<noteq> PID_NULL then [(0, pat_nit_pid p)] else [] :: (u16 \<times> u16) list)"
  define b0 where "b0 = (if pat_nit_pid p \<noteq> PID_NULL then PAT_put (0, pat_nit_pid p) Builder_new else Builder_new)"
  have "pat_building p [] [] Builder_new" by (simp add: pat_building_def Builder_new_def has_payloads_clear)
  then have b0: "pat_building p [] cur0 b0" using pat_building_put [of p "[]" "[]" Builder_new] by (simp add: b0_def cur0_def)
  obtain chunks cur where b: "pat_building p chunks cur (foldl (PAT_put_service p) b0 (pat_pmts p))"
      "concat chunks @ cur = pat_items_of p" "cur \<noteq> [] \<or> chunks = []"
    using pat_building_services [OF b0 assms(2), of "pat_pmts p"] assms(3) by (auto simp: pat_items_of_def cur0_def)
  let ?b = "foldl (PAT_put_service p) b0 (pat_pmts p)"
  have all253: "\<forall>c \<in> set chunks. length c = 253" using b(1) by (simp add: pat_building_def)
  have "253 * length chunks + length cur \<le> 64768"
    using assms(3) length_chunks [OF all253] unfolding b(2) [symmetric] by simp
  then have n: "length chunks < 256" using b(3) by (cases "cur = []") (auto simp: neq_Nil_conv)
  have "bd_data ?b \<noteq> [] \<or> length (tb_sections (bd_table ?b)) = 0"
  proof (cases "cur = []")
    case True
    then show ?thesis using b(1,3) by (simp add: pat_building_def has_payloads_def)
  next
    case False
    then have "bd_data ?b \<noteq> []" using b(1) length_pat_items [of cur] by (auto simp: pat_building_def simp del: length_pat_items concat_eq_Nil_conv)
    then show ?thesis ..
  qed
  then have "PAT_serialize p = PAT_addSection p ?b"
    using assms(1) by (simp add: PAT_serialize_def Let_def flip: b0_def)
  then show ?thesis using pat_building_close [OF b(1) assms(2) n] b(1,2) all253
    by (intro exI [of _ "chunks @ [cur]"]) (auto simp: pat_building_def)
qed

definition pat_ok :: "PAT \<Rightarrow> bool" where
  "pat_ok p \<longleftrightarrow> pat_valid p \<and> pat_version p \<le> 31 \<and> pat_nit_pid p < 0x2000 \<and> omap_inv (pat_pmts p) \<and>
     (\<forall>e \<in> set (pat_pmts p). fst e \<noteq> 0 \<and> snd e < 0x2000)"

lemma PAT_register_pmts:
  "\<forall>e \<in> set es. fst e \<noteq> 0 \<Longrightarrow>
   foldl (\<lambda>p e. PAT_register e p) p es = p\<lparr>pat_pmts := foldl (\<lambda>m e. omap_put (fst e) (snd e) m) (pat_pmts p) es\<rparr>"
  by (induction es arbitrary: p) (simp_all add: PAT_register_def)

lemma PAT_roundtrip_facts:
  assumes "pat_ok p" and "length (pat_items_of p) \<le> 64768"
  shows "tb_valid (PAT_serialize p) \<and> PAT_deserialize (PAT_serialize p) q = p \<and>
    (\<forall>s \<in> set (tb_sections (PAT_serialize p)). \<exists>x. s = Some x \<and> wf_section x \<and> crc_section x \<and> length (section_payload x) \<le> 1012)"
proof -
  have ok: "pat_valid p" "pat_version p \<le> 31" "pat_nit_pid p < 0x2000" "omap_inv (pat_pmts p)"
    "\<forall>e \<in> set (pat_pmts p). fst e \<noteq> 0 \<and> snd e < 0x2000" using assms(1) by (auto simp: pat_ok_def)
  obtain chunks where ch: "chunks \<noteq> []" "concat chunks = pat_items_of p" "\<forall>c \<in> set chunks. length c \<le> 253"
    and h: "has_payloads 0 (pat_ts_id p) (pat_version p) (pat_is_current p) (map pat_payload chunks) (PAT_serialize p)"
    using PAT_serialize_payloads [OF ok(1,2) assms(2)] by blast
  define ss where "ss = present (tb_sections (PAT_serialize p))"
  note pr = has_payloads_present [OF h, folded ss_def]
  have ne: "ss \<noteq> []" using pr(1) ch(1) by auto
  define p0 where "p0 = q\<lparr>pat_valid := False, pat_nit_pid := PID_NULL, pat_pmts := []\<rparr>"
  have "foldl PAT_read_section p0 ss = PAT_header (pat_version p) (pat_is_current p) (pat_ts_id p)
      (foldl (\<lambda>p e. PAT_register e p) p0 (pat_items_of p))"
    unfolding ch(2) [symmetric]
    using PAT_read_sections [of ss "pat_version p" "pat_is_current p" "pat_ts_id p" chunks p0] pr ne ok(3,5) ch(2)
    by (auto simp: section_at_def pat_items_of_def)
  moreover have "foldl (\<lambda>p e. PAT_register e p) p0 (pat_items_of p) = p0\<lparr>pat_nit_pid := pat_nit_pid p, pat_pmts := pat_pmts p\<rparr>"
    using PAT_register_pmts [of "pat_pmts p"] ok(5) omap_rebuild [OF ok(4)]
    by (auto simp: pat_items_of_def p0_def PAT_register_def)
  ultimately have "PAT_deserialize (PAT_serialize p) q = p"
    using h ch(1) ok(1) by (simp add: PAT_deserialize_def has_payloads_def ss_def p0_def PAT_header_def)
  moreover have "\<exists>x. s = Some x \<and> wf_section x \<and> crc_section x \<and> length (section_payload x) \<le> 1012"
    if s: "s \<in> set (tb_sections (PAT_serialize p))" for s
  proof -
    obtain i where i: "i < length chunks" "s = tb_sections (PAT_serialize p) ! i"
      using s h by (auto simp: in_set_conv_nth has_payloads_def)
    then obtain x where x: "s = Some x" "section_at 0 (pat_ts_id p) (pat_version p) (pat_is_current p) (map pat_payload chunks) i x"
      using h by (auto simp: has_payloads_def)
    have "length (chunks ! i) \<le> 253" using ch(3) i(1) by simp
    then show ?thesis using x i(1) by (simp add: section_at_def)
  qed
  moreover have "tb_valid (PAT_serialize p)" using h ch(1) by (simp add: has_payloads_def)
  ultimately show ?thesis by blast
qed

subsection \<open>The limit\<close>

definition small_section :: "Section \<Rightarrow> bool" where
  "small_section s \<longleftrightarrow> length (sc_data s) \<le> 1024 \<and> isLongSection s"

definition small_table :: "BinaryTable \<Rightarrow> bool" where
  "small_table t \<longleftrightarrow> table_inv t \<and> (\<forall>x \<in> set (tb_sections t). pred_option small_section x)"

lemma small_setLast: "wf_section s \<Longrightarrow> small_section s \<Longrightarrow> small_section (setLastSectionNumber s n rc)"
  by (auto simp: small_section_def setLastSectionNumber_def if_crc_def recomputeCRC_def wf_section_def raw_ok_def
      isLong_wf raw_long_def recompute_crc_data_nth isLongSection_def)

lemma small_store:
  "\<forall>x \<in> set (tb_sections u). pred_option small_section x \<Longrightarrow> small_section s \<Longrightarrow>
   \<forall>x \<in> set (tb_sections (fst (snd (table_store u s i True)))). pred_option small_section x"
  using set_update_subset_insert [of "tb_sections u" i "Some s"] by (auto simp: table_store_def Let_def)

lemma small_table_add:
  assumes t: "small_table t" and s: "wf_section s" "small_section s"
  shows "case addSection t s True True of (_, t', _) \<Rightarrow> small_table t'"
proof -
  have inv: "table_inv t" and small: "\<forall>x \<in> set (tb_sections t). pred_option small_section x"
    using t by (simp_all add: small_table_def)
  have wf: "pred_option wf_section x" if "x \<in> set (tb_sections t)" for x
    using inv that by (cases x) (auto simp: table_inv_def entry_ok_def in_set_conv_nth)
  have grow: "\<forall>x \<in> set (tb_sections (table_grow t n)). pred_option small_section x" for n
  proof
    fix y assume "y \<in> set (tb_sections (table_grow t n))"
    then obtain x where "x = None \<or> x \<in> set (tb_sections t)" "y = map_option (\<lambda>s. setLastSectionNumber s n True) x"
      by (auto simp: table_grow_def vector_resize_def dest: in_set_takeD)
    then show "pred_option small_section y" using small wf [of x] small_setLast by (cases x) auto
  qed
  define Q where "Q = (\<lambda>r :: bool \<times> BinaryTable \<times> Section. \<forall>x \<in> set (tb_sections (fst (snd r))). pred_option small_section x)"
  have Q: "Q (False, t, s)" using small by (simp add: Q_def)
  have Qs: "\<forall>x \<in> set (tb_sections u). pred_option small_section x \<Longrightarrow> small_section x \<Longrightarrow> Q (table_store u x i True)" for u x i
    unfolding Q_def by (rule small_store)
  have "Q (addSection t s True True)"
    unfolding addSection_def Let_def using Q s small_setLast [OF s] small grow
    by (auto intro!: Qs simp: vector_resize_def)
  then have "\<forall>x \<in> set (tb_sections (fst (snd (addSection t s True True)))). pred_option small_section x"
    by (simp add: Q_def)
  moreover have "table_inv (fst (snd (addSection t s True True)))"
    using addSection_facts [OF inv s(1), of True True] by (auto split: prod.splits)
  ultimately show ?thesis by (auto simp: small_table_def split: prod.splits)
qed

lemma small_table_new:
  assumes "small_table t" "ver \<le> 31" "length payload \<le> 1012"
  shows "small_table (addNewSection tid priv ext ver cur n payload t)"
proof -
  let ?s = "reload_long tid priv ext ver cur (of_nat n) (of_nat n) payload PID_NULL"
  have f: "wf_section ?s" "section_payload ?s = payload" "isLongSection ?s"
    using reload_long_facts [of "of_nat n" "of_nat n" ver payload tid priv ext cur PID_NULL] assms(2,3) by (simp_all add: Let_def)
  have "length (section_payload ?s) = length (sc_data ?s) - 12"
    using f(1,3) by (simp add: section_payload_def payloadSize_def headerSize_def wf_section_def)
  then have "small_section ?s" using f(2,3) assms(3) by (simp add: small_section_def)
  from small_table_add [OF assms(1) f(1) this] show ?thesis by (auto simp: addNewSection_def split: prod.splits)
qed

definition pat_count :: "PAT \<Rightarrow> nat" where
  "pat_count p = length (pat_pmts p) + (if pat_nit_pid p \<noteq> PID_NULL then 1 else 0)"

lemma pat_count_items: "pat_count p = length (pat_items_of p)"
  by (simp add: pat_count_def pat_items_of_def)

lemma length_omap_put: "length (omap_put k v m) \<le> Suc (length m)"
  by (induction k v m rule: omap_put.induct) auto

lemma pat_count_register: "pat_count (PAT_register e p) \<le> Suc (pat_count p)"
  using length_omap_put [of "fst e" "snd e" "pat_pmts p"] by (simp add: pat_count_def PAT_register_def)

lemma pat_count_read: "length data \<le> 4 * n \<Longrightarrow> pat_count (PAT_read data p) \<le> pat_count p + n"
proof (induction data p arbitrary: n rule: PAT_read.induct)
  case (1 data p)
  show ?case
  proof (cases "4 \<le> length data")
    case True
    let ?e = "(GetUInt16 data 0, GetUInt16 data 2 AND 0x1FFF)"
    have "PAT_read data p = PAT_read (drop 4 data) (PAT_register ?e p)"
      using True by (subst PAT_read.simps) (simp add: Let_def)
    moreover have "length (drop 4 data) \<le> 4 * (n - 1)" using 1(2) True by simp
    from 1(1) [OF True refl refl this]
    have "pat_count (PAT_read (drop 4 data) (PAT_register ?e p)) \<le> pat_count (PAT_register ?e p) + (n - 1)" .
    moreover have "0 < n" using 1(2) True by (cases n) auto
    ultimately show ?thesis using pat_count_register [of ?e p] by simp
  next
    case False
    then show ?thesis by (subst PAT_read.simps) simp
  qed
qed

lemma num_1012: "(1012 :: nat) = 4 * 253"
  by simp

lemma pat_count_sections:
  "\<forall>s \<in> set ss. length (section_payload s) \<le> 1012 \<Longrightarrow> pat_count (foldl PAT_read_section p ss) \<le> pat_count p + 253 * length ss"
proof (induction ss arbitrary: p)
  case (Cons s ss)
  have "pat_count (p\<lparr>pat_version := version_of s, pat_is_current := isCurrent s, pat_ts_id := tableIdExtension s\<rparr>) = pat_count p"
    by (simp add: pat_count_def)
  then have "pat_count (PAT_read_section p s) \<le> pat_count p + 253"
    using Cons.prems pat_count_read [of "section_payload s" 253] by (metis PAT_read_section_def list.set_intros(1) num_1012)
  moreover have "pat_count (foldl PAT_read_section (PAT_read_section p s) ss) \<le> pat_count (PAT_read_section p s) + 253 * length ss"
    using Cons.prems by (intro Cons.IH) simp
  ultimately show ?case by simp
qed simp

lemma PAT_small_table:
  assumes "pat_version p \<le> 31"
  shows "small_table (PAT_serialize p)"
proof (cases "pat_valid p")
  case False
  then show ?thesis by (simp add: PAT_serialize_def small_table_def) (simp add: BinaryTable_clear_def)
next
  case True
  define ok where "ok = (\<lambda>b. small_table (bd_table b) \<and> length (bd_data b) + bd_remain (b :: Builder) = 1012)"
  have add: "small_table (PAT_addSection p b)" if "ok b" for b
    using that assms by (simp add: ok_def PAT_addSection_def small_table_new)
  have step: "ok (PAT_put_service p b e)" if "ok b" for b e
    using that add [OF that] by (auto simp: ok_def PAT_put_service_def PAT_put_def)
  have all: "ok b \<Longrightarrow> ok (foldl (PAT_put_service p) b es)" for b es
    by (induction es arbitrary: b) (simp_all add: step)
  have "ok (if pat_nit_pid p \<noteq> PID_NULL then PAT_put (0, pat_nit_pid p) Builder_new else Builder_new)"
    by (simp add: ok_def Builder_new_def PAT_put_def small_table_def) (simp add: BinaryTable_clear_def)
  from all [OF this] add show ?thesis using True by (simp add: PAT_serialize_def Let_def ok_def)
qed

text \<open>More items than the sections can hold: the section number wraps around and the first sections are replaced.\<close>

lemma PAT_capacity:
  assumes "pat_version p \<le> 31" and "64768 < length (pat_items_of p)"
  shows "PAT_deserialize (PAT_serialize p) q \<noteq> p"
proof
  assume e: "PAT_deserialize (PAT_serialize p) q = p"
  note sm = PAT_small_table [OF assms(1)]
  define ss where "ss = present (tb_sections (PAT_serialize p))"
  have n: "length ss \<le> 256"
    using sm length_present [of "tb_sections (PAT_serialize p)"] by (simp add: small_table_def table_inv_def ss_def)
  have "\<forall>s \<in> set ss. length (section_payload s) \<le> 1012"
    using sm by (auto simp: small_table_def small_section_def section_payload_def payloadSize_def headerSize_def ss_def set_present)
  then have b: "pat_count p0 = 0 \<Longrightarrow> pat_count (foldl PAT_read_section p0 ss) \<le> 64768" for p0
    using n pat_count_sections [of ss p0] by simp
  let ?p0 = "q\<lparr>pat_valid := False, pat_nit_pid := PID_NULL, pat_pmts := []\<rparr>"
  have "pat_count ?p0 = 0" by (simp add: pat_count_def)
  moreover have "PAT_deserialize (PAT_serialize p) q = ?p0 \<or>
      PAT_deserialize (PAT_serialize p) q = (foldl PAT_read_section ?p0 ss)\<lparr>pat_valid := True\<rparr>"
    by (simp add: PAT_deserialize_def ss_def Let_def)
  moreover have "pat_count (r\<lparr>pat_valid := True\<rparr>) = pat_count r" for r by (simp add: pat_count_def)
  ultimately have "pat_count (PAT_deserialize (PAT_serialize p) q) \<le> 64768" using b by (metis zero_le)
  then show False using assms(2) by (simp add: e pat_count_items)
qed

text \<open>C19. Round trip and capacity of a program association table (PIDs of 13 bits, services in the order of the
  map): deserializing the serialized table gives the table back exactly when it has at most 64768 items, 256 sections of
  253; then the binary table is valid, and each section is well formed and at most 1024 bytes. With more services,
  which the map can hold, no error is reported but some are lost.\<close>

theorem pat_roundtrip:
  assumes "pat_ok p"
  shows "(PAT_deserialize (PAT_serialize p) q = p \<longleftrightarrow> length (pat_items_of p) \<le> 64768) \<and>
    (length (pat_items_of p) \<le> 64768 \<longrightarrow> tb_valid (PAT_serialize p) \<and>
      (\<forall>s \<in> set (tb_sections (PAT_serialize p)). \<exists>x. s = Some x \<and> wf_section x \<and> crc_section x \<and> length (section_payload x) \<le> 1012))"
proof (cases "length (pat_items_of p) \<le> 64768")
  case True
  then show ?thesis using PAT_roundtrip_facts [OF assms] by blast
next
  case False
  moreover have "pat_version p \<le> 31" using assms by (simp add: pat_ok_def)
  ultimately show ?thesis using PAT_capacity [of p q] by simp
qed

definition sample_pat :: PAT where
  "sample_pat = \<lparr>pat_valid = True, pat_version = 3, pat_is_current = True, pat_ts_id = 7, pat_nit_pid = 16,
     pat_pmts = [(1, 100), (2, 200)]\<rparr>"

theorem pat_roundtrip_witness: "PAT_deserialize (PAT_serialize sample_pat) (PAT_new 0 True 0 0) = sample_pat"
proof -
  have "pat_ok sample_pat" by (simp add: pat_ok_def sample_pat_def omap_inv_def)
  moreover have "length (pat_items_of sample_pat) \<le> 64768" by (simp add: pat_items_of_def sample_pat_def)
  ultimately show ?thesis using pat_roundtrip by blast
qed

end
