(* ===== verification/Ts_PMT.thy ===== *)
theory Ts_PMT
  imports Ts_Psi
begin

text \<open>
  The program map table: \<open>tsPMT.cpp\<close>, with the searches in its descriptor lists and
  \<open>tsStreamIdentifierDescriptor.cpp\<close>. A program map table is one section. The map of the streams is
  an \<open>EntryWithDescriptorsMap\<close>, whose subscript creates a missing entry
  (\<open>tsAbstractTableTemplate.h\<close>).
\<close>

section \<open>The table\<close>

record Stream =
  st_type :: byte
  st_descs :: DescriptorList

record PMT =
  pmt_valid :: bool
  pmt_version :: byte
  pmt_is_current :: bool
  pmt_service_id :: u16
  pmt_pcr_pid :: u16
  pmt_descs :: DescriptorList
  pmt_streams :: "(u16 \<times> Stream) list"

definition PMT_new :: "byte \<Rightarrow> bool \<Rightarrow> u16 \<Rightarrow> u16 \<Rightarrow> PMT" where
  "PMT_new ver is_cur serv pcr = \<lparr>pmt_valid = True, pmt_version = ver, pmt_is_current = is_cur, pmt_service_id = serv,
     pmt_pcr_pid = pcr, pmt_descs = [], pmt_streams = []\<rparr>"

text \<open>\<open>map[key]\<close> on the left of an assignment: the entry is created if it is missing.\<close>

definition entry_update :: "'k::linorder \<Rightarrow> 'v \<Rightarrow> ('v \<Rightarrow> 'v) \<Rightarrow> ('k \<times> 'v) list \<Rightarrow> ('k \<times> 'v) list" where
  "entry_update key new f m = omap_put key (f (case omap_get m key of None \<Rightarrow> new | Some v \<Rightarrow> v)) m"

definition Stream_new :: Stream where
  "Stream_new = \<lparr>st_type = 0, st_descs = []\<rparr>"

section \<open>Deserialization\<close>

definition PMT_register :: "u16 \<times> byte \<times> byte list \<Rightarrow> PMT \<Rightarrow> PMT" where
  "PMT_register e p =
     (case e of (pid, stype, info) \<Rightarrow>
        p\<lparr>pmt_streams := entry_update pid Stream_new
            (\<lambda>str. str\<lparr>st_type := stype, st_descs := dl_add_bytes info (st_descs str)\<rparr>) (pmt_streams p)\<rparr>)"

function PMT_read_streams :: "byte list \<Rightarrow> PMT \<Rightarrow> PMT" where
  "PMT_read_streams data p =
     (if length data \<ge> 5
      then
        let pid = GetUInt16 data 1 AND 0x1FFF;
            info_length = min (unat (GetUInt16 data 3 AND 0x0FFF)) (length data - 5)
        in PMT_read_streams (drop (5 + info_length) data)
             (PMT_register (pid, data ! 0, take info_length (drop 5 data)) p)
      else p)"
  by pat_completeness auto
termination
  by (relation "measure (\<lambda>(data, p). length data)") auto

declare PMT_read_streams.simps [simp del]

text \<open>One section. The boolean is false when the code returns because the payload is too short.\<close>

definition PMT_read_section :: "Section \<Rightarrow> PMT \<Rightarrow> bool \<times> PMT" where
  "PMT_read_section sect p =
     (let p1 = p\<lparr>pmt_version := version_of sect, pmt_is_current := isCurrent sect, pmt_service_id := tableIdExtension sect\<rparr>;
          data = section_payload sect
      in if length data < 2 then (False, p1)
         else
           let p2 = p1\<lparr>pmt_pcr_pid := GetUInt16 data 0 AND 0x1FFF\<rparr>; data1 = drop 2 data
           in if length data1 < 2 then (False, p2)
              else
                let info_length = min (unat (GetUInt16 data1 0 AND 0x0FFF)) (length data1 - 2);
                    p3 = p2\<lparr>pmt_descs := dl_add_bytes (take info_length (drop 2 data1)) (pmt_descs p2)\<rparr>
                in (True, PMT_read_streams (drop (2 + info_length) data1) p3))"

fun PMT_read_sections :: "Section list \<Rightarrow> PMT \<Rightarrow> bool \<times> PMT" where
  "PMT_read_sections [] p = (True, p)"
| "PMT_read_sections (s # ss) p =
     (case PMT_read_section s p of (False, p') \<Rightarrow> (False, p') | (True, p') \<Rightarrow> PMT_read_sections ss p')"

definition PMT_deserialize :: "BinaryTable \<Rightarrow> PMT \<Rightarrow> PMT" where
  "PMT_deserialize table p =
     (let p0 = p\<lparr>pmt_valid := False, pmt_service_id := 0, pmt_pcr_pid := PID_NULL, pmt_descs := [], pmt_streams := []\<rparr>
      in if \<not> tb_valid table \<or> tb_tid table \<noteq> 0x02 then p0
         else case PMT_read_sections (present (tb_sections table)) p0 of (ok, p') \<Rightarrow> p'\<lparr>pmt_valid := ok\<rparr>)"

section \<open>Serialization\<close>

text \<open>The loop on the streams: \<^const>\<open>None\<close> when the code returns without adding the section.\<close>

fun PMT_put_streams :: "(u16 \<times> Stream) list \<Rightarrow> byte list \<Rightarrow> nat \<Rightarrow> (byte list \<times> nat) option" where
  "PMT_put_streams [] data remain = Some (data, remain)"
| "PMT_put_streams (e # es) data remain =
     (if remain \<ge> 5
      then (let (data1, remain1, next_index) =
                  lengthSerialize (st_descs (snd e)) (data @ [st_type (snd e)] @ put16 (fst e OR 0xE000)) (remain - 3) 0 0x0F
            in if next_index \<noteq> length (st_descs (snd e)) then None else PMT_put_streams es data1 remain1)
      else Some (data, remain))"

definition PMT_serialize :: "PMT \<Rightarrow> BinaryTable" where
  "PMT_serialize p =
     (if \<not> pmt_valid p then BinaryTable_clear
      else
        let data = put16 (pmt_pcr_pid p OR 0xE000); remain = MAX_PSI_LONG_SECTION_PAYLOAD_SIZE - 2;
            (data1, remain1, _) = lengthSerialize (pmt_descs p) data remain 0 0x0F
        in case PMT_put_streams (pmt_streams p) data1 remain1 of
             None \<Rightarrow> BinaryTable_clear
           | Some (data2, _) \<Rightarrow>
               addNewSection 0x02 False (pmt_service_id p) (pmt_version p) (pmt_is_current p) 0 data2 BinaryTable_clear)"

section \<open>Searches\<close>

definition IsVideoST :: "byte \<Rightarrow> bool" where
  "IsVideoST st \<longleftrightarrow> st \<in> {0x01, 0x02, 0x10, 0x1B, 0x24, 0x25}"

definition IsAudioST :: "byte \<Rightarrow> bool" where
  "IsAudioST st \<longleftrightarrow> st \<in> {0x03, 0x04, 0x11, 0x0F, 0x81, 0x87}"

definition Stream_isVideo :: "Stream \<Rightarrow> bool" where
  "Stream_isVideo s = IsVideoST (st_type s)"

definition Stream_isAudio :: "Stream \<Rightarrow> bool" where
  "Stream_isAudio s \<longleftrightarrow> IsAudioST (st_type s) \<or>
     dl_search 0x7B 0 0 (st_descs s) < length (st_descs s) \<or> dl_search 0x6A 0 0 (st_descs s) < length (st_descs s) \<or>
     dl_search 0x7A 0 0 (st_descs s) < length (st_descs s) \<or> dl_search 0x7C 0 0 (st_descs s) < length (st_descs s)"

text \<open>A teletext descriptor: entries of five bytes with the type in the upper bits of the fourth.\<close>

function teletext_subtitles :: "byte list \<Rightarrow> bool" where
  "teletext_subtitles data =
     (if length data \<ge> 5
      then let ttype = drop_bit 3 (data ! 3)
           in if ttype = 0x02 \<or> ttype = 0x05 then True else teletext_subtitles (drop 5 data)
      else False)"
  by pat_completeness auto
termination
  by (relation "measure length") auto

declare teletext_subtitles.simps [simp del]

lemma dl_search_ge: "index \<le> dl_search tag index pds dl"
proof (induction tag index pds dl rule: dl_search.induct)
  case (1 tag index pds dl)
  then show ?case by (subst dl_search.simps) (auto dest: Suc_leD)
qed

function Stream_teletext :: "Stream \<Rightarrow> nat \<Rightarrow> bool" where
  "Stream_teletext s index =
     (let i = dl_search 0x56 index 0 (st_descs s)
      in if i < length (st_descs s)
         then (if teletext_subtitles (desc_payload (el_desc (st_descs s ! i))) then True else Stream_teletext s (i + 1))
         else False)"
  by pat_completeness auto
termination
proof (relation "measure (\<lambda>(s, index). length (st_descs s) - index)")
  show "((s, i + 1), (s, index)) \<in> measure (\<lambda>(s, index). length (st_descs s) - index)"
    if "i = dl_search 0x56 index 0 (st_descs s)" "i < length (st_descs s)" for s index i
    using that dl_search_ge [of index "0x56" 0 "st_descs s"] by simp
qed simp

declare Stream_teletext.simps [simp del]

definition Stream_isSubtitles :: "Stream \<Rightarrow> bool" where
  "Stream_isSubtitles s \<longleftrightarrow> dl_search 0x59 0 0 (st_descs s) < length (st_descs s) \<or> Stream_teletext s 0"

definition StreamIdentifier_serialize :: "byte \<Rightarrow> Descriptor" where
  "StreamIdentifier_serialize ctag = Descriptor_of_bytes [0x52, 1, ctag]"

definition StreamIdentifier_deserialize :: "Descriptor \<Rightarrow> byte option" where
  "StreamIdentifier_deserialize d =
     (if d \<noteq> None \<and> desc_tag d = 0x52 \<and> desc_payloadSize d \<ge> 1 then Some (GetUInt8 (desc_payload d) 0) else None)"

function component_tag_from :: "DescriptorList \<Rightarrow> nat \<Rightarrow> (byte \<Rightarrow> bool) \<Rightarrow> byte option" where
  "component_tag_from dl index ok =
     (let i = dl_search 0x52 index 0 dl
      in if i < length dl
         then (case StreamIdentifier_deserialize (el_desc (dl ! i)) of
                 Some tag \<Rightarrow> if ok tag then Some tag else component_tag_from dl (i + 1) ok
               | None \<Rightarrow> component_tag_from dl (i + 1) ok)
         else None)"
  by pat_completeness auto
termination
proof (relation "measure (\<lambda>(dl, index, ok). length dl - index)")
  fix dl :: DescriptorList and index i :: nat and ok and tag :: byte
  assume "i = dl_search 0x52 index 0 dl" "i < length dl"
  then have "length dl - (i + 1) < length dl - index" using dl_search_ge [of index "0x52" 0 dl] by simp
  then show "((dl, i + 1, ok), (dl, index, ok)) \<in> measure (\<lambda>(dl, index, ok). length dl - index)"
    "((dl, i + 1, ok), (dl, index, ok)) \<in> measure (\<lambda>(dl, index, ok). length dl - index)" by simp_all
qed simp

declare component_tag_from.simps [simp del]

definition getComponentTag :: "Stream \<Rightarrow> byte option" where
  "getComponentTag s = component_tag_from (st_descs s) 0 (\<lambda>_. True)"

definition componentTagToPID :: "byte \<Rightarrow> PMT \<Rightarrow> u16" where
  "componentTagToPID tag p =
     (case List.find (\<lambda>e. component_tag_from (st_descs (snd e)) 0 (\<lambda>t. t = tag) \<noteq> None) (pmt_streams p) of
        None \<Rightarrow> PID_NULL | Some e \<Rightarrow> fst e)"

section \<open>The bytes of a program map table\<close>

definition stream_bytes :: "u16 \<times> byte \<times> byte list \<Rightarrow> byte list" where
  "stream_bytes e = (case e of (pid, stype, info) \<Rightarrow> stype # put16 (pid OR 0xE000) @ len_field (length info) @ info)"

definition stream_entry :: "u16 \<times> Stream \<Rightarrow> u16 \<times> byte \<times> byte list" where
  "stream_entry e = (fst e, st_type (snd e), dl_bytes (st_descs (snd e)))"

definition stream_ok :: "u16 \<times> Stream \<Rightarrow> bool" where
  "stream_ok e \<longleftrightarrow> fst e < 0x2000 \<and> dl_wf (st_descs (snd e)) \<and> pds_ok (st_descs (snd e))"

definition streams_bytes :: "(u16 \<times> Stream) list \<Rightarrow> byte list" where
  "streams_bytes es = concat (map stream_bytes (map stream_entry es))"

lemma streams_bytes_simps [simp]:
  "streams_bytes [] = []" "streams_bytes (e # es) = stream_bytes (stream_entry e) @ streams_bytes es"
  by (simp_all add: streams_bytes_def)

lemma streams_bytes_member: "e \<in> set es \<Longrightarrow> length (stream_bytes (stream_entry e)) \<le> length (streams_bytes es)"
  by (induction es) auto

lemma length_stream_bytes: "length (stream_bytes (stream_entry e)) = 5 + binarySize (st_descs (snd e))"
  by (simp add: stream_bytes_def stream_entry_def binarySize_eq split: prod.split)

lemma PMT_read_item:
  assumes "pid < 0x2000" and "length info < 4096"
  shows "PMT_read_streams (stream_bytes (pid, stype, info) @ rest) p = PMT_read_streams rest (PMT_register (pid, stype, info) p)"
proof -
  define d where "d = stype # put16 (pid OR 0xE000) @ len_field (length info) @ info @ rest"
  have 1: "GetUInt16 d 1 = pid OR 0xE000" "d ! 0 = stype"
    using GetUInt16_skip [of "[stype]" _ 0] by (simp_all add: d_def)
  have "GetUInt16 d 3 = GetUInt16 (len_field (length info) @ info @ rest) 0"
    using GetUInt16_skip [of "stype # put16 (pid OR 0xE000)" _ 0] by (simp add: d_def)
  then have n: "min (unat (GetUInt16 d 3 AND 0x0FFF)) (length d - 5) = length info"
    using len_field_value [OF assms(2), of "info @ rest"] by (simp add: d_def)
  have "drop 5 d = info @ rest" by (simp add: d_def)
  then have t: "take (length info) (drop 5 d) = info" "drop (5 + length info) d = rest"
    by (simp_all only: add.commute [of 5] drop_drop [symmetric]) simp_all
  have l: "5 \<le> length d" by (simp add: d_def)
  then have "PMT_read_streams d p = PMT_read_streams (drop (5 + min (unat (GetUInt16 d 3 AND 0x0FFF)) (length d - 5)) d)
      (PMT_register (GetUInt16 d 1 AND 0x1FFF, d ! 0, take (min (unat (GetUInt16 d 3 AND 0x0FFF)) (length d - 5)) (drop 5 d)) p)"
    by (subst PMT_read_streams.simps) (simp only: Let_def if_True)
  also have "\<dots> = PMT_read_streams rest (PMT_register (pid, stype, info) p)"
    unfolding n t 1 pid_with_reserved [OF assms(1)] ..
  finally show ?thesis by (simp add: stream_bytes_def d_def)
qed

interpretation pmt_items: loop_codec PMT_read_streams stream_bytes PMT_register "\<lambda>e. fst e < 0x2000 \<and> length (snd (snd e)) < 4096"
proof unfold_locales
  show "PMT_read_streams [] p = p" for p by (subst PMT_read_streams.simps) simp
  show "PMT_read_streams (stream_bytes e @ rest) p = PMT_read_streams rest (PMT_register e p)"
    if "fst e < 0x2000 \<and> length (snd (snd e)) < 4096" for e rest p
    using that PMT_read_item by (cases e) auto
qed

lemma entry_update_behind:
  "\<forall>e \<in> set m. fst e < k \<Longrightarrow> entry_update k new f m = m @ [(k, f new)]"
proof -
  assume a: "\<forall>e \<in> set m. fst e < k"
  then have "map_of m k = None" by (auto simp: map_of_eq_None_iff)
  then show ?thesis using a by (simp add: entry_update_def omap_get_def omap_put_behind)
qed

text \<open>Registering the entries in the order of the map builds the map.\<close>

lemma PMT_register_streams:
  assumes "omap_inv (pmt_streams p @ es)" and "\<forall>e \<in> set es. stream_ok e"
  shows "foldl (\<lambda>p e. PMT_register e p) p (map stream_entry es) = p\<lparr>pmt_streams := pmt_streams p @ es\<rparr>"
  using assms
proof (induction es arbitrary: p)
  case (Cons e es)
  have "dl_add_bytes (dl_bytes (st_descs (snd e))) [] = st_descs (snd e)"
    using Cons.prems(2) dl_add_bytes_dl_bytes [of "st_descs (snd e)" "[]"] by (simp add: stream_ok_def pds_ok_def)
  then have "PMT_register (stream_entry e) p = p\<lparr>pmt_streams := pmt_streams p @ [e]\<rparr>"
    using omap_inv_append_Cons [of "pmt_streams p" "fst e" "snd e" es] Cons.prems(1)
    by (cases e) (simp add: PMT_register_def stream_entry_def entry_update_behind Stream_new_def)
  then show ?case using Cons by simp
qed simp

definition pmt_ok :: "PMT \<Rightarrow> bool" where
  "pmt_ok p \<longleftrightarrow> pmt_valid p \<and> pmt_version p \<le> 31 \<and> pmt_pcr_pid p < 0x2000 \<and> dl_wf (pmt_descs p) \<and> pds_ok (pmt_descs p) \<and>
     omap_inv (pmt_streams p) \<and> (\<forall>e \<in> set (pmt_streams p). stream_ok e)"

definition pmt_bytes :: "PMT \<Rightarrow> byte list" where
  "pmt_bytes p = put16 (pmt_pcr_pid p OR 0xE000) @ len_field (binarySize (pmt_descs p)) @ dl_bytes (pmt_descs p) @
     streams_bytes (pmt_streams p)"

definition pmt_size :: "PMT \<Rightarrow> nat" where
  "pmt_size p = length (pmt_bytes p)"

lemma PMT_read_bytes:
  assumes ok: "pmt_ok p" and sz: "pmt_size p \<le> 1012" and s: "section_payload s = pmt_bytes p"
    and h: "version_of s = pmt_version p" "isCurrent s = pmt_is_current p" "tableIdExtension s = pmt_service_id p"
    and q: "pmt_descs q = []" "pmt_streams q = []"
  shows "PMT_read_section s q = (True, p\<lparr>pmt_valid := pmt_valid q\<rparr>)"
proof -
  let ?ds = "dl_bytes (pmt_descs p)" and ?ss = "streams_bytes (pmt_streams p)"
  have o: "pmt_pcr_pid p < 0x2000" "dl_wf (pmt_descs p)" "pds_ok (pmt_descs p)" "omap_inv (pmt_streams p)"
    "\<forall>e \<in> set (pmt_streams p). stream_ok e" using ok by (auto simp: pmt_ok_def)
  define data where "data = section_payload s"
  define data1 where "data1 = drop 2 data"
  have d: "data = put16 (pmt_pcr_pid p OR 0xE000) @ len_field (length ?ds) @ ?ds @ ?ss"
    by (simp add: data_def s pmt_bytes_def binarySize_eq)
  have d1: "data1 = len_field (length ?ds) @ ?ds @ ?ss" by (simp add: data1_def d)
  have small: "length ?ds < 4096" "length ?ss < 4096" using sz by (simp_all add: pmt_size_def pmt_bytes_def)
  have pcr: "GetUInt16 data 0 AND 0x1FFF = pmt_pcr_pid p" using pid_with_reserved [OF o(1)] by (simp add: d)
  have n: "min (unat (GetUInt16 data1 0 AND 0x0FFF)) (length data1 - 2) = length ?ds"
    unfolding d1 len_field_value [OF small(1)] by simp
  have t: "take (length ?ds) (drop 2 data1) = ?ds" "drop (2 + length ?ds) data1 = ?ss" by (simp_all add: d1)
  have descs: "dl_add_bytes ?ds [] = pmt_descs p"
    using dl_add_bytes_dl_bytes [of "pmt_descs p" "[]"] o(2,3) by (simp add: pds_ok_def)
  have items: "fst e < 0x2000 \<and> length (snd (snd e)) < 4096" if e: "e \<in> set (map stream_entry (pmt_streams p))" for e
  proof -
    obtain x where x: "x \<in> set (pmt_streams p)" "e = stream_entry x" using e by auto
    have "length (stream_bytes (stream_entry x)) \<le> length ?ss"
      using x(1) streams_bytes_member by blast
    then have "binarySize (st_descs (snd x)) < 4096" using small(2) by (simp add: length_stream_bytes)
    then show ?thesis using x o(5) by (simp add: stream_entry_def stream_ok_def binarySize_eq)
  qed
  define q3 where "q3 = q\<lparr>pmt_version := pmt_version p, pmt_is_current := pmt_is_current p, pmt_service_id := pmt_service_id p,
      pmt_pcr_pid := pmt_pcr_pid p, pmt_descs := pmt_descs p\<rparr>"
  have "PMT_read_section s q = (True, PMT_read_streams ?ss q3)"
    using n t descs pcr q by (simp add: PMT_read_section_def Let_def h q3_def flip: data_def data1_def) (simp add: d d1)
  also have "PMT_read_streams ?ss q3 = foldl (\<lambda>p e. PMT_register e p) q3 (map stream_entry (pmt_streams p))"
    unfolding streams_bytes_def using items by (intro pmt_items.rd_all) blast
  also have "\<dots> = q3\<lparr>pmt_streams := pmt_streams p\<rparr>"
    using PMT_register_streams [of q3 "pmt_streams p"] o(4,5) q by (simp add: q3_def)
  finally show ?thesis by (simp add: q3_def)
qed

section \<open>What is written\<close>

lemma lengthSerialize_all:
  assumes "2 \<le> room"
  shows "binarySize dl \<le> room - 2 \<Longrightarrow> lengthSerialize dl addr room 0 0x0F =
      (addr @ len_field (binarySize dl) @ dl_bytes dl, room - 2 - binarySize dl, length dl)"
    and "snd (snd (lengthSerialize dl addr room 0 0x0F)) = length dl \<longleftrightarrow> binarySize dl \<le> room - 2"
  using fits_facts [of dl "room - 2"] by (simp_all add: lengthSerialize_eq Let_def binarySize_eq)

lemma PMT_put_streams_cases:
  "case PMT_put_streams es data remain of
     None \<Rightarrow> remain < length (streams_bytes es)
   | Some (data', remain') \<Rightarrow> \<exists>k \<le> length es. data' = data @ streams_bytes (take k es) \<and>
       length (streams_bytes (take k es)) + remain' = remain \<and> (k < length es \<longrightarrow> remain' < 5)"
proof (induction es arbitrary: data remain)
  case (Cons e es)
  let ?dl = "st_descs (snd e)" and ?data = "data @ [st_type (snd e)] @ put16 (fst e OR 0xE000)"
  show ?case
  proof (cases "5 \<le> remain \<and> binarySize ?dl \<le> remain - 5")
    case False
    have len: "length (streams_bytes (e # es)) \<ge> 5 + binarySize ?dl" by (simp add: length_stream_bytes)
    show ?thesis
    proof (cases "5 \<le> remain")
      case True
      then have "snd (snd (lengthSerialize ?dl ?data (remain - 3) 0 0x0F)) \<noteq> length ?dl"
        using lengthSerialize_all(2) [of "remain - 3" ?dl ?data] False by simp
      then have "PMT_put_streams (e # es) data remain = None" using True by (auto split: prod.split)
      then show ?thesis using len True False by simp
    next
      case False
      then have "PMT_put_streams (e # es) data remain = Some (data, remain)" by simp
      show ?thesis unfolding \<open>PMT_put_streams (e # es) data remain = Some (data, remain)\<close> option.case prod.case
        using False by (intro exI [of _ 0]) simp
    qed
  next
    case True
    have ls: "lengthSerialize ?dl ?data (remain - 3) 0 0x0F =
        (?data @ len_field (binarySize ?dl) @ dl_bytes ?dl, remain - 5 - binarySize ?dl, length ?dl)"
    proof -
      have "2 \<le> remain - 3" "binarySize ?dl \<le> remain - 3 - 2" using True by auto
      from lengthSerialize_all(1) [OF this, of ?data] show ?thesis by simp
    qed
    have b: "?data @ len_field (binarySize ?dl) @ dl_bytes ?dl = data @ stream_bytes (stream_entry e)"
      by (simp add: stream_bytes_def stream_entry_def binarySize_eq)
    have step: "PMT_put_streams (e # es) data remain =
        PMT_put_streams es (data @ stream_bytes (stream_entry e)) (remain - 5 - binarySize ?dl)"
      unfolding PMT_put_streams.simps ls Let_def prod.case b using True by simp
    have l: "length (stream_bytes (stream_entry e)) \<le> remain" "remain - 5 - binarySize ?dl = remain - length (stream_bytes (stream_entry e))"
      using True unfolding length_stream_bytes by linarith+
    note IH = Cons.IH [where data = "data @ stream_bytes (stream_entry e)" and remain = "remain - 5 - binarySize ?dl", folded step]
    show ?thesis
    proof (cases "PMT_put_streams (e # es) data remain")
      case None
      then show ?thesis using IH l by simp
    next
      case (Some r)
      then obtain data' remain' where r: "PMT_put_streams (e # es) data remain = Some (data', remain')" by (cases r) simp
      from IH obtain k where k: "k \<le> length es" "data' = (data @ stream_bytes (stream_entry e)) @ streams_bytes (take k es)"
          "length (streams_bytes (take k es)) + remain' = remain - 5 - binarySize ?dl" "k < length es \<longrightarrow> remain' < 5"
        unfolding r by auto
      show ?thesis unfolding r option.case prod.case
        using k l by (intro exI [of _ "Suc k"]) simp
    qed
  qed
qed simp

lemma pmt_size_eq: "pmt_size p = 4 + binarySize (pmt_descs p) + length (streams_bytes (pmt_streams p))"
  by (simp add: pmt_size_def pmt_bytes_def binarySize_eq)

lemma PMT_serialize_cases:
  assumes "pmt_valid p" and "4 + binarySize (pmt_descs p) \<le> 1012"
  shows "1012 < pmt_size p \<and> PMT_serialize p = BinaryTable_clear \<or>
    (\<exists>k \<le> length (pmt_streams p). let p' = p\<lparr>pmt_streams := take k (pmt_streams p)\<rparr> in pmt_size p' \<le> 1012 \<and>
       (k < length (pmt_streams p) \<longrightarrow> 1007 < pmt_size p') \<and>
       PMT_serialize p = addNewSection 2 False (pmt_service_id p) (pmt_version p) (pmt_is_current p) 0 (pmt_bytes p') BinaryTable_clear)"
proof -
  let ?head = "put16 (pmt_pcr_pid p OR 0xE000) @ len_field (binarySize (pmt_descs p)) @ dl_bytes (pmt_descs p)"
  let ?room = "1008 - binarySize (pmt_descs p)"
  have "lengthSerialize (pmt_descs p) (put16 (pmt_pcr_pid p OR 0xE000)) 1010 0 0x0F = (?head, ?room, length (pmt_descs p))"
    using lengthSerialize_all(1) [of 1010 "pmt_descs p"] assms(2) by simp
  then have s: "PMT_serialize p = (case PMT_put_streams (pmt_streams p) ?head ?room of None \<Rightarrow> BinaryTable_clear
      | Some (data2, _) \<Rightarrow> addNewSection 2 False (pmt_service_id p) (pmt_version p) (pmt_is_current p) 0 data2 BinaryTable_clear)"
    using assms(1) by (simp add: PMT_serialize_def)
  show ?thesis
  proof (cases "PMT_put_streams (pmt_streams p) ?head ?room")
    case None
    then have "?room < length (streams_bytes (pmt_streams p))"
      using PMT_put_streams_cases [where es = "pmt_streams p" and data = ?head and remain = ?room] by simp
    then have "1012 < pmt_size p" using assms(2) by (simp add: pmt_size_eq)
    then show ?thesis using s None by simp
  next
    case (Some r)
    then obtain data' room' where r: "PMT_put_streams (pmt_streams p) ?head ?room = Some (data', room')" by (cases r) simp
    then obtain k where k: "k \<le> length (pmt_streams p)" "data' = ?head @ streams_bytes (take k (pmt_streams p))"
        "length (streams_bytes (take k (pmt_streams p))) + room' = ?room" "k < length (pmt_streams p) \<longrightarrow> room' < 5"
      using PMT_put_streams_cases [where es = "pmt_streams p" and data = ?head and remain = ?room] by auto
    let ?n = "binarySize (pmt_descs p) + length (streams_bytes (take k (pmt_streams p)))"
    have "?n + room' = 1008" using k(3) assms(2) by linarith
    then have "?n \<le> 1008 \<and> (k < length (pmt_streams p) \<longrightarrow> 1003 < ?n)" using k(4) by linarith
    then show ?thesis unfolding s r option.case prod.case
      using k(1,2) by (intro disjI2 exI [of _ k]) (simp add: Let_def pmt_size_eq pmt_bytes_def)
  qed
qed

lemma PMT_deserialize_bytes:
  assumes ok: "pmt_ok p" and sz: "pmt_size p \<le> 1012"
  defines "t \<equiv> addNewSection 2 False (pmt_service_id p) (pmt_version p) (pmt_is_current p) 0 (pmt_bytes p) BinaryTable_clear"
  shows "tb_valid t \<and> PMT_deserialize t q = p"
proof -
  have v: "pmt_version p \<le> 31" "pmt_valid p" using ok by (simp_all add: pmt_ok_def)
  have h: "has_payloads 2 (pmt_service_id p) (pmt_version p) (pmt_is_current p) [pmt_bytes p] t"
    using addNewSection_payloads [OF has_payloads_clear [of 2 "pmt_service_id p" "pmt_version p" "pmt_is_current p"], of "pmt_bytes p" False] v(1) sz
    by (simp add: t_def pmt_size_def)
  obtain s where s: "present (tb_sections t) = [s]" "section_payload s = pmt_bytes p"
    using has_payloads_present(1) [OF h] by auto
  have sat: "version_of s = pmt_version p" "isCurrent s = pmt_is_current p" "tableIdExtension s = pmt_service_id p"
    using has_payloads_present(2) [OF h] s(1) by (simp_all add: section_at_def)
  define q0 where "q0 = q\<lparr>pmt_valid := False, pmt_service_id := 0, pmt_pcr_pid := PID_NULL, pmt_descs := [], pmt_streams := []\<rparr>"
  have "PMT_read_section s q0 = (True, p\<lparr>pmt_valid := pmt_valid q0\<rparr>)"
    using PMT_read_bytes [OF ok sz s(2) sat, of q0] by (simp add: q0_def)
  then have "PMT_read_sections [s] q0 = (True, p\<lparr>pmt_valid := pmt_valid q0\<rparr>)" by simp
  then show ?thesis using h v(2) by (simp add: PMT_deserialize_def has_payloads_def s(1) flip: q0_def)
qed

lemma pmt_ok_take: "pmt_ok p \<Longrightarrow> pmt_ok (p\<lparr>pmt_streams := take k (pmt_streams p)\<rparr>)"
  by (auto simp: pmt_ok_def omap_inv_def sorted_wrt_take take_map [symmetric] dest: in_set_takeD)

section \<open>Properties\<close>

text \<open>C21. A program map table whose content fits in one section round trips: the serialized table is valid and
  deserializing it gives the table back, with the descriptors of the program and of every stream and
  their private data specifiers.\<close>

theorem pmt_roundtrip:
  assumes "pmt_ok p" and "pmt_size p \<le> 1012"
  shows "tb_valid (PMT_serialize p) \<and> PMT_deserialize (PMT_serialize p) q = p"
proof -
  have "4 + binarySize (pmt_descs p) \<le> 1012" using assms(2) by (simp add: pmt_size_eq)
  moreover have "pmt_valid p" using assms(1) by (simp add: pmt_ok_def)
  ultimately obtain k where k: "k \<le> length (pmt_streams p)" "k < length (pmt_streams p) \<longrightarrow> 1007 < pmt_size (p\<lparr>pmt_streams := take k (pmt_streams p)\<rparr>)"
    "PMT_serialize p = addNewSection 2 False (pmt_service_id p) (pmt_version p) (pmt_is_current p) 0
       (pmt_bytes (p\<lparr>pmt_streams := take k (pmt_streams p)\<rparr>)) BinaryTable_clear"
    using PMT_serialize_cases [of p] assms(2) by (auto simp: Let_def)
  have "k = length (pmt_streams p)"
  proof (rule ccontr)
    assume "k \<noteq> length (pmt_streams p)"
    then have lt: "k < length (pmt_streams p)" using k(1) by simp
    have "streams_bytes (pmt_streams p) = streams_bytes (take k (pmt_streams p)) @ streams_bytes (drop k (pmt_streams p))"
      by (simp add: streams_bytes_def flip: concat_append map_append)
    moreover have "5 \<le> length (streams_bytes (drop k (pmt_streams p)))"
      using lt by (cases "drop k (pmt_streams p)") (auto simp: length_stream_bytes)
    ultimately show False using k(2) lt assms(2) by (simp add: pmt_size_eq)
  qed
  then show ?thesis using PMT_deserialize_bytes [OF assms] k(3) by simp
qed


definition sample_pmt :: PMT where
  "sample_pmt = \<lparr>pmt_valid = True, pmt_version = 1, pmt_is_current = True, pmt_service_id = 5, pmt_pcr_pid = 100,
     pmt_descs = sample_list, pmt_streams = [(100, \<lparr>st_type = 2, st_descs = []\<rparr>), (101, \<lparr>st_type = 4, st_descs = sample_list\<rparr>)]\<rparr>"

lemma sample_list_wf: "dl_wf sample_list" "binarySize sample_list = 10"
proof -
  have "list_all (\<lambda>e. wf_desc (el_desc e)) sample_list \<and> binarySize sample_list = 10" by code_simp
  then show "dl_wf sample_list" "binarySize sample_list = 10" by (simp_all add: dl_wf_def list_all_iff)
qed

lemma sample_pmt_ok: "pmt_ok sample_pmt" "pmt_size sample_pmt \<le> 1012"
  using sample_list_wf sample_list_ok
  by (simp_all add: pmt_ok_def sample_pmt_def omap_inv_def stream_ok_def pmt_size_eq length_stream_bytes)
    (simp_all add: pds_ok_def binarySize_eq)

theorem pmt_roundtrip_witness: "PMT_deserialize (PMT_serialize sample_pmt) (PMT_new 0 True 0 0) = sample_pmt"
  using pmt_roundtrip [OF sample_pmt_ok] by blast

text \<open>Two hundred and two streams without descriptors: 1014 bytes. Two bytes are left after 201 streams.\<close>

definition large_pmt :: PMT where
  "large_pmt = \<lparr>pmt_valid = True, pmt_version = 1, pmt_is_current = True, pmt_service_id = 5, pmt_pcr_pid = 100,
     pmt_descs = [], pmt_streams = map (\<lambda>i. (of_nat (100 + i), \<lparr>st_type = 2, st_descs = []\<rparr>)) [0..<202]\<rparr>"

lemma large_streams_bytes: "length (streams_bytes (map (\<lambda>i. (f i, \<lparr>st_type = 2, st_descs = []\<rparr>)) is)) = 5 * length is"
  by (induction "is") (simp_all add: length_stream_bytes binarySize_def)

lemma large_pmt_facts: "pmt_ok large_pmt" "pmt_size large_pmt = 1014" "length (pmt_streams large_pmt) = 202"
proof -
  let ?pid = "\<lambda>i. of_nat (100 + i) :: u16"
  have u: "unat (?pid i) = 100 + i" if "i < 202" for i using that by (simp add: unat_of_nat del: of_nat_add)
  have "sorted_wrt (<) (map ?pid [0..<202])"
    unfolding sorted_wrt_map by (rule sorted_wrt_mono_rel [OF _ sorted_wrt_upt]) (auto simp: word_less_nat_alt u simp del: of_nat_add)
  then have "omap_inv (pmt_streams large_pmt)"
    by (simp add: omap_inv_def large_pmt_def comp_def strict_sorted_iff del: of_nat_add upt_Suc)
  moreover have "\<forall>e \<in> set (pmt_streams large_pmt). stream_ok e"
    by (auto simp: large_pmt_def stream_ok_def pds_ok_def word_less_nat_alt u simp del: of_nat_add upt_Suc)
  ultimately show "pmt_ok large_pmt" by (simp add: pmt_ok_def) (simp add: large_pmt_def pds_ok_def)
  show "length (pmt_streams large_pmt) = 202" by (simp add: large_pmt_def)
  show "pmt_size large_pmt = 1014"
    using large_streams_bytes [of ?pid "[0..<202]"] by (simp add: pmt_size_eq large_pmt_def binarySize_def del: of_nat_add upt_Suc)
qed


end
