(* ===== verification/Ts_NIT.thy ===== *)
theory Ts_NIT
  imports Ts_PMT
begin

text \<open>
  The tables that describe a list of transport streams, network information and bouquet association tables:
  \<open>tsAbstractTransportListTable.cpp\<close> with \<open>tsTransportStreamId.h\<close>. Such a table may need several sections, the
  descriptors of the table or of one transport may be split between sections, and hints may ask for a
  section. The loops of \<open>serialize\<close> end only because every descriptor fits in an empty section, so they are
  partial functions; the lemmas show that they end for all valid descriptors and all hints.
\<close>

section \<open>Identification of a transport stream\<close>

datatype TransportStreamId = TransportStreamId (transport_stream_id: u16) (original_network_id: u16)

definition normalized :: "TransportStreamId \<Rightarrow> u32" where
  "normalized i = ucast (transport_stream_id i) OR push_bit 16 (ucast (original_network_id i))"

lemma normalized_inj: "normalized i = normalized j \<Longrightarrow> i = j"
proof -
  assume e: "normalized i = normalized j"
  have lo: "ucast (normalized k) = transport_stream_id k" for k
    unfolding normalized_def by (rule bit_word_eqI) (auto simp: ts_bits)
  have hi: "ucast (drop_bit 16 (normalized k)) = original_network_id k" for k
    unfolding normalized_def by (rule bit_word_eqI) (auto simp: ts_bits bit_drop_bit_eq dest: bit_imp_le_length)
  show "i = j" using lo [of i] lo [of j] hi [of i] hi [of j] e by (metis TransportStreamId.expand)
qed

instantiation TransportStreamId :: linorder
begin

definition less_eq_TransportStreamId :: "TransportStreamId \<Rightarrow> TransportStreamId \<Rightarrow> bool" where
  "less_eq_TransportStreamId i j \<longleftrightarrow> normalized i \<le> normalized j"

definition less_TransportStreamId :: "TransportStreamId \<Rightarrow> TransportStreamId \<Rightarrow> bool" where
  "less_TransportStreamId i j \<longleftrightarrow> normalized i < normalized j"

instance
  by standard (auto simp: less_eq_TransportStreamId_def less_TransportStreamId_def intro: normalized_inj)

end

section \<open>The table\<close>

record TransportList =
  tl_valid :: bool
  tl_table_id :: byte
  tl_tid_ext :: u16
  tl_version :: byte
  tl_is_current :: bool
  tl_descs :: DescriptorList
  tl_transports :: "(TransportStreamId \<times> DescriptorList) list"
  tl_hints :: "(TransportStreamId \<times> int) list" \<comment> \<open>\<open>section_hints\<close>\<close>

definition TransportList_new :: "byte \<Rightarrow> u16 \<Rightarrow> byte \<Rightarrow> bool \<Rightarrow> TransportList" where
  "TransportList_new tid ext ver is_cur = \<lparr>tl_valid = True, tl_table_id = tid, tl_tid_ext = ext, tl_version = ver,
     tl_is_current = is_cur, tl_descs = [], tl_transports = [], tl_hints = []\<rparr>"

section \<open>Deserialization\<close>

definition TL_register :: "TransportStreamId \<times> byte list \<Rightarrow> TransportList \<Rightarrow> TransportList" where
  "TL_register e t = t\<lparr>tl_transports := entry_update (fst e) [] (dl_add_bytes (snd e)) (tl_transports t)\<rparr>"

function TL_read_transports :: "byte list \<Rightarrow> TransportList \<Rightarrow> TransportList" where
  "TL_read_transports data t =
     (if length data \<ge> 6
      then
        let id = TransportStreamId (GetUInt16 data 0) (GetUInt16 data 2);
            info_length = min (unat (GetUInt16 data 4 AND 0x0FFF)) (length data - 6)
        in TL_read_transports (drop (6 + info_length) data) (TL_register (id, take info_length (drop 6 data)) t)
      else t)"
  by pat_completeness auto
termination
  by (relation "measure (\<lambda>(data, t). length data)") auto

declare TL_read_transports.simps [simp del]

text \<open>One section. The boolean is false when the code returns, with the table invalid.\<close>

definition TL_read_section :: "Section \<Rightarrow> TransportList \<Rightarrow> bool \<times> TransportList" where
  "TL_read_section sect t =
     (if tableId sect \<noteq> tl_table_id t then (False, t)
      else
        let t1 = t\<lparr>tl_version := version_of sect, tl_is_current := isCurrent sect, tl_tid_ext := tableIdExtension sect\<rparr>;
            data = section_payload sect
        in if length data < 2 then (False, t1)
           else
             let info_length = min (unat (GetUInt16 data 0 AND 0x0FFF)) (length data - 2);
                 t2 = t1\<lparr>tl_descs := dl_add_bytes (take info_length (drop 2 data)) (tl_descs t1)\<rparr>;
                 data1 = drop (2 + info_length) data
             in if length data1 < 2 then (False, t2)
                else
                  let remain = min (unat (GetUInt16 data1 0 AND 0x0FFF)) (length data1 - 2)
                  in (True, TL_read_transports (take remain (drop 2 data1)) t2))"

fun TL_read_sections :: "Section list \<Rightarrow> TransportList \<Rightarrow> bool \<times> TransportList" where
  "TL_read_sections [] t = (True, t)"
| "TL_read_sections (s # ss) t =
     (case TL_read_section s t of (False, t') \<Rightarrow> (False, t') | (True, t') \<Rightarrow> TL_read_sections ss t')"

definition TL_deserialize :: "BinaryTable \<Rightarrow> TransportList \<Rightarrow> TransportList" where
  "TL_deserialize table t =
     (let t0 = t\<lparr>tl_valid := False, tl_tid_ext := 0xFFFF, tl_descs := [], tl_transports := [], tl_hints := []\<rparr>;
          tid = tb_tid table
      in if \<not> tb_valid table then t0
         else if \<not> (tl_table_id t \<in> {0x40, 0x41} \<and> tid \<in> {0x40, 0x41}) \<and> tid \<noteq> tl_table_id t then t0
         else
           let t1 = (if tl_table_id t \<in> {0x40, 0x41} \<and> tid \<in> {0x40, 0x41} then t0\<lparr>tl_table_id := tid\<rparr> else t0)
           in case TL_read_sections (present (tb_sections table)) t1 of (ok, t') \<Rightarrow> t'\<lparr>tl_valid := ok\<rparr>)"

section \<open>Serialization\<close>

record LoopBuilder = Builder +
  bd_tsll :: nat \<comment> \<open>the offset of \<open>tsll_addr\<close>, the length of the transport loop\<close>

definition TL_addSection :: "TransportList \<Rightarrow> 'a Builder_scheme \<Rightarrow> 'a Builder_scheme" where
  "TL_addSection t b =
     b\<lparr>bd_table := addNewSection (tl_table_id t) True (tl_tid_ext t) (tl_version t) (tl_is_current t) (bd_number b) (bd_data b) (bd_table b),
       bd_remain := bd_remain b + length (bd_data b), bd_data := [], bd_number := bd_number b + 1\<rparr>"

text \<open>The same inside the transport loop: the length of the loop is stored first, and the new section starts with
  an empty list of descriptors and the place of the length of its loop.\<close>

definition TL_addSection_loop :: "TransportList \<Rightarrow> LoopBuilder \<Rightarrow> LoopBuilder" where
  "TL_addSection_loop t b =
     (let b1 = TL_addSection t (b\<lparr>bd_data := PutUInt16 (bd_data b) (bd_tsll b) (0xF000 OR of_nat (length (bd_data b) - bd_tsll b - 2))\<rparr>)
      in b1\<lparr>bd_tsll := 2, bd_data := put16 0xF000 @ put16 0xF000, bd_remain := bd_remain b1 - 4\<rparr>)"

definition getNextTransport :: "TransportList \<Rightarrow> TransportStreamId list \<Rightarrow> nat \<Rightarrow> TransportStreamId option" where
  "getNextTransport t ts_set section_number =
     (case List.find (\<lambda>i. omap_get (tl_hints t) i = Some (int section_number) \<and> omap_get (tl_transports t) i \<noteq> None) ts_set of
        Some i \<Rightarrow> Some i
      | None \<Rightarrow> List.find (\<lambda>i. (case omap_get (tl_hints t) i of None \<Rightarrow> True | Some h \<Rightarrow> h < int section_number) \<and>
                                   omap_get (tl_transports t) i \<noteq> None) ts_set)"

text \<open>The descriptors of the table, in as many sections as needed.\<close>

partial_function (option) TL_put_descs :: "TransportList \<Rightarrow> nat \<Rightarrow> Builder \<Rightarrow> Builder option" where
  "TL_put_descs t start_index b =
     (let r = lengthSerialize (tl_descs t) (bd_data b) (bd_remain b - 2) start_index 0x0F;
          b1 = b\<lparr>bd_data := fst r, bd_remain := fst (snd r) + 2\<rparr>; next_index = snd (snd r)
      in if next_index = length (tl_descs t) then Some b1
         else TL_put_descs t next_index
                (TL_addSection t (b1\<lparr>bd_data := bd_data b1 @ put16 0xF000, bd_remain := bd_remain b1 - 2\<rparr>)))"

text \<open>The search of a transport for the current section, with new sections until there is one.\<close>

partial_function (option) TL_seek ::
  "TransportList \<Rightarrow> TransportStreamId list \<Rightarrow> LoopBuilder \<Rightarrow> (TransportStreamId \<times> LoopBuilder) option" where
  "TL_seek t ts_set b =
     (case getNextTransport t ts_set (bd_number b) of
        Some i \<Rightarrow> Some (i, b)
      | None \<Rightarrow> TL_seek t ts_set (TL_addSection_loop t b))"

text \<open>One transport, from a descriptor on.\<close>

partial_function (option) TL_put_transport ::
  "TransportList \<Rightarrow> TransportStreamId \<Rightarrow> DescriptorList \<Rightarrow> nat \<Rightarrow> LoopBuilder \<Rightarrow> LoopBuilder option" where
  "TL_put_transport t ts_id dlist start_index b =
     (let data = bd_data b @ put16 (transport_stream_id ts_id) @ put16 (original_network_id ts_id);
          r = lengthSerialize dlist data (bd_remain b - 4) start_index 0x0F;
          b1 = b\<lparr>bd_data := fst r, bd_remain := fst (snd r)\<rparr>; next_index = snd (snd r)
      in if next_index \<ge> length dlist then Some b1
         else TL_put_transport t ts_id dlist next_index (TL_addSection_loop t b1))"

text \<open>The set of the transports that are not written yet is a sorted list.\<close>

partial_function (option) TL_put_transports ::
  "TransportList \<Rightarrow> TransportStreamId list \<Rightarrow> LoopBuilder \<Rightarrow> LoopBuilder option" where
  "TL_put_transports t ts_set b =
     (if ts_set = [] then Some b
      else
        Option.bind (TL_seek t ts_set (if bd_remain b < 6 then TL_addSection_loop t b else b))
          (\<lambda>r. let ts_id = fst r; b2 = snd r; dlist = the (omap_get (tl_transports t) ts_id); ts_set1 = remove1 ts_id ts_set
                in if length (bd_data b2) > bd_tsll b2 + 2 \<and> 6 + binarySize dlist > bd_remain b2
                   then TL_put_transports t (insort ts_id ts_set1) (TL_addSection_loop t b2)
                   else Option.bind (TL_put_transport t ts_id dlist 0 b2) (\<lambda>b3. TL_put_transports t ts_set1 b3)))"

declare TL_put_descs.simps [code] TL_seek.simps [code] TL_put_transport.simps [code] TL_put_transports.simps [code]

definition TL_build :: "TransportList \<Rightarrow> LoopBuilder option" where
  "TL_build t =
     Option.bind (TL_put_descs t 0 Builder_new)
       (\<lambda>b. let b1 = \<lparr>bd_table = bd_table b, bd_number = bd_number b, bd_data = bd_data b @ put16 0xF000,
                        bd_remain = bd_remain b - 2, bd_tsll = length (bd_data b)\<rparr>
             in map_option (TL_addSection_loop t) (TL_put_transports t (map fst (tl_transports t)) b1))"

definition TL_serialize :: "TransportList \<Rightarrow> BinaryTable option" where
  "TL_serialize t = (if \<not> tl_valid t then Some BinaryTable_clear else map_option bd_table (TL_build t))"

section \<open>What the sections mean\<close>

text \<open>A section is a piece of the descriptors of the table and pieces of transports.\<close>

type_synonym piece = "TransportStreamId \<times> DescElement list"
type_synonym tsection = "DescElement list \<times> piece list"

definition transport_bytes :: "TransportStreamId \<times> byte list \<Rightarrow> byte list" where
  "transport_bytes e = put16 (transport_stream_id (fst e)) @ put16 (original_network_id (fst e)) @ len_field (length (snd e)) @ snd e"

definition piece_entry :: "piece \<Rightarrow> TransportStreamId \<times> byte list" where
  "piece_entry p = (fst p, dl_bytes (snd p))"

definition pieces_bytes :: "piece list \<Rightarrow> byte list" where
  "pieces_bytes ps = concat (map transport_bytes (map piece_entry ps))"

definition tsection_bytes :: "tsection \<Rightarrow> byte list" where
  "tsection_bytes s = len_field (binarySize (fst s)) @ dl_bytes (fst s) @ len_field (length (pieces_bytes (snd s))) @ pieces_bytes (snd s)"

lemma pieces_bytes_simps [simp]:
  "pieces_bytes [] = []" "pieces_bytes (p # ps) = transport_bytes (piece_entry p) @ pieces_bytes ps"
  "pieces_bytes (ps @ qs) = pieces_bytes ps @ pieces_bytes qs"
  by (simp_all add: pieces_bytes_def)

lemma length_transport_bytes: "length (transport_bytes e) = 6 + length (snd e)"
  by (simp add: transport_bytes_def)

lemma pieces_bytes_member: "p \<in> set ps \<Longrightarrow> length (dl_bytes (snd p)) \<le> length (pieces_bytes ps)"
  by (induction ps) (auto simp: length_transport_bytes piece_entry_def)

text \<open>All pieces of one transport, in order.\<close>

definition gather :: "TransportStreamId \<Rightarrow> piece list \<Rightarrow> DescElement list" where
  "gather i ps = concat (map snd (filter (\<lambda>p. fst p = i) ps))"

lemma gather_simps [simp]:
  "gather i [] = []" "gather i (p # ps) = (if fst p = i then snd p @ gather i ps else gather i ps)"
  "gather i (ps @ qs) = gather i ps @ gather i qs"
  by (simp_all add: gather_def)

lemma gather_other: "i \<notin> fst ` set ps \<Longrightarrow> gather i ps = []"
  by (induction ps) auto

lemma gather_same: "\<forall>p \<in> set ps. fst p = i \<Longrightarrow> gather i ps = concat (map snd ps)"
  by (induction ps) auto

section \<open>Reading\<close>

lemma TL_read_item:
  assumes "length (snd e) < 4096"
  shows "TL_read_transports (transport_bytes e @ rest) t = TL_read_transports rest (TL_register e t)"
proof -
  obtain i bs where e: "e = (i, bs)" by (cases e)
  define d where "d = put16 (transport_stream_id i) @ put16 (original_network_id i) @ len_field (length bs) @ bs @ rest"
  have i: "TransportStreamId (GetUInt16 d 0) (GetUInt16 d 2) = i"
    using GetUInt16_skip [of "put16 (transport_stream_id i)" _ 0] by (simp add: d_def)
  have "GetUInt16 d 4 = GetUInt16 (len_field (length bs) @ bs @ rest) 0"
    using GetUInt16_skip [of "put16 (transport_stream_id i) @ put16 (original_network_id i)" _ 0] by (simp add: d_def)
  then have n: "min (unat (GetUInt16 d 4 AND 0x0FFF)) (length d - 6) = length bs"
    using len_field_value [of "length bs" "bs @ rest"] assms by (simp add: d_def e)
  have "drop 6 d = bs @ rest" by (simp add: d_def)
  then have t: "take (length bs) (drop 6 d) = bs" "drop (6 + length bs) d = rest"
    by (simp_all only: add.commute [of 6] drop_drop [symmetric]) simp_all
  have l: "6 \<le> length d" by (simp add: d_def)
  then have "TL_read_transports d t = TL_read_transports (drop (6 + min (unat (GetUInt16 d 4 AND 0x0FFF)) (length d - 6)) d)
      (TL_register (TransportStreamId (GetUInt16 d 0) (GetUInt16 d 2), take (min (unat (GetUInt16 d 4 AND 0x0FFF)) (length d - 6)) (drop 6 d)) t)"
    by (subst TL_read_transports.simps) (simp only: Let_def if_True)
  also have "\<dots> = TL_read_transports rest (TL_register (i, bs) t)" unfolding n t i ..
  finally show ?thesis by (simp add: transport_bytes_def d_def e)
qed

interpretation tl_items: loop_codec TL_read_transports transport_bytes TL_register "\<lambda>e. length (snd e) < 4096"
proof unfold_locales
  show "TL_read_transports [] t = t" for t by (subst TL_read_transports.simps) simp
qed (rule TL_read_item)

lemma omap_get_member: "omap_inv m \<Longrightarrow> omap_get m k = Some v \<longleftrightarrow> (k, v) \<in> set m"
  by (simp add: omap_inv_def omap_get_def)

lemma omap_ext:
  assumes m: "omap_inv m" "omap_inv m'" and e: "\<And>k. omap_get m k = omap_get m' k"
  shows "m = m'"
proof (rule map_sorted_distinct_set_unique [of fst])
  show "set m = set m'" using e omap_get_member [OF m(1)] omap_get_member [OF m(2)] by auto
  then show "inj_on fst (set m \<union> set m')" using m(1) by (simp add: omap_inv_def distinct_map)
qed (use m in \<open>simp_all add: omap_inv_def\<close>)

lemma omap_get_update:
  "omap_inv m \<Longrightarrow> omap_get (entry_update k new f m) = (omap_get m)(k \<mapsto> f (case omap_get m k of None \<Rightarrow> new | Some v \<Rightarrow> v))"
  by (simp add: entry_update_def omap_get_put)

text \<open>Registering pieces after other pieces: the map holds what has been gathered.\<close>

definition gathered :: "piece list \<Rightarrow> (TransportStreamId \<times> DescriptorList) list \<Rightarrow> bool" where
  "gathered ps m \<longleftrightarrow> omap_inv m \<and> (\<forall>i. omap_get m i = (if i \<in> fst ` set ps then Some (gather i ps) else None))"

lemma gathered_Nil: "gathered [] []"
  by (simp add: gathered_def omap_inv_def omap_get_def)

lemma TL_register_piece:
  assumes g: "gathered ps (tl_transports t)" and p: "pds_ok (gather (fst p) (ps @ [p]))" "dl_wf (snd p)"
  shows "gathered (ps @ [p]) (tl_transports (TL_register (piece_entry p) t))"
    and "TL_register (piece_entry p) t = t\<lparr>tl_transports := tl_transports (TL_register (piece_entry p) t)\<rparr>"
proof -
  obtain i dl where pe: "p = (i, dl)" by (cases p)
  have "pds_scan (last_pds 0 (gather i ps)) dl" using p(1) by (simp add: pe pds_ok_def)
  then have "dl_add_bytes (dl_bytes dl) (gather i ps) = gather i ps @ dl"
    using dl_add_bytes_dl_bytes p(2) by (simp add: pe)
  moreover have "(case omap_get (tl_transports t) i of None \<Rightarrow> [] | Some v \<Rightarrow> v) = gather i ps"
    using g gather_other [of i ps] by (simp add: gathered_def)
  ultimately have "omap_get (tl_transports (TL_register (piece_entry p) t)) = (omap_get (tl_transports t))(i \<mapsto> gather i ps @ dl)"
    using g by (simp add: TL_register_def piece_entry_def pe gathered_def omap_get_update)
  moreover have "omap_inv (tl_transports (TL_register (piece_entry p) t))"
    using g by (simp add: TL_register_def gathered_def entry_update_def omap_inv_put)
  ultimately show "gathered (ps @ [p]) (tl_transports (TL_register (piece_entry p) t))"
    using g by (auto simp: gathered_def pe)
  show "TL_register (piece_entry p) t = t\<lparr>tl_transports := tl_transports (TL_register (piece_entry p) t)\<rparr>"
    by (simp add: TL_register_def)
qed

definition pieces_ok :: "piece list \<Rightarrow> bool" where
  "pieces_ok ps \<longleftrightarrow> (\<forall>i. pds_ok (gather i ps)) \<and> (\<forall>p \<in> set ps. dl_wf (snd p))"

lemma pieces_ok_prefix: "pieces_ok (ps @ qs) \<Longrightarrow> pieces_ok ps"
  by (auto simp: pieces_ok_def pds_ok_def)

lemma TL_register_pieces:
  assumes "gathered ps (tl_transports t)" and "pieces_ok (ps @ qs)"
  shows "\<exists>m. foldl (\<lambda>t e. TL_register e t) t (map piece_entry qs) = t\<lparr>tl_transports := m\<rparr> \<and> gathered (ps @ qs) m"
  using assms
proof (induction qs arbitrary: ps t)
  case Nil
  then show ?case by (intro exI [of _ "tl_transports t"]) simp
next
  case (Cons q qs)
  have "pieces_ok (ps @ [q])" using pieces_ok_prefix [of "ps @ [q]" qs] Cons.prems(2) by simp
  then have q: "pds_ok (gather (fst q) (ps @ [q]))" "dl_wf (snd q)" unfolding pieces_ok_def by (blast, auto)
  note r = TL_register_piece [OF Cons.prems(1) q]
  from Cons.IH [OF r(1)] Cons.prems(2) obtain m where
    "foldl (\<lambda>t e. TL_register e t) (TL_register (piece_entry q) t) (map piece_entry qs) = (TL_register (piece_entry q) t)\<lparr>tl_transports := m\<rparr>"
    "gathered (ps @ q # qs) m" by auto
  moreover obtain m1 where "TL_register (piece_entry q) t = t\<lparr>tl_transports := m1\<rparr>" using r(2) by blast
  ultimately show ?case by (intro exI [of _ m]) simp
qed

lemma TL_read_section_piece:
  assumes s: "section_payload s = tsection_bytes sec" "length (tsection_bytes sec) \<le> 1012" "tableId s = tl_table_id t"
    and d: "dl_wf (fst sec)" "pds_scan (last_pds 0 (tl_descs t)) (fst sec)"
    and g: "gathered ps (tl_transports t)" "pieces_ok (ps @ snd sec)"
  shows "\<exists>m. TL_read_section s t = (True, t\<lparr>tl_version := version_of s, tl_is_current := isCurrent s, tl_tid_ext := tableIdExtension s,
      tl_descs := tl_descs t @ fst sec, tl_transports := m\<rparr>) \<and> gathered (ps @ snd sec) m"
proof -
  obtain ds qs where sec: "sec = (ds, qs)" by (cases sec)
  define data where "data = section_payload s"
  have data: "data = len_field (length (dl_bytes ds)) @ dl_bytes ds @ len_field (length (pieces_bytes qs)) @ pieces_bytes qs"
    by (simp add: data_def s(1) sec tsection_bytes_def binarySize_eq)
  have small: "length (dl_bytes ds) < 4096" "length (pieces_bytes qs) < 4096"
    using s(2) by (simp_all add: tsection_bytes_def sec binarySize_eq)
  have n: "min (unat (GetUInt16 data 0 AND 0x0FFF)) (length data - 2) = length (dl_bytes ds)"
    unfolding data len_field_value [OF small(1)] by simp
  define data1 where "data1 = drop (2 + length (dl_bytes ds)) data"
  have data1: "data1 = len_field (length (pieces_bytes qs)) @ pieces_bytes qs" by (simp add: data1_def data)
  have n1: "min (unat (GetUInt16 data1 0 AND 0x0FFF)) (length data1 - 2) = length (pieces_bytes qs)"
    unfolding data1 len_field_value [OF small(2)] by simp
  have t: "take (length (dl_bytes ds)) (drop 2 data) = dl_bytes ds" "take (length (pieces_bytes qs)) (drop 2 data1) = pieces_bytes qs"
    by (simp_all add: data data1)
  define t2 where "t2 = t\<lparr>tl_version := version_of s, tl_is_current := isCurrent s, tl_tid_ext := tableIdExtension s,
      tl_descs := dl_add_bytes (dl_bytes ds) (tl_descs t)\<rparr>"
  have "\<not> length data < 2" "\<not> length data1 < 2" by (simp_all add: data data1)
  then have "TL_read_section s t = (True, TL_read_transports (pieces_bytes qs) t2)"
    unfolding TL_read_section_def Let_def data_def [symmetric] n data1_def [symmetric] n1 t using s(3) by (simp add: t2_def)
  also have "TL_read_transports (pieces_bytes qs) t2 = foldl (\<lambda>t e. TL_register e t) t2 (map piece_entry qs)"
    unfolding pieces_bytes_def
    by (rule tl_items.rd_all) (use small(2) pieces_bytes_member in \<open>fastforce simp: piece_entry_def\<close>)
  finally have r: "TL_read_section s t = (True, foldl (\<lambda>t e. TL_register e t) t2 (map piece_entry qs))" .
  have "gathered ps (tl_transports t2)" "pieces_ok (ps @ qs)" using g by (simp_all add: t2_def sec)
  then obtain m where m: "foldl (\<lambda>t e. TL_register e t) t2 (map piece_entry qs) = t2\<lparr>tl_transports := m\<rparr>" "gathered (ps @ qs) m"
    using TL_register_pieces by blast
  have "dl_add_bytes (dl_bytes ds) (tl_descs t) = tl_descs t @ ds" using d dl_add_bytes_dl_bytes by (simp add: sec)
  then show ?thesis using m by (intro exI [of _ m]) (simp add: r t2_def sec)
qed

definition all_descs :: "tsection list \<Rightarrow> DescElement list" where
  "all_descs secs = concat (map fst secs)"

definition all_pieces :: "tsection list \<Rightarrow> piece list" where
  "all_pieces secs = concat (map snd secs)"

lemma all_simps [simp]:
  "all_descs [] = []" "all_descs (s # secs) = fst s @ all_descs secs" "all_descs (secs @ secs') = all_descs secs @ all_descs secs'"
  "all_pieces [] = []" "all_pieces (s # secs) = snd s @ all_pieces secs" "all_pieces (secs @ secs') = all_pieces secs @ all_pieces secs'"
  by (simp_all add: all_descs_def all_pieces_def)

lemma TL_read_sections_pieces:
  assumes "map section_payload ss = map tsection_bytes secs" "\<forall>c \<in> set secs. length (tsection_bytes c) \<le> 1012"
    and "\<forall>s \<in> set ss. tableId s = tl_table_id t \<and> version_of s = v \<and> isCurrent s = c \<and> tableIdExtension s = x"
    and "dl_wf (all_descs secs)" "pds_scan (last_pds 0 (tl_descs t)) (all_descs secs)"
    and "gathered ps (tl_transports t)" "pieces_ok (ps @ all_pieces secs)"
  shows "\<exists>m. TL_read_sections ss t = (True, if ss = [] then t else
      t\<lparr>tl_version := v, tl_is_current := c, tl_tid_ext := x, tl_descs := tl_descs t @ all_descs secs, tl_transports := m\<rparr>) \<and>
      (ss \<noteq> [] \<longrightarrow> gathered (ps @ all_pieces secs) m)"
  using assms
proof (induction ss arbitrary: secs ps t)
  case (Cons s ss)
  obtain sec secs' where secs: "secs = sec # secs'" using Cons.prems(1) by (cases secs) auto
  have "\<exists>m. TL_read_section s t = (True, t\<lparr>tl_version := version_of s, tl_is_current := isCurrent s, tl_tid_ext := tableIdExtension s,
      tl_descs := tl_descs t @ fst sec, tl_transports := m\<rparr>) \<and> gathered (ps @ snd sec) m"
    by (rule TL_read_section_piece) (use Cons.prems pieces_ok_prefix [of "ps @ snd sec" "all_pieces secs'"] in \<open>simp_all add: secs\<close>)
  then obtain m where m: "TL_read_section s t = (True, t\<lparr>tl_version := v, tl_is_current := c, tl_tid_ext := x,
      tl_descs := tl_descs t @ fst sec, tl_transports := m\<rparr>)" "gathered (ps @ snd sec) m"
    using Cons.prems(3) by auto
  define t1 where "t1 = t\<lparr>tl_version := v, tl_is_current := c, tl_tid_ext := x, tl_descs := tl_descs t @ fst sec, tl_transports := m\<rparr>"
  have "\<exists>m'. TL_read_sections ss t1 = (True, if ss = [] then t1 else
      t1\<lparr>tl_version := v, tl_is_current := c, tl_tid_ext := x, tl_descs := tl_descs t1 @ all_descs secs', tl_transports := m'\<rparr>) \<and>
      (ss \<noteq> [] \<longrightarrow> gathered ((ps @ snd sec) @ all_pieces secs') m')"
    by (rule Cons.IH) (use Cons.prems m(2) in \<open>simp_all add: secs t1_def\<close>)
  then obtain m' where m': "TL_read_sections ss t1 = (True, if ss = [] then t1 else
      t1\<lparr>tl_version := v, tl_is_current := c, tl_tid_ext := x, tl_descs := tl_descs t1 @ all_descs secs', tl_transports := m'\<rparr>)"
      "ss \<noteq> [] \<longrightarrow> gathered ((ps @ snd sec) @ all_pieces secs') m'" by blast
  show ?case
  proof (cases "ss = []")
    case True
    then have "secs' = []" using Cons.prems(1) by (simp add: secs)
    then show ?thesis using True m' m(2) by (intro exI [of _ m]) (simp add: m(1) secs t1_def)
  next
    case False
    then show ?thesis using m' by (intro exI [of _ m']) (simp add: m(1) secs t1_def)
  qed
qed simp

section \<open>Building the sections\<close>

text \<open>The sections that have been closed. As long as there are at most 256 of them, they are the
  sections of the binary table.\<close>

definition tl_closed :: "TransportList \<Rightarrow> tsection list \<Rightarrow> 'a Builder_scheme \<Rightarrow> bool" where
  "tl_closed t secs b \<longleftrightarrow> bd_number b = length secs \<and> (\<forall>c \<in> set secs. length (tsection_bytes c) \<le> 1012) \<and>
     (length secs \<le> 256 \<longrightarrow>
        has_payloads (tl_table_id t) (tl_tid_ext t) (tl_version t) (tl_is_current t) (map tsection_bytes secs) (bd_table b))"

text \<open>The state of the buffer inside the transport loop: the section that is being filled.\<close>

definition tl_filling :: "TransportList \<Rightarrow> tsection list \<Rightarrow> tsection \<Rightarrow> LoopBuilder \<Rightarrow> bool" where
  "tl_filling t secs cur b \<longleftrightarrow> tl_closed t secs b \<and>
     bd_data b = len_field (binarySize (fst cur)) @ dl_bytes (fst cur) @ put16 0xF000 @ pieces_bytes (snd cur) \<and>
     bd_tsll b = 2 + binarySize (fst cur) \<and> length (bd_data b) + bd_remain b = 1012"

lemma TL_addSection_closed:
  assumes b: "tl_closed t secs b" and v: "tl_version t \<le> 31" and d: "bd_data b = tsection_bytes sec" "length (bd_data b) \<le> 1012"
  shows "tl_closed t (secs @ [sec]) (TL_addSection t b)"
proof -
  have "has_payloads (tl_table_id t) (tl_tid_ext t) (tl_version t) (tl_is_current t) (map tsection_bytes (secs @ [sec]))
      (bd_table (TL_addSection t b))" if "length secs < 256"
    using addNewSection_payloads [of "tl_table_id t" "tl_tid_ext t" "tl_version t" "tl_is_current t" "map tsection_bytes secs"
        "bd_table b" "tsection_bytes sec" True] b v d that
    by (simp add: tl_closed_def TL_addSection_def)
  then show ?thesis using b d by (auto simp: tl_closed_def TL_addSection_def)
qed

lemma len_field_0: "len_field 0 = put16 0xF000"
  by (simp add: len_field_def)

lemma TL_addSection_loop_filling:
  assumes b: "tl_filling t secs cur b" and v: "tl_version t \<le> 31"
  shows "tl_filling t (secs @ [cur]) ([], []) (TL_addSection_loop t b)" and "bd_remain (TL_addSection_loop t b) = 1008"
proof -
  define n where "n = length (bd_data b) - bd_tsll b - 2"
  define b' where "b' = b\<lparr>bd_data := PutUInt16 (bd_data b) (bd_tsll b) (0xF000 OR of_nat n)\<rparr>"
  have data: "bd_data b = (len_field (binarySize (fst cur)) @ dl_bytes (fst cur)) @ put16 0xF000 @ pieces_bytes (snd cur)"
      "bd_tsll b = length (len_field (binarySize (fst cur)) @ dl_bytes (fst cur))"
    using b by (simp_all add: tl_filling_def binarySize_eq)
  have room: "length (bd_data b) + bd_remain b = 1012" using b unfolding tl_filling_def by blast
  have n: "n = length (pieces_bytes (snd cur))" by (simp add: n_def data(1,2))
  have p: "bd_data b' = tsection_bytes cur"
  proof -
    have "bd_data b' = PutUInt16 (bd_data b) (bd_tsll b) (of_nat n OR 0xF000)" by (simp add: b'_def or.commute)
    then have "bd_data b' = (len_field (binarySize (fst cur)) @ dl_bytes (fst cur)) @ len_field n @ pieces_bytes (snd cur)"
      unfolding data PutUInt16_at len_field_def [symmetric] .
    then show ?thesis by (simp add: tsection_bytes_def n)
  qed
  have l: "length (bd_data b') = length (bd_data b)" unfolding p by (simp add: data(1) tsection_bytes_def)
  have "tl_closed t secs b'" using b by (simp add: tl_filling_def tl_closed_def b'_def)
  from TL_addSection_closed [OF this v p] have c: "tl_closed t (secs @ [cur]) (TL_addSection t b')"
    using l room by simp
  have r: "bd_remain (TL_addSection t b') = 1012"
    using l room by (simp add: TL_addSection_def) (simp add: b'_def)
  have e: "TL_addSection_loop t b = (TL_addSection t b')\<lparr>bd_tsll := 2, bd_data := put16 0xF000 @ put16 0xF000,
      bd_remain := bd_remain (TL_addSection t b') - 4\<rparr>"
    by (simp add: TL_addSection_loop_def b'_def n_def Let_def)
  show "tl_filling t (secs @ [cur]) ([], []) (TL_addSection_loop t b)" "bd_remain (TL_addSection_loop t b) = 1008"
    using c r by (simp_all add: e tl_filling_def tl_closed_def len_field_0 binarySize_def)
qed

text \<open>The descriptors of the table.\<close>

lemma TL_put_descs_ends:
  assumes "tl_closed t secs b" "tl_version t \<le> 31" "dl_wf (tl_descs t)" "bd_data b = []" "bd_remain b = 1012"
    and "start \<le> length (tl_descs t)" "all_descs secs = take start (tl_descs t)" "all_pieces secs = []"
  shows "\<exists>secs' ds b'. TL_put_descs t start b = Some b' \<and> tl_closed t secs' b' \<and> all_descs secs' @ ds = tl_descs t \<and>
    all_pieces secs' = [] \<and> bd_data b' = len_field (binarySize ds) @ dl_bytes ds \<and> length (bd_data b') + bd_remain b' = 1012 \<and> 2 \<le> bd_remain b'"
  using assms
proof (induction "length (tl_descs t) - start" arbitrary: start secs b rule: less_induct)
  case less
  define k where "k = fits (drop start (tl_descs t)) 1008"
  define ds where "ds = take k (drop start (tl_descs t))"
  have size: "binarySize ds \<le> 1008" using fits_facts(2) by (simp add: ds_def k_def binarySize_eq)
  have kl: "k \<le> length (tl_descs t) - start" using fits_facts(1) [of "drop start (tl_descs t)" 1008] by (simp add: k_def)
  have ls: "lengthSerialize (tl_descs t) (bd_data b) (bd_remain b - 2) start 0x0F =
      (len_field (binarySize ds) @ dl_bytes ds, 1008 - binarySize ds, start + k)"
    using less.prems(4,5) by (simp add: lengthSerialize_eq Let_def k_def ds_def binarySize_eq)
  define b1 where "b1 = b\<lparr>bd_data := len_field (binarySize ds) @ dl_bytes ds, bd_remain := 1010 - binarySize ds\<rparr>"
  have b1: "tl_closed t secs b1" "length (bd_data b1) + bd_remain b1 = 1012" "2 \<le> bd_remain b1"
    using less.prems(1) size by (simp_all add: b1_def tl_closed_def binarySize_eq)
  have all: "all_descs secs @ ds = take (start + k) (tl_descs t)" by (simp add: less.prems(7) ds_def take_add)
  define b2 where "b2 = TL_addSection t (b1\<lparr>bd_data := bd_data b1 @ put16 0xF000, bd_remain := bd_remain b1 - 2\<rparr>)"
  have step: "TL_put_descs t start b = (if start + k = length (tl_descs t) then Some b1 else TL_put_descs t (start + k) b2)"
    by (subst TL_put_descs.simps) (use size in \<open>simp add: ls Let_def b1_def b2_def\<close>)
  show ?case
  proof (cases "start + k = length (tl_descs t)")
    case True
    then show ?thesis using b1 all less.prems(8) by (intro exI [of _ secs] exI [of _ ds] exI [of _ b1]) (simp add: step b1_def)
  next
    case False
    have "0 < k"
      unfolding k_def by (rule fits_progress) (use less.prems(3) False kl less.prems(6) in \<open>auto simp: k_def\<close>)
    moreover have c: "tl_closed t (secs @ [(ds, [])]) b2"
      unfolding b2_def
      by (rule TL_addSection_closed) (use b1 less.prems(2) size in \<open>simp_all add: tl_closed_def b1_def tsection_bytes_def len_field_0 binarySize_eq\<close>)
    moreover have "bd_data b2 = []" "bd_remain b2 = 1012"
      using b1(2,3) by (simp_all add: b2_def TL_addSection_def)
    ultimately show ?thesis
      using less.hyps [of "start + k" "secs @ [(ds, [])]" b2] less.prems(2,3,6,8) False kl all by (simp add: step)
  qed
qed

text \<open>Writing a piece of a transport in the current section.\<close>

definition put_piece :: "TransportStreamId \<Rightarrow> DescElement list \<Rightarrow> LoopBuilder \<Rightarrow> LoopBuilder" where
  "put_piece i ds b = b\<lparr>bd_data := bd_data b @ transport_bytes (piece_entry (i, ds)), bd_remain := bd_remain b - 6 - binarySize ds\<rparr>"

lemma tl_filling_piece:
  assumes "tl_filling t secs cur b" and "6 + binarySize ds \<le> bd_remain b"
  shows "tl_filling t secs (fst cur, snd cur @ [(i, ds)]) (put_piece i ds b)"
proof -
  have d: "bd_data b = len_field (binarySize (fst cur)) @ dl_bytes (fst cur) @ put16 0xF000 @ pieces_bytes (snd cur)"
    and c: "tl_closed t secs b" and l: "bd_tsll b = 2 + binarySize (fst cur)" and r: "length (bd_data b) + bd_remain b = 1012"
    using assms(1) unfolding tl_filling_def by blast+
  have "length (transport_bytes (piece_entry (i, ds))) = 6 + binarySize ds"
    by (simp add: length_transport_bytes piece_entry_def binarySize_eq)
  then have "length (bd_data (put_piece i ds b)) + bd_remain (put_piece i ds b) = 1012"
    using r assms(2) by (simp add: put_piece_def)
  then show ?thesis using c l by (simp add: tl_filling_def put_piece_def tl_closed_def d)
qed

lemma TL_put_transport_step:
  assumes "6 \<le> bd_remain b" and k_def: "k = fits (drop start dl) (bd_remain b - 6)" and ds_def: "ds = take k (drop start dl)"
  shows "6 + binarySize ds \<le> bd_remain b"
    and "TL_put_transport t i dl start b = (if length dl \<le> start + k then Some (put_piece i ds b)
      else TL_put_transport t i dl (start + k) (TL_addSection_loop t (put_piece i ds b)))"
proof -
  have "length (dl_bytes ds) \<le> bd_remain b - 6" unfolding ds_def k_def by (rule fits_facts(2))
  then show "6 + binarySize ds \<le> bd_remain b" using assms(1) by (simp add: binarySize_eq)
  show "TL_put_transport t i dl start b = (if length dl \<le> start + k then Some (put_piece i ds b)
      else TL_put_transport t i dl (start + k) (TL_addSection_loop t (put_piece i ds b)))"
    by (subst TL_put_transport.simps)
      (simp add: lengthSerialize_eq Let_def ds_def k_def put_piece_def transport_bytes_def piece_entry_def binarySize_eq)
qed

abbreviation "written secs cur \<equiv> all_pieces secs @ snd cur"
abbreviation "described secs cur \<equiv> all_descs secs @ fst cur"

text \<open>A transport is written completely, in one or more pieces. In a new section at least one descriptor is written.\<close>

definition transport_written :: "TransportList \<Rightarrow> TransportStreamId \<Rightarrow> DescElement list \<Rightarrow> tsection list \<Rightarrow> tsection \<Rightarrow> LoopBuilder option \<Rightarrow> bool" where
  "transport_written t i dl secs cur r \<longleftrightarrow> (\<exists>secs' cur' b' ps. r = Some b' \<and> tl_filling t secs' cur' b' \<and>
     written secs' cur' = written secs cur @ ps \<and> described secs' cur' = described secs cur \<and>
     ps \<noteq> [] \<and> (\<forall>p \<in> set ps. fst p = i) \<and> concat (map snd ps) = dl)"

lemma transport_written_first:
  assumes f: "tl_filling t secs cur b" and v: "tl_version t \<le> 31" and room: "6 \<le> bd_remain b" and st: "start \<le> length dl"
    and more: "\<And>secs1 cur1 b1 start1. tl_filling t secs1 cur1 b1 \<Longrightarrow> bd_remain b1 = 1008 \<Longrightarrow> start1 \<le> length dl \<Longrightarrow>
      start + fits (drop start dl) (bd_remain b - 6) = start1 \<Longrightarrow> start1 < length dl \<Longrightarrow>
      transport_written t i (drop start1 dl) secs1 cur1 (TL_put_transport t i dl start1 b1)"
  shows "transport_written t i (drop start dl) secs cur (TL_put_transport t i dl start b)"
proof -
  define k where "k = fits (drop start dl) (bd_remain b - 6)"
  define ds where "ds = take k (drop start dl)"
  note step = TL_put_transport_step [OF room k_def ds_def]
  have kl: "start + k \<le> length dl" using fits_facts(1) [of "drop start dl" "bd_remain b - 6"] st by (simp add: k_def)
  note p = tl_filling_piece [OF f step(1), of i]
  show ?thesis
  proof (cases "length dl \<le> start + k")
    case True
    then have "ds = drop start dl" by (simp add: ds_def)
    moreover have "TL_put_transport t i dl start b = Some (put_piece i ds b)" using step(2) True by simp
    ultimately show ?thesis unfolding transport_written_def
      using p by (intro exI [of _ secs] exI [of _ "(fst cur, snd cur @ [(i, ds)])"] exI [of _ "put_piece i ds b"] exI [of _ "[(i, ds)]"]) simp
  next
    case False
    note a = TL_addSection_loop_filling [OF p v]
    have rec: "TL_put_transport t i dl start b = TL_put_transport t i dl (start + k) (TL_addSection_loop t (put_piece i ds b))"
      using step(2) False by simp
    have "transport_written t i (drop (start + k) dl) (secs @ [(fst cur, snd cur @ [(i, ds)])]) ([], [])
        (TL_put_transport t i dl (start + k) (TL_addSection_loop t (put_piece i ds b)))"
      by (rule more [OF a]) (use kl False in \<open>simp_all add: k_def\<close>)
    then obtain secs' cur' b' ps where r: "TL_put_transport t i dl start b = Some b'" "tl_filling t secs' cur' b'"
        "written secs' cur' = written secs cur @ (i, ds) # ps" "described secs' cur' = described secs cur"
        "\<forall>p \<in> set ps. fst p = i" "concat (map snd ps) = drop (start + k) dl"
      unfolding transport_written_def rec by auto
    moreover have "ds @ drop (start + k) dl = drop start dl"
      unfolding ds_def by (metis append_take_drop_id drop_drop add.commute)
    ultimately show ?thesis unfolding transport_written_def
      by (intro exI [of _ secs'] exI [of _ cur'] exI [of _ b'] exI [of _ "(i, ds) # ps"]) simp
  qed
qed

lemma TL_put_transport_fresh:
  assumes "dl_wf dl" "tl_version t \<le> 31" "tl_filling t secs cur b" "263 \<le> bd_remain b" "start \<le> length dl"
  shows "transport_written t i (drop start dl) secs cur (TL_put_transport t i dl start b)"
  using assms(3-5)
proof (induction "length dl - start" arbitrary: start secs cur b rule: less_induct)
  case less
  show ?case
  proof (rule transport_written_first [OF less.prems(1) assms(2) _ less.prems(3)])
    show "6 \<le> bd_remain b" using less.prems(2) by simp
    fix secs1 cur1 b1 start1
    assume n: "tl_filling t secs1 cur1 b1" "bd_remain b1 = 1008" "start1 \<le> length dl"
        "start + fits (drop start dl) (bd_remain b - 6) = start1" "start1 < length dl"
    have "0 < fits (drop start dl) (bd_remain b - 6)"
      by (rule fits_progress) (use assms(1) less.prems n(4,5) in auto)
    then show "transport_written t i (drop start1 dl) secs1 cur1 (TL_put_transport t i dl start1 b1)"
      using less.hyps [of start1 secs1 cur1 b1] n by simp
  qed
qed

lemma TL_put_transport_ends:
  assumes "dl_wf dl" "tl_version t \<le> 31" "tl_filling t secs cur b" "6 \<le> bd_remain b"
  shows "transport_written t i dl secs cur (TL_put_transport t i dl 0 b)"
  using transport_written_first [OF assms(3,2,4), of 0 dl i] TL_put_transport_fresh [OF assms(1,2)] by simp

text \<open>The search of a transport ends for all hints.\<close>

lemma getNextTransport_member: "getNextTransport t ts n = Some i \<Longrightarrow> i \<in> set ts"
  by (auto simp: getNextTransport_def find_Some_iff dest!: nth_mem split: option.splits)

lemma getNextTransport_None:
  assumes "getNextTransport t ts n = None" "i \<in> set ts" "omap_get (tl_transports t) i \<noteq> None"
  shows "\<exists>h. omap_get (tl_hints t) i = Some h \<and> int n < h"
proof -
  have n: "List.find (\<lambda>i. omap_get (tl_hints t) i = Some (int n) \<and> omap_get (tl_transports t) i \<noteq> None) ts = None"
    "List.find (\<lambda>i. (case omap_get (tl_hints t) i of None \<Rightarrow> True | Some h \<Rightarrow> h < int n) \<and> omap_get (tl_transports t) i \<noteq> None) ts = None"
    using assms(1) unfolding getNextTransport_def
    by (cases "List.find (\<lambda>i. omap_get (tl_hints t) i = Some (int n) \<and> omap_get (tl_transports t) i \<noteq> None) ts", simp_all only: option.simps)+
  have "omap_get (tl_hints t) i \<noteq> Some (int n)" using n(1) [unfolded find_None_iff] assms(2,3) by blast
  moreover have "\<not> (case omap_get (tl_hints t) i of None \<Rightarrow> True | Some h \<Rightarrow> h < int n)"
    using n(2) [unfolded find_None_iff] assms(2,3) by blast
  ultimately show ?thesis by (cases "omap_get (tl_hints t) i") auto
qed

lemma TL_seek_ends:
  assumes "tl_version t \<le> 31" "ts \<noteq> []" "\<forall>i \<in> set ts. omap_get (tl_transports t) i \<noteq> None"
    and "tl_filling t secs cur b" "6 \<le> bd_remain b"
  shows "\<exists>i b' secs' cur'. TL_seek t ts b = Some (i, b') \<and> i \<in> set ts \<and> tl_filling t secs' cur' b' \<and> 6 \<le> bd_remain b' \<and>
    written secs' cur' = written secs cur \<and> described secs' cur' = described secs cur \<and> (b' = b \<and> cur' = cur \<or> snd cur' = [])"
  using assms(4,5)
proof (induction "nat (the (omap_get (tl_hints t) (hd ts)) - int (bd_number b))" arbitrary: secs cur b rule: less_induct)
  case less
  show ?case
  proof (cases "getNextTransport t ts (bd_number b)")
    case (Some i)
    then have "TL_seek t ts b = Some (i, b)" by (simp add: TL_seek.simps)
    then show ?thesis using Some less.prems getNextTransport_member by blast
  next
    case None
    then have e: "TL_seek t ts b = TL_seek t ts (TL_addSection_loop t b)" by (subst TL_seek.simps) simp
    note a = TL_addSection_loop_filling [OF less.prems(1) assms(1)]
    have n: "bd_number (TL_addSection_loop t b) = bd_number b + 1"
      by (simp add: TL_addSection_loop_def TL_addSection_def Let_def)
    have "hd ts \<in> set ts" using assms(2) by simp
    then obtain h where "omap_get (tl_hints t) (hd ts) = Some h" "int (bd_number b) < h"
      using getNextTransport_None [OF None] assms(3) by blast
    then have "nat (the (omap_get (tl_hints t) (hd ts)) - int (bd_number (TL_addSection_loop t b))) <
        nat (the (omap_get (tl_hints t) (hd ts)) - int (bd_number b))" by (simp add: n)
    from less.hyps [OF this a(1)] a(2) obtain i b' secs' cur' where
      r: "TL_seek t ts (TL_addSection_loop t b) = Some (i, b')" "i \<in> set ts" "tl_filling t secs' cur' b'" "6 \<le> bd_remain b'"
        "written secs' cur' = written secs cur" "described secs' cur' = described secs cur"
        "b' = TL_addSection_loop t b \<and> cur' = ([], []) \<or> snd cur' = []" by auto
    then have "snd cur' = []" by auto
    then show ?thesis using r(2-6) unfolding e r(1)
      by (intro exI [of _ i] exI [of _ b'] exI [of _ secs'] exI [of _ cur']) simp
  qed
qed

text \<open>The transports that are not waiting any more are written, completely and in order.\<close>

definition keys_of :: "(TransportStreamId \<times> DescriptorList) list \<Rightarrow> TransportStreamId set" where
  "keys_of m = fst ` set m"

definition waiting :: "TransportList \<Rightarrow> TransportStreamId list \<Rightarrow> piece list \<Rightarrow> bool" where
  "waiting t ts ps \<longleftrightarrow> distinct ts \<and> set ts \<subseteq> keys_of (tl_transports t) \<and>
     fst ` set ps = keys_of (tl_transports t) - set ts \<and>
     (\<forall>i dl. omap_get (tl_transports t) i = Some dl \<and> i \<notin> set ts \<longrightarrow> gather i ps = dl)"

lemma omap_get_key: "omap_inv m \<Longrightarrow> i \<in> keys_of m \<longleftrightarrow> omap_get m i \<noteq> None"
  by (force simp: keys_of_def omap_get_member)

lemma waiting_start: "omap_inv (tl_transports t) \<Longrightarrow> waiting t (map fst (tl_transports t)) []"
  by (auto simp: waiting_def keys_of_def omap_inv_def omap_get_def dest!: map_of_SomeD intro: rev_image_eqI)

lemma waiting_push_back:
  "waiting t ts ps \<Longrightarrow> i \<in> set ts \<Longrightarrow> waiting t (insort i (remove1 i ts)) ps"
  by (simp add: waiting_def set_insort_key distinct_insort insert_absorb)

lemma waiting_written:
  assumes w: "waiting t ts ps" and i: "i \<in> set ts" and dl: "omap_get (tl_transports t) i = Some dl"
    and qs: "qs \<noteq> []" "\<forall>p \<in> set qs. fst p = i" "concat (map snd qs) = dl"
  shows "waiting t (remove1 i ts) (ps @ qs)"
proof -
  have f: "fst ` set qs = {i}" using qs(1,2) by (cases qs) auto
  have s: "set (remove1 i ts) = set ts - {i}" using w by (simp add: waiting_def)
  have "i \<notin> fst ` set ps" using w i by (simp add: waiting_def)
  then have "gather i (ps @ qs) = dl" using gather_other gather_same qs(2,3) by simp
  moreover have "gather j (ps @ qs) = gather j ps" if "j \<noteq> i" for j using gather_other [of j qs] f that by simp
  ultimately have "gather j (ps @ qs) = v" if "omap_get (tl_transports t) j = Some v" "j \<notin> set (remove1 i ts)" for j v
    using that w dl s unfolding waiting_def by (cases "j = i") (simp, blast)
  moreover have "fst ` set (ps @ qs) = keys_of (tl_transports t) - set (remove1 i ts)"
    using w i f s by (auto simp: waiting_def image_Un)
  ultimately show ?thesis using w s by (auto simp: waiting_def)
qed

text \<open>The loop over the transports ends for all hints.\<close>

definition transports_end :: "TransportList \<Rightarrow> DescElement list \<Rightarrow> LoopBuilder option \<Rightarrow> bool" where
  "transports_end t ds r \<longleftrightarrow> (\<exists>secs cur b. r = Some b \<and> tl_filling t secs cur b \<and> described secs cur = ds \<and> waiting t [] (written secs cur))"

lemma tl_filling_begun:
  assumes "tl_filling t secs cur b"
  shows "length (bd_data b) > bd_tsll b + 2 \<longleftrightarrow> snd cur \<noteq> []"
proof -
  have "length (bd_data b) = bd_tsll b + 2 + length (pieces_bytes (snd cur))"
    using assms by (simp add: tl_filling_def binarySize_eq)
  then show ?thesis by (cases "snd cur") (simp_all add: length_transport_bytes)
qed

lemma TL_put_transports_ends:
  assumes t: "tl_version t \<le> 31" "omap_inv (tl_transports t)" "\<forall>e \<in> set (tl_transports t). dl_wf (snd e)"
    and "tl_filling t secs cur b" "waiting t ts (written secs cur)" "described secs cur = ds"
  shows "transports_end t ds (TL_put_transports t ts b)"
  using assms(4-6)
proof (induction "2 * length ts + (if snd cur = [] then 0 else 1)" arbitrary: ts secs cur b rule: less_induct)
  case less
  show ?case
  proof (cases "ts = []")
    case True
    then have "TL_put_transports t ts b = Some b" by (subst TL_put_transports.simps) simp
    then show ?thesis unfolding transports_end_def using less.prems True by (intro exI [of _ secs] exI [of _ cur] exI [of _ b]) simp
  next
    case False
    note False' = this
    define b1 where "b1 = (if bd_remain b < 6 then TL_addSection_loop t b else b)"
    obtain secs1 cur1 where f1: "tl_filling t secs1 cur1 b1" "6 \<le> bd_remain b1" "written secs1 cur1 = written secs cur"
        "described secs1 cur1 = ds" "cur1 = cur \<or> snd cur1 = []"
    proof (cases "bd_remain b < 6")
      case True
      with TL_addSection_loop_filling [OF less.prems(1) t(1)] less.prems(3)
      show ?thesis by (intro that [of "secs @ [cur]" "([], [])"]) (simp_all add: b1_def)
    next
      case False
      with less.prems show ?thesis by (intro that [of secs cur]) (simp_all add: b1_def)
    qed
    have g: "\<forall>i \<in> set ts. omap_get (tl_transports t) i \<noteq> None"
      using less.prems(2) omap_get_key [OF t(2)] unfolding waiting_def by blast
    from TL_seek_ends [OF t(1) False g f1(1,2)] obtain i b2 secs2 cur2 where
      s: "TL_seek t ts b1 = Some (i, b2)" "i \<in> set ts" and f2: "tl_filling t secs2 cur2 b2" "6 \<le> bd_remain b2"
        "written secs2 cur2 = written secs cur" "described secs2 cur2 = ds" "cur2 = cur \<or> snd cur2 = []"
      using f1(3-5) by metis
    obtain dl where dl: "omap_get (tl_transports t) i = Some dl" using g s(2) by auto
    then have wf: "dl_wf dl" using t(2,3) omap_get_member by fastforce
    define c where "c \<longleftrightarrow> length (bd_data b2) > bd_tsll b2 + 2 \<and> 6 + binarySize dl > bd_remain b2"
    have step: "TL_put_transports t ts b = (if c then TL_put_transports t (insort i (remove1 i ts)) (TL_addSection_loop t b2)
        else Option.bind (TL_put_transport t i dl 0 b2) (TL_put_transports t (remove1 i ts)))"
      by (subst TL_put_transports.simps) (simp add: False b1_def [symmetric] s(1) dl c_def Let_def)
    have l: "length (remove1 i ts) = length ts - 1" "0 < length ts" using s(2) False by (simp_all add: length_remove1)
    show ?thesis
    proof (cases c)
      case True
      then have "snd cur2 \<noteq> []" using tl_filling_begun [OF f2(1)] by (simp add: c_def)
      then have "snd cur \<noteq> []" using f2(5) by auto
      moreover have "waiting t (insort i (remove1 i ts)) (written (secs2 @ [cur2]) ([], []))"
        using waiting_push_back [OF less.prems(2) s(2)] f2(3) by simp
      moreover have "2 * length (insort i (remove1 i ts)) < 2 * length ts + (if snd cur = [] then 0 else 1)"
        using l calculation(1) by (simp add: length_insort)
      ultimately show ?thesis
        using less.hyps [of "insort i (remove1 i ts)" "([], [])" "secs2 @ [cur2]"] TL_addSection_loop_filling [OF f2(1) t(1)] f2(4) l True
        by (simp add: step length_insort)
    next
      case False
      from TL_put_transport_ends [OF wf t(1) f2(1,2), of i] obtain secs3 cur3 b3 ps where
        r: "TL_put_transport t i dl 0 b2 = Some b3" "tl_filling t secs3 cur3 b3" "written secs3 cur3 = written secs2 cur2 @ ps"
          "described secs3 cur3 = described secs2 cur2" "ps \<noteq> []" "\<forall>p \<in> set ps. fst p = i" "concat (map snd ps) = dl"
        unfolding transport_written_def by blast
      have "waiting t (remove1 i ts) (written secs3 cur3)"
        using waiting_written [OF less.prems(2) s(2) dl r(5-7)] r(3) f2(3) by simp
      moreover have "length ts = Suc (length (remove1 i ts))" using s(2) False' by (simp add: length_remove1)
      then have "2 * length (remove1 i ts) + (if snd cur3 = [] then 0 else 1) < 2 * length ts + (if snd cur = [] then 0 else 1)"
        by simp
      ultimately show ?thesis
        using less.hyps [of "remove1 i ts" cur3 secs3 b3] r(1,2,4) f2(4) l False by (simp add: step)
    qed
  qed
qed

section \<open>Valid tables\<close>

definition tl_ok :: "TransportList \<Rightarrow> bool" where
  "tl_ok t \<longleftrightarrow> tl_valid t \<and> tl_version t \<le> 31 \<and> dl_wf (tl_descs t) \<and> pds_ok (tl_descs t) \<and> omap_inv (tl_transports t) \<and>
     (\<forall>e \<in> set (tl_transports t). dl_wf (snd e) \<and> pds_ok (snd e))"

lemma waiting_pieces:
  assumes t: "tl_ok t" and w: "waiting t [] ps"
  shows "pieces_ok ps" and "gathered ps m \<Longrightarrow> m = tl_transports t"
proof -
  have inv: "omap_inv (tl_transports t)" using t by (simp add: tl_ok_def)
  have g: "omap_get (tl_transports t) i = (if i \<in> fst ` set ps then Some (gather i ps) else None)" for i
    using w omap_get_key [OF inv, of i] by (auto simp: waiting_def)
  have e: "dl_wf (gather i ps) \<and> pds_ok (gather i ps)" for i
  proof (cases "i \<in> fst ` set ps")
    case True
    then have "omap_get (tl_transports t) i = Some (gather i ps)" using g by simp
    then have "(i, gather i ps) \<in> set (tl_transports t)" unfolding omap_get_member [OF inv] .
    then show ?thesis using t by (auto simp: tl_ok_def)
  next
    case False
    then show ?thesis by (simp add: gather_other dl_wf_def pds_ok_def)
  qed
  have "set (snd p) \<subseteq> set (gather (fst p) ps)" if "p \<in> set ps" for p using that by (auto simp: gather_def)
  then show "pieces_ok ps" using e by (fastforce simp: pieces_ok_def dl_wf_def)
  show "m = tl_transports t" if m: "gathered ps m"
    by (rule omap_ext) (use m inv g in \<open>simp_all add: gathered_def\<close>)
qed

lemma TL_build_ends:
  assumes "tl_ok t"
  shows "\<exists>secs b. TL_build t = Some b \<and> tl_closed t secs b \<and> secs \<noteq> [] \<and> all_descs secs = tl_descs t \<and> waiting t [] (all_pieces secs)"
proof -
  have t: "tl_version t \<le> 31" "dl_wf (tl_descs t)" "omap_inv (tl_transports t)" "\<forall>e \<in> set (tl_transports t). dl_wf (snd e)"
    using assms by (simp_all add: tl_ok_def)
  have "tl_closed t [] Builder_new" by (simp add: tl_closed_def Builder_new_def has_payloads_clear)
  moreover have "bd_data Builder_new = []" "bd_remain Builder_new = 1012" by (simp_all add: Builder_new_def)
  ultimately obtain secs ds b where b: "TL_put_descs t 0 Builder_new = Some b" "tl_closed t secs b" "all_descs secs @ ds = tl_descs t"
      "all_pieces secs = []" "bd_data b = len_field (binarySize ds) @ dl_bytes ds" "length (bd_data b) + bd_remain b = 1012" "2 \<le> bd_remain b"
    using TL_put_descs_ends [of t "[]" Builder_new 0] t(1,2) by auto
  define b1 where "b1 = \<lparr>bd_table = bd_table b, bd_number = bd_number b, bd_data = bd_data b @ put16 0xF000,
                        bd_remain = bd_remain b - 2, bd_tsll = length (bd_data b)\<rparr>"
  have l: "length (bd_data b) = 2 + binarySize ds" by (simp add: b(5) binarySize_eq)
  have "tl_filling t secs (ds, []) b1"
    using b(2,6,7) l by (simp add: b1_def tl_filling_def tl_closed_def) (simp add: b(5))
  moreover have "waiting t (map fst (tl_transports t)) (written secs (ds, []))" using waiting_start [OF t(3)] b(4) by simp
  ultimately have "transports_end t (tl_descs t) (TL_put_transports t (map fst (tl_transports t)) b1)"
    by (rule TL_put_transports_ends [OF t(1,3,4)]) (simp add: b(3))
  then obtain secs' cur b2 where r: "TL_put_transports t (map fst (tl_transports t)) b1 = Some b2" "tl_filling t secs' cur b2"
      "described secs' cur = tl_descs t" "waiting t [] (written secs' cur)"
    unfolding transports_end_def by blast
  have "TL_build t = Some (TL_addSection_loop t b2)" unfolding TL_build_def using b(1) r(1) by (simp add: b1_def Let_def)
  moreover have "tl_closed t (secs' @ [cur]) (TL_addSection_loop t b2)"
    using TL_addSection_loop_filling(1) [OF r(2) t(1)] by (simp add: tl_filling_def)
  ultimately show ?thesis using r(3,4) by (intro exI [of _ "secs' @ [cur]"] exI [of _ "TL_addSection_loop t b2"]) simp
qed

lemma TL_read_sections_built:
  assumes ok: "tl_ok t" and c: "tl_closed t secs b" "secs \<noteq> []" "length secs \<le> 256"
    and d: "all_descs secs = tl_descs t" "waiting t [] (all_pieces secs)"
    and q: "tl_table_id q = tl_table_id t" "tl_descs q = []" "tl_transports q = []"
  shows "TL_read_sections (present (tb_sections (bd_table b))) q = (True, t\<lparr>tl_valid := tl_valid q, tl_hints := tl_hints q\<rparr>)"
proof -
  have h: "has_payloads (tl_table_id t) (tl_tid_ext t) (tl_version t) (tl_is_current t) (map tsection_bytes secs) (bd_table b)"
    using c by (simp add: tl_closed_def)
  define ss where "ss = present (tb_sections (bd_table b))"
  have p: "map section_payload ss = map tsection_bytes secs" using has_payloads_present(1) [OF h] by (simp add: ss_def)
  then have "ss \<noteq> []" using c(2) by auto
  have "\<exists>m. TL_read_sections ss q = (True, if ss = [] then q else q\<lparr>tl_version := tl_version t, tl_is_current := tl_is_current t,
      tl_tid_ext := tl_tid_ext t, tl_descs := tl_descs q @ all_descs secs, tl_transports := m\<rparr>) \<and>
      (ss \<noteq> [] \<longrightarrow> gathered ([] @ all_pieces secs) m)"
  proof (rule TL_read_sections_pieces [OF p])
    show "\<forall>c \<in> set secs. length (tsection_bytes c) \<le> 1012" using c(1) by (simp add: tl_closed_def)
    show "\<forall>s \<in> set ss. tableId s = tl_table_id q \<and> version_of s = tl_version t \<and> isCurrent s = tl_is_current t \<and>
        tableIdExtension s = tl_tid_ext t"
      using has_payloads_present(2) [OF h] q(1) by (simp add: ss_def section_at_def)
    show "dl_wf (all_descs secs)" "pds_scan (last_pds 0 (tl_descs q)) (all_descs secs)"
      using ok d(1) q(2) by (simp_all add: tl_ok_def pds_ok_def)
    show "gathered [] (tl_transports q)" using q(3) gathered_Nil by simp
    show "pieces_ok ([] @ all_pieces secs)" using waiting_pieces(1) [OF ok d(2)] by simp
  qed
  then obtain m where m: "TL_read_sections ss q = (True, q\<lparr>tl_version := tl_version t, tl_is_current := tl_is_current t,
      tl_tid_ext := tl_tid_ext t, tl_descs := all_descs secs, tl_transports := m\<rparr>)" "gathered (all_pieces secs) m"
    using \<open>ss \<noteq> []\<close> q(2) by auto
  have "m = tl_transports t" using waiting_pieces(2) [OF ok d(2) m(2)] .
  then show ?thesis using m(1) d(1) q(1) by (simp add: ss_def)
qed

section \<open>Properties\<close>

text \<open>C11. The serialization of a network information or bouquet association table ends, whatever the lists of
  descriptors and the section hints are, with a descriptor list split between sections where one section is not
  enough. Deserializing the result gives the table back, except for the hints, as long as 256 sections are enough.\<close>

theorem nit_roundtrip:
  assumes "tl_ok t" and "tl_table_id q = tl_table_id t \<or> {tl_table_id q, tl_table_id t} \<subseteq> {0x40, 0x41}"
  shows "\<exists>b. TL_build t = Some b \<and> TL_serialize t = Some (bd_table b) \<and>
    (bd_number b \<le> 256 \<longrightarrow> tb_valid (bd_table b) \<and> TL_deserialize (bd_table b) q = t\<lparr>tl_hints := []\<rparr>)"
proof -
  obtain secs b where b: "TL_build t = Some b" "tl_closed t secs b" "secs \<noteq> []" "all_descs secs = tl_descs t" "waiting t [] (all_pieces secs)"
    using TL_build_ends [OF assms(1)] by blast
  have v: "tl_valid t" using assms(1) by (simp add: tl_ok_def)
  have "tb_valid (bd_table b) \<and> TL_deserialize (bd_table b) q = t\<lparr>tl_hints := []\<rparr>" if "bd_number b \<le> 256"
  proof -
    have n: "length secs \<le> 256" using that b(2) by (simp add: tl_closed_def)
    then have h: "has_payloads (tl_table_id t) (tl_tid_ext t) (tl_version t) (tl_is_current t) (map tsection_bytes secs) (bd_table b)"
      using b(2) by (simp add: tl_closed_def)
    then have "tb_valid (bd_table b)" "tb_tid (bd_table b) = tl_table_id t" using b(3) by (simp_all add: has_payloads_def)
    moreover define q1 where "q1 = q\<lparr>tl_valid := False, tl_tid_ext := 0xFFFF, tl_descs := [], tl_transports := [], tl_hints := [],
        tl_table_id := tl_table_id t\<rparr>"
    have r: "TL_read_sections (present (tb_sections (bd_table b))) q1 = (True, t\<lparr>tl_valid := False, tl_hints := []\<rparr>)"
      using TL_read_sections_built [OF assms(1) b(2,3) n b(4,5), of q1] by (simp add: q1_def)
    have "TL_deserialize (bd_table b) q = (case TL_read_sections (present (tb_sections (bd_table b))) q1 of (ok, t') \<Rightarrow> t'\<lparr>tl_valid := ok\<rparr>)"
      if "tb_valid (bd_table b)" "tb_tid (bd_table b) = tl_table_id t"
      using that assms(2) by (cases q) (auto simp: TL_deserialize_def Let_def q1_def)
    ultimately show ?thesis using v by (simp add: r)
  qed
  then show ?thesis using b(1) v by (simp add: TL_serialize_def)
qed

definition sample_nit :: TransportList where
  "sample_nit = \<lparr>tl_valid = True, tl_table_id = 0x40, tl_tid_ext = 5, tl_version = 3, tl_is_current = True, tl_descs = sample_list,
     tl_transports = [(TransportStreamId 1 2, sample_list), (TransportStreamId 3 2, [])], tl_hints = [(TransportStreamId 1 2, 4)]\<rparr>"

lemma sample_nit_ok: "tl_ok sample_nit"
  using sample_list_wf sample_list_ok
  by (simp add: tl_ok_def sample_nit_def omap_inv_def less_eq_TransportStreamId_def less_TransportStreamId_def normalized_def)
    (simp add: dl_wf_def pds_ok_def)

lemma sample_nit_sections: "map_option bd_number (TL_build sample_nit) = Some 5"
  by code_simp

theorem nit_roundtrip_witness:
  "\<exists>table. TL_serialize sample_nit = Some table \<and> TL_deserialize table sample_nit = sample_nit\<lparr>tl_hints := []\<rparr>"
proof -
  obtain b where b: "TL_build sample_nit = Some b" "TL_serialize sample_nit = Some (bd_table b)"
      "bd_number b \<le> 256 \<longrightarrow> TL_deserialize (bd_table b) sample_nit = sample_nit\<lparr>tl_hints := []\<rparr>"
    using nit_roundtrip [OF sample_nit_ok, of sample_nit] by blast
  have "bd_number b = 5" using sample_nit_sections b(1) by simp
  then show ?thesis using b(2,3) by simp
qed

end
