(* ===== verification/Ts_TLV.thy ===== *)
theory Ts_TLV
  imports Ts_Desc Ts_Map
begin

text \<open>
  Messages in tag-length-value form, the base of the DVB SimulCrypt protocols: \<open>tstlvAnalyzer.cpp\<close>,
  \<open>tstlvProtocol.h\<close>, \<open>tstlvMessageFactory.cpp\<close>, \<open>tstlvMessageFactoryTemplate.h\<close>, \<open>tstlvSerializer.cpp\<close> and
  \<open>tstlvMessage.cpp\<close>. A pointer into a message is an offset. \<open>DeserializationInternalError\<close>, the only exception, is \<^const>\<open>None\<close>.

  The lemmas take a buffer apart into fields and a malformed rest (\<open>tlv_split\<close>), follow the analyzer and the loop over the parameters
  on it, and give the result of the analysis in all cases (\<open>analyzeMessage_fields\<close>, \<open>analyzeMessage_bad_field\<close>); the accessors of the
  factory are described by the values of the fields (\<open>values_simps\<close>).
\<close>

section \<open>Analyzer\<close>

record Analyzer =
  an_data :: "byte list" \<comment> \<open>from \<open>_base\<close> to \<open>_end\<close>\<close>
  an_eom :: bool
  an_valid :: bool
  an_tlv_addr :: nat
  an_tlv_size :: nat
  an_tag :: u16
  an_value_addr :: nat
  an_length :: u16

definition Analyzer_next :: "Analyzer \<Rightarrow> Analyzer" where
  "Analyzer_next a =
     (if an_eom a \<or> \<not> an_valid a then a
      else
        let addr = an_value_addr a + unat (an_length a); a1 = a\<lparr>an_tlv_addr := addr\<rparr>; last_addr = length (an_data a)
        in if addr = last_addr then a1\<lparr>an_eom := True\<rparr>
           else if addr + 2 + 2 > last_addr then a1\<lparr>an_eom := True, an_valid := False\<rparr>
           else
             let len = GetUInt16 (an_data a) (addr + 2);
                 a2 = a1\<lparr>an_tag := GetUInt16 (an_data a) addr, an_length := len, an_value_addr := addr + 4, an_tlv_size := 4 + unat len\<rparr>
             in if addr + 4 + unat len > last_addr then a2\<lparr>an_eom := True, an_valid := False\<rparr> else a2)"

definition Analyzer_new :: "byte list \<Rightarrow> Analyzer" where
  "Analyzer_new data = Analyzer_next \<lparr>an_data = data, an_eom = (length data = 0), an_valid = True, an_tlv_addr = 0,
     an_tlv_size = 0, an_tag = 0, an_value_addr = 0, an_length = 0\<rparr>"

text \<open>The iteration over a message: what is left decreases while it has not ended.\<close>

definition an_left :: "Analyzer \<Rightarrow> nat" where
  "an_left a = length (an_data a) - (an_value_addr a + unat (an_length a))"

lemma Analyzer_next_data [simp]: "an_data (Analyzer_next a) = an_data a"
  by (simp add: Analyzer_next_def Let_def)

lemma Analyzer_next_left:
  assumes "\<not> an_eom (Analyzer_next a)" and "an_valid a" "\<not> an_eom a"
  shows "an_left (Analyzer_next a) < an_left a"
proof -
  let ?addr = "an_value_addr a + unat (an_length a)"
  have "?addr + 4 \<le> length (an_data a)" using assms by (auto simp: Analyzer_next_def Let_def split: if_splits)
  moreover have "an_value_addr (Analyzer_next a) = ?addr + 4"
    using assms by (auto simp: Analyzer_next_def Let_def split: if_splits)
  ultimately show ?thesis by (simp add: an_left_def)
qed

lemma Analyzer_new_data [simp]: "an_data (Analyzer_new data) = data"
  by (simp add: Analyzer_new_def)

lemma Analyzer_new_size:
  assumes "\<not> an_eom (Analyzer_new data)" "an_valid (Analyzer_new data)"
  shows "an_value_addr (Analyzer_new data) = 4" "4 + unat (an_length (Analyzer_new data)) \<le> length data"
  using assms by (auto simp: Analyzer_new_def Analyzer_next_def Let_def split: if_splits)

lemma Analyzer_new_payload:
  assumes "\<not> an_eom (Analyzer_new data)" "an_valid (Analyzer_new data)" "length data \<le> n"
  shows "Suc (2 * min (length data - an_value_addr (Analyzer_new data)) (unat (an_length (Analyzer_new data)))) < 2 * n"
  using Analyzer_new_size [OF assms(1,2)] assms(3) by simp

lemmas Analyzer_payloads = Analyzer_new_payload
  Analyzer_new_payload [where data = "drop (Suc 0) msg" and n = "length msg" for msg, simplified]

section \<open>Protocol\<close>

text \<open>The parameters of each command, in the order of their tags. A compound parameter is described by a protocol.\<close>

datatype Protocol =
    Protocol (pr_has_version: bool) (pr_version: byte) (pr_commands: "(u16 \<times> (u16 \<times> Parameter) list) list")
  and Parameter =
    Parameter (pp_compound: "Protocol option") (pp_min_size: nat) (pp_max_size: nat) (pp_min_count: nat) (pp_max_count: nat)

definition Protocol_new :: "byte \<Rightarrow> Protocol" where
  "Protocol_new v = Protocol True v []"

definition add_parameter :: "u16 \<Rightarrow> u16 \<Rightarrow> Parameter \<Rightarrow> Protocol \<Rightarrow> Protocol" where
  "add_parameter cmd_tag param_tag d p =
     (let params = (case omap_get (pr_commands p) cmd_tag of None \<Rightarrow> [] | Some ps \<Rightarrow> ps)
      in Protocol (pr_has_version p) (pr_version p) (omap_put cmd_tag (omap_put param_tag d params) (pr_commands p)))"

definition pr_add :: "u16 \<Rightarrow> u16 \<Rightarrow> nat \<Rightarrow> nat \<Rightarrow> nat \<Rightarrow> nat \<Rightarrow> Protocol \<Rightarrow> Protocol" where
  "pr_add cmd_tag param_tag min_size max_size min_count max_count =
     add_parameter cmd_tag param_tag (Parameter None min_size max_size min_count max_count)"

definition pr_add_compound :: "u16 \<Rightarrow> u16 \<Rightarrow> Protocol \<Rightarrow> nat \<Rightarrow> nat \<Rightarrow> Protocol \<Rightarrow> Protocol" where
  "pr_add_compound cmd_tag param_tag compound min_count max_count =
     add_parameter cmd_tag param_tag (Parameter (Some compound) 0 0 min_count max_count)"

section \<open>Message factory\<close>

datatype tlv_error =
    TLV_OK | UnsupportedVersion | InvalidMessage | UnknownCommandTag | UnknownParameterTag | InvalidParameterLength
  | InvalidParameterCount | MissingParameter

datatype MessageFactory =
    MessageFactory (mf_msg: "byte list") (mf_error: tlv_error) (mf_info: u16) (mf_is_offset: bool) (mf_version: byte)
      (mf_tag: u16) (mf_params: "(u16 \<times> ExtParameter) list")
  and ExtParameter =
    ExtParameter (ep_tlv_addr: nat) (ep_tlv_size: nat) (ep_addr: nat) (ep_length: nat) (ep_compound: "MessageFactory option")

text \<open>A \<open>std::multimap\<close>: an element is inserted after those with the same key.\<close>

definition mm_insert :: "'k::linorder \<Rightarrow> 'v \<Rightarrow> ('k \<times> 'v) list \<Rightarrow> ('k \<times> 'v) list" where
  "mm_insert k v m = takeWhile (\<lambda>e. fst e \<le> k) m @ (k, v) # dropWhile (\<lambda>e. fst e \<le> k) m"

definition mm_range :: "('k \<times> 'v) list \<Rightarrow> 'k \<Rightarrow> 'v list" where
  "mm_range m k = map snd (filter (\<lambda>e. fst e = k) m)"

text \<open>The check of the number of occurrences, in the order of the tags.\<close>

fun check_counts :: "(u16 \<times> Parameter) list \<Rightarrow> (u16 \<times> ExtParameter) list \<Rightarrow> (tlv_error \<times> u16) option" where
  "check_counts [] params = None"
| "check_counts ((tag, d) # ds) params =
     (let count = length (mm_range params tag)
      in if count < pp_min_count d \<or> count > pp_max_count d
         then Some (if count = 0 \<and> pp_min_count d > 0 then MissingParameter else InvalidParameterCount, tag)
         else check_counts ds params)"

text \<open>\<open>analyzeMessage\<close> and its loop over the parameters. \<open>off0\<close> is the offset of the parameters in the message.
  The second condition of the loop never holds, because an invalid field is also the end of the message.\<close>

function analyzeMessage :: "byte list \<Rightarrow> Protocol \<Rightarrow> MessageFactory"
  and analyze_params :: "(u16 \<times> Parameter) list \<Rightarrow> nat \<Rightarrow> Analyzer \<Rightarrow> (u16 \<times> ExtParameter) list \<Rightarrow>
    (tlv_error \<times> u16 \<times> bool) \<times> (u16 \<times> ExtParameter) list \<times> Analyzer" where
  "analyzeMessage msg p =
     (let header_size = (if pr_has_version p then 1 else 0);
          version = (if pr_has_version p then GetUInt8 msg 0 else 0)
      in if pr_has_version p \<and> length msg < 1 then MessageFactory msg InvalidMessage 0 True 0 0 []
         else if pr_has_version p \<and> version \<noteq> pr_version p then MessageFactory msg UnsupportedVersion 0 True version 0 []
         else
           let cmd_anl = Analyzer_new (drop header_size msg)
           in if an_eom cmd_anl \<or> \<not> an_valid cmd_anl
              then MessageFactory msg InvalidMessage (of_nat header_size) True version 0 []
              else case omap_get (pr_commands p) (an_tag cmd_anl) of
                None \<Rightarrow> MessageFactory msg UnknownCommandTag (of_nat header_size) True version (an_tag cmd_anl) []
              | Some params \<Rightarrow>
                  let off0 = header_size + an_value_addr cmd_anl;
                      (err, ps, anl) = analyze_params params off0
                        (Analyzer_new (take (unat (an_length cmd_anl)) (drop (an_value_addr cmd_anl) (an_data cmd_anl)))) []
                  in if fst err \<noteq> TLV_OK
                     then MessageFactory msg (fst err) (fst (snd err)) (snd (snd err)) version (an_tag cmd_anl) ps
                     else if \<not> an_valid anl
                     then MessageFactory msg InvalidMessage (of_nat (off0 + an_tlv_addr anl)) True version (an_tag cmd_anl) ps
                     else case check_counts params ps of
                            Some (st, tag) \<Rightarrow> MessageFactory msg st tag False version (an_tag cmd_anl) ps
                          | None \<Rightarrow> MessageFactory msg TLV_OK 0 False version (an_tag cmd_anl) ps)"
| "analyze_params params off0 anl ps =
     (if an_eom anl then ((TLV_OK, 0, False), ps, anl)
      else if \<not> an_valid anl then ((TLV_OK, 0, False), ps, anl)
      else
        let tag = an_tag anl; value_length = unat (an_length anl); offset = (of_nat (off0 + an_tlv_addr anl) :: u16);
            field = take (an_tlv_size anl) (drop (an_tlv_addr anl) (an_data anl));
            store = (\<lambda>c. mm_insert tag (ExtParameter (off0 + an_tlv_addr anl) (an_tlv_size anl) (off0 + an_value_addr anl) value_length c) ps)
        in case omap_get params tag of
             None \<Rightarrow> ((UnknownParameterTag, offset, True), ps, anl)
           | Some d \<Rightarrow>
               (case pp_compound d of
                  Some q \<Rightarrow>
                    let sub = analyzeMessage field q
                    in if mf_error sub \<noteq> TLV_OK
                       then ((mf_error sub, if mf_is_offset sub then mf_info sub + offset else mf_info sub, mf_is_offset sub),
                             store (Some sub), anl)
                       else analyze_params params off0 (Analyzer_next anl) (store (Some sub))
                | None \<Rightarrow>
                    if value_length < pp_min_size d \<or> value_length > pp_max_size d
                    then ((InvalidParameterLength, offset, True), ps, anl)
                    else analyze_params params off0 (Analyzer_next anl) (store None)))"
  by pat_completeness auto
termination
proof (relation "measures [\<lambda>x. case x of Inl (msg, p) \<Rightarrow> 2 * length msg | Inr (params, off0, anl, ps) \<Rightarrow> 2 * length (an_data anl) + 1,
    \<lambda>x. case x of Inl (msg, p) \<Rightarrow> 0 | Inr (params, off0, anl, ps) \<Rightarrow> if an_eom anl then 0 else Suc (an_left anl)]")
qed (auto intro!: Analyzer_payloads Analyzer_next_left)

declare analyzeMessage.simps [simp del] analyze_params.simps [simp del]

text \<open>Access to the parameters.\<close>

definition mf_count :: "MessageFactory \<Rightarrow> u16 \<Rightarrow> nat" where
  "mf_count mf tag = length (mm_range (mf_params mf) tag)"

definition mf_find :: "MessageFactory \<Rightarrow> u16 \<Rightarrow> ExtParameter option" where
  "mf_find mf tag = (case mm_range (mf_params mf) tag of [] \<Rightarrow> None | p # _ \<Rightarrow> Some p)"

definition mf_get_all :: "MessageFactory \<Rightarrow> u16 \<Rightarrow> ExtParameter list" where
  "mf_get_all mf tag = mm_range (mf_params mf) tag"

definition mf_value :: "MessageFactory \<Rightarrow> ExtParameter \<Rightarrow> byte list" where
  "mf_value mf p = take (ep_length p) (drop (ep_addr p) (mf_msg mf))"

definition checkParamSize :: "nat \<Rightarrow> ExtParameter \<Rightarrow> bool" where
  "checkParamSize expected p = (ep_length p = expected)"

definition mf_get :: "nat \<Rightarrow> (byte list \<Rightarrow> nat \<Rightarrow> 'a) \<Rightarrow> MessageFactory \<Rightarrow> u16 \<Rightarrow> 'a option" where
  "mf_get size_of GetInt mf tag =
     (case mf_find mf tag of None \<Rightarrow> None
      | Some p \<Rightarrow> if checkParamSize size_of p then Some (GetInt (mf_msg mf) (ep_addr p)) else None)"

definition get_uint8 :: "MessageFactory \<Rightarrow> u16 \<Rightarrow> byte option" where
  "get_uint8 = mf_get 1 GetUInt8"

definition get_uint16 :: "MessageFactory \<Rightarrow> u16 \<Rightarrow> u16 option" where
  "get_uint16 = mf_get 2 GetUInt16"

definition get_uint32 :: "MessageFactory \<Rightarrow> u16 \<Rightarrow> u32 option" where
  "get_uint32 = mf_get 4 GetUInt32"

definition get_bool :: "MessageFactory \<Rightarrow> u16 \<Rightarrow> bool option" where
  "get_bool mf tag = map_option (\<lambda>x. x \<noteq> 0) (get_uint8 mf tag)"

definition get_block :: "MessageFactory \<Rightarrow> u16 \<Rightarrow> byte list option" where
  "get_block mf tag = map_option (mf_value mf) (mf_find mf tag)"

definition get_uint16s :: "MessageFactory \<Rightarrow> u16 \<Rightarrow> u16 list option" where
  "get_uint16s mf tag =
     (if list_all (checkParamSize 2) (mf_get_all mf tag)
      then Some (map (\<lambda>p. GetUInt16 (mf_msg mf) (ep_addr p)) (mf_get_all mf tag)) else None)"

definition getCompound :: "MessageFactory \<Rightarrow> u16 \<Rightarrow> MessageFactory option" where
  "getCompound mf tag = Option.bind (mf_find mf tag) ep_compound"

section \<open>Serializer\<close>

text \<open>Copies of a serializer share the block, so a block that a copy has extended is assigned back.\<close>

record Serializer =
  sz_bb :: "byte list"
  sz_length_offset :: int

definition Serializer_new :: "byte list \<Rightarrow> Serializer" where
  "Serializer_new bb = \<lparr>sz_bb = bb, sz_length_offset = -1\<rparr>"

definition openTLV :: "u16 \<Rightarrow> Serializer \<Rightarrow> Serializer" where
  "openTLV tag z = z\<lparr>sz_bb := sz_bb z @ put16 tag @ put16 0, sz_length_offset := int (length (sz_bb z @ put16 tag))\<rparr>"

definition closeTLV :: "Serializer \<Rightarrow> Serializer" where
  "closeTLV z = z\<lparr>sz_bb := PutUInt16 (sz_bb z) (nat (sz_length_offset z)) (word_of_int (int (length (sz_bb z)) - sz_length_offset z - 2)),
     sz_length_offset := -1\<rparr>"

definition put32 :: "u32 \<Rightarrow> byte list" where
  "put32 v = [ucast (drop_bit 24 v), ucast (drop_bit 16 v), ucast (drop_bit 8 v), ucast v]"

definition append_bytes :: "byte list \<Rightarrow> Serializer \<Rightarrow> Serializer" where
  "append_bytes bs z = z\<lparr>sz_bb := sz_bb z @ bs\<rparr>"

definition put_block :: "u16 \<Rightarrow> byte list \<Rightarrow> Serializer \<Rightarrow> Serializer" where
  "put_block tag bl = append_bytes (put16 tag @ put16 (of_nat (length bl)) @ bl)"

definition put_uint8 :: "u16 \<Rightarrow> byte \<Rightarrow> Serializer \<Rightarrow> Serializer" where
  "put_uint8 tag i = append_bytes (put16 tag @ put16 1 @ [i])"

definition put_uint16 :: "u16 \<Rightarrow> u16 \<Rightarrow> Serializer \<Rightarrow> Serializer" where
  "put_uint16 tag i = append_bytes (put16 tag @ put16 2 @ put16 i)"

definition put_uint32 :: "u16 \<Rightarrow> u32 \<Rightarrow> Serializer \<Rightarrow> Serializer" where
  "put_uint32 tag i = append_bytes (put16 tag @ put16 4 @ put32 i)"

definition put_bool :: "u16 \<Rightarrow> bool \<Rightarrow> Serializer \<Rightarrow> Serializer" where
  "put_bool tag b = put_uint8 tag (if b then 1 else 0)"

definition put_uint16s :: "u16 \<Rightarrow> u16 list \<Rightarrow> Serializer \<Rightarrow> Serializer" where
  "put_uint16s tag vs = fold (put_uint16 tag) vs"

text \<open>\<open>Message::serialize\<close>; the parameters are serialized by the virtual method of the message.\<close>

definition Message_serialize :: "bool \<Rightarrow> byte \<Rightarrow> u16 \<Rightarrow> (Serializer \<Rightarrow> Serializer) \<Rightarrow> Serializer \<Rightarrow> Serializer" where
  "Message_serialize has_version version tag serializeParameters zer =
     (let z1 = (if has_version then append_bytes [version] zer else zer);
          pzer = closeTLV (serializeParameters (openTLV tag (Serializer_new (sz_bb z1))))
      in z1\<lparr>sz_bb := sz_bb pzer\<rparr>)"

section \<open>Fields\<close>

text \<open>A field is a tag and a value.\<close>

type_synonym field = "u16 \<times> byte list"

definition tlv_bytes :: "field \<Rightarrow> byte list" where
  "tlv_bytes f = put16 (fst f) @ put16 (of_nat (length (snd f))) @ snd f"

definition fields_bytes :: "field list \<Rightarrow> byte list" where
  "fields_bytes fs = concat (map tlv_bytes fs)"

lemma fields_bytes_simps [simp]:
  "fields_bytes [] = []" "fields_bytes (f # fs) = tlv_bytes f @ fields_bytes fs"
  "fields_bytes (fs @ gs) = fields_bytes fs @ fields_bytes gs"
  by (simp_all add: fields_bytes_def)

lemma length_tlv_bytes [simp]: "length (tlv_bytes f) = 4 + length (snd f)"
  by (simp add: tlv_bytes_def)

abbreviation short :: "field \<Rightarrow> bool" where
  "short f \<equiv> length (snd f) < 65536"

lemma fields_short: "length (fields_bytes fs) < 65540 \<Longrightarrow> \<forall>f \<in> set fs. short f"
  by (induction fs) auto

lemma unat_of_nat_u16: "n < 65536 \<Longrightarrow> unat (of_nat n :: u16) = n"
  by (simp add: unat_of_nat)

lemma tlv_bytes_tag: "GetUInt16 (pre @ tlv_bytes f @ rest) (length pre) = fst f"
  using GetUInt16_skip [of pre "tlv_bytes f @ rest" 0] by (simp add: tlv_bytes_def)

lemma tlv_bytes_length: "short f \<Longrightarrow> unat (GetUInt16 (pre @ tlv_bytes f @ rest) (length pre + 2)) = length (snd f)"
  using GetUInt16_skip [of "pre @ put16 (fst f)" "put16 (of_nat (length (snd f))) @ snd f @ rest" 0]
  by (simp add: tlv_bytes_def unat_of_nat_u16)

text \<open>What the analyzer cannot read.\<close>

definition malformed :: "byte list \<Rightarrow> bool" where
  "malformed r \<longleftrightarrow> r \<noteq> [] \<and> (length r < 4 \<or> length r < 4 + unat (GetUInt16 r 2))"

lemma put16_Get: "2 \<le> length r \<Longrightarrow> put16 (GetUInt16 r 0) @ drop 2 r = r"
proof -
  assume "2 \<le> length r"
  then obtain a b r' where "r = a # b # r'" by (metis Suc_le_length_iff numeral_2_eq_2)
  then show ?thesis using ucast_high_low_bytes [of a b] by (simp add: put16_def GetUInt16_def del: drop_bit_or)
qed

lemma tlv_split_one:
  assumes "data \<noteq> []" "\<not> malformed data"
  shows "\<exists>f rest. data = tlv_bytes f @ rest \<and> short f"
proof -
  define n where "n = unat (GetUInt16 data 2)"
  have l: "4 \<le> length data" "4 + n \<le> length data" using assms by (auto simp: malformed_def n_def)
  have n: "n < 65536" using unsigned_less [of "GetUInt16 data 2"] by (simp add: n_def)
  have t: "length (take n (drop 4 data)) = n" using l by simp
  have "put16 (GetUInt16 (drop 2 data) 0) @ drop 2 (drop 2 data) = drop 2 data" by (rule put16_Get) (use l in simp)
  moreover have "GetUInt16 (drop 2 data) 0 = of_nat n" using l by (simp add: GetUInt16_drop n_def)
  ultimately have "data = put16 (GetUInt16 data 0) @ put16 (of_nat n) @ drop 4 data"
    using put16_Get [of data] l by simp
  also have "drop 4 data = take n (drop 4 data) @ drop (4 + n) data" by (metis append_take_drop_id drop_drop add.commute)
  finally have "data = tlv_bytes (GetUInt16 data 0, take n (drop 4 data)) @ drop (4 + n) data"
    by (simp only: tlv_bytes_def fst_conv snd_conv t append_assoc)
  then show ?thesis using n l by (metis length_take min.cobounded2 order_le_less_trans snd_conv)
qed

text \<open>Every buffer is a list of fields and a rest that is empty or malformed.\<close>

lemma tlv_split:
  "\<exists>fs rest. data = fields_bytes fs @ rest \<and> (\<forall>f \<in> set fs. short f) \<and> (rest = [] \<or> malformed rest)"
proof (induction "length data" arbitrary: data rule: less_induct)
  case less
  show ?case
  proof (cases "data = [] \<or> malformed data")
    case True
    then show ?thesis by (intro exI [of _ "[]"] exI [of _ data]) auto
  next
    case False
    then obtain f r where f: "data = tlv_bytes f @ r" "short f" using tlv_split_one by blast
    then obtain fs rest where "r = fields_bytes fs @ rest" "\<forall>f \<in> set fs. short f" "rest = [] \<or> malformed rest"
      using less [of r] by auto
    then show ?thesis using f by (intro exI [of _ "f # fs"] exI [of _ rest]) simp
  qed
qed

section \<open>The analyzer on a list of fields\<close>

definition analyzer_at :: "byte list \<Rightarrow> field list \<Rightarrow> byte list \<Rightarrow> Analyzer \<Rightarrow> bool" where
  "analyzer_at pre fs rest a \<longleftrightarrow> an_data a = pre @ fields_bytes fs @ rest \<and> (rest = [] \<or> malformed rest) \<and> (\<forall>f \<in> set fs. short f) \<and>
     (case fs of [] \<Rightarrow> an_eom a \<and> an_valid a = (rest = []) \<and> an_tlv_addr a = length pre
      | f # _ \<Rightarrow> \<not> an_eom a \<and> an_valid a \<and> an_tlv_addr a = length pre \<and> an_tlv_size a = 4 + length (snd f) \<and> an_tag a = fst f \<and>
          an_value_addr a = length pre + 4 \<and> unat (an_length a) = length (snd f))"

lemma analyzer_at_step:
  assumes a: "\<not> an_eom a" "an_valid a" "an_value_addr a + unat (an_length a) = length pre"
    and d: "an_data a = pre @ fields_bytes fs @ rest" "rest = [] \<or> malformed rest" "\<forall>f \<in> set fs. short f"
  shows "analyzer_at pre fs rest (Analyzer_next a)"
proof (cases fs)
  case Nil
  have "GetUInt16 (an_data a) (length pre + 2) = GetUInt16 rest 2" using GetUInt16_skip [of pre rest 2] by (simp add: d(1) Nil)
  moreover have "rest = [] \<or> length rest < 4 \<or> length rest < 4 + unat (GetUInt16 rest 2)" using d(2) by (auto simp: malformed_def)
  ultimately show ?thesis using a d by (auto simp: analyzer_at_def Analyzer_next_def Let_def Nil)
next
  case (Cons f gs)
  have "short f" using d(3) Cons by simp
  moreover have "an_data a = pre @ tlv_bytes f @ fields_bytes gs @ rest" by (simp add: d(1) Cons)
  ultimately have "GetUInt16 (an_data a) (length pre) = fst f" "unat (GetUInt16 (an_data a) (length pre + 2)) = length (snd f)"
    using tlv_bytes_tag [of pre f "fields_bytes gs @ rest"] tlv_bytes_length [of f pre "fields_bytes gs @ rest"] by simp_all
  then show ?thesis using a d by (simp add: analyzer_at_def Analyzer_next_def Let_def Cons)
qed

lemma analyzer_at_next: "analyzer_at pre (f # fs) rest a \<Longrightarrow> analyzer_at (pre @ tlv_bytes f) fs rest (Analyzer_next a)"
  by (rule analyzer_at_step) (auto simp: analyzer_at_def)

lemma analyzer_at_new:
  assumes "rest = [] \<or> malformed rest" "\<forall>f \<in> set fs. short f"
  shows "analyzer_at [] fs rest (Analyzer_new (fields_bytes fs @ rest))"
proof (cases "fields_bytes fs @ rest = []")
  case True
  then have "fs = []" "rest = []" by (cases fs; simp add: tlv_bytes_def put16_def)+
  then show ?thesis by (simp add: analyzer_at_def Analyzer_new_def Analyzer_next_def)
next
  case False
  show ?thesis unfolding Analyzer_new_def by (rule analyzer_at_step) (use assms False in simp_all)
qed

section \<open>The loop over the parameters\<close>

definition field_ok :: "(u16 \<times> Parameter) list \<Rightarrow> field \<Rightarrow> bool" where
  "field_ok params f \<longleftrightarrow>
     (case omap_get params (fst f) of
        None \<Rightarrow> False
      | Some d \<Rightarrow> (case pp_compound d of
                    Some q \<Rightarrow> mf_error (analyzeMessage (tlv_bytes f) q) = TLV_OK
                  | None \<Rightarrow> pp_min_size d \<le> length (snd f) \<and> length (snd f) \<le> pp_max_size d))"

text \<open>How a field is refused, \<open>off\<close> being its offset in the message.\<close>

definition field_error :: "(u16 \<times> Parameter) list \<Rightarrow> u16 \<Rightarrow> field \<Rightarrow> tlv_error \<times> u16 \<times> bool" where
  "field_error params off f =
     (case omap_get params (fst f) of
        None \<Rightarrow> (UnknownParameterTag, off, True)
      | Some d \<Rightarrow> (case pp_compound d of
                    Some q \<Rightarrow> let sub = analyzeMessage (tlv_bytes f) q
                      in (mf_error sub, if mf_is_offset sub then mf_info sub + off else mf_info sub, mf_is_offset sub)
                  | None \<Rightarrow> (InvalidParameterLength, off, True)))"

lemma field_error_not_ok: "\<not> field_ok params f \<Longrightarrow> fst (field_error params off f) \<noteq> TLV_OK"
  by (auto simp: field_ok_def field_error_def Let_def split: option.splits)

definition field_param :: "(u16 \<times> Parameter) list \<Rightarrow> nat \<Rightarrow> field \<Rightarrow> ExtParameter" where
  "field_param params off f = ExtParameter off (4 + length (snd f)) (off + 4) (length (snd f))
     (Option.bind (omap_get params (fst f)) (\<lambda>d. map_option (analyzeMessage (tlv_bytes f)) (pp_compound d)))"

fun store_fields :: "(u16 \<times> Parameter) list \<Rightarrow> nat \<Rightarrow> field list \<Rightarrow> (u16 \<times> ExtParameter) list \<Rightarrow> (u16 \<times> ExtParameter) list" where
  "store_fields params off [] ps = ps"
| "store_fields params off (f # fs) ps =
     store_fields params (off + length (tlv_bytes f)) fs (mm_insert (fst f) (field_param params off f) ps)"

lemma analyzer_at_field:
  assumes "analyzer_at pre (f # fs) rest a"
  shows "take (an_tlv_size a) (drop (an_tlv_addr a) (an_data a)) = tlv_bytes f"
  using assms by (simp add: analyzer_at_def)

lemma analyze_params_step:
  assumes a: "analyzer_at pre (f # fs) rest a"
  shows "field_ok params f \<Longrightarrow> analyze_params params off0 a ps =
      analyze_params params off0 (Analyzer_next a) (mm_insert (fst f) (field_param params (off0 + length pre) f) ps)"
    and "\<not> field_ok params f \<Longrightarrow> fst (analyze_params params off0 a ps) = field_error params (of_nat (off0 + length pre)) f"
proof -
  have p: "\<not> an_eom a" "an_valid a" "an_tlv_addr a = length pre" "an_tlv_size a = 4 + length (snd f)" "an_tag a = fst f"
      "an_value_addr a = length pre + 4" "unat (an_length a) = length (snd f)" using a by (simp_all add: analyzer_at_def)
  have t: "take (4 + length (snd f)) (drop (length pre) (an_data a)) = tlv_bytes f"
    using analyzer_at_field [OF a] unfolding p .
  show "analyze_params params off0 a ps =
      analyze_params params off0 (Analyzer_next a) (mm_insert (fst f) (field_param params (off0 + length pre) f) ps)"
    if "field_ok params f"
  proof -
    obtain d where d: "omap_get params (fst f) = Some d" using \<open>field_ok params f\<close> by (auto simp: field_ok_def split: option.splits)
    show ?thesis using \<open>field_ok params f\<close>
      by (subst analyze_params.simps, cases "pp_compound d") (simp_all add: p t d Let_def field_ok_def field_param_def add.assoc)
  qed
  show "fst (analyze_params params off0 a ps) = field_error params (of_nat (off0 + length pre)) f" if "\<not> field_ok params f"
  proof (cases "omap_get params (fst f)")
    case None
    then show ?thesis by (subst analyze_params.simps) (simp add: p Let_def field_error_def)
  next
    case (Some d)
    then show ?thesis using \<open>\<not> field_ok params f\<close>
      by (subst analyze_params.simps, cases "pp_compound d") (auto simp: p t Let_def field_ok_def field_error_def)
  qed
qed

lemma analyze_params_ok:
  assumes "analyzer_at pre fs rest a" and "\<forall>f \<in> set fs. field_ok params f"
  shows "\<exists>anl. analyze_params params off0 a ps = ((TLV_OK, 0, False), store_fields params (off0 + length pre) fs ps, anl) \<and>
    an_valid anl = (rest = []) \<and> an_tlv_addr anl = length pre + length (fields_bytes fs)"
  using assms
proof (induction fs arbitrary: pre a ps)
  case Nil
  then have "analyze_params params off0 a ps = ((TLV_OK, 0, False), ps, a)"
    by (subst analyze_params.simps) (simp add: analyzer_at_def)
  then show ?case using Nil by (simp add: analyzer_at_def)
next
  case (Cons f fs)
  then show ?case
    using Cons.IH [OF analyzer_at_next [OF Cons.prems(1)]] analyze_params_step(1) [OF Cons.prems(1)] by (simp add: add.assoc)
qed

lemma analyze_params_error:
  assumes "analyzer_at pre (gs @ f # hs) rest a" and "\<forall>f \<in> set gs. field_ok params f" and "\<not> field_ok params f"
  shows "fst (analyze_params params off0 a ps) = field_error params (of_nat (off0 + length pre + length (fields_bytes gs))) f"
  using assms
proof (induction gs arbitrary: pre a ps)
  case Nil
  then show ?case using analyze_params_step(2) by simp
next
  case (Cons g gs)
  from Cons.prems have a: "analyzer_at pre (g # gs @ f # hs) rest a" by simp
  show ?case
    using Cons.IH [OF analyzer_at_next [OF a]] analyze_params_step(1) [OF a] Cons.prems(2,3) by (simp add: add.assoc)
qed

section \<open>What has been stored\<close>

lemma mm_insert_set: "set (mm_insert k v m) = insert (k, v) (set m)"
proof -
  have "set m = set (takeWhile (\<lambda>e. fst e \<le> k) m) \<union> set (dropWhile (\<lambda>e. fst e \<le> k) m)"
    by (metis set_append takeWhile_dropWhile_id)
  then show ?thesis by (auto simp: mm_insert_def)
qed

lemma sorted_after: "sorted (map fst m) \<Longrightarrow> \<forall>e \<in> set (dropWhile (\<lambda>e. fst e \<le> k) m). k < fst e"
  by (induction m) auto

lemma mm_insert_sorted:
  assumes "sorted (map fst m)"
  shows "sorted (map fst (mm_insert k v m))"
proof -
  have "sorted (map fst (takeWhile (\<lambda>e. fst e \<le> k) m) @ map fst (dropWhile (\<lambda>e. fst e \<le> k) m))"
    using assms by (metis map_append takeWhile_dropWhile_id)
  then show ?thesis
    using sorted_after [OF assms, of k] by (fastforce simp: mm_insert_def sorted_append dest: set_takeWhileD)
qed

lemma mm_range_append: "mm_range (a @ b) k = mm_range a k @ mm_range b k"
  by (simp add: mm_range_def)

lemma mm_range_insert:
  assumes "sorted (map fst m)"
  shows "mm_range (mm_insert k v m) k' = mm_range m k' @ (if k' = k then [v] else [])"
proof -
  define a b where "a = takeWhile (\<lambda>e. fst e \<le> k) m" and "b = dropWhile (\<lambda>e. fst e \<le> k) m"
  have m: "m = a @ b" by (simp add: a_def b_def)
  have "mm_range b k = []"
    using sorted_after [OF assms, of k] by (auto simp: mm_range_def filter_empty_conv b_def)
  moreover have "mm_range ((k, v) # b) k' = (if k' = k then v # mm_range b k' else mm_range b k')" by (simp add: mm_range_def)
  moreover have "mm_insert k v m = a @ (k, v) # b" by (simp add: mm_insert_def a_def b_def)
  ultimately show ?thesis unfolding m by (cases "k' = k") (simp_all add: mm_range_append)
qed

text \<open>The values of a tag in a list of fields.\<close>

definition values_of :: "field list \<Rightarrow> u16 \<Rightarrow> byte list list" where
  "values_of fs tag = map snd (filter (\<lambda>f. fst f = tag) fs)"

lemma values_of_simps [simp]:
  "values_of [] tag = []" "values_of (f # fs) tag = (if fst f = tag then snd f # values_of fs tag else values_of fs tag)"
  "values_of (fs @ gs) tag = values_of fs tag @ values_of gs tag"
  by (simp_all add: values_of_def)

text \<open>A stored parameter shows a value of the message.\<close>

definition shows_value :: "byte list \<Rightarrow> ExtParameter \<Rightarrow> byte list \<Rightarrow> bool" where
  "shows_value msg p v \<longleftrightarrow> ep_addr p + ep_length p \<le> length msg \<and> ep_length p = length v \<and> take (ep_length p) (drop (ep_addr p) msg) = v"

lemma field_param_shows: "shows_value (pre @ tlv_bytes f @ rest) (field_param params (length pre) f) (snd f)"
  by (simp add: shows_value_def field_param_def tlv_bytes_def)

lemma store_fields_shows:
  assumes "sorted (map fst ps)" and "\<And>tag. list_all2 (shows_value msg) (mm_range ps tag) (vs tag)"
    and "msg = pre @ fields_bytes fs @ rest"
  shows "list_all2 (shows_value msg) (mm_range (store_fields params (length pre) fs ps) tag) (vs tag @ values_of fs tag)"
  using assms
proof (induction fs arbitrary: pre ps vs)
  case (Cons f fs)
  define ps1 where "ps1 = mm_insert (fst f) (field_param params (length pre) f) ps"
  define vs1 where "vs1 t = vs t @ (if t = fst f then [snd f] else [])" for t
  have "shows_value msg (field_param params (length pre) f) (snd f)"
    using field_param_shows [of pre f "fields_bytes fs @ rest"] Cons.prems(3) by simp
  then have "list_all2 (shows_value msg) (mm_range ps1 t) (vs1 t)" for t
    using Cons.prems(1,2) by (auto simp: ps1_def vs1_def mm_range_insert intro!: list_all2_appendI)
  moreover have "sorted (map fst ps1)" using mm_insert_sorted [OF Cons.prems(1)] by (simp add: ps1_def)
  ultimately have "list_all2 (shows_value msg) (mm_range (store_fields params (length (pre @ tlv_bytes f)) fs ps1) tag) (vs1 tag @ values_of fs tag)"
    using Cons.prems(3) by (intro Cons.IH) simp_all
  then show ?case by (auto simp: ps1_def vs1_def)
qed simp

section \<open>The whole message\<close>

definition header :: "Protocol \<Rightarrow> byte list" where
  "header p = (if pr_has_version p then [pr_version p] else [])"

definition counts_ok :: "(u16 \<times> Parameter) list \<Rightarrow> field list \<Rightarrow> bool" where
  "counts_ok params fs \<longleftrightarrow> (\<forall>(tag, d) \<in> set params. pp_min_count d \<le> length (values_of fs tag) \<and> length (values_of fs tag) \<le> pp_max_count d)"

definition message_ok :: "Protocol \<Rightarrow> u16 \<Rightarrow> field list \<Rightarrow> bool" where
  "message_ok p cmd fs \<longleftrightarrow> (\<exists>params. omap_get (pr_commands p) cmd = Some params \<and> (\<forall>f \<in> set fs. field_ok params f) \<and> counts_ok params fs)"

text \<open>The factory gives access to the values of the fields.\<close>

definition mf_holds :: "MessageFactory \<Rightarrow> field list \<Rightarrow> bool" where
  "mf_holds mf fs \<longleftrightarrow> (\<forall>tag. list_all2 (shows_value (mf_msg mf)) (mf_get_all mf tag) (values_of fs tag))"

lemma check_counts_None:
  assumes "\<And>tag. length (mm_range ps tag) = length (values_of fs tag)"
  shows "check_counts params ps = None \<longleftrightarrow> counts_ok params fs"
  using assms by (induction params ps rule: check_counts.induct) (auto simp: counts_ok_def Let_def)

lemma check_counts_Some: "check_counts params ps = Some (st, tag) \<Longrightarrow> st \<noteq> TLV_OK"
  by (induction params ps rule: check_counts.induct) (auto simp: Let_def split: if_splits)

lemma Analyzer_new_fields:
  assumes "short f"
  shows "\<not> an_eom (Analyzer_new (tlv_bytes f @ junk))" "an_valid (Analyzer_new (tlv_bytes f @ junk))"
    "an_tag (Analyzer_new (tlv_bytes f @ junk)) = fst f" "an_value_addr (Analyzer_new (tlv_bytes f @ junk)) = 4"
    "unat (an_length (Analyzer_new (tlv_bytes f @ junk))) = length (snd f)"
proof -
  have "tlv_bytes f @ junk \<noteq> []" by (simp add: tlv_bytes_def put16_def)
  then show "\<not> an_eom (Analyzer_new (tlv_bytes f @ junk))" "an_valid (Analyzer_new (tlv_bytes f @ junk))"
    "an_tag (Analyzer_new (tlv_bytes f @ junk)) = fst f" "an_value_addr (Analyzer_new (tlv_bytes f @ junk)) = 4"
    "unat (an_length (Analyzer_new (tlv_bytes f @ junk))) = length (snd f)"
    using tlv_bytes_tag [of "[]" f junk] tlv_bytes_length [OF assms, of "[]" junk]
    by (simp_all add: Analyzer_new_def Analyzer_next_def Let_def)
qed

text \<open>A message whose envelope is complete and whose command is known.\<close>

lemma analyzeMessage_envelope:
  assumes c: "omap_get (pr_commands p) cmd = Some params" and l: "length body < 65536"
    and m: "msg = header p @ tlv_bytes (cmd, body) @ junk"
    and r: "analyze_params params (length (header p) + 4) (Analyzer_new body) [] = (err, ps, anl)"
  shows "analyzeMessage msg p =
    (if fst err \<noteq> TLV_OK then MessageFactory msg (fst err) (fst (snd err)) (snd (snd err)) (if pr_has_version p then pr_version p else 0) cmd ps
     else if \<not> an_valid anl
     then MessageFactory msg InvalidMessage (of_nat (length (header p) + 4 + an_tlv_addr anl)) True (if pr_has_version p then pr_version p else 0) cmd ps
     else case check_counts params ps of
            Some (st, tag) \<Rightarrow> MessageFactory msg st tag False (if pr_has_version p then pr_version p else 0) cmd ps
          | None \<Rightarrow> MessageFactory msg TLV_OK 0 False (if pr_has_version p then pr_version p else 0) cmd ps)"
proof -
  have t: "drop 4 (tlv_bytes (cmd, body)) = body" by (simp add: tlv_bytes_def)
  have "short (cmd, body)" using l by simp
  note a = Analyzer_new_fields [OF this, of junk]
  show ?thesis
  proof (cases "pr_has_version p")
    case True
    then have "drop (Suc 0) msg = tlv_bytes (cmd, body) @ junk" "GetUInt8 msg 0 = pr_version p" "msg \<noteq> []" "header p = [pr_version p]"
      by (simp_all add: m header_def GetUInt8_def)
    then show ?thesis using True r by (subst analyzeMessage.simps) (simp add: Let_def a t c split: option.split)
  next
    case False
    then have "msg = tlv_bytes (cmd, body) @ junk" "header p = []" by (simp_all add: m header_def)
    then show ?thesis using False r by (subst analyzeMessage.simps) (simp add: Let_def a t c split: option.split)
  qed
qed

lemma analyzeMessage_fields:
  assumes c: "omap_get (pr_commands p) cmd = Some params" and l: "length (fields_bytes fs @ rest) < 65536" and r: "rest = [] \<or> malformed rest"
    and m: "msg = header p @ tlv_bytes (cmd, fields_bytes fs @ rest) @ junk" and ok: "\<forall>f \<in> set fs. field_ok params f"
  defines "mf \<equiv> analyzeMessage msg p"
  shows "mf_error mf = TLV_OK \<longleftrightarrow> rest = [] \<and> counts_ok params fs"
    and "mf_tag mf = cmd" and "mf_version mf = (if pr_has_version p then pr_version p else 0)" and "mf_holds mf fs"
    and "rest \<noteq> [] \<Longrightarrow> mf_error mf = InvalidMessage \<and> mf_is_offset mf \<and> mf_info mf = of_nat (length (header p) + 4 + length (fields_bytes fs))"
proof -
  have "length (fields_bytes fs) < 65540" using l by simp
  then have s: "\<forall>f \<in> set fs. short f" by (rule fields_short)
  obtain anl where p: "analyze_params params (length (header p) + 4) (Analyzer_new (fields_bytes fs @ rest)) [] =
      ((TLV_OK, 0, False), store_fields params (length (header p) + 4) fs [], anl)" "an_valid anl = (rest = [])"
      "an_tlv_addr anl = length (fields_bytes fs)"
    using analyze_params_ok [OF analyzer_at_new [OF r s] ok, of "length (header p) + 4" "[]"] by auto
  note e = analyzeMessage_envelope [OF c l m p(1)]
  have "msg = (header p @ put16 cmd @ put16 (of_nat (length (fields_bytes fs @ rest)))) @ fields_bytes fs @ rest @ junk"
    by (simp add: m tlv_bytes_def)
  from store_fields_shows [of "[]" msg "\<lambda>_. []", OF _ _ this, of params] have sv:
    "list_all2 (shows_value msg) (mm_range (store_fields params (length (header p) + 4) fs []) tag) (values_of fs tag)" for tag
    by (simp add: mm_range_def)
  then have n: "check_counts params (store_fields params (length (header p) + 4) fs []) = None \<longleftrightarrow> counts_ok params fs"
    by (intro check_counts_None list_all2_lengthD)
  show "mf_error mf = TLV_OK \<longleftrightarrow> rest = [] \<and> counts_ok params fs"
    unfolding mf_def e using p(2) n check_counts_Some by (auto split: option.splits)
  show "mf_tag mf = cmd" "mf_version mf = (if pr_has_version p then pr_version p else 0)"
    unfolding mf_def e by (auto split: option.splits)
  show "mf_holds mf fs" unfolding mf_def e mf_holds_def mf_get_all_def using sv by (auto split: option.splits)
  show "mf_error mf = InvalidMessage \<and> mf_is_offset mf \<and> mf_info mf = of_nat (length (header p) + 4 + length (fields_bytes fs))" if "rest \<noteq> []"
    unfolding mf_def e using p(2,3) that by simp
qed

lemma analyzeMessage_bad_field:
  assumes c: "omap_get (pr_commands p) cmd = Some params" and l: "length (fields_bytes (fs @ f # gs) @ rest) < 65536"
    and r: "rest = [] \<or> malformed rest" and m: "msg = header p @ tlv_bytes (cmd, fields_bytes (fs @ f # gs) @ rest) @ junk"
    and ok: "\<forall>f \<in> set fs. field_ok params f" "\<not> field_ok params f"
  shows "(mf_error (analyzeMessage msg p), mf_info (analyzeMessage msg p), mf_is_offset (analyzeMessage msg p)) =
    field_error params (of_nat (length (header p) + 4 + length (fields_bytes fs))) f"
proof -
  have "length (fields_bytes (fs @ f # gs)) < 65540" using l by simp
  then have s: "\<forall>f \<in> set (fs @ f # gs). short f" by (rule fields_short)
  obtain err ps anl where a: "analyze_params params (length (header p) + 4) (Analyzer_new (fields_bytes (fs @ f # gs) @ rest)) [] = (err, ps, anl)"
    by (cases "analyze_params params (length (header p) + 4) (Analyzer_new (fields_bytes (fs @ f # gs) @ rest)) []")
  then have "err = field_error params (of_nat (length (header p) + 4 + length (fields_bytes fs))) f"
    using analyze_params_error [OF analyzer_at_new [OF r s] ok, of "length (header p) + 4" "[]"] by simp
  then show ?thesis
    unfolding analyzeMessage_envelope [OF c l m a] using field_error_not_ok [OF ok(2)] by (cases err) auto
qed

text \<open>What an accepted message looks like.\<close>

lemma analyzeMessage_accepted:
  assumes "mf_error (analyzeMessage msg p) = TLV_OK"
  shows "\<exists>cmd body junk params. msg = header p @ tlv_bytes (cmd, body) @ junk \<and> length body < 65536 \<and> omap_get (pr_commands p) cmd = Some params"
proof -
  define h where "h = (if pr_has_version p then 1 else 0 :: nat)"
  define a where "a = Analyzer_new (drop h msg)"
  have e: "pr_has_version p \<Longrightarrow> msg \<noteq> [] \<and> GetUInt8 msg 0 = pr_version p" "\<not> an_eom a" "an_valid a"
      "omap_get (pr_commands p) (an_tag a) \<noteq> None"
    using assms unfolding analyzeMessage.simps [of msg p] a_def h_def by (auto simp: Let_def split: if_splits option.splits)
  have "drop h msg \<noteq> []" "\<not> malformed (drop h msg)"
    using e(2,3) by (auto simp: a_def Analyzer_new_def Analyzer_next_def Let_def malformed_def numeral_2_eq_2 split: if_splits)
  then obtain f junk where f: "drop h msg = tlv_bytes f @ junk" "short f" using tlv_split_one by blast
  have "an_tag a = fst f" using Analyzer_new_fields(3) [OF f(2)] by (simp add: a_def f(1))
  moreover have "take h msg = header p" using e(1) by (cases msg) (auto simp: h_def header_def GetUInt8_def)
  then have "msg = header p @ tlv_bytes (fst f, snd f) @ junk" using f(1) by (metis append_take_drop_id prod.collapse)
  moreover obtain params where "omap_get (pr_commands p) (fst f) = Some params" using e(4) calculation(1) by auto
  ultimately show ?thesis using f(2) by blast
qed

lemma analyzeMessage_accepted_fields:
  assumes ok: "mf_error (analyzeMessage msg p) = TLV_OK"
  shows "\<exists>cmd fs junk. msg = header p @ tlv_bytes (cmd, fields_bytes fs) @ junk \<and> length (fields_bytes fs) < 65536 \<and>
    message_ok p cmd fs \<and> mf_tag (analyzeMessage msg p) = cmd \<and> mf_holds (analyzeMessage msg p) fs"
proof -
  obtain cmd body junk params where m: "msg = header p @ tlv_bytes (cmd, body) @ junk" "length body < 65536"
      "omap_get (pr_commands p) cmd = Some params"
    using analyzeMessage_accepted [OF ok] by blast
  obtain fs rest where b: "body = fields_bytes fs @ rest" "rest = [] \<or> malformed rest" using tlv_split by blast
  have all: "\<forall>f \<in> set fs. field_ok params f"
  proof (rule ccontr)
    assume "\<not> ?thesis"
    then obtain gs f hs where f: "fs = gs @ f # hs" "\<not> field_ok params f" "\<forall>f \<in> set gs. field_ok params f"
      using split_list_first_prop [of fs "\<lambda>f. \<not> field_ok params f"] by blast
    have "mf_error (analyzeMessage msg p) = fst (field_error params (of_nat (length (header p) + 4 + length (fields_bytes gs))) f)"
      using arg_cong [where f = fst, OF analyzeMessage_bad_field [OF m(3) _ b(2) _ f(3,2), of hs msg junk]] m(1,2) by (simp add: b(1) f(1))
    then show False using field_error_not_ok [OF f(2)] ok by metis
  qed
  note r = analyzeMessage_fields [OF m(3) m(2) [unfolded b(1)] b(2) m(1) [unfolded b(1)] all]
  have "rest = []" "counts_ok params fs" using r(1) ok by simp_all
  then show ?thesis
    using m b(1) all r(2,4) by (intro exI [of _ cmd] exI [of _ fs] exI [of _ junk]) (auto simp: message_ok_def)
qed


section \<open>Reading the values\<close>

lemma GetUInt16_put16_0 [simp]: "GetUInt16 (put16 v) 0 = v"
  using GetUInt16_put16 [of v "[]"] by simp

lemma GetUInt32_put32 [simp]: "GetUInt32 (put32 v) 0 = v"
  by (simp add: GetUInt32_def put32_def word32_of_bytes numeral_2_eq_2 numeral_3_eq_3)

lemma length_put32 [simp]: "length (put32 v) = 4"
  by (simp add: put32_def)

lemma shows_value_nth: "shows_value msg p v \<Longrightarrow> i < length v \<Longrightarrow> msg ! (ep_addr p + i) = v ! i"
  by (auto simp: shows_value_def)

lemma shows_value_Get:
  assumes "shows_value msg p v"
  shows "length v = 1 \<Longrightarrow> GetUInt8 msg (ep_addr p) = GetUInt8 v 0" "length v = 2 \<Longrightarrow> GetUInt16 msg (ep_addr p) = GetUInt16 v 0"
    "length v = 4 \<Longrightarrow> GetUInt32 msg (ep_addr p) = GetUInt32 v 0"
  using shows_value_nth [OF assms, of 0] shows_value_nth [OF assms, of 1] shows_value_nth [OF assms, of 2] shows_value_nth [OF assms, of 3]
  by (simp_all add: GetUInt8_def GetUInt16_def GetUInt32_def numeral_2_eq_2)

lemma mf_get_values:
  assumes h: "mf_holds mf fs" and g: "\<And>p v. shows_value (mf_msg mf) p v \<Longrightarrow> length v = n \<Longrightarrow> get (mf_msg mf) (ep_addr p) = get v 0"
  shows "mf_get n get mf tag = (case values_of fs tag of [] \<Rightarrow> None | v # _ \<Rightarrow> if length v = n then Some (get v 0) else None)"
proof -
  have "list_all2 (shows_value (mf_msg mf)) (mm_range (mf_params mf) tag) (values_of fs tag)" using h by (simp add: mf_holds_def mf_get_all_def)
  then show ?thesis using g
    by (auto simp: mf_get_def mf_find_def checkParamSize_def list_all2_Cons1 list_all2_Cons2 shows_value_def split: list.splits)
qed

lemma get_values:
  assumes "mf_holds mf fs"
  shows "get_uint8 mf tag = (case values_of fs tag of [] \<Rightarrow> None | v # _ \<Rightarrow> if length v = 1 then Some (GetUInt8 v 0) else None)"
    "get_uint16 mf tag = (case values_of fs tag of [] \<Rightarrow> None | v # _ \<Rightarrow> if length v = 2 then Some (GetUInt16 v 0) else None)"
    "get_uint32 mf tag = (case values_of fs tag of [] \<Rightarrow> None | v # _ \<Rightarrow> if length v = 4 then Some (GetUInt32 v 0) else None)"
  unfolding get_uint8_def get_uint16_def get_uint32_def by (rule mf_get_values [OF assms]; rule shows_value_Get; simp)+

lemma count_values: "mf_holds mf fs \<Longrightarrow> mf_count mf tag = length (values_of fs tag)"
  unfolding mf_holds_def mf_get_all_def mf_count_def by (blast dest: list_all2_lengthD)

lemma get_all_values:
  assumes "mf_holds mf fs"
  shows "map (mf_value mf) (mf_get_all mf tag) = values_of fs tag"
proof -
  have "list_all2 (shows_value (mf_msg mf)) (mf_get_all mf tag) (values_of fs tag)" using assms by (simp add: mf_holds_def)
  then show ?thesis by (induction rule: list_all2_induct) (auto simp: shows_value_def mf_value_def)
qed

lemma get_block_values:
  assumes "mf_holds mf fs"
  shows "get_block mf tag = (case values_of fs tag of [] \<Rightarrow> None | v # _ \<Rightarrow> Some v)"
  using get_all_values [OF assms, of tag, symmetric]
  by (auto simp: get_block_def mf_find_def mf_get_all_def split: list.splits)

lemma get_uint16s_values:
  assumes "mf_holds mf fs"
  shows "get_uint16s mf tag = (if \<forall>v \<in> set (values_of fs tag). length v = 2 then Some (map (\<lambda>v. GetUInt16 v 0) (values_of fs tag)) else None)"
proof -
  have "list_all2 (shows_value (mf_msg mf)) (mf_get_all mf tag) (values_of fs tag)" using assms by (simp add: mf_holds_def)
  then have "(list_all (checkParamSize 2) (mf_get_all mf tag) \<longleftrightarrow> (\<forall>v \<in> set (values_of fs tag). length v = 2)) \<and>
      ((\<forall>v \<in> set (values_of fs tag). length v = 2) \<longrightarrow>
        map (\<lambda>p. GetUInt16 (mf_msg mf) (ep_addr p)) (mf_get_all mf tag) = map (\<lambda>v. GetUInt16 v 0) (values_of fs tag))"
    by (induction rule: list_all2_induct) (auto simp: checkParamSize_def shows_value_def intro!: shows_value_Get(2))
  then show ?thesis by (simp add: get_uint16s_def)
qed

lemmas values_simps = get_values count_values get_all_values get_block_values get_uint16s_values

text \<open>What the description of a parameter guarantees.\<close>

lemma value_sizes:
  assumes "\<forall>f \<in> set fs. field_ok params f" "omap_get params tag = Some (Parameter None mn mx lo hi)" "v \<in> set (values_of fs tag)"
  shows "mn \<le> length v" "length v \<le> mx"
  using assms by (auto simp: values_of_def field_ok_def)

lemma value_counts:
  assumes "counts_ok params fs" "omap_get params tag = Some (Parameter c mn mx lo hi)"
  shows "lo \<le> length (values_of fs tag)" "length (values_of fs tag) \<le> hi"
proof -
  have "(tag, Parameter c mn mx lo hi) \<in> set params" using assms(2) by (simp add: omap_get_def map_of_SomeD)
  then show "lo \<le> length (values_of fs tag)" "length (values_of fs tag) \<le> hi" using assms(1) by (auto simp: counts_ok_def)
qed

lemma value_required:
  assumes "\<forall>f \<in> set fs. field_ok params f" "counts_ok params fs" "omap_get params tag = Some (Parameter None mn mx 1 1)"
  shows "\<exists>v. values_of fs tag = [v] \<and> mn \<le> length v \<and> length v \<le> mx"
proof -
  obtain v where v: "values_of fs tag = [v]" using value_counts [OF assms(2,3)] by (cases "values_of fs tag") auto
  then show ?thesis using value_sizes [OF assms(1,3)] by simp
qed

lemma value_optional:
  assumes "\<forall>f \<in> set fs. field_ok params f" "counts_ok params fs" "omap_get params tag = Some (Parameter None mn mx 0 1)"
  shows "values_of fs tag = [] \<or> (\<exists>v. values_of fs tag = [v] \<and> mn \<le> length v \<and> length v \<le> mx)"
proof (cases "values_of fs tag")
  case (Cons v vs)
  then have "vs = []" using value_counts(2) [OF assms(2,3)] by simp
  then show ?thesis using value_sizes [OF assms(1,3), of v] Cons by simp
qed simp

text \<open>A factory whose fields conform to the description of a command: the access to its parameters cannot fail.\<close>

definition described :: "MessageFactory \<Rightarrow> (u16 \<times> Parameter) list \<Rightarrow> bool" where
  "described mf params \<longleftrightarrow> (\<exists>fs. mf_holds mf fs \<and> (\<forall>f \<in> set fs. field_ok params f) \<and> counts_ok params fs)"

lemma described_fields:
  assumes "described mf params"
  obtains fs where "mf_holds mf fs" "\<forall>f \<in> set fs. field_ok params f" "counts_ok params fs"
  using assms by (auto simp: described_def)

lemma described_required:
  assumes "described mf params"
  shows "omap_get params tag = Some (Parameter None 1 1 1 1) \<Longrightarrow> get_uint8 mf tag \<noteq> None"
    "omap_get params tag = Some (Parameter None 2 2 1 1) \<Longrightarrow> get_uint16 mf tag \<noteq> None"
    "omap_get params tag = Some (Parameter None 4 4 1 1) \<Longrightarrow> get_uint32 mf tag \<noteq> None"
    "omap_get params tag = Some (Parameter None mn mx 1 1) \<Longrightarrow> get_block mf tag \<noteq> None"
    "omap_get params tag = Some (Parameter None 2 2 lo hi) \<Longrightarrow> get_uint16s mf tag \<noteq> None"
proof -
  obtain fs where f: "mf_holds mf fs" "\<forall>f \<in> set fs. field_ok params f" "counts_ok params fs" using described_fields [OF assms] .
  show "omap_get params tag = Some (Parameter None 1 1 1 1) \<Longrightarrow> get_uint8 mf tag \<noteq> None"
    "omap_get params tag = Some (Parameter None 2 2 1 1) \<Longrightarrow> get_uint16 mf tag \<noteq> None"
    "omap_get params tag = Some (Parameter None 4 4 1 1) \<Longrightarrow> get_uint32 mf tag \<noteq> None"
    "omap_get params tag = Some (Parameter None mn mx 1 1) \<Longrightarrow> get_block mf tag \<noteq> None"
    using value_required [OF f(2,3), of tag] by (fastforce simp: values_simps [OF f(1)])+
  show "omap_get params tag = Some (Parameter None 2 2 lo hi) \<Longrightarrow> get_uint16s mf tag \<noteq> None"
    using value_sizes [OF f(2), of tag 2 2] by (fastforce simp: values_simps [OF f(1)])
qed

lemma described_optional:
  assumes "described mf params" "mf_count mf tag \<noteq> 0"
  shows "omap_get params tag = Some (Parameter None 2 2 0 1) \<Longrightarrow> get_uint16 mf tag \<noteq> None"
    "omap_get params tag = Some (Parameter None mn mx 0 1) \<Longrightarrow> get_block mf tag \<noteq> None"
proof -
  obtain fs where f: "mf_holds mf fs" "\<forall>f \<in> set fs. field_ok params f" "counts_ok params fs" using described_fields [OF assms(1)] .
  show "omap_get params tag = Some (Parameter None 2 2 0 1) \<Longrightarrow> get_uint16 mf tag \<noteq> None"
    "omap_get params tag = Some (Parameter None mn mx 0 1) \<Longrightarrow> get_block mf tag \<noteq> None"
    using value_optional [OF f(2,3), of tag] assms(2) by (fastforce simp: values_simps [OF f(1)])+
qed

lemma get_bool_None: "get_bool mf tag = None \<longleftrightarrow> get_uint8 mf tag = None"
  by (simp add: get_bool_def)

section \<open>Writing the values\<close>

lemma values_of_map_same: "values_of (map (\<lambda>x. (tag, f x)) xs) tag' = (if tag' = tag then map f xs else [])"
  by (induction xs) auto

lemma values_of_size: "4 * length (values_of fs tag) \<le> length (fields_bytes fs)"
  by (induction fs) auto

lemma append_bytes_append [simp]: "append_bytes a (append_bytes b z) = append_bytes (b @ a) z"
  by (simp add: append_bytes_def)

lemma append_bytes_Nil [simp]: "append_bytes [] z = z"
  by (simp add: append_bytes_def)

lemma puts:
  "put_uint8 tag i = append_bytes (tlv_bytes (tag, [i]))"
  "put_uint16 tag j = append_bytes (tlv_bytes (tag, put16 j))"
  "put_uint32 tag k = append_bytes (tlv_bytes (tag, put32 k))"
  "put_bool tag b = append_bytes (tlv_bytes (tag, [if b then 1 else 0]))"
  "put_block tag bl = append_bytes (tlv_bytes (tag, bl))"
  by (simp_all add: put_uint8_def put_uint16_def put_uint32_def put_bool_def put_block_def tlv_bytes_def)

lemma put_uint16s_fields: "put_uint16s tag vs z = append_bytes (fields_bytes (map (\<lambda>v. (tag, put16 v)) vs)) z"
  unfolding put_uint16s_def by (induction vs arbitrary: z) (simp_all add: puts)

lemma closeTLV_openTLV:
  "closeTLV (append_bytes body (openTLV tag (Serializer_new bb))) = Serializer_new (bb @ tlv_bytes (tag, body))"
proof -
  have "PutUInt16 ((bb @ put16 tag) @ put16 0 @ body) (length (bb @ put16 tag)) (of_nat (length body)) =
      (bb @ put16 tag) @ put16 (of_nat (length body)) @ body" by (rule PutUInt16_at)
  moreover have "nat (2 + int (length bb)) = length (bb @ put16 tag)" by (simp add: nat_add_distrib)
  ultimately show ?thesis
    by (simp add: closeTLV_def openTLV_def append_bytes_def Serializer_new_def tlv_bytes_def)
qed

text \<open>The bytes of a message, when its parameters are fields.\<close>

lemma Message_serialize_fields:
  assumes "\<And>z. params z = append_bytes (fields_bytes fs) z"
  shows "sz_bb (Message_serialize has_version version tag params z) =
    sz_bb z @ (if has_version then [version] else []) @ tlv_bytes (tag, fields_bytes fs)"
  by (simp add: Message_serialize_def assms closeTLV_openTLV Let_def) (simp add: append_bytes_def Serializer_new_def)

end
