(* ===== verification/Ts_TLV_Connection.thy ===== *)
theory Ts_TLV_Connection
  imports Ts_TLV
begin

text \<open>
  The connections of the DVB SimulCrypt protocols: \<open>tstlvConnectionTemplate.h\<close> over \<open>tsTCPConnection.cpp\<close>. The socket is the
  segments that \<open>recv\<close> will deliver and the bytes that \<open>send\<close> has taken. The locale \<open>tlv_messages\<close> states what the messages of a protocol
  must satisfy, the lemmas on analysis, reception and invalid messages are proved in it, and the theories of the two protocols
  interpret it. The mutexes, the logs and the interruption of system calls are left out.
\<close>

section \<open>Connection\<close>

text \<open>A TCP connection (\<open>tsTCPConnection.cpp\<close>): the segments that \<open>recv\<close> will deliver, then the end of the
  connection; the bytes that have been sent. \<open>cn_broken\<close> tells that \<open>send\<close> reports an error.\<close>

record Connection =
  cn_in :: "byte list list"
  cn_out :: "byte list"
  cn_broken :: bool
  cn_connected :: bool
  cn_auto_error_response :: bool
  cn_max_invalid_msg :: nat
  cn_invalid_msg_count :: nat

definition tcp_recv :: "nat \<Rightarrow> Connection \<Rightarrow> byte list option \<times> Connection" where
  "tcp_recv max_size c =
     (if \<not> cn_connected c then (None, c)
      else case cn_in c of
             [] \<Rightarrow> (None, c\<lparr>cn_connected := False\<rparr>)
           | seg # segs \<Rightarrow>
               if seg = [] then (None, c\<lparr>cn_connected := False\<rparr>)
               else if length seg \<le> max_size then (Some seg, c\<lparr>cn_in := segs\<rparr>)
               else (Some (take max_size seg), c\<lparr>cn_in := drop max_size seg # segs\<rparr>))"

lemma tcp_recv_some:
  "tcp_recv n c = (Some got, c') \<Longrightarrow> 0 < n \<Longrightarrow> 0 < length got \<and> length got \<le> n \<and> concat (cn_in c) = got @ concat (cn_in c') \<and>
     c' = c\<lparr>cn_in := cn_in c'\<rparr> \<and> ([] \<notin> set (cn_in c) \<longrightarrow> [] \<notin> set (cn_in c'))"
  by (auto simp: tcp_recv_def split: if_splits list.splits)

function tcp_receive :: "nat \<Rightarrow> Connection \<Rightarrow> byte list option \<times> Connection" where
  "tcp_receive remain c =
     (if remain = 0 then (Some [], c)
      else case tcp_recv remain c of
             (None, c1) \<Rightarrow> (None, c1)
           | (Some got, c1) \<Rightarrow>
               (case tcp_receive (remain - length got) c1 of
                  (None, c2) \<Rightarrow> (None, c2)
                | (Some rest, c2) \<Rightarrow> (Some (got @ rest), c2)))"
  by pat_completeness auto
termination
proof (relation "measure fst")
  show "wf (measure fst)" by simp
  show "\<And>remain c x y got. remain \<noteq> 0 \<Longrightarrow> (x, y) = tcp_recv remain c \<Longrightarrow> x = Some got \<Longrightarrow>
      ((remain - length got, y), (remain, c)) \<in> measure fst"
    using tcp_recv_some by (metis diff_less in_measure fst_conv neq0_conv)
qed

declare tcp_receive.simps [simp del]

lemma tcp_receive_some:
  assumes "tcp_receive n c = (Some bs, c')"
  shows "length bs = n \<and> concat (cn_in c) = bs @ concat (cn_in c') \<and> c' = c\<lparr>cn_in := cn_in c'\<rparr> \<and>
    ([] \<notin> set (cn_in c) \<longrightarrow> [] \<notin> set (cn_in c'))"
  using assms
proof (induction n c arbitrary: bs rule: tcp_receive.induct)
  case (1 remain c)
  show ?case
  proof (cases "remain = 0")
    case True
    then show ?thesis using 1(2) by (simp add: tcp_receive.simps)
  next
    case False
    then obtain got c1 rest where r: "tcp_recv remain c = (Some got, c1)" "tcp_receive (remain - length got) c1 = (Some rest, c')" "bs = got @ rest"
      using 1(2) by (subst (asm) tcp_receive.simps) (auto split: prod.splits option.splits)
    note s = tcp_recv_some [OF r(1)] False
    have i: "length rest = remain - length got \<and> concat (cn_in c1) = rest @ concat (cn_in c') \<and> c' = c1\<lparr>cn_in := cn_in c'\<rparr> \<and>
        ([] \<notin> set (cn_in c1) \<longrightarrow> [] \<notin> set (cn_in c'))"
      by (rule 1(1) [OF False r(1) [symmetric] refl r(2)])
    have "c' = c\<lparr>cn_in := cn_in c'\<rparr>" using s i by (metis Connection.update_convs(1) Connection.surjective neq0_conv)
    then show ?thesis using s i r(3) by simp
  qed
qed

lemma tcp_receive_all:
  assumes "cn_connected c" "[] \<notin> set (cn_in c)" "n \<le> length (concat (cn_in c))"
  shows "\<exists>segs. tcp_receive n c = (Some (take n (concat (cn_in c))), c\<lparr>cn_in := segs\<rparr>) \<and> concat segs = drop n (concat (cn_in c)) \<and> [] \<notin> set segs"
proof -
  have "\<exists>bs c'. tcp_receive n c = (Some bs, c')"
    using assms
  proof (induction n c rule: tcp_receive.induct)
    case (1 remain c)
    show ?case
    proof (cases "remain = 0")
      case True
      then show ?thesis by (simp add: tcp_receive.simps)
    next
      case False
      then obtain seg segs where s: "cn_in c = seg # segs" "seg \<noteq> []" using 1(3,4) by (cases "cn_in c") auto
      then obtain got c1 where g: "tcp_recv remain c = (Some got, c1)"
        using 1(2) that by (cases "length seg \<le> remain") (auto simp: tcp_recv_def)
      note t = tcp_recv_some [OF g] False
      then have "cn_connected c1" using 1(2) by (metis Connection.select_convs(4) Connection.update_convs(1) Connection.surjective neq0_conv)
      moreover have "length got + length (concat (cn_in c1)) = length (concat (cn_in c))" using t by (metis length_append neq0_conv)
      ultimately obtain bs c' where "tcp_receive (remain - length got) c1 = (Some bs, c')"
        using 1(1) [OF False g [symmetric] refl] 1(3,4) t by fastforce
      then show ?thesis using False g by (subst tcp_receive.simps) simp
    qed
  qed
  then obtain bs c' where r: "tcp_receive n c = (Some bs, c')" by blast
  note f = tcp_receive_some [OF r]
  then have "bs = take n (concat (cn_in c))" "concat (cn_in c') = drop n (concat (cn_in c))" by (metis append_eq_conv_conj)+
  then show ?thesis using r f assms(2) by metis
qed

definition tcp_send :: "byte list \<Rightarrow> Connection \<Rightarrow> bool \<times> Connection" where
  "tcp_send data c = (if cn_broken c \<or> \<not> cn_connected c then (False, c) else (True, c\<lparr>cn_out := cn_out c @ data\<rparr>))"

text \<open>\<open>tlv::Connection\<close>. The messages of a protocol are given by their virtual methods: \<open>serialize\<close>, the factory of the
  protocol and its error response. A result \<open>Some None\<close> is the exception of the factory.\<close>

definition handleConnected :: "Connection \<Rightarrow> Connection" where
  "handleConnected c = c\<lparr>cn_connected := True, cn_invalid_msg_count := 0\<rparr>"

definition Connection_send :: "('m \<Rightarrow> Serializer \<Rightarrow> Serializer) \<Rightarrow> 'm \<Rightarrow> Connection \<Rightarrow> bool \<times> Connection" where
  "Connection_send serialize msg c = tcp_send (sz_bb (serialize msg (Serializer_new []))) c"

definition receive_frame :: "Protocol \<Rightarrow> Connection \<Rightarrow> byte list option \<times> Connection" where
  "receive_frame p c =
     (let header_size = (if pr_has_version p then 5 else 4); length_offset = (if pr_has_version p then 3 else 2)
      in case tcp_receive header_size c of
           (None, c1) \<Rightarrow> (None, c1)
         | (Some bb, c1) \<Rightarrow>
             (case tcp_receive (unat (GetUInt16 bb length_offset)) c1 of
                (None, c2) \<Rightarrow> (None, c2)
              | (Some payload, c2) \<Rightarrow> (Some (bb @ payload), c2)))"

lemma receive_frame_less:
  assumes "receive_frame p c = (Some bb, c')"
  shows "length (concat (cn_in c')) < length (concat (cn_in c))" and "c' = c\<lparr>cn_in := cn_in c'\<rparr>"
proof -
  define n where "n = (if pr_has_version p then 5 else 4 :: nat)"
  define off where "off = (if pr_has_version p then 3 else 2 :: nat)"
  obtain h pl c1 where r: "tcp_receive n c = (Some h, c1)" "tcp_receive (unat (GetUInt16 h off)) c1 = (Some pl, c')"
    using assms by (auto simp: receive_frame_def Let_def n_def off_def split: prod.splits option.splits if_splits)
  note f = tcp_receive_some [OF r(1)] and g = tcp_receive_some [OF r(2)]
  have "length (concat (cn_in c)) = n + length (concat (cn_in c1))" using f by (metis length_append)
  moreover have "length (concat (cn_in c')) \<le> length (concat (cn_in c1))" using g by (metis length_append le_add2)
  ultimately show "length (concat (cn_in c')) < length (concat (cn_in c))" by (simp add: n_def split: if_splits)
  show "c' = c\<lparr>cn_in := cn_in c'\<rparr>" using f g by (metis Connection.update_convs(1) Connection.surjective)
qed

datatype 'm reception = Failed | Received 'm | Thrown

function Connection_receive ::
  "('m \<Rightarrow> Serializer \<Rightarrow> Serializer) \<Rightarrow> (MessageFactory \<Rightarrow> 'm option) \<Rightarrow> (MessageFactory \<Rightarrow> 'm) \<Rightarrow> Protocol \<Rightarrow>
   Connection \<Rightarrow> 'm reception \<times> Connection" where
  "Connection_receive serialize factory respond p c =
     (case receive_frame p c of
        (None, c1) \<Rightarrow> (Failed, c1)
      | (Some bb, c1) \<Rightarrow>
          (let mf = analyzeMessage bb p
           in if mf_error mf = TLV_OK
              then (case factory mf of Some m \<Rightarrow> Received m | None \<Rightarrow> Thrown, c1\<lparr>cn_invalid_msg_count := 0\<rparr>)
              else
                let c2 = c1\<lparr>cn_invalid_msg_count := cn_invalid_msg_count c1 + 1\<rparr>;
                    r = (if cn_auto_error_response c2 then Connection_send serialize (respond mf) c2 else (True, c2)); c3 = snd r
                in if \<not> fst r then (Failed, c3)
                   else if cn_max_invalid_msg c3 > 0 \<and> cn_invalid_msg_count c3 \<ge> cn_max_invalid_msg c3
                   then (Failed, c3\<lparr>cn_connected := False\<rparr>)
                   else Connection_receive serialize factory respond p c3))"
  by pat_completeness auto
termination
  by (relation "measure (\<lambda>(serialize, factory, respond, p, c). length (concat (cn_in c)))")
    (auto simp: Connection_send_def tcp_send_def dest: receive_frame_less(1) [OF sym])

declare Connection_receive.simps [simp del]

lemma Connection_receive_bad:
  assumes "receive_frame p c = (Some bb, c1)" "mf_error (analyzeMessage bb p) \<noteq> TLV_OK"
    and "c2 = c1\<lparr>cn_invalid_msg_count := cn_invalid_msg_count c1 + 1\<rparr>"
    and "(if cn_auto_error_response c2 then Connection_send serialize (respond (analyzeMessage bb p)) c2 else (True, c2)) = (True, c3)"
  shows "Connection_receive serialize factory respond p c =
    (if cn_max_invalid_msg c3 > 0 \<and> cn_invalid_msg_count c3 \<ge> cn_max_invalid_msg c3
     then (Failed, c3\<lparr>cn_connected := False\<rparr>) else Connection_receive serialize factory respond p c3)"
  by (subst Connection_receive.simps)
    (simp only: assms(1,2,4) Let_def assms(3) [symmetric] prod.case option.case if_False fst_conv snd_conv not_True_eq_False)

text \<open>A complete frame. What it contains may be invalid.\<close>

definition framed :: "Protocol \<Rightarrow> byte list \<Rightarrow> bool" where
  "framed p f \<longleftrightarrow> length (header p) + 4 \<le> length f \<and>
     length f = length (header p) + 4 + unat (GetUInt16 f (length (header p) + 2))"

lemma framed_tlv: "short f \<Longrightarrow> framed p (header p @ tlv_bytes f)"
  using tlv_bytes_length [of f "header p" "[]"] by (simp add: framed_def)

definition listening :: "Connection \<Rightarrow> byte list \<Rightarrow> bool" where
  "listening c bs \<longleftrightarrow> cn_connected c \<and> [] \<notin> set (cn_in c) \<and> concat (cn_in c) = bs"

lemma receive_frame_framed:
  assumes c: "listening c (f @ rest)" and f: "framed p f"
  shows "\<exists>segs. receive_frame p c = (Some f, c\<lparr>cn_in := segs\<rparr>) \<and> listening (c\<lparr>cn_in := segs\<rparr>) rest"
proof -
  define n where "n = length (header p) + 4"
  define k where "k = unat (GetUInt16 f (length (header p) + 2))"
  have h: "n = (if pr_has_version p then 5 else 4)" "length (header p) + 2 = (if pr_has_version p then 3 else 2)"
    by (simp_all add: n_def header_def)
  have l: "n \<le> length f" "length f = n + k" using f by (simp_all add: framed_def n_def k_def)
  have conn: "cn_connected c" "[] \<notin> set (cn_in c)" "concat (cn_in c) = f @ rest" using c by (simp_all add: listening_def)
  obtain s1 where s1: "tcp_receive n c = (Some (take n f), c\<lparr>cn_in := s1\<rparr>)" "concat s1 = drop n f @ rest" "[] \<notin> set s1"
    using tcp_receive_all [OF conn(1,2), of n] conn(3) l by auto
  obtain s2 where s2: "tcp_receive k (c\<lparr>cn_in := s1\<rparr>) = (Some (drop n f), c\<lparr>cn_in := s2\<rparr>)" "concat s2 = rest" "[] \<notin> set s2"
    using tcp_receive_all [of "c\<lparr>cn_in := s1\<rparr>" k] conn(1) s1(2,3) l by auto
  have "GetUInt16 (take n f) (length (header p) + 2) = GetUInt16 f (length (header p) + 2)" by (simp add: n_def)
  then have k: "unat (GetUInt16 (take n f) (if pr_has_version p then 3 else 2)) = k" by (simp only: k_def h(2))
  have "receive_frame p c = (Some (take n f @ drop n f), c\<lparr>cn_in := s2\<rparr>)"
    unfolding receive_frame_def Let_def h(1) [symmetric] s1(1) prod.case option.case k s2(1) ..
  then show ?thesis using s2(2,3) conn(1) by (intro exI [of _ s2]) (simp add: listening_def)
qed

text \<open>The bytes of a message, the answers to invalid messages, and the connection after them.\<close>

definition wire :: "('m \<Rightarrow> Serializer \<Rightarrow> Serializer) \<Rightarrow> 'm \<Rightarrow> byte list" where
  "wire serialize m = sz_bb (serialize m (Serializer_new []))"

definition answers ::
  "('m \<Rightarrow> Serializer \<Rightarrow> Serializer) \<Rightarrow> (MessageFactory \<Rightarrow> 'm) \<Rightarrow> Protocol \<Rightarrow> Connection \<Rightarrow> byte list list \<Rightarrow> byte list" where
  "answers serialize respond p c bad =
     (if cn_auto_error_response c then concat (map (\<lambda>f. wire serialize (respond (analyzeMessage f p))) bad) else [])"

definition after_invalid ::
  "('m \<Rightarrow> Serializer \<Rightarrow> Serializer) \<Rightarrow> (MessageFactory \<Rightarrow> 'm) \<Rightarrow> Protocol \<Rightarrow> Connection \<Rightarrow> byte list list \<Rightarrow> byte list list \<Rightarrow> Connection" where
  "after_invalid serialize respond p c segs bad = c\<lparr>cn_in := segs, cn_out := cn_out c @ answers serialize respond p c bad,
     cn_invalid_msg_count := cn_invalid_msg_count c + length bad\<rparr>"

text \<open>Several messages, sent and received one after the other.\<close>

fun send_all :: "('m \<Rightarrow> Serializer \<Rightarrow> Serializer) \<Rightarrow> 'm list \<Rightarrow> Connection \<Rightarrow> bool \<times> Connection" where
  "send_all serialize [] c = (True, c)"
| "send_all serialize (m # ms) c =
     (case Connection_send serialize m c of (True, c1) \<Rightarrow> send_all serialize ms c1 | (False, c1) \<Rightarrow> (False, c1))"

fun receive_all ::
  "('m \<Rightarrow> Serializer \<Rightarrow> Serializer) \<Rightarrow> (MessageFactory \<Rightarrow> 'm option) \<Rightarrow> (MessageFactory \<Rightarrow> 'm) \<Rightarrow> Protocol \<Rightarrow>
   nat \<Rightarrow> Connection \<Rightarrow> 'm reception list \<times> Connection" where
  "receive_all serialize factory respond p 0 c = ([], c)"
| "receive_all serialize factory respond p (Suc n) c =
     (case Connection_receive serialize factory respond p c of
        (r, c1) \<Rightarrow> (case receive_all serialize factory respond p n c1 of (rs, c2) \<Rightarrow> (r # rs, c2)))"

lemma send_all_out:
  "cn_connected c \<Longrightarrow> \<not> cn_broken c \<Longrightarrow> send_all serialize ms c = (True, c\<lparr>cn_out := cn_out c @ concat (map (wire serialize) ms)\<rparr>)"
  by (induction ms arbitrary: c) (simp_all add: Connection_send_def tcp_send_def wire_def)

section \<open>Messages of a protocol\<close>

locale tlv_messages =
  fixes proto :: Protocol
    and serialize :: "'m \<Rightarrow> Serializer \<Rightarrow> Serializer"
    and factory :: "MessageFactory \<Rightarrow> 'm option"
    and respond :: "MessageFactory \<Rightarrow> 'm"
    and valid :: "'m \<Rightarrow> bool"
    and tag :: "'m \<Rightarrow> u16"
    and fields :: "'m \<Rightarrow> field list"
  assumes serialized: "valid m \<Longrightarrow> sz_bb (serialize m (Serializer_new [])) = header proto @ tlv_bytes (tag m, fields_bytes (fields m))"
    and fits: "valid m \<Longrightarrow> length (fields_bytes (fields m)) < 65536"
    and conforms: "valid m \<Longrightarrow> message_ok proto (tag m) (fields m)"
    and built: "valid m \<Longrightarrow> mf_tag mf = tag m \<Longrightarrow> mf_version mf = pr_version proto \<Longrightarrow> mf_holds mf (fields m) \<Longrightarrow> factory mf = Some m"
    and total: "message_ok proto (mf_tag mf) fs \<Longrightarrow> mf_holds mf fs \<Longrightarrow> factory mf \<noteq> None"
    and respond_valid: "valid (respond mf)"
    and versioned: "pr_has_version proto"
begin

lemma wire_analyzed:
  assumes "valid m"
  shows "mf_error (analyzeMessage (wire serialize m @ junk) proto) = TLV_OK" and "factory (analyzeMessage (wire serialize m @ junk) proto) = Some m"
proof -
  obtain params where p: "omap_get (pr_commands proto) (tag m) = Some params" "\<forall>f \<in> set (fields m). field_ok params f" "counts_ok params (fields m)"
    using conforms [OF assms] by (auto simp: message_ok_def)
  have m: "wire serialize m @ junk = header proto @ tlv_bytes (tag m, fields_bytes (fields m) @ []) @ junk"
    using serialized [OF assms] by (simp add: wire_def)
  have l: "length (fields_bytes (fields m) @ []) < 65536" using fits [OF assms] by simp
  note a = analyzeMessage_fields [OF p(1) l _ m p(2)]
  show "mf_error (analyzeMessage (wire serialize m @ junk) proto) = TLV_OK" using a(1) p(3) by simp
  show "factory (analyzeMessage (wire serialize m @ junk) proto) = Some m"
    by (rule built [OF assms]) (use a(2,3,4) versioned in simp_all)
qed

lemma never_throws:
  assumes "mf_error (analyzeMessage msg proto) = TLV_OK"
  shows "factory (analyzeMessage msg proto) \<noteq> None"
proof -
  obtain fs where "message_ok proto (mf_tag (analyzeMessage msg proto)) fs" "mf_holds (analyzeMessage msg proto) fs"
    using analyzeMessage_accepted_fields [OF assms] by auto
  then show ?thesis by (rule total)
qed

lemma wire_framed: "valid m \<Longrightarrow> framed proto (wire serialize m)"
  using framed_tlv [of "(tag m, fields_bytes (fields m))" proto] serialized fits by (simp add: wire_def)

lemma receive_valid:
  assumes "valid m" "listening c (wire serialize m @ rest)"
  shows "\<exists>segs. Connection_receive serialize factory respond proto c = (Received m, c\<lparr>cn_in := segs, cn_invalid_msg_count := 0\<rparr>) \<and>
    listening (c\<lparr>cn_in := segs\<rparr>) rest"
proof -
  obtain segs where s: "receive_frame proto c = (Some (wire serialize m), c\<lparr>cn_in := segs\<rparr>)" "listening (c\<lparr>cn_in := segs\<rparr>) rest"
    using receive_frame_framed [OF assms(2) wire_framed [OF assms(1)]] by blast
  then show ?thesis
    using wire_analyzed [OF assms(1), of "[]"] by (intro exI [of _ segs], subst Connection_receive.simps) simp
qed

lemma receive_invalid:
  assumes f: "framed proto f" "mf_error (analyzeMessage f proto) \<noteq> TLV_OK" and c: "listening c (f @ rest)" "\<not> cn_broken c"
  shows "\<exists>segs. listening (after_invalid serialize respond proto c segs [f]) rest \<and>
    Connection_receive serialize factory respond proto c =
      (if cn_max_invalid_msg c > 0 \<and> cn_invalid_msg_count c + 1 \<ge> cn_max_invalid_msg c
       then (Failed, after_invalid serialize respond proto c segs [f]\<lparr>cn_connected := False\<rparr>)
       else Connection_receive serialize factory respond proto (after_invalid serialize respond proto c segs [f]))"
proof -
  obtain segs where s: "receive_frame proto c = (Some f, c\<lparr>cn_in := segs\<rparr>)" "listening (c\<lparr>cn_in := segs\<rparr>) rest"
    using receive_frame_framed [OF c(1) f(1)] by blast
  have "cn_connected c" using c(1) by (simp add: listening_def)
  define c2 where "c2 = c\<lparr>cn_in := segs, cn_invalid_msg_count := cn_invalid_msg_count c + 1\<rparr>"
  have "(if cn_auto_error_response c2 then Connection_send serialize (respond (analyzeMessage f proto)) c2 else (True, c2)) =
      (True, after_invalid serialize respond proto c segs [f])"
    using \<open>cn_connected c\<close> c(2)
    by (simp add: c2_def after_invalid_def answers_def Connection_send_def tcp_send_def wire_def)
  from Connection_receive_bad [where respond = respond and factory = factory, OF s(1) f(2) _ this] show ?thesis
    using s(2) by (intro exI [of _ segs]) (simp add: c2_def after_invalid_def listening_def)
qed

lemma after_invalid_append: "after_invalid serialize respond proto (after_invalid serialize respond proto c segs bad) segs' bad' = after_invalid serialize respond proto c segs' (bad @ bad')"
  by (simp add: after_invalid_def answers_def)

lemma receive_after_invalid:
  assumes "\<forall>f \<in> set bad. framed proto f \<and> mf_error (analyzeMessage f proto) \<noteq> TLV_OK" and "valid m"
    and "listening c (concat bad @ wire serialize m @ rest)" "\<not> cn_broken c"
    and "cn_max_invalid_msg c = 0 \<or> cn_invalid_msg_count c + length bad < cn_max_invalid_msg c"
  shows "\<exists>segs. listening (after_invalid serialize respond proto c segs bad) rest \<and> Connection_receive serialize factory respond proto c =
    (Received m, after_invalid serialize respond proto c segs bad\<lparr>cn_invalid_msg_count := 0\<rparr>)"
  using assms
proof (induction bad arbitrary: c)
  case Nil
  then obtain segs where "Connection_receive serialize factory respond proto c = (Received m, c\<lparr>cn_in := segs, cn_invalid_msg_count := 0\<rparr>)"
      "listening (c\<lparr>cn_in := segs\<rparr>) rest" using receive_valid [of m c rest] by auto
  then show ?case by (intro exI [of _ segs]) (simp add: after_invalid_def answers_def listening_def)
next
  case (Cons f bad)
  have f: "framed proto f" "mf_error (analyzeMessage f proto) \<noteq> TLV_OK" "listening c (f @ concat bad @ wire serialize m @ rest)"
    using Cons.prems(1,3) by simp_all
  obtain segs where s: "listening (after_invalid serialize respond proto c segs [f]) (concat bad @ wire serialize m @ rest)"
      "Connection_receive serialize factory respond proto c =
      (if cn_max_invalid_msg c > 0 \<and> cn_invalid_msg_count c + 1 \<ge> cn_max_invalid_msg c
       then (Failed, after_invalid serialize respond proto c segs [f]\<lparr>cn_connected := False\<rparr>)
       else Connection_receive serialize factory respond proto (after_invalid serialize respond proto c segs [f]))"
    using receive_invalid [OF f Cons.prems(4)] by blast
  have n: "\<not> (cn_max_invalid_msg c > 0 \<and> cn_invalid_msg_count c + 1 \<ge> cn_max_invalid_msg c)" using Cons.prems(5) by auto
  have p: "\<forall>f \<in> set bad. framed proto f \<and> mf_error (analyzeMessage f proto) \<noteq> TLV_OK" "\<not> cn_broken (after_invalid serialize respond proto c segs [f])"
      "cn_max_invalid_msg (after_invalid serialize respond proto c segs [f]) = 0 \<or>
       cn_invalid_msg_count (after_invalid serialize respond proto c segs [f]) + length bad < cn_max_invalid_msg (after_invalid serialize respond proto c segs [f])"
    using Cons.prems(1,4,5) by (simp_all add: after_invalid_def)
  from Cons.IH [OF p(1) Cons.prems(2) s(1) p(2,3)] show ?case
    unfolding s(2) if_not_P [OF n] after_invalid_append by simp
qed

lemma receive_too_many:
  assumes "\<forall>f \<in> set bad. framed proto f \<and> mf_error (analyzeMessage f proto) \<noteq> TLV_OK"
    and "listening c (concat bad @ rest)" "\<not> cn_broken c" "bad \<noteq> []"
    and "cn_invalid_msg_count c + length bad = cn_max_invalid_msg c"
  shows "\<exists>segs. Connection_receive serialize factory respond proto c = (Failed, after_invalid serialize respond proto c segs bad\<lparr>cn_connected := False\<rparr>)"
  using assms
proof (induction bad arbitrary: c)
  case (Cons f bad)
  have f: "framed proto f" "mf_error (analyzeMessage f proto) \<noteq> TLV_OK" "listening c (f @ concat bad @ rest)"
    using Cons.prems(1,2) by simp_all
  obtain segs where s: "listening (after_invalid serialize respond proto c segs [f]) (concat bad @ rest)"
      "Connection_receive serialize factory respond proto c =
      (if cn_max_invalid_msg c > 0 \<and> cn_invalid_msg_count c + 1 \<ge> cn_max_invalid_msg c
       then (Failed, after_invalid serialize respond proto c segs [f]\<lparr>cn_connected := False\<rparr>)
       else Connection_receive serialize factory respond proto (after_invalid serialize respond proto c segs [f]))"
    using receive_invalid [OF f Cons.prems(3)] by blast
  show ?case
  proof (cases "bad = []")
    case True
    then show ?thesis using s(2) Cons.prems(5) by (intro exI [of _ segs]) simp
  next
    case False
    then have n: "\<not> (cn_max_invalid_msg c > 0 \<and> cn_invalid_msg_count c + 1 \<ge> cn_max_invalid_msg c)"
      using Cons.prems(5) by (cases bad) auto
    have p: "\<forall>f \<in> set bad. framed proto f \<and> mf_error (analyzeMessage f proto) \<noteq> TLV_OK" "\<not> cn_broken (after_invalid serialize respond proto c segs [f])"
        "cn_invalid_msg_count (after_invalid serialize respond proto c segs [f]) + length bad = cn_max_invalid_msg (after_invalid serialize respond proto c segs [f])"
      using Cons.prems(1,3,5) by (simp_all add: after_invalid_def)
    from Cons.IH [OF p(1) s(1) p(2) False p(3)] show ?thesis
      unfolding s(2) if_not_P [OF n] after_invalid_append by simp
  qed
qed simp

text \<open>The messages that one side sends arrive at the other side, in order, however the bytes are cut in segments.\<close>

lemma receive_sent:
  assumes "\<forall>m \<in> set ms. valid m" "listening c (concat (map (wire serialize) ms) @ rest)"
  shows "\<exists>c'. receive_all serialize factory respond proto (length ms) c = (map Received ms, c') \<and> listening c' rest"
  using assms
proof (induction ms arbitrary: c)
  case (Cons m ms)
  then obtain segs where "Connection_receive serialize factory respond proto c = (Received m, c\<lparr>cn_in := segs, cn_invalid_msg_count := 0\<rparr>)"
      "listening (c\<lparr>cn_in := segs, cn_invalid_msg_count := 0\<rparr>) (concat (map (wire serialize) ms) @ rest)"
    using receive_valid [of m c "concat (map (wire serialize) ms) @ rest"] by (auto simp: listening_def)
  then show ?case using Cons.IH [of "c\<lparr>cn_in := segs, cn_invalid_msg_count := 0\<rparr>"] Cons.prems(1) by auto
qed simp

end

end
