(* ===== verification/Ts_ECMG.thy ===== *)
theory Ts_ECMG
  imports Ts_TLV_Connection "HOL-Library.Monad_Syntax"
begin

text \<open>
  The protocol between the ECM generators and the SimulCrypt synchronizer of DVB SimulCrypt: \<open>tsECMGSCS.cpp\<close>.
  Signed integers are their two's complement words. The names and the dumps of the messages are left out.
\<close>

section \<open>Tags and protocol\<close>

text \<open>The command tags and the parameter tags.\<close>

abbreviation (input) Tag_channel_setup :: u16 where "Tag_channel_setup \<equiv> 0x0001"
abbreviation (input) Tag_channel_test :: u16 where "Tag_channel_test \<equiv> 0x0002"
abbreviation (input) Tag_channel_status :: u16 where "Tag_channel_status \<equiv> 0x0003"
abbreviation (input) Tag_channel_close :: u16 where "Tag_channel_close \<equiv> 0x0004"
abbreviation (input) Tag_channel_error :: u16 where "Tag_channel_error \<equiv> 0x0005"
abbreviation (input) Tag_stream_setup :: u16 where "Tag_stream_setup \<equiv> 0x0101"
abbreviation (input) Tag_stream_test :: u16 where "Tag_stream_test \<equiv> 0x0102"
abbreviation (input) Tag_stream_status :: u16 where "Tag_stream_status \<equiv> 0x0103"
abbreviation (input) Tag_stream_close_request :: u16 where "Tag_stream_close_request \<equiv> 0x0104"
abbreviation (input) Tag_stream_close_response :: u16 where "Tag_stream_close_response \<equiv> 0x0105"
abbreviation (input) Tag_stream_error :: u16 where "Tag_stream_error \<equiv> 0x0106"
abbreviation (input) Tag_CW_provision :: u16 where "Tag_CW_provision \<equiv> 0x0201"
abbreviation (input) Tag_ECM_response :: u16 where "Tag_ECM_response \<equiv> 0x0202"
abbreviation (input) Tag_Super_CAS_id :: u16 where "Tag_Super_CAS_id \<equiv> 0x0001"
abbreviation (input) Tag_section_TSpkt_flag :: u16 where "Tag_section_TSpkt_flag \<equiv> 0x0002"
abbreviation (input) Tag_delay_start :: u16 where "Tag_delay_start \<equiv> 0x0003"
abbreviation (input) Tag_delay_stop :: u16 where "Tag_delay_stop \<equiv> 0x0004"
abbreviation (input) Tag_transition_delay_start :: u16 where "Tag_transition_delay_start \<equiv> 0x0005"
abbreviation (input) Tag_transition_delay_stop :: u16 where "Tag_transition_delay_stop \<equiv> 0x0006"
abbreviation (input) Tag_ECM_rep_period :: u16 where "Tag_ECM_rep_period \<equiv> 0x0007"
abbreviation (input) Tag_max_streams :: u16 where "Tag_max_streams \<equiv> 0x0008"
abbreviation (input) Tag_min_CP_duration :: u16 where "Tag_min_CP_duration \<equiv> 0x0009"
abbreviation (input) Tag_lead_CW :: u16 where "Tag_lead_CW \<equiv> 0x000A"
abbreviation (input) Tag_CW_per_msg :: u16 where "Tag_CW_per_msg \<equiv> 0x000B"
abbreviation (input) Tag_max_comp_time :: u16 where "Tag_max_comp_time \<equiv> 0x000C"
abbreviation (input) Tag_access_criteria :: u16 where "Tag_access_criteria \<equiv> 0x000D"
abbreviation (input) Tag_ECM_channel_id :: u16 where "Tag_ECM_channel_id \<equiv> 0x000E"
abbreviation (input) Tag_ECM_stream_id :: u16 where "Tag_ECM_stream_id \<equiv> 0x000F"
abbreviation (input) Tag_nominal_CP_duration :: u16 where "Tag_nominal_CP_duration \<equiv> 0x0010"
abbreviation (input) Tag_access_criteria_transfer_mode :: u16 where "Tag_access_criteria_transfer_mode \<equiv> 0x0011"
abbreviation (input) Tag_CP_number :: u16 where "Tag_CP_number \<equiv> 0x0012"
abbreviation (input) Tag_CP_duration :: u16 where "Tag_CP_duration \<equiv> 0x0013"
abbreviation (input) Tag_CP_CW_combination :: u16 where "Tag_CP_CW_combination \<equiv> 0x0014"
abbreviation (input) Tag_ECM_datagram :: u16 where "Tag_ECM_datagram \<equiv> 0x0015"
abbreviation (input) Tag_AC_delay_start :: u16 where "Tag_AC_delay_start \<equiv> 0x0016"
abbreviation (input) Tag_AC_delay_stop :: u16 where "Tag_AC_delay_stop \<equiv> 0x0017"
abbreviation (input) Tag_CW_encryption :: u16 where "Tag_CW_encryption \<equiv> 0x0018"
abbreviation (input) Tag_ECM_id :: u16 where "Tag_ECM_id \<equiv> 0x0019"
abbreviation (input) Tag_error_status :: u16 where "Tag_error_status \<equiv> 0x7000"
abbreviation (input) Tag_error_information :: u16 where "Tag_error_information \<equiv> 0x7001"

definition ecmg_protocol :: Protocol where
  "ecmg_protocol = fold (\<lambda>add p. add p)
    [pr_add Tag_channel_setup Tag_Super_CAS_id 4 4 1 1,
     pr_add Tag_channel_setup Tag_ECM_channel_id 2 2 1 1,
     pr_add Tag_channel_test Tag_ECM_channel_id 2 2 1 1,
     pr_add Tag_channel_status Tag_ECM_channel_id 2 2 1 1,
     pr_add Tag_channel_status Tag_section_TSpkt_flag 1 1 1 1,
     pr_add Tag_channel_status Tag_AC_delay_start 2 2 0 1,
     pr_add Tag_channel_status Tag_AC_delay_stop 2 2 0 1,
     pr_add Tag_channel_status Tag_delay_start 2 2 1 1,
     pr_add Tag_channel_status Tag_delay_stop 2 2 1 1,
     pr_add Tag_channel_status Tag_transition_delay_start 2 2 0 1,
     pr_add Tag_channel_status Tag_transition_delay_stop 2 2 0 1,
     pr_add Tag_channel_status Tag_ECM_rep_period 2 2 1 1,
     pr_add Tag_channel_status Tag_max_streams 2 2 1 1,
     pr_add Tag_channel_status Tag_min_CP_duration 2 2 1 1,
     pr_add Tag_channel_status Tag_lead_CW 1 1 1 1,
     pr_add Tag_channel_status Tag_CW_per_msg 1 1 1 1,
     pr_add Tag_channel_status Tag_max_comp_time 2 2 1 1,
     pr_add Tag_channel_close Tag_ECM_channel_id 2 2 1 1,
     pr_add Tag_channel_error Tag_ECM_channel_id 2 2 1 1,
     pr_add Tag_channel_error Tag_error_status 2 2 1 0xFFFF,
     pr_add Tag_channel_error Tag_error_information 2 2 0 0xFFFF,
     pr_add Tag_stream_setup Tag_ECM_channel_id 2 2 1 1,
     pr_add Tag_stream_setup Tag_ECM_stream_id 2 2 1 1,
     pr_add Tag_stream_setup Tag_ECM_id 2 2 1 1,
     pr_add Tag_stream_setup Tag_nominal_CP_duration 2 2 1 1,
     pr_add Tag_stream_test Tag_ECM_channel_id 2 2 1 1,
     pr_add Tag_stream_test Tag_ECM_stream_id 2 2 1 1,
     pr_add Tag_stream_status Tag_ECM_channel_id 2 2 1 1,
     pr_add Tag_stream_status Tag_ECM_stream_id 2 2 1 1,
     pr_add Tag_stream_status Tag_ECM_id 2 2 1 1,
     pr_add Tag_stream_status Tag_access_criteria_transfer_mode 1 1 1 1,
     pr_add Tag_stream_close_request Tag_ECM_channel_id 2 2 1 1,
     pr_add Tag_stream_close_request Tag_ECM_stream_id 2 2 1 1,
     pr_add Tag_stream_close_response Tag_ECM_channel_id 2 2 1 1,
     pr_add Tag_stream_close_response Tag_ECM_stream_id 2 2 1 1,
     pr_add Tag_stream_error Tag_ECM_channel_id 2 2 1 1,
     pr_add Tag_stream_error Tag_ECM_stream_id 2 2 1 1,
     pr_add Tag_stream_error Tag_error_status 2 2 1 0xFFFF,
     pr_add Tag_stream_error Tag_error_information 2 2 0 0xFFFF,
     pr_add Tag_CW_provision Tag_ECM_channel_id 2 2 1 1,
     pr_add Tag_CW_provision Tag_ECM_stream_id 2 2 1 1,
     pr_add Tag_CW_provision Tag_CP_number 2 2 1 1,
     pr_add Tag_CW_provision Tag_CW_encryption 0 0xFFFF 0 1,
     pr_add Tag_CW_provision Tag_CP_CW_combination 2 0xFFFF 0 0xFFFF,
     pr_add Tag_CW_provision Tag_CP_duration 2 2 0 1,
     pr_add Tag_CW_provision Tag_access_criteria 0 0xFFFF 0 1,
     pr_add Tag_ECM_response Tag_ECM_channel_id 2 2 1 1,
     pr_add Tag_ECM_response Tag_ECM_stream_id 2 2 1 1,
     pr_add Tag_ECM_response Tag_CP_number 2 2 1 1,
     pr_add Tag_ECM_response Tag_ECM_datagram 0 0xFFFF 1 1]
    (Protocol_new 3)"

section \<open>Messages\<close>

text \<open>One constructor for each class of messages, with the fields of the class; an optional field is a flag and a value.\<close>

datatype EcmgMessage =
    EcmgChannelSetup (ecmg_version: byte) (ecmg_channel_id: u16) (ecmg_Super_CAS_id: u32)
  | EcmgChannelTest (ecmg_version: byte) (ecmg_channel_id: u16)
  | EcmgChannelStatus (ecmg_version: byte) (ecmg_channel_id: u16) (ecmg_section_TSpkt_flag: bool)
      (ecmg_has_AC_delay_start: bool) (ecmg_AC_delay_start: u16) (ecmg_has_AC_delay_stop: bool) (ecmg_AC_delay_stop: u16)
      (ecmg_delay_start: u16) (ecmg_delay_stop: u16) (ecmg_has_transition_delay_start: bool)
      (ecmg_transition_delay_start: u16) (ecmg_has_transition_delay_stop: bool) (ecmg_transition_delay_stop: u16)
      (ecmg_ECM_rep_period: u16) (ecmg_max_streams: u16) (ecmg_min_CP_duration: u16) (ecmg_lead_CW: byte)
      (ecmg_CW_per_msg: byte) (ecmg_max_comp_time: u16)
  | EcmgChannelClose (ecmg_version: byte) (ecmg_channel_id: u16)
  | EcmgChannelError (ecmg_version: byte) (ecmg_channel_id: u16) (ecmg_error_status: "u16 list")
      (ecmg_error_information: "u16 list")
  | EcmgStreamSetup (ecmg_version: byte) (ecmg_channel_id: u16) (ecmg_stream_id: u16) (ecmg_ECM_id: u16)
      (ecmg_nominal_CP_duration: u16)
  | EcmgStreamTest (ecmg_version: byte) (ecmg_channel_id: u16) (ecmg_stream_id: u16)
  | EcmgStreamStatus (ecmg_version: byte) (ecmg_channel_id: u16) (ecmg_stream_id: u16) (ecmg_ECM_id: u16)
      (ecmg_access_criteria_transfer_mode: bool)
  | EcmgStreamCloseRequest (ecmg_version: byte) (ecmg_channel_id: u16) (ecmg_stream_id: u16)
  | EcmgStreamCloseResponse (ecmg_version: byte) (ecmg_channel_id: u16) (ecmg_stream_id: u16)
  | EcmgStreamError (ecmg_version: byte) (ecmg_channel_id: u16) (ecmg_stream_id: u16) (ecmg_error_status: "u16 list")
      (ecmg_error_information: "u16 list")
  | EcmgCWProvision (ecmg_version: byte) (ecmg_channel_id: u16) (ecmg_stream_id: u16) (ecmg_CP_number: u16)
      (ecmg_has_CW_encryption: bool) (ecmg_CW_encryption: "byte list")
      (ecmg_CP_CW_combination: "(u16 \<times> byte list) list") (ecmg_has_CP_duration: bool) (ecmg_CP_duration: u16)
      (ecmg_has_access_criteria: bool) (ecmg_access_criteria: "byte list")
  | EcmgECMResponse (ecmg_version: byte) (ecmg_channel_id: u16) (ecmg_stream_id: u16) (ecmg_CP_number: u16)
      (ecmg_ECM_datagram: "byte list")

fun ecmg_tag :: "EcmgMessage \<Rightarrow> u16" where
  "ecmg_tag (EcmgChannelSetup _ _ _) = Tag_channel_setup"
| "ecmg_tag (EcmgChannelTest _ _) = Tag_channel_test"
| "ecmg_tag (EcmgChannelStatus _ _ _ _ _ _ _ _ _ _ _ _ _ _ _ _ _ _ _) = Tag_channel_status"
| "ecmg_tag (EcmgChannelClose _ _) = Tag_channel_close"
| "ecmg_tag (EcmgChannelError _ _ _ _) = Tag_channel_error"
| "ecmg_tag (EcmgStreamSetup _ _ _ _ _) = Tag_stream_setup"
| "ecmg_tag (EcmgStreamTest _ _ _) = Tag_stream_test"
| "ecmg_tag (EcmgStreamStatus _ _ _ _ _) = Tag_stream_status"
| "ecmg_tag (EcmgStreamCloseRequest _ _ _) = Tag_stream_close_request"
| "ecmg_tag (EcmgStreamCloseResponse _ _ _) = Tag_stream_close_response"
| "ecmg_tag (EcmgStreamError _ _ _ _ _) = Tag_stream_error"
| "ecmg_tag (EcmgCWProvision _ _ _ _ _ _ _ _ _ _ _) = Tag_CW_provision"
| "ecmg_tag (EcmgECMResponse _ _ _ _ _) = Tag_ECM_response"

text \<open>A serializer for the combination of a crypto-period and a control word, on the same block.\<close>

definition put_CP_CW_combination :: "u16 \<times> byte list \<Rightarrow> Serializer \<Rightarrow> Serializer" where
  "put_CP_CW_combination c z =
     z\<lparr>sz_bb := sz_bb (closeTLV (append_bytes (snd c) (append_bytes (put16 (fst c)) (openTLV Tag_CP_CW_combination (Serializer_new (sz_bb z))))))\<rparr>"

text \<open>\<open>serializeParameters\<close> of each class.\<close>

definition EcmgChannelSetup_params ::
  "u16 \<Rightarrow> u32 \<Rightarrow> Serializer \<Rightarrow> Serializer" where
  "EcmgChannelSetup_params ch cas z =
    (let z = put_uint16 Tag_ECM_channel_id ch z;
        z = put_uint32 Tag_Super_CAS_id cas z
     in z)"

definition EcmgChannelTest_params ::
  "u16 \<Rightarrow> Serializer \<Rightarrow> Serializer" where
  "EcmgChannelTest_params ch z =
    (let z = put_uint16 Tag_ECM_channel_id ch z
     in z)"

definition EcmgChannelStatus_params ::
  "u16 \<Rightarrow> bool \<Rightarrow> bool \<Rightarrow> u16 \<Rightarrow> bool \<Rightarrow> u16 \<Rightarrow>
   u16 \<Rightarrow> u16 \<Rightarrow> bool \<Rightarrow> u16 \<Rightarrow> bool \<Rightarrow> u16 \<Rightarrow>
   u16 \<Rightarrow> u16 \<Rightarrow> u16 \<Rightarrow> byte \<Rightarrow> byte \<Rightarrow> u16 \<Rightarrow> Serializer \<Rightarrow> Serializer" where
  "EcmgChannelStatus_params ch flag h_ac1 ac1 h_ac2 ac2 d1 d2 h_t1 t1 h_t2 t2 rep ms cpd lead per mct z =
    (let z = put_uint16 Tag_ECM_channel_id ch z;
        z = put_bool Tag_section_TSpkt_flag flag z;
        z = (if h_ac1 then put_uint16 Tag_AC_delay_start ac1 z else z);
        z = (if h_ac2 then put_uint16 Tag_AC_delay_stop ac2 z else z);
        z = put_uint16 Tag_delay_start d1 z;
        z = put_uint16 Tag_delay_stop d2 z;
        z = (if h_t1 then put_uint16 Tag_transition_delay_start t1 z else z);
        z = (if h_t2 then put_uint16 Tag_transition_delay_stop t2 z else z);
        z = put_uint16 Tag_ECM_rep_period rep z;
        z = put_uint16 Tag_max_streams ms z;
        z = put_uint16 Tag_min_CP_duration cpd z;
        z = put_uint8 Tag_lead_CW lead z;
        z = put_uint8 Tag_CW_per_msg per z;
        z = put_uint16 Tag_max_comp_time mct z
     in z)"

definition EcmgChannelClose_params ::
  "u16 \<Rightarrow> Serializer \<Rightarrow> Serializer" where
  "EcmgChannelClose_params ch z =
    (let z = put_uint16 Tag_ECM_channel_id ch z
     in z)"

definition EcmgChannelError_params ::
  "u16 \<Rightarrow> u16 list \<Rightarrow> u16 list \<Rightarrow> Serializer \<Rightarrow> Serializer" where
  "EcmgChannelError_params ch es ei z =
    (let z = put_uint16 Tag_ECM_channel_id ch z;
        z = put_uint16s Tag_error_status es z;
        z = put_uint16s Tag_error_information ei z
     in z)"

definition EcmgStreamSetup_params ::
  "u16 \<Rightarrow> u16 \<Rightarrow> u16 \<Rightarrow> u16 \<Rightarrow> Serializer \<Rightarrow> Serializer" where
  "EcmgStreamSetup_params ch st eid ncp z =
    (let z = put_uint16 Tag_ECM_channel_id ch z;
        z = put_uint16 Tag_ECM_stream_id st z;
        z = put_uint16 Tag_ECM_id eid z;
        z = put_uint16 Tag_nominal_CP_duration ncp z
     in z)"

definition EcmgStreamTest_params ::
  "u16 \<Rightarrow> u16 \<Rightarrow> Serializer \<Rightarrow> Serializer" where
  "EcmgStreamTest_params ch st z =
    (let z = put_uint16 Tag_ECM_channel_id ch z;
        z = put_uint16 Tag_ECM_stream_id st z
     in z)"

definition EcmgStreamStatus_params ::
  "u16 \<Rightarrow> u16 \<Rightarrow> u16 \<Rightarrow> bool \<Rightarrow> Serializer \<Rightarrow> Serializer" where
  "EcmgStreamStatus_params ch st eid mode z =
    (let z = put_uint16 Tag_ECM_channel_id ch z;
        z = put_uint16 Tag_ECM_stream_id st z;
        z = put_uint16 Tag_ECM_id eid z;
        z = put_bool Tag_access_criteria_transfer_mode mode z
     in z)"

definition EcmgStreamCloseRequest_params ::
  "u16 \<Rightarrow> u16 \<Rightarrow> Serializer \<Rightarrow> Serializer" where
  "EcmgStreamCloseRequest_params ch st z =
    (let z = put_uint16 Tag_ECM_channel_id ch z;
        z = put_uint16 Tag_ECM_stream_id st z
     in z)"

definition EcmgStreamCloseResponse_params ::
  "u16 \<Rightarrow> u16 \<Rightarrow> Serializer \<Rightarrow> Serializer" where
  "EcmgStreamCloseResponse_params ch st z =
    (let z = put_uint16 Tag_ECM_channel_id ch z;
        z = put_uint16 Tag_ECM_stream_id st z
     in z)"

definition EcmgStreamError_params ::
  "u16 \<Rightarrow> u16 \<Rightarrow> u16 list \<Rightarrow> u16 list \<Rightarrow> Serializer \<Rightarrow> Serializer" where
  "EcmgStreamError_params ch st es ei z =
    (let z = put_uint16 Tag_ECM_channel_id ch z;
        z = put_uint16 Tag_ECM_stream_id st z;
        z = put_uint16s Tag_error_status es z;
        z = put_uint16s Tag_error_information ei z
     in z)"

definition EcmgCWProvision_params ::
  "u16 \<Rightarrow> u16 \<Rightarrow> u16 \<Rightarrow> bool \<Rightarrow> byte list \<Rightarrow>
   (u16 \<times> byte list) list \<Rightarrow> bool \<Rightarrow> u16 \<Rightarrow> bool \<Rightarrow>
   byte list \<Rightarrow> Serializer \<Rightarrow> Serializer" where
  "EcmgCWProvision_params ch st cp h_enc enc cws h_dur dur h_ac ac z =
    (let z = put_uint16 Tag_ECM_channel_id ch z;
        z = put_uint16 Tag_ECM_stream_id st z;
        z = put_uint16 Tag_CP_number cp z;
        z = (if h_enc then put_block Tag_CW_encryption enc z else z);
        z = (if h_dur then put_uint16 Tag_CP_duration dur z else z);
        z = (if h_ac then put_block Tag_access_criteria ac z else z);
        z = fold put_CP_CW_combination cws z
     in z)"

definition EcmgECMResponse_params ::
  "u16 \<Rightarrow> u16 \<Rightarrow> u16 \<Rightarrow> byte list \<Rightarrow> Serializer \<Rightarrow> Serializer" where
  "EcmgECMResponse_params ch st cp ecm z =
    (let z = put_uint16 Tag_ECM_channel_id ch z;
        z = put_uint16 Tag_ECM_stream_id st z;
        z = put_uint16 Tag_CP_number cp z;
        z = put_block Tag_ECM_datagram ecm z
     in z)"

fun ecmg_serializeParameters :: "EcmgMessage \<Rightarrow> Serializer \<Rightarrow> Serializer" where
  "ecmg_serializeParameters (EcmgChannelSetup v ch cas) = EcmgChannelSetup_params ch cas"
| "ecmg_serializeParameters (EcmgChannelTest v ch) = EcmgChannelTest_params ch"
| "ecmg_serializeParameters (EcmgChannelStatus v ch flag h_ac1 ac1 h_ac2 ac2 d1 d2 h_t1 t1 h_t2 t2 rep ms cpd lead per mct) = EcmgChannelStatus_params ch flag h_ac1 ac1 h_ac2 ac2 d1 d2 h_t1 t1 h_t2 t2 rep ms cpd lead per mct"
| "ecmg_serializeParameters (EcmgChannelClose v ch) = EcmgChannelClose_params ch"
| "ecmg_serializeParameters (EcmgChannelError v ch es ei) = EcmgChannelError_params ch es ei"
| "ecmg_serializeParameters (EcmgStreamSetup v ch st eid ncp) = EcmgStreamSetup_params ch st eid ncp"
| "ecmg_serializeParameters (EcmgStreamTest v ch st) = EcmgStreamTest_params ch st"
| "ecmg_serializeParameters (EcmgStreamStatus v ch st eid mode) = EcmgStreamStatus_params ch st eid mode"
| "ecmg_serializeParameters (EcmgStreamCloseRequest v ch st) = EcmgStreamCloseRequest_params ch st"
| "ecmg_serializeParameters (EcmgStreamCloseResponse v ch st) = EcmgStreamCloseResponse_params ch st"
| "ecmg_serializeParameters (EcmgStreamError v ch st es ei) = EcmgStreamError_params ch st es ei"
| "ecmg_serializeParameters (EcmgCWProvision v ch st cp h_enc enc cws h_dur dur h_ac ac) = EcmgCWProvision_params ch st cp h_enc enc cws h_dur dur h_ac ac"
| "ecmg_serializeParameters (EcmgECMResponse v ch st cp ecm) = EcmgECMResponse_params ch st cp ecm"

definition ecmg_serialize :: "EcmgMessage \<Rightarrow> Serializer \<Rightarrow> Serializer" where
  "ecmg_serialize m = Message_serialize True (ecmg_version m) (ecmg_tag m) (ecmg_serializeParameters m)"

section \<open>Factory\<close>

text \<open>The constructors of the messages from a factory.\<close>

definition CP_CW_of :: "MessageFactory \<Rightarrow> ExtParameter \<Rightarrow> u16 \<times> byte list" where
  "CP_CW_of mf p = (GetUInt16 (mf_msg mf) (ep_addr p), take (ep_length p - 2) (drop (ep_addr p + 2) (mf_msg mf)))"

definition EcmgChannelSetup_of :: "MessageFactory \<Rightarrow> EcmgMessage option" where
  "EcmgChannelSetup_of mf = do {
     ch \<leftarrow> get_uint16 mf Tag_ECM_channel_id;
     cas \<leftarrow> get_uint32 mf Tag_Super_CAS_id;
     Some (EcmgChannelSetup (mf_version mf) ch cas)
   }"

definition EcmgChannelTest_of :: "MessageFactory \<Rightarrow> EcmgMessage option" where
  "EcmgChannelTest_of mf = do {
     ch \<leftarrow> get_uint16 mf Tag_ECM_channel_id;
     Some (EcmgChannelTest (mf_version mf) ch)
   }"

definition EcmgChannelStatus_of :: "MessageFactory \<Rightarrow> EcmgMessage option" where
  "EcmgChannelStatus_of mf = do {
     ch \<leftarrow> get_uint16 mf Tag_ECM_channel_id;
     flag \<leftarrow> get_bool mf Tag_section_TSpkt_flag;
     h_ac1 \<leftarrow> Some (mf_count mf Tag_AC_delay_start = 1);
     ac1 \<leftarrow> (if \<not> h_ac1 then Some 0 else get_uint16 mf Tag_AC_delay_start);
     h_ac2 \<leftarrow> Some (mf_count mf Tag_AC_delay_stop = 1);
     ac2 \<leftarrow> (if \<not> h_ac2 then Some 0 else get_uint16 mf Tag_AC_delay_stop);
     d1 \<leftarrow> get_uint16 mf Tag_delay_start;
     d2 \<leftarrow> get_uint16 mf Tag_delay_stop;
     h_t1 \<leftarrow> Some (mf_count mf Tag_transition_delay_start = 1);
     t1 \<leftarrow> (if \<not> h_t1 then Some 0 else get_uint16 mf Tag_transition_delay_start);
     h_t2 \<leftarrow> Some (mf_count mf Tag_transition_delay_stop = 1);
     t2 \<leftarrow> (if \<not> h_t2 then Some 0 else get_uint16 mf Tag_transition_delay_stop);
     rep \<leftarrow> get_uint16 mf Tag_ECM_rep_period;
     ms \<leftarrow> get_uint16 mf Tag_max_streams;
     cpd \<leftarrow> get_uint16 mf Tag_min_CP_duration;
     lead \<leftarrow> get_uint8 mf Tag_lead_CW;
     per \<leftarrow> get_uint8 mf Tag_CW_per_msg;
     mct \<leftarrow> get_uint16 mf Tag_max_comp_time;
     Some (EcmgChannelStatus (mf_version mf) ch flag h_ac1 ac1 h_ac2 ac2 d1 d2 h_t1 t1 h_t2 t2 rep ms cpd lead per mct)
   }"

definition EcmgChannelClose_of :: "MessageFactory \<Rightarrow> EcmgMessage option" where
  "EcmgChannelClose_of mf = do {
     ch \<leftarrow> get_uint16 mf Tag_ECM_channel_id;
     Some (EcmgChannelClose (mf_version mf) ch)
   }"

definition EcmgChannelError_of :: "MessageFactory \<Rightarrow> EcmgMessage option" where
  "EcmgChannelError_of mf = do {
     ch \<leftarrow> get_uint16 mf Tag_ECM_channel_id;
     es \<leftarrow> get_uint16s mf Tag_error_status;
     ei \<leftarrow> get_uint16s mf Tag_error_information;
     Some (EcmgChannelError (mf_version mf) ch es ei)
   }"

definition EcmgStreamSetup_of :: "MessageFactory \<Rightarrow> EcmgMessage option" where
  "EcmgStreamSetup_of mf = do {
     ch \<leftarrow> get_uint16 mf Tag_ECM_channel_id;
     st \<leftarrow> get_uint16 mf Tag_ECM_stream_id;
     eid \<leftarrow> get_uint16 mf Tag_ECM_id;
     ncp \<leftarrow> get_uint16 mf Tag_nominal_CP_duration;
     Some (EcmgStreamSetup (mf_version mf) ch st eid ncp)
   }"

definition EcmgStreamTest_of :: "MessageFactory \<Rightarrow> EcmgMessage option" where
  "EcmgStreamTest_of mf = do {
     ch \<leftarrow> get_uint16 mf Tag_ECM_channel_id;
     st \<leftarrow> get_uint16 mf Tag_ECM_stream_id;
     Some (EcmgStreamTest (mf_version mf) ch st)
   }"

definition EcmgStreamStatus_of :: "MessageFactory \<Rightarrow> EcmgMessage option" where
  "EcmgStreamStatus_of mf = do {
     ch \<leftarrow> get_uint16 mf Tag_ECM_channel_id;
     st \<leftarrow> get_uint16 mf Tag_ECM_stream_id;
     eid \<leftarrow> get_uint16 mf Tag_ECM_id;
     mode \<leftarrow> get_bool mf Tag_access_criteria_transfer_mode;
     Some (EcmgStreamStatus (mf_version mf) ch st eid mode)
   }"

definition EcmgStreamCloseRequest_of :: "MessageFactory \<Rightarrow> EcmgMessage option" where
  "EcmgStreamCloseRequest_of mf = do {
     ch \<leftarrow> get_uint16 mf Tag_ECM_channel_id;
     st \<leftarrow> get_uint16 mf Tag_ECM_stream_id;
     Some (EcmgStreamCloseRequest (mf_version mf) ch st)
   }"

definition EcmgStreamCloseResponse_of :: "MessageFactory \<Rightarrow> EcmgMessage option" where
  "EcmgStreamCloseResponse_of mf = do {
     ch \<leftarrow> get_uint16 mf Tag_ECM_channel_id;
     st \<leftarrow> get_uint16 mf Tag_ECM_stream_id;
     Some (EcmgStreamCloseResponse (mf_version mf) ch st)
   }"

definition EcmgStreamError_of :: "MessageFactory \<Rightarrow> EcmgMessage option" where
  "EcmgStreamError_of mf = do {
     ch \<leftarrow> get_uint16 mf Tag_ECM_channel_id;
     st \<leftarrow> get_uint16 mf Tag_ECM_stream_id;
     es \<leftarrow> get_uint16s mf Tag_error_status;
     ei \<leftarrow> get_uint16s mf Tag_error_information;
     Some (EcmgStreamError (mf_version mf) ch st es ei)
   }"

definition EcmgCWProvision_of :: "MessageFactory \<Rightarrow> EcmgMessage option" where
  "EcmgCWProvision_of mf = do {
     ch \<leftarrow> get_uint16 mf Tag_ECM_channel_id;
     st \<leftarrow> get_uint16 mf Tag_ECM_stream_id;
     cp \<leftarrow> get_uint16 mf Tag_CP_number;
     h_enc \<leftarrow> Some (mf_count mf Tag_CW_encryption = 1);
     enc \<leftarrow> (if \<not> h_enc then Some [] else get_block mf Tag_CW_encryption);
     cws \<leftarrow> Some (map (CP_CW_of mf) (mf_get_all mf Tag_CP_CW_combination));
     h_dur \<leftarrow> Some (mf_count mf Tag_CP_duration = 1);
     dur \<leftarrow> (if \<not> h_dur then Some 0 else get_uint16 mf Tag_CP_duration);
     h_ac \<leftarrow> Some (mf_count mf Tag_access_criteria = 1);
     ac \<leftarrow> (if \<not> h_ac then Some [] else get_block mf Tag_access_criteria);
     Some (EcmgCWProvision (mf_version mf) ch st cp h_enc enc cws h_dur dur h_ac ac)
   }"

definition EcmgECMResponse_of :: "MessageFactory \<Rightarrow> EcmgMessage option" where
  "EcmgECMResponse_of mf = do {
     ch \<leftarrow> get_uint16 mf Tag_ECM_channel_id;
     st \<leftarrow> get_uint16 mf Tag_ECM_stream_id;
     cp \<leftarrow> get_uint16 mf Tag_CP_number;
     ecm \<leftarrow> get_block mf Tag_ECM_datagram;
     Some (EcmgECMResponse (mf_version mf) ch st cp ecm)
   }"

definition ecmg_factory :: "MessageFactory \<Rightarrow> EcmgMessage option" where
  "ecmg_factory mf =
     (if mf_tag mf = Tag_channel_setup then EcmgChannelSetup_of mf
      else if mf_tag mf = Tag_channel_test then EcmgChannelTest_of mf
      else if mf_tag mf = Tag_channel_status then EcmgChannelStatus_of mf
      else if mf_tag mf = Tag_channel_close then EcmgChannelClose_of mf
      else if mf_tag mf = Tag_channel_error then EcmgChannelError_of mf
      else if mf_tag mf = Tag_stream_setup then EcmgStreamSetup_of mf
      else if mf_tag mf = Tag_stream_test then EcmgStreamTest_of mf
      else if mf_tag mf = Tag_stream_status then EcmgStreamStatus_of mf
      else if mf_tag mf = Tag_stream_close_request then EcmgStreamCloseRequest_of mf
      else if mf_tag mf = Tag_stream_close_response then EcmgStreamCloseResponse_of mf
      else if mf_tag mf = Tag_stream_error then EcmgStreamError_of mf
      else if mf_tag mf = Tag_CW_provision then EcmgCWProvision_of mf
      else if mf_tag mf = Tag_ECM_response then EcmgECMResponse_of mf
      else None)"

definition ecmg_error_code :: "tlv_error \<Rightarrow> u16" where
  "ecmg_error_code e = (case e of TLV_OK \<Rightarrow> 0x0001 | InvalidMessage \<Rightarrow> 0x0001 | UnsupportedVersion \<Rightarrow> 0x0002
     | UnknownCommandTag \<Rightarrow> 0x0003 | UnknownParameterTag \<Rightarrow> 0x000E | InvalidParameterLength \<Rightarrow> 0x000F
     | InvalidParameterCount \<Rightarrow> 0x0010 | MissingParameter \<Rightarrow> 0x0010)"

definition ecmg_buildErrorResponse :: "MessageFactory \<Rightarrow> EcmgMessage" where
  "ecmg_buildErrorResponse mf =
     EcmgChannelError 3 (case get_uint16 mf Tag_ECM_channel_id of Some ch \<Rightarrow> ch | None \<Rightarrow> 0) [ecmg_error_code (mf_error mf)] [mf_info mf]"

section \<open>Valid messages\<close>

text \<open>The fields of a message, in the order in which they are written.\<close>

fun ecmg_fields :: "EcmgMessage \<Rightarrow> field list" where
  "ecmg_fields (EcmgChannelSetup v ch cas) =
     [(Tag_ECM_channel_id, put16 ch), (Tag_Super_CAS_id, put32 cas)]"
| "ecmg_fields (EcmgChannelTest v ch) =
     [(Tag_ECM_channel_id, put16 ch)]"
| "ecmg_fields (EcmgChannelStatus v ch flag h_ac1 ac1 h_ac2 ac2 d1 d2 h_t1 t1 h_t2 t2 rep ms cpd lead per mct) =
     [(Tag_ECM_channel_id, put16 ch), (Tag_section_TSpkt_flag, [if flag then 1 else 0])] @
     (if h_ac1 then [(Tag_AC_delay_start, put16 ac1)] else []) @
     (if h_ac2 then [(Tag_AC_delay_stop, put16 ac2)] else []) @
     [(Tag_delay_start, put16 d1), (Tag_delay_stop, put16 d2)] @
     (if h_t1 then [(Tag_transition_delay_start, put16 t1)] else []) @
     (if h_t2 then [(Tag_transition_delay_stop, put16 t2)] else []) @
     [(Tag_ECM_rep_period, put16 rep), (Tag_max_streams, put16 ms), (Tag_min_CP_duration, put16 cpd), (Tag_lead_CW, [lead]), (Tag_CW_per_msg, [per]), (Tag_max_comp_time, put16 mct)]"
| "ecmg_fields (EcmgChannelClose v ch) =
     [(Tag_ECM_channel_id, put16 ch)]"
| "ecmg_fields (EcmgChannelError v ch es ei) =
     [(Tag_ECM_channel_id, put16 ch)] @
     map (\<lambda>w. (Tag_error_status, put16 w)) es @
     map (\<lambda>w. (Tag_error_information, put16 w)) ei"
| "ecmg_fields (EcmgStreamSetup v ch st eid ncp) =
     [(Tag_ECM_channel_id, put16 ch), (Tag_ECM_stream_id, put16 st), (Tag_ECM_id, put16 eid), (Tag_nominal_CP_duration, put16 ncp)]"
| "ecmg_fields (EcmgStreamTest v ch st) =
     [(Tag_ECM_channel_id, put16 ch), (Tag_ECM_stream_id, put16 st)]"
| "ecmg_fields (EcmgStreamStatus v ch st eid mode) =
     [(Tag_ECM_channel_id, put16 ch), (Tag_ECM_stream_id, put16 st), (Tag_ECM_id, put16 eid), (Tag_access_criteria_transfer_mode, [if mode then 1 else 0])]"
| "ecmg_fields (EcmgStreamCloseRequest v ch st) =
     [(Tag_ECM_channel_id, put16 ch), (Tag_ECM_stream_id, put16 st)]"
| "ecmg_fields (EcmgStreamCloseResponse v ch st) =
     [(Tag_ECM_channel_id, put16 ch), (Tag_ECM_stream_id, put16 st)]"
| "ecmg_fields (EcmgStreamError v ch st es ei) =
     [(Tag_ECM_channel_id, put16 ch), (Tag_ECM_stream_id, put16 st)] @
     map (\<lambda>w. (Tag_error_status, put16 w)) es @
     map (\<lambda>w. (Tag_error_information, put16 w)) ei"
| "ecmg_fields (EcmgCWProvision v ch st cp h_enc enc cws h_dur dur h_ac ac) =
     [(Tag_ECM_channel_id, put16 ch), (Tag_ECM_stream_id, put16 st), (Tag_CP_number, put16 cp)] @
     (if h_enc then [(Tag_CW_encryption, enc)] else []) @
     (if h_dur then [(Tag_CP_duration, put16 dur)] else []) @
     (if h_ac then [(Tag_access_criteria, ac)] else []) @
     map (\<lambda>c. (Tag_CP_CW_combination, put16 (fst c) @ snd c)) cws"
| "ecmg_fields (EcmgECMResponse v ch st cp ecm) =
     [(Tag_ECM_channel_id, put16 ch), (Tag_ECM_stream_id, put16 st), (Tag_CP_number, put16 cp), (Tag_ECM_datagram, ecm)]"

text \<open>A message that the protocol can carry: the parameters fit in one field, an absent optional value has its default and an
  error message has an error status.\<close>

fun ecmg_consistent :: "EcmgMessage \<Rightarrow> bool" where
  "ecmg_consistent (EcmgChannelStatus v ch flag h_ac1 ac1 h_ac2 ac2 d1 d2 h_t1 t1 h_t2 t2 rep ms cpd lead per mct) \<longleftrightarrow>
     (h_ac1 \<or> ac1 = 0) \<and> (h_ac2 \<or> ac2 = 0) \<and> (h_t1 \<or> t1 = 0) \<and> (h_t2 \<or> t2 = 0)"
| "ecmg_consistent (EcmgChannelError v ch es ei) \<longleftrightarrow> es \<noteq> []"
| "ecmg_consistent (EcmgStreamError v ch st es ei) \<longleftrightarrow> es \<noteq> []"
| "ecmg_consistent (EcmgCWProvision v ch st cp h_enc enc cws h_dur dur h_ac ac) \<longleftrightarrow>
     (h_enc \<or> enc = []) \<and> (h_dur \<or> dur = 0) \<and> (h_ac \<or> ac = [])"
| "ecmg_consistent m \<longleftrightarrow> True"

definition ecmg_valid :: "EcmgMessage \<Rightarrow> bool" where
  "ecmg_valid m \<longleftrightarrow> ecmg_version m = 3 \<and> length (fields_bytes (ecmg_fields m)) < 65536 \<and> ecmg_consistent m"

section \<open>The protocol as a table\<close>

lemma ecmg_protocol_eq: "ecmg_protocol = Protocol True 3
    [(1, [(1, Parameter None 4 4 1 1), (14, Parameter None 2 2 1 1)]),
     (2, [(14, Parameter None 2 2 1 1)]),
     (3, [(2, Parameter None 1 1 1 1), (3, Parameter None 2 2 1 1), (4, Parameter None 2 2 1 1),
           (5, Parameter None 2 2 0 1), (6, Parameter None 2 2 0 1), (7, Parameter None 2 2 1 1),
           (8, Parameter None 2 2 1 1), (9, Parameter None 2 2 1 1), (10, Parameter None 1 1 1 1),
           (11, Parameter None 1 1 1 1), (12, Parameter None 2 2 1 1), (14, Parameter None 2 2 1 1),
           (22, Parameter None 2 2 0 1), (23, Parameter None 2 2 0 1)]),
     (4, [(14, Parameter None 2 2 1 1)]),
     (5, [(14, Parameter None 2 2 1 1), (28672, Parameter None 2 2 1 65535), (28673, Parameter None 2 2 0 65535)]),
     (257, [(14, Parameter None 2 2 1 1), (15, Parameter None 2 2 1 1), (16, Parameter None 2 2 1 1), (25, Parameter None 2 2 1 1)]),
     (258, [(14, Parameter None 2 2 1 1), (15, Parameter None 2 2 1 1)]),
     (259, [(14, Parameter None 2 2 1 1), (15, Parameter None 2 2 1 1), (17, Parameter None 1 1 1 1), (25, Parameter None 2 2 1 1)]),
     (260, [(14, Parameter None 2 2 1 1), (15, Parameter None 2 2 1 1)]),
     (261, [(14, Parameter None 2 2 1 1), (15, Parameter None 2 2 1 1)]),
     (262, [(14, Parameter None 2 2 1 1), (15, Parameter None 2 2 1 1), (28672, Parameter None 2 2 1 65535), (28673, Parameter None 2 2 0 65535)]),
     (513, [(13, Parameter None 0 65535 0 1), (14, Parameter None 2 2 1 1), (15, Parameter None 2 2 1 1),
           (18, Parameter None 2 2 1 1), (19, Parameter None 2 2 0 1), (20, Parameter None 2 65535 0 65535),
           (24, Parameter None 0 65535 0 1)]),
     (514, [(14, Parameter None 2 2 1 1), (15, Parameter None 2 2 1 1), (18, Parameter None 2 2 1 1), (21, Parameter None 0 65535 1 1)])]"
  by (simp add: ecmg_protocol_def pr_add_def add_parameter_def Protocol_new_def omap_get_def)

lemma ecmg_header [simp]: "header ecmg_protocol = [3]" "pr_has_version ecmg_protocol" "pr_version ecmg_protocol = 3"
  by (simp_all add: header_def ecmg_protocol_eq)

section \<open>Writing\<close>

lemma put_CP_CW_fields:
  "fold put_CP_CW_combination cws z = append_bytes (fields_bytes (map (\<lambda>c. (Tag_CP_CW_combination, put16 (fst c) @ snd c)) cws)) z"
proof (induction cws arbitrary: z)
  case (Cons c cws)
  have "put_CP_CW_combination c z = append_bytes (tlv_bytes (Tag_CP_CW_combination, put16 (fst c) @ snd c)) z"
    by (simp add: put_CP_CW_combination_def closeTLV_openTLV) (simp add: append_bytes_def Serializer_new_def)
  then show ?case using Cons by simp
qed simp

lemmas ecmg_params_defs = EcmgChannelSetup_params_def
  EcmgChannelTest_params_def
  EcmgChannelStatus_params_def
  EcmgChannelClose_params_def
  EcmgChannelError_params_def
  EcmgStreamSetup_params_def
  EcmgStreamTest_params_def
  EcmgStreamStatus_params_def
  EcmgStreamCloseRequest_params_def
  EcmgStreamCloseResponse_params_def
  EcmgStreamError_params_def
  EcmgCWProvision_params_def
  EcmgECMResponse_params_def

lemma ecmg_serializeParameters_fields: "ecmg_serializeParameters m z = append_bytes (fields_bytes (ecmg_fields m)) z"
  by (cases m) (simp_all add: ecmg_params_defs puts put_uint16s_fields put_CP_CW_fields Let_def)

section \<open>Conformance\<close>

lemma ecmg_conforms:
  assumes "ecmg_valid m"
  shows "message_ok ecmg_protocol (ecmg_tag m) (ecmg_fields m)"
proof -
  have l: "length (values_of (ecmg_fields m) tag) \<le> 65535" for tag
    using values_of_size [of "ecmg_fields m" tag] assms by (simp add: ecmg_valid_def)
  have "\<forall>f \<in> set (ecmg_fields m). short f" using assms by (intro fields_short) (simp add: ecmg_valid_def)
  then show ?thesis
    using assms l [of 28672] l [of 28673] l [of 20]
    by (cases m) (auto simp: message_ok_def ecmg_protocol_eq omap_get_def field_ok_def counts_ok_def values_of_map_same ecmg_valid_def Suc_le_eq dest: bspec split: if_splits)
qed

section \<open>Reading\<close>

lemmas ecmg_of_defs = EcmgChannelSetup_of_def
  EcmgChannelTest_of_def
  EcmgChannelStatus_of_def
  EcmgChannelClose_of_def
  EcmgChannelError_of_def
  EcmgStreamSetup_of_def
  EcmgStreamTest_of_def
  EcmgStreamStatus_of_def
  EcmgStreamCloseRequest_of_def
  EcmgStreamCloseResponse_of_def
  EcmgStreamError_of_def
  EcmgCWProvision_of_def
  EcmgECMResponse_of_def

lemma map_CP_CW_of:
  assumes h: "mf_holds mf fs" and l: "\<forall>v \<in> set (values_of fs tag). 2 \<le> length v"
  shows "map (CP_CW_of mf) (mf_get_all mf tag) = map (\<lambda>v. (GetUInt16 v 0, drop 2 v)) (values_of fs tag)"
proof -
  have "list_all2 (shows_value (mf_msg mf)) (mf_get_all mf tag) (values_of fs tag)" using h by (simp add: mf_holds_def)
  moreover have "CP_CW_of mf p = (GetUInt16 v 0, drop 2 v)" if s: "shows_value (mf_msg mf) p v" "2 \<le> length v" for p v
  proof -
    have "v ! 0 = mf_msg mf ! ep_addr p" "v ! 1 = mf_msg mf ! (ep_addr p + 1)"
      using shows_value_nth [OF s(1), of 0] shows_value_nth [OF s(1), of 1] s(2) by force+
    moreover have "drop 2 v = take (ep_length p - 2) (drop (ep_addr p + 2) (mf_msg mf))"
      using s by (auto simp: shows_value_def drop_take drop_drop add.commute)
    ultimately show ?thesis by (simp add: CP_CW_of_def GetUInt16_def)
  qed
  ultimately show ?thesis using l by (induction rule: list_all2_induct) auto
qed

lemma ecmg_built:
  assumes m: "ecmg_valid m" "mf_tag mf = ecmg_tag m" "mf_version mf = 3" and h: "mf_holds mf (ecmg_fields m)"
  shows "ecmg_factory mf = Some m"
proof -
  note v = values_simps [OF h] map_CP_CW_of [OF h]
  show ?thesis
    using m by (cases m) (auto simp: ecmg_factory_def ecmg_of_defs get_bool_def v values_of_map_same ecmg_valid_def comp_def
      GetUInt8_def split: if_splits list.splits)
qed

text \<open>No constructor of a message throws on an accepted message.\<close>

lemma ecmg_constructors_total:
  assumes "described mf params"
  shows "params = the (omap_get (pr_commands ecmg_protocol) Tag_channel_setup) \<Longrightarrow> EcmgChannelSetup_of mf \<noteq> None"
    "params = the (omap_get (pr_commands ecmg_protocol) Tag_channel_test) \<Longrightarrow> EcmgChannelTest_of mf \<noteq> None"
    "params = the (omap_get (pr_commands ecmg_protocol) Tag_channel_status) \<Longrightarrow> EcmgChannelStatus_of mf \<noteq> None"
    "params = the (omap_get (pr_commands ecmg_protocol) Tag_channel_close) \<Longrightarrow> EcmgChannelClose_of mf \<noteq> None"
    "params = the (omap_get (pr_commands ecmg_protocol) Tag_channel_error) \<Longrightarrow> EcmgChannelError_of mf \<noteq> None"
    "params = the (omap_get (pr_commands ecmg_protocol) Tag_stream_setup) \<Longrightarrow> EcmgStreamSetup_of mf \<noteq> None"
    "params = the (omap_get (pr_commands ecmg_protocol) Tag_stream_test) \<Longrightarrow> EcmgStreamTest_of mf \<noteq> None"
    "params = the (omap_get (pr_commands ecmg_protocol) Tag_stream_status) \<Longrightarrow> EcmgStreamStatus_of mf \<noteq> None"
    "params = the (omap_get (pr_commands ecmg_protocol) Tag_stream_close_request) \<Longrightarrow> EcmgStreamCloseRequest_of mf \<noteq> None"
    "params = the (omap_get (pr_commands ecmg_protocol) Tag_stream_close_response) \<Longrightarrow> EcmgStreamCloseResponse_of mf \<noteq> None"
    "params = the (omap_get (pr_commands ecmg_protocol) Tag_stream_error) \<Longrightarrow> EcmgStreamError_of mf \<noteq> None"
    "params = the (omap_get (pr_commands ecmg_protocol) Tag_CW_provision) \<Longrightarrow> EcmgCWProvision_of mf \<noteq> None"
    "params = the (omap_get (pr_commands ecmg_protocol) Tag_ECM_response) \<Longrightarrow> EcmgECMResponse_of mf \<noteq> None"
  by (simp_all add: ecmg_of_defs ecmg_protocol_eq omap_get_def Option.bind_eq_None_conv get_bool_None
    described_required [OF assms] described_optional [OF assms] del: not_None_eq)

lemma ecmg_total:
  assumes "message_ok ecmg_protocol (mf_tag mf) fs" "mf_holds mf fs"
  shows "ecmg_factory mf \<noteq> None"
proof -
  obtain params where p: "omap_get (pr_commands ecmg_protocol) (mf_tag mf) = Some params" "described mf params"
    using assms by (auto simp: message_ok_def described_def)
  then have t: "params = the (omap_get (pr_commands ecmg_protocol) (mf_tag mf))" by simp
  have "mf_tag mf \<in> {Tag_channel_setup, Tag_channel_test, Tag_channel_status, Tag_channel_close, Tag_channel_error,
      Tag_stream_setup, Tag_stream_test, Tag_stream_status, Tag_stream_close_request, Tag_stream_close_response,
      Tag_stream_error, Tag_CW_provision, Tag_ECM_response}"
    using p(1) by (auto simp: ecmg_protocol_eq omap_get_def split: if_splits)
  then show ?thesis
    using ecmg_constructors_total [OF p(2)] t by (auto simp: ecmg_factory_def)
qed

lemma ecmg_respond_valid: "ecmg_valid (ecmg_buildErrorResponse mf)"
  by (simp add: ecmg_buildErrorResponse_def ecmg_valid_def)

text \<open>The assertion of the constructor of a \<open>CW_provision\<close>.\<close>

lemma CP_CW_combination_long:
  assumes "message_ok ecmg_protocol (mf_tag mf) fs" "mf_holds mf fs" "mf_tag mf = Tag_CW_provision"
  shows "\<forall>p \<in> set (mf_get_all mf Tag_CP_CW_combination). 2 \<le> ep_length p"
proof -
  have "\<forall>v \<in> set (values_of fs Tag_CP_CW_combination). 2 \<le> length v"
    using assms(1,3) by (force simp: message_ok_def ecmg_protocol_eq omap_get_def field_ok_def values_of_def split: if_splits)
  moreover have "list_all2 (shows_value (mf_msg mf)) (mf_get_all mf Tag_CP_CW_combination) (values_of fs Tag_CP_CW_combination)"
    using assms(2) by (simp add: mf_holds_def)
  ultimately show ?thesis by (fastforce simp: list_all2_conv_all_nth in_set_conv_nth shows_value_def)
qed

interpretation ecmg: tlv_messages ecmg_protocol ecmg_serialize ecmg_factory ecmg_buildErrorResponse ecmg_valid ecmg_tag ecmg_fields
proof unfold_locales
  show "sz_bb (ecmg_serialize m (Serializer_new [])) = header ecmg_protocol @ tlv_bytes (ecmg_tag m, fields_bytes (ecmg_fields m))"
    if "ecmg_valid m" for m
    using that Message_serialize_fields [OF ecmg_serializeParameters_fields, of True "ecmg_version m" "ecmg_tag m" m "Serializer_new []"]
    by (simp add: ecmg_serialize_def ecmg_valid_def) (simp add: Serializer_new_def)
  show "ecmg_valid m \<Longrightarrow> length (fields_bytes (ecmg_fields m)) < 65536" for m by (simp add: ecmg_valid_def)
  show "ecmg_valid m \<Longrightarrow> message_ok ecmg_protocol (ecmg_tag m) (ecmg_fields m)" for m by (rule ecmg_conforms)
  show "ecmg_valid m \<Longrightarrow> mf_tag mf = ecmg_tag m \<Longrightarrow> mf_version mf = pr_version ecmg_protocol \<Longrightarrow> mf_holds mf (ecmg_fields m) \<Longrightarrow>
      ecmg_factory mf = Some m" for m mf using ecmg_built by simp
  show "message_ok ecmg_protocol (mf_tag mf) fs \<Longrightarrow> mf_holds mf fs \<Longrightarrow> ecmg_factory mf \<noteq> None" for mf fs by (rule ecmg_total)
  show "ecmg_valid (ecmg_buildErrorResponse mf)" for mf by (rule ecmg_respond_valid)
  show "pr_has_version ecmg_protocol" by simp
qed

section \<open>Properties\<close>

definition sample_provision :: EcmgMessage where
  "sample_provision = EcmgCWProvision 3 1 2 7 False [] [(7, [1, 2, 3, 4, 5, 6, 7, 8]), (8, [0, 0, 0, 0, 0, 0, 0, 0])] True 100 True [0xAB, 0xCD]"

lemma sample_provision_valid: "ecmg_valid sample_provision"
  by (simp add: ecmg_valid_def sample_provision_def)

text \<open>C14. Whatever bytes come in, the exception for internal errors is never thrown: an accepted message is
  turned into an object, and the assertion on the control words of a \<open>CW_provision\<close> holds. The response to any message is a message that the peer
  accepts, a \<open>channel_error\<close> with the code of the error.\<close>

theorem ecmg_never_throws:
  "(mf_error (analyzeMessage msg ecmg_protocol) = TLV_OK \<longrightarrow>
      ecmg_factory (analyzeMessage msg ecmg_protocol) \<noteq> None \<and>
      (mf_tag (analyzeMessage msg ecmg_protocol) = Tag_CW_provision \<longrightarrow>
        (\<forall>p \<in> set (mf_get_all (analyzeMessage msg ecmg_protocol) Tag_CP_CW_combination). 2 \<le> ep_length p))) \<and>
   ecmg_factory (analyzeMessage (wire ecmg_serialize (ecmg_buildErrorResponse mf)) ecmg_protocol) = Some (ecmg_buildErrorResponse mf) \<and>
   ecmg_error_status (ecmg_buildErrorResponse mf) = [ecmg_error_code (mf_error mf)]"
proof (intro conjI impI)
  assume ok: "mf_error (analyzeMessage msg ecmg_protocol) = TLV_OK"
  then show "ecmg_factory (analyzeMessage msg ecmg_protocol) \<noteq> None" by (rule ecmg.never_throws)
  obtain fs where accepted: "message_ok ecmg_protocol (mf_tag (analyzeMessage msg ecmg_protocol)) fs" "mf_holds (analyzeMessage msg ecmg_protocol) fs"
    using analyzeMessage_accepted_fields [OF ok] by auto
  show "mf_tag (analyzeMessage msg ecmg_protocol) = Tag_CW_provision \<Longrightarrow>
      \<forall>p \<in> set (mf_get_all (analyzeMessage msg ecmg_protocol) Tag_CP_CW_combination). 2 \<le> ep_length p"
    using accepted by (rule CP_CW_combination_long)
next
  show "ecmg_factory (analyzeMessage (wire ecmg_serialize (ecmg_buildErrorResponse mf)) ecmg_protocol) = Some (ecmg_buildErrorResponse mf)"
    using ecmg.wire_analyzed(2) [OF ecmg_respond_valid, where junk = "[]"] by simp
qed (simp add: ecmg_buildErrorResponse_def)

lemma sample_test_wire: "wire ecmg_serialize (EcmgChannelTest 3 7) = [3, 0, 2, 0, 6, 0, 14, 0, 2, 0, 7]"
  by code_simp

theorem ecmg_never_throws_witness:
  "ecmg_factory (analyzeMessage [3, 0, 2, 0, 6, 0, 14, 0, 2, 0, 7] ecmg_protocol) \<noteq> None"
proof -
  have "ecmg_valid (EcmgChannelTest 3 7)" by (simp add: ecmg_valid_def)
  from ecmg.wire_analyzed(1) [OF this, of "[]"] show ?thesis
    using ecmg_never_throws [of "[3, 0, 2, 0, 6, 0, 14, 0, 2, 0, 7]"] by (simp add: sample_test_wire)
qed

text \<open>C13. The messages that one side sends on a connection are received by the other side, the same and in order, whatever
  the segments that TCP makes of their bytes and whatever comes next.\<close>

theorem ecmg_stream:
  assumes "cn_connected s" "\<not> cn_broken s" "cn_out s = []" and "\<forall>m \<in> set ms. ecmg_valid m"
    and "listening c (cn_out (snd (send_all ecmg_serialize ms s)) @ rest)"
  shows "\<exists>c'. receive_all ecmg_serialize ecmg_factory ecmg_buildErrorResponse ecmg_protocol (length ms) c = (map Received ms, c') \<and>
    listening c' rest"
  using ecmg.receive_sent [OF assms(4), of c rest] assms(5) send_all_out [OF assms(1,2), of ecmg_serialize ms] assms(3) by simp

definition sample_connection :: "byte list list \<Rightarrow> nat \<Rightarrow> Connection" where
  "sample_connection segs n = \<lparr>cn_in = segs, cn_out = [], cn_broken = False, cn_connected = True, cn_auto_error_response = True,
     cn_max_invalid_msg = n, cn_invalid_msg_count = 0\<rparr>"

lemma sample_listening: "[] \<notin> set segs \<Longrightarrow> listening (sample_connection segs n) (concat segs)"
  by (simp add: listening_def sample_connection_def)

text \<open>Two messages, whose bytes come one by one.\<close>

theorem ecmg_stream_witness:
  "\<exists>c'. receive_all ecmg_serialize ecmg_factory ecmg_buildErrorResponse ecmg_protocol 2
     (sample_connection (map (\<lambda>b. [b]) (concat (map (wire ecmg_serialize) [sample_provision, EcmgChannelTest 3 7]))) 0) =
     ([Received sample_provision, Received (EcmgChannelTest 3 7)], c')"
proof -
  let ?ms = "[sample_provision, EcmgChannelTest 3 7]"
  let ?bytes = "concat (map (wire ecmg_serialize) ?ms)"
  have segs: "concat (map (\<lambda>b. [b]) bs) = bs" "[] \<notin> set (map (\<lambda>b. [b]) bs)" for bs :: "byte list" by (induction bs) auto
  have out: "cn_out (snd (send_all ecmg_serialize ?ms (sample_connection [] 0))) = ?bytes"
    using send_all_out [of "sample_connection [] 0" ecmg_serialize ?ms] by (simp add: sample_connection_def)
  have "listening (sample_connection (map (\<lambda>b. [b]) ?bytes) 0) (cn_out (snd (send_all ecmg_serialize ?ms (sample_connection [] 0))) @ [])"
    unfolding out using sample_listening [OF segs(2), of ?bytes 0] segs(1) [of ?bytes] by simp
  then show ?thesis
    using ecmg_stream [of "sample_connection [] 0" ?ms "sample_connection (map (\<lambda>b. [b]) ?bytes) 0" "[]"] sample_provision_valid
    by (auto simp: sample_connection_def ecmg_valid_def numeral_2_eq_2)
qed

text \<open>C15. Complete but invalid messages on a connection are skipped, each answered with an error response when the
  connection is set to do so, and the next valid message is received with the count of invalid messages reset, as long as
  there are fewer of them than the maximum. When the maximum is reached, the connection is closed.\<close>

theorem ecmg_invalid_messages:
  assumes "\<forall>f \<in> set bad. framed ecmg_protocol f \<and> mf_error (analyzeMessage f ecmg_protocol) \<noteq> TLV_OK" and "\<not> cn_broken c"
  shows "(ecmg_valid m \<and> listening c (concat bad @ wire ecmg_serialize m @ rest) \<and>
      (cn_max_invalid_msg c = 0 \<or> cn_invalid_msg_count c + length bad < cn_max_invalid_msg c) \<longrightarrow>
      (\<exists>segs. concat segs = rest \<and> Connection_receive ecmg_serialize ecmg_factory ecmg_buildErrorResponse ecmg_protocol c =
        (Received m, after_invalid ecmg_serialize ecmg_buildErrorResponse ecmg_protocol c segs bad\<lparr>cn_invalid_msg_count := 0\<rparr>))) \<and>
    (listening c (concat bad @ rest) \<and> bad \<noteq> [] \<and> cn_invalid_msg_count c + length bad = cn_max_invalid_msg c \<longrightarrow>
      (\<exists>segs. Connection_receive ecmg_serialize ecmg_factory ecmg_buildErrorResponse ecmg_protocol c =
        (Failed, after_invalid ecmg_serialize ecmg_buildErrorResponse ecmg_protocol c segs bad\<lparr>cn_connected := False\<rparr>)))"
proof (intro conjI impI; elim conjE)
  assume "ecmg_valid m" "listening c (concat bad @ wire ecmg_serialize m @ rest)"
    "cn_max_invalid_msg c = 0 \<or> cn_invalid_msg_count c + length bad < cn_max_invalid_msg c"
  from ecmg.receive_after_invalid [OF assms(1) this(1,2) assms(2) this(3)]
  show "\<exists>segs. concat segs = rest \<and> Connection_receive ecmg_serialize ecmg_factory ecmg_buildErrorResponse ecmg_protocol c =
      (Received m, after_invalid ecmg_serialize ecmg_buildErrorResponse ecmg_protocol c segs bad\<lparr>cn_invalid_msg_count := 0\<rparr>)"
    by (auto simp: listening_def after_invalid_def)
next
  assume "listening c (concat bad @ rest)" "bad \<noteq> []" "cn_invalid_msg_count c + length bad = cn_max_invalid_msg c"
  then show "\<exists>segs. Connection_receive ecmg_serialize ecmg_factory ecmg_buildErrorResponse ecmg_protocol c =
      (Failed, after_invalid ecmg_serialize ecmg_buildErrorResponse ecmg_protocol c segs bad\<lparr>cn_connected := False\<rparr>)"
    using ecmg.receive_too_many [OF assms(1) _ assms(2)] by blast
qed

text \<open>A frame with an unknown command.\<close>

lemma sample_bad: "framed ecmg_protocol [3, 0, 9, 0, 0]" "mf_error (analyzeMessage [3, 0, 9, 0, 0] ecmg_protocol) = UnknownCommandTag"
proof -
  show "framed ecmg_protocol [3, 0, 9, 0, 0]" by (simp add: framed_def GetUInt16_def)
  show "mf_error (analyzeMessage [3, 0, 9, 0, 0] ecmg_protocol) = UnknownCommandTag"
    by (subst analyzeMessage.simps)
      (simp add: Let_def Analyzer_new_def Analyzer_next_def GetUInt16_def GetUInt8_def ecmg_protocol_eq omap_get_def)
qed

theorem ecmg_invalid_messages_witness:
  "(\<exists>segs. Connection_receive ecmg_serialize ecmg_factory ecmg_buildErrorResponse ecmg_protocol
      (sample_connection [[3, 0, 9, 0, 0], [3, 0, 2, 0, 6, 0, 14, 0, 2, 0, 7]] 2) =
      (Received (EcmgChannelTest 3 7), after_invalid ecmg_serialize ecmg_buildErrorResponse ecmg_protocol
        (sample_connection [[3, 0, 9, 0, 0], [3, 0, 2, 0, 6, 0, 14, 0, 2, 0, 7]] 2) segs [[3, 0, 9, 0, 0]]\<lparr>cn_invalid_msg_count := 0\<rparr>)) \<and>
   (\<exists>segs. Connection_receive ecmg_serialize ecmg_factory ecmg_buildErrorResponse ecmg_protocol (sample_connection [[3, 0, 9, 0, 0]] 1) =
      (Failed, after_invalid ecmg_serialize ecmg_buildErrorResponse ecmg_protocol (sample_connection [[3, 0, 9, 0, 0]] 1) segs
        [[3, 0, 9, 0, 0]]\<lparr>cn_connected := False\<rparr>))"
proof -
  let ?c = "sample_connection [[3, 0, 9, 0, 0], [3, 0, 2, 0, 6, 0, 14, 0, 2, 0, 7]] 2" and ?d = "sample_connection [[3, 0, 9, 0, 0]] 1"
  have bad: "\<forall>f \<in> set [[3, 0, 9, 0, 0]]. framed ecmg_protocol f \<and> mf_error (analyzeMessage f ecmg_protocol) \<noteq> TLV_OK"
    using sample_bad by simp
  have c: "ecmg_valid (EcmgChannelTest 3 7)" "listening ?c (concat [[3, 0, 9, 0, 0]] @ wire ecmg_serialize (EcmgChannelTest 3 7) @ [])"
      "listening ?d (concat [[3, 0, 9, 0, 0]] @ [])" "\<not> cn_broken ?c" "\<not> cn_broken ?d"
      "cn_invalid_msg_count ?c + length [[3, 0, 9, 0, 0]] < cn_max_invalid_msg ?c" "cn_invalid_msg_count ?d + length [[3, 0, 9, 0, 0]] = cn_max_invalid_msg ?d"
    by (simp_all add: ecmg_valid_def sample_test_wire listening_def sample_connection_def)
  show ?thesis
    using ecmg_invalid_messages [OF bad c(4), of "EcmgChannelTest 3 7" "[]"] ecmg_invalid_messages [OF bad c(5), of _ "[]"] c by blast
qed

end
