(* ===== verification/Ts_EMMG.thy ===== *)
theory Ts_EMMG
  imports Ts_TLV_Connection "HOL-Library.Monad_Syntax"
begin

text \<open>
  The protocol between the EMM generators and the multiplexer of DVB SimulCrypt: \<open>tsEMMGMUX.cpp\<close>.
  Signed integers are their two's complement words. The names and the dumps of the messages are left out.
\<close>

section \<open>Tags and protocol\<close>

text \<open>The command tags and the parameter tags.\<close>

abbreviation (input) EmmTag_channel_setup :: u16 where "EmmTag_channel_setup \<equiv> 0x0011"
abbreviation (input) EmmTag_channel_test :: u16 where "EmmTag_channel_test \<equiv> 0x0012"
abbreviation (input) EmmTag_channel_status :: u16 where "EmmTag_channel_status \<equiv> 0x0013"
abbreviation (input) EmmTag_channel_close :: u16 where "EmmTag_channel_close \<equiv> 0x0014"
abbreviation (input) EmmTag_channel_error :: u16 where "EmmTag_channel_error \<equiv> 0x0015"
abbreviation (input) EmmTag_stream_setup :: u16 where "EmmTag_stream_setup \<equiv> 0x0111"
abbreviation (input) EmmTag_stream_test :: u16 where "EmmTag_stream_test \<equiv> 0x0112"
abbreviation (input) EmmTag_stream_status :: u16 where "EmmTag_stream_status \<equiv> 0x0113"
abbreviation (input) EmmTag_stream_close_request :: u16 where "EmmTag_stream_close_request \<equiv> 0x0114"
abbreviation (input) EmmTag_stream_close_response :: u16 where "EmmTag_stream_close_response \<equiv> 0x0115"
abbreviation (input) EmmTag_stream_error :: u16 where "EmmTag_stream_error \<equiv> 0x0116"
abbreviation (input) EmmTag_stream_BW_request :: u16 where "EmmTag_stream_BW_request \<equiv> 0x0117"
abbreviation (input) EmmTag_stream_BW_allocation :: u16 where "EmmTag_stream_BW_allocation \<equiv> 0x0118"
abbreviation (input) EmmTag_data_provision :: u16 where "EmmTag_data_provision \<equiv> 0x0211"
abbreviation (input) EmmTag_client_id :: u16 where "EmmTag_client_id \<equiv> 0x0001"
abbreviation (input) EmmTag_section_TSpkt_flag :: u16 where "EmmTag_section_TSpkt_flag \<equiv> 0x0002"
abbreviation (input) EmmTag_data_channel_id :: u16 where "EmmTag_data_channel_id \<equiv> 0x0003"
abbreviation (input) EmmTag_data_stream_id :: u16 where "EmmTag_data_stream_id \<equiv> 0x0004"
abbreviation (input) EmmTag_datagram :: u16 where "EmmTag_datagram \<equiv> 0x0005"
abbreviation (input) EmmTag_bandwidth :: u16 where "EmmTag_bandwidth \<equiv> 0x0006"
abbreviation (input) EmmTag_data_type :: u16 where "EmmTag_data_type \<equiv> 0x0007"
abbreviation (input) EmmTag_data_id :: u16 where "EmmTag_data_id \<equiv> 0x0008"
abbreviation (input) EmmTag_error_status :: u16 where "EmmTag_error_status \<equiv> 0x7000"
abbreviation (input) EmmTag_error_information :: u16 where "EmmTag_error_information \<equiv> 0x7001"

definition emmg_protocol :: Protocol where
  "emmg_protocol = fold (\<lambda>add p. add p)
    [pr_add EmmTag_channel_setup EmmTag_client_id 4 4 1 1,
     pr_add EmmTag_channel_setup EmmTag_data_channel_id 2 2 1 1,
     pr_add EmmTag_channel_setup EmmTag_section_TSpkt_flag 1 1 1 1,
     pr_add EmmTag_channel_test EmmTag_client_id 4 4 1 1,
     pr_add EmmTag_channel_test EmmTag_data_channel_id 2 2 1 1,
     pr_add EmmTag_channel_status EmmTag_client_id 4 4 1 1,
     pr_add EmmTag_channel_status EmmTag_data_channel_id 2 2 1 1,
     pr_add EmmTag_channel_status EmmTag_section_TSpkt_flag 1 1 1 1,
     pr_add EmmTag_channel_close EmmTag_client_id 4 4 1 1,
     pr_add EmmTag_channel_close EmmTag_data_channel_id 2 2 1 1,
     pr_add EmmTag_channel_error EmmTag_client_id 4 4 1 1,
     pr_add EmmTag_channel_error EmmTag_data_channel_id 2 2 1 1,
     pr_add EmmTag_channel_error EmmTag_error_status 2 2 1 0xFFFF,
     pr_add EmmTag_channel_error EmmTag_error_information 2 2 0 0xFFFF,
     pr_add EmmTag_stream_setup EmmTag_client_id 4 4 1 1,
     pr_add EmmTag_stream_setup EmmTag_data_channel_id 2 2 1 1,
     pr_add EmmTag_stream_setup EmmTag_data_stream_id 2 2 1 1,
     pr_add EmmTag_stream_setup EmmTag_data_id 2 2 1 1,
     pr_add EmmTag_stream_setup EmmTag_data_type 1 1 1 1,
     pr_add EmmTag_stream_test EmmTag_client_id 4 4 1 1,
     pr_add EmmTag_stream_test EmmTag_data_channel_id 2 2 1 1,
     pr_add EmmTag_stream_test EmmTag_data_stream_id 2 2 1 1,
     pr_add EmmTag_stream_status EmmTag_client_id 4 4 1 1,
     pr_add EmmTag_stream_status EmmTag_data_channel_id 2 2 1 1,
     pr_add EmmTag_stream_status EmmTag_data_stream_id 2 2 1 1,
     pr_add EmmTag_stream_status EmmTag_data_id 2 2 1 1,
     pr_add EmmTag_stream_status EmmTag_data_type 1 1 1 1,
     pr_add EmmTag_stream_close_request EmmTag_client_id 4 4 1 1,
     pr_add EmmTag_stream_close_request EmmTag_data_channel_id 2 2 1 1,
     pr_add EmmTag_stream_close_request EmmTag_data_stream_id 2 2 1 1,
     pr_add EmmTag_stream_close_response EmmTag_client_id 4 4 1 1,
     pr_add EmmTag_stream_close_response EmmTag_data_channel_id 2 2 1 1,
     pr_add EmmTag_stream_close_response EmmTag_data_stream_id 2 2 1 1,
     pr_add EmmTag_stream_error EmmTag_client_id 4 4 1 1,
     pr_add EmmTag_stream_error EmmTag_data_channel_id 2 2 1 1,
     pr_add EmmTag_stream_error EmmTag_data_stream_id 2 2 1 1,
     pr_add EmmTag_stream_error EmmTag_error_status 2 2 1 0xFFFF,
     pr_add EmmTag_stream_error EmmTag_error_information 2 2 0 0xFFFF,
     pr_add EmmTag_stream_BW_request EmmTag_client_id 4 4 1 1,
     pr_add EmmTag_stream_BW_request EmmTag_data_channel_id 2 2 1 1,
     pr_add EmmTag_stream_BW_request EmmTag_data_stream_id 2 2 1 1,
     pr_add EmmTag_stream_BW_request EmmTag_bandwidth 2 2 0 1,
     pr_add EmmTag_stream_BW_allocation EmmTag_client_id 4 4 1 1,
     pr_add EmmTag_stream_BW_allocation EmmTag_data_channel_id 2 2 1 1,
     pr_add EmmTag_stream_BW_allocation EmmTag_data_stream_id 2 2 1 1,
     pr_add EmmTag_stream_BW_allocation EmmTag_bandwidth 2 2 0 1,
     pr_add EmmTag_data_provision EmmTag_client_id 4 4 1 1,
     pr_add EmmTag_data_provision EmmTag_data_channel_id 2 2 0 1,
     pr_add EmmTag_data_provision EmmTag_data_stream_id 2 2 0 1,
     pr_add EmmTag_data_provision EmmTag_data_id 2 2 1 1,
     pr_add EmmTag_data_provision EmmTag_datagram 0 0xFFFF 1 0xFFFF]
    (Protocol_new 3)"

section \<open>Messages\<close>

text \<open>One constructor for each class of messages, with the fields of the class; an optional field is a flag and a value.\<close>

datatype EmmgMessage =
    EmmgChannelSetup (emmg_version: byte) (emmg_channel_id: u16) (emmg_client_id: u32) (emmg_section_TSpkt_flag: bool)
  | EmmgChannelTest (emmg_version: byte) (emmg_channel_id: u16) (emmg_client_id: u32)
  | EmmgChannelStatus (emmg_version: byte) (emmg_channel_id: u16) (emmg_client_id: u32) (emmg_section_TSpkt_flag: bool)
  | EmmgChannelClose (emmg_version: byte) (emmg_channel_id: u16) (emmg_client_id: u32)
  | EmmgChannelError (emmg_version: byte) (emmg_channel_id: u16) (emmg_client_id: u32) (emmg_error_status: "u16 list")
      (emmg_error_information: "u16 list")
  | EmmgStreamSetup (emmg_version: byte) (emmg_channel_id: u16) (emmg_stream_id: u16) (emmg_client_id: u32)
      (emmg_data_id: u16) (emmg_data_type: byte)
  | EmmgStreamTest (emmg_version: byte) (emmg_channel_id: u16) (emmg_stream_id: u16) (emmg_client_id: u32)
  | EmmgStreamStatus (emmg_version: byte) (emmg_channel_id: u16) (emmg_stream_id: u16) (emmg_client_id: u32)
      (emmg_data_id: u16) (emmg_data_type: byte)
  | EmmgStreamCloseRequest (emmg_version: byte) (emmg_channel_id: u16) (emmg_stream_id: u16) (emmg_client_id: u32)
  | EmmgStreamCloseResponse (emmg_version: byte) (emmg_channel_id: u16) (emmg_stream_id: u16) (emmg_client_id: u32)
  | EmmgStreamError (emmg_version: byte) (emmg_channel_id: u16) (emmg_stream_id: u16) (emmg_client_id: u32)
      (emmg_error_status: "u16 list") (emmg_error_information: "u16 list")
  | EmmgStreamBWRequest (emmg_version: byte) (emmg_channel_id: u16) (emmg_stream_id: u16) (emmg_client_id: u32)
      (emmg_has_bandwidth: bool) (emmg_bandwidth: u16)
  | EmmgStreamBWAllocation (emmg_version: byte) (emmg_channel_id: u16) (emmg_stream_id: u16) (emmg_client_id: u32)
      (emmg_has_bandwidth: bool) (emmg_bandwidth: u16)
  | EmmgDataProvision (emmg_version: byte) (emmg_channel_id: u16) (emmg_stream_id: u16) (emmg_client_id: u32)
      (emmg_data_id: u16) (emmg_datagram: "byte list option list")

fun emmg_tag :: "EmmgMessage \<Rightarrow> u16" where
  "emmg_tag (EmmgChannelSetup _ _ _ _) = EmmTag_channel_setup"
| "emmg_tag (EmmgChannelTest _ _ _) = EmmTag_channel_test"
| "emmg_tag (EmmgChannelStatus _ _ _ _) = EmmTag_channel_status"
| "emmg_tag (EmmgChannelClose _ _ _) = EmmTag_channel_close"
| "emmg_tag (EmmgChannelError _ _ _ _ _) = EmmTag_channel_error"
| "emmg_tag (EmmgStreamSetup _ _ _ _ _ _) = EmmTag_stream_setup"
| "emmg_tag (EmmgStreamTest _ _ _ _) = EmmTag_stream_test"
| "emmg_tag (EmmgStreamStatus _ _ _ _ _ _) = EmmTag_stream_status"
| "emmg_tag (EmmgStreamCloseRequest _ _ _ _) = EmmTag_stream_close_request"
| "emmg_tag (EmmgStreamCloseResponse _ _ _ _) = EmmTag_stream_close_response"
| "emmg_tag (EmmgStreamError _ _ _ _ _ _) = EmmTag_stream_error"
| "emmg_tag (EmmgStreamBWRequest _ _ _ _ _ _) = EmmTag_stream_BW_request"
| "emmg_tag (EmmgStreamBWAllocation _ _ _ _ _ _) = EmmTag_stream_BW_allocation"
| "emmg_tag (EmmgDataProvision _ _ _ _ _ _) = EmmTag_data_provision"

text \<open>The datagrams are pointers to blocks, null pointers are skipped.\<close>

definition put_datagram :: "byte list option \<Rightarrow> Serializer \<Rightarrow> Serializer" where
  "put_datagram d z = (case d of None \<Rightarrow> z | Some bl \<Rightarrow> put_block EmmTag_datagram bl z)"

text \<open>\<open>serializeParameters\<close> of each class.\<close>

definition EmmgChannelSetup_params ::
  "u16 \<Rightarrow> u32 \<Rightarrow> bool \<Rightarrow> Serializer \<Rightarrow> Serializer" where
  "EmmgChannelSetup_params ch cl flag z =
    (let z = put_uint16 EmmTag_data_channel_id ch z;
        z = put_uint32 EmmTag_client_id cl z;
        z = put_bool EmmTag_section_TSpkt_flag flag z
     in z)"

definition EmmgChannelTest_params ::
  "u16 \<Rightarrow> u32 \<Rightarrow> Serializer \<Rightarrow> Serializer" where
  "EmmgChannelTest_params ch cl z =
    (let z = put_uint16 EmmTag_data_channel_id ch z;
        z = put_uint32 EmmTag_client_id cl z
     in z)"

definition EmmgChannelStatus_params ::
  "u16 \<Rightarrow> u32 \<Rightarrow> bool \<Rightarrow> Serializer \<Rightarrow> Serializer" where
  "EmmgChannelStatus_params ch cl flag z =
    (let z = put_uint16 EmmTag_data_channel_id ch z;
        z = put_uint32 EmmTag_client_id cl z;
        z = put_bool EmmTag_section_TSpkt_flag flag z
     in z)"

definition EmmgChannelClose_params ::
  "u16 \<Rightarrow> u32 \<Rightarrow> Serializer \<Rightarrow> Serializer" where
  "EmmgChannelClose_params ch cl z =
    (let z = put_uint16 EmmTag_data_channel_id ch z;
        z = put_uint32 EmmTag_client_id cl z
     in z)"

definition EmmgChannelError_params ::
  "u16 \<Rightarrow> u32 \<Rightarrow> u16 list \<Rightarrow> u16 list \<Rightarrow> Serializer \<Rightarrow> Serializer" where
  "EmmgChannelError_params ch cl es ei z =
    (let z = put_uint16 EmmTag_data_channel_id ch z;
        z = put_uint32 EmmTag_client_id cl z;
        z = put_uint16s EmmTag_error_status es z;
        z = put_uint16s EmmTag_error_information ei z
     in z)"

definition EmmgStreamSetup_params ::
  "u16 \<Rightarrow> u16 \<Rightarrow> u32 \<Rightarrow> u16 \<Rightarrow> byte \<Rightarrow> Serializer \<Rightarrow> Serializer" where
  "EmmgStreamSetup_params ch st cl did ty z =
    (let z = put_uint16 EmmTag_data_channel_id ch z;
        z = put_uint16 EmmTag_data_stream_id st z;
        z = put_uint32 EmmTag_client_id cl z;
        z = put_uint16 EmmTag_data_id did z;
        z = put_uint8 EmmTag_data_type ty z
     in z)"

definition EmmgStreamTest_params ::
  "u16 \<Rightarrow> u16 \<Rightarrow> u32 \<Rightarrow> Serializer \<Rightarrow> Serializer" where
  "EmmgStreamTest_params ch st cl z =
    (let z = put_uint16 EmmTag_data_channel_id ch z;
        z = put_uint16 EmmTag_data_stream_id st z;
        z = put_uint32 EmmTag_client_id cl z
     in z)"

definition EmmgStreamStatus_params ::
  "u16 \<Rightarrow> u16 \<Rightarrow> u32 \<Rightarrow> u16 \<Rightarrow> byte \<Rightarrow> Serializer \<Rightarrow> Serializer" where
  "EmmgStreamStatus_params ch st cl did ty z =
    (let z = put_uint16 EmmTag_data_channel_id ch z;
        z = put_uint16 EmmTag_data_stream_id st z;
        z = put_uint32 EmmTag_client_id cl z;
        z = put_uint16 EmmTag_data_id did z;
        z = put_uint8 EmmTag_data_type ty z
     in z)"

definition EmmgStreamCloseRequest_params ::
  "u16 \<Rightarrow> u16 \<Rightarrow> u32 \<Rightarrow> Serializer \<Rightarrow> Serializer" where
  "EmmgStreamCloseRequest_params ch st cl z =
    (let z = put_uint16 EmmTag_data_channel_id ch z;
        z = put_uint16 EmmTag_data_stream_id st z;
        z = put_uint32 EmmTag_client_id cl z
     in z)"

definition EmmgStreamCloseResponse_params ::
  "u16 \<Rightarrow> u16 \<Rightarrow> u32 \<Rightarrow> Serializer \<Rightarrow> Serializer" where
  "EmmgStreamCloseResponse_params ch st cl z =
    (let z = put_uint16 EmmTag_data_channel_id ch z;
        z = put_uint16 EmmTag_data_stream_id st z;
        z = put_uint32 EmmTag_client_id cl z
     in z)"

definition EmmgStreamError_params ::
  "u16 \<Rightarrow> u16 \<Rightarrow> u32 \<Rightarrow> u16 list \<Rightarrow> u16 list \<Rightarrow> Serializer \<Rightarrow> Serializer" where
  "EmmgStreamError_params ch st cl es ei z =
    (let z = put_uint16 EmmTag_data_channel_id ch z;
        z = put_uint16 EmmTag_data_stream_id st z;
        z = put_uint32 EmmTag_client_id cl z;
        z = put_uint16s EmmTag_error_status es z;
        z = put_uint16s EmmTag_error_information ei z
     in z)"

definition EmmgStreamBWRequest_params ::
  "u16 \<Rightarrow> u16 \<Rightarrow> u32 \<Rightarrow> bool \<Rightarrow> u16 \<Rightarrow> Serializer \<Rightarrow> Serializer" where
  "EmmgStreamBWRequest_params ch st cl h_bw bw z =
    (let z = put_uint16 EmmTag_data_channel_id ch z;
        z = put_uint16 EmmTag_data_stream_id st z;
        z = put_uint32 EmmTag_client_id cl z;
        z = (if h_bw then put_uint16 EmmTag_bandwidth bw z else z)
     in z)"

definition EmmgStreamBWAllocation_params ::
  "u16 \<Rightarrow> u16 \<Rightarrow> u32 \<Rightarrow> bool \<Rightarrow> u16 \<Rightarrow> Serializer \<Rightarrow> Serializer" where
  "EmmgStreamBWAllocation_params ch st cl h_bw bw z =
    (let z = put_uint16 EmmTag_data_channel_id ch z;
        z = put_uint16 EmmTag_data_stream_id st z;
        z = put_uint32 EmmTag_client_id cl z;
        z = (if h_bw then put_uint16 EmmTag_bandwidth bw z else z)
     in z)"

definition EmmgDataProvision_params ::
  "u16 \<Rightarrow> u16 \<Rightarrow> u32 \<Rightarrow> u16 \<Rightarrow> byte list option list \<Rightarrow> Serializer \<Rightarrow> Serializer" where
  "EmmgDataProvision_params ch st cl did ds z =
    (let z = put_uint16 EmmTag_data_channel_id ch z;
        z = put_uint16 EmmTag_data_stream_id st z;
        z = put_uint32 EmmTag_client_id cl z;
        z = put_uint16 EmmTag_data_id did z;
        z = fold put_datagram ds z
     in z)"

fun emmg_serializeParameters :: "EmmgMessage \<Rightarrow> Serializer \<Rightarrow> Serializer" where
  "emmg_serializeParameters (EmmgChannelSetup v ch cl flag) = EmmgChannelSetup_params ch cl flag"
| "emmg_serializeParameters (EmmgChannelTest v ch cl) = EmmgChannelTest_params ch cl"
| "emmg_serializeParameters (EmmgChannelStatus v ch cl flag) = EmmgChannelStatus_params ch cl flag"
| "emmg_serializeParameters (EmmgChannelClose v ch cl) = EmmgChannelClose_params ch cl"
| "emmg_serializeParameters (EmmgChannelError v ch cl es ei) = EmmgChannelError_params ch cl es ei"
| "emmg_serializeParameters (EmmgStreamSetup v ch st cl did ty) = EmmgStreamSetup_params ch st cl did ty"
| "emmg_serializeParameters (EmmgStreamTest v ch st cl) = EmmgStreamTest_params ch st cl"
| "emmg_serializeParameters (EmmgStreamStatus v ch st cl did ty) = EmmgStreamStatus_params ch st cl did ty"
| "emmg_serializeParameters (EmmgStreamCloseRequest v ch st cl) = EmmgStreamCloseRequest_params ch st cl"
| "emmg_serializeParameters (EmmgStreamCloseResponse v ch st cl) = EmmgStreamCloseResponse_params ch st cl"
| "emmg_serializeParameters (EmmgStreamError v ch st cl es ei) = EmmgStreamError_params ch st cl es ei"
| "emmg_serializeParameters (EmmgStreamBWRequest v ch st cl h_bw bw) = EmmgStreamBWRequest_params ch st cl h_bw bw"
| "emmg_serializeParameters (EmmgStreamBWAllocation v ch st cl h_bw bw) = EmmgStreamBWAllocation_params ch st cl h_bw bw"
| "emmg_serializeParameters (EmmgDataProvision v ch st cl did ds) = EmmgDataProvision_params ch st cl did ds"

definition emmg_serialize :: "EmmgMessage \<Rightarrow> Serializer \<Rightarrow> Serializer" where
  "emmg_serialize m = Message_serialize True (emmg_version m) (emmg_tag m) (emmg_serializeParameters m)"

section \<open>Factory\<close>

text \<open>The constructors of the messages from a factory.\<close>

definition EmmgChannelSetup_of :: "MessageFactory \<Rightarrow> EmmgMessage option" where
  "EmmgChannelSetup_of mf = do {
     ch \<leftarrow> get_uint16 mf EmmTag_data_channel_id;
     cl \<leftarrow> get_uint32 mf EmmTag_client_id;
     flag \<leftarrow> get_bool mf EmmTag_section_TSpkt_flag;
     Some (EmmgChannelSetup (mf_version mf) ch cl flag)
   }"

definition EmmgChannelTest_of :: "MessageFactory \<Rightarrow> EmmgMessage option" where
  "EmmgChannelTest_of mf = do {
     ch \<leftarrow> get_uint16 mf EmmTag_data_channel_id;
     cl \<leftarrow> get_uint32 mf EmmTag_client_id;
     Some (EmmgChannelTest (mf_version mf) ch cl)
   }"

definition EmmgChannelStatus_of :: "MessageFactory \<Rightarrow> EmmgMessage option" where
  "EmmgChannelStatus_of mf = do {
     ch \<leftarrow> get_uint16 mf EmmTag_data_channel_id;
     cl \<leftarrow> get_uint32 mf EmmTag_client_id;
     flag \<leftarrow> get_bool mf EmmTag_section_TSpkt_flag;
     Some (EmmgChannelStatus (mf_version mf) ch cl flag)
   }"

definition EmmgChannelClose_of :: "MessageFactory \<Rightarrow> EmmgMessage option" where
  "EmmgChannelClose_of mf = do {
     ch \<leftarrow> get_uint16 mf EmmTag_data_channel_id;
     cl \<leftarrow> get_uint32 mf EmmTag_client_id;
     Some (EmmgChannelClose (mf_version mf) ch cl)
   }"

definition EmmgChannelError_of :: "MessageFactory \<Rightarrow> EmmgMessage option" where
  "EmmgChannelError_of mf = do {
     ch \<leftarrow> get_uint16 mf EmmTag_data_channel_id;
     cl \<leftarrow> get_uint32 mf EmmTag_client_id;
     es \<leftarrow> get_uint16s mf EmmTag_error_status;
     ei \<leftarrow> get_uint16s mf EmmTag_error_information;
     Some (EmmgChannelError (mf_version mf) ch cl es ei)
   }"

definition EmmgStreamSetup_of :: "MessageFactory \<Rightarrow> EmmgMessage option" where
  "EmmgStreamSetup_of mf = do {
     ch \<leftarrow> get_uint16 mf EmmTag_data_channel_id;
     st \<leftarrow> get_uint16 mf EmmTag_data_stream_id;
     cl \<leftarrow> get_uint32 mf EmmTag_client_id;
     did \<leftarrow> get_uint16 mf EmmTag_data_id;
     ty \<leftarrow> get_uint8 mf EmmTag_data_type;
     Some (EmmgStreamSetup (mf_version mf) ch st cl did ty)
   }"

definition EmmgStreamTest_of :: "MessageFactory \<Rightarrow> EmmgMessage option" where
  "EmmgStreamTest_of mf = do {
     ch \<leftarrow> get_uint16 mf EmmTag_data_channel_id;
     st \<leftarrow> get_uint16 mf EmmTag_data_stream_id;
     cl \<leftarrow> get_uint32 mf EmmTag_client_id;
     Some (EmmgStreamTest (mf_version mf) ch st cl)
   }"

definition EmmgStreamStatus_of :: "MessageFactory \<Rightarrow> EmmgMessage option" where
  "EmmgStreamStatus_of mf = do {
     ch \<leftarrow> get_uint16 mf EmmTag_data_channel_id;
     st \<leftarrow> get_uint16 mf EmmTag_data_stream_id;
     cl \<leftarrow> get_uint32 mf EmmTag_client_id;
     did \<leftarrow> get_uint16 mf EmmTag_data_id;
     ty \<leftarrow> get_uint8 mf EmmTag_data_type;
     Some (EmmgStreamStatus (mf_version mf) ch st cl did ty)
   }"

definition EmmgStreamCloseRequest_of :: "MessageFactory \<Rightarrow> EmmgMessage option" where
  "EmmgStreamCloseRequest_of mf = do {
     ch \<leftarrow> get_uint16 mf EmmTag_data_channel_id;
     st \<leftarrow> get_uint16 mf EmmTag_data_stream_id;
     cl \<leftarrow> get_uint32 mf EmmTag_client_id;
     Some (EmmgStreamCloseRequest (mf_version mf) ch st cl)
   }"

definition EmmgStreamCloseResponse_of :: "MessageFactory \<Rightarrow> EmmgMessage option" where
  "EmmgStreamCloseResponse_of mf = do {
     ch \<leftarrow> get_uint16 mf EmmTag_data_channel_id;
     st \<leftarrow> get_uint16 mf EmmTag_data_stream_id;
     cl \<leftarrow> get_uint32 mf EmmTag_client_id;
     Some (EmmgStreamCloseResponse (mf_version mf) ch st cl)
   }"

definition EmmgStreamError_of :: "MessageFactory \<Rightarrow> EmmgMessage option" where
  "EmmgStreamError_of mf = do {
     ch \<leftarrow> get_uint16 mf EmmTag_data_channel_id;
     st \<leftarrow> get_uint16 mf EmmTag_data_stream_id;
     cl \<leftarrow> get_uint32 mf EmmTag_client_id;
     es \<leftarrow> get_uint16s mf EmmTag_error_status;
     ei \<leftarrow> get_uint16s mf EmmTag_error_information;
     Some (EmmgStreamError (mf_version mf) ch st cl es ei)
   }"

definition EmmgStreamBWRequest_of :: "MessageFactory \<Rightarrow> EmmgMessage option" where
  "EmmgStreamBWRequest_of mf = do {
     ch \<leftarrow> get_uint16 mf EmmTag_data_channel_id;
     st \<leftarrow> get_uint16 mf EmmTag_data_stream_id;
     cl \<leftarrow> get_uint32 mf EmmTag_client_id;
     h_bw \<leftarrow> Some (mf_count mf EmmTag_bandwidth = 1);
     bw \<leftarrow> (if \<not> h_bw then Some 0 else get_uint16 mf EmmTag_bandwidth);
     Some (EmmgStreamBWRequest (mf_version mf) ch st cl h_bw bw)
   }"

definition EmmgStreamBWAllocation_of :: "MessageFactory \<Rightarrow> EmmgMessage option" where
  "EmmgStreamBWAllocation_of mf = do {
     ch \<leftarrow> get_uint16 mf EmmTag_data_channel_id;
     st \<leftarrow> get_uint16 mf EmmTag_data_stream_id;
     cl \<leftarrow> get_uint32 mf EmmTag_client_id;
     h_bw \<leftarrow> Some (mf_count mf EmmTag_bandwidth = 1);
     bw \<leftarrow> (if \<not> h_bw then Some 0 else get_uint16 mf EmmTag_bandwidth);
     Some (EmmgStreamBWAllocation (mf_version mf) ch st cl h_bw bw)
   }"

definition EmmgDataProvision_of :: "MessageFactory \<Rightarrow> EmmgMessage option" where
  "EmmgDataProvision_of mf = do {
     ch \<leftarrow> (if mf_count mf EmmTag_data_channel_id = 0 then Some 0xFFFF else get_uint16 mf EmmTag_data_channel_id);
     st \<leftarrow> (if mf_count mf EmmTag_data_stream_id = 0 then Some 0xFFFF else get_uint16 mf EmmTag_data_stream_id);
     cl \<leftarrow> get_uint32 mf EmmTag_client_id;
     did \<leftarrow> get_uint16 mf EmmTag_data_id;
     ds \<leftarrow> Some (map (\<lambda>p. Some (mf_value mf p)) (mf_get_all mf EmmTag_datagram));
     Some (EmmgDataProvision (mf_version mf) ch st cl did ds)
   }"

definition emmg_factory :: "MessageFactory \<Rightarrow> EmmgMessage option" where
  "emmg_factory mf =
     (if mf_tag mf = EmmTag_channel_setup then EmmgChannelSetup_of mf
      else if mf_tag mf = EmmTag_channel_test then EmmgChannelTest_of mf
      else if mf_tag mf = EmmTag_channel_status then EmmgChannelStatus_of mf
      else if mf_tag mf = EmmTag_channel_close then EmmgChannelClose_of mf
      else if mf_tag mf = EmmTag_channel_error then EmmgChannelError_of mf
      else if mf_tag mf = EmmTag_stream_setup then EmmgStreamSetup_of mf
      else if mf_tag mf = EmmTag_stream_test then EmmgStreamTest_of mf
      else if mf_tag mf = EmmTag_stream_status then EmmgStreamStatus_of mf
      else if mf_tag mf = EmmTag_stream_close_request then EmmgStreamCloseRequest_of mf
      else if mf_tag mf = EmmTag_stream_close_response then EmmgStreamCloseResponse_of mf
      else if mf_tag mf = EmmTag_stream_error then EmmgStreamError_of mf
      else if mf_tag mf = EmmTag_stream_BW_request then EmmgStreamBWRequest_of mf
      else if mf_tag mf = EmmTag_stream_BW_allocation then EmmgStreamBWAllocation_of mf
      else if mf_tag mf = EmmTag_data_provision then EmmgDataProvision_of mf
      else None)"

definition emmg_error_code :: "tlv_error \<Rightarrow> u16" where
  "emmg_error_code e = (case e of TLV_OK \<Rightarrow> 0x0001 | InvalidMessage \<Rightarrow> 0x0001 | UnsupportedVersion \<Rightarrow> 0x0002
     | UnknownCommandTag \<Rightarrow> 0x0003 | UnknownParameterTag \<Rightarrow> 0x000A | InvalidParameterLength \<Rightarrow> 0x000B
     | InvalidParameterCount \<Rightarrow> 0x000C | MissingParameter \<Rightarrow> 0x000C)"

definition emmg_buildErrorResponse :: "MessageFactory \<Rightarrow> EmmgMessage" where
  "emmg_buildErrorResponse mf =
     EmmgChannelError 3 (case get_uint16 mf EmmTag_data_channel_id of Some ch \<Rightarrow> ch | None \<Rightarrow> 0) 0 [emmg_error_code (mf_error mf)] [mf_info mf]"

section \<open>Valid messages\<close>

text \<open>The fields of a message, in the order in which they are written.\<close>

fun emmg_fields :: "EmmgMessage \<Rightarrow> field list" where
  "emmg_fields (EmmgChannelSetup v ch cl flag) =
     [(EmmTag_data_channel_id, put16 ch), (EmmTag_client_id, put32 cl), (EmmTag_section_TSpkt_flag, [if flag then 1 else 0])]"
| "emmg_fields (EmmgChannelTest v ch cl) =
     [(EmmTag_data_channel_id, put16 ch), (EmmTag_client_id, put32 cl)]"
| "emmg_fields (EmmgChannelStatus v ch cl flag) =
     [(EmmTag_data_channel_id, put16 ch), (EmmTag_client_id, put32 cl), (EmmTag_section_TSpkt_flag, [if flag then 1 else 0])]"
| "emmg_fields (EmmgChannelClose v ch cl) =
     [(EmmTag_data_channel_id, put16 ch), (EmmTag_client_id, put32 cl)]"
| "emmg_fields (EmmgChannelError v ch cl es ei) =
     [(EmmTag_data_channel_id, put16 ch), (EmmTag_client_id, put32 cl)] @
     map (\<lambda>w. (EmmTag_error_status, put16 w)) es @
     map (\<lambda>w. (EmmTag_error_information, put16 w)) ei"
| "emmg_fields (EmmgStreamSetup v ch st cl did ty) =
     [(EmmTag_data_channel_id, put16 ch), (EmmTag_data_stream_id, put16 st), (EmmTag_client_id, put32 cl), (EmmTag_data_id, put16 did), (EmmTag_data_type, [ty])]"
| "emmg_fields (EmmgStreamTest v ch st cl) =
     [(EmmTag_data_channel_id, put16 ch), (EmmTag_data_stream_id, put16 st), (EmmTag_client_id, put32 cl)]"
| "emmg_fields (EmmgStreamStatus v ch st cl did ty) =
     [(EmmTag_data_channel_id, put16 ch), (EmmTag_data_stream_id, put16 st), (EmmTag_client_id, put32 cl), (EmmTag_data_id, put16 did), (EmmTag_data_type, [ty])]"
| "emmg_fields (EmmgStreamCloseRequest v ch st cl) =
     [(EmmTag_data_channel_id, put16 ch), (EmmTag_data_stream_id, put16 st), (EmmTag_client_id, put32 cl)]"
| "emmg_fields (EmmgStreamCloseResponse v ch st cl) =
     [(EmmTag_data_channel_id, put16 ch), (EmmTag_data_stream_id, put16 st), (EmmTag_client_id, put32 cl)]"
| "emmg_fields (EmmgStreamError v ch st cl es ei) =
     [(EmmTag_data_channel_id, put16 ch), (EmmTag_data_stream_id, put16 st), (EmmTag_client_id, put32 cl)] @
     map (\<lambda>w. (EmmTag_error_status, put16 w)) es @
     map (\<lambda>w. (EmmTag_error_information, put16 w)) ei"
| "emmg_fields (EmmgStreamBWRequest v ch st cl h_bw bw) =
     [(EmmTag_data_channel_id, put16 ch), (EmmTag_data_stream_id, put16 st), (EmmTag_client_id, put32 cl)] @
     (if h_bw then [(EmmTag_bandwidth, put16 bw)] else [])"
| "emmg_fields (EmmgStreamBWAllocation v ch st cl h_bw bw) =
     [(EmmTag_data_channel_id, put16 ch), (EmmTag_data_stream_id, put16 st), (EmmTag_client_id, put32 cl)] @
     (if h_bw then [(EmmTag_bandwidth, put16 bw)] else [])"
| "emmg_fields (EmmgDataProvision v ch st cl did ds) =
     [(EmmTag_data_channel_id, put16 ch), (EmmTag_data_stream_id, put16 st), (EmmTag_client_id, put32 cl), (EmmTag_data_id, put16 did)] @
     map (\<lambda>d. (EmmTag_datagram, the d)) (filter (\<lambda>d. d \<noteq> None) ds)"

text \<open>A message that the protocol can carry: the parameters fit in one field, an absent optional value has its default, an
  error message has an error status and a data provision has data.\<close>

fun emmg_consistent :: "EmmgMessage \<Rightarrow> bool" where
  "emmg_consistent (EmmgChannelError v ch cl es ei) \<longleftrightarrow> es \<noteq> []"
| "emmg_consistent (EmmgStreamError v ch st cl es ei) \<longleftrightarrow> es \<noteq> []"
| "emmg_consistent (EmmgStreamBWRequest v ch st cl h_bw bw) \<longleftrightarrow> h_bw \<or> bw = 0"
| "emmg_consistent (EmmgStreamBWAllocation v ch st cl h_bw bw) \<longleftrightarrow> h_bw \<or> bw = 0"
| "emmg_consistent (EmmgDataProvision v ch st cl did ds) \<longleftrightarrow> ds \<noteq> [] \<and> None \<notin> set ds"
| "emmg_consistent m \<longleftrightarrow> True"

definition emmg_valid :: "EmmgMessage \<Rightarrow> bool" where
  "emmg_valid m \<longleftrightarrow> emmg_version m = 3 \<and> length (fields_bytes (emmg_fields m)) < 65536 \<and> emmg_consistent m"

section \<open>The protocol as a table\<close>

lemma emmg_protocol_eq: "emmg_protocol = Protocol True 3
    [(17, [(1, Parameter None 4 4 1 1), (2, Parameter None 1 1 1 1), (3, Parameter None 2 2 1 1)]),
     (18, [(1, Parameter None 4 4 1 1), (3, Parameter None 2 2 1 1)]),
     (19, [(1, Parameter None 4 4 1 1), (2, Parameter None 1 1 1 1), (3, Parameter None 2 2 1 1)]),
     (20, [(1, Parameter None 4 4 1 1), (3, Parameter None 2 2 1 1)]),
     (21, [(1, Parameter None 4 4 1 1), (3, Parameter None 2 2 1 1), (28672, Parameter None 2 2 1 65535), (28673, Parameter None 2 2 0 65535)]),
     (273, [(1, Parameter None 4 4 1 1), (3, Parameter None 2 2 1 1), (4, Parameter None 2 2 1 1),
           (7, Parameter None 1 1 1 1), (8, Parameter None 2 2 1 1)]),
     (274, [(1, Parameter None 4 4 1 1), (3, Parameter None 2 2 1 1), (4, Parameter None 2 2 1 1)]),
     (275, [(1, Parameter None 4 4 1 1), (3, Parameter None 2 2 1 1), (4, Parameter None 2 2 1 1),
           (7, Parameter None 1 1 1 1), (8, Parameter None 2 2 1 1)]),
     (276, [(1, Parameter None 4 4 1 1), (3, Parameter None 2 2 1 1), (4, Parameter None 2 2 1 1)]),
     (277, [(1, Parameter None 4 4 1 1), (3, Parameter None 2 2 1 1), (4, Parameter None 2 2 1 1)]),
     (278, [(1, Parameter None 4 4 1 1), (3, Parameter None 2 2 1 1), (4, Parameter None 2 2 1 1),
           (28672, Parameter None 2 2 1 65535), (28673, Parameter None 2 2 0 65535)]),
     (279, [(1, Parameter None 4 4 1 1), (3, Parameter None 2 2 1 1), (4, Parameter None 2 2 1 1), (6, Parameter None 2 2 0 1)]),
     (280, [(1, Parameter None 4 4 1 1), (3, Parameter None 2 2 1 1), (4, Parameter None 2 2 1 1), (6, Parameter None 2 2 0 1)]),
     (529, [(1, Parameter None 4 4 1 1), (3, Parameter None 2 2 0 1), (4, Parameter None 2 2 0 1),
           (5, Parameter None 0 65535 1 65535), (8, Parameter None 2 2 1 1)])]"
  by (simp add: emmg_protocol_def pr_add_def add_parameter_def Protocol_new_def omap_get_def)

lemma emmg_header [simp]: "header emmg_protocol = [3]" "pr_has_version emmg_protocol" "pr_version emmg_protocol = 3"
  by (simp_all add: header_def emmg_protocol_eq)

section \<open>Writing\<close>

lemma put_datagram_fields:
  "fold put_datagram ds z = append_bytes (fields_bytes (map (\<lambda>d. (EmmTag_datagram, the d)) (filter (\<lambda>d. d \<noteq> None) ds))) z"
  by (induction ds arbitrary: z) (auto simp: put_datagram_def puts)

lemma filter_present: "None \<notin> set ds \<Longrightarrow> filter (\<lambda>d. \<exists>y. d = Some y) ds = ds"
  by (simp add: filter_id_conv) (metis not_None_eq)

lemma map_present: "None \<notin> set ds \<Longrightarrow> map (\<lambda>x. Some (the x)) ds = ds"
  by (induction ds) auto

lemmas emmg_params_defs = EmmgChannelSetup_params_def
  EmmgChannelTest_params_def
  EmmgChannelStatus_params_def
  EmmgChannelClose_params_def
  EmmgChannelError_params_def
  EmmgStreamSetup_params_def
  EmmgStreamTest_params_def
  EmmgStreamStatus_params_def
  EmmgStreamCloseRequest_params_def
  EmmgStreamCloseResponse_params_def
  EmmgStreamError_params_def
  EmmgStreamBWRequest_params_def
  EmmgStreamBWAllocation_params_def
  EmmgDataProvision_params_def

lemma emmg_serializeParameters_fields: "emmg_serializeParameters m z = append_bytes (fields_bytes (emmg_fields m)) z"
  by (cases m) (simp_all add: emmg_params_defs puts put_uint16s_fields put_datagram_fields Let_def)

section \<open>Conformance\<close>

lemma emmg_conforms:
  assumes "emmg_valid m"
  shows "message_ok emmg_protocol (emmg_tag m) (emmg_fields m)"
proof -
  have l: "length (values_of (emmg_fields m) tag) \<le> 65535" for tag
    using values_of_size [of "emmg_fields m" tag] assms by (simp add: emmg_valid_def)
  have "\<forall>f \<in> set (emmg_fields m). short f" using assms by (intro fields_short) (simp add: emmg_valid_def)
  then show ?thesis
    using assms l [of 28672] l [of 28673] l [of 5]
    by (cases m) (auto simp: message_ok_def emmg_protocol_eq omap_get_def field_ok_def counts_ok_def values_of_map_same emmg_valid_def
      Suc_le_eq filter_present simp del: set_filter dest: bspec split: if_splits)
qed

section \<open>Reading\<close>

lemmas emmg_of_defs = EmmgChannelSetup_of_def
  EmmgChannelTest_of_def
  EmmgChannelStatus_of_def
  EmmgChannelClose_of_def
  EmmgChannelError_of_def
  EmmgStreamSetup_of_def
  EmmgStreamTest_of_def
  EmmgStreamStatus_of_def
  EmmgStreamCloseRequest_of_def
  EmmgStreamCloseResponse_of_def
  EmmgStreamError_of_def
  EmmgStreamBWRequest_of_def
  EmmgStreamBWAllocation_of_def
  EmmgDataProvision_of_def

lemma map_datagram_of: "mf_holds mf fs \<Longrightarrow> map (\<lambda>p. Some (mf_value mf p)) (mf_get_all mf tag) = map Some (values_of fs tag)"
  by (simp flip: get_all_values)

lemma emmg_built:
  assumes m: "emmg_valid m" "mf_tag mf = emmg_tag m" "mf_version mf = 3" and h: "mf_holds mf (emmg_fields m)"
  shows "emmg_factory mf = Some m"
proof -
  note v = values_simps [OF h] map_datagram_of [OF h]
  show ?thesis
    using m by (cases m) (auto simp: emmg_factory_def emmg_of_defs get_bool_def v values_of_map_same emmg_valid_def comp_def
      GetUInt8_def filter_present map_present split: if_splits list.splits)
qed

text \<open>No constructor of a message throws on an accepted message.\<close>

lemma emmg_constructors_total:
  assumes "described mf params"
  shows "params = the (omap_get (pr_commands emmg_protocol) EmmTag_channel_setup) \<Longrightarrow> EmmgChannelSetup_of mf \<noteq> None"
    "params = the (omap_get (pr_commands emmg_protocol) EmmTag_channel_test) \<Longrightarrow> EmmgChannelTest_of mf \<noteq> None"
    "params = the (omap_get (pr_commands emmg_protocol) EmmTag_channel_status) \<Longrightarrow> EmmgChannelStatus_of mf \<noteq> None"
    "params = the (omap_get (pr_commands emmg_protocol) EmmTag_channel_close) \<Longrightarrow> EmmgChannelClose_of mf \<noteq> None"
    "params = the (omap_get (pr_commands emmg_protocol) EmmTag_channel_error) \<Longrightarrow> EmmgChannelError_of mf \<noteq> None"
    "params = the (omap_get (pr_commands emmg_protocol) EmmTag_stream_setup) \<Longrightarrow> EmmgStreamSetup_of mf \<noteq> None"
    "params = the (omap_get (pr_commands emmg_protocol) EmmTag_stream_test) \<Longrightarrow> EmmgStreamTest_of mf \<noteq> None"
    "params = the (omap_get (pr_commands emmg_protocol) EmmTag_stream_status) \<Longrightarrow> EmmgStreamStatus_of mf \<noteq> None"
    "params = the (omap_get (pr_commands emmg_protocol) EmmTag_stream_close_request) \<Longrightarrow> EmmgStreamCloseRequest_of mf \<noteq> None"
    "params = the (omap_get (pr_commands emmg_protocol) EmmTag_stream_close_response) \<Longrightarrow> EmmgStreamCloseResponse_of mf \<noteq> None"
    "params = the (omap_get (pr_commands emmg_protocol) EmmTag_stream_error) \<Longrightarrow> EmmgStreamError_of mf \<noteq> None"
    "params = the (omap_get (pr_commands emmg_protocol) EmmTag_stream_BW_request) \<Longrightarrow> EmmgStreamBWRequest_of mf \<noteq> None"
    "params = the (omap_get (pr_commands emmg_protocol) EmmTag_stream_BW_allocation) \<Longrightarrow> EmmgStreamBWAllocation_of mf \<noteq> None"
    "params = the (omap_get (pr_commands emmg_protocol) EmmTag_data_provision) \<Longrightarrow> EmmgDataProvision_of mf \<noteq> None"
  by (simp_all add: emmg_of_defs emmg_protocol_eq omap_get_def Option.bind_eq_None_conv get_bool_None
    described_required [OF assms] described_optional [OF assms] del: not_None_eq)

lemma emmg_total:
  assumes "message_ok emmg_protocol (mf_tag mf) fs" "mf_holds mf fs"
  shows "emmg_factory mf \<noteq> None"
proof -
  obtain params where p: "omap_get (pr_commands emmg_protocol) (mf_tag mf) = Some params" "described mf params"
    using assms by (auto simp: message_ok_def described_def)
  then have t: "params = the (omap_get (pr_commands emmg_protocol) (mf_tag mf))" by simp
  have "mf_tag mf \<in> {EmmTag_channel_setup, EmmTag_channel_test, EmmTag_channel_status, EmmTag_channel_close,
      EmmTag_channel_error, EmmTag_stream_setup, EmmTag_stream_test, EmmTag_stream_status, EmmTag_stream_close_request,
      EmmTag_stream_close_response, EmmTag_stream_error, EmmTag_stream_BW_request, EmmTag_stream_BW_allocation,
      EmmTag_data_provision}"
    using p(1) by (auto simp: emmg_protocol_eq omap_get_def split: if_splits)
  then show ?thesis
    using emmg_constructors_total [OF p(2)] t by (auto simp: emmg_factory_def)
qed

lemma emmg_respond_valid: "emmg_valid (emmg_buildErrorResponse mf)"
  by (simp add: emmg_buildErrorResponse_def emmg_valid_def)

interpretation emmg: tlv_messages emmg_protocol emmg_serialize emmg_factory emmg_buildErrorResponse emmg_valid emmg_tag emmg_fields
proof unfold_locales
  show "sz_bb (emmg_serialize m (Serializer_new [])) = header emmg_protocol @ tlv_bytes (emmg_tag m, fields_bytes (emmg_fields m))"
    if "emmg_valid m" for m
    using that Message_serialize_fields [OF emmg_serializeParameters_fields, of True "emmg_version m" "emmg_tag m" m "Serializer_new []"]
    by (simp add: emmg_serialize_def emmg_valid_def) (simp add: Serializer_new_def)
  show "emmg_valid m \<Longrightarrow> length (fields_bytes (emmg_fields m)) < 65536" for m by (simp add: emmg_valid_def)
  show "emmg_valid m \<Longrightarrow> message_ok emmg_protocol (emmg_tag m) (emmg_fields m)" for m by (rule emmg_conforms)
  show "emmg_valid m \<Longrightarrow> mf_tag mf = emmg_tag m \<Longrightarrow> mf_version mf = pr_version emmg_protocol \<Longrightarrow> mf_holds mf (emmg_fields m) \<Longrightarrow>
      emmg_factory mf = Some m" for m mf using emmg_built by simp
  show "message_ok emmg_protocol (mf_tag mf) fs \<Longrightarrow> mf_holds mf fs \<Longrightarrow> emmg_factory mf \<noteq> None" for mf fs by (rule emmg_total)
  show "emmg_valid (emmg_buildErrorResponse mf)" for mf by (rule emmg_respond_valid)
  show "pr_has_version emmg_protocol" by simp
qed

section \<open>Properties\<close>

text \<open>C16. The messages of the protocol round trip: what is serialized is accepted, with anything behind it, and the factory gives
  the same message. Conversely no accepted message makes a constructor throw, and the response to any
  message is a message that the peer accepts.\<close>

theorem emmg_roundtrip:
  assumes "emmg_valid m" and "mf_error (analyzeMessage msg emmg_protocol) = TLV_OK"
  shows "mf_error (analyzeMessage (wire emmg_serialize m @ junk) emmg_protocol) = TLV_OK \<and>
    emmg_factory (analyzeMessage (wire emmg_serialize m @ junk) emmg_protocol) = Some m \<and>
    emmg_factory (analyzeMessage msg emmg_protocol) \<noteq> None \<and>
    emmg_factory (analyzeMessage (wire emmg_serialize (emmg_buildErrorResponse mf)) emmg_protocol) = Some (emmg_buildErrorResponse mf)"
  using emmg.wire_analyzed [OF assms(1)] emmg.never_throws [OF assms(2)] emmg.wire_analyzed(2) [OF emmg_respond_valid, where junk = "[]"]
  by simp

definition sample_data :: EmmgMessage where
  "sample_data = EmmgDataProvision 3 1 2 0x12345678 7 [Some [0x82, 0x30, 1, 0xFF], Some []]"

theorem emmg_roundtrip_witness: "emmg_factory (analyzeMessage (wire emmg_serialize sample_data) emmg_protocol) = Some sample_data"
proof -
  have "emmg_valid sample_data" by (simp add: emmg_valid_def sample_data_def)
  from emmg_roundtrip [OF this emmg.wire_analyzed(1) [OF this], of "[]"] show ?thesis by simp
qed

end
